(* ===== verification/Prelude.thy ===== *)
theory Prelude
  imports Complex_Main "HOL-Library.Word"
begin

text \<open>
  What every component of the model shares: the exceptions the Python code raises, results
  that are either an exception or a value, and the collections of rewrite rules
  (\<open>py_simps\<close> for the Python runtime, \<open>inv_simps\<close> for component invariants) the component
  theories extend.
\<close>

named_theorems py_simps \<open>rewrite rules for the model of the Python runtime\<close>
named_theorems inv_simps \<open>definitions of the component invariants\<close>

section \<open>Exceptions and results\<close>

text \<open>
  \<open>E_*\<close> are the classes of \<^verbatim>\<open>j.exceptions\<close>, \<open>P_*\<close> the built-in exceptions of Python and its
  standard library. Messages are not modelled.
\<close>

datatype exn =
    E_Value | E_Input | E_Base | E_NotFound | E_JSBUG | E_Timeout | E_Runtime
  | P_ValueError | P_TypeError | P_AssertionError | P_IndexError | P_KeyError
  | P_AttributeError | P_OverflowError | P_StructError | P_RuntimeError
  | P_UnicodeError | P_ZeroDivision | P_NameError | P_NotImplemented | P_Exception

type_synonym 'a res = "exn + 'a"

definition rbind :: "'a res \<Rightarrow> ('a \<Rightarrow> 'b res) \<Rightarrow> 'b res" where
  "rbind m k = (case m of Inl e \<Rightarrow> Inl e | Inr x \<Rightarrow> k x)"

lemma rbind_Inl [simp]: "rbind (Inl e) k = Inl e"
  by (simp add: rbind_def)

lemma rbind_Inr [simp]: "rbind (Inr x) k = k x"
  by (simp add: rbind_def)

lemma rbind_eq_Inr: "rbind m k = Inr y \<longleftrightarrow> (\<exists>x. m = Inr x \<and> k x = Inr y)"
  by (cases m) auto

lemma rbind_InrE: "rbind m k = Inr y \<Longrightarrow> (\<And>x. m = Inr x \<Longrightarrow> k x = Inr y \<Longrightarrow> P) \<Longrightarrow> P"
  by (cases m) auto

lemma rbind_eq_Inl: "rbind m k = Inl e \<longleftrightarrow> m = Inl e \<or> (\<exists>x. m = Inr x \<and> k x = Inl e)"
  by (cases m) auto

lemma rbind_assoc: "rbind (rbind m k) h = rbind m (\<lambda>x. rbind (k x) h)"
  by (cases m) auto

lemma rbind_cong [fundef_cong]:
  "m = m' \<Longrightarrow> (\<And>x. m' = Inr x \<Longrightarrow> k x = k' x) \<Longrightarrow> rbind m k = rbind m' k'"
  by (cases m') auto

text \<open>\<open>assert\<close> statements, and running a loop body over a list until it raises.\<close>

definition py_assert :: "bool \<Rightarrow> unit res" where
  "py_assert b = (if b then Inr () else Inl P_AssertionError)"

lemma py_assert_simps [simp]:
  "py_assert True = Inr ()" "py_assert False = Inl P_AssertionError"
  by (simp_all add: py_assert_def)

fun rmap :: "('a \<Rightarrow> 'b res) \<Rightarrow> 'a list \<Rightarrow> 'b list res" where
  "rmap f [] = Inr []"
| "rmap f (x # xs) = rbind (f x) (\<lambda>y. rbind (rmap f xs) (\<lambda>ys. Inr (y # ys)))"

fun rfold :: "('s \<Rightarrow> 'a \<Rightarrow> 's res) \<Rightarrow> 's \<Rightarrow> 'a list \<Rightarrow> 's res" where
  "rfold f s [] = Inr s"
| "rfold f s (x # xs) = rbind (f s x) (\<lambda>s'. rfold f s' xs)"

lemma rmap_Inr_length: "rmap f xs = Inr ys \<Longrightarrow> length ys = length xs"
  by (induction xs arbitrary: ys) (auto simp: rbind_eq_Inr)

lemma rmap_all:
  "(\<And>x. x \<in> set xs \<Longrightarrow> f x = Inr (g x)) \<Longrightarrow> rmap f xs = Inr (map g xs)"
  by (induction xs) auto

lemma rmap_Inr_elem: "rmap f xs = Inr ys \<Longrightarrow> y \<in> set ys \<Longrightarrow> \<exists>x\<in>set xs. f x = Inr y"
  by (induction xs arbitrary: ys) (auto simp: rbind_eq_Inr)

lemma rmap_append: "rmap f (xs @ ys) = rbind (rmap f xs) (\<lambda>us. rbind (rmap f ys) (\<lambda>vs. Inr (us @ vs)))"
  by (induction xs) (auto simp: rbind_def split: sum.split)

lemma rfold_invariant:
  assumes "rfold f s xs = Inr t" and "P s"
    and "\<And>s x s'. P s \<Longrightarrow> x \<in> set xs \<Longrightarrow> f s x = Inr s' \<Longrightarrow> P s'"
  shows "P t"
  using assms
proof (induction xs arbitrary: s)
  case Nil
  then show ?case by simp
next
  case (Cons x xs)
  from Cons.prems(1) obtain s' where s': "f s x = Inr s'" "rfold f s' xs = Inr t"
    by (auto simp: rbind_eq_Inr)
  have "P s'" by (rule Cons.prems(3) [OF Cons.prems(2) _ s'(1)]) simp
  with s'(2) show ?case
    by (rule Cons.IH) (rule Cons.prems(3), auto)
qed

section \<open>Association lists as Python dictionaries\<close>

text \<open>
  A Python dictionary iterates in insertion order. Where the order is observed the model
  keeps an association list; \<open>d_set\<close> replaces in place or appends, as \<^verbatim>\<open>d[k] = v\<close> does.
\<close>

fun d_get :: "('k \<times> 'v) list \<Rightarrow> 'k \<Rightarrow> 'v option" where
  "d_get [] k = None"
| "d_get ((k', v) # d) k = (if k' = k then Some v else d_get d k)"

fun d_set :: "('k \<times> 'v) list \<Rightarrow> 'k \<Rightarrow> 'v \<Rightarrow> ('k \<times> 'v) list" where
  "d_set [] k v = [(k, v)]"
| "d_set ((k', v') # d) k v = (if k' = k then (k', v) # d else (k', v') # d_set d k v)"

definition d_pop :: "('k \<times> 'v) list \<Rightarrow> 'k \<Rightarrow> ('k \<times> 'v) list" where
  "d_pop d k = filter (\<lambda>(k', v). k' \<noteq> k) d"

definition d_keys :: "('k \<times> 'v) list \<Rightarrow> 'k list" where
  "d_keys d = map fst d"

abbreviation d_has :: "('k \<times> 'v) list \<Rightarrow> 'k \<Rightarrow> bool" where
  "d_has d k \<equiv> d_get d k \<noteq> None"

lemma d_get_set [simp]: "d_get (d_set d k v) k' = (if k' = k then Some v else d_get d k')"
  by (induction d k v rule: d_set.induct) auto

lemma d_get_pop [simp]: "d_get (d_pop d k) k' = (if k' = k then None else d_get d k')"
  by (induction d) (auto simp: d_pop_def)

lemma d_keys_simps [simp]: "d_keys [] = []" "d_keys ((k, v) # d) = k # d_keys d"
  by (simp_all add: d_keys_def)

lemma d_get_None_iff: "d_get d k = None \<longleftrightarrow> k \<notin> set (d_keys d)"
  by (induction d k rule: d_get.induct) (auto split: if_splits)

lemma d_get_Some_mem: "d_get d k = Some v \<Longrightarrow> (k, v) \<in> set d"
  by (induction d) (auto split: if_splits)

lemma d_get_mem_distinct: "distinct (d_keys d) \<Longrightarrow> (k, v) \<in> set d \<Longrightarrow> d_get d k = Some v"
  by (induction d) (auto simp: d_get_None_iff d_keys_def image_iff)

lemma d_keys_set: "d_keys (d_set d k v) = (if k \<in> set (d_keys d) then d_keys d else d_keys d @ [k])"
  by (induction d k v rule: d_set.induct) auto

lemma distinct_d_set [intro]: "distinct (d_keys d) \<Longrightarrow> distinct (d_keys (d_set d k v))"
  by (auto simp: d_keys_set)

lemma distinct_d_pop [intro]: "distinct (d_keys d) \<Longrightarrow> distinct (d_keys (d_pop d k))"
  unfolding d_pop_def d_keys_def by (rule distinct_map_filter)

lemma set_d_keys_pop [simp]: "set (d_keys (d_pop d k)) = set (d_keys d) - {k}"
  by (auto simp: d_pop_def d_keys_def image_iff)

section \<open>Integer division\<close>

lemma int_div_less:
  fixes n :: int
  assumes "0 < k"
  shows "n div k < m \<longleftrightarrow> n < m * k"
proof
  assume "n div k < m"
  then have "(n div k + 1) * k \<le> m * k" using assms by (intro mult_right_mono) auto
  moreover have "n < (n div k + 1) * k"
    unfolding distrib_right using div_mult_mod_eq [of n k] pos_mod_bound [OF assms, of n] by linarith
  ultimately show "n < m * k" by linarith
next
  assume "n < m * k"
  moreover have "n div k * k \<le> n"
    using div_mult_mod_eq [of n k] pos_mod_sign [OF assms, of n] by linarith
  ultimately have "n div k * k < m * k" by linarith
  then show "n div k < m" using assms by (simp add: mult_less_cancel_right)
qed

end
