(* ===== verification/PyStr.thy ===== *)
theory PyStr
  imports Prelude
begin

text \<open>
  The string operations of the Python standard library the modelled code calls. A \<^typ>\<open>string\<close>
  stands for the UTF-8 encoding of a Python string: every operation below is byte-wise the
  same as on code points as long as its separators, patterns and case mapping concern ASCII,
  which is all the source uses. Case mapping and white space are those of ASCII; lengths that
  the code compares are of ASCII text.
\<close>

section \<open>Characters\<close>

definition ccode :: "char \<Rightarrow> nat" where
  "ccode c = of_char c"

definition is_space :: "char \<Rightarrow> bool" where
  "is_space c = (let n = ccode c in (9 \<le> n \<and> n \<le> 13) \<or> (28 \<le> n \<and> n \<le> 32))"

definition is_digit :: "char \<Rightarrow> bool" where
  "is_digit c = (48 \<le> ccode c \<and> ccode c \<le> 57)"

definition is_upper :: "char \<Rightarrow> bool" where
  "is_upper c = (65 \<le> ccode c \<and> ccode c \<le> 90)"

definition is_lower :: "char \<Rightarrow> bool" where
  "is_lower c = (97 \<le> ccode c \<and> ccode c \<le> 122)"

definition is_alpha :: "char \<Rightarrow> bool" where
  "is_alpha c = (is_upper c \<or> is_lower c)"

definition is_alnum :: "char \<Rightarrow> bool" where
  "is_alnum c = (is_alpha c \<or> is_digit c)"

definition lower_char :: "char \<Rightarrow> char" where
  "lower_char c = (if is_upper c then char_of (ccode c + 32) else c)"

definition upper_char :: "char \<Rightarrow> char" where
  "upper_char c = (if is_lower c then char_of (ccode c - 32) else c)"

lemma ccode_bound: "ccode c < 256"
  by (simp add: ccode_def)

lemma ccode_char_of: "n < 256 \<Longrightarrow> ccode (char_of n) = n"
  by (simp add: ccode_def)

lemma ccode_inj: "ccode c = ccode d \<longleftrightarrow> c = d"
  by (simp add: ccode_def)

lemma lower_char_not_upper [simp]: "\<not> is_upper (lower_char c)"
  by (auto simp: lower_char_def is_upper_def ccode_char_of)

lemma upper_char_not_lower [simp]: "\<not> is_lower (upper_char c)"
  by (auto simp: upper_char_def is_lower_def ccode_char_of)

lemma lower_char_idem [simp]: "lower_char (lower_char c) = lower_char c"
  by (subst lower_char_def) simp

lemma upper_char_idem [simp]: "upper_char (upper_char c) = upper_char c"
  by (subst upper_char_def) simp

lemma ccode_cmp_space:
  "is_upper c \<Longrightarrow> \<not> is_space c" "is_lower c \<Longrightarrow> \<not> is_space c" "is_digit c \<Longrightarrow> \<not> is_space c"
  by (auto simp: is_upper_def is_lower_def is_digit_def is_space_def Let_def)

lemma is_lower_lower_char: "is_upper c \<Longrightarrow> is_lower (lower_char c)"
  by (auto simp: lower_char_def is_upper_def is_lower_def ccode_char_of)

lemma is_upper_upper_char: "is_lower c \<Longrightarrow> is_upper (upper_char c)"
  by (auto simp: upper_char_def is_upper_def is_lower_def ccode_char_of)

lemma is_space_lower_char [simp]: "is_space (lower_char c) = is_space c"
  using ccode_cmp_space(1) [of c] ccode_cmp_space(2) [of "lower_char c"] is_lower_lower_char [of c]
  by (cases "is_upper c") (auto simp: lower_char_def)

lemma is_space_upper_char [simp]: "is_space (upper_char c) = is_space c"
  using ccode_cmp_space(2) [of c] ccode_cmp_space(1) [of "upper_char c"] is_upper_upper_char [of c]
  by (cases "is_lower c") (auto simp: upper_char_def)

section \<open>Stripping and case\<close>

definition lstrip_by :: "(char \<Rightarrow> bool) \<Rightarrow> string \<Rightarrow> string" where
  "lstrip_by p s = dropWhile p s"

definition rstrip_by :: "(char \<Rightarrow> bool) \<Rightarrow> string \<Rightarrow> string" where
  "rstrip_by p s = rev (dropWhile p (rev s))"

definition strip_by :: "(char \<Rightarrow> bool) \<Rightarrow> string \<Rightarrow> string" where
  "strip_by p s = rstrip_by p (lstrip_by p s)"

abbreviation strip :: "string \<Rightarrow> string" where
  "strip s \<equiv> strip_by is_space s"

abbreviation rstrip :: "string \<Rightarrow> string" where
  "rstrip s \<equiv> rstrip_by is_space s"

abbreviation strip_chars :: "string \<Rightarrow> string \<Rightarrow> string" where
  "strip_chars cs s \<equiv> strip_by (\<lambda>c. c \<in> set cs) s"

abbreviation rstrip_chars :: "string \<Rightarrow> string \<Rightarrow> string" where
  "rstrip_chars cs s \<equiv> rstrip_by (\<lambda>c. c \<in> set cs) s"

definition lower :: "string \<Rightarrow> string" where
  "lower s = map lower_char s"

definition upper :: "string \<Rightarrow> string" where
  "upper s = map upper_char s"

definition capitalize :: "string \<Rightarrow> string" where
  "capitalize s = (case s of [] \<Rightarrow> [] | c # cs \<Rightarrow> upper_char c # lower cs)"

lemma lower_lower [simp]: "lower (lower s) = lower s"
  by (simp add: lower_def)

lemma upper_upper [simp]: "upper (upper s) = upper s"
  by (simp add: upper_def)

lemma lower_Nil_iff [simp]: "lower s = [] \<longleftrightarrow> s = []"
  by (simp add: lower_def)

lemma length_lower [simp]: "length (lower s) = length s"
  by (simp add: lower_def)

text \<open>A string is stripped when neither end satisfies the predicate.\<close>

definition stripped :: "(char \<Rightarrow> bool) \<Rightarrow> string \<Rightarrow> bool" where
  "stripped p s = (s = [] \<or> (\<not> p (hd s) \<and> \<not> p (last s)))"

lemma dropWhile_id_hd: "s \<noteq> [] \<Longrightarrow> \<not> p (hd s) \<Longrightarrow> dropWhile p s = s"
  by (cases s) auto

lemma strip_by_id: "stripped p s \<Longrightarrow> strip_by p s = s"
  by (cases "s = []")
     (auto simp: stripped_def strip_by_def rstrip_by_def lstrip_by_def dropWhile_id_hd hd_rev)

lemma rstrip_by_hd: "rstrip_by p s \<noteq> [] \<Longrightarrow> hd (rstrip_by p s) = hd s"
proof -
  assume ne: "rstrip_by p s \<noteq> []"
  have "s = rstrip_by p s @ rev (takeWhile p (rev s))"
    unfolding rstrip_by_def
    by (metis rev_append rev_rev_ident takeWhile_dropWhile_id)
  with ne show ?thesis by (metis hd_append2)
qed

lemma rstrip_by_last: "rstrip_by p s \<noteq> [] \<Longrightarrow> \<not> p (last (rstrip_by p s))"
  by (simp add: rstrip_by_def last_rev hd_dropWhile)

lemma stripped_strip_by: "stripped p (strip_by p s)"
proof (cases "strip_by p s = []")
  case True
  then show ?thesis by (simp add: stripped_def)
next
  case False
  then have ne: "rstrip_by p (lstrip_by p s) \<noteq> []" by (simp add: strip_by_def)
  then have "lstrip_by p s \<noteq> []" by (auto simp: rstrip_by_def)
  then have "\<not> p (hd (lstrip_by p s))"
    by (simp add: lstrip_by_def hd_dropWhile)
  then show ?thesis
    using rstrip_by_hd [OF ne] rstrip_by_last [OF ne] by (simp add: stripped_def strip_by_def)
qed

lemma strip_by_idem [simp]: "strip_by p (strip_by p s) = strip_by p s"
  by (rule strip_by_id) (rule stripped_strip_by)

lemma strip_by_Nil [simp]: "strip_by p [] = []"
  by (simp add: strip_by_def rstrip_by_def lstrip_by_def)

lemma strip_by_eq_Nil_iff: "strip_by p s = [] \<longleftrightarrow> (\<forall>c\<in>set s. p c)"
  by (auto simp: strip_by_def rstrip_by_def lstrip_by_def dropWhile_eq_Nil_conv
      dest: set_dropWhileD)
     (metis dropWhile_eq_Nil_conv dropWhile_idem set_dropWhileD)

lemma set_strip_by: "set (strip_by p s) \<subseteq> set s"
  by (auto simp: strip_by_def rstrip_by_def lstrip_by_def dest!: set_dropWhileD)

lemma strip_upper: "strip (upper s) = upper (strip s)"
  by (simp add: strip_by_def rstrip_by_def lstrip_by_def upper_def dropWhile_map rev_map comp_def)

lemma strip_lower: "strip (lower s) = lower (strip s)"
  by (simp add: strip_by_def rstrip_by_def lstrip_by_def lower_def dropWhile_map rev_map comp_def)

section \<open>Searching, replacing, splitting, joining\<close>

fun starts_with :: "string \<Rightarrow> string \<Rightarrow> bool" where
  "starts_with [] s = True"
| "starts_with (p # ps) [] = False"
| "starts_with (p # ps) (c # cs) = (p = c \<and> starts_with ps cs)"

definition ends_with :: "string \<Rightarrow> string \<Rightarrow> bool" where
  "ends_with p s = starts_with (rev p) (rev s)"

fun str_in :: "string \<Rightarrow> string \<Rightarrow> bool" where
  "str_in p [] = (p = [])"
| "str_in p (c # cs) = (starts_with p (c # cs) \<or> str_in p cs)"

abbreviation has_char :: "char \<Rightarrow> string \<Rightarrow> bool" where
  "has_char c s \<equiv> c \<in> set s"

definition remove_char :: "char \<Rightarrow> string \<Rightarrow> string" where
  "remove_char c s = filter (\<lambda>x. x \<noteq> c) s"

function replace_str :: "string \<Rightarrow> string \<Rightarrow> string \<Rightarrow> string" where
  \<comment> \<open>\<^verbatim>\<open>s.replace(p, r)\<close> for a non-empty pattern\<close>
  "replace_str p r [] = []"
| "replace_str p r (c # cs) =
     (if p \<noteq> [] \<and> starts_with p (c # cs) then r @ replace_str p r (drop (length p) (c # cs))
      else c # replace_str p r cs)"
  by pat_completeness auto
termination
  by (relation "measure (\<lambda>(p, r, s). length s)") (auto simp: neq_Nil_conv)

fun count_str :: "string \<Rightarrow> string \<Rightarrow> nat" where
  \<comment> \<open>\<^verbatim>\<open>s.count(p)\<close> for a non-empty pattern that does not overlap itself\<close>
  "count_str p [] = 0"
| "count_str p (c # cs) = (if starts_with p (c # cs) then 1 else 0) + count_str p cs"

fun split_char :: "char \<Rightarrow> string \<Rightarrow> string list" where
  "split_char d [] = [[]]"
| "split_char d (c # cs) =
     (if c = d then [] # split_char d cs
      else (case split_char d cs of [] \<Rightarrow> [[c]] | w # ws \<Rightarrow> (c # w) # ws))"

fun split_first :: "char \<Rightarrow> string \<Rightarrow> (string \<times> string) option" where
  \<comment> \<open>\<^verbatim>\<open>s.split(d, 1)\<close> when it gives two parts; None when \<^verbatim>\<open>d\<close> does not occur\<close>
  "split_first d [] = None"
| "split_first d (c # cs) =
     (if c = d then Some ([], cs) else map_option (\<lambda>(a, b). (c # a, b)) (split_first d cs))"

fun join :: "string \<Rightarrow> string list \<Rightarrow> string" where
  "join sep [] = []"
| "join sep [x] = x"
| "join sep (x # y # ys) = x @ sep @ join sep (y # ys)"

lemma starts_with_iff: "starts_with p s \<longleftrightarrow> (\<exists>t. s = p @ t)"
  by (induction p s rule: starts_with.induct) auto

lemma starts_with_append [simp]: "starts_with p (p @ s)"
  by (auto simp: starts_with_iff)

lemma str_in_single: "str_in [c] s \<longleftrightarrow> c \<in> set s"
  by (induction s) auto

lemma str_in_iff: "str_in p s \<longleftrightarrow> (\<exists>u v. s = u @ p @ v)"
proof (induction s)
  case Nil
  then show ?case by simp
next
  case (Cons c s)
  show ?case
  proof
    assume "str_in p (c # s)"
    then consider "starts_with p (c # s)" | "str_in p s" by auto
    then show "\<exists>u v. c # s = u @ p @ v"
    proof cases
      case 1
      then obtain t where "c # s = p @ t" by (auto simp: starts_with_iff)
      then show ?thesis by (metis append_Nil)
    next
      case 2
      with Cons.IH obtain u v where "s = u @ p @ v" by blast
      then have "c # s = (c # u) @ p @ v" by simp
      then show ?thesis by blast
    qed
  next
    assume "\<exists>u v. c # s = u @ p @ v"
    then obtain u v where uv: "c # s = u @ p @ v" by blast
    show "str_in p (c # s)"
    proof (cases u)
      case Nil
      with uv have "starts_with p (c # s)" by (auto simp: starts_with_iff)
      then show ?thesis by simp
    next
      case (Cons a u')
      with uv have "s = u' @ p @ v" by simp
      with Cons.IH show ?thesis by auto
    qed
  qed
qed

lemma remove_char_notin [simp]: "c \<notin> set (remove_char c s)"
  by (simp add: remove_char_def)

lemma remove_char_id: "c \<notin> set s \<Longrightarrow> remove_char c s = s"
  by (auto simp: remove_char_def filter_id_conv)

lemma split_char_ne [simp]: "split_char d s \<noteq> []"
  by (induction s) (auto split: list.splits)

lemma split_char_notin: "d \<notin> set s \<Longrightarrow> split_char d s = [s]"
  by (induction s) auto

lemma split_char_parts: "w \<in> set (split_char d s) \<Longrightarrow> d \<notin> set w"
  by (induction s arbitrary: w) (fastforce split: if_splits list.splits)+

lemma split_char_append: "d \<notin> set w \<Longrightarrow> split_char d (w @ d # s) = w # split_char d s"
  by (induction w) auto

lemma join_split: "join [d] (split_char d s) = s"
proof (induction s)
  case Nil
  then show ?case by simp
next
  case (Cons c s)
  obtain w ws where w: "split_char d s = w # ws"
    by (cases "split_char d s") auto
  with Cons show ?case by (cases ws) auto
qed

lemma join_Cons: "ws \<noteq> [] \<Longrightarrow> join sep (w # ws) = w @ sep @ join sep ws"
  by (cases ws) auto

lemma split_join: "ws \<noteq> [] \<Longrightarrow> (\<And>w. w \<in> set ws \<Longrightarrow> d \<notin> set w) \<Longrightarrow> split_char d (join [d] ws) = ws"
proof (induction ws)
  case Nil
  then show ?case by simp
next
  case (Cons w ws)
  show ?case
  proof (cases "ws = []")
    case True
    with Cons.prems show ?thesis by (simp add: split_char_notin)
  next
    case False
    with Cons have "split_char d (join [d] ws) = ws" by simp
    with False Cons.prems(2) [of w] show ?thesis by (simp add: join_Cons split_char_append)
  qed
qed

lemma split_first_Some: "split_first d s = Some (a, b) \<longleftrightarrow> s = a @ d # b \<and> d \<notin> set a"
proof (induction s arbitrary: a)
  case Nil
  then show ?case by simp
next
  case (Cons c s)
  then show ?case by (cases a) auto
qed

lemma split_first_None: "split_first d s = None \<longleftrightarrow> d \<notin> set s"
  by (induction s) auto

section \<open>Decimal integers\<close>

definition digit_char :: "nat \<Rightarrow> char" where
  "digit_char n = char_of (48 + n)"

definition digit_val :: "char \<Rightarrow> nat" where
  "digit_val c = ccode c - 48"

function nat_str :: "int \<Rightarrow> string" where
  \<comment> \<open>the decimal digits of a number that is not negative\<close>
  "nat_str n = (if n < 10 then [digit_char (nat n)]
     else nat_str (n div 10) @ [digit_char (nat (n mod 10))])"
  by pat_completeness auto
termination
  by (relation "measure nat") auto

declare nat_str.simps [simp del]

definition int_str :: "int \<Rightarrow> string" where
  "int_str i = (if i < 0 then CHR ''-'' # nat_str (- i) else nat_str i)"

definition digits_val :: "string \<Rightarrow> int" where
  "digits_val s = foldl (\<lambda>n c. 10 * n + int (digit_val c)) 0 s"

definition isdigit :: "string \<Rightarrow> bool" where
  "isdigit s = (s \<noteq> [] \<and> list_all is_digit s)"

text \<open>
  \<^verbatim>\<open>int(s)\<close>: white space around, an optional sign, digits, where single underscores may
  separate digits. None is the \<^verbatim>\<open>ValueError\<close>.
\<close>

fun drop_underscores :: "bool \<Rightarrow> string \<Rightarrow> string option" where
  \<comment> \<open>the flag: an underscore may come next (the character before was a digit)\<close>
  "drop_underscores ok [] = (if ok then Some [] else None)"
| "drop_underscores ok (c # cs) =
     (if is_digit c then map_option ((#) c) (drop_underscores True cs)
      else if c = CHR ''_'' \<and> ok then drop_underscores False cs
      else None)"

definition py_nat :: "string \<Rightarrow> int option" where
  "py_nat s = map_option digits_val (drop_underscores False s)"

definition py_int :: "string \<Rightarrow> int option" where
  "py_int s = (case strip s of
       [] \<Rightarrow> None
     | c # cs \<Rightarrow> if c = CHR ''-'' then map_option uminus (py_nat cs)
                 else if c = CHR ''+'' then py_nat cs
                 else py_nat (c # cs))"

lemma ccode_digit_char: "n < 10 \<Longrightarrow> ccode (digit_char n) = 48 + n"
  by (simp add: digit_char_def ccode_char_of)

lemma is_digit_digit_char [simp]: "n < 10 \<Longrightarrow> is_digit (digit_char n)"
  by (simp add: is_digit_def ccode_digit_char)

lemma digit_val_digit_char [simp]: "n < 10 \<Longrightarrow> digit_val (digit_char n) = n"
  by (simp add: digit_val_def ccode_digit_char)

lemma nat_str_ne [simp]: "nat_str n \<noteq> []"
  by (subst nat_str.simps) simp

lemma nat_str_digits: "0 \<le> n \<Longrightarrow> list_all is_digit (nat_str n)"
proof (induction n rule: nat_str.induct)
  case (1 n)
  then show ?case by (subst nat_str.simps) (auto simp: nat_less_iff)
qed

lemma digits_val_snoc: "digits_val (s @ [c]) = 10 * digits_val s + int (digit_val c)"
  by (simp add: digits_val_def)

lemma digits_val_nat_str [simp]: "0 \<le> n \<Longrightarrow> digits_val (nat_str n) = n"
proof (induction n rule: nat_str.induct)
  case (1 n)
  show ?case
  proof (cases "n < 10")
    case True
    with 1 show ?thesis by (subst nat_str.simps) (simp add: digits_val_def)
  next
    case False
    with 1 show ?thesis by (subst nat_str.simps) (simp add: digits_val_snoc)
  qed
qed

lemma drop_underscores_digits: "list_all is_digit s \<Longrightarrow> s \<noteq> [] \<or> ok \<Longrightarrow> drop_underscores ok s = Some s"
  by (induction s arbitrary: ok) auto

lemma py_nat_digits: "isdigit s \<Longrightarrow> py_nat s = Some (digits_val s)"
  by (simp add: py_nat_def isdigit_def drop_underscores_digits)

lemma isdigit_nat_str [simp]: "0 \<le> n \<Longrightarrow> isdigit (nat_str n)"
  by (simp add: isdigit_def nat_str_digits)

lemma is_digit_not: "is_digit c \<Longrightarrow> c \<noteq> CHR ''-'' \<and> c \<noteq> CHR ''+'' \<and> c \<noteq> CHR '','' \<and> c \<noteq> CHR 0x27 \<and> c \<noteq> CHR 0x22"
  by (auto simp: is_digit_def ccode_def)

lemma digits_stripped: "list_all is_digit s \<Longrightarrow> stripped is_space s"
  using hd_in_set [of s] last_in_set [of s]
  by (auto simp: stripped_def list_all_iff ccode_cmp_space(3))

lemma isdigit_strip: "isdigit s \<Longrightarrow> strip s = s"
  by (simp add: isdigit_def digits_stripped strip_by_id)

lemma py_int_digits: "isdigit s \<Longrightarrow> py_int s = Some (digits_val s)"
proof -
  assume s: "isdigit s"
  then obtain c cs where c: "s = c # cs" "is_digit c"
    by (auto simp: isdigit_def neq_Nil_conv)
  show ?thesis
    using is_digit_not [OF c(2)] py_nat_digits [OF s]
    by (simp add: py_int_def isdigit_strip [OF s]) (simp add: c)
qed

lemma stripped_minus: "list_all is_digit s \<Longrightarrow> s \<noteq> [] \<Longrightarrow> stripped is_space (CHR ''-'' # s)"
  using digits_stripped [of s]
  by (auto simp: stripped_def is_space_def ccode_def)

theorem py_int_int_str [simp]: "py_int (int_str i) = Some i"
proof (cases "i < 0")
  case True
  have "strip (CHR ''-'' # nat_str (- i)) = CHR ''-'' # nat_str (- i)"
    using True by (intro strip_by_id stripped_minus nat_str_digits) auto
  with True show ?thesis
    by (simp add: py_int_def int_str_def py_nat_digits)
next
  case False
  then show ?thesis
    by (simp add: int_str_def py_int_digits)
qed

lemma int_str_ne [simp]: "int_str i \<noteq> []"
  by (simp add: int_str_def)

lemma int_str_chars: "c \<in> set (int_str i) \<Longrightarrow> is_digit c \<or> c = CHR ''-''"
  using nat_str_digits [of i] nat_str_digits [of "- i"]
  by (auto simp: int_str_def list_all_iff split: if_splits)

lemma int_str_stripped: "stripped is_space (int_str i)"
  by (auto simp: int_str_def stripped_minus nat_str_digits digits_stripped)

lemma int_str_inj: "int_str i = int_str k \<longleftrightarrow> i = k"
  by (metis option.inject py_int_int_str)

section \<open>Lines and white-space splitting\<close>

abbreviation lines :: "string \<Rightarrow> string list" where
  "lines s \<equiv> split_char (CHR ''\<newline>'') s"

definition pad_right :: "nat \<Rightarrow> string \<Rightarrow> string" where
  \<comment> \<open>the format \<^verbatim>\<open>%-ns\<close>\<close>
  "pad_right n s = s @ replicate (n - length s) (CHR '' '')"

end
