(* ===== verification/PyVal.thy ===== *)
theory PyVal
  imports PyStr
begin

text \<open>
  Python values. \<open>pyval\<close> are the values the type classes and the schema objects receive;
  bytes are lists of 8-bit words; a float is an IEEE 754 double, held as the rational it
  denotes (the sign of a zero is not kept). Conversions between them (\<^verbatim>\<open>int(x)\<close>, \<^verbatim>\<open>float(s)\<close>,
  \<^verbatim>\<open>str(x)\<close>, \<^verbatim>\<open>encode\<close>, \<^verbatim>\<open>decode\<close>, base64) are those of Python and its standard library.
\<close>

section \<open>Floats\<close>

datatype pyfloat = Fin rat | Inf bool | NaN  \<comment> \<open>\<open>Inf True\<close> is minus infinity\<close>

definition pow2 :: "int \<Rightarrow> rat" where
  "pow2 e = (if 0 \<le> e then 2 ^ nat e else 1 / 2 ^ nat (- e))"

definition pow10 :: "int \<Rightarrow> rat" where
  "pow10 e = (if 0 \<le> e then 10 ^ nat e else 1 / 10 ^ nat (- e))"

function blen :: "int \<Rightarrow> int" where
  "blen n = (if n \<le> 0 then 0 else 1 + blen (n div 2))"
  by pat_completeness auto
termination
  by (relation "measure nat") auto

declare blen.simps [simp del]

definition round_half_even :: "rat \<Rightarrow> int" where
  "round_half_even q = (let f = \<lfloor>q\<rfloor>; d = q - of_int f in
     if d < 1 / 2 then f else if 1 / 2 < d then f + 1 else if even f then f else f + 1)"

definition to_double :: "rat \<Rightarrow> pyfloat" where
  \<comment> \<open>the nearest double: 53 significant bits, ties to even, gradual underflow, overflow to infinity\<close>
  "to_double q = (if q = 0 then Fin 0 else
     (let a = \<bar>q\<bar>; (n, d) = quotient_of a;
          k = blen n - blen d;
          l = (if pow2 k \<le> a then k else k - 1);
          e = max (l - 52) (- 1074);
          r = of_int (round_half_even (a / pow2 e)) * pow2 e
      in if pow2 1024 \<le> r then Inf (q < 0) else Fin (if q < 0 then - r else r)))"

definition float_trunc :: "pyfloat \<Rightarrow> int res" where
  \<comment> \<open>\<^verbatim>\<open>int(f)\<close>: towards zero\<close>
  "float_trunc f = (case f of
     Fin q \<Rightarrow> Inr (if 0 \<le> q then \<lfloor>q\<rfloor> else \<lceil>q\<rceil>) | Inf _ \<Rightarrow> Inl P_OverflowError | NaN \<Rightarrow> Inl P_ValueError)"

definition float_digits :: "string \<Rightarrow> string option" where
  "float_digits s = (if s = [] then Some [] else drop_underscores False s)"

definition float_mantissa :: "string \<Rightarrow> rat option" where
  "float_mantissa s = (case split_first (CHR ''.'') s of
     None \<Rightarrow> map_option (of_int \<circ> digits_val) (drop_underscores False s)
   | Some (a, b) \<Rightarrow> if a = [] \<and> b = [] then None
       else (case (float_digits a, float_digits b) of
          (Some a', Some b') \<Rightarrow> Some (of_int (digits_val (a' @ b')) * pow10 (- int (length b')))
        | _ \<Rightarrow> None))"

definition float_exponent :: "string \<Rightarrow> int option" where
  "float_exponent s = (case s of
     CHR ''-'' # t \<Rightarrow> map_option uminus (py_nat t)
   | CHR ''+'' # t \<Rightarrow> py_nat t
   | _ \<Rightarrow> py_nat s)"

definition float_unsigned :: "string \<Rightarrow> pyfloat option" where
  \<comment> \<open>the text after the sign, in lower case\<close>
  "float_unsigned s = (if s \<in> {''inf'', ''infinity''} then Some (Inf False)
     else if s = ''nan'' then Some NaN
     else (case split_first (CHR ''e'') s of
        None \<Rightarrow> map_option to_double (float_mantissa s)
      | Some (m, x) \<Rightarrow> (case (float_mantissa m, float_exponent x) of
           (Some q, Some e) \<Rightarrow> Some (to_double (q * pow10 e)) | _ \<Rightarrow> None)))"

definition float_neg :: "pyfloat \<Rightarrow> pyfloat" where
  "float_neg f = (case f of Fin q \<Rightarrow> Fin (- q) | Inf b \<Rightarrow> Inf (\<not> b) | NaN \<Rightarrow> NaN)"

definition py_float :: "string \<Rightarrow> pyfloat option" where
  \<comment> \<open>\<^verbatim>\<open>float(s)\<close>; None is the ValueError\<close>
  "py_float s = (case lower (strip s) of
     [] \<Rightarrow> None
   | c # t \<Rightarrow> if c = CHR ''-'' then map_option float_neg (float_unsigned t)
       else if c = CHR ''+'' then float_unsigned t else float_unsigned (c # t))"

text \<open>
  \<^verbatim>\<open>repr(f)\<close>: the least number of significant digits that reads back as the same double and,
  among the candidates with that many digits, the one nearest to it; at most 17 are needed.
\<close>

fun log10_up :: "nat \<Rightarrow> rat \<Rightarrow> int \<Rightarrow> int" where
  \<comment> \<open>the decimal exponent of a positive rational, with fuel (doubles need less than 700)\<close>
  "log10_up 0 a e = e"
| "log10_up (Suc n) a e =
     (if a < pow10 e then log10_up n a (e - 1) else if pow10 (e + 1) \<le> a then log10_up n a (e + 1) else e)"

definition repr_candidates :: "rat \<Rightarrow> int \<Rightarrow> int list" where
  "repr_candidates a p = (let m = round_half_even (a / pow10 p) in
     filter (\<lambda>c. to_double (of_int c * pow10 p) = Fin a) [m, m - 1, m + 1])"

fun repr_search :: "nat \<Rightarrow> rat \<Rightarrow> int \<Rightarrow> nat \<Rightarrow> int \<times> int" where
  \<comment> \<open>digits and decimal exponent of the last digit\<close>
  "repr_search 0 a e n = (round_half_even (a / pow10 (e - 16)), e - 16)"
| "repr_search (Suc k) a e n = (let p = e - int n + 1 in
     case repr_candidates a p of c # _ \<Rightarrow> (c, p) | [] \<Rightarrow> repr_search k a e (Suc n))"

definition float_repr :: "pyfloat \<Rightarrow> string" where
  "float_repr f = (case f of
     NaN \<Rightarrow> ''nan'' | Inf b \<Rightarrow> (if b then ''-inf'' else ''inf'')
   | Fin q \<Rightarrow> if q = 0 then ''0.0'' else
       (let a = \<bar>q\<bar>; sg = (if q < 0 then ''-'' else []);
            (m, p) = repr_search 17 a (log10_up 700 a 0) 1;
            ds = rstrip_chars ''0'' (nat_str m);
            x = p + int (length (nat_str m))  \<comment> \<open>value is 0.ds times ten to the x\<close>
        in if - 4 < x \<and> x \<le> 16 then
             sg @ (if x \<le> 0 then ''0.'' @ replicate (nat (- x)) (CHR ''0'') @ ds
                   else if length ds \<le> nat x then ds @ replicate (nat x - length ds) (CHR ''0'') @ ''.0''
                   else take (nat x) ds @ ''.'' @ drop (nat x) ds)
           else sg @ take 1 ds @ (if length ds = 1 then [] else ''.'' @ drop 1 ds) @ ''e''
             @ (if x - 1 < 0 then ''-'' else ''+'')
             @ (let t = nat_str \<bar>x - 1\<bar> in if length t < 2 then ''0'' @ t else t)))"

lemma float_trunc_of_int: "float_trunc (Fin (of_int i)) = Inr i"
  by (simp add: float_trunc_def)

section \<open>Bytes and text\<close>

type_synonym bytes = "8 word list"

definition byte_of_char :: "char \<Rightarrow> 8 word" where
  "byte_of_char c = word_of_nat (ccode c)"

definition char_of_byte :: "8 word \<Rightarrow> char" where
  "char_of_byte b = char_of (unat b)"

definition encode :: "string \<Rightarrow> bytes" where
  "encode s = map byte_of_char s"

definition utf8_cont :: "nat \<Rightarrow> bool" where
  "utf8_cont b = (128 \<le> b \<and> b < 192)"

fun utf8_ok :: "nat list \<Rightarrow> bool" where
  "utf8_ok [] = True"
| "utf8_ok (b # bs) =
    (if b < 128 then utf8_ok bs
     else (case bs of
        c # r \<Rightarrow>
          if 194 \<le> b \<and> b < 224 then utf8_cont c \<and> utf8_ok r
          else (case r of
             d # r' \<Rightarrow>
               if 224 \<le> b \<and> b < 240 then
                 utf8_cont c \<and> utf8_cont d \<and> (b = 224 \<longrightarrow> 160 \<le> c) \<and> (b = 237 \<longrightarrow> c < 160) \<and> utf8_ok r'
               else (case r' of
                  e # r'' \<Rightarrow> 240 \<le> b \<and> b < 245 \<and> utf8_cont c \<and> utf8_cont d \<and> utf8_cont e
                    \<and> (b = 240 \<longrightarrow> 144 \<le> c) \<and> (b = 244 \<longrightarrow> c < 144) \<and> utf8_ok r''
                | [] \<Rightarrow> False)
           | [] \<Rightarrow> False)
      | [] \<Rightarrow> False))"

definition decode :: "bytes \<Rightarrow> string option" where
  \<comment> \<open>\<^verbatim>\<open>bytes.decode()\<close>; None is the UnicodeDecodeError\<close>
  "decode bs = (if utf8_ok (map unat bs) then Some (map char_of_byte bs) else None)"

lemma unat_byte: "unat (b :: 8 word) < 256"
  using unsigned_less [of b, where ?'a = nat] by simp

lemma char_of_byte_of_char [simp]: "char_of_byte (byte_of_char c) = c"
proof -
  have "unat (byte_of_char c) = ccode c"
    using ccode_bound [of c] by (simp add: byte_of_char_def unat_of_nat)
  then show ?thesis by (simp add: char_of_byte_def ccode_def)
qed

lemma byte_of_char_of_byte [simp]: "byte_of_char (char_of_byte b) = b"
proof -
  have "unat b < 256" by (rule unat_byte)
  then show ?thesis by (simp add: byte_of_char_def char_of_byte_def ccode_char_of)
qed

lemma decode_encode: "utf8_ok (map unat (encode s)) \<Longrightarrow> decode (encode s) = Some s"
  by (simp add: decode_def encode_def comp_def)

lemma encode_decode: "decode bs = Some s \<Longrightarrow> encode s = bs"
  by (auto simp: decode_def encode_def comp_def split: if_splits)

subsection \<open>base64\<close>

definition b64_alphabet :: string where
  "b64_alphabet = ''ABCDEFGHIJKLMNOPQRSTUVWXYZabcdefghijklmnopqrstuvwxyz0123456789+/''"

definition b64_char :: "nat \<Rightarrow> char" where
  "b64_char n = b64_alphabet ! n"

definition b64_val :: "char \<Rightarrow> nat option" where
  "b64_val c = (let k = ccode c in
     if is_upper c then Some (k - 65) else if is_lower c then Some (k - 71)
     else if is_digit c then Some (k + 4)
     else if c = CHR ''+'' then Some 62 else if c = CHR ''/'' then Some 63 else None)"

fun b64_enc :: "nat list \<Rightarrow> string" where
  "b64_enc [] = []"
| "b64_enc [a] = [b64_char (a div 4), b64_char (a mod 4 * 16), CHR ''='', CHR ''='']"
| "b64_enc [a, b] =
     [b64_char (a div 4), b64_char (a mod 4 * 16 + b div 16), b64_char (b mod 16 * 4), CHR ''='']"
| "b64_enc (a # b # c # r) =
     b64_char (a div 4) # b64_char (a mod 4 * 16 + b div 16) # b64_char (b mod 16 * 4 + c div 64)
     # b64_char (c mod 64) # b64_enc r"

text \<open>
  The lenient decoder of \<^verbatim>\<open>binascii.a2b_base64\<close>: characters outside the alphabet are skipped,
  complete padding ends the input, and a quantum left incomplete is an error.
\<close>

fun b64_dec :: "nat \<Rightarrow> nat \<Rightarrow> nat \<Rightarrow> string \<Rightarrow> nat list option" where
  "b64_dec q left pads [] = (if q = 0 then Some [] else None)"
| "b64_dec q left pads (c # cs) =
     (if c = CHR ''='' then
        (if 2 \<le> q then (if 4 \<le> q + Suc pads then Some [] else b64_dec q left (Suc pads) cs)
         else b64_dec q left pads cs)
      else (case b64_val c of
         None \<Rightarrow> b64_dec q left pads cs
       | Some v \<Rightarrow>
           if q = 0 then b64_dec 1 v 0 cs
           else if q = 1 then map_option ((#) (left * 4 + v div 16)) (b64_dec 2 (v mod 16) 0 cs)
           else if q = 2 then map_option ((#) (left * 16 + v div 4)) (b64_dec 3 (v mod 4) 0 cs)
           else map_option ((#) (left * 64 + v)) (b64_dec 0 0 0 cs)))"

definition b64encode :: "bytes \<Rightarrow> string" where
  "b64encode bs = b64_enc (map unat bs)"

definition b64decode :: "string \<Rightarrow> bytes option" where
  \<comment> \<open>\<^verbatim>\<open>base64.b64decode(s)\<close> of a string, which has to be ASCII; None is the exception\<close>
  "b64decode s = (if list_all (\<lambda>c. ccode c < 128) s
     then map_option (map word_of_nat) (b64_dec 0 0 0 s) else None)"

lemma b64_table: "map b64_val b64_alphabet = map Some [0..<64]"
  by (simp add: b64_alphabet_def b64_val_def ccode_def is_upper_def is_lower_def is_digit_def Let_def upt_rec)

lemma b64_char_props:
  assumes "n < 64"
  shows "b64_val (b64_char n) = Some n" "b64_char n \<noteq> CHR ''=''" "ccode (b64_char n) < 128"
proof -
  have l: "length b64_alphabet = 64" by (simp add: b64_alphabet_def)
  have "map b64_val b64_alphabet ! n = map Some [0..<64] ! n" by (simp only: b64_table)
  with assms l show v: "b64_val (b64_char n) = Some n" by (simp add: b64_char_def)
  then show "b64_char n \<noteq> CHR ''=''"
    by (auto simp: b64_val_def ccode_def is_upper_def is_lower_def is_digit_def)
  have "list_all (\<lambda>c. ccode c < 128) b64_alphabet" by (simp add: b64_alphabet_def ccode_def)
  with assms l show "ccode (b64_char n) < 128" by (simp add: list_all_length b64_char_def)
qed

lemma quot_rem: "y < k \<Longrightarrow> (x * k + y) div k = (x :: nat)" "y < k \<Longrightarrow> (x * k + y) mod k = y"
  by simp_all

lemma b64_bounds:
  assumes "a < 256" "b < 256" "c < 256"
  shows "a div 4 < 64" "a mod 4 * 16 < 64" "a mod 4 * 16 + b div 16 < 64"
    "b mod 16 * 4 < (64 :: nat)" "b mod 16 * 4 + c div 64 < 64" "c mod 64 < 64"
    "b div 16 < 16" "c div 64 < 4"
proof -
  have "a mod 4 < 4" "b mod 16 < 16" "c mod 64 < 64" by simp_all
  moreover have bc: "b div 16 < 16" "c div 64 < 4" "a div 4 < 64"
    using assms by (simp_all add: less_mult_imp_div_less)
  ultimately show "a div 4 < 64" "a mod 4 * 16 < 64" "a mod 4 * 16 + b div 16 < 64"
    "b mod 16 * 4 < 64" "b mod 16 * 4 + c div 64 < 64" "c mod 64 < 64" "b div 16 < 16" "c div 64 < 4"
    by linarith+
qed

lemma b64_dec_enc: "list_all (\<lambda>n. n < 256) bs \<Longrightarrow> b64_dec 0 0 0 (b64_enc bs) = Some bs"
proof (induction bs rule: b64_enc.induct)
  case (2 a)
  then show ?case
    using b64_bounds [of a 0 0] by (simp add: b64_char_props)
next
  case (3 a b)
  then show ?case
    using b64_bounds [of a b 0] quot_rem [of "b div 16" 16 "a mod 4"] by (simp add: b64_char_props)
next
  case (4 a b c r)
  then show ?case
    using b64_bounds [of a b c] quot_rem [of "b div 16" 16 "a mod 4"] quot_rem [of "c div 64" 4 "b mod 16"]
    by (simp add: b64_char_props)
qed simp

lemma b64_enc_ascii: "list_all (\<lambda>n. n < 256) bs \<Longrightarrow> list_all (\<lambda>c. ccode c < 128) (b64_enc bs)"
proof (induction bs rule: b64_enc.induct)
  case (2 a)
  then show ?case using b64_bounds [of a 0 0] by (simp add: b64_char_props) (simp add: ccode_def)
next
  case (3 a b)
  then show ?case using b64_bounds [of a b 0] by (simp add: b64_char_props) (simp add: ccode_def)
next
  case (4 a b c r)
  then show ?case using b64_bounds [of a b c] by (simp add: b64_char_props)
qed simp

lemma byte_bounds: "list_all (\<lambda>n. n < 256) (map unat (bs :: bytes))"
  by (auto simp: list_all_iff unat_byte)

lemma b64decode_b64encode: "b64decode (b64encode bs) = Some bs"
  by (simp add: b64decode_def b64encode_def b64_dec_enc [OF byte_bounds] b64_enc_ascii [OF byte_bounds]
      comp_def)

section \<open>Values\<close>

datatype pyval =
    PNone | PBool bool | PInt int | PFloat pyfloat | PStr string | PBytes bytes
  | PList "pyval list" | PTuple "pyval list" | PDict "(pyval \<times> pyval) list"

definition is_str :: "pyval \<Rightarrow> bool" where
  "is_str v = (case v of PStr _ \<Rightarrow> True | _ \<Rightarrow> False)"

definition is_bytes :: "pyval \<Rightarrow> bool" where
  "is_bytes v = (case v of PBytes _ \<Rightarrow> True | _ \<Rightarrow> False)"

definition is_int :: "pyval \<Rightarrow> bool" where
  \<comment> \<open>\<^verbatim>\<open>isinstance(v, int)\<close>: a bool is an int\<close>
  "is_int v = (case v of PInt _ \<Rightarrow> True | PBool _ \<Rightarrow> True | _ \<Rightarrow> False)"

definition is_float :: "pyval \<Rightarrow> bool" where
  "is_float v = (case v of PFloat _ \<Rightarrow> True | _ \<Rightarrow> False)"

definition truth :: "pyval \<Rightarrow> bool" where
  "truth v = (case v of PNone \<Rightarrow> False | PBool b \<Rightarrow> b | PInt i \<Rightarrow> i \<noteq> 0 | PFloat f \<Rightarrow> f \<noteq> Fin 0
     | PStr s \<Rightarrow> s \<noteq> [] | PBytes b \<Rightarrow> b \<noteq> [] | PList l \<Rightarrow> l \<noteq> [] | PTuple l \<Rightarrow> l \<noteq> [] | PDict d \<Rightarrow> d \<noteq> [])"

definition num_of :: "pyval \<Rightarrow> rat option" where
  "num_of v = (case v of PBool b \<Rightarrow> Some (of_bool b) | PInt i \<Rightarrow> Some (of_int i)
     | PFloat (Fin q) \<Rightarrow> Some q | _ \<Rightarrow> None)"

definition py_eq :: "pyval \<Rightarrow> pyval \<Rightarrow> bool" where
  \<comment> \<open>\<^verbatim>\<open>a == b\<close> where one side is not a container: numbers compare across their types\<close>
  "py_eq a b = (case (num_of a, num_of b) of (Some x, Some y) \<Rightarrow> x = y | _ \<Rightarrow> a = b)"

definition py_in :: "pyval \<Rightarrow> pyval list \<Rightarrow> bool" where
  "py_in v vs = list_ex (py_eq v) vs"

definition hex_digit :: "nat \<Rightarrow> char" where
  "hex_digit n = (if n < 10 then digit_char n else char_of (87 + n))"

definition repr_char :: "char \<Rightarrow> char \<Rightarrow> string" where
  \<comment> \<open>one character of \<^verbatim>\<open>repr(s)\<close> between quotes \<open>q\<close>\<close>
  "repr_char q c = (let n = ccode c in
     if c = q \<or> c = CHR 0x5C then [CHR 0x5C, c]
     else if n = 10 then [CHR 0x5C, CHR ''n''] else if n = 13 then [CHR 0x5C, CHR ''r'']
     else if n = 9 then [CHR 0x5C, CHR ''t'']
     else if n < 32 \<or> n = 127 then [CHR 0x5C, CHR ''x'', hex_digit (n div 16), hex_digit (n mod 16)]
     else [c])"

definition str_repr :: "string \<Rightarrow> string" where
  "str_repr s = (let q = (if CHR 0x27 \<in> set s \<and> CHR 0x22 \<notin> set s then CHR 0x22 else CHR 0x27)
     in q # concat (map (repr_char q) s) @ [q])"

definition bytes_repr :: "bytes \<Rightarrow> string" where
  "bytes_repr b = (let s = map char_of_byte b;
       q = (if CHR 0x27 \<in> set s \<and> CHR 0x22 \<notin> set s then CHR 0x22 else CHR 0x27)
     in CHR ''b'' # q # concat (map (\<lambda>c. if 128 \<le> ccode c
          then [CHR 0x5C, CHR ''x'', hex_digit (ccode c div 16), hex_digit (ccode c mod 16)]
          else repr_char q c) s) @ [q])"

fun py_repr :: "pyval \<Rightarrow> string" where
  "py_repr PNone = ''None''"
| "py_repr (PBool b) = (if b then ''True'' else ''False'')"
| "py_repr (PInt i) = int_str i"
| "py_repr (PFloat f) = float_repr f"
| "py_repr (PStr s) = str_repr s"
| "py_repr (PBytes b) = bytes_repr b"
| "py_repr (PList l) = ''['' @ join '', '' (map py_repr l) @ '']''"
| "py_repr (PTuple l) = (case l of [x] \<Rightarrow> ''('' @ concat (map py_repr l) @ '',)''
     | _ \<Rightarrow> ''('' @ join '', '' (map py_repr l) @ '')'')"
| "py_repr (PDict d) = ''{'' @ join '', '' (map (\<lambda>(k, v). py_repr k @ '': '' @ py_repr v) d) @ ''}''"

definition py_str :: "pyval \<Rightarrow> string" where
  "py_str v = (case v of PStr s \<Rightarrow> s | _ \<Rightarrow> py_repr v)"

definition of_int_res :: "int option \<Rightarrow> int res" where
  "of_int_res r = (case r of None \<Rightarrow> Inl P_ValueError | Some i \<Rightarrow> Inr i)"

definition to_int :: "pyval \<Rightarrow> int res" where
  \<comment> \<open>\<^verbatim>\<open>int(v)\<close>\<close>
  "to_int v = (case v of PInt i \<Rightarrow> Inr i | PBool b \<Rightarrow> Inr (of_bool b) | PFloat f \<Rightarrow> float_trunc f
     | PStr s \<Rightarrow> of_int_res (py_int s)
     | PBytes b \<Rightarrow> of_int_res (if list_all (\<lambda>x. unat x < 128) b then py_int (map char_of_byte b) else None)
     | _ \<Rightarrow> Inl P_TypeError)"

definition to_float :: "pyval \<Rightarrow> pyfloat res" where
  \<comment> \<open>\<^verbatim>\<open>float(v)\<close>\<close>
  "to_float v = (case v of
       PInt i \<Rightarrow> (case to_double (of_int i) of Inf _ \<Rightarrow> Inl P_OverflowError | f \<Rightarrow> Inr f)
     | PBool b \<Rightarrow> Inr (Fin (of_bool b)) | PFloat f \<Rightarrow> Inr f
     | PStr s \<Rightarrow> (case py_float s of None \<Rightarrow> Inl P_ValueError | Some f \<Rightarrow> Inr f)
     | PBytes b \<Rightarrow> (if list_all (\<lambda>x. unat x < 128) b
         then (case py_float (map char_of_byte b) of None \<Rightarrow> Inl P_ValueError | Some f \<Rightarrow> Inr f)
         else Inl P_ValueError)
     | _ \<Rightarrow> Inl P_TypeError)"

lemmas py_kind_defs [py_simps] = is_str_def is_bytes_def is_int_def is_float_def

lemma py_in_simps [simp]: "py_in v [] = False" "py_in v (w # ws) = (py_eq v w \<or> py_in v ws)"
  by (simp_all add: py_in_def)

lemma py_eq_refl [simp]: "py_eq v v"
  by (simp add: py_eq_def split: option.split)

lemma to_int_int_str [simp]: "to_int (PStr (int_str i)) = Inr i"
  by (simp add: to_int_def of_int_res_def)

end
