(* ===== verification/FloatFacts.thy ===== *)
theory FloatFacts
  imports PyVal
begin

text \<open>
  What the modelled code relies on of double arithmetic: an integer below \<open>2 ^ 53\<close> is a double,
  and rounding a rational of moderate size changes it by at most one part in \<open>2 ^ 53\<close>. The
  integer quotient of two such integers, computed as \<^verbatim>\<open>int(a / b)\<close>, is then the exact quotient.
\<close>

lemma pow2_powi: "pow2 e = 2 powi e"
  by (cases "0 \<le> e") (simp_all add: pow2_def power_int_def inverse_eq_divide power_one_over)

lemma pow2_pos [simp]: "0 < pow2 e" "0 \<le> pow2 e" "pow2 e \<noteq> 0"
  by (simp_all add: pow2_def)

lemma pow2_add: "pow2 (a + b) = pow2 a * pow2 b"
  by (simp add: pow2_powi power_int_add)

lemma pow2_diff: "pow2 (a - b) = pow2 a / pow2 b"
  by (simp add: pow2_powi power_int_diff)

lemma pow2_mono: "a \<le> b \<Longrightarrow> pow2 a \<le> pow2 b"
  by (simp add: pow2_powi power_int_increasing)

lemma pow2_less_iff: "pow2 a < pow2 b \<longleftrightarrow> a < b"
  using power_int_strict_increasing [of a b "2 :: rat"] pow2_mono [of b a]
  by (auto simp: pow2_powi not_less [symmetric])

lemma pow2_nat: "0 \<le> e \<Longrightarrow> pow2 e = of_int (2 ^ nat e)"
  by (simp add: pow2_def)

lemma blen_bounds: "0 < n \<Longrightarrow> 1 \<le> blen n \<and> 2 ^ nat (blen n - 1) \<le> n \<and> n < 2 ^ nat (blen n)"
proof (induction n rule: blen.induct)
  case (1 n)
  show ?case
  proof (cases "n = 1")
    case True
    then show ?thesis by (subst (1 2 3) blen.simps, simp) (simp add: blen.simps)
  next
    case False
    with 1 have IH: "1 \<le> blen (n div 2)" "2 ^ nat (blen (n div 2) - 1) \<le> n div 2"
        "n div 2 < 2 ^ nat (blen (n div 2))"
      by auto
    have b: "blen n = 1 + blen (n div 2)" using 1 by (subst blen.simps) simp
    obtain k where k: "blen (n div 2) = int (Suc k)"
      using IH(1) by (metis add.commute int_ops(4) zle_iff_zadd)
    have nat: "nat (blen (n div 2) - 1) = k" "nat (blen (n div 2)) = Suc k" "nat (blen n - 1) = Suc k"
        "nat (blen n) = Suc (Suc k)"
      using k b by auto
    have "2 ^ Suc k \<le> n" "n < 2 ^ Suc (Suc k)" using IH(2,3) unfolding nat by auto
    with b k show ?thesis unfolding nat by simp
  qed
qed

lemma rhe_error: "\<bar>of_int (round_half_even q) - q\<bar> \<le> 1 / 2"
proof -
  have "of_int \<lfloor>q\<rfloor> \<le> q" "q < of_int \<lfloor>q\<rfloor> + 1" using floor_correct [of q] by auto
  then show ?thesis by (auto simp: round_half_even_def Let_def abs_le_iff)
qed

lemma rhe_floor: "\<lfloor>q\<rfloor> \<le> round_half_even q"
  by (simp add: round_half_even_def Let_def)

lemma rhe_of_int [simp]: "round_half_even (of_int i) = i"
  by (simp add: round_half_even_def)

definition ilog2 :: "rat \<Rightarrow> int" where
  "ilog2 a = (let (n, d) = quotient_of a; k = blen n - blen d in if pow2 k \<le> a then k else k - 1)"

lemma ilog2_bounds:
  assumes "0 < a"
  shows "pow2 (ilog2 a) \<le> a" "a < pow2 (ilog2 a + 1)"
proof -
  obtain n d where nd: "quotient_of a = (n, d)" by fastforce
  have d: "0 < d" using quotient_of_denom_pos [OF nd] .
  have a: "a = of_int n / of_int d" using quotient_of_div [OF nd] .
  have n: "0 < n" using assms a d by (simp add: zero_less_divide_iff)
  define bn bd where "bn = blen n" and "bd = blen d"
  have b: "1 \<le> bn" "1 \<le> bd" "pow2 (bn - 1) \<le> of_int n" "of_int n < pow2 bn"
      "pow2 (bd - 1) \<le> of_int d" "of_int d < pow2 bd"
    using blen_bounds [OF n] blen_bounds [OF d] unfolding bn_def bd_def
    by (auto simp: pow2_nat simp del: of_int_power)
  have lo: "pow2 (bn - bd - 1) < a"
  proof -
    have "pow2 (bn - bd - 1) * of_int d < pow2 (bn - bd - 1) * pow2 bd"
      using b(6) by simp
    also have "\<dots> = pow2 (bn - 1)" by (simp add: pow2_add [symmetric])
    also have "\<dots> \<le> of_int n" by (rule b)
    finally show ?thesis using d by (simp add: a pos_less_divide_eq)
  qed
  have hi: "a < pow2 (bn - bd + 1)"
  proof -
    have "of_int n < pow2 bn" by (rule b)
    also have "\<dots> = pow2 (bn - bd + 1) * pow2 (bd - 1)" by (simp add: pow2_add [symmetric])
    also have "\<dots> \<le> pow2 (bn - bd + 1) * of_int d" using b(5) by simp
    finally show ?thesis using d by (simp add: a pos_divide_less_eq)
  qed
  show "pow2 (ilog2 a) \<le> a" "a < pow2 (ilog2 a + 1)"
    using lo hi by (auto simp: ilog2_def nd bn_def bd_def Let_def not_le)
qed

lemma to_double_pos:
  assumes "0 < q" "pow2 (- 1022) \<le> q" "q < pow2 1023"
  defines "e \<equiv> ilog2 q - 52"
  shows "to_double q = Fin (of_int (round_half_even (q / pow2 e)) * pow2 e)"
proof -
  note b = ilog2_bounds [OF assms(1)]
  have l: "- 1022 \<le> ilog2 q"
  proof -
    have "pow2 (- 1022) < pow2 (ilog2 q + 1)" using assms(2) b(2) by linarith
    then show ?thesis by (simp add: pow2_less_iff)
  qed
  have u: "ilog2 q < 1023"
  proof -
    have "pow2 (ilog2 q) < pow2 1023" using b(1) assms(3) by linarith
    then show ?thesis by (simp add: pow2_less_iff)
  qed
  define r where "r = of_int (round_half_even (q / pow2 e)) * pow2 e"
  have "r < pow2 1024"
  proof -
    have "of_int (round_half_even (q / pow2 e)) \<le> q / pow2 e + 1 / 2"
      using rhe_error [of "q / pow2 e"] by linarith
    then have "r \<le> (q / pow2 e + 1 / 2) * pow2 e" by (simp add: r_def mult_right_mono)
    also have "\<dots> = q + pow2 e / 2" by (simp add: distrib_right)
    also have "\<dots> < pow2 1023 + pow2 1023 "
    proof -
      have "pow2 e \<le> pow2 1023" using u by (intro pow2_mono) (simp add: e_def)
      with assms(3) pow2_pos [of e] show ?thesis by linarith
    qed
    also have "\<dots> = pow2 1024" using pow2_add [of 1023 1] by (simp add: pow2_def)
    finally show ?thesis .
  qed
  moreover have "max (ilog2 q - 52) (- 1074) = e" using l by (simp add: e_def)
  moreover have "quotient_of \<bar>q\<bar> = quotient_of q" using assms(1) by simp
  ultimately show ?thesis
    using assms(1) unfolding r_def
    by (auto simp: to_double_def ilog2_def Let_def split: prod.splits if_splits)
qed

lemma to_double_error:
  assumes "0 < q" "pow2 (- 1022) \<le> q" "q < pow2 1023"
  obtains r where "to_double q = Fin r" "\<bar>r - q\<bar> \<le> q * pow2 (- 53)"
proof
  define e where "e = ilog2 q - 52"
  define m where "m = (of_int (round_half_even (q / pow2 e)) :: rat)"
  show "to_double q = Fin (m * pow2 e)"
    using to_double_pos [OF assms] by (simp add: m_def e_def)
  have "\<bar>m - q / pow2 e\<bar> \<le> 1 / 2" unfolding m_def by (rule rhe_error)
  then have "\<bar>m - q / pow2 e\<bar> * pow2 e \<le> 1 / 2 * pow2 e" by (rule mult_right_mono) simp
  moreover have "\<bar>m - q / pow2 e\<bar> * pow2 e = \<bar>m * pow2 e - q\<bar>"
  proof -
    have "\<bar>m - q / pow2 e\<bar> * pow2 e = \<bar>(m - q / pow2 e) * pow2 e\<bar>" by (simp add: abs_mult)
    then show ?thesis by (simp add: left_diff_distrib)
  qed
  moreover have "1 / 2 * pow2 e = pow2 (ilog2 q) * pow2 (- 53)"
    using pow2_add [of e "- 1"] pow2_add [of "ilog2 q" "- 53"] by (simp add: e_def pow2_def)
  moreover have "pow2 (ilog2 q) * pow2 (- 53) \<le> q * pow2 (- 53)"
    using ilog2_bounds(1) [OF assms(1)] by (rule mult_right_mono) simp
  ultimately show "\<bar>m * pow2 e - q\<bar> \<le> q * pow2 (- 53)" by linarith
qed

lemma to_double_int_pos:
  assumes "0 < i" "i < 2 ^ 53"
  shows "to_double (of_int i) = Fin (of_int i)"
proof -
  have "ilog2 (of_int i) < 53"
  proof -
    have "pow2 (ilog2 (of_int i)) \<le> of_int i" using assms by (simp add: ilog2_bounds)
    also have "(of_int i :: rat) < of_int (2 ^ 53)" using assms(2) by (simp only: of_int_less_iff)
    also have "\<dots> = pow2 53" by (simp add: pow2_def)
    finally show ?thesis by (simp add: pow2_less_iff)
  qed
  then have e: "ilog2 (of_int i) - 52 \<le> 0" by simp
  define k where "k = nat (- (ilog2 (of_int i) - 52))"
  have p: "pow2 (ilog2 (of_int i) - 52) = 1 / 2 ^ k"
    using e by (auto simp: pow2_def k_def)
  have "(1 :: rat) \<le> of_int i" using assms(1) by simp
  moreover have "pow2 (- 1022) \<le> 1" by (simp add: pow2_def)
  moreover have "of_int i < pow2 1023"
  proof -
    have "(of_int i :: rat) < of_int (2 ^ 53)" using assms(2) by (simp only: of_int_less_iff)
    also have "\<dots> \<le> pow2 1023" by (simp add: pow2_def)
    finally show ?thesis .
  qed
  ultimately have "to_double (of_int i) = Fin (of_int (round_half_even (of_int i / (1 / 2 ^ k))) * (1 / 2 ^ k))"
    using to_double_pos [of "of_int i"] assms(1) by (simp add: p)
  moreover have "of_int i / (1 / 2 ^ k) = (of_int (i * 2 ^ k) :: rat)" by simp
  ultimately show ?thesis by (simp only: rhe_of_int) simp
qed

lemma to_double_ge_int:
  assumes "0 < q" "pow2 (- 1022) \<le> q" "q < pow2 53" "of_int k \<le> q" "to_double q = Fin r"
  shows "of_int k \<le> r"
proof -
  have "pow2 53 \<le> pow2 1023" by (rule pow2_mono) simp
  then have r: "r = of_int (round_half_even (q / pow2 (ilog2 q - 52))) * pow2 (ilog2 q - 52)"
    using to_double_pos [OF assms(1,2)] assms(3,5) by simp
  have "pow2 (ilog2 q) < pow2 53" using ilog2_bounds(1) [OF assms(1)] assms(3) by linarith
  then have e: "ilog2 q - 52 \<le> 0" by (simp add: pow2_less_iff)
  define j where "j = nat (- (ilog2 q - 52))"
  have p: "pow2 (ilog2 q - 52) = 1 / 2 ^ j" using e by (auto simp: pow2_def j_def)
  have "of_int (k * 2 ^ j) \<le> q / (1 / 2 ^ j)" using assms(4) by simp
  then have "k * 2 ^ j \<le> round_half_even (q / (1 / 2 ^ j))"
    using rhe_floor by (meson le_floor_iff order_trans)
  then have "of_int (k * 2 ^ j) \<le> (of_int (round_half_even (q / (1 / 2 ^ j))) :: rat)"
    by (simp only: of_int_le_iff)
  then show ?thesis unfolding r p by (simp add: le_divide_eq)
qed

lemma to_double_minus: "to_double (- q) = float_neg (to_double q)"
  by (auto simp: to_double_def float_neg_def Let_def split: prod.splits)

lemma to_double_int: "\<bar>i\<bar> < 2 ^ 53 \<Longrightarrow> to_double (of_int i) = Fin (of_int i)"
  using to_double_int_pos [of i] to_double_int_pos [of "- i"] to_double_minus [of "of_int i"]
  by (cases "0 < i"; cases "i = 0")
     (auto simp: to_double_def float_neg_def split: pyfloat.splits)

text \<open>\<^verbatim>\<open>int(a / b)\<close> of integers that are doubles is the exact quotient.\<close>

lemma int_true_div:
  assumes "0 \<le> a" "a < 2 ^ 53" "0 < b" "b < 2 ^ 53"
  shows "rbind (Inr (to_double (of_int a / of_int b))) float_trunc = Inr (a div b)"
proof (cases "a = 0")
  case True
  then show ?thesis by (simp add: to_double_def float_trunc_def)
next
  case False
  with assms have a: "0 < a" by simp
  define q where "q = (of_int a / of_int b :: rat)"
  have q: "0 < q" using a assms(3) by (simp add: q_def)
  have bq: "pow2 (- 1022) \<le> q"
  proof -
    have "pow2 (- 1022) \<le> 1 / 2 ^ 53" by (simp add: pow2_def)
    also have "(1 / 2 ^ 53 :: rat) \<le> 1 / of_int b"
    proof -
      have "(of_int b :: rat) < of_int (2 ^ 53)" using assms(4) by (simp only: of_int_less_iff)
      then show ?thesis using assms(3) by (intro divide_left_mono) auto
    qed
    also have "\<dots> \<le> q" unfolding q_def using a assms(3) by (intro divide_right_mono) auto
    finally show ?thesis .
  qed
  have q53: "q < pow2 53"
  proof -
    have "1 \<le> b" using assms(3) by simp
    then have "(1 :: rat) \<le> of_int b" by (simp only: of_int_1_le_iff)
    then have "of_int a / of_int b \<le> (of_int a / 1 :: rat)" using a by (intro divide_left_mono) auto
    then have "q \<le> of_int a" by (simp add: q_def)
    also have "\<dots> < of_int (2 ^ 53)" using assms(2) by (simp only: of_int_less_iff)
    also have "\<dots> = pow2 53" by (simp add: pow2_def)
    finally show ?thesis .
  qed
  have "pow2 53 \<le> pow2 1023" by (rule pow2_mono) simp
  with q53 have "q < pow2 1023" by linarith
  then obtain r where r: "to_double q = Fin r" "\<bar>r - q\<bar> \<le> q * pow2 (- 53)"
    using to_double_error q bq by blast
  define k where "k = a div b"
  have k: "of_int k \<le> q" "q \<le> of_int (k + 1) - 1 / of_int b"
  proof -
    have "k * b \<le> a" using assms(3) unfolding k_def by (simp add: minus_mod_eq_div_mult [symmetric])
    then have "of_int (k * b) \<le> (of_int a :: rat)" by (simp only: of_int_le_iff)
    then show "of_int k \<le> q" using assms(3) by (simp add: q_def le_divide_eq)
    have "a + 1 \<le> (k + 1) * b"
    proof -
      have "a mod b < b" using assms(3) by simp
      moreover have "a = k * b + a mod b" by (simp add: k_def)
      ultimately show ?thesis by (simp add: distrib_right)
    qed
    then have "of_int (a + 1) \<le> (of_int ((k + 1) * b) :: rat)" by (simp only: of_int_le_iff)
    then show "q \<le> of_int (k + 1) - 1 / of_int b"
      using assms(3) by (simp add: q_def field_simps)
  qed
  have err: "q * pow2 (- 53) < 1 / of_int b"
  proof -
    have "(of_int a :: rat) < of_int (2 ^ 53)" using assms(2) by (simp only: of_int_less_iff)
    then have "of_int a * pow2 (- 53) < 1" by (simp add: pow2_def)
    then have "of_int a * pow2 (- 53) / of_int b < 1 / of_int b"
      using assms(3) by (intro divide_strict_right_mono) auto
    then show ?thesis by (simp add: q_def)
  qed
  have up: "r < of_int (k + 1)" using r(2) k(2) err by linarith
  have low: "of_int k \<le> r" by (rule to_double_ge_int [OF q bq q53 k(1) r(1)])
  have "\<lfloor>r\<rfloor> = k" using up low by (simp add: floor_unique)
  moreover have "0 \<le> r"
  proof -
    have "0 \<le> k" using a assms(3) by (simp add: k_def pos_imp_zdiv_nonneg_iff)
    then have "(0 :: rat) \<le> of_int k" by simp
    with low show ?thesis by linarith
  qed
  ultimately show ?thesis using r(1) by (simp add: q_def [symmetric] float_trunc_def k_def)
qed

end
