(* ===== verification/TypesPrim.thy ===== *)
theory TypesPrim
  imports PyVal FloatFacts
begin

text \<open>
  The primitive types of \<^verbatim>\<open>data/types/PrimitiveTypes.py\<close>. A type object is its class and its
  \<^verbatim>\<open>_default\<close>, so every method takes the default \<open>d\<close> as its first argument; \<open>*_init\<close> is what
  the constructor stores there. \<^verbatim>\<open>default_get\<close> of the base class cleans the default; the default
  stored by a constructor is never \<^verbatim>\<open>None\<close>, so that call does not recur.
\<close>

section \<open>Base class\<close>

definition init_default :: "pyval \<Rightarrow> pyval \<Rightarrow> pyval" where
  \<comment> \<open>\<^verbatim>\<open>if not default: default = ...; self._default = default\<close>\<close>
  "init_default fallback d = (if truth d then d else fallback)"

definition base_default_get :: "(pyval \<Rightarrow> pyval res) \<Rightarrow> pyval \<Rightarrow> pyval res" where
  \<comment> \<open>the argument is \<^verbatim>\<open>clean\<close> on values that are not \<^verbatim>\<open>None\<close>\<close>
  "base_default_get cl d = (if d = PNone then Inl E_Value else cl d)"

definition base_toString :: "(pyval \<Rightarrow> pyval res) \<Rightarrow> pyval \<Rightarrow> string res" where
  "base_toString cl v = rbind (cl v) (\<lambda>x. Inr (py_str x))"

definition base_possible :: "(pyval \<Rightarrow> pyval res) \<Rightarrow> pyval \<Rightarrow> bool" where
  "base_possible cl v = (case cl (PStr (py_str v)) of Inr _ \<Rightarrow> True | Inl _ \<Rightarrow> False)"

definition base_python_code_get :: "(pyval \<Rightarrow> pyval res) \<Rightarrow> pyval \<Rightarrow> string res" where
  "base_python_code_get cl v = rbind (cl v) (\<lambda>x. Inr ([CHR 0x27] @ py_str x @ [CHR 0x27]))"

definition base_toml_string_get :: "(pyval \<Rightarrow> pyval res) \<Rightarrow> pyval \<Rightarrow> string \<Rightarrow> string res" where
  "base_toml_string_get cl v key = rbind (cl v) (\<lambda>x.
     if key = [] then Inr ([CHR 0x27] @ py_str x @ [CHR 0x27])
     else Inr (key @ '' = '' @ [CHR 0x27] @ py_str x @ [CHR 0x27]))"

definition capnp_line :: "string \<Rightarrow> string \<Rightarrow> int \<Rightarrow> string" where
  \<comment> \<open>the format \<^verbatim>\<open>"%s @%s :Type;"\<close> of every \<^verbatim>\<open>capnp_schema_get\<close>\<close>
  "capnp_line ty name nr = name @ '' @'' @ int_str nr @ '' :'' @ ty @ '';''"

section \<open>String\<close>

definition string_init :: "pyval \<Rightarrow> pyval" where
  "string_init d = init_default (PStr []) d"

definition string_check :: "pyval \<Rightarrow> bool" where
  "string_check v = is_str v"

definition unquote :: "string \<Rightarrow> string" where
  "unquote s = (let s2 = strip s in
     if 1 < length s2 then
       (if hd s2 = CHR 0x27 \<and> last s2 = CHR 0x27 then strip_chars [CHR 0x27] s2
        else if hd s2 = CHR 0x22 \<and> last s2 = CHR 0x22 then strip_chars [CHR 0x22] s2
        else s)
     else s)"

definition string_clean_val :: "pyval \<Rightarrow> pyval res" where
  "string_clean_val v = (case v of
       PStr s \<Rightarrow> (if lower s = ''none'' then Inr PNone else Inr (PStr (unquote s)))
     | PBytes b \<Rightarrow> (case decode b of None \<Rightarrow> Inl P_UnicodeError | Some s \<Rightarrow> Inr (PStr (unquote s)))
     | _ \<Rightarrow> Inr (PStr (unquote (py_str v))))"

definition string_default_get :: "pyval \<Rightarrow> pyval res" where
  "string_default_get d = base_default_get string_clean_val d"

definition string_clean :: "pyval \<Rightarrow> pyval \<Rightarrow> pyval res" where
  "string_clean d v = (if v = PNone then string_default_get d else string_clean_val v)"

definition jstring_clean :: "pyval \<Rightarrow> pyval res" where
  \<comment> \<open>\<^verbatim>\<open>j.data.types.string.clean\<close>, the type with the default \<^verbatim>\<open>""\<close>\<close>
  "jstring_clean v = string_clean (string_init PNone) v"

definition string_fromString :: "pyval \<Rightarrow> pyval \<Rightarrow> pyval res" where
  "string_fromString d v = string_clean d v"

definition string_toJSON :: "pyval \<Rightarrow> pyval \<Rightarrow> pyval res" where
  "string_toJSON d v = string_clean d v"

definition str_of :: "pyval \<Rightarrow> string res" where
  \<comment> \<open>a method call such as \<^verbatim>\<open>.lower()\<close> on a value that ought to be a string\<close>
  "str_of v = (case v of PStr s \<Rightarrow> Inr s | _ \<Rightarrow> Inl P_AttributeError)"

text \<open>No quotes at the ends: \<open>clean\<close> leaves the string alone.\<close>

definition quoted :: "string \<Rightarrow> bool" where
  "quoted s = (let s2 = strip s in 1 < length s2 \<and>
     ((hd s2 = CHR 0x27 \<and> last s2 = CHR 0x27) \<or> (hd s2 = CHR 0x22 \<and> last s2 = CHR 0x22)))"

lemma unquote_id: "\<not> quoted s \<Longrightarrow> unquote s = s"
  by (auto simp: quoted_def unquote_def Let_def)

lemma set_unquote: "set (unquote s) \<subseteq> set s"
  using set_strip_by [of is_space s] set_strip_by [of _ "strip s"]
  by (auto simp: unquote_def Let_def)

lemma jstring_clean_str: "jstring_clean (PStr s) = (if lower s = ''none'' then Inr PNone else Inr (PStr (unquote s)))"
  by (simp add: jstring_clean_def string_clean_def string_clean_val_def)

section \<open>StringMultiLine\<close>

definition newline :: char where
  "newline = CHR ''\<newline>''"

definition multiline_init :: "pyval \<Rightarrow> pyval" where
  "multiline_init d = init_default (PStr []) d"

definition multiline_check :: "pyval \<Rightarrow> bool" where
  "multiline_check v = (case v of
     PStr s \<Rightarrow> str_in [CHR 0x5C, CHR ''n''] s \<or> str_in [newline] s | _ \<Rightarrow> False)"

definition multiline_clean :: "pyval \<Rightarrow> pyval \<Rightarrow> pyval res" where
  "multiline_clean d v = (if \<not> truth v then Inr d
     else if \<not> multiline_check v then Inl E_Value else Inr v)"

definition quotes3 :: string where
  "quotes3 = replicate 3 (CHR 0x27)"

definition multiline_python_code_get :: "pyval \<Rightarrow> pyval \<Rightarrow> string res" where
  "multiline_python_code_get d v = rbind (multiline_clean d v) (\<lambda>x. rbind (str_of x) (\<lambda>s.
     let out0 = quotes3 @ [newline];
         out1 = out0 @ concat (map (\<lambda>item. item @ [newline]) (split_char newline s));
         out2 = rstrip out1 @ [newline] @ quotes3
     in Inr (if out2 = quotes3 @ quotes3
             then quotes3 @ ''default '' @ [newline] @ '' value '' @ quotes3 else out2)))"

definition multiline_toml_string_get :: "pyval \<Rightarrow> pyval \<Rightarrow> string \<Rightarrow> string res" where
  "multiline_toml_string_get d v key =
     (if key = [] then multiline_python_code_get d v
      else rbind (multiline_clean d v) (\<lambda>x. rbind (str_of x) (\<lambda>s.
        let out0 = key @ '' = '' @ quotes3 @ [newline]
              @ concat (map (\<lambda>item. ''    '' @ item @ [newline]) (split_char newline s))
        in Inr (rstrip out0 @ [newline] @ ''    '' @ quotes3))))"

section \<open>Bytes\<close>

definition bytes_init :: "pyval \<Rightarrow> pyval" where
  "bytes_init d = init_default (PBytes []) d"

definition bytes_check :: "pyval \<Rightarrow> bool" where
  "bytes_check v = is_bytes v"

definition bytes_fromString :: "pyval \<Rightarrow> pyval res" where
  \<comment> \<open>the error branch names \<^verbatim>\<open>j.exceptions.input\<close>, which does not exist\<close>
  "bytes_fromString v = (case v of
     PStr s \<Rightarrow> (case b64decode s of
        Some b \<Rightarrow> Inr (PBytes b)
      | None \<Rightarrow> rbind (jstring_clean v) (\<lambda>x. rbind (str_of x) (\<lambda>t. Inr (PBytes (encode t)))))
   | _ \<Rightarrow> Inl P_AttributeError)"

definition bytes_clean_val :: "pyval \<Rightarrow> pyval res" where
  "bytes_clean_val v = (if is_str v then bytes_fromString v
     else if \<not> bytes_check v then Inl E_Value else Inr v)"

definition bytes_default_get :: "pyval \<Rightarrow> pyval res" where
  "bytes_default_get d = base_default_get bytes_clean_val d"

definition bytes_clean :: "pyval \<Rightarrow> pyval \<Rightarrow> pyval res" where
  "bytes_clean d v = (if v = PNone then bytes_default_get d else bytes_clean_val v)"

definition bytes_toString :: "pyval \<Rightarrow> pyval \<Rightarrow> string res" where
  "bytes_toString d v = rbind (bytes_clean d v) (\<lambda>x. case x of
     PBytes b \<Rightarrow> Inr (b64encode b) | _ \<Rightarrow> Inl P_TypeError)"

definition bytes_toml_string_get :: "pyval \<Rightarrow> pyval \<Rightarrow> string \<Rightarrow> string res" where
  "bytes_toml_string_get d v key = rbind (bytes_toString d v) (\<lambda>s.
     Inr (if key = [] then s else key @ '' = '' @ s))"

section \<open>Boolean\<close>

definition bool_init :: "pyval \<Rightarrow> pyval" where
  "bool_init d = init_default (PBool False) d"

definition bool_check :: "pyval \<Rightarrow> bool" where
  "bool_check v = (case v of PBool _ \<Rightarrow> True | _ \<Rightarrow> False)"

definition bool_clean_val :: "pyval \<Rightarrow> pyval res" where
  "bool_clean_val v = (if is_str v
     then rbind (jstring_clean v) (\<lambda>x. rbind (str_of x) (\<lambda>s.
       Inr (PBool (strip (lower s) \<in> {''true'', ''yes'', ''y'', ''1''}))))
     else Inr (PBool (py_in v [PInt 1, PBool True])))"

definition bool_default_get :: "pyval \<Rightarrow> pyval res" where
  "bool_default_get d = base_default_get bool_clean_val d"

definition bool_clean :: "pyval \<Rightarrow> pyval \<Rightarrow> pyval res" where
  "bool_clean d v = (if v = PNone then bool_default_get d else bool_clean_val v)"

definition bool_python_code_get :: "pyval \<Rightarrow> pyval \<Rightarrow> string res" where
  "bool_python_code_get d v = rbind (bool_clean d v) (\<lambda>x. Inr (if truth x then ''True'' else ''False''))"

definition bool_toml_string_get :: "pyval \<Rightarrow> pyval \<Rightarrow> string \<Rightarrow> string res" where
  "bool_toml_string_get d v key = rbind (bool_clean d v) (\<lambda>x.
     if key = [] then Inr (if truth x then ''true'' else ''false'')
     else Inr (key @ '' = '' @ (if truth x then ''true'' else ''false'')))"

section \<open>Integer and Int64\<close>

text \<open>
  The two classes have the same methods and differ in the value that means "not set"
  (the largest 32-bit, respectively 64-bit, signed integer) and in the capnp type.
\<close>

definition unset32 :: int where
  "unset32 = 2147483647"

definition unset64 :: int where
  "unset64 = 9223372036854775807"

definition int_init :: "pyval \<Rightarrow> pyval" where
  "int_init d = init_default (PInt unset32) d"

definition int64_init :: "pyval \<Rightarrow> pyval" where
  "int64_init d = init_default (PInt unset64) d"

definition int_check :: "pyval \<Rightarrow> bool" where
  "int_check v = is_int v"

definition int_checkString :: "string \<Rightarrow> bool" where
  "int_checkString s = isdigit s"

definition int_of_text :: "string \<Rightarrow> pyval" where
  \<comment> \<open>the string branch of \<^verbatim>\<open>clean\<close>: a text that is no number stays as it is\<close>
  "int_of_text s = (let s2 = (if CHR '','' \<in> set s then remove_char (CHR '','') s else s) in
     if s2 = [] then PInt 0
     else (case py_int s2 of Some i \<Rightarrow> PInt i | None \<Rightarrow> PStr s2))"

definition int_clean_val :: "pyval \<Rightarrow> pyval res" where
  "int_clean_val v =
     rbind (case v of PFloat f \<Rightarrow> rbind (float_trunc f) (\<lambda>i. Inr (PInt i)) | _ \<Rightarrow> Inr v) (\<lambda>v1.
     rbind (if is_str v1 then rbind (jstring_clean v1) (\<lambda>x. rbind (str_of x) (\<lambda>s. Inr (int_of_text (strip s))))
            else Inr v1) (\<lambda>v2.
     if \<not> int_check v2 then Inl E_Value else Inr v2))"

definition int_default_get :: "pyval \<Rightarrow> pyval res" where
  "int_default_get d = base_default_get int_clean_val d"

definition int_clean :: "pyval \<Rightarrow> pyval \<Rightarrow> pyval res" where
  "int_clean d v = (if v = PNone then int_default_get d else int_clean_val v)"

definition jint_clean :: "pyval \<Rightarrow> pyval res" where
  "jint_clean v = int_clean (int_init PNone) v"

definition int64_clean_val :: "pyval \<Rightarrow> pyval res" where
  "int64_clean_val v =
     rbind (case v of PFloat f \<Rightarrow> rbind (float_trunc f) (\<lambda>i. Inr (PInt i)) | _ \<Rightarrow> Inr v) (\<lambda>v1.
     rbind (if is_str v1 then rbind (jstring_clean v1) (\<lambda>x. rbind (str_of x) (\<lambda>s. Inr (int_of_text (strip s))))
            else Inr v1) (\<lambda>v2.
     if \<not> is_int v2 then Inl E_Value else Inr v2))"

definition int64_clean :: "pyval \<Rightarrow> pyval \<Rightarrow> pyval res" where
  "int64_clean d v = (if v = PNone then base_default_get int64_clean_val d else int64_clean_val v)"

function group3 :: "string \<Rightarrow> string" where
  \<comment> \<open>the digits with a comma between groups of three, counted from the right\<close>
  "group3 s = (if length s \<le> 3 then s
     else group3 (take (length s - 3) s) @ '','' @ drop (length s - 3) s)"
  by pat_completeness auto
termination
  by (relation "measure length") auto

declare group3.simps [simp del]

definition commas :: "int \<Rightarrow> string" where
  \<comment> \<open>the format \<^verbatim>\<open>"{:,}"\<close>\<close>
  "commas i = (if i < 0 then CHR ''-'' # group3 (nat_str (- i)) else group3 (nat_str i))"

definition int_toHR_with :: "int \<Rightarrow> (pyval \<Rightarrow> pyval res) \<Rightarrow> pyval \<Rightarrow> string res" where
  "int_toHR_with unset cl v = rbind (to_int v) (\<lambda>i.
     if i = unset then Inr ''-''
     else rbind (cl v) (\<lambda>x. rbind (to_int x) (\<lambda>n. Inr (commas n))))"

definition int_toHR :: "pyval \<Rightarrow> pyval \<Rightarrow> string res" where
  "int_toHR d v = int_toHR_with unset32 (int_clean d) v"

definition int64_toHR :: "pyval \<Rightarrow> pyval \<Rightarrow> string res" where
  "int64_toHR d v = int_toHR_with unset64 (int64_clean d) v"

definition plain_toml_string_get :: "(pyval \<Rightarrow> pyval res) \<Rightarrow> pyval \<Rightarrow> string \<Rightarrow> string res" where
  \<comment> \<open>\<^verbatim>\<open>toml_string_get\<close> of the integer and float classes: no quotes\<close>
  "plain_toml_string_get cl v key = rbind (cl v) (\<lambda>x.
     Inr (if key = [] then py_str x else key @ '' = '' @ py_str x))"

definition int_toml_string_get :: "pyval \<Rightarrow> pyval \<Rightarrow> string \<Rightarrow> string res" where
  "int_toml_string_get d v key = plain_toml_string_get (int_clean d) v key"

definition int64_toml_string_get :: "pyval \<Rightarrow> pyval \<Rightarrow> string \<Rightarrow> string res" where
  "int64_toml_string_get d v key = plain_toml_string_get (int64_clean d) v key"

section \<open>Float and Percent\<close>

definition float_init :: "pyval \<Rightarrow> pyval" where
  "float_init d = init_default (PFloat (Fin 0)) d"

definition float_check :: "pyval \<Rightarrow> bool" where
  "float_check v = is_float v"

definition float_checkString :: "string \<Rightarrow> bool" where
  "float_checkString s = (py_float s \<noteq> None)"

definition float_clean_val :: "pyval \<Rightarrow> pyval res" where
  "float_clean_val v = (if float_check v then Inr v else rbind (to_float v) (\<lambda>f. Inr (PFloat f)))"

definition float_clean :: "pyval \<Rightarrow> pyval \<Rightarrow> pyval res" where
  "float_clean d v = (if v = PNone then base_default_get float_clean_val d else float_clean_val v)"

definition float_toml_string_get :: "pyval \<Rightarrow> pyval \<Rightarrow> string \<Rightarrow> string res" where
  "float_toml_string_get d v key = plain_toml_string_get (float_clean d) v key"

definition float_python_code_get :: "pyval \<Rightarrow> pyval \<Rightarrow> string res" where
  "float_python_code_get d v = float_toml_string_get d v []"

definition float_div100 :: "pyfloat \<Rightarrow> pyfloat" where
  "float_div100 f = (case f of Fin q \<Rightarrow> to_double (q / 100) | _ \<Rightarrow> f)"

definition percent_clean_val :: "pyval \<Rightarrow> pyval res" where
  "percent_clean_val v = (case v of
     PStr s \<Rightarrow>
       (let s2 = strip (strip_chars [CHR 0x27] (strip_chars [CHR 0x22] (strip s))) in
        if CHR ''%'' \<in> set s2
        then rbind (to_float (PStr (remove_char (CHR ''%'') s2))) (\<lambda>f. Inr (PFloat (float_div100 f)))
        else rbind (to_float (PStr s2)) (\<lambda>f. Inr (PFloat f)))
   | _ \<Rightarrow> if is_int v \<or> is_float v then rbind (to_float v) (\<lambda>f. Inr (PFloat f)) else Inl E_Value)"

definition percent_clean :: "pyval \<Rightarrow> pyval \<Rightarrow> pyval res" where
  "percent_clean d v = (if v = PNone then base_default_get percent_clean_val d else percent_clean_val v)"

definition percent_toString :: "pyval \<Rightarrow> pyval \<Rightarrow> string res" where
  \<comment> \<open>\<^verbatim>\<open>int(v) == v\<close> compares exactly\<close>
  "percent_toString d v = rbind (percent_clean d v) (\<lambda>x. rbind (to_int x) (\<lambda>i.
     Inr (py_str (if py_eq (PInt i) x then PInt i else x) @ ''%'')))"

section \<open>CapnpBin\<close>

definition capnpbin_clean :: "pyval \<Rightarrow> pyval res" where
  "capnpbin_clean v = Inr v"

section \<open>Lemmas on the primitive types\<close>

text \<open>Texts of digits, commas and minus signs: what the integer classes print.\<close>

definition numeric_text :: "string \<Rightarrow> bool" where
  "numeric_text s = list_all (\<lambda>c. is_digit c \<or> c = CHR '','' \<or> c = CHR ''-'') s"

lemma numeric_char:
  assumes "is_digit c \<or> c = CHR '','' \<or> c = CHR ''-''"
  shows "lower_char c = c" "\<not> is_space c" "c \<noteq> CHR 0x27" "c \<noteq> CHR 0x22" "c \<noteq> CHR ''n''"
  using assms
  by (auto simp: lower_char_def is_digit_def is_upper_def is_space_def ccode_def Let_def)

lemma numeric_text_lower: "numeric_text s \<Longrightarrow> lower s = s"
  by (induction s) (simp_all add: numeric_text_def lower_def numeric_char(1))

lemma numeric_text_chars:
  assumes "numeric_text s" "c \<in> set s"
  shows "\<not> is_space c" "c \<noteq> CHR 0x27" "c \<noteq> CHR 0x22" "c \<noteq> CHR ''n''"
proof -
  have "is_digit c \<or> c = CHR '','' \<or> c = CHR ''-''"
    using assms unfolding numeric_text_def list_all_iff by (rule bspec)
  then show "\<not> is_space c" "c \<noteq> CHR 0x27" "c \<noteq> CHR 0x22" "c \<noteq> CHR ''n''"
    by (rule numeric_char)+
qed

lemma numeric_text_strip: "numeric_text s \<Longrightarrow> strip s = s"
  using numeric_text_chars(1) [of s "hd s"] numeric_text_chars(1) [of s "last s"]
  by (intro strip_by_id) (auto simp: stripped_def)

lemma numeric_text_jstring:
  assumes "numeric_text s"
  shows "jstring_clean (PStr s) = Inr (PStr s)"
proof -
  have "\<not> quoted s"
  proof (cases s)
    case (Cons a t)
    then have "hd s \<noteq> CHR 0x27" "hd s \<noteq> CHR 0x22"
      by (simp_all add: numeric_text_chars [OF assms])
    then show ?thesis by (simp add: quoted_def numeric_text_strip [OF assms] Let_def)
  qed (simp add: quoted_def)
  moreover have "lower s \<noteq> ''none''"
    using numeric_text_chars(4) [OF assms, of "CHR ''n''"] by (auto simp: numeric_text_lower [OF assms])
  ultimately show ?thesis by (simp add: jstring_clean_str unquote_id)
qed

lemma int_clean_val_numeric:
  "numeric_text s \<Longrightarrow> int_clean_val (PStr s) = (if int_check (int_of_text s) then Inr (int_of_text s) else Inl E_Value)"
  by (simp add: int_clean_val_def is_str_def numeric_text_jstring str_of_def numeric_text_strip)

lemma numeric_int_str: "numeric_text (int_str i)"
  by (auto simp: numeric_text_def list_all_iff dest!: int_str_chars)

lemma remove_char_append: "remove_char c (s @ t) = remove_char c s @ remove_char c t"
  by (simp add: remove_char_def)

lemma remove_comma_group3 [simp]: "remove_char (CHR '','') (group3 s) = remove_char (CHR '','') s"
proof (induction s rule: group3.induct)
  case (1 s)
  show ?case
  proof (cases "length s \<le> 3")
    case True
    then show ?thesis by (subst group3.simps) simp
  next
    case False
    have "remove_char (CHR '','') (group3 s) =
        remove_char (CHR '','') (group3 (take (length s - 3) s)) @ remove_char (CHR '','') (drop (length s - 3) s)"
      using False by (subst group3.simps) (simp add: remove_char_append, simp add: remove_char_def)
    also have "\<dots> = remove_char (CHR '','') (take (length s - 3) s @ drop (length s - 3) s)"
      using "1.IH" [OF False] by (simp only: remove_char_append)
    finally show ?thesis by simp
  qed
qed

lemma set_group3: "set (group3 s) \<subseteq> insert (CHR '','') (set s)"
proof (induction s rule: group3.induct)
  case (1 s)
  show ?case
  proof (cases "length s \<le> 3")
    case True
    then show ?thesis by (subst group3.simps) auto
  next
    case False
    with 1 have "set (group3 (take (length s - 3) s)) \<subseteq> insert (CHR '','') (set s)"
      using set_take_subset [of "length s - 3" s] by blast
    with False show ?thesis
      using set_drop_subset [of "length s - 3" s] by (subst group3.simps) auto
  qed
qed

lemma digits_no_comma: "list_all is_digit s \<Longrightarrow> CHR '','' \<notin> set s"
  by (auto simp: list_all_iff dest!: bspec is_digit_not)

lemma remove_comma_commas: "remove_char (CHR '','') (commas i) = int_str i"
  by (auto simp: commas_def int_str_def remove_char_id digits_no_comma nat_str_digits)
     (simp add: remove_char_def [of _ "_ # _"], simp add: remove_char_def [symmetric] remove_char_id digits_no_comma nat_str_digits)

lemma numeric_commas: "numeric_text (commas i)"
proof -
  have "c \<in> set (commas i) \<Longrightarrow> is_digit c \<or> c = CHR '','' \<or> c = CHR ''-''" for c
    using set_group3 [of "nat_str i"] set_group3 [of "nat_str (- i)"] nat_str_digits [of i] nat_str_digits [of "- i"]
    by (auto simp: commas_def list_all_iff split: if_splits)
  then show ?thesis by (auto simp: numeric_text_def list_all_iff)
qed

lemma int_of_text_commas: "int_of_text (commas i) = PInt i"
proof -
  have "(if CHR '','' \<in> set (commas i) then remove_char (CHR '','') (commas i) else commas i) = int_str i"
    by (simp add: remove_comma_commas) (metis remove_char_id remove_comma_commas)
  then show ?thesis by (simp add: int_of_text_def Let_def)
qed

lemma int_of_text_int_str: "int_of_text (int_str i) = PInt i"
proof -
  have "CHR '','' \<notin> set (int_str i)"
    by (auto simp: is_digit_def ccode_def dest!: int_str_chars)
  then show ?thesis by (simp add: int_of_text_def Let_def)
qed

lemma int_clean_val_is_int: "int_clean_val v = Inr w \<Longrightarrow> is_int w"
  by (auto simp: int_clean_val_def rbind_eq_Inr int_check_def split: if_splits)

section \<open>Properties\<close>

text \<open>What \<^verbatim>\<open>Integer\<close> prints it reads back: the plain decimal text of any integer, and the
  human-readable text with thousands separators of any integer but the "not set" value
  2147483647 (which prints as a dash), clean to that integer.\<close>

theorem int_text_roundtrip:
  "int_clean d (PStr (int_str i)) = Inr (PInt i)
   \<and> (i \<noteq> unset32 \<longrightarrow> (\<exists>s. int_toHR d (PInt i) = Inr s \<and> int_clean d (PStr s) = Inr (PInt i)))"
proof -
  have ts: "int_clean d (PStr (commas i)) = Inr (PInt i)" "int_clean d (PStr (int_str i)) = Inr (PInt i)"
    by (simp_all add: int_clean_def int_clean_val_numeric numeric_commas numeric_int_str int_of_text_commas
        int_of_text_int_str int_check_def is_int_def)
  have "int_clean d (PInt i) = Inr (PInt i)"
    by (simp add: int_clean_def int_clean_val_def is_str_def int_check_def is_int_def)
  then have "i \<noteq> unset32 \<longrightarrow> int_toHR d (PInt i) = Inr (commas i)"
    by (simp add: int_toHR_def int_toHR_with_def to_int_def)
  with ts show ?thesis by simp
qed

theorem int_text_roundtrip_witness:
  "(-1234567 :: int) \<noteq> unset32
   \<and> (\<exists>s. int_toHR (PInt 0) (PInt (-1234567)) = Inr s \<and> int_clean (PInt 0) (PStr s) = Inr (PInt (-1234567)))"
  using int_text_roundtrip [of "PInt 0" "-1234567"] by (simp add: unset32_def)

text \<open>C34: Everything \<^verbatim>\<open>Integer.clean\<close> returns passes \<^verbatim>\<open>Integer.check\<close>, and cleaning it again
  changes nothing.\<close>

theorem int_clean_checked:
  assumes "int_clean d v = Inr w"
  shows "int_check w \<and> int_clean d w = Inr w"
proof -
  from assms have w: "is_int w"
    by (auto simp: int_clean_def int_default_get_def base_default_get_def split: if_splits
        dest: int_clean_val_is_int)
  then have "w \<noteq> PNone" "int_clean_val w = Inr w"
    by (auto simp: is_int_def int_clean_val_def int_check_def is_str_def split: pyval.splits)
  with w show ?thesis by (simp add: int_check_def int_clean_def)
qed

theorem int_clean_checked_witness:
  "int_clean (PInt 0) (PStr '' 1,000 '') = Inr (PInt 1000) \<and> int_clean (PInt 0) (PInt 1000) = Inr (PInt 1000)"
proof -
  have "int_clean (PInt 0) (PStr '' 1,000 '') = Inr (PInt 1000)" by code_simp
  with int_clean_checked [OF this] show ?thesis by simp
qed

text \<open>\<^verbatim>\<open>Bytes.toString\<close> followed by \<^verbatim>\<open>Bytes.clean\<close> gives the bytes back, whatever they are:
  the base64 decoder inverts the encoder.\<close>

theorem bytes_text_roundtrip:
  "\<exists>s. bytes_toString d (PBytes b) = Inr s \<and> bytes_clean d (PStr s) = Inr (PBytes b)"
  by (simp add: bytes_toString_def bytes_clean_def bytes_clean_val_def bytes_fromString_def
      bytes_check_def is_str_def is_bytes_def b64decode_b64encode)

text \<open>\<^verbatim>\<open>Boolean.clean\<close> turns every value into a boolean, except the text "none" in any
  case: the string type cleans it to \<^verbatim>\<open>None\<close>, on which the method call \<^verbatim>\<open>.lower()\<close> raises an
  AttributeError, although the docstring promises False for everything else.\<close>

theorem bool_clean_total_but_none:
  "(case v of PStr s \<Rightarrow>
      if lower s = ''none'' then bool_clean (bool_init d) v = Inl P_AttributeError
      else \<exists>b. bool_clean (bool_init d) v = Inr (PBool b)
    | PNone \<Rightarrow> is_str d \<or> (\<exists>b. bool_clean (bool_init d) v = Inr (PBool b))
    | _ \<Rightarrow> \<exists>b. bool_clean (bool_init d) v = Inr (PBool b))"
  by (auto simp: bool_clean_def bool_clean_val_def jstring_clean_str str_of_def is_str_def
      bool_default_get_def base_default_get_def bool_init_def init_default_def truth_def
      split: pyval.split)

lemma float_repr_half: "float_repr (Fin (1 / 2)) = ''0.5''"
proof -
  have "log10_up (Suc (Suc n)) (1 / 2) 0 = - 1" for n
    by (cases n) (simp_all add: pow10_def)
  from this [of 698] have l: "log10_up 700 (1 / 2) 0 = - 1" by simp
  have "to_double (1 / 2) = Fin (1 / 2)" by code_simp
  then have "repr_search (Suc n) (1 / 2) (- 1) 1 = (5, - 1)" for n
    using rhe_of_int [of 5] by (simp add: repr_candidates_def pow10_def)
  from this [of 16] have r: "repr_search 17 (1 / 2) (- 1) 1 = (5, - 1)" by simp
  have n: "nat_str 5 = ''5''" by code_simp
  show ?thesis using r by (simp add: float_repr_def l n rstrip_by_def)
qed

text \<open>\<^verbatim>\<open>Percent.toString\<close> of the fraction one half is the text "0.5%", which \<^verbatim>\<open>Percent.clean\<close>
  reads as half a percent: printing and reading back divides by one hundred.\<close>

theorem percent_text_not_roundtrip:
  "percent_toString d (PFloat (Fin (1 / 2))) = Inr ''0.5%''
   \<and> percent_clean d (PStr ''0.5%'') = Inr (PFloat (to_double (1 / 200)))"
proof
  have floor_half: "\<lfloor>1 / 2 :: rat\<rfloor> = 0" by (simp add: floor_unique)
  have "float_repr (Fin (1 / 2)) = ''0.5''" by (rule float_repr_half)
  then show "percent_toString d (PFloat (Fin (1 / 2))) = Inr ''0.5%''"
    using floor_half by (simp add: percent_toString_def percent_clean_def percent_clean_val_def is_int_def
        is_float_def to_float_def to_int_def float_trunc_def py_eq_def num_of_def py_str_def)
  have f: "py_float ''0.5'' = Some (Fin (1 / 2))" by code_simp
  have t: "strip (strip_chars [CHR 0x27] (strip_chars [CHR 0x22] (strip ''0.5%''))) = ''0.5%''" by code_simp
  have "percent_clean_val (PStr ''0.5%'') = Inr (PFloat (to_double (1 / 200)))"
    unfolding percent_clean_val_def pyval.case t Let_def
    by (simp add: remove_char_def to_float_def f float_div100_def)
  then show "percent_clean d (PStr ''0.5%'') = Inr (PFloat (to_double (1 / 200)))"
    by (simp add: percent_clean_def)
qed

end
