(* ===== verification/TimeData.thy ===== *)
theory TimeData
  imports FloatFacts
begin

text \<open>
  The time helpers of \<^verbatim>\<open>data/time/Time.py\<close>: relative times such as "3d 2h", ids of minutes, hours
  and days, and the conversions of dates to epochs. The current time, and \<^verbatim>\<open>mktime(strptime(...))\<close>,
  which depends on the time zone of the machine, are arguments.
\<close>

section \<open>Float operators\<close>

definition py_truediv :: "int \<Rightarrow> int \<Rightarrow> pyfloat res" where
  \<comment> \<open>\<^verbatim>\<open>a / b\<close> of integers: the correctly rounded quotient\<close>
  "py_truediv a b = (if b = 0 then Inl P_ZeroDivision
     else (case to_double (of_int a / of_int b) of Inf _ \<Rightarrow> Inl P_OverflowError | f \<Rightarrow> Inr f))"

definition int_fdiv :: "int \<Rightarrow> int \<Rightarrow> pyfloat res" where
  \<comment> \<open>\<^verbatim>\<open>a / b\<close> of an integer and a positive float that holds an integer: the integer is converted first\<close>
  "int_fdiv a b = rbind (to_float (PInt a)) (\<lambda>f. Inr (case f of Fin q \<Rightarrow> to_double (q / of_int b) | _ \<Rightarrow> f))"

definition py_fsub :: "pyfloat \<Rightarrow> pyfloat \<Rightarrow> pyfloat" where
  "py_fsub x y = (case (x, y) of (Fin p, Fin q) \<Rightarrow> to_double (p - q)
     | (Inf a, Inf b) \<Rightarrow> if a = b then NaN else Inf a
     | (Inf a, Fin _) \<Rightarrow> Inf a | (Fin _, Inf b) \<Rightarrow> Inf (\<not> b) | _ \<Rightarrow> NaN)"

definition py_fmul_int :: "pyfloat \<Rightarrow> int \<Rightarrow> pyfloat" where
  \<comment> \<open>\<^verbatim>\<open>x * n\<close> with a positive integer that is a double\<close>
  "py_fmul_int x n = (case x of Fin q \<Rightarrow> to_double (q * of_int n) | _ \<Rightarrow> x)"

definition py_round :: "nat \<Rightarrow> pyfloat \<Rightarrow> pyfloat" where
  \<comment> \<open>\<^verbatim>\<open>round(x, n)\<close>: the nearest decimal with \<open>n\<close> places, ties to even\<close>
  "py_round n x = (case x of Fin q \<Rightarrow> to_double (of_int (round_half_even (q * 10 ^ n)) / 10 ^ n) | _ \<Rightarrow> x)"

section \<open>Relative times\<close>

definition TIMES :: "(char \<times> int) list" where
  "TIMES = [(CHR ''Y'', 3600 * 24 * 365), (CHR ''M'', 2628000), (CHR ''w'', 3600 * 24 * 7),
    (CHR ''d'', 3600 * 24), (CHR ''h'', 3600), (CHR ''m'', 60), (CHR ''s'', 1)]"

fun split_ws :: "string \<Rightarrow> string list" where
  \<comment> \<open>\<^verbatim>\<open>s.split()\<close>: the runs of characters that are not white space\<close>
  "split_ws [] = []"
| "split_ws (c # cs) =
     (if is_space c then split_ws cs
      else (case cs of
         [] \<Rightarrow> [[c]]
       | d # _ \<Rightarrow> if is_space d then [c] # split_ws cs
                 else (case split_ws cs of [] \<Rightarrow> [[c]] | w # ws \<Rightarrow> (c # w) # ws)))"

definition delta_item :: "int \<Rightarrow> string \<Rightarrow> int res" where
  \<comment> \<open>one round of the loop of \<^verbatim>\<open>getDeltaTime\<close>\<close>
  "delta_item seconds txt = (case d_get TIMES (last txt) of
     None \<Rightarrow> Inl E_Runtime
   | Some u \<Rightarrow> rbind (to_float (PStr (butlast txt))) (\<lambda>value.
       rbind (float_trunc (py_fmul_int value u)) (\<lambda>n. Inr (seconds + n))))"

definition getDeltaTime :: "string \<Rightarrow> int res" where
  "getDeltaTime txt = rfold delta_item 0 (split_ws (strip txt))"

fun hr_delta_loop :: "(char \<times> int) list \<Rightarrow> int \<Rightarrow> string \<Rightarrow> string res" where
  "hr_delta_loop [] seconds result = Inr result"
| "hr_delta_loop ((key, value) # ts) seconds result =
     rbind (rbind (py_truediv seconds value) float_trunc) (\<lambda>decimal.
       hr_delta_loop ts (seconds - decimal * value)
         (if 0 < decimal then result @ int_str decimal @ [key] @ '' '' else result))"

definition secondsToHRDelta :: "int \<Rightarrow> string res" where
  "secondsToHRDelta seconds = rbind (hr_delta_loop TIMES seconds []) (\<lambda>r. Inr (strip r))"

definition getEpochDeltaTime :: "int \<Rightarrow> string option \<Rightarrow> int res" where
  \<comment> \<open>\<open>now\<close> is \<^verbatim>\<open>int(time.time())\<close>\<close>
  "getEpochDeltaTime now txt = (case txt of
     None \<Rightarrow> Inr now
   | Some t \<Rightarrow> if strip t = ''0'' then Inr now
       else rbind (getDeltaTime t) (\<lambda>d. Inr (now + d)))"

definition getSecondsInHR :: "int \<Rightarrow> string res" where
  "getSecondsInHR seconds =
    (let minute = 60; hour = 3600; day = hour * 24; week = day * 7;
         show = (\<lambda>unit name. rbind (int_fdiv seconds unit) (\<lambda>f. Inr (float_repr (py_round 1 f) @ name)))
     in if seconds < minute then Inr (int_str seconds @ '' seconds'')
        else if seconds < hour then show minute '' minutes''
        else if seconds < day then show hour '' hours''
        else if seconds < week then show day '' days''
        else show week '' weeks'')"

section \<open>Ids of time slots since 2010\<close>

definition epoch2010 :: int where
  "epoch2010 = 1262318400"

definition getMinuteId :: "int \<Rightarrow> int res" where
  \<comment> \<open>\<^verbatim>\<open>int((epoch - 1262318400.0) / 60.0)\<close>\<close>
  "getMinuteId epoch = (if epoch < epoch2010 then Inl E_Runtime
     else (case to_double (of_int epoch) of
        Inf _ \<Rightarrow> Inl P_OverflowError
      | e \<Rightarrow> (case py_fsub e (Fin (of_int epoch2010)) of
            Fin q \<Rightarrow> float_trunc (to_double (q / 60))
          | f \<Rightarrow> float_trunc f)))"

definition int_div_float :: "int \<Rightarrow> int \<Rightarrow> int res" where
  \<comment> \<open>\<^verbatim>\<open>int(a / b)\<close>\<close>
  "int_div_float a b = rbind (py_truediv a b) float_trunc"

definition getHourId :: "int \<Rightarrow> int res" where
  "getHourId epoch = rbind (getMinuteId epoch) (\<lambda>m. int_div_float m 60)"

definition get5MinuteId :: "int \<Rightarrow> int res" where
  "get5MinuteId epoch = rbind (getMinuteId epoch) (\<lambda>m. int_div_float m 5)"

definition getDayId :: "int \<Rightarrow> int res" where
  "getDayId epoch = rbind (getMinuteId epoch) (\<lambda>m. int_div_float m (60 * 24))"

definition fiveMinuteIdToEpoch :: "int \<Rightarrow> int" where
  "fiveMinuteIdToEpoch i = i * 60 * 5 + epoch2010"

section \<open>Dates to epochs\<close>

text \<open>
  \<open>mk fmt txt\<close> is \<^verbatim>\<open>time.mktime(time.strptime(txt, fmt))\<close>, or None when it raises.
\<close>

definition HRDateToEpoch :: "(string \<Rightarrow> string \<Rightarrow> int option) \<Rightarrow> string \<Rightarrow> int res" where
  "HRDateToEpoch mk datestr = (if strip datestr = [] then Inr 0
     else (case mk ''%Y/%m/%d'' (strip datestr) of None \<Rightarrow> Inl E_Value | Some t \<Rightarrow> Inr t))"

definition HRDateTime2epoch :: "(string \<Rightarrow> string \<Rightarrow> int option) \<Rightarrow> string \<Rightarrow> int res" where
  "HRDateTime2epoch mk hrdatetime = (if strip hrdatetime = [] then Inr 0
     else (case mk ''%Y/%m/%d %H:%M:%S'' (strip hrdatetime) of None \<Rightarrow> Inl E_Value | Some t \<Rightarrow> Inr t))"

text \<open>
  \<^verbatim>\<open>any2epoch\<close>: the second attempt on a string calls \<^verbatim>\<open>self.HRDatetoEpoch\<close>, a name the class
  does not have (the method is \<^verbatim>\<open>HRDateToEpoch\<close>), so it raises an AttributeError that the bare
  except swallows. Values that are datetime objects are outside \<^typ>\<open>pyval\<close>.
\<close>

fun any2epoch :: "(string \<Rightarrow> string \<Rightarrow> int option) \<Rightarrow> bool \<Rightarrow> pyval \<Rightarrow> int res"
  and any2epoch_list :: "(string \<Rightarrow> string \<Rightarrow> int option) \<Rightarrow> pyval list \<Rightarrow> int res" where
  "any2epoch mk in_list (PList vs) = any2epoch_list mk vs"
| "any2epoch mk in_list (PTuple vs) = any2epoch_list mk vs"
| "any2epoch mk in_list PNone = Inr 0"
| "any2epoch mk in_list (PInt i) = Inr i"
| "any2epoch mk in_list (PBool b) = Inr (of_bool b)"
| "any2epoch mk in_list (PStr s) =
     (case HRDateTime2epoch mk s of
        Inr t \<Rightarrow> Inr t
      | Inl _ \<Rightarrow> if in_list then Inr 0 else Inl E_Input)"
| "any2epoch mk in_list (PFloat f) = (if in_list then Inr 0 else Inl E_Input)"
| "any2epoch mk in_list (PBytes b) = (if in_list then Inr 0 else Inl E_Input)"
| "any2epoch mk in_list (PDict d) = (if in_list then Inr 0 else Inl E_Input)"
| "any2epoch_list mk [] = Inr 0"
| "any2epoch_list mk (v # vs) = rbind (any2epoch mk True v) (\<lambda>r.
     if r \<noteq> 0 then Inr r else any2epoch_list mk vs)"

section \<open>Lemmas\<close>

lemma py_truediv_trunc:
  assumes "0 \<le> a" "a < 2 ^ 53" "0 < b" "b < 2 ^ 53"
  shows "rbind (py_truediv a b) float_trunc = Inr (a div b)"
  using int_true_div [OF assms] assms(3)
  by (auto simp: py_truediv_def float_trunc_def split: pyfloat.splits)

lemma py_float_digits:
  assumes "isdigit s"
  shows "py_float s = Some (to_double (of_int (digits_val s)))"
proof -
  have d: "c \<in> set s \<Longrightarrow> is_digit c" for c using assms by (auto simp: isdigit_def list_all_iff)
  have low: "lower s = s"
    unfolding lower_def by (rule map_idI) (drule d, auto simp: lower_char_def is_upper_def is_digit_def)
  have ex: "split_first (CHR ''e'') s = None" "split_first (CHR ''.'') s = None"
    using d [of "CHR ''e''"] d [of "CHR ''.''"] by (auto simp: split_first_None is_digit_def ccode_def)
  obtain c cs where s: "s = c # cs" using assms by (cases s) (auto simp: isdigit_def)
  then have "is_digit c" using d by simp
  then have c: "c \<noteq> CHR ''-''" "c \<noteq> CHR ''+''" "c \<noteq> CHR ''i''" "c \<noteq> CHR ''n''"
    by (auto simp: is_digit_def ccode_def)
  have "float_unsigned s = Some (to_double (of_int (digits_val s)))"
    using ex c s assms by (auto simp: float_unsigned_def float_mantissa_def isdigit_def drop_underscores_digits)
  moreover have "py_float s = float_unsigned s"
    using c by (simp add: py_float_def isdigit_strip [OF assms] low, simp add: s)
  ultimately show ?thesis by simp
qed


subsection \<open>The round trip of relative times\<close>

fun hr_parts :: "(char \<times> int) list \<Rightarrow> int \<Rightarrow> (char \<times> int \<times> int) list" where
  \<comment> \<open>the parts the loop writes: unit letter, seconds of the unit, count\<close>
  "hr_parts [] n = []"
| "hr_parts ((k, u) # ts) n =
     (if 0 < n div u then [(k, u, n div u)] else []) @ hr_parts ts (n - n div u * u)"

definition part_word :: "char \<times> int \<times> int \<Rightarrow> string" where
  "part_word p = (case p of (k, u, d) \<Rightarrow> int_str d @ [k])"

definition part_secs :: "char \<times> int \<times> int \<Rightarrow> int" where
  "part_secs p = (case p of (k, u, d) \<Rightarrow> d * u)"

lemma part_simps [simp]: "part_word (k, u, d) = int_str d @ [k]" "part_secs (k, u, d) = d * u"
  by (simp_all add: part_word_def part_secs_def)

lemma rest_bounds: "0 \<le> n \<Longrightarrow> 0 < u \<Longrightarrow> 0 \<le> n - n div u * u \<and> n - n div u * u \<le> (n :: int)"
  by (simp add: minus_div_mult_eq_mod zmod_le_nonneg_dividend)

lemma hr_delta_loop_parts:
  assumes "0 \<le> n" "n < 2 ^ 53" "\<forall>(k, u)\<in>set ts. 0 < u \<and> u < 2 ^ 53"
  shows "hr_delta_loop ts n r = Inr (r @ concat (map (\<lambda>p. part_word p @ '' '') (hr_parts ts n)))"
  using assms
proof (induction ts arbitrary: n r)
  case Nil
  then show ?case by simp
next
  case (Cons t ts)
  obtain k u where t: "t = (k, u)" by force
  with Cons.prems have u: "0 < u" "u < 2 ^ 53" by auto
  with Cons.prems have "0 \<le> n - n div u * u" "n - n div u * u < 2 ^ 53"
    using rest_bounds [of n u] by auto
  with Cons.IH Cons.prems(3) u show ?case
    by (simp add: t py_truediv_trunc [OF Cons.prems(1,2) u])
qed

lemma hr_parts_facts:
  assumes "0 \<le> n" "\<forall>(k, u)\<in>set ts. 0 < u" "(k, u, d) \<in> set (hr_parts ts n)"
  shows "(k, u) \<in> set ts \<and> 0 < d \<and> d * u \<le> n"
  using assms
proof (induction ts arbitrary: n)
  case Nil
  then show ?case by simp
next
  case (Cons t ts)
  obtain k' u' where t: "t = (k', u')" by force
  with Cons.prems have u: "0 < u'" by auto
  note b = rest_bounds [OF Cons.prems(1) u]
  show ?case
  proof (cases "(k, u, d) \<in> set (hr_parts ts (n - n div u' * u'))")
    case True
    with Cons.IH [OF conjunct1 [OF b]] Cons.prems(2) b show ?thesis by force
  next
    case False
    with Cons.prems(3) have "k = k'" "u = u'" "d = n div u'" "0 < n div u'" by (auto simp: t split: if_splits)
    with u show ?thesis by (auto simp: t) (metis minus_div_mult_eq_mod diff_ge_0_iff_ge pos_mod_sign)
  qed
qed

lemma hr_parts_sum:
  assumes "0 \<le> n" "\<forall>(k, u)\<in>set ts. 0 < u"
  shows "sum_list (map part_secs (hr_parts (ts @ [(k, 1)]) n)) = n"
  using assms
proof (induction ts arbitrary: n)
  case Nil
  then show ?case by simp
next
  case (Cons t ts)
  obtain k' u where t: "t = (k', u)" by force
  with Cons.prems have u: "0 < u" by auto
  have IH: "sum_list (map part_secs (hr_parts (ts @ [(k, 1)]) (n - n div u * u))) = n - n div u * u"
    by (rule Cons.IH) (use Cons.prems rest_bounds [OF _ u, of n] in auto)
  have "0 \<le> n div u" using Cons.prems(1) u by (simp add: pos_imp_zdiv_nonneg_iff)
  then have "n div u = 0 \<or> 0 < n div u" by linarith
  with IH show ?case by (auto simp: t)
qed

definition spaceless :: "string \<Rightarrow> bool" where
  "spaceless w = (w \<noteq> [] \<and> (\<forall>c\<in>set w. \<not> is_space c))"

lemma split_ws_word: "spaceless w \<Longrightarrow> split_ws w = [w]"
proof (induction w rule: split_ws.induct)
  case (2 c cs)
  then show ?case by (cases cs) (auto simp: spaceless_def)
qed (simp add: spaceless_def)

lemma split_ws_app: "spaceless w \<Longrightarrow> split_ws (w @ CHR '' '' # s) = w # split_ws s"
proof (induction w)
  case (Cons c w)
  have sp: "is_space (CHR '' '')" by (simp add: is_space_def ccode_def)
  show ?case
  proof (cases w)
    case Nil
    with Cons show ?thesis by (simp add: spaceless_def sp)
  next
    case w: (Cons d w')
    with Cons have "split_ws (w @ CHR '' '' # s) = w # split_ws s" by (simp add: spaceless_def)
    with w Cons.prems show ?thesis by (simp add: spaceless_def)
  qed
qed (simp add: spaceless_def)

lemma split_ws_join: "(\<And>w. w \<in> set ws \<Longrightarrow> spaceless w) \<Longrightarrow> split_ws (join '' '' ws) = ws"
  by (induction ws rule: induct_list012) (simp_all add: split_ws_word split_ws_app)

lemma concat_join: "ws \<noteq> [] \<Longrightarrow> concat (map (\<lambda>w. w @ '' '') ws) = join '' '' ws @ '' ''"
  by (induction ws rule: induct_list012) auto

lemma join_ends:
  assumes "ws \<noteq> []" "\<And>w. w \<in> set ws \<Longrightarrow> spaceless w"
  shows "join '' '' ws \<noteq> [] \<and> \<not> is_space (hd (join '' '' ws)) \<and> \<not> is_space (last (join '' '' ws))"
  using assms
proof (induction ws rule: induct_list012)
  case (3 x y zs)
  define j where "j = join '' '' (y # zs)"
  have "j \<noteq> []" "\<not> is_space (last j)" unfolding j_def using 3 by auto
  moreover have "x \<noteq> []" "\<not> is_space (hd x)" using "3.prems"(2) [of x] by (auto simp: spaceless_def)
  ultimately show ?case by (simp add: j_def [symmetric] hd_append last_append)
qed (auto simp: spaceless_def)

lemma strip_words:
  assumes "\<And>w. w \<in> set ws \<Longrightarrow> spaceless w"
  shows "strip (concat (map (\<lambda>w. w @ '' '') ws)) = join '' '' ws"
proof (cases "ws = []")
  case False
  define j where "j = join '' '' ws"
  have j: "j \<noteq> []" "\<not> is_space (hd j)" "\<not> is_space (last j)"
    using join_ends [OF False assms] by (auto simp: j_def)
  have "is_space (CHR '' '')" by (simp add: is_space_def ccode_def)
  with j have "strip (j @ '' '') = j"
    by (simp add: strip_by_def lstrip_by_def rstrip_by_def dropWhile_id_hd hd_rev)
  then show ?thesis by (simp add: concat_join [OF False] j_def)
qed simp

lemma spaceless_part:
  assumes "(k, u) \<in> set TIMES"
  shows "spaceless (part_word (k, u, d))"
proof -
  have k: "\<not> is_space k" using assms by (auto simp: TIMES_def is_space_def ccode_def)
  have "\<not> is_space c" if "c \<in> set (int_str d)" for c
    using int_str_chars [OF that] ccode_cmp_space(3) [of c] by (auto simp: is_space_def ccode_def)
  with k show ?thesis by (auto simp: spaceless_def)
qed

lemma delta_item_part:
  assumes "(k, u) \<in> set TIMES" "0 < d" "d * u < 2 ^ 53"
  shows "delta_item s (part_word (k, u, d)) = Inr (s + d * u)"
proof -
  have u: "d_get TIMES k = Some u" "1 \<le> u" using assms(1) by (auto simp: TIMES_def)
  have "d * 1 \<le> d * u" using u(2) assms(2) by (intro mult_left_mono) auto
  then have d: "to_double (of_int d) = Fin (of_int d)"
    using assms(2,3) by (intro to_double_int) linarith
  have i: "isdigit (int_str d)" using assms(2) by (simp add: int_str_def)
  have f: "py_float (int_str d) = Some (Fin (of_int d))"
    using py_float_digits [OF i] assms(2) d by (simp add: int_str_def)
  have m: "to_double (of_int d * of_int u) = Fin (of_int (d * u))"
    using to_double_int [of "d * u"] assms(2,3) u(2) by (simp add: abs_mult)
  show ?thesis
    by (simp add: delta_item_def u to_float_def f py_fmul_int_def m float_trunc_of_int
        del: of_int_mult)
qed

lemma rfold_parts:
  assumes "\<And>k u d. (k, u, d) \<in> set ps \<Longrightarrow> (k, u) \<in> set TIMES \<and> 0 < d \<and> d * u < 2 ^ 53"
  shows "rfold delta_item s (map part_word ps) = Inr (s + sum_list (map part_secs ps))"
  using assms
proof (induction ps arbitrary: s)
  case (Cons p ps)
  obtain k u d where p: "p = (k, u, d)" by (cases p) auto
  with Cons.prems [of k u d] have "delta_item s (part_word p) = Inr (s + part_secs p)"
    using delta_item_part [of k u d s] by simp
  moreover have "rfold delta_item (s + part_secs p) (map part_word ps)
      = Inr (s + part_secs p + sum_list (map part_secs ps))"
    by (rule Cons.IH) (use Cons.prems in auto)
  ultimately show ?case by (simp add: add.assoc)
qed simp

lemma TIMES_split: "butlast TIMES @ [(CHR ''s'', 1)] = TIMES"
  by (simp add: TIMES_def)

text \<open>C32: The text \<^verbatim>\<open>secondsToHRDelta\<close> writes for any number of seconds up to 2 to the 53 reads back,
  with \<^verbatim>\<open>getDeltaTime\<close>, as exactly that number, although both go through floats.\<close>

theorem delta_time_roundtrip:
  assumes "0 \<le> n" "n < 2 ^ 53"
  shows "rbind (secondsToHRDelta n) getDeltaTime = Inr n"
proof -
  define ps where "ps = hr_parts TIMES n"
  have T: "\<forall>(k, u)\<in>set TIMES. 0 < u \<and> u < 2 ^ 53" "\<forall>(k, u)\<in>set TIMES. 0 < u" by (simp_all add: TIMES_def)
  have ps: "(k, u) \<in> set TIMES \<and> 0 < d \<and> d * u < 2 ^ 53" if "(k, u, d) \<in> set ps" for k u d
    using hr_parts_facts [OF assms(1) T(2) that [unfolded ps_def]] assms(2) by auto
  have sp: "spaceless w" if "w \<in> set (map part_word ps)" for w
    using that ps by (auto intro!: spaceless_part simp del: part_simps(1))
  have "sum_list (map part_secs ps) = n"
  proof -
    have "\<forall>(k, u)\<in>set (butlast TIMES). 0 < u" by (simp add: TIMES_def)
    from hr_parts_sum [OF assms(1) this, of "CHR ''s''"] show ?thesis by (simp only: TIMES_split ps_def)
  qed
  moreover have "secondsToHRDelta n = Inr (join '' '' (map part_word ps))"
  proof -
    have "strip (concat (map (\<lambda>p. part_word p @ '' '') ps)) = join '' '' (map part_word ps)"
      using strip_words [of "map part_word ps", OF sp] by (simp only: map_map comp_def)
    then show ?thesis
      by (simp only: secondsToHRDelta_def hr_delta_loop_parts [OF assms T(1)] ps_def [symmetric]
          append_Nil rbind_Inr)
  qed
  moreover have "strip (join '' '' (map part_word ps)) = join '' '' (map part_word ps)"
    using strip_words [of "map part_word ps", OF sp] strip_by_idem [of is_space] by metis
  ultimately show ?thesis
    by (simp only: getDeltaTime_def split_ws_join [of "map part_word ps", OF sp] rfold_parts [of ps, OF ps]
        rbind_Inr add_0)
qed

theorem delta_time_roundtrip_witness:
  "(0 :: int) \<le> 93784 \<and> rbind (secondsToHRDelta 93784) getDeltaTime = Inr 93784"
  using delta_time_roundtrip [of 93784] by simp

subsection \<open>Ids of time slots\<close>

lemma minute_id:
  assumes "epoch2010 \<le> e" "e < 2 ^ 53"
  shows "getMinuteId e = Inr ((e - epoch2010) div 60)"
proof -
  have e: "to_double (of_int e) = Fin (of_int e)" using assms by (intro to_double_int) (auto simp: epoch2010_def)
  have d: "to_double (of_int e - of_int epoch2010) = Fin (of_int (e - epoch2010))"
    using to_double_int [of "e - epoch2010"] assms by (simp add: epoch2010_def)
  have "rbind (py_truediv (e - epoch2010) 60) float_trunc = Inr ((e - epoch2010) div 60)"
    by (rule py_truediv_trunc) (use assms in \<open>auto simp: epoch2010_def\<close>)
  then have "float_trunc (to_double (of_int (e - epoch2010) / 60)) = Inr ((e - epoch2010) div 60)"
    by (auto simp: py_truediv_def float_trunc_def split: pyfloat.splits)
  with assms show ?thesis by (simp add: getMinuteId_def e py_fsub_def d)
qed

lemma id_div:
  assumes "epoch2010 \<le> e" "e < 2 ^ 53" "0 < k" "k < 2 ^ 53"
  shows "rbind (getMinuteId e) (\<lambda>m. int_div_float m k) = Inr ((e - epoch2010) div (60 * k))"
proof -
  have "0 \<le> (e - epoch2010) div 60" "(e - epoch2010) div 60 < 2 ^ 53"
    using assms(1,2) by (simp_all add: epoch2010_def pos_imp_zdiv_nonneg_iff)
  from py_truediv_trunc [OF this assms(3,4)] show ?thesis
    using zdiv_zmult2_eq [of k "e - epoch2010" 60] assms(3)
    by (simp add: minute_id [OF assms(1,2)] int_div_float_def)
qed

text \<open>For every epoch from 2010 up to 2 to the 53, \<^verbatim>\<open>getDayId\<close>, which divides floats twice and
  truncates twice, is the whole number of days since 2010, and five-minute ids map back with
  \<^verbatim>\<open>fiveMinuteIdToEpoch\<close> to the start of the slot that contains the epoch.\<close>

theorem time_ids_exact:
  assumes "epoch2010 \<le> e" "e < 2 ^ 53"
  shows "getDayId e = Inr ((e - epoch2010) div 86400)
    \<and> getHourId e = Inr ((e - epoch2010) div 3600)
    \<and> (\<exists>i. get5MinuteId e = Inr i \<and> fiveMinuteIdToEpoch i \<le> e \<and> e < fiveMinuteIdToEpoch i + 300)"
proof (intro conjI exI)
  show "getDayId e = Inr ((e - epoch2010) div 86400)" using id_div [OF assms, of 1440] by (simp add: getDayId_def)
  show "getHourId e = Inr ((e - epoch2010) div 3600)" using id_div [OF assms, of 60] by (simp add: getHourId_def)
  show "get5MinuteId e = Inr ((e - epoch2010) div 300)" using id_div [OF assms, of 5] by (simp add: get5MinuteId_def)
  show "fiveMinuteIdToEpoch ((e - epoch2010) div 300) \<le> e"
    using pos_mod_sign [of 300 "e - epoch2010"] minus_div_mult_eq_mod [of "e - epoch2010" 300]
    by (simp add: fiveMinuteIdToEpoch_def)
  show "e < fiveMinuteIdToEpoch ((e - epoch2010) div 300) + 300"
    using pos_mod_bound [of 300 "e - epoch2010"] minus_div_mult_eq_mod [of "e - epoch2010" 300]
    by (simp add: fiveMinuteIdToEpoch_def)
qed

theorem time_ids_exact_witness: "getDayId 1700000000 = Inr 5065"
  using conjunct1 [OF time_ids_exact [of 1700000000]] by (simp add: epoch2010_def)

text \<open>A date without a time of day, which \<^verbatim>\<open>any2epoch\<close> means to accept with its second attempt,
  is never converted: whatever the time zone, a string that only parses as a date is an input error.\<close>

theorem any2epoch_rejects_dates:
  assumes "strip s \<noteq> []" "mk ''%Y/%m/%d %H:%M:%S'' (strip s) = None"
    and "mk ''%Y/%m/%d'' (strip s) = Some t"
  shows "HRDateToEpoch mk s = Inr t \<and> any2epoch mk False (PStr s) = Inl E_Input
    \<and> any2epoch mk b (PList [PStr s, PInt e]) = Inr e"
  using assms by (simp add: HRDateToEpoch_def HRDateTime2epoch_def)

theorem any2epoch_rejects_dates_witness:
  "any2epoch (\<lambda>f t. if f = ''%Y/%m/%d'' \<and> t = ''2018/05/01'' then Some 1525132800 else None) False
     (PStr ''2018/05/01'') = Inl E_Input"
  using any2epoch_rejects_dates [of "''2018/05/01''"
    "\<lambda>f t. if f = ''%Y/%m/%d'' \<and> t = ''2018/05/01'' then Some 1525132800 else None" 1525132800 False 0]
  by (simp add: strip_by_def lstrip_by_def rstrip_by_def is_space_def ccode_def)

end
