(* ===== verification/Regex.thy ===== *)
theory Regex
  imports PyStr
begin

text \<open>
  Regular expressions as the modelled code uses them with \<^verbatim>\<open>re.fullmatch\<close>: character classes,
  sequence, alternative, repetition. Matching is by derivatives; \<open>fullmatch_iff\<close> says that it
  decides the language.
\<close>

datatype rx = RNone | REps | RSet "char \<Rightarrow> bool" | RSeq rx rx | RAlt rx rx | RStar rx

definition ROpt :: "rx \<Rightarrow> rx" where
  "ROpt r = RAlt REps r"

definition RPlus :: "rx \<Rightarrow> rx" where
  "RPlus r = RSeq r (RStar r)"

definition RChar :: "char \<Rightarrow> rx" where
  "RChar c = RSet (\<lambda>x. x = c)"

fun RTimes :: "nat \<Rightarrow> rx \<Rightarrow> rx" where
  "RTimes 0 r = REps"
| "RTimes (Suc n) r = RSeq r (RTimes n r)"

fun RUpTo :: "nat \<Rightarrow> rx \<Rightarrow> rx" where
  "RUpTo 0 r = REps"
| "RUpTo (Suc n) r = ROpt (RSeq r (RUpTo n r))"

definition RBetween :: "nat \<Rightarrow> nat \<Rightarrow> rx \<Rightarrow> rx" where
  "RBetween m n r = RSeq (RTimes m r) (RUpTo (n - m) r)"

definition RAtLeast :: "nat \<Rightarrow> rx \<Rightarrow> rx" where
  "RAtLeast m r = RSeq (RTimes m r) (RStar r)"

fun RText :: "string \<Rightarrow> rx" where
  "RText [] = REps"
| "RText (c # cs) = RSeq (RChar c) (RText cs)"

fun nullable :: "rx \<Rightarrow> bool" where
  "nullable RNone = False"
| "nullable REps = True"
| "nullable (RSet p) = False"
| "nullable (RSeq r s) = (nullable r \<and> nullable s)"
| "nullable (RAlt r s) = (nullable r \<or> nullable s)"
| "nullable (RStar r) = True"

fun mkSeq :: "rx \<Rightarrow> rx \<Rightarrow> rx" where
  "mkSeq RNone s = RNone"
| "mkSeq REps s = s"
| "mkSeq r s = RSeq r s"

fun mkAlt :: "rx \<Rightarrow> rx \<Rightarrow> rx" where
  "mkAlt RNone s = s"
| "mkAlt r RNone = r"
| "mkAlt r s = RAlt r s"

fun deriv :: "char \<Rightarrow> rx \<Rightarrow> rx" where
  "deriv c RNone = RNone"
| "deriv c REps = RNone"
| "deriv c (RSet p) = (if p c then REps else RNone)"
| "deriv c (RSeq r s) = (if nullable r then mkAlt (mkSeq (deriv c r) s) (deriv c s) else mkSeq (deriv c r) s)"
| "deriv c (RAlt r s) = mkAlt (deriv c r) (deriv c s)"
| "deriv c (RStar r) = mkSeq (deriv c r) (RStar r)"

fun fullmatch :: "rx \<Rightarrow> string \<Rightarrow> bool" where
  "fullmatch r [] = nullable r"
| "fullmatch r (c # cs) = fullmatch (deriv c r) cs"

inductive matches :: "rx \<Rightarrow> string \<Rightarrow> bool" where
  m_eps: "matches REps []"
| m_set: "p c \<Longrightarrow> matches (RSet p) [c]"
| m_seq: "matches r u \<Longrightarrow> matches s v \<Longrightarrow> matches (RSeq r s) (u @ v)"
| m_alt1: "matches r u \<Longrightarrow> matches (RAlt r s) u"
| m_alt2: "matches s u \<Longrightarrow> matches (RAlt r s) u"
| m_star0: "matches (RStar r) []"
| m_star: "matches r u \<Longrightarrow> matches (RStar r) v \<Longrightarrow> matches (RStar r) (u @ v)"

declare matches.intros [intro]

inductive_simps matches_simps: "matches RNone u" "matches REps u" "matches (RSet p) u"
  "matches (RSeq r s) u" "matches (RAlt r s) u"

lemma nullable_iff: "nullable r \<longleftrightarrow> matches r []"
  by (induction r) (auto simp: matches_simps)

lemma star_Cons:
  "matches q w \<Longrightarrow> q = RStar r \<Longrightarrow> w = c # cs \<Longrightarrow> \<exists>u v. cs = u @ v \<and> matches r (c # u) \<and> matches (RStar r) v"
proof (induction arbitrary: r c cs rule: matches.induct)
  case (m_star r' u v)
  show ?case
  proof (cases u)
    case Nil
    with m_star show ?thesis by auto
  next
    case (Cons a u')
    with m_star show ?thesis by auto
  qed
qed auto

lemma matches_mkSeq [simp]: "matches (mkSeq r s) u \<longleftrightarrow> matches (RSeq r s) u"
  by (cases r) (auto simp: matches_simps)

lemma matches_mkAlt [simp]: "matches (mkAlt r s) u \<longleftrightarrow> matches (RAlt r s) u"
  by (cases r; cases s) (auto simp: matches_simps)

lemma deriv_iff: "matches (deriv c r) u \<longleftrightarrow> matches r (c # u)"
proof (induction r arbitrary: u)
  case (RSeq r s)
  have "matches (RSeq r s) (c # u) \<longleftrightarrow>
      (matches r [] \<and> matches s (c # u)) \<or> (\<exists>v w. u = v @ w \<and> matches r (c # v) \<and> matches s w)"
    by (auto simp: matches_simps Cons_eq_append_conv)
  then show ?case using RSeq by (auto simp: matches_simps nullable_iff)
next
  case (RStar r)
  show ?case
  proof
    assume "matches (deriv c (RStar r)) u"
    then obtain v w where "u = v @ w" "matches r (c # v)" "matches (RStar r) w"
      using RStar by (auto simp: matches_simps)
    then show "matches (RStar r) (c # u)" using m_star [of r "c # v" w] by simp
  next
    assume "matches (RStar r) (c # u)"
    from star_Cons [OF this refl refl] show "matches (deriv c (RStar r)) u"
      using RStar by (auto simp: matches_simps)
  qed
qed (auto simp: matches_simps)

lemma fullmatch_iff: "fullmatch r s \<longleftrightarrow> matches r s"
  by (induction s arbitrary: r) (simp_all add: nullable_iff deriv_iff)

text \<open>Every character of a matching string is in some class of the expression.\<close>

fun rx_chars :: "rx \<Rightarrow> char \<Rightarrow> bool" where
  "rx_chars RNone c = False"
| "rx_chars REps c = False"
| "rx_chars (RSet p) c = p c"
| "rx_chars (RSeq r s) c = (rx_chars r c \<or> rx_chars s c)"
| "rx_chars (RAlt r s) c = (rx_chars r c \<or> rx_chars s c)"
| "rx_chars (RStar r) c = rx_chars r c"

lemma matches_chars: "matches r s \<Longrightarrow> c \<in> set s \<Longrightarrow> rx_chars r c"
  by (induction rule: matches.induct) auto

text \<open>A character map that preserves every class preserves the language.\<close>

fun rx_closed :: "(char \<Rightarrow> char) \<Rightarrow> rx \<Rightarrow> bool" where
  "rx_closed f RNone = True"
| "rx_closed f REps = True"
| "rx_closed f (RSet p) = (\<forall>c. p c \<longrightarrow> p (f c))"
| "rx_closed f (RSeq r s) = (rx_closed f r \<and> rx_closed f s)"
| "rx_closed f (RAlt r s) = (rx_closed f r \<and> rx_closed f s)"
| "rx_closed f (RStar r) = rx_closed f r"

lemma matches_map: "matches r s \<Longrightarrow> rx_closed f r \<Longrightarrow> matches r (map f s)"
  by (induction rule: matches.induct) (auto simp: map_append)

lemma rx_closed_times [simp]: "rx_closed f (RTimes n r) = (n = 0 \<or> rx_closed f r)"
  by (induction n) auto

lemma rx_closed_atleast [simp]: "rx_closed f (RAtLeast n r) = rx_closed f r"
  by (auto simp: RAtLeast_def)

lemma rx_closed_plus [simp]: "rx_closed f (RPlus r) = rx_closed f r"
  by (auto simp: RPlus_def)

lemma rx_chars_times [simp]: "rx_chars (RTimes n r) c \<longleftrightarrow> n \<noteq> 0 \<and> rx_chars r c"
  by (induction n) auto

lemma rx_chars_upto [simp]: "rx_chars (RUpTo n r) c \<longleftrightarrow> n \<noteq> 0 \<and> rx_chars r c"
  by (induction n) (auto simp: ROpt_def)

end
