(* ===== verification/TypesAdv.thy ===== *)
theory TypesAdv
  imports TypesPrim Regex TimeData
begin

text \<open>
  The types of \<^verbatim>\<open>data/types/AdvTypes.py\<close> that are written on top of strings and integers: guid,
  email, path, url, tel, ipport, datetime, date and duration. As in \<open>TypesPrim\<close> a type object is
  its default \<open>d\<close>. What comes from the machine is an argument: the fresh guid \<open>g\<close>, the time zone
  functions \<open>mk\<close> (strptime followed by mktime), \<open>fmt\<close> (\<^verbatim>\<open>Time.formatTime\<close>), \<open>now\<close>, \<open>daystart\<close>.
\<close>

section \<open>Character classes\<close>

definition rx_digit :: rx where
  "rx_digit = RSet is_digit"

definition rx_alpha :: rx where
  "rx_alpha = RSet is_alpha"

definition rx_alnum :: rx where
  "rx_alnum = RSet is_alnum"

definition rx_of :: "(char \<Rightarrow> bool) \<Rightarrow> string \<Rightarrow> rx" where
  \<comment> \<open>a class with some more characters\<close>
  "rx_of p cs = RSet (\<lambda>c. p c \<or> c \<in> set cs)"

section \<open>Guid\<close>

definition hex_val :: "char \<Rightarrow> nat option" where
  "hex_val c = (let n = ccode c in
     if is_digit c then Some (n - 48)
     else if 97 \<le> n \<and> n \<le> 102 then Some (n - 87)
     else if 65 \<le> n \<and> n \<le> 70 then Some (n - 55) else None)"

definition set_version4 :: "string \<Rightarrow> string" where
  \<comment> \<open>the bits \<^verbatim>\<open>UUID(..., version=4)\<close> overwrites in the 32 hex digits, printed in lower case\<close>
  "set_version4 s = (let digit = (\<lambda>c. case hex_val c of Some v \<Rightarrow> v | None \<Rightarrow> 0);
       t = map (\<lambda>c. hex_digit (digit c)) s
     in t[12 := CHR ''4'', 16 := hex_digit (8 + digit (s ! 16) mod 4)])"

definition uuid4_hex :: "string \<Rightarrow> string option" where
  \<comment> \<open>\<^verbatim>\<open>UUID(value, version=4).hex\<close>; None is the ValueError. Digits that only \<^verbatim>\<open>int(s, 16)\<close> takes
    (a sign, underscores, white space) are left out: the caller rejects them as well\<close>
  "uuid4_hex value = (let h = remove_char (CHR ''-'') (strip_chars ''{}''
        (replace_str ''uuid:'' [] (replace_str ''urn:'' [] value)))
     in if length h = 32 \<and> list_all (\<lambda>c. hex_val c \<noteq> None) h then Some (set_version4 h) else None)"

definition guid_check :: "pyval \<Rightarrow> bool res" where
  "guid_check v = (case v of
     PStr s \<Rightarrow> (case uuid4_hex s of None \<Rightarrow> Inr False | Some h \<Rightarrow> Inr (h = remove_char (CHR ''-'') s))
   | PNone \<Rightarrow> Inl P_TypeError
   | PBytes _ \<Rightarrow> Inl P_TypeError
   | _ \<Rightarrow> Inr False)"

definition guid_clean_val :: "pyval \<Rightarrow> pyval res" where
  "guid_clean_val v = rbind (guid_check v) (\<lambda>ok. if ok then Inr v else Inl E_Value)"

definition guid_default_get :: "string \<Rightarrow> pyval \<Rightarrow> pyval res" where
  "guid_default_get g d = (if truth d then guid_clean_val d else Inr (PStr g))"

definition guid_clean :: "string \<Rightarrow> pyval \<Rightarrow> pyval \<Rightarrow> pyval res" where
  "guid_clean g d v = (if v = PNone \<or> v = PStr [] then guid_default_get g d else guid_clean_val v)"

definition guid_fromString :: "pyval \<Rightarrow> pyval res" where
  "guid_fromString v = (if \<not> string_check v then Inl E_Value
     else rbind (guid_check v) (\<lambda>ok. if ok then Inr v else Inl E_Value))"

section \<open>Email\<close>

definition email_RE :: rx where
  "email_RE = RSeq (RPlus (rx_of is_alnum ''._%+-''))
    (RSeq (RChar (CHR ''@''))
      (RSeq (RPlus (rx_of is_alnum ''.-''))
        (RSeq (RChar (CHR ''.'')) (RAtLeast 2 rx_alpha))))"

definition email_check :: "pyval \<Rightarrow> bool" where
  "email_check v = (case v of
     PStr s \<Rightarrow> if strip s = [] then True else fullmatch email_RE s | _ \<Rightarrow> False)"

definition email_clean_val :: "pyval \<Rightarrow> pyval res" where
  "email_clean_val v = rbind (jstring_clean v) (\<lambda>x.
     if \<not> email_check x then Inl E_Value else rbind (str_of x) (\<lambda>s. Inr (PStr (lower s))))"

definition email_default_get :: "pyval \<Rightarrow> pyval res" where
  \<comment> \<open>with the default \<^verbatim>\<open>"None"\<close> the calls of \<^verbatim>\<open>clean\<close> and \<^verbatim>\<open>default_get\<close> never end\<close>
  "email_default_get d = (if truth d then (if d = PStr ''None'' then Inl P_RuntimeError else email_clean_val d)
     else Inr (PStr []))"

definition email_clean :: "pyval \<Rightarrow> pyval \<Rightarrow> pyval res" where
  "email_clean d v = (if v = PNone \<or> v = PStr ''None'' then email_default_get d else email_clean_val v)"

section \<open>Path and Url\<close>

definition path_RE :: rx where
  "path_RE = RSeq (ROpt (RText ''..''))
    (RSeq (RStar (RText ''/..'')) (RPlus (RSeq (RChar (CHR ''/'')) (RPlus rx_alnum))))"

definition path_check :: "pyval \<Rightarrow> bool res" where
  "path_check v = (case v of PStr s \<Rightarrow> Inr (fullmatch path_RE s) | _ \<Rightarrow> Inl P_TypeError)"

definition path_default_get :: "pyval" where
  "path_default_get = PStr []"

definition path_clean :: "pyval \<Rightarrow> pyval res" where
  "path_clean v = (if v = PNone then Inr path_default_get else string_clean_val v)"

definition url_name :: rx where
  \<comment> \<open>\<^verbatim>\<open>[a-zA-Z0-9][a-zA-Z0-9-]+[a-zA-Z0-9]\\.[^\\s]{2,}\<close>\<close>
  "url_name = RSeq rx_alnum (RSeq (RPlus (rx_of is_alnum ''-'')) (RSeq rx_alnum
     (RSeq (RChar (CHR ''.'')) (RAtLeast 2 (RSet (\<lambda>c. \<not> is_space c))))))"

definition url_short :: rx where
  "url_short = RSeq rx_alnum (RSeq (RChar (CHR ''.'')) (RAtLeast 2 (RSet (\<lambda>c. \<not> is_space c))))"

definition www_or_not :: "rx \<Rightarrow> string \<Rightarrow> bool" where
  \<comment> \<open>\<^verbatim>\<open>(?:www\\.|(?!www))\<close> in front of \<open>r\<close>\<close>
  "www_or_not r s = (fullmatch (RSeq (RText ''www.'') r) s \<or> (\<not> starts_with ''www'' s \<and> fullmatch r s))"

definition url_match :: "string \<Rightarrow> bool" where
  "url_match s = (www_or_not url_name s
     \<or> fullmatch (RSeq (RText ''www.'') url_name) s
     \<or> (starts_with ''http://'' s \<and> www_or_not url_short (drop 7 s))
     \<or> (starts_with ''https://'' s \<and> www_or_not url_short (drop 8 s))
     \<or> fullmatch (RSeq (RText ''www.'') url_short) s)"

definition url_check :: "pyval \<Rightarrow> bool res" where
  "url_check v = (case v of PStr s \<Rightarrow> Inr (url_match s) | _ \<Rightarrow> Inl P_TypeError)"

definition url_init :: "pyval \<Rightarrow> pyval" where
  "url_init d = init_default (PStr []) d"

definition url_clean :: "pyval \<Rightarrow> pyval \<Rightarrow> pyval res" where
  "url_clean d v = (if v = PNone \<or> v = PStr ''None'' \<or> v = PStr [] then Inr d
     else rbind (url_check v) (\<lambda>ok. if ok then Inr v else Inl E_Value))"

section \<open>Tel\<close>

definition tel_RE :: rx where
  "tel_RE = RSeq (ROpt (RChar (CHR ''+''))) (RSeq (RBetween 6 15 rx_digit)
     (ROpt (RSeq (RChar (CHR ''x'')) (RPlus rx_digit))))"

definition tel_check :: "pyval \<Rightarrow> bool res" where
  "tel_check v = (if \<not> truth v then Inr True
     else (case v of PStr s \<Rightarrow> Inr (fullmatch tel_RE s) | _ \<Rightarrow> Inl P_TypeError))"

definition tel_strip :: "string \<Rightarrow> string" where
  "tel_strip s = remove_char (CHR '' '') (remove_char (CHR '')'') (remove_char (CHR ''('')
     (remove_char (CHR ''-'') (remove_char (CHR '','') s))))"

definition tel_default_get :: "pyval \<Rightarrow> pyval" where
  "tel_default_get d = (if truth d then d else PNone)"

definition tel_clean :: "pyval \<Rightarrow> pyval \<Rightarrow> pyval res" where
  "tel_clean d v = (if v = PNone \<or> v = PStr ''None'' then Inr (tel_default_get d)
     else rbind (jstring_clean v) (\<lambda>x. rbind (str_of x) (\<lambda>s.
       let t = PStr (tel_strip s) in
       rbind (tel_check t) (\<lambda>ok. if ok then Inr t else Inl E_Value))))"

section \<open>IPPort\<close>

definition ipport_default_get :: "pyval \<Rightarrow> pyval" where
  "ipport_default_get d = (if truth d then d else PInt 65535)"

definition ipport_possible :: "pyval \<Rightarrow> bool" where
  "ipport_possible v = (case to_int v of Inr i \<Rightarrow> 0 < i \<and> i \<le> 65535 | Inl _ \<Rightarrow> False)"

definition ipport_clean :: "pyval \<Rightarrow> pyval \<Rightarrow> pyval res" where
  "ipport_clean d v = (if \<not> truth v then Inr (ipport_default_get d)
     else if \<not> ipport_possible v then Inl E_Value
     else rbind (to_int v) (\<lambda>i. Inr (PInt i)))"

definition ipport_toHR :: "pyval \<Rightarrow> pyval \<Rightarrow> pyval res" where
  "ipport_toHR d v = rbind (to_int v) (\<lambda>i. if i = 65535 then Inr (PStr ''-'') else ipport_clean d v)"

section \<open>DateTime\<close>

definition drop_quotes :: "string \<Rightarrow> string" where
  "drop_quotes s = strip (remove_char (CHR 0x22) (remove_char (CHR 0x27) s))"

definition is_2or1 :: "string \<Rightarrow> bool" where
  "is_2or1 s = (length s = 2 \<or> length s = 1)"

definition date_process :: "string \<Rightarrow> string \<Rightarrow> (string \<times> string) res" where
  \<comment> \<open>\<open>year\<close> is the current year, \<^verbatim>\<open>epoch2HRDate(now).split("/")[0]\<close>\<close>
  "date_process year dd = (if CHR ''/'' \<notin> set dd then Inl E_Input
     else (case map strip (split_char (CHR ''/'') dd) of
        [s0, s1] \<Rightarrow> Inr (year @ ''/'' @ strip dd, ''%Y/%m/%d'')
      | [s0, s1, s2] \<Rightarrow>
          if length s0 = 4 \<and> is_2or1 s1 \<and> is_2or1 s2 then Inr (dd, ''%Y/%m/%d'')
          else if length s2 = 4 \<and> is_2or1 s1 \<and> is_2or1 s0 then Inr (dd, ''%d/%m/%Y'')
          else if is_2or1 s2 \<and> is_2or1 s1 \<and> is_2or1 s0 then Inr (dd, ''%y/%m/%d'')
          else Inl E_Input
      | _ \<Rightarrow> Inl E_Input))"

definition time_process :: "string \<Rightarrow> (string \<times> string) res" where
  \<comment> \<open>with more than two colons no branch assigns \<^verbatim>\<open>fstr\<close>\<close>
  "time_process txt = (let v = strip txt; ampm = str_in ''am'' (lower v) \<or> str_in ''pm'' (lower v) in
     if CHR '':'' \<notin> set v then Inr (''00:00:00'', ''%H:%M:%S'')
     else (case split_char (CHR '':'') v of
        [_, _] \<Rightarrow> Inr (v, if ampm then ''%I%p:%M'' else ''%H:%M'')
      | [_, _, _] \<Rightarrow> Inr (v, if ampm then ''%I%p:%M:%S'' else ''%H:%M:%S'')
      | _ \<Rightarrow> Inl P_NameError))"

definition datetime_default_get :: "pyval \<Rightarrow> pyval" where
  "datetime_default_get d = (if truth d then d else PInt 0)"

definition datetime_clean_str :: "(string \<Rightarrow> string \<Rightarrow> int option) \<Rightarrow> int \<Rightarrow> string \<Rightarrow> string \<Rightarrow> pyval res" where
  "datetime_clean_str mk now year s0 = (let v = drop_quotes s0 in
     if v \<in> {''0'', []} then Inr (PInt 0)
     else if CHR ''+'' \<in> set v \<or> CHR ''-'' \<in> set v
     then rbind (getEpochDeltaTime now (Some v)) (\<lambda>e. Inr (PInt e))
     else rbind (if CHR '':'' \<in> set v
         then (case split_first (CHR '' '') v of
             None \<Rightarrow> Inl P_ValueError
           | Some (dd, tt) \<Rightarrow> rbind (time_process tt) (\<lambda>t. Inr (dd, t)))
         else rbind (time_process []) (\<lambda>t. Inr (v, t))) (\<lambda>(dd0, tt, tfstr).
       rbind (date_process year dd0) (\<lambda>(dd, dfstr).
         case mk (dfstr @ '' '' @ tfstr) (dd @ '' '' @ tt) of
           None \<Rightarrow> Inl P_ValueError | Some e \<Rightarrow> Inr (PInt e))))"

definition datetime_clean :: "(string \<Rightarrow> string \<Rightarrow> int option) \<Rightarrow> int \<Rightarrow> string \<Rightarrow> pyval \<Rightarrow> pyval \<Rightarrow> pyval res" where
  "datetime_clean mk now year d v = (case v of
       PNone \<Rightarrow> Inr (datetime_default_get d)
     | PStr s \<Rightarrow> if int_checkString s then rbind (to_int v) (\<lambda>i. Inr (PInt i))
                 else datetime_clean_str mk now year s
     | _ \<Rightarrow> if int_check v then Inr v else Inl E_Value)"

definition datetime_toString ::
  "(string \<Rightarrow> pyfloat \<Rightarrow> string) \<Rightarrow> (string \<Rightarrow> string \<Rightarrow> int option) \<Rightarrow> int \<Rightarrow> string \<Rightarrow> pyval \<Rightarrow> pyval \<Rightarrow> string res" where
  "datetime_toString fmt mk now year d v = rbind (datetime_clean mk now year d v) (\<lambda>x.
     if py_eq x (PInt 0) then Inr []
     else rbind (to_float x) (\<lambda>e. Inr (fmt ''%Y/%m/%d %H:%M:%S'' e)))"

section \<open>Date\<close>

definition date_clean ::
  "(string \<Rightarrow> string \<Rightarrow> int option) \<Rightarrow> (int \<Rightarrow> int option) \<Rightarrow> int \<Rightarrow> string \<Rightarrow> pyval \<Rightarrow> pyval \<Rightarrow> pyval res" where
  "date_clean mk daystart now year d v = (if v = PNone then Inr (datetime_default_get d)
     else (let v1 = (case v of PStr s \<Rightarrow> PStr (drop_quotes s) | _ \<Rightarrow> v) in
       if py_in v1 [PInt 0, PStr ''0'', PNone, PStr []] then Inr (PInt 0)
       else rbind (datetime_clean mk now year d v1) (\<lambda>x. rbind (to_int x) (\<lambda>e.
         case daystart e of None \<Rightarrow> Inl P_ValueError | Some s \<Rightarrow> Inr (PInt s)))))"

definition date_toString ::
  "(string \<Rightarrow> pyfloat \<Rightarrow> string) \<Rightarrow> (string \<Rightarrow> string \<Rightarrow> int option) \<Rightarrow> (int \<Rightarrow> int option) \<Rightarrow> int \<Rightarrow> string
   \<Rightarrow> pyval \<Rightarrow> pyval \<Rightarrow> string res" where
  "date_toString fmt mk daystart now year d v = rbind (date_clean mk daystart now year d v) (\<lambda>x.
     if py_eq x (PInt 0) then Inr [] else rbind (to_float x) (\<lambda>e. Inr (fmt ''%Y/%m/%d'' e)))"

section \<open>Duration\<close>

text \<open>
  \<open>td_accum\<close> and \<open>td_total\<close> are the constructor and \<^verbatim>\<open>total_seconds\<close> of the standard library's
  \<^verbatim>\<open>timedelta\<close> on float arguments, with an integer number of microseconds and a float remainder.
\<close>

fun td_accum :: "int \<times> rat \<Rightarrow> int \<Rightarrow> pyfloat \<Rightarrow> (int \<times> rat) res" where
  "td_accum (x, left) factor (Fin q) =
     (let ip = (if 0 \<le> q then \<lfloor>q\<rfloor> else \<lceil>q\<rceil>); fp = q - of_int ip in
      if fp = 0 then Inr (x + ip * factor, left)
      else (case to_double (of_int factor * fp) of
          Fin p \<Rightarrow>
            (let ip2 = (if 0 \<le> p then \<lfloor>p\<rfloor> else \<lceil>p\<rceil>) in
             case to_double (left + (p - of_int ip2)) of
               Fin l \<Rightarrow> Inr (x + ip * factor + ip2, l) | _ \<Rightarrow> Inl P_OverflowError)
        | _ \<Rightarrow> Inl P_OverflowError))"
| "td_accum s factor (Inf b) = Inl P_OverflowError"
| "td_accum s factor NaN = Inl P_ValueError"

definition td_micros :: "(int \<times> pyfloat) list \<Rightarrow> int res" where
  \<comment> \<open>pairs of microseconds per unit and amount, from the smallest unit to the largest\<close>
  "td_micros params = rbind (rfold (\<lambda>s (factor, f). td_accum s factor f) (0, 0) params) (\<lambda>(x, left).
     let us = round_half_even (of_int x + left) in
     if \<bar>us div 86400000000\<bar> > 999999999 then Inl P_OverflowError else Inr us)"

definition td_total_seconds :: "int \<Rightarrow> pyfloat" where
  "td_total_seconds us = to_double (of_int us / 1000000)"

definition is_num_char :: "char \<Rightarrow> bool" where
  "is_num_char c = (is_digit c \<or> c = CHR ''.'')"

fun take_group :: "char \<Rightarrow> string \<Rightarrow> string option \<times> string" where
  \<comment> \<open>\<^verbatim>\<open>((?P<name>[\\.\\d]+?)u)?\<close>: the group and the rest of the text\<close>
  "take_group u s = (let num = takeWhile is_num_char s in
     case dropWhile is_num_char s of
       [] \<Rightarrow> (None, s)
     | c # r \<Rightarrow> if c = u \<and> num \<noteq> [] then (Some num, r) else (None, s))"

definition duration_match :: "string \<Rightarrow> (int \<times> string option) list option" where
  \<comment> \<open>microseconds per unit and the text of the group; None when the expression does not match\<close>
  "duration_match v = (let (days, r1) = take_group (CHR ''d'') v; (hours, r2) = take_group (CHR ''h'') r1;
       (minutes, r3) = take_group (CHR ''m'') r2; (seconds, r4) = take_group (CHR ''s'') r3
     in if r4 = [] then Some [(1000000, seconds), (60000000, minutes), (3600000000, hours), (86400000000, days)]
        else None)"

fun duration_params :: "(int \<times> string option) list \<Rightarrow> (int \<times> pyfloat) list res" where
  "duration_params [] = Inr []"
| "duration_params ((u, None) # ps) = duration_params ps"
| "duration_params ((u, Some txt) # ps) = rbind (to_float (PStr txt)) (\<lambda>f.
     rbind (duration_params ps) (\<lambda>r. Inr ((u, f) # r)))"

definition duration_clean :: "pyval \<Rightarrow> pyval res" where
  "duration_clean v = (if py_in v [PInt 0, PStr ''0'', PNone, PStr []] then Inr (PInt 0)
     else (case v of
         PStr s0 \<Rightarrow> (let s = drop_quotes s0 in
           if isdigit s then rbind (to_int (PStr s)) (\<lambda>i. Inr (PInt i))
           else (case duration_match s of
              None \<Rightarrow> Inl E_Value
            | Some parts \<Rightarrow> rbind (duration_params parts) (\<lambda>ps. rbind (td_micros ps) (\<lambda>us.
                rbind (float_trunc (td_total_seconds us)) (\<lambda>n. Inr (PInt n))))))
       | _ \<Rightarrow> if int_check v then Inr v else Inl E_Value))"

definition duration_check :: "pyval \<Rightarrow> bool" where
  "duration_check v = (case duration_clean v of Inr _ \<Rightarrow> True | Inl _ \<Rightarrow> False)"

definition duration_text :: "int \<Rightarrow> string" where
  "duration_text val = (let days = val div 86400; hours = (val - days * 86400) div 3600;
       minutes = (val - days * 86400 - hours * 3600) div 60;
       seconds = val - days * 86400 - hours * 3600 - minutes * 60
     in foldl (\<lambda>r (n, u). if 0 < n then r @ int_str n @ [u] else r) []
          [(days, CHR ''d''), (hours, CHR ''h''), (minutes, CHR ''m''), (seconds, CHR ''s'')])"

definition duration_toString :: "pyval \<Rightarrow> string res" where
  "duration_toString v = rbind (duration_clean v) (\<lambda>x. rbind (to_int x) (\<lambda>val.
     if val = 0 then Inr [] else Inr (duration_text val)))"

definition duration_python_code_get :: "pyval \<Rightarrow> pyval res" where
  "duration_python_code_get v = duration_clean v"

definition uint32_capnp :: "string \<Rightarrow> int \<Rightarrow> string" where
  \<comment> \<open>\<^verbatim>\<open>capnp_schema_get\<close> of the datetime and duration classes\<close>
  "uint32_capnp name nr = capnp_line ''UInt32'' name nr"


section \<open>Durations are read back\<close>

definition opt_part :: "int \<Rightarrow> char \<Rightarrow> string" where
  "opt_part n u = (if 0 < n then int_str n @ [u] else [])"

lemma foldl_parts:
  "foldl (\<lambda>r (n, u). if 0 < n then r @ int_str n @ [u] else r) [] [(a, p), (b, q), (c, x), (d, y)]
   = opt_part a p @ opt_part b q @ opt_part c x @ opt_part d y"
  by (simp add: opt_part_def)

lemma duration_text_parts:
  "duration_text n = (let days = n div 86400; hours = (n - days * 86400) div 3600;
       minutes = (n - days * 86400 - hours * 3600) div 60;
       seconds = n - days * 86400 - hours * 3600 - minutes * 60
     in opt_part days (CHR ''d'') @ opt_part hours (CHR ''h'') @ opt_part minutes (CHR ''m'') @ opt_part seconds (CHR ''s''))"
  by (simp only: duration_text_def Let_def foldl_parts)

lemma int_str_num: "0 \<le> n \<Longrightarrow> list_all is_num_char (int_str n)"
  using nat_str_digits [of n] by (auto simp: int_str_def is_num_char_def list_all_iff)

lemma take_group_part:
  assumes "list_all is_num_char w" "w \<noteq> []" "\<not> is_num_char c"
  shows "take_group u (w @ c # r) = (if c = u then (Some w, r) else (None, w @ c # r))"
  using assms by (auto simp: list_all_iff Let_def takeWhile_append dropWhile_append)

lemma take_group_Nil: "take_group u [] = (None, [])"
  by simp

declare take_group.simps [simp del]

lemma take_group_opt:
  assumes "\<not> is_num_char u" "take_group u r = (None, r)"
  shows "take_group u (opt_part n u @ r) = (if 0 < n then Some (int_str n) else None, r)"
  using assms take_group_part [of "int_str n" u u r] int_str_num [of n] by (simp add: opt_part_def)

lemma take_group_other:
  assumes "\<not> is_num_char v" "u \<noteq> v" "take_group u r = (None, r)"
  shows "take_group u (opt_part n v @ r) = (None, opt_part n v @ r)"
  using assms take_group_part [of "int_str n" v u r] int_str_num [of n] by (auto simp: opt_part_def)

lemma unit_chars: "\<not> is_num_char (CHR ''d'')" "\<not> is_num_char (CHR ''h'')" "\<not> is_num_char (CHR ''m'')"
  "\<not> is_num_char (CHR ''s'')"
  by (simp_all add: is_num_char_def is_digit_def ccode_def)

definition opt_num :: "int \<Rightarrow> string option" where
  "opt_num n = (if 0 < n then Some (int_str n) else None)"

lemma duration_match_parts:
  "duration_match (opt_part a (CHR ''d'') @ opt_part b (CHR ''h'') @ opt_part c (CHR ''m'') @ opt_part d (CHR ''s''))
   = Some [(1000000, opt_num d), (60000000, opt_num c), (3600000000, opt_num b), (86400000000, opt_num a)]"
proof -
  have s: "take_group (CHR ''s'') (opt_part d (CHR ''s'')) = (opt_num d, [])"
    using take_group_opt [OF unit_chars(4) take_group_Nil, of d] by (simp add: opt_num_def)
  have o: "take_group u (opt_part d (CHR ''s'')) = (None, opt_part d (CHR ''s''))" if "u \<noteq> CHR ''s''" for u
    using take_group_other [OF unit_chars(4) that take_group_Nil, of d] by simp
  show ?thesis
    unfolding duration_match_def
    by (simp add: take_group_opt take_group_other unit_chars s o opt_num_def [symmetric])
qed

lemma to_float_int_str: "0 \<le> n \<Longrightarrow> n < 2 ^ 53 \<Longrightarrow> to_float (PStr (int_str n)) = Inr (Fin (of_int n))"
  using py_float_digits [of "int_str n"] to_double_int [of n] by (simp add: to_float_def int_str_def)

lemma td_accum_int: "td_accum (x, l) f (Fin (of_int n)) = Inr (x + n * f, l)"
  by (simp add: Let_def)

fun group_micros :: "(int \<times> int) list \<Rightarrow> int" where
  "group_micros [] = 0"
| "group_micros ((f, n) # gs) = n * f + group_micros gs"

lemma params_micros:
  assumes "\<forall>(f, n)\<in>set gs. 0 \<le> n \<and> n < 2 ^ 53"
  shows "\<exists>ps. duration_params (map (\<lambda>(f, n). (f, opt_num n)) gs) = Inr ps
    \<and> (\<forall>x. rfold (\<lambda>s (factor, f). td_accum s factor f) (x, 0) ps = Inr (x + group_micros gs, 0))"
  using assms
proof (induction gs)
  case (Cons g gs)
  obtain f n where g: "g = (f, n)" by force
  from Cons obtain ps where ps: "duration_params (map (\<lambda>(f, n). (f, opt_num n)) gs) = Inr ps"
    "\<And>x. rfold (\<lambda>s (factor, f). td_accum s factor f) (x, 0) ps = Inr (x + group_micros gs, 0)"
    by auto
  show ?case
  proof (cases "0 < n")
    case True
    with Cons.prems have "to_float (PStr (int_str n)) = Inr (Fin (of_int n))"
      by (intro to_float_int_str) (auto simp: g)
    with True ps show ?thesis by (simp add: g opt_num_def td_accum_int del: td_accum.simps)
  next
    case False
    with Cons.prems have "n = 0" by (simp add: g)
    with ps show ?thesis by (simp add: g opt_num_def)
  qed
qed simp

lemma split_bounds:
  fixes n :: int
  assumes "0 < n" "n < 2 ^ 53"
  defines "a \<equiv> n div 86400"
  defines "b \<equiv> (n - a * 86400) div 3600"
  defines "c \<equiv> (n - a * 86400 - b * 3600) div 60"
  defines "d \<equiv> n - a * 86400 - b * 3600 - c * 60"
  shows "0 \<le> a" "a < 2 ^ 53" "0 \<le> b" "b < 24" "0 \<le> c" "c < 60" "0 \<le> d" "d < 60"
proof -
  have r1: "n - a * 86400 = n mod 86400" by (simp add: a_def minus_div_mult_eq_mod)
  have r2: "n - a * 86400 - b * 3600 = n mod 86400 mod 3600" by (simp add: b_def r1 minus_div_mult_eq_mod)
  have r3: "d = n mod 86400 mod 3600 mod 60" by (simp add: d_def c_def r2 minus_div_mult_eq_mod)
  have "0 \<le> n mod 86400" "n mod 86400 < 86400" "0 \<le> n mod 86400 mod 3600" "n mod 86400 mod 3600 < 3600"
    by simp_all
  then show "0 \<le> a" "a < 2 ^ 53" "0 \<le> b" "b < 24" "0 \<le> c" "c < 60" "0 \<le> d" "d < 60"
    using assms(1,2) unfolding r3 c_def [unfolded r2] b_def [unfolded r1] unfolding a_def
    by (simp_all add: pos_imp_zdiv_nonneg_iff)
qed

lemma duration_text_chars:
  assumes "0 < n"
  shows "duration_text n \<noteq> [] \<and> \<not> isdigit (duration_text n) \<and> duration_text n \<noteq> ''0''
    \<and> drop_quotes (duration_text n) = duration_text n"
proof -
  define a b c d where "a = n div 86400" and "b = (n - a * 86400) div 3600"
    and "c = (n - a * 86400 - b * 3600) div 60" and "d = n - a * 86400 - b * 3600 - c * 60"
  have t: "duration_text n = opt_part a (CHR ''d'') @ opt_part b (CHR ''h'') @ opt_part c (CHR ''m'') @ opt_part d (CHR ''s'')"
    by (simp only: duration_text_parts a_def b_def c_def d_def Let_def)
  have pos: "0 < a \<or> 0 < b \<or> 0 < c \<or> 0 < d"
    using assms d_def by linarith
  have ch: "is_digit x \<or> x \<in> set ''dhms''" if "x \<in> set (duration_text n)" for x
    using that int_str_num [of a] int_str_chars [of x a] int_str_chars [of x b] int_str_chars [of x c]
      int_str_chars [of x d] nat_str_digits [of a] nat_str_digits [of b] nat_str_digits [of c] nat_str_digits [of d]
    by (auto simp: t opt_part_def int_str_def list_all_iff split: if_splits)
  have ne: "duration_text n \<noteq> []" using pos by (auto simp: t opt_part_def)
  have "\<exists>x\<in>set (duration_text n). \<not> is_digit x"
  proof -
    have "CHR ''d'' \<in> set (duration_text n) \<or> CHR ''h'' \<in> set (duration_text n)
        \<or> CHR ''m'' \<in> set (duration_text n) \<or> CHR ''s'' \<in> set (duration_text n)"
      using pos by (auto simp: t opt_part_def)
    then show ?thesis using unit_chars unfolding is_num_char_def by blast
  qed
  then have "\<not> isdigit (duration_text n)" by (auto simp: isdigit_def list_all_iff)
  moreover have "remove_char (CHR 0x22) (remove_char (CHR 0x27) (duration_text n)) = duration_text n"
  proof -
    have "CHR 0x27 \<notin> set (duration_text n)" "CHR 0x22 \<notin> set (duration_text n)"
      using ch [of "CHR 0x27"] ch [of "CHR 0x22"] by (auto simp: is_digit_def ccode_def)
    then show ?thesis by (simp add: remove_char_id)
  qed
  moreover have "strip (duration_text n) = duration_text n"
  proof (rule strip_by_id)
    have "\<not> is_space x" if "x \<in> set (duration_text n)" for x
      using ch [OF that] ccode_cmp_space(3) [of x] by (auto simp: is_space_def ccode_def)
    then show "stripped is_space (duration_text n)" using ne by (simp add: stripped_def)
  qed
  ultimately show ?thesis using ne by (auto simp: drop_quotes_def isdigit_def is_digit_def ccode_def)
qed

text \<open>The text a duration is printed as is cleaned back to the same number of seconds, for every
  number of seconds a timedelta can hold; one second more and cleaning raises an OverflowError.\<close>

theorem duration_roundtrip:
  assumes "0 \<le> n" "n < 2 ^ 53"
  shows "duration_clean (PStr (duration_text n))
    = (if n < 86400 * 1000000000 then Inr (PInt n) else Inl P_OverflowError)"
proof (cases "n = 0")
  case True
  then show ?thesis by (simp add: duration_text_def duration_clean_def py_eq_def num_of_def)
next
  case False
  with assms have n: "0 < n" "n < 2 ^ 53" by auto
  define a b c d where "a = n div 86400" and "b = (n - a * 86400) div 3600"
    and "c = (n - a * 86400 - b * 3600) div 60" and "d = n - a * 86400 - b * 3600 - c * 60"
  define gs :: "(int \<times> int) list" where "gs = [(1000000, d), (60000000, c), (3600000000, b), (86400000000, a)]"
  have bd: "0 \<le> a" "a < 2 ^ 53" "0 \<le> b" "b < 24" "0 \<le> c" "c < 60" "0 \<le> d" "d < 60"
    unfolding a_def b_def c_def d_def by (rule split_bounds [OF n])+
  then have "\<forall>(f, n)\<in>set gs. 0 \<le> n \<and> n < 2 ^ 53" by (simp add: gs_def)
  from params_micros [OF this] obtain ps where ps:
    "duration_params (map (\<lambda>(f, n). (f, opt_num n)) gs) = Inr ps"
    "rfold (\<lambda>s (factor, f). td_accum s factor f) (0, 0) ps = Inr (group_micros gs, 0)"
    by (metis add_0)
  have us: "group_micros gs = n * 1000000" by (simp add: gs_def d_def)
  have m: "td_micros ps = (if n < 86400 * 1000000000 then Inr (n * 1000000) else Inl P_OverflowError)"
  proof -
    have q: "n * 1000000 div 86400000000 = n div 86400" using div_mult_mult2 [of 1000000 n 86400] by simp
    have "0 \<le> n div 86400" using n by (simp add: pos_imp_zdiv_nonneg_iff)
    moreover have "n div 86400 < 1000000000 \<longleftrightarrow> n < 86400 * 1000000000"
      using int_div_less [of 86400 n 1000000000] by simp
    ultimately have "\<bar>n * 1000000 div 86400000000\<bar> > 999999999 \<longleftrightarrow> \<not> n < 86400 * 1000000000"
      unfolding q by linarith
    then show ?thesis by (simp add: td_micros_def ps(2) us del: of_int_mult)
  qed
  have dm: "duration_match (duration_text n) = Some (map (\<lambda>(f, n). (f, opt_num n)) gs)"
    unfolding gs_def list.map prod.case duration_match_parts [symmetric]
    by (simp only: duration_text_parts a_def b_def c_def d_def Let_def)
  have s: "float_trunc (td_total_seconds (n * 1000000)) = Inr n" if "n < 86400 * 1000000000"
    using to_double_int [of n] that n by (simp add: td_total_seconds_def float_trunc_of_int)
  have "\<not> py_in (PStr (duration_text n)) [PInt 0, PStr ''0'', PNone, PStr []]"
    using duration_text_chars [OF n(1)] by (simp add: py_eq_def num_of_def)
  then show ?thesis
    using duration_text_chars [OF n(1)] by (simp add: duration_clean_def Let_def dm ps(1) m s)
qed


theorem duration_roundtrip_witness:
  "duration_clean (PStr (duration_text 90061)) = Inr (PInt 90061)"
  using duration_roundtrip [of 90061] by simp

section \<open>Guids\<close>

definition lower_hex :: "char \<Rightarrow> bool" where
  "lower_hex c = (is_digit c \<or> (97 \<le> ccode c \<and> ccode c \<le> 102))"

lemma hex_digit_val: "hex_val c = Some v \<Longrightarrow> hex_digit v = c \<longleftrightarrow> lower_hex c"
  by (auto simp: hex_val_def hex_digit_def lower_hex_def is_digit_def digit_char_def Let_def
      ccode_char_of ccode_inj [symmetric] split: if_splits)

lemma lower_hex_val: "lower_hex c \<Longrightarrow> \<exists>v < 16. hex_val c = Some v \<and> hex_digit v = c"
  by (auto simp: lower_hex_def hex_val_def hex_digit_def is_digit_def digit_char_def Let_def
      ccode_inj [symmetric] ccode_char_of)

lemma hex_val_bound: "hex_val c = Some v \<Longrightarrow> v < 16"
  by (auto simp: hex_val_def is_digit_def Let_def split: if_splits)

lemma hex_digit_lower: "v < 16 \<Longrightarrow> lower_hex (hex_digit v)"
  by (auto simp: lower_hex_def hex_digit_def is_digit_def digit_char_def ccode_char_of)

lemma replace_str_id: "\<not> str_in p s \<Longrightarrow> replace_str p r s = s"
  by (induction s) auto

lemma str_in_chars: "str_in p s \<Longrightarrow> c \<in> set p \<Longrightarrow> c \<in> set s"
  by (auto simp: str_in_iff)

definition variant_digits :: "string" where
  "variant_digits = ''89ab''"

lemma variant_table:
  "hex_digit 8 = CHR ''8''" "hex_digit 9 = CHR ''9''" "hex_digit 10 = CHR ''a''" "hex_digit 11 = CHR ''b''"
  "hex_digit (Suc 8) = CHR ''9''" "hex_val (CHR ''8'') = Some 8" "hex_val (CHR ''9'') = Some 9"
  "hex_val (CHR ''a'') = Some 10" "hex_val (CHR ''b'') = Some 11"
  by code_simp+

lemma variant_iff:
  assumes "hex_val c = Some v"
  shows "hex_digit (8 + v mod 4) = c \<longleftrightarrow> c \<in> set variant_digits"
proof -
  have v: "v < 16" by (rule hex_val_bound [OF assms])
  have *: "hex_digit (8 + w mod 4) \<in> set variant_digits" for w :: nat
  proof -
    have "w mod 4 = 0 \<or> w mod 4 = 1 \<or> w mod 4 = 2 \<or> w mod 4 = 3" by presburger
    then show ?thesis by (elim disjE) (simp_all add: variant_table variant_digits_def)
  qed
  show ?thesis
  proof
    assume "c \<in> set variant_digits"
    then consider "c = CHR ''8''" | "c = CHR ''9''" | "c = CHR ''a''" | "c = CHR ''b''"
      by (auto simp: variant_digits_def)
    then show "hex_digit (8 + v mod 4) = c"
      using assms by cases (simp_all add: variant_table)
  qed (use * in metis)
qed

lemma set_version4_eq:
  assumes "length h = 32" "list_all (\<lambda>c. hex_val c \<noteq> None) h"
  shows "set_version4 h = h \<longleftrightarrow>
    list_all lower_hex h \<and> h ! 12 = CHR ''4'' \<and> h ! 16 \<in> set variant_digits"
proof -
  define dg where "dg c = (case hex_val c of Some v \<Rightarrow> v | None \<Rightarrow> 0)" for c
  have d: "hex_val (h ! i) = Some (dg (h ! i))" if "i < 32" for i
    using assms that by (auto simp: dg_def list_all_length split: option.splits)
  have nth: "set_version4 h ! i = (if i = 16 then hex_digit (8 + dg (h ! 16) mod 4)
      else if i = 12 then CHR ''4'' else hex_digit (dg (h ! i)))" if "i < 32" for i
    using that assms(1) by (simp add: set_version4_def dg_def nth_list_update)
  have len: "length (set_version4 h) = 32" using assms(1) by (simp add: set_version4_def)
  have "set_version4 h = h \<longleftrightarrow> (\<forall>i<32. set_version4 h ! i = h ! i)"
    using assms(1) len by (auto simp: list_eq_iff_nth_eq)
  also have "\<dots> \<longleftrightarrow> h ! 12 = CHR ''4'' \<and> h ! 16 \<in> set variant_digits
      \<and> (\<forall>i<32. i \<noteq> 12 \<longrightarrow> i \<noteq> 16 \<longrightarrow> lower_hex (h ! i))"
    using variant_iff [OF d [of 16]] hex_digit_val [OF d] nth by (auto split: if_splits)
  also have "\<dots> \<longleftrightarrow> h ! 12 = CHR ''4'' \<and> h ! 16 \<in> set variant_digits \<and> (\<forall>i<32. lower_hex (h ! i))"
    by (auto simp: lower_hex_def is_digit_def ccode_def variant_digits_def)
  finally show ?thesis using assms(1) by (auto simp: list_all_length)
qed

text \<open>A string is a guid exactly when, without its dashes, it is 32 lower-case hexadecimal digits whose
  version digit is 4 and whose variant digit is one of 8, 9, a, b; braces, the urn prefix and capital letters, all of which
  the UUID class takes, are refused.\<close>

theorem guid_check_iff:
  "guid_check (PStr s) = Inr (let h = remove_char (CHR ''-'') s in
     length h = 32 \<and> list_all lower_hex h \<and> h ! 12 = CHR ''4'' \<and> h ! 16 \<in> set variant_digits)"
proof -
  define h where "h = remove_char (CHR ''-'') s"
  define u where "u = remove_char (CHR ''-'') (strip_chars ''{}'' (replace_str ''uuid:'' [] (replace_str ''urn:'' [] s)))"
  have uu: "uuid4_hex s = (if length u = 32 \<and> list_all (\<lambda>c. hex_val c \<noteq> None) u then Some (set_version4 u) else None)"
    by (simp only: uuid4_hex_def u_def Let_def)
  have lh: "lower_hex c \<Longrightarrow> c \<notin> {CHR '':'', CHR ''{'', CHR ''}''}" for c
    by (auto simp: lower_hex_def is_digit_def ccode_def)
  have same: "u = h" if "list_all lower_hex h"
  proof -
    have c: "c \<notin> set s" if "c \<in> {CHR '':'', CHR ''{'', CHR ''}''}" for c
      using \<open>list_all lower_hex h\<close> that lh by (auto simp: h_def remove_char_def list_all_iff)
    have "\<not> str_in ''urn:'' s" "\<not> str_in ''uuid:'' s"
      using c [of "CHR '':''"] str_in_chars [of "''urn:''" s "CHR '':''"] str_in_chars [of "''uuid:''" s "CHR '':''"] by auto
    moreover have "strip_chars ''{}'' s = s"
    proof (rule strip_by_id)
      show "stripped (\<lambda>c. c \<in> set ''{}'') s"
        using c hd_in_set [of s] last_in_set [of s] by (fastforce simp: stripped_def)
    qed
    ultimately show ?thesis by (simp add: u_def h_def replace_str_id)
  qed
  have lx: "list_all (\<lambda>c. hex_val c \<noteq> None) h" if "list_all lower_hex h"
    using that lower_hex_val by (fastforce simp: list_all_iff)
  have low: "list_all lower_hex (set_version4 u)" if "length u = 32" "list_all (\<lambda>c. hex_val c \<noteq> None) u"
  proof -
    have "lower_hex (set_version4 u ! i)" if "i < 32" for i
    proof -
      have "hex_val (u ! j) \<noteq> None" if "j < 32" for j
        using that \<open>length u = 32\<close> \<open>list_all _ u\<close> by (auto simp: list_all_length)
      then have v: "(case hex_val (u ! j) of Some v \<Rightarrow> v | None \<Rightarrow> 0) < 16" if "j < 32" for j
        using that hex_val_bound by (fastforce split: option.splits)
      have "8 + m mod 4 < (16 :: nat)" for m using mod_less_divisor [of 4 m] by linarith
      moreover have "lower_hex (CHR ''4'')" by (simp add: lower_hex_def is_digit_def ccode_def)
      ultimately show ?thesis
        using \<open>i < 32\<close> \<open>length u = 32\<close> v [of i]
        by (simp add: set_version4_def nth_list_update hex_digit_lower)
    qed
    then show ?thesis using that by (simp add: list_all_length set_version4_def)
  qed
  have "uuid4_hex s = Some h \<longleftrightarrow> length h = 32 \<and> list_all lower_hex h \<and> h ! 12 = CHR ''4'' \<and> h ! 16 \<in> set variant_digits"
    (is "?L \<longleftrightarrow> ?R")
  proof
    assume ?L
    then have u: "length u = 32" "list_all (\<lambda>c. hex_val c \<noteq> None) u" "set_version4 u = h"
      by (auto simp: uu split: if_splits)
    with low have "list_all lower_hex h" by simp
    moreover from this same have "u = h" by simp
    ultimately show ?R using u set_version4_eq [of h] by simp
  next
    assume R: ?R
    then have "u = h" using same by simp
    with R lx set_version4_eq [of h] show ?L by (simp add: uu)
  qed
  then show ?thesis
    by (auto simp: guid_check_def h_def Let_def split: option.splits)
qed


section \<open>Emails, phone numbers and urls\<close>

lemma lower_char_alnum: "is_alnum c \<Longrightarrow> is_alnum (lower_char c)" "is_alpha c \<Longrightarrow> is_alpha (lower_char c)"
  by (cases "is_upper c"; simp add: is_alnum_def is_alpha_def is_lower_lower_char; simp add: lower_char_def)+

lemma lower_char_plain: "\<not> is_upper c \<Longrightarrow> lower_char c = c"
  by (simp add: lower_char_def)

lemma not_upper: "\<not> is_upper (CHR ''.'')" "\<not> is_upper (CHR ''_'')" "\<not> is_upper (CHR ''%'')"
  "\<not> is_upper (CHR ''+'')" "\<not> is_upper (CHR ''-'')" "\<not> is_upper (CHR ''@'')"
  by (simp_all add: is_upper_def ccode_def)

lemma email_RE_lower: "rx_closed lower_char email_RE"
  by (auto simp: email_RE_def rx_of_def rx_alpha_def RChar_def lower_char_alnum lower_char_plain not_upper)

lemma email_RE_chars:
  assumes "fullmatch email_RE s" "c \<in> set s"
  shows "is_alnum c \<or> c \<in> set ''._%+-@''"
  using matches_chars [OF assms(1) [unfolded fullmatch_iff] assms(2)]
  by (auto simp: email_RE_def rx_of_def rx_alpha_def RChar_def RPlus_def RAtLeast_def is_alnum_def)

lemma email_RE_at: "fullmatch email_RE s \<Longrightarrow> CHR ''@'' \<in> set s"
  by (auto simp: fullmatch_iff email_RE_def matches_simps RChar_def)

lemma not_quoted_chars:
  assumes "CHR 0x27 \<notin> set s" "CHR 0x22 \<notin> set s"
  shows "unquote s = s"
proof (rule unquote_id)
  have "hd (strip s) \<in> set s" if "strip s \<noteq> []" using hd_in_set [OF that] set_strip_by [of is_space s] by auto
  with assms show "\<not> quoted s" by (force simp: quoted_def Let_def)
qed

lemma not_quoted_blank: "strip s = [] \<Longrightarrow> unquote s = s"
  by (rule unquote_id) (simp add: quoted_def)

text \<open>What \<^verbatim>\<open>Email.clean\<close> returns for a string is in lower case and is a fixed point of \<^verbatim>\<open>clean\<close>: an email
  that was cleaned once is accepted and unchanged from then on, whatever the default.\<close>

theorem email_clean_fixed:
  assumes "email_clean d (PStr s) = Inr w" "s \<noteq> ''None''"
  shows "\<exists>t. w = PStr t \<and> lower t = t \<and> email_clean d' w = Inr w"
proof -
  define u where "u = unquote s"
  from assms have n: "lower s \<noteq> ''none''" and c: "email_check (PStr u)" and w: "w = PStr (lower u)"
    by (auto simp: email_clean_def email_clean_val_def jstring_clean_str u_def rbind_eq_Inr str_of_def
        email_check_def split: if_splits)
  define t where "t = lower u"
  have lt: "lower t = t" by (simp add: t_def)
  have "lower ''None'' \<noteq> ''None''" by code_simp
  then have "t \<noteq> ''None''" using lt by auto
  moreover have "t \<noteq> ''none'' \<and> unquote t = t \<and> email_check (PStr t)"
  proof (cases "strip u = []")
    case True
    then have b: "strip t = []" by (simp add: t_def strip_lower)
    moreover have "strip ''none'' \<noteq> []" by (simp add: strip_by_eq_Nil_iff is_space_def ccode_def)
    ultimately show ?thesis by (auto simp: not_quoted_blank email_check_def)
  next
    case False
    with c have m: "fullmatch email_RE u" by (simp add: email_check_def)
    then have m': "fullmatch email_RE t"
      using matches_map email_RE_lower by (simp add: fullmatch_iff t_def lower_def)
    have "CHR 0x27 \<notin> set t" "CHR 0x22 \<notin> set t"
      using email_RE_chars [OF m', of "CHR 0x27"] email_RE_chars [OF m', of "CHR 0x22"]
      by (auto simp: is_alnum_def is_alpha_def is_upper_def is_lower_def is_digit_def ccode_def)
    then show ?thesis using m' email_RE_at [OF m'] by (auto simp: not_quoted_chars email_check_def)
  qed
  ultimately have "email_clean d' (PStr t) = Inr (PStr t)"
    by (simp add: email_clean_def email_clean_val_def jstring_clean_str lt str_of_def)
  with w lt show ?thesis by (simp add: t_def)
qed

theorem email_clean_fixed_witness:
  "email_clean PNone (PStr ''Kristof@Incubaid.COM'') = Inr (PStr ''kristof@incubaid.com'')
   \<and> email_clean PNone (PStr ''kristof@incubaid.com'') = Inr (PStr ''kristof@incubaid.com'')"
proof -
  have e: "email_clean PNone (PStr ''Kristof@Incubaid.COM'') = Inr (PStr ''kristof@incubaid.com'')" by code_simp
  with email_clean_fixed [OF e, of PNone] show ?thesis by auto
qed

lemma url_short_host: "matches url_short s \<Longrightarrow> \<exists>c b. s = c # CHR ''.'' # b \<and> is_alnum c"
  by (auto simp: url_short_def matches_simps RChar_def rx_alnum_def)

lemma url_name_host:
  assumes "matches url_name s"
  shows "\<exists>a b. s = a @ CHR ''.'' # b \<and> (\<forall>c\<in>set a. is_alnum c \<or> c = CHR ''-'')"
proof -
  from assms obtain x u y r where s: "s = x # u @ y # CHR ''.'' # r" and x: "is_alnum x" "is_alnum y"
    and u: "matches (RPlus (rx_of is_alnum ''-'')) u"
    by (auto simp: url_name_def matches_simps RChar_def rx_alnum_def)
  have "is_alnum c \<or> c = CHR ''-''" if "c \<in> set u" for c
    using matches_chars [OF u that] by (auto simp: RPlus_def rx_of_def)
  with x s show ?thesis by (intro exI [of _ "x # u @ [y]"] exI [of _ r]) auto
qed

lemma first_dot:
  assumes "a @ CHR ''.'' # b = a' @ CHR ''.'' # b'" "CHR ''.'' \<notin> set a" "CHR ''.'' \<notin> set a'"
  shows "a = a'"
  using assms split_first_Some [of "CHR ''.''" "a @ CHR ''.'' # b" a b]
    split_first_Some [of "CHR ''.''" "a @ CHR ''.'' # b" a' b'] by simp

lemma dot_not_alnum: "\<not> is_alnum (CHR ''.'')" "\<not> is_alnum (CHR '':'')"
  by (simp_all add: is_alnum_def is_alpha_def is_upper_def is_lower_def is_digit_def ccode_def)

lemma url_short_label:
  assumes "matches url_short (n @ CHR ''.'' # r)" "\<forall>c\<in>set n. is_alnum c \<or> c = CHR ''-''"
  shows "length n = 1"
proof -
  from url_short_host [OF assms(1)] obtain c b where "n @ CHR ''.'' # r = [c] @ CHR ''.'' # b" "is_alnum c" by auto
  moreover from this have "c \<noteq> CHR ''.''" "CHR ''.'' \<notin> set n" using assms(2) dot_not_alnum(1) by auto
  ultimately show ?thesis using first_dot [of n r "[c]" b] by simp
qed

text \<open>A url that names its scheme is refused as soon as the first label of its host, after an optional "www.",
  has two or more characters: neither \<^verbatim>\<open>https://jumpscale.com\<close> nor \<^verbatim>\<open>https://www.google.com\<close> is a url for \<^verbatim>\<open>Url.clean\<close>.\<close>

theorem url_scheme_refused:
  assumes "\<forall>c\<in>set n. is_alnum c \<or> c = CHR ''-''" "2 \<le> length n" "n \<noteq> ''www''" "pre = [] \<or> pre = ''www.''"
  shows "url_clean d (PStr (''https://'' @ pre @ n @ ''.'' @ r)) = Inl E_Value"
proof -
  define s where "s = ''https://'' @ pre @ n @ ''.'' @ r"
  have "\<not> matches url_name s"
  proof
    assume "matches url_name s"
    from url_name_host [OF this] obtain a b where ab: "s = a @ CHR ''.'' # b"
      "\<forall>c\<in>set a. is_alnum c \<or> c = CHR ''-''" by blast
    have "split_first (CHR '':'') s = Some (''https'', ''//'' @ pre @ n @ ''.'' @ r)" by (simp add: s_def)
    moreover have "takeWhile (\<lambda>c. is_alnum c \<or> c = CHR ''-'') s = a"
      using ab dot_not_alnum(1) by (auto simp: takeWhile_append)
    moreover have "takeWhile (\<lambda>c. is_alnum c \<or> c = CHR ''-'') s = ''https''"
      by (simp add: s_def dot_not_alnum(2))
        (simp add: is_alnum_def is_alpha_def is_upper_def is_lower_def is_digit_def ccode_def)
    ultimately show False using ab(1) by (simp add: s_def)
  qed
  moreover have "\<not> matches (RSeq (RText ''www.'') q) s" for q
    by (auto simp: matches_simps RChar_def s_def)
  moreover have short: "\<not> matches url_short (n @ ''.'' @ r)"
    using url_short_label [of n r] assms(1,2) by auto
  moreover have "\<not> www_or_not url_short (pre @ n @ ''.'' @ r)"
  proof (cases "pre = []")
    case True
    have "\<not> matches (RSeq (RText ''www.'') url_short) (n @ ''.'' @ r)"
    proof
      assume "matches (RSeq (RText ''www.'') url_short) (n @ ''.'' @ r)"
      then obtain q where "n @ CHR ''.'' # r = ''www'' @ CHR ''.'' # q" by (auto simp: matches_simps RChar_def)
      with first_dot [of n r "''www''" q] assms(1,3) dot_not_alnum(1) show False by auto
    qed
    with True short show ?thesis by (simp add: www_or_not_def fullmatch_iff)
  next
    case False
    with assms(4) have p: "pre = ''www.''" by simp
    have "\<not> matches (RSeq (RText ''www.'') url_short) (pre @ n @ ''.'' @ r)"
      using short by (auto simp: p matches_simps RChar_def)
    then show ?thesis by (simp add: www_or_not_def fullmatch_iff p)
  qed
  ultimately have "\<not> url_match s"
    by (simp add: url_match_def www_or_not_def [of url_name] fullmatch_iff) (simp add: s_def)
  then show ?thesis by (simp add: url_clean_def url_check_def s_def)
qed

theorem url_scheme_refused_witness:
  "url_clean PNone (PStr ''https://www.google.com'') = Inl E_Value"
  using url_scheme_refused [of "''google''" "''www.''" PNone "''com''"]
  by (simp add: is_alnum_def is_alpha_def is_upper_def is_lower_def is_digit_def ccode_def)

end
