(* ===== verification/Bin.thy ===== *)
theory Bin
  imports PyVal
begin

text \<open>
  Integers as bytes: \<^verbatim>\<open>int.to_bytes(n, "little")\<close>, \<^verbatim>\<open>int.from_bytes\<close> and the unsigned formats of
  \<^verbatim>\<open>struct\<close>, and hexadecimal text (\<^verbatim>\<open>bytes.fromhex\<close>, \<^verbatim>\<open>bytes.hex\<close>).
\<close>

fun le_bytes :: "nat \<Rightarrow> int \<Rightarrow> bytes" where
  "le_bytes 0 i = []"
| "le_bytes (Suc n) i = word_of_int (i mod 256) # le_bytes n (i div 256)"

fun le_int :: "bytes \<Rightarrow> int" where
  "le_int [] = 0"
| "le_int (b # bs) = uint b + 256 * le_int bs"

definition to_bytes_le :: "nat \<Rightarrow> int \<Rightarrow> bytes res" where
  \<comment> \<open>\<^verbatim>\<open>i.to_bytes(n, "little")\<close>\<close>
  "to_bytes_le n i = (if 0 \<le> i \<and> i < 256 ^ n then Inr (le_bytes n i) else Inl P_OverflowError)"

definition pack_I :: "int \<Rightarrow> bytes res" where
  \<comment> \<open>\<^verbatim>\<open>struct.pack("<I", i)\<close>\<close>
  "pack_I i = (if 0 \<le> i \<and> i < 2 ^ 32 then Inr (le_bytes 4 i) else Inl P_StructError)"

definition unpack_I :: "bytes \<Rightarrow> int res" where
  "unpack_I b = (if length b = 4 then Inr (le_int b) else Inl P_StructError)"

lemma length_le_bytes [simp]: "length (le_bytes n i) = n"
  by (induction n arbitrary: i) auto

lemma le_int_le_bytes: "0 \<le> i \<Longrightarrow> i < 256 ^ n \<Longrightarrow> le_int (le_bytes n i) = i"
proof (induction n arbitrary: i)
  case (Suc n)
  have "i div 256 < 256 ^ n" using Suc.prems by (simp add: int_div_less mult.commute)
  with Suc show ?case by (simp add: uint_word_of_int pos_imp_zdiv_nonneg_iff)
qed simp

lemma le_int_bounds: "0 \<le> le_int b \<and> le_int b < 256 ^ length b"
proof (induction b)
  case (Cons x b)
  have "uint x < 256" using uint_bounded [of x] by simp
  with Cons show ?case by (auto simp: )
qed simp

lemma le_bytes_le_int: "le_bytes (length b) (le_int b) = b"
proof (induction b)
  case (Cons x b)
  have x: "0 \<le> uint x" "uint x < 256" using uint_bounded [of x] by auto
  then have "(uint x + 256 * le_int b) mod 256 = uint x" "(uint x + 256 * le_int b) div 256 = le_int b" by auto
  with Cons show ?case by simp
qed simp

lemma unpack_pack:
  assumes "pack_I i = Inr b"
  shows "unpack_I b = Inr i"
proof -
  from assms have "b = le_bytes 4 i" "0 \<le> i" "i < 256 ^ 4" by (auto simp: pack_I_def split: if_splits)
  then show ?thesis by (simp add: unpack_I_def le_int_le_bytes del: le_bytes.simps)
qed

lemma pack_unpack:
  assumes "unpack_I b = Inr i"
  shows "pack_I i = Inr b"
proof -
  from assms have l: "length b = 4" and i: "i = le_int b" by (auto simp: unpack_I_def split: if_splits)
  then have "le_bytes 4 i = b" using le_bytes_le_int [of b] by simp
  then show ?thesis using le_int_bounds [of b] l i by (simp add: pack_I_def)
qed

lemma pack_inj: "pack_I i = Inr b \<Longrightarrow> pack_I k = Inr b \<Longrightarrow> i = k"
  by (drule unpack_pack)+ simp

end
