(* ===== verification/TypesColl.thy ===== *)
theory TypesColl
  imports TypesPrim Bin
begin

text \<open>
  The types of \<^verbatim>\<open>data/types\<close> that hold more than one value, and the registry: the pair type \<^verbatim>\<open>set\<close> of
  CollectionTypes.py, Enumeration.py, List.py, IPAddress.py and IPRange (the standard library's address parsers
  are arguments), Types.py.
\<close>

section \<open>Set: a pair of 32-bit numbers\<close>

definition pair_val :: "pyval \<Rightarrow> pyval \<Rightarrow> pyval" where
  "pair_val a b = PTuple [a, b]"

definition pack_L :: "int \<Rightarrow> bytes res" where
  \<comment> \<open>\<^verbatim>\<open>struct.pack("L", i)\<close>, eight bytes on the platforms supported\<close>
  "pack_L i = (if 0 \<le> i \<and> i < 2 ^ 64 then Inr (le_bytes 8 i) else Inl P_StructError)"

definition unpack_II :: "bytes \<Rightarrow> (int \<times> int) res" where
  "unpack_II b = (if length b = 8 then Inr (le_int (take 4 b), le_int (drop 4 b)) else Inl P_StructError)"

definition bytesToInt :: "pyval \<Rightarrow> pyval res" where
  \<comment> \<open>\<^verbatim>\<open>struct.unpack\<close> gives a tuple, which is returned as it is\<close>
  "bytesToInt v = (case v of
     PBytes b \<Rightarrow> if length b \<noteq> 4 then Inl E_Value else rbind (unpack_I b) (\<lambda>n. Inr (PTuple [PInt n]))
   | _ \<Rightarrow> rbind (to_int v) (\<lambda>n. Inr (PInt n)))"

definition set_clean_items :: "pyval list \<Rightarrow> pyval res" where
  "set_clean_items vs = (case vs of
     [a, b] \<Rightarrow> rbind (bytesToInt a) (\<lambda>v0. rbind (bytesToInt b) (\<lambda>v1. Inr (pair_val v0 v1)))
   | _ \<Rightarrow> Inl E_Value)"

definition set_clean :: "pyval \<Rightarrow> pyval \<Rightarrow> pyval res" where
  "set_clean d v = (if v = PNone \<or> v = PBytes [] then Inr d
     else if is_int v
     then rbind (to_int v) (\<lambda>i. rbind (pack_L i) (\<lambda>b. rbind (unpack_II b) (\<lambda>(r0, r1).
            Inr (pair_val (PInt r1) (PInt r0)))))
     else (case v of
         PList vs \<Rightarrow> set_clean_items vs
       | PTuple vs \<Rightarrow> set_clean_items vs
       | PBytes b \<Rightarrow> if length b \<noteq> 8 then Inl E_Value
           else rbind (unpack_II b) (\<lambda>(r0, r1). Inr (pair_val (PInt r1) (PInt r0)))
       | PStr s \<Rightarrow> if CHR '':'' \<notin> set s then Inl E_Value
           else (case split_char (CHR '':'') s of
              [a, b] \<Rightarrow> rbind (to_int (PStr a)) (\<lambda>v0. rbind (to_int (PStr b)) (\<lambda>v1.
                 Inr (pair_val (PInt v0) (PInt v1))))
            | _ \<Rightarrow> Inl P_ValueError)
       | _ \<Rightarrow> Inl E_Value))"

definition set_init :: "pyval \<Rightarrow> pyval" where
  "set_init d = init_default (pair_val (PInt 0) (PInt 0)) d"

definition set_check :: "pyval \<Rightarrow> bool" where
  "set_check v = (case v of PList l \<Rightarrow> length l = 2 | PTuple l \<Rightarrow> length l = 2 | _ \<Rightarrow> False)"

definition unpair :: "pyval \<Rightarrow> (pyval \<times> pyval) res" where
  \<comment> \<open>\<^verbatim>\<open>v0, v1 = value\<close>\<close>
  "unpair v = (case v of PTuple [a, b] \<Rightarrow> Inr (a, b) | PList [a, b] \<Rightarrow> Inr (a, b) | _ \<Rightarrow> Inl P_ValueError)"

definition set_toString :: "pyval \<Rightarrow> pyval \<Rightarrow> string res" where
  "set_toString d v = rbind (set_clean d v) (\<lambda>x. rbind (unpair x) (\<lambda>(v0, v1).
     Inr (py_str v0 @ '':'' @ py_str v1)))"

definition set_python_code_get :: "pyval \<Rightarrow> pyval \<Rightarrow> string res" where
  "set_python_code_get d v = rbind (set_toString d v) (\<lambda>s. Inr ([CHR 0x27] @ s @ [CHR 0x27]))"

definition set_toml_string_get :: "pyval \<Rightarrow> pyval \<Rightarrow> string \<Rightarrow> string res" where
  "set_toml_string_get d v key = rbind (set_python_code_get d v) (\<lambda>s.
     Inr (if key = [] then s else key @ '' = '' @ s))"

definition pack_arg :: "pyval \<Rightarrow> bytes res" where
  \<comment> \<open>an argument of \<^verbatim>\<open>struct.pack("II", ...)\<close>\<close>
  "pack_arg v = (if is_int v then rbind (to_int v) pack_I else Inl P_StructError)"

definition set_toBytes :: "pyval \<Rightarrow> pyval \<Rightarrow> bytes res" where
  "set_toBytes d v = rbind (set_clean d v) (\<lambda>x. rbind (unpair x) (\<lambda>(o0, o1).
     rbind (pack_arg o1) (\<lambda>b1. rbind (pack_arg o0) (\<lambda>b0. Inr (b1 @ b0)))))"

definition set_toData :: "pyval \<Rightarrow> pyval \<Rightarrow> int res" where
  "set_toData d v = rbind (set_toBytes d v) (\<lambda>b. if length b = 8 then Inr (le_int b) else Inl P_StructError)"

definition set_fromString :: "pyval \<Rightarrow> pyval \<Rightarrow> pyval res" where
  "set_fromString d v = (if \<not> is_str v then Inl E_Value else set_clean d v)"

lemma le_int_append: "le_int (a @ b) = le_int a + 256 ^ length a * le_int b"
  by (induction a) (auto simp: algebra_simps)

lemma unpair_pair [simp]: "unpair (pair_val a b) = Inr (a, b)"
  by (simp add: unpair_def pair_val_def)

lemma set_clean_pair: "set_clean d (pair_val (PInt a) (PInt b)) = Inr (pair_val (PInt a) (PInt b))"
  by (simp add: set_clean_def pair_val_def is_int_def set_clean_items_def bytesToInt_def to_int_def)

lemma int_str_no_colon: "CHR '':'' \<notin> set (int_str i)"
  using int_str_chars [of "CHR '':''" i] by (auto simp: is_digit_def ccode_def)

text \<open>A pair of 32-bit numbers keeps its value through every form the type has: the 64-bit number stored in capnp,
  the eight bytes, and the text "a:b" all clean back to the same pair.\<close>

theorem set_roundtrip:
  assumes "0 \<le> a" "a < 2 ^ 32" "0 \<le> b" "b < 2 ^ 32"
  shows "\<exists>bs. set_toBytes d (pair_val (PInt a) (PInt b)) = Inr bs
    \<and> set_clean d (PBytes bs) = Inr (pair_val (PInt a) (PInt b))
    \<and> set_toData d (pair_val (PInt a) (PInt b)) = Inr (a * 2 ^ 32 + b)
    \<and> set_clean d (PInt (a * 2 ^ 32 + b)) = Inr (pair_val (PInt a) (PInt b))
    \<and> rbind (set_toString d (pair_val (PInt a) (PInt b))) (\<lambda>s. set_fromString d (PStr s)) = Inr (pair_val (PInt a) (PInt b))"
proof -
  define bs where "bs = le_bytes 4 b @ le_bytes 4 a"
  have ab: "le_int (le_bytes 4 a) = a" "le_int (le_bytes 4 b) = b"
    using assms le_int_le_bytes [of a 4] le_int_le_bytes [of b 4] by auto
  have len: "length bs = 8" by (simp add: bs_def)
  then have ne: "bs \<noteq> []" by auto
  have val: "le_int bs = a * 2 ^ 32 + b" by (simp add: bs_def le_int_append ab)
  have "le_bytes 8 (le_int bs) = bs" using le_bytes_le_int [of bs] len by simp
  then have b8: "le_bytes 8 (a * 2 ^ 32 + b) = bs" by (simp only: val)
  have u: "unpack_II bs = Inr (b, a)" by (simp add: unpack_II_def len) (simp add: bs_def ab)
  have tb: "set_toBytes d (pair_val (PInt a) (PInt b)) = Inr bs"
    using assms by (simp add: set_toBytes_def set_clean_pair pack_arg_def is_int_def to_int_def pack_I_def bs_def)
  moreover have "set_clean d (PBytes bs) = Inr (pair_val (PInt a) (PInt b))"
    using ne by (simp add: set_clean_def is_int_def len u)
  moreover have "set_toData d (pair_val (PInt a) (PInt b)) = Inr (a * 2 ^ 32 + b)"
    by (simp only: set_toData_def tb rbind_Inr len val) simp
  moreover have "set_clean d (PInt (a * 2 ^ 32 + b)) = Inr (pair_val (PInt a) (PInt b))"
  proof -
    have "a * 2 ^ 32 + b < 2 ^ 64" "0 \<le> a * 2 ^ 32 + b" using assms by auto
    then have "pack_L (a * 2 ^ 32 + b) = Inr bs" by (simp only: pack_L_def b8 if_True simp_thms)
    then show ?thesis by (simp add: set_clean_def is_int_def to_int_def u)
  qed
  moreover have "rbind (set_toString d (pair_val (PInt a) (PInt b))) (\<lambda>s. set_fromString d (PStr s))
      = Inr (pair_val (PInt a) (PInt b))"
  proof -
    have "split_char (CHR '':'') (int_str a @ CHR '':'' # int_str b) = [int_str a, int_str b]"
      by (simp add: split_char_append split_char_notin int_str_no_colon)
    then show ?thesis
      by (simp add: set_toString_def set_clean_pair set_fromString_def is_str_def)
        (simp add: set_clean_def is_int_def py_str_def)
  qed
  ultimately show ?thesis by blast
qed

theorem set_roundtrip_witness:
  "set_toData PNone (pair_val (PInt 1) (PInt 2)) = Inr 4294967298
   \<and> set_clean PNone (PInt 4294967298) = Inr (pair_val (PInt 1) (PInt 2))"
  using set_roundtrip [of 1 2 PNone] by auto

text \<open>The two four-byte parts the error message of \<^verbatim>\<open>Set.clean\<close> asks for are accepted but not converted: the cleaned
  pair holds one-element tuples instead of numbers, and packing it raises a struct.error.\<close>

theorem set_bytes_parts_broken:
  assumes "length x = 4" "length y = 4"
  shows "set_clean d (PList [PBytes x, PBytes y]) = Inr (pair_val (PTuple [PInt (le_int x)]) (PTuple [PInt (le_int y)]))
    \<and> set_toBytes d (PList [PBytes x, PBytes y]) = Inl P_StructError
    \<and> set_toData d (PList [PBytes x, PBytes y]) = Inl P_StructError"
  using assms
  by (simp add: set_clean_def is_int_def set_clean_items_def bytesToInt_def unpack_I_def set_toBytes_def set_toData_def
      pack_arg_def)

theorem set_bytes_parts_broken_witness:
  "set_toData PNone (PList [PBytes [1, 0, 0, 0], PBytes [2, 0, 0, 0]]) = Inl P_StructError"
  using set_bytes_parts_broken [of "[1, 0, 0, 0]" "[2, 0, 0, 0]" PNone] by simp

section \<open>Enumeration\<close>

definition enum_item :: "string \<Rightarrow> string" where
  "enum_item s = strip (strip_chars [CHR 0x22] (strip (strip_chars [CHR 0x27] (strip s))))"

definition enum_init :: "pyval \<Rightarrow> string list res" where
  \<comment> \<open>the values of the type; any other input is an error\<close>
  "enum_init dflt = (if \<not> truth dflt then Inl E_Value
     else rbind (case dflt of
         PStr s \<Rightarrow> Inr (map enum_item (split_char (CHR '','') s))
       | PList l \<Rightarrow> rmap str_of l
       | _ \<Rightarrow> Inl E_Value) (\<lambda>values. Inr (map (\<lambda>s. strip (upper s)) values)))"

fun index_of :: "'a \<Rightarrow> 'a list \<Rightarrow> nat" where
  "index_of x [] = 0"
| "index_of x (y # ys) = (if x = y then 0 else Suc (index_of x ys))"

definition enum_data :: "string list \<Rightarrow> pyval \<Rightarrow> int res" where
  \<comment> \<open>\<^verbatim>\<open>EnumerationObj.__init__\<close> and \<^verbatim>\<open>_data_from_init_val\<close>\<close>
  "enum_data values v = (case v of
     PNone \<Rightarrow> Inr 0
   | PStr s \<Rightarrow> if s = [] then Inr 0
       else (let value_str = strip (upper s) in
         if value_str \<notin> set values then Inl E_Input else Inr (int (index_of value_str values)))
   | _ \<Rightarrow> if is_int v then
         (if py_str v \<in> set values then Inr (int (index_of (py_str v) values))
          else rbind (to_int v) (\<lambda>i. if i < int (length values) then Inr i else Inl E_Input))
       else Inl E_Value)"

definition enum_string :: "string list \<Rightarrow> int \<Rightarrow> string res" where
  \<comment> \<open>\<^verbatim>\<open>values[data]\<close>, where a negative index counts from the end\<close>
  "enum_string values d = (if 0 \<le> d \<and> d < int (length values) then Inr (values ! nat d)
     else if d < 0 \<and> - int (length values) \<le> d then Inr (values ! nat (d + int (length values)))
     else Inl P_IndexError)"

definition enum_default_get :: "string list \<Rightarrow> int res" where
  "enum_default_get values = enum_data values (PInt 0)"

definition enum_clean :: "string list \<Rightarrow> pyval \<Rightarrow> int res" where
  "enum_clean values v = (if v = PNone then enum_default_get values else enum_data values v)"

definition enum_toData :: "string list \<Rightarrow> pyval \<Rightarrow> int res" where
  "enum_toData values v = enum_clean values v"

definition enum_toString :: "string list \<Rightarrow> pyval \<Rightarrow> string res" where
  "enum_toString values v = rbind (enum_clean values v) (enum_string values)"

definition enum_python_code :: "string list \<Rightarrow> pyval \<Rightarrow> string res" where
  "enum_python_code values v = rbind (enum_toString values v) (\<lambda>s. Inr ([CHR 0x27] @ s @ [CHR 0x27]))"

definition enum_error_text :: "pyval \<Rightarrow> string" where
  "enum_error_text v = ''cannot find '' @ [CHR 0x27] @ py_str v @ [CHR 0x27] @ '' in enumeration''"

definition enum_eq :: "string list \<Rightarrow> int \<Rightarrow> pyval \<Rightarrow> bool res" where
  \<comment> \<open>the handler looks for "could not find enum" in the message, which reads "cannot find ... in enumeration"\<close>
  "enum_eq values d other = (if other = PNone \<or> other = PStr [] then Inr False
     else (case enum_clean values other of
         Inl E_Input \<Rightarrow> if str_in ''could not find enum'' (enum_error_text other) then Inr False else Inl E_Input
       | Inl e \<Rightarrow> Inl e
       | Inr o' \<Rightarrow> rbind (enum_string values o') (\<lambda>so. rbind (enum_string values d) (\<lambda>sd. Inr (so = sd)))))"

definition enum_getattr :: "string list \<Rightarrow> string \<Rightarrow> int res" where
  \<comment> \<open>\<^verbatim>\<open>type.RED\<close> on the type object\<close>
  "enum_getattr values item = (if item \<in> set values then enum_clean values (PInt (int (index_of item values)))
     else Inl P_AttributeError)"

definition enum_capnp :: "string \<Rightarrow> int \<Rightarrow> string" where
  "enum_capnp name nr = capnp_line ''UInt8'' name nr"

lemma index_of_less: "x \<in> set xs \<Longrightarrow> index_of x xs < length xs \<and> xs ! index_of x xs = x"
  by (induction xs) auto

lemma enum_init_upper:
  assumes "enum_init v = Inr values" "x \<in> set values"
  shows "upper x = x \<and> strip x = x"
  using assms by (auto simp: enum_init_def rbind_eq_Inr strip_upper split: if_splits)

text \<open>Every value of an enumeration is recognised in whatever case and with whatever white space around it is written,
  as the first position of that value in the list, and that position reads back as the value.\<close>

theorem enum_roundtrip:
  assumes "enum_init def = Inr values" "strip (upper s) \<in> set values" "s \<noteq> []"
  shows "\<exists>i. enum_clean values (PStr s) = Inr i \<and> 0 \<le> i \<and> i < int (length values)
    \<and> enum_string values i = Inr (strip (upper s))
    \<and> enum_eq values i (PStr (strip (upper s))) = Inr (strip (upper s) \<noteq> [])"
proof -
  define u where "u = strip (upper s)"
  have u: "strip (upper u) = u" using enum_init_upper [OF assms(1,2)] by (simp add: u_def)
  note ix = index_of_less [OF assms(2), folded u_def]
  have s: "enum_string values (int (index_of u values)) = Inr u" using ix by (simp add: enum_string_def)
  have c: "enum_clean values (PStr x) = Inr (int (index_of u values))" if "strip (upper x) = u" "x \<noteq> []" for x
    using that assms(2) by (simp add: enum_clean_def enum_data_def Let_def u_def)
  show ?thesis
    using c [of s] c [of u] s ix u assms(3) by (auto simp: u_def [symmetric] enum_eq_def)
qed

theorem enum_roundtrip_witness:
  "enum_init (PStr ''red, green,blue'') = Inr [''RED'', ''GREEN'', ''BLUE'']
   \<and> (\<exists>i. enum_clean [''RED'', ''GREEN'', ''BLUE''] (PStr '' Green'') = Inr i
      \<and> enum_string [''RED'', ''GREEN'', ''BLUE''] i = Inr ''GREEN'')"
proof -
  have i: "enum_init (PStr ''red, green,blue'') = Inr [''RED'', ''GREEN'', ''BLUE'']" by code_simp
  have u: "strip (upper '' Green'') = ''GREEN''" by code_simp
  from enum_roundtrip [OF i, of "'' Green''"] i show ?thesis by (auto simp: u)
qed

text \<open>Comparing an enumeration value with a word that is none of its values raises an input error instead of answering False,
  because the handler waits for another message; and a negative number is accepted as a value although only
  positions are stored.\<close>

theorem enum_eq_unknown_raises:
  assumes "strip (upper s) \<notin> set values" "s \<noteq> []" "\<not> str_in ''could not find enum'' (enum_error_text (PStr s))"
    and "i < 0" "int_str i \<notin> set values"
  shows "enum_eq values d (PStr s) = Inl E_Input \<and> enum_clean values (PInt i) = Inr i"
  using assms by (simp add: enum_eq_def enum_clean_def enum_data_def Let_def is_int_def to_int_def py_str_def)

theorem enum_eq_unknown_raises_witness:
  "enum_eq [''RED'', ''GREEN''] 0 (PStr ''black'') = Inl E_Input \<and> enum_clean [''RED'', ''GREEN''] (PInt (- 1)) = Inr (- 1)"
proof -
  have "strip (upper ''black'') = ''BLACK''" "\<not> str_in ''could not find enum'' (enum_error_text (PStr ''black''))"
    "int_str (- 1) = ''-1''" by code_simp+
  then show ?thesis using enum_eq_unknown_raises [of "''black''" "[''RED'', ''GREEN'']" "- 1" 0] by simp
qed

end
