(* ===== verification/TypesReg.thy ===== *)
theory TypesReg
  imports TypesColl TypesAdv
begin

text \<open>
  Lists (List.py), address types (IPAddress.py, IPRange), serialized types (the clean of Dictionary in
  CollectionTypes.py) and the registry of types (Types.py) with its aliases and its cache of instances.
\<close>

section \<open>List\<close>

text \<open>
  A list object is its inner list; \<open>cl\<close> is \<^verbatim>\<open>clean\<close> of the subtype. Modelled are the calls without
  \<^verbatim>\<open>toml\<close> and \<^verbatim>\<open>sort\<close>.
\<close>

definition list_check :: "pyval \<Rightarrow> bool" where
  "list_check v = (case v of PList _ \<Rightarrow> True | PTuple _ \<Rightarrow> True | _ \<Rightarrow> False)"

definition elems :: "pyval \<Rightarrow> pyval list" where
  "elems v = (case v of PList l \<Rightarrow> l | PTuple l \<Rightarrow> l | _ \<Rightarrow> [])"

definition list_of_text :: "string \<Rightarrow> string list" where
  "list_of_text s = (let s1 = strip (strip_chars '']'' (strip_chars ''['' (strip s))) in
     filter (\<lambda>i. i \<noteq> []) (map strip (split_char (CHR '','') s1)))"

definition list_item :: "pyval \<Rightarrow> pyval" where
  "list_item v = (case v of PStr s \<Rightarrow> PStr (strip_chars [CHR 0x22] (strip_chars [CHR 0x27] (strip s))) | _ \<Rightarrow> v)"

definition add_unique :: "pyval list \<Rightarrow> pyval \<Rightarrow> pyval list" where
  "add_unique res item = (if py_in item res then res else res @ [item])"

definition list_clean :: "(pyval \<Rightarrow> pyval res) \<Rightarrow> pyval \<Rightarrow> bool \<Rightarrow> pyval \<Rightarrow> pyval list res" where
  "list_clean cl d unique val0 = (let val1 = (if val0 = PNone then d else val0);
       val2 = (if is_int val1 then PList [val1]
         else (case val1 of
            PStr s \<Rightarrow> if strip_by (\<lambda>c. c \<in> {CHR 0x27, CHR 0x22, CHR '' '', CHR ''['', CHR '']''}) s = [] then PList []
                      else PList (map PStr (list_of_text s))
          | _ \<Rightarrow> val1))
     in if \<not> list_check val2 then Inl E_Input
        else rbind (rmap (\<lambda>item. cl (list_item item)) (elems val2)) (\<lambda>res.
          Inr (if unique then foldl add_unique [] res else res)))"

definition list_toString :: "(pyval \<Rightarrow> pyval res) \<Rightarrow> pyval \<Rightarrow> bool \<Rightarrow> pyval \<Rightarrow> string res" where
  "list_toString cl d unique val = rbind (list_clean cl d unique val) (\<lambda>l.
     if 30 < length (py_repr (PList l))
     then Inr (concat (map (\<lambda>item. py_str item @ '','' @ [newline]) l) @ [newline])
     else Inr (strip (strip_chars '','' (strip (concat (map (\<lambda>item. '' '' @ py_str item @ '','') l))))))"

definition list_python_code_get :: "(pyval \<Rightarrow> pyval res) \<Rightarrow> (pyval \<Rightarrow> string res) \<Rightarrow> pyval \<Rightarrow> pyval \<Rightarrow> string res" where
  "list_python_code_get cl pc d val = rbind (list_clean cl d False val) (\<lambda>l. rbind (rmap pc l) (\<lambda>codes.
     Inr (strip_chars '','' (''[ '' @ concat (map (\<lambda>c. c @ '', '') codes)) @ '' ]'')))"

definition list_capnp :: "string \<Rightarrow> string \<Rightarrow> string \<Rightarrow> int \<Rightarrow> string" where
  \<comment> \<open>\<open>base\<close> is the BASETYPE of the subtype, \<open>ty\<close> its capnp type\<close>
  "list_capnp base ty name nr = capnp_line (''List('' @
     (if base \<in> {''string'', ''int'', ''float'', ''bool''} then ty else ''Data'') @ '')'') name nr"

text \<open>The list operations of ListObject that clean what they store; Python lists accept indices from the end.\<close>

definition py_index :: "int \<Rightarrow> nat \<Rightarrow> nat option" where
  "py_index i n = (if 0 \<le> i \<and> i < int n then Some (nat i)
     else if i < 0 \<and> - int n \<le> i then Some (nat (i + int n)) else None)"

definition lo_getitem :: "pyval list \<Rightarrow> int \<Rightarrow> pyval res" where
  "lo_getitem l i = (case py_index i (length l) of None \<Rightarrow> Inl P_IndexError | Some k \<Rightarrow> Inr (l ! k))"

definition lo_setitem :: "(pyval \<Rightarrow> pyval res) \<Rightarrow> pyval list \<Rightarrow> int \<Rightarrow> pyval \<Rightarrow> pyval list res" where
  "lo_setitem cl l i v = rbind (cl v) (\<lambda>x.
     case py_index i (length l) of None \<Rightarrow> Inl P_IndexError | Some k \<Rightarrow> Inr (l[k := x]))"

definition lo_delitem :: "pyval list \<Rightarrow> int \<Rightarrow> pyval list res" where
  "lo_delitem l i = (case py_index i (length l) of None \<Rightarrow> Inl P_IndexError
     | Some k \<Rightarrow> Inr (take k l @ drop (Suc k) l))"

definition lo_insert :: "(pyval \<Rightarrow> pyval res) \<Rightarrow> pyval list \<Rightarrow> int \<Rightarrow> pyval \<Rightarrow> pyval list res" where
  \<comment> \<open>\<^verbatim>\<open>list.insert\<close> clamps its position\<close>
  "lo_insert cl l i v = rbind (cl v) (\<lambda>x.
     let n = int (length l); k = nat (if i < 0 then max 0 (i + n) else min i n)
     in Inr (take k l @ [x] @ drop k l))"

definition lo_new :: "(pyval \<Rightarrow> pyval res) \<Rightarrow> pyval list \<Rightarrow> pyval \<Rightarrow> pyval list res" where
  \<comment> \<open>\<^verbatim>\<open>new\<close> cleans, and \<^verbatim>\<open>append\<close> of MutableSequence inserts, which cleans again\<close>
  "lo_new cl l v = rbind (cl v) (\<lambda>x. lo_insert cl l (int (length l)) x)"

section \<open>Addresses\<close>

definition ipaddr_check :: "(string \<Rightarrow> bool) \<Rightarrow> (string \<Rightarrow> bool) \<Rightarrow> pyval \<Rightarrow> bool" where
  "ipaddr_check v4 v6 v = (if v = PStr [] \<or> v = PNone then True
     else (case v of PStr s \<Rightarrow> lower s = ''localhost'' \<or> v4 s \<or> v6 s | _ \<Rightarrow> False))"

definition ipaddr_fromString :: "(string \<Rightarrow> bool) \<Rightarrow> (string \<Rightarrow> bool) \<Rightarrow> pyval \<Rightarrow> pyval res" where
  "ipaddr_fromString v4 v6 v = (if \<not> is_str v then Inl E_Value
     else if ipaddr_check v4 v6 v then Inr v else Inl E_Value)"

definition ipaddr_default_get :: "(string \<Rightarrow> bool) \<Rightarrow> (string \<Rightarrow> bool) \<Rightarrow> pyval \<Rightarrow> pyval res" where
  "ipaddr_default_get v4 v6 d = ipaddr_fromString v4 v6 (if truth d then d else PStr ''0.0.0.0'')"

definition ipaddr_clean :: "(string \<Rightarrow> bool) \<Rightarrow> (string \<Rightarrow> bool) \<Rightarrow> pyval \<Rightarrow> pyval \<Rightarrow> pyval res" where
  "ipaddr_clean v4 v6 d v = (if v = PNone \<or> v = PStr [] then ipaddr_default_get v4 v6 d
     else if \<not> ipaddr_check v4 v6 v then Inl E_Value
     else rbind (str_of v) (\<lambda>s. Inr (if lower s = ''localhost'' then PStr ''127.0.0.1'' else v)))"

definition iprange_init :: "pyval \<Rightarrow> pyval" where
  "iprange_init d = init_default (PStr ''::/128'') d"

definition iprange_check :: "(string \<Rightarrow> bool) \<Rightarrow> (string \<Rightarrow> bool) \<Rightarrow> string \<Rightarrow> bool" where
  "iprange_check if4 if6 s = (if6 s \<or> if4 s)"

definition iprange_clean :: "(string \<Rightarrow> bool) \<Rightarrow> (string \<Rightarrow> bool) \<Rightarrow> string \<Rightarrow> string option \<Rightarrow> string res" where
  \<comment> \<open>\<^verbatim>\<open>default_get\<close> of the base class cleans the default once more; a default of "None" would never end\<close>
  "iprange_clean if4 if6 d v = (let chk = (\<lambda>s. if iprange_check if4 if6 s then Inr s else Inl E_Value) in
     case v of None \<Rightarrow> (if d = ''None'' then Inl P_RuntimeError else chk d)
       | Some s \<Rightarrow> if s = ''None'' \<or> s = [] then (if d = ''None'' then Inl P_RuntimeError else chk d) else chk s)"

section \<open>Dictionary\<close>

definition dict_clean :: "(bytes \<Rightarrow> pyval res) \<Rightarrow> (string \<Rightarrow> pyval res) \<Rightarrow> pyval \<Rightarrow> pyval \<Rightarrow> pyval res" where
  \<comment> \<open>\<open>ml\<close> and \<open>jl\<close> are msgpack.loads and json.loads\<close>
  "dict_clean ml jl d v0 = (let v = (if truth v0 then v0 else d) in
     if \<not> truth v then Inr (PDict [])
     else rbind (case v of
         PBytes b \<Rightarrow> ml b
       | PStr s \<Rightarrow> if strip s = [] then Inr (PDict []) else jl s
       | _ \<Rightarrow> Inr v) (\<lambda>x. case x of PDict e \<Rightarrow> Inr (PDict e) | _ \<Rightarrow> Inl E_Value))"

definition dict_check :: "pyval \<Rightarrow> bool" where
  "dict_check v = (case v of PDict _ \<Rightarrow> True | _ \<Rightarrow> False)"

section \<open>The registry\<close>

datatype klass = KList | KDict | KGuid | KPath | KBool | KInt | KInt64 | KFloat | KString | KBytes
  | KMultiline | KIPRange | KIPPort | KTel | KYaml | KMsgpack | KJson | KEmail | KDate | KDateTime
  | KDuration | KNumeric | KPercent | KSet | KCapnpBin | KJSXObject | KUrl | KEnum | KIPAddr

definition types_list :: "klass list" where
  "types_list = [KList, KDict, KGuid, KPath, KBool, KInt, KInt64, KFloat, KString, KBytes, KMultiline, KIPRange,
     KIPPort, KTel, KYaml, KMsgpack, KJson, KEmail, KDate, KDateTime, KDuration, KNumeric, KPercent, KSet,
     KCapnpBin, KJSXObject, KUrl, KEnum, KIPAddr]"

fun class_NAME :: "klass \<Rightarrow> string" where
  "class_NAME KList = ''list,l''" | "class_NAME KDict = ''dict''" | "class_NAME KGuid = ''guid''"
| "class_NAME KPath = ''path''" | "class_NAME KBool = ''bool,boolean,b''" | "class_NAME KInt = ''int,integer,i''"
| "class_NAME KInt64 = ''i64,int64''" | "class_NAME KFloat = ''float,f''" | "class_NAME KString = ''string,str,s''"
| "class_NAME KBytes = ''bytes,bin,binary''" | "class_NAME KMultiline = ''multiline''"
| "class_NAME KIPRange = ''iprange''" | "class_NAME KIPPort = ''ipport,tcpport''" | "class_NAME KTel = ''tel,mobile''"
| "class_NAME KYaml = ''yaml''" | "class_NAME KMsgpack = ''msgpack''" | "class_NAME KJson = ''json''"
| "class_NAME KEmail = ''email''" | "class_NAME KDate = ''date,d''" | "class_NAME KDateTime = ''datetime,t''"
| "class_NAME KDuration = ''duration''" | "class_NAME KNumeric = ''numeric,n''" | "class_NAME KPercent = ''percent,perc,p''"
| "class_NAME KSet = ''h,set''" | "class_NAME KCapnpBin = ''capnpbin,cbin''" | "class_NAME KJSXObject = ''jsxobject,o''"
| "class_NAME KUrl = ''url,u''" | "class_NAME KEnum = ''enum,enumeration,e''" | "class_NAME KIPAddr = ''ipaddr , ipaddress''"

fun is_custom :: "klass \<Rightarrow> bool" where
  "is_custom KList = True" | "is_custom KJSXObject = True" | "is_custom KEnum = True" | "is_custom _ = False"

fun basetype :: "klass \<Rightarrow> string" where
  "basetype KList = ''list''" | "basetype KDict = ''dict''" | "basetype KBool = ''bool''" | "basetype KInt = ''int''"
| "basetype KInt64 = ''int''" | "basetype KFloat = ''float''" | "basetype KBytes = ''bytes''" | "basetype KIPPort = ''int''"
| "basetype KDate = ''int''" | "basetype KDateTime = ''int''" | "basetype KDuration = ''int''" | "basetype KNumeric = ''bytes''"
| "basetype KPercent = ''float''" | "basetype KCapnpBin = ''bytes''" | "basetype KJSXObject = ''JSXOBJ''"
| "basetype KEnum = ''int''" | "basetype _ = ''string''"

fun capnp_type :: "klass \<Rightarrow> string" where
  \<comment> \<open>the type in the result of \<^verbatim>\<open>capnp_schema_get\<close>; a list has the subtype's, see \<open>list_capnp\<close>\<close>
  "capnp_type KBool = ''Bool''" | "capnp_type KInt = ''Int32''" | "capnp_type KInt64 = ''Int64''"
| "capnp_type KFloat = ''Float64''" | "capnp_type KPercent = ''Float64''" | "capnp_type KBytes = ''Data''"
| "capnp_type KCapnpBin = ''Data''" | "capnp_type KIPPort = ''Int32''" | "capnp_type KDate = ''UInt32''"
| "capnp_type KDateTime = ''UInt32''" | "capnp_type KDuration = ''UInt32''" | "capnp_type KNumeric = ''Data''"
| "capnp_type KSet = ''Int64''" | "capnp_type KMsgpack = ''Data''" | "capnp_type KDict = ''Data''"
| "capnp_type KJSXObject = ''Data''" | "capnp_type KEnum = ''UInt8''" | "capnp_type _ = ''Text''"

fun is_serialized :: "klass \<Rightarrow> bool" where
  \<comment> \<open>subclasses of \<^verbatim>\<open>TypeBaseClassSerialized\<close>\<close>
  "is_serialized KJson = True" | "is_serialized KMsgpack = True" | "is_serialized KYaml = True"
| "is_serialized KDict = True" | "is_serialized KSet = True" | "is_serialized _ = False"

fun is_objfactory :: "klass \<Rightarrow> bool" where
  \<comment> \<open>subclasses of \<^verbatim>\<open>TypeBaseObjFactory\<close>\<close>
  "is_objfactory KList = True" | "is_objfactory KNumeric = True" | "is_objfactory KEnum = True"
| "is_objfactory KJSXObject = True" | "is_objfactory _ = False"

definition name_parts :: "klass \<Rightarrow> string list" where
  "name_parts k = map strip (split_char (CHR '','') (lower (strip_chars ''_'' (strip (class_NAME k)))))"

definition type_name :: "klass \<Rightarrow> string" where
  "type_name k = hd (name_parts k)"

definition type_aliases :: "(string \<times> string) list" where
  \<comment> \<open>\<^verbatim>\<open>self._aliases\<close>, later entries overwrite earlier ones\<close>
  "type_aliases = concat (map (\<lambda>k. map (\<lambda>a. (a, type_name k)) (tl (name_parts k))) types_list)"

definition alias_of :: "string \<Rightarrow> string" where
  "alias_of t = (case map_of (rev type_aliases) t of Some n \<Rightarrow> n | None \<Rightarrow> t)"

definition klass_of :: "string \<Rightarrow> klass option" where
  "klass_of t = map_of (map (\<lambda>k. (type_name k, k)) types_list) t"

text \<open>A type object: its class, the default it was made with, the subtype of a list.\<close>

datatype jstype = Ty (ty_klass: klass) (ty_default: pyval) (ty_sub: "jstype option")

type_synonym tycache = "(string \<times> jstype) list"

definition plain_type :: "klass \<Rightarrow> jstype" where
  \<comment> \<open>the instance made at start-up, of a class that is not CUSTOM, and \<^verbatim>\<open>j.data.types.list\<close>\<close>
  "plain_type k = Ty k PNone None"

text \<open>
  \<open>types_get\<close> is \<^verbatim>\<open>Types.get\<close>; the recursion is that of list types such as "lls", one letter shorter each
  time. \<open>md5\<close> is \<^verbatim>\<open>j.data.hash.md5_string\<close>, \<open>cl\<close> is \<^verbatim>\<open>clean\<close> of a type object, which some constructors
  apply to their default. The type of the items of a list of objects is made without the cache.
\<close>

definition types_key :: "(string \<Rightarrow> string) \<Rightarrow> klass \<Rightarrow> string \<Rightarrow> string" where
  "types_key md5 k txt = type_name k @ ''_'' @ md5 txt"

definition list_default_str :: "pyval \<Rightarrow> string \<Rightarrow> string" where
  \<comment> \<open>\<^verbatim>\<open>str({"default": default, "subtype": sub})\<close>\<close>
  "list_default_str d sub = py_str (PDict [(PStr ''default'', d), (PStr ''subtype'', PStr sub)])"

definition make_type :: "(jstype \<Rightarrow> pyval \<Rightarrow> pyval res) \<Rightarrow> klass \<Rightarrow> pyval \<Rightarrow> jstype res" where
  \<comment> \<open>the constructors, given a default that is not empty\<close>
  "make_type cl k d =
    (if k = KEnum then rbind (enum_init d) (\<lambda>values. Inr (Ty k (PList (map PStr values)) None))
     else if k \<in> {KJson, KYaml, KMsgpack, KDict} then rbind (cl (plain_type k) d) (\<lambda>d'. Inr (Ty k d' None))
     else Inr (Ty k d None))"

definition make_list :: "(jstype \<Rightarrow> pyval \<Rightarrow> pyval res) \<Rightarrow> jstype option \<Rightarrow> string \<Rightarrow> pyval \<Rightarrow> jstype res" where
  \<comment> \<open>\<^verbatim>\<open>List.__init__\<close> with a subtype: a default that is no list is cleaned with it; without one its items are strings\<close>
  "make_list cl sty sub d = (let d1 = (if \<not> truth d \<or> sub = ''o'' then PList [] else d) in
     case d1 of
       PList _ \<Rightarrow> Inr (Ty KList d1 sty)
     | _ \<Rightarrow> rbind (list_clean (cl (case sty of Some t \<Rightarrow> t | None \<Rightarrow> plain_type KString)) d1 False d1)
              (\<lambda>l. Inr (Ty KList (PList l) sty)))"

definition strip_l :: "string \<Rightarrow> string option" where
  \<comment> \<open>the subtype text of a list type\<close>
  "strip_l t = (if t \<noteq> ''list'' \<and> starts_with ''l'' t then Some (tl t) else None)"

definition is_obj_sub :: "string \<Rightarrow> bool" where
  "is_obj_sub sub = (sub = ''o'' \<or> str_in ''jsxobj'' sub)"

definition types_get1 ::
  "(string \<Rightarrow> string) \<Rightarrow> (jstype \<Rightarrow> pyval \<Rightarrow> pyval res) \<Rightarrow> tycache \<Rightarrow> bool \<Rightarrow> string \<Rightarrow> pyval \<Rightarrow> (tycache \<times> jstype) res" where
  \<comment> \<open>\<^verbatim>\<open>get\<close> of a type that is no list with a subtype; \<open>use\<close> is the argument \<^verbatim>\<open>cache\<close>\<close>
  "types_get1 md5 cl cache use t d = (case klass_of (alias_of t) of
     None \<Rightarrow> Inl E_Value
   | Some k \<Rightarrow>
       if truth d then
         (let key = types_key md5 k (py_str d) in
          case (if use then d_get cache key else None) of
            Some ty \<Rightarrow> Inr (cache, ty)
          | None \<Rightarrow> rbind (make_type cl k d) (\<lambda>ty. Inr (d_set cache key ty, ty)))
       else if is_custom k \<and> k \<noteq> KList then Inl E_Runtime
       else Inr (cache, plain_type k))"

lemma length_strip_by: "length (strip_by p s) \<le> length s"
proof -
  have "length (rstrip_by p t) \<le> length t" for t
    using length_dropWhile_le [of p "rev t"] by (simp add: rstrip_by_def)
  from this [of "lstrip_by p s"] show ?thesis
    using length_dropWhile_le [of p s] by (simp add: strip_by_def lstrip_by_def)
qed

lemma strip_l_length: "strip_l t = Some sub \<Longrightarrow> length (strip_by p sub) < length t"
  using length_strip_by [of p sub] by (cases t) (auto simp: strip_l_def split: if_splits)

function types_get_sub ::
  "(string \<Rightarrow> string) \<Rightarrow> (jstype \<Rightarrow> pyval \<Rightarrow> pyval res) \<Rightarrow> tycache \<Rightarrow> bool \<Rightarrow> string \<Rightarrow> pyval \<Rightarrow> (tycache \<times> jstype) res" where
  \<comment> \<open>the text is lower case and stripped\<close>
  "types_get_sub md5 cl cache use t d = (case strip_l t of
     None \<Rightarrow> types_get1 md5 cl cache use t d
   | Some sub \<Rightarrow>
       (let key = types_key md5 KList (list_default_str d sub) in
        case (if use then d_get cache key else None) of
          Some ty \<Rightarrow> Inr (cache, ty)
        | None \<Rightarrow>
            rbind (if sub = [] then Inr (cache, None)
                   else rbind (if is_obj_sub sub then types_get_sub md5 cl cache False (strip sub) d
                               else types_get_sub md5 cl cache True (strip sub) PNone) (\<lambda>(c, st). Inr (c, Some st)))
              (\<lambda>(cache1, sty). rbind (make_list cl sty sub d) (\<lambda>ty. Inr (d_set cache1 key ty, ty)))))"
  by pat_completeness auto
termination
  by (relation "measure (\<lambda>(md5, cl, cache, use, t, d). length t)") (auto simp: strip_l_length)

declare types_get_sub.simps [simp del]

definition types_get ::
  "(string \<Rightarrow> string) \<Rightarrow> (jstype \<Rightarrow> pyval \<Rightarrow> pyval res) \<Rightarrow> tycache \<Rightarrow> string \<Rightarrow> pyval \<Rightarrow> (tycache \<times> jstype) res" where
  "types_get md5 cl cache ttype d = types_get_sub md5 cl cache True (strip (lower ttype)) d"

definition types_fix :: "pyval \<Rightarrow> pyval \<Rightarrow> pyval res" where
  "types_fix val d = (if val = PNone \<or> val = PStr [] \<or> val = PList [] then Inr d
     else if list_check d then
       (if list_check val then Inr (PList (foldl add_unique [] (elems val)))
        else (let s = remove_char (CHR 0x27) (py_str val) in
          if CHR '','' \<in> set s then Inr (PList (foldl add_unique [] (map (\<lambda>i. PStr (strip i)) (split_char (CHR '','') s))))
          else Inr (PList [PStr s])))
     else if bool_check d then Inr (PBool (lower (py_str val) \<in> {''true'', ''1'', ''y'', ''yes''}))
     else if int_check d then rbind (to_int val) (\<lambda>i. Inr (PInt i))
     else if float_check d then rbind (to_int val) (\<lambda>i. Inr (PInt i))
     else Inr (PStr (py_str val)))"

section \<open>Properties\<close>

lemma klass_names: "map type_name types_list = [''list'', ''dict'', ''guid'', ''path'', ''bool'', ''int'', ''i64'', ''float'',
  ''string'', ''bytes'', ''multiline'', ''iprange'', ''ipport'', ''tel'', ''yaml'', ''msgpack'', ''json'', ''email'', ''date'',
  ''datetime'', ''duration'', ''numeric'', ''percent'', ''h'', ''capnpbin'', ''jsxobject'', ''url'', ''enum'', ''ipaddr'']"
  by code_simp

lemma klass_aliases: "type_aliases = [(''l'', ''list''), (''boolean'', ''bool''), (''b'', ''bool''), (''integer'', ''int''),
  (''i'', ''int''), (''int64'', ''i64''), (''f'', ''float''), (''str'', ''string''), (''s'', ''string''), (''bin'', ''bytes''),
  (''binary'', ''bytes''), (''tcpport'', ''ipport''), (''mobile'', ''tel''), (''d'', ''date''), (''t'', ''datetime''),
  (''n'', ''numeric''), (''perc'', ''percent''), (''p'', ''percent''), (''set'', ''h''), (''cbin'', ''capnpbin''),
  (''o'', ''jsxobject''), (''u'', ''url''), (''enumeration'', ''enum''), (''e'', ''enum''), (''ipaddress'', ''ipaddr'')]"
  by code_simp

text \<open>Once made, a type object is returned again for the same text and default: the cache only grows.\<close>

lemma types_get1_cache:
  assumes "types_get1 md5 cl cache use t d = Inr (cache', ty)" "d_get cache key = Some x" "use"
  shows "d_get cache' key = Some x"
  using assms by (auto simp: types_get1_def Let_def rbind_eq_Inr split: option.splits if_splits)

lemma types_get1_again:
  assumes "types_get1 md5 cl cache use t d = Inr (cache', ty)"
  shows "types_get1 md5 cl cache' True t d = Inr (cache', ty)"
  using assms by (auto simp: types_get1_def Let_def rbind_eq_Inr split: option.splits if_splits)

text \<open>Asking the registry twice for the same type with the same default returns the same type object and leaves
  the cache as it is, for plain types, types with a default and lists of any depth.\<close>

theorem types_get_stable:
  assumes "types_get md5 cl cache ttype d = Inr (cache', ty)"
  shows "types_get md5 cl cache' ttype d = Inr (cache', ty)"
proof (cases "strip_l (strip (lower ttype))")
  case None
  with assms show ?thesis
    by (simp add: types_get_def types_get_sub.simps [of _ _ _ _ "strip (lower ttype)"] types_get1_again)
next
  case (Some sub)
  define key where "key = types_key md5 KList (list_default_str d sub)"
  have "d_get cache' key = Some ty"
    using assms
    by (auto simp: types_get_def types_get_sub.simps [of _ _ _ _ "strip (lower ttype)"] Some key_def [symmetric]
        rbind_eq_Inr split: option.splits if_splits)
  then show ?thesis
    by (simp add: types_get_def types_get_sub.simps [of _ _ _ _ "strip (lower ttype)"] Some key_def [symmetric])
qed

theorem types_get_stable_witness:
  "\<exists>cache' ty. types_get (\<lambda>s. s) (\<lambda>t v. Inr v) [] ''ls'' PNone = Inr (cache', ty)
     \<and> types_get (\<lambda>s. s) (\<lambda>t v. Inr v) cache' ''ls'' PNone = Inr (cache', ty) \<and> ty_sub ty = Some (plain_type KString)"
proof -
  have a: "types_get (\<lambda>s. s) (\<lambda>t v. Inr v) [] ''ls'' PNone
      = Inr ([(types_key (\<lambda>s. s) KList (list_default_str PNone ''s''), Ty KList (PList []) (Some (plain_type KString)))],
             Ty KList (PList []) (Some (plain_type KString)))"
    by code_simp
  from types_get_stable [OF a] a show ?thesis by simp
qed

text \<open>\<^verbatim>\<open>Types.fix\<close> with a float as default throws away the fraction of the value it is given and returns an int.\<close>

theorem types_fix_float_truncates:
  "types_fix (PFloat (Fin q)) (PFloat f) = Inr (PInt (if 0 \<le> q then \<lfloor>q\<rfloor> else \<lceil>q\<rceil>))"
  by (simp add: types_fix_def list_check_def bool_check_def int_check_def is_int_def float_check_def is_float_def
      to_int_def float_trunc_def)

end
