(* ===== verification/KVStore.thy ===== *)
theory KVStore
  imports PyVal
begin

text \<open>
  The contract between \<^verbatim>\<open>data/bcdb\<close> and its storage clients (\<^verbatim>\<open>storclient\<close>): numbered records of bytes. \<open>put\<close>
  is \<^verbatim>\<open>set(data, key=None)\<close> with the current time as first argument, \<open>items\<close> is \<^verbatim>\<open>iterate()\<close>. A result None of
  \<open>put\<close> says that the same data was there already.
\<close>

locale kv_store =
  fixes wf :: "'s \<Rightarrow> bool"
    and get :: "'s \<Rightarrow> int \<Rightarrow> bytes option"
    and put :: "int \<Rightarrow> 's \<Rightarrow> bytes \<Rightarrow> int option \<Rightarrow> ('s \<times> int option) res"
    and del :: "'s \<Rightarrow> int \<Rightarrow> 's res"
    and items :: "'s \<Rightarrow> (int \<times> bytes) list"
  assumes put_new: "wf s \<Longrightarrow> d \<noteq> [] \<Longrightarrow> put now s d None = Inr (s', r) \<Longrightarrow>
      wf s' \<and> (\<exists>k. r = Some k \<and> 0 \<le> k \<and> get s k = None \<and> get s' = (get s)(k \<mapsto> d))"
    and put_old: "wf s \<Longrightarrow> d \<noteq> [] \<Longrightarrow> get s k = Some d0 \<Longrightarrow> put now s d (Some k) = Inr (s', r) \<Longrightarrow>
      wf s' \<and> get s' = (get s)(k \<mapsto> d) \<and> r = (if d0 = d then None else Some k)"
    and del_key: "wf s \<Longrightarrow> 0 < k \<Longrightarrow> del s k = Inr s' \<Longrightarrow> wf s' \<and> get s' = (get s)(k := None)"
    and items_graph: "wf s \<Longrightarrow> distinct (map fst (items s)) \<and> set (items s) = {(k, d). get s k = Some d}"
begin

lemma put_new_wf: "wf s \<Longrightarrow> d \<noteq> [] \<Longrightarrow> put now s d None = Inr (s', r) \<Longrightarrow> wf s'"
  using put_new by blast

lemma put_new_get:
  assumes "wf s" "d \<noteq> []" "put now s d None = Inr (s', Some k)"
  shows "get s' k = Some d" "get s k = None" "0 \<le> k" "k' \<noteq> k \<Longrightarrow> get s' k' = get s k'"
  using put_new [OF assms] by auto

lemma put_new_Some: "wf s \<Longrightarrow> d \<noteq> [] \<Longrightarrow> put now s d None = Inr (s', r) \<Longrightarrow> \<exists>k. r = Some k"
  using put_new by blast

lemma put_old_get:
  assumes "wf s" "d \<noteq> []" "get s k \<noteq> None" "put now s d (Some k) = Inr (s', r)"
  shows "wf s'" "get s' = (get s)(k \<mapsto> d)"
  using put_old [OF assms(1,2) _ assms(4)] assms(3) by auto

text \<open>What the iteration lists after an operation, as a map.\<close>

lemma items_map: "wf s \<Longrightarrow> map_of (items s) = get s"
proof (rule ext)
  fix k
  assume w: "wf s"
  show "map_of (items s) k = get s k"
  proof (cases "get s k")
    case None
    then show ?thesis using items_graph [OF w] by (auto simp: map_of_eq_None_iff)
  next
    case (Some d)
    then show ?thesis using items_graph [OF w] by (auto intro!: map_of_is_SomeI)
  qed
qed

lemma items_put_new:
  assumes "wf s" "d \<noteq> []" "put now s d None = Inr (s', Some k)"
  shows "set (items s') = insert (k, d) (set (items s)) \<and> k \<notin> fst ` set (items s)"
  using put_new [OF assms] items_graph [OF assms(1)] items_graph [of s']
  by (auto split: if_splits)

lemma items_del:
  assumes "wf s" "0 < k" "del s k = Inr s'"
  shows "set (items s') = {(k', d). (k', d) \<in> set (items s) \<and> k' \<noteq> k}"
  using del_key [OF assms] items_graph [OF assms(1)] items_graph [of s'] by (auto split: if_splits)

end

end
