(* ===== verification/RDB.thy ===== *)
theory RDB
  imports Bin TypesPrim KVStore
begin

text \<open>
  The redis storage client, \<^verbatim>\<open>clients/stor_rdb/RDBClient.py\<close>. Records live in one redis hash, ids come
  from a counter. The redis server is a parameter: a record of the commands the client sends, on a server
  state \<open>'s\<close>, with \<open>redis_laws\<close> for their documented behaviour on the keys the client uses.
\<close>

section \<open>The redis server\<close>

record 's redis =
  r_hget :: "'s \<Rightarrow> string \<Rightarrow> int \<Rightarrow> bytes option"
  r_hset :: "'s \<Rightarrow> string \<Rightarrow> int \<Rightarrow> bytes \<Rightarrow> 's"
  r_hdel :: "'s \<Rightarrow> string \<Rightarrow> int \<Rightarrow> 's"
  r_hexists :: "'s \<Rightarrow> string \<Rightarrow> int \<Rightarrow> bool"
  r_hlen :: "'s \<Rightarrow> string \<Rightarrow> int"
  r_get :: "'s \<Rightarrow> string \<Rightarrow> int option"  \<comment> \<open>of a counter\<close>
  r_incr :: "'s \<Rightarrow> string \<Rightarrow> 's \<times> int"
  r_delete :: "'s \<Rightarrow> string \<Rightarrow> 's"

definition redis_laws :: "'s redis \<Rightarrow> string \<Rightarrow> string \<Rightarrow> bool" where
  \<comment> \<open>\<open>h\<close> is used as a hash, \<open>c\<close> as a counter\<close>
  "redis_laws R h c = (h \<noteq> c
     \<and> (\<forall>s k v k'. r_hget R (r_hset R s h k v) h k' = (if k' = k then Some v else r_hget R s h k'))
     \<and> (\<forall>s k v. r_get R (r_hset R s h k v) c = r_get R s c)
     \<and> (\<forall>s k k'. r_hget R (r_hdel R s h k) h k' = (if k' = k then None else r_hget R s h k'))
     \<and> (\<forall>s k. r_get R (r_hdel R s h k) c = r_get R s c)
     \<and> (\<forall>s k. r_hexists R s h k = (r_hget R s h k \<noteq> None))
     \<and> (\<forall>s. r_hlen R s h = int (card {k. r_hget R s h k \<noteq> None}))
     \<and> (\<forall>s. snd (r_incr R s c) = (case r_get R s c of None \<Rightarrow> 1 | Some n \<Rightarrow> n + 1))
     \<and> (\<forall>s. r_get R (fst (r_incr R s c)) c = Some (snd (r_incr R s c)))
     \<and> (\<forall>s k. r_hget R (fst (r_incr R s c)) h k = r_hget R s h k)
     \<and> (\<forall>s k. r_hget R (r_delete R s h) h k = None) \<and> (\<forall>s. r_get R (r_delete R s h) c = r_get R s c)
     \<and> (\<forall>s. r_get R (r_delete R s c) c = None) \<and> (\<forall>s k. r_hget R (r_delete R s c) h k = r_hget R s h k))"

section \<open>The client\<close>

record 's rdb =
  rdb_redis :: "'s redis"
  rdb_srv :: 's
  rdb_name :: string

definition hsetkey :: "'s rdb \<Rightarrow> string" where
  "hsetkey c = ''rdb:'' @ rdb_name c"

definition incrkey :: "'s rdb \<Rightarrow> string" where
  "incrkey c = ''rdbmeta:incr:'' @ rdb_name c"

definition keysbinkey :: "'s rdb \<Rightarrow> string" where
  "keysbinkey c = ''rdbmeta:keys:'' @ rdb_name c"

definition rdb_incr :: "'s rdb \<Rightarrow> 's rdb \<times> int" where
  "rdb_incr c = (let (s, n) = r_incr (rdb_redis c) (rdb_srv c) (incrkey c) in (c\<lparr>rdb_srv := s\<rparr>, n - 1))"

definition rdb_value_encode :: "int \<Rightarrow> bytes \<Rightarrow> bytes res" where
  \<comment> \<open>\<open>now\<close> is \<^verbatim>\<open>j.data.time.epoch\<close>\<close>
  "rdb_value_encode now val = rbind (to_bytes_le 4 now) (\<lambda>t. Inr (t @ val))"

definition rdb_value_decode :: "bytes \<Rightarrow> bytes" where
  "rdb_value_decode val = drop 4 val"

definition rdb_get :: "'s rdb \<Rightarrow> int \<Rightarrow> bytes option" where
  \<comment> \<open>key 0 goes through \<^verbatim>\<open>int.clean\<close>, which leaves an integer alone; \<^verbatim>\<open>not data\<close> also covers empty data\<close>
  "rdb_get c key = (case r_hget (rdb_redis c) (rdb_srv c) (hsetkey c) key of
     None \<Rightarrow> None | Some data \<Rightarrow> if data = [] then None else Some (rdb_value_decode data))"

definition rdb_hset :: "'s rdb \<Rightarrow> int \<Rightarrow> bytes \<Rightarrow> 's rdb" where
  "rdb_hset c key data = c\<lparr>rdb_srv := r_hset (rdb_redis c) (rdb_srv c) (hsetkey c) key data\<rparr>"

definition rdb_set :: "int \<Rightarrow> 's rdb \<Rightarrow> bytes \<Rightarrow> int option \<Rightarrow> ('s rdb \<times> int option) res" where
  "rdb_set now c data key = rbind (rdb_value_encode now data) (\<lambda>data2.
     case key of
       None \<Rightarrow> (let (c', k) = rdb_incr c in Inr (rdb_hset c' k data2, Some k))
     | Some k \<Rightarrow>
         (case rdb_get c k of
            Some dataexisting \<Rightarrow>
              if dataexisting \<noteq> [] \<and> dataexisting = data then Inr (c, None)
              else Inr (rdb_hset c k data2, Some k)
          | None \<Rightarrow> Inr (rdb_hset c k data2, Some k)))"

definition rdb_exists :: "'s rdb \<Rightarrow> int \<Rightarrow> bool res" where
  "rdb_exists c key = (if key = 0 then Inl E_Value
     else Inr (r_hexists (rdb_redis c) (rdb_srv c) (hsetkey c) key))"

definition rdb_delete :: "'s rdb \<Rightarrow> int \<Rightarrow> 's rdb res" where
  \<comment> \<open>unlike \<^verbatim>\<open>exists\<close>, key 0 is let through\<close>
  "rdb_delete c key = Inr (c\<lparr>rdb_srv := r_hdel (rdb_redis c) (rdb_srv c) (hsetkey c) key\<rparr>)"

definition rdb_flush :: "'s rdb \<Rightarrow> 's rdb" where
  "rdb_flush c = (let R = rdb_redis c in
     c\<lparr>rdb_srv := r_delete R (r_delete R (r_delete R (rdb_srv c) (hsetkey c)) (incrkey c)) (keysbinkey c)\<rparr>)"

definition rdb_stop :: "'s rdb \<Rightarrow> int" where
  \<comment> \<open>\<^verbatim>\<open>if not stop: stop = 0 else: stop = int(stop) + 1\<close>; redis gives the counter as bytes, so \<^verbatim>\<open>b"0"\<close> is true\<close>
  "rdb_stop c = (case r_get (rdb_redis c) (rdb_srv c) (incrkey c) of None \<Rightarrow> 0 | Some n \<Rightarrow> n + 1)"

definition rdb_iterate :: "'s rdb \<Rightarrow> int \<Rightarrow> (int \<times> bytes) list" where
  \<comment> \<open>from older to newer keys; \<^verbatim>\<open>if data\<close> skips empty data. \<^verbatim>\<open>reverse=True\<close> opens a debug shell and then walks in the same order\<close>
  "rdb_iterate c key_start = concat (map (\<lambda>i. case rdb_get c i of
       None \<Rightarrow> [] | Some data \<Rightarrow> if data = [] then [] else [(i, data)]) [key_start..rdb_stop c - 1])"

definition rdb_list :: "'s rdb \<Rightarrow> int \<Rightarrow> int list" where
  "rdb_list c key_start = map fst (rdb_iterate c key_start)"

definition rdb_count :: "'s rdb \<Rightarrow> int" where
  "rdb_count c = r_hlen (rdb_redis c) (rdb_srv c) (hsetkey c)"

section \<open>Invariant\<close>

text \<open>
  Every record has data behind its four time bytes and an id below the counter. Ids that were never handed out
  are not used: with an explicit id at or above the counter a later \<^verbatim>\<open>set\<close> without an id would reuse it.
\<close>

definition rdb_ids :: "'s rdb \<Rightarrow> int" where
  "rdb_ids c = (case r_get (rdb_redis c) (rdb_srv c) (incrkey c) of None \<Rightarrow> 0 | Some n \<Rightarrow> n)"

definition rdb_wf :: "'s rdb \<Rightarrow> bool" where
  "rdb_wf c = (redis_laws (rdb_redis c) (hsetkey c) (incrkey c) \<and> redis_laws (rdb_redis c) (hsetkey c) (keysbinkey c)
     \<and> 0 \<le> rdb_ids c
     \<and> (\<forall>k v. r_hget (rdb_redis c) (rdb_srv c) (hsetkey c) k = Some v \<longrightarrow> 0 \<le> k \<and> k < rdb_ids c \<and> 4 < length v))"

lemmas rdb_keys = hsetkey_def incrkey_def keysbinkey_def

lemma redis_lawsD:
  assumes "redis_laws R h c"
  shows "r_hget R (r_hset R s h k v) h k' = (if k' = k then Some v else r_hget R s h k')"
    and "r_get R (r_hset R s h k v) c = r_get R s c"
    and "r_hget R (r_hdel R s h k) h k' = (if k' = k then None else r_hget R s h k')"
    and "r_get R (r_hdel R s h k) c = r_get R s c"
    and "r_hexists R s h k = (r_hget R s h k \<noteq> None)"
    and "r_hlen R s h = int (card {k. r_hget R s h k \<noteq> None})"
    and "snd (r_incr R s c) = (case r_get R s c of None \<Rightarrow> 1 | Some n \<Rightarrow> n + 1)"
    and "r_get R (fst (r_incr R s c)) c = Some (snd (r_incr R s c))"
    and "r_hget R (fst (r_incr R s c)) h k = r_hget R s h k"
    and "r_hget R (r_delete R s h) h k = None" "r_get R (r_delete R s h) c = r_get R s c"
    and "r_get R (r_delete R s c) c = None" "r_hget R (r_delete R s c) h k = r_hget R s h k"
  using assms by (auto simp: redis_laws_def)

lemma rdb_wf_laws: "rdb_wf c \<Longrightarrow> redis_laws (rdb_redis c) (hsetkey c) (incrkey c)"
  by (simp add: rdb_wf_def)

lemma hsetkey_upd [simp]: "hsetkey (c\<lparr>rdb_srv := s\<rparr>) = hsetkey c" "incrkey (c\<lparr>rdb_srv := s\<rparr>) = incrkey c"
  "keysbinkey (c\<lparr>rdb_srv := s\<rparr>) = keysbinkey c"
  by (simp_all add: rdb_keys)

lemma rdb_wfD:
  assumes "rdb_wf c" "r_hget (rdb_redis c) (rdb_srv c) (hsetkey c) k = Some v"
  shows "0 \<le> k" "k < rdb_ids c" "4 < length v" "v \<noteq> []"
  using assms unfolding rdb_wf_def by fastforce+

lemma rdb_get_None_iff: "rdb_wf c \<Longrightarrow> rdb_get c k = None \<longleftrightarrow> r_hget (rdb_redis c) (rdb_srv c) (hsetkey c) k = None"
  using rdb_wfD(4) by (fastforce simp: rdb_get_def split: option.splits)

lemma rdb_get_bounds:
  assumes "rdb_wf c" "rdb_get c k = Some d"
  shows "0 \<le> k \<and> k < rdb_ids c \<and> d \<noteq> []"
proof -
  from assms(2) obtain v where v: "r_hget (rdb_redis c) (rdb_srv c) (hsetkey c) k = Some v" "d = drop 4 v"
    by (auto simp: rdb_get_def rdb_value_decode_def split: option.splits if_splits)
  with rdb_wfD [OF assms(1), of k v] show ?thesis by auto
qed

lemma encode_now: "rdb_value_encode now d = Inr e \<Longrightarrow> length e = 4 + length d \<and> drop 4 e = d"
  by (auto simp: rdb_value_encode_def to_bytes_le_def rbind_eq_Inr split: if_splits)

lemma rdb_hset_wf:
  assumes "rdb_wf c" "0 \<le> k" "k < rdb_ids c" "rdb_value_encode now d = Inr e" "d \<noteq> []"
  shows "rdb_wf (rdb_hset c k e) \<and> rdb_get (rdb_hset c k e) = (rdb_get c)(k \<mapsto> d)"
proof -
  note L = redis_lawsD [OF rdb_wf_laws [OF assms(1)]]
  note e = encode_now [OF assms(4)]
  have "e \<noteq> []" using e by (cases e) auto
  have "rdb_get (rdb_hset c k e) = (rdb_get c)(k \<mapsto> d)"
    by (rule ext) (use \<open>e \<noteq> []\<close> e in \<open>simp add: rdb_get_def rdb_hset_def L rdb_value_decode_def\<close>)
  moreover have "rdb_wf (rdb_hset c k e)"
    using assms(1-3,5) e by (auto simp: rdb_wf_def rdb_hset_def rdb_ids_def L split: if_splits)
  ultimately show ?thesis by simp
qed

lemma rdb_incr_wf:
  assumes "rdb_wf c" "rdb_incr c = (c', k)"
  shows "rdb_wf c' \<and> k = rdb_ids c \<and> rdb_ids c' = k + 1 \<and> rdb_get c' = rdb_get c \<and> hsetkey c' = hsetkey c"
proof -
  note L = redis_lawsD [OF rdb_wf_laws [OF assms(1)]]
  obtain s n where sn: "r_incr (rdb_redis c) (rdb_srv c) (incrkey c) = (s, n)" by force
  with assms(2) have c': "c' = c\<lparr>rdb_srv := s\<rparr>" "k = n - 1" by (auto simp: rdb_incr_def)
  have n: "n = rdb_ids c + 1" using L(7) [of "rdb_srv c"] sn by (auto simp: rdb_ids_def split: option.splits)
  have g: "r_get (rdb_redis c) s (incrkey c) = Some n" using L(8) [of "rdb_srv c"] sn by simp
  have h: "r_hget (rdb_redis c) s (hsetkey c) k = r_hget (rdb_redis c) (rdb_srv c) (hsetkey c) k" for k
    using L(9) [of "rdb_srv c"] sn by simp
  have i: "rdb_ids c' = n" by (simp add: rdb_ids_def c' g)
  have "0 \<le> rdb_ids c" using assms(1) by (simp add: rdb_wf_def)
  with assms(1) have "rdb_wf c'" unfolding rdb_wf_def i using n by (fastforce simp: c' h)
  then show ?thesis using n i by (auto simp: c' rdb_get_def h)
qed


lemma rdb_set_new:
  assumes "rdb_wf c" "d \<noteq> []" "rdb_set now c d None = Inr (c', r)"
  shows "rdb_wf c' \<and> r = Some (rdb_ids c) \<and> rdb_get c (rdb_ids c) = None
    \<and> rdb_get c' = (rdb_get c)(rdb_ids c \<mapsto> d) \<and> rdb_ids c < rdb_ids c'"
proof -
  obtain e where e: "rdb_value_encode now d = Inr e" using assms(3) by (auto simp: rdb_set_def rbind_eq_Inr)
  obtain c1 k where i: "rdb_incr c = (c1, k)" by force
  note w = rdb_incr_wf [OF assms(1) i]
  have c': "c' = rdb_hset c1 k e" "r = Some k" using assms(3) by (auto simp: rdb_set_def e i)
  have "0 \<le> k" using w assms(1) by (simp add: rdb_wf_def)
  with rdb_hset_wf [of c1 k now d e] w e assms(2) have "rdb_wf c' \<and> rdb_get c' = (rdb_get c)(k \<mapsto> d)"
    by (simp add: c')
  moreover have "rdb_get c (rdb_ids c) = None"
    using rdb_get_bounds [OF assms(1), of "rdb_ids c"] by (cases "rdb_get c (rdb_ids c)") auto
  moreover have "rdb_ids c' = rdb_ids c1"
    using redis_lawsD(2) [OF rdb_wf_laws [of c1]] w by (simp add: c' rdb_hset_def rdb_ids_def)
  ultimately show ?thesis using w c' by simp
qed

lemma rdb_set_old:
  assumes "rdb_wf c" "d \<noteq> []" "rdb_get c k = Some d0" "rdb_set now c d (Some k) = Inr (c', r)"
  shows "rdb_wf c' \<and> rdb_get c' = (rdb_get c)(k \<mapsto> d) \<and> r = (if d0 = d then None else Some k)"
proof -
  obtain e where e: "rdb_value_encode now d = Inr e" using assms(4) by (auto simp: rdb_set_def rbind_eq_Inr)
  note b = rdb_get_bounds [OF assms(1,3)]
  show ?thesis
    using assms(4) rdb_hset_wf [OF assms(1) _ _ e assms(2), of k] b assms(1,3)
    by (auto simp: rdb_set_def e fun_upd_idem split: if_splits)
qed

lemma rdb_delete_wf:
  assumes "rdb_wf c" "rdb_delete c k = Inr c'"
  shows "rdb_wf c' \<and> rdb_get c' = (rdb_get c)(k := None)"
proof -
  note L = redis_lawsD [OF rdb_wf_laws [OF assms(1)]]
  have c': "c' = c\<lparr>rdb_srv := r_hdel (rdb_redis c) (rdb_srv c) (hsetkey c) k\<rparr>"
    using assms(2) by (simp add: rdb_delete_def)
  have "rdb_get c' = (rdb_get c)(k := None)" by (rule ext) (simp add: c' rdb_get_def L)
  moreover have "rdb_wf c'" using assms(1) by (auto simp: c' rdb_wf_def rdb_ids_def L split: if_splits)
  ultimately show ?thesis by simp
qed

lemma rdb_iterate_graph:
  assumes "rdb_wf c"
  shows "distinct (map fst (rdb_iterate c s)) \<and> set (rdb_iterate c s) = {(k, d). rdb_get c k = Some d \<and> s \<le> k}"
proof
  define f where "f i = (case rdb_get c i of None \<Rightarrow> [] | Some data \<Rightarrow> if data = [] then [] else [(i, data)])" for i
  have f: "map fst (concat (map f is)) = filter (\<lambda>i. rdb_get c i \<noteq> None) is" for "is"
    using rdb_get_bounds [OF assms] by (induction "is") (auto simp: f_def split: option.splits)
  have it: "rdb_iterate c s = concat (map f [s..rdb_stop c - 1])" by (simp add: rdb_iterate_def f_def [abs_def])
  show "distinct (map fst (rdb_iterate c s))" by (simp add: it f)
  have stop: "rdb_get c k = Some d \<Longrightarrow> k \<le> rdb_stop c - 1 \<and> d \<noteq> []" for k d
    using rdb_get_bounds [OF assms, of k d] by (auto simp: rdb_stop_def rdb_ids_def split: option.splits)
  have mem: "x \<in> set (f i) \<longleftrightarrow> fst x = i \<and> rdb_get c i = Some (snd x) \<and> snd x \<noteq> []" for x i
    by (cases x; cases "rdb_get c i") (auto simp: f_def)
  show "set (rdb_iterate c s) = {(k, d). rdb_get c k = Some d \<and> s \<le> k}"
  proof -
    have "(k, d) \<in> set (rdb_iterate c s) \<longleftrightarrow> rdb_get c k = Some d \<and> s \<le> k" for k d
    proof -
      have "(k, d) \<in> set (rdb_iterate c s) \<longleftrightarrow> (\<exists>i\<in>set [s..rdb_stop c - 1]. (k, d) \<in> set (f i))" by (simp add: it)
      also have "\<dots> \<longleftrightarrow> s \<le> k \<and> k \<le> rdb_stop c - 1 \<and> rdb_get c k = Some d \<and> d \<noteq> []"
        unfolding mem by fastforce
      finally show ?thesis using stop [of k d] by blast
    qed
    then show ?thesis by auto
  qed
qed

interpretation rdb: kv_store rdb_wf rdb_get rdb_set rdb_delete "\<lambda>c. rdb_iterate c 0"
proof
  fix c c' :: "'a rdb" and d :: bytes and now k r d0
  show "rdb_wf c \<Longrightarrow> d \<noteq> [] \<Longrightarrow> rdb_set now c d None = Inr (c', r) \<Longrightarrow>
      rdb_wf c' \<and> (\<exists>k. r = Some k \<and> 0 \<le> k \<and> rdb_get c k = None \<and> rdb_get c' = (rdb_get c)(k \<mapsto> d))"
    using rdb_set_new [of c d now c' r] by (auto simp: rdb_wf_def)
  show "rdb_wf c \<Longrightarrow> d \<noteq> [] \<Longrightarrow> rdb_get c k = Some d0 \<Longrightarrow> rdb_set now c d (Some k) = Inr (c', r) \<Longrightarrow>
      rdb_wf c' \<and> rdb_get c' = (rdb_get c)(k \<mapsto> d) \<and> r = (if d0 = d then None else Some k)"
    by (rule rdb_set_old)
  show "rdb_wf c \<Longrightarrow> 0 < k \<Longrightarrow> rdb_delete c k = Inr c' \<Longrightarrow> rdb_wf c' \<and> rdb_get c' = (rdb_get c)(k := None)"
    using rdb_delete_wf by blast
  show "rdb_wf c \<Longrightarrow> distinct (map fst (rdb_iterate c 0)) \<and> set (rdb_iterate c 0) = {(k, d). rdb_get c k = Some d}"
    using rdb_iterate_graph [of c 0] rdb_get_bounds [of c] by fastforce
qed

section \<open>A server for the examples\<close>

record memsrv =
  ms_hash :: "string \<Rightarrow> (int \<times> bytes) list"
  ms_count :: "string \<Rightarrow> int option"

definition mem_redis :: "memsrv redis" where
  "mem_redis = \<lparr>r_hget = (\<lambda>s h k. d_get (ms_hash s h) k),
     r_hset = (\<lambda>s h k v. s\<lparr>ms_hash := (ms_hash s)(h := d_set (ms_hash s h) k v)\<rparr>),
     r_hdel = (\<lambda>s h k. s\<lparr>ms_hash := (ms_hash s)(h := d_pop (ms_hash s h) k)\<rparr>),
     r_hexists = (\<lambda>s h k. d_get (ms_hash s h) k \<noteq> None),
     r_hlen = (\<lambda>s h. int (length (remdups (d_keys (ms_hash s h))))),
     r_get = ms_count,
     r_incr = (\<lambda>s c. let n = (case ms_count s c of None \<Rightarrow> 1 | Some n \<Rightarrow> n + 1) in (s\<lparr>ms_count := (ms_count s)(c \<mapsto> n)\<rparr>, n)),
     r_delete = (\<lambda>s k. s\<lparr>ms_hash := (ms_hash s)(k := []), ms_count := (ms_count s)(k := None)\<rparr>)\<rparr>"

definition mem_empty :: memsrv where
  "mem_empty = \<lparr>ms_hash = (\<lambda>_. []), ms_count = (\<lambda>_. None)\<rparr>"

definition mem_rdb :: "memsrv rdb" where
  "mem_rdb = \<lparr>rdb_redis = mem_redis, rdb_srv = mem_empty, rdb_name = ''test''\<rparr>"

lemma mem_redis_laws: "h \<noteq> c \<Longrightarrow> redis_laws mem_redis h c"
proof -
  assume hc: "h \<noteq> c"
  have dom: "{k. d_get d k \<noteq> None} = set (d_keys d)" for d :: "(int \<times> bytes) list"
    by (simp add: d_get_None_iff)
  show ?thesis
    unfolding redis_laws_def
    by (intro conjI allI; (simp add: hc hc [symmetric] mem_redis_def Let_def del: not_None_eq)?;
      (simp add: dom length_remdups_card_conv del: not_None_eq split: option.split)?)
qed

lemma mem_rdb_keys: "hsetkey mem_rdb = ''rdb:test''" "incrkey mem_rdb = ''rdbmeta:incr:test''"
  "keysbinkey mem_rdb = ''rdbmeta:keys:test''" "rdb_redis mem_rdb = mem_redis" "rdb_srv mem_rdb = mem_empty"
  by (simp_all add: rdb_keys mem_rdb_def)

lemma mem_rdb_ids: "rdb_ids mem_rdb = 0"
  by (simp add: rdb_ids_def mem_rdb_keys) (simp add: mem_redis_def mem_empty_def)

lemma mem_rdb_wf: "rdb_wf mem_rdb"
  unfolding rdb_wf_def mem_rdb_ids mem_rdb_keys
  by (intro conjI mem_redis_laws) (simp_all add: mem_redis_def mem_empty_def)

section \<open>Properties\<close>



text \<open>On the redis store, \<^verbatim>\<open>iterate\<close> from an id lists, without repetition, exactly the records whose id is not below it,
  and the first record a store hands out, id 0, is one that \<^verbatim>\<open>exists\<close> refuses to look up.\<close>

theorem rdb_iterate_complete:
  assumes "rdb_wf c"
  shows "distinct (rdb_list c s) \<and> set (rdb_iterate c s) = {(k, d). rdb_get c k = Some d \<and> s \<le> k}
    \<and> (0 < k \<longrightarrow> rdb_exists c k = Inr (k \<in> set (rdb_list c 0))) \<and> rdb_exists c 0 = Inl E_Value"
proof (intro conjI impI)
  note g = rdb_iterate_graph [OF assms]
  show "distinct (rdb_list c s)" using g [of s] by (simp add: rdb_list_def)
  show "set (rdb_iterate c s) = {(k, d). rdb_get c k = Some d \<and> s \<le> k}" using g [of s] by simp
  assume k: "0 < k"
  have "k \<in> set (rdb_list c 0) \<longleftrightarrow> rdb_get c k \<noteq> None"
    using g [of 0] k by (auto simp: rdb_list_def image_iff)
  then show "rdb_exists c k = Inr (k \<in> set (rdb_list c 0))"
    using k rdb_get_None_iff [OF assms, of k] redis_lawsD(5) [OF rdb_wf_laws [OF assms], of "rdb_srv c" k]
    by (simp add: rdb_exists_def)
qed (simp add: rdb_exists_def)

theorem rdb_iterate_complete_witness: "distinct (rdb_list mem_rdb 0) \<and> rdb_exists mem_rdb 0 = Inl E_Value"
  using rdb_iterate_complete [OF mem_rdb_wf, of 0 0] by blast

end
