(* ===== verification/SqliteStore.thy ===== *)
theory SqliteStore
  imports Bin KVStore "HOL-Library.DAList"
begin

text \<open>
  The SQLite storage client, \<^verbatim>\<open>clients/stor_sqlite/DBSQLite.py\<close>: one table with an automatic primary key \<^verbatim>\<open>id\<close> and
  a blob; record number \<open>k\<close> is the row with id \<open>k + 1\<close>. The table (peewee on SQLite) is a parameter with
  \<open>kvtable_laws\<close> for what SQL promises.
\<close>

section \<open>The table\<close>

record 't kvtable =
  t_rows :: "'t \<Rightarrow> (int \<times> bytes) list"  \<comment> \<open>\<^verbatim>\<open>select()\<close>\<close>
  t_insert :: "'t \<Rightarrow> bytes \<Rightarrow> ('t \<times> int) option"  \<comment> \<open>\<^verbatim>\<open>save()\<close> of a new row; None when the table is full\<close>
  t_create :: "'t \<Rightarrow> int \<Rightarrow> bytes \<Rightarrow> 't"  \<comment> \<open>\<^verbatim>\<open>create(id=...)\<close>\<close>
  t_update :: "'t \<Rightarrow> int \<Rightarrow> bytes \<Rightarrow> 't"
  t_delete :: "'t \<Rightarrow> int \<Rightarrow> 't"
  t_clear :: "'t \<Rightarrow> 't"

definition kvtable_laws :: "'t kvtable \<Rightarrow> bool" where
  \<comment> \<open>ids are a primary key; an automatic id is not in use and, when all ids are positive, positive\<close>
  "kvtable_laws T = ((\<forall>t. distinct (map fst (t_rows T t)))
     \<and> (\<forall>t v t' i. t_insert T t v = Some (t', i) \<longrightarrow>
          i \<notin> fst ` set (t_rows T t) \<and> set (t_rows T t') = insert (i, v) (set (t_rows T t))
          \<and> ((\<forall>(k, w)\<in>set (t_rows T t). 0 < k) \<longrightarrow> 0 < i))
     \<and> (\<forall>t i v. i \<notin> fst ` set (t_rows T t) \<longrightarrow> set (t_rows T (t_create T t i v)) = insert (i, v) (set (t_rows T t)))
     \<and> (\<forall>t i v. set (t_rows T (t_update T t i v)) = (\<lambda>(k, w). if k = i then (k, v) else (k, w)) ` set (t_rows T t))
     \<and> (\<forall>t i. set (t_rows T (t_delete T t i)) = {(k, w). (k, w) \<in> set (t_rows T t) \<and> k \<noteq> i})
     \<and> (\<forall>t. t_rows T (t_clear T t) = []))"

lemma kvtable_lawsD:
  assumes "kvtable_laws T"
  shows "distinct (map fst (t_rows T t))"
    and "t_insert T t v = Some (t', i) \<Longrightarrow> i \<notin> fst ` set (t_rows T t)"
    and "t_insert T t v = Some (t', i) \<Longrightarrow> set (t_rows T t') = insert (i, v) (set (t_rows T t))"
    and "t_insert T t v = Some (t', i) \<Longrightarrow> (\<forall>(k, w)\<in>set (t_rows T t). 0 < k) \<Longrightarrow> 0 < i"
    and "i \<notin> fst ` set (t_rows T t) \<Longrightarrow> set (t_rows T (t_create T t i v)) = insert (i, v) (set (t_rows T t))"
    and "set (t_rows T (t_update T t i v)) = (\<lambda>(k, w). if k = i then (k, v) else (k, w)) ` set (t_rows T t)"
    and "set (t_rows T (t_delete T t i)) = {(k, w). (k, w) \<in> set (t_rows T t) \<and> k \<noteq> i}"
    and "t_rows T (t_clear T t) = []"
proof -
  note h = assms [unfolded kvtable_laws_def]
  show "distinct (map fst (t_rows T t))" using conjunct1 [OF h] by blast
  note h1 = conjunct2 [OF h]
  show "t_insert T t v = Some (t', i) \<Longrightarrow> i \<notin> fst ` set (t_rows T t)"
    and "t_insert T t v = Some (t', i) \<Longrightarrow> set (t_rows T t') = insert (i, v) (set (t_rows T t))"
    and "t_insert T t v = Some (t', i) \<Longrightarrow> (\<forall>(k, w)\<in>set (t_rows T t). 0 < k) \<Longrightarrow> 0 < i"
    using conjunct1 [OF h1] by metis+
  note h2 = conjunct2 [OF h1]
  show "i \<notin> fst ` set (t_rows T t) \<Longrightarrow> set (t_rows T (t_create T t i v)) = insert (i, v) (set (t_rows T t))"
    using conjunct1 [OF h2] by metis
  note h3 = conjunct2 [OF h2]
  show "set (t_rows T (t_update T t i v)) = (\<lambda>(k, w). if k = i then (k, v) else (k, w)) ` set (t_rows T t)"
    using conjunct1 [OF h3] by metis
  note h4 = conjunct2 [OF h3]
  show "set (t_rows T (t_delete T t i)) = {(k, w). (k, w) \<in> set (t_rows T t) \<and> k \<noteq> i}"
    using conjunct1 [OF h4] by metis
  show "t_rows T (t_clear T t) = []" using conjunct2 [OF h4] by metis
qed

section \<open>The client\<close>

record 't sdb =
  sdb_ops :: "'t kvtable"
  sdb_tab :: 't

abbreviation sdb_rows :: "'t sdb \<Rightarrow> (int \<times> bytes) list" where
  "sdb_rows c \<equiv> t_rows (sdb_ops c) (sdb_tab c)"

definition sdb_get :: "'t sdb \<Rightarrow> int \<Rightarrow> bytes option res" where
  "sdb_get c key = (case filter (\<lambda>(i, v). i = key + 1) (sdb_rows c) of
     [] \<Rightarrow> Inr None | [(i, v)] \<Rightarrow> Inr (Some v) | _ \<Rightarrow> Inl E_Base)"

definition sdb_exists :: "'t sdb \<Rightarrow> int \<Rightarrow> bool res" where
  "sdb_exists c key = rbind (sdb_get c key) (\<lambda>r. Inr (r \<noteq> None))"

definition sdb_set :: "'t sdb \<Rightarrow> bytes \<Rightarrow> int option \<Rightarrow> ('t sdb \<times> int option) res" where
  "sdb_set c data key = (let T = sdb_ops c; t = sdb_tab c in
     case key of
       None \<Rightarrow> (case t_insert T t data of None \<Rightarrow> Inl P_Exception
           | Some (t', i) \<Rightarrow> Inr (c\<lparr>sdb_tab := t'\<rparr>, Some (i - 1)))
     | Some k \<Rightarrow> rbind (sdb_exists c k) (\<lambda>ex.
         if ex then rbind (sdb_get c k) (\<lambda>old.
           if old = Some data then Inr (c, None)
           else Inr (c\<lparr>sdb_tab := t_update T t (k + 1) data\<rparr>, Some k))
         else Inr (c\<lparr>sdb_tab := t_create T t (k + 1) data\<rparr>, Some k)))"

definition sdb_delete :: "'t sdb \<Rightarrow> int \<Rightarrow> 't sdb" where
  "sdb_delete c key = c\<lparr>sdb_tab := t_delete (sdb_ops c) (sdb_tab c) (key + 1)\<rparr>"

definition sdb_count :: "'t sdb \<Rightarrow> int" where
  "sdb_count c = int (length (sdb_rows c))"

definition sdb_flush :: "'t sdb \<Rightarrow> 't sdb res" where
  "sdb_flush c = (let c' = c\<lparr>sdb_tab := t_clear (sdb_ops c) (sdb_tab c)\<rparr> in
     rbind (py_assert (sdb_count c' = 0)) (\<lambda>_. Inr c'))"

definition sdb_iterate :: "'t sdb \<Rightarrow> int option \<Rightarrow> (int \<times> bytes option) list res" where
  \<comment> \<open>the start is compared with the row id, which is one more than the key\<close>
  "sdb_iterate c key_start = (let items = (case key_start of
         None \<Rightarrow> sdb_rows c
       | Some s \<Rightarrow> if s = 0 then sdb_rows c else filter (\<lambda>(i, v). s \<le> i) (sdb_rows c))
     in rmap (\<lambda>(i, v). rbind (sdb_get c (i - 1)) (\<lambda>d. Inr (i - 1, d))) items)"

definition sdb_list :: "'t sdb \<Rightarrow> int option \<Rightarrow> int list res" where
  "sdb_list c key_start = (let start = (case key_start of
         None \<Rightarrow> None | Some s \<Rightarrow> if s = 0 then Some s else Some (s + 1))
     in rbind (sdb_iterate c start) (\<lambda>l. Inr (map fst l)))"

section \<open>The contract\<close>

definition sdb_wf :: "'t sdb \<Rightarrow> bool" where
  "sdb_wf c = (kvtable_laws (sdb_ops c) \<and> (\<forall>(i, v)\<in>set (sdb_rows c). 0 < i))"

definition sdb_lookup :: "'t sdb \<Rightarrow> int \<Rightarrow> bytes option" where
  \<comment> \<open>\<^verbatim>\<open>get\<close>, which on a table with a primary key does not raise (\<open>sdb_get_lookup\<close>)\<close>
  "sdb_lookup c k = map_of (sdb_rows c) (k + 1)"

lemma filter_key: "distinct (map fst xs) \<Longrightarrow> filter (\<lambda>(i, v). i = k) xs = (case map_of xs k of None \<Rightarrow> [] | Some v \<Rightarrow> [(k, v)])"
proof (induction xs)
  case (Cons x xs)
  obtain i v where x: "x = (i, v)" by force
  show ?case
  proof (cases "i = k")
    case True
    with Cons.prems have "map_of xs k = None" by (simp add: x map_of_eq_None_iff)
    with Cons True show ?thesis by (simp add: x)
  next
    case False
    with Cons show ?thesis by (simp add: x)
  qed
qed simp

lemma sdb_distinct: "sdb_wf c \<Longrightarrow> distinct (map fst (sdb_rows c))"
  using kvtable_lawsD(1) by (auto simp: sdb_wf_def)

lemma sdb_get_lookup: "sdb_wf c \<Longrightarrow> sdb_get c k = Inr (sdb_lookup c k)"
  by (simp add: sdb_get_def sdb_lookup_def filter_key sdb_distinct split: option.split)

lemma sdb_lookup_iff: "sdb_wf c \<Longrightarrow> sdb_lookup c k = Some v \<longleftrightarrow> (k + 1, v) \<in> set (sdb_rows c)"
  by (simp add: sdb_lookup_def sdb_distinct)

lemma sdb_lookup_None: "sdb_lookup c k = None \<longleftrightarrow> k + 1 \<notin> fst ` set (sdb_rows c)"
  by (simp add: sdb_lookup_def map_of_eq_None_iff)

lemma sdb_lookup_eqI:
  assumes "sdb_wf c" "\<And>k v. m k = Some v \<longleftrightarrow> (k + 1, v) \<in> set (sdb_rows c)"
  shows "sdb_lookup c = m"
proof
  fix k
  have "m k = Some v \<longleftrightarrow> sdb_lookup c k = Some v" for v
    using assms(2) [of k v] sdb_lookup_iff [OF assms(1), of k v] by blast
  then show "sdb_lookup c k = m k" by (metis option.exhaust)
qed

lemma sdb_iterate_all:
  assumes "sdb_wf c"
  shows "sdb_iterate c None = Inr (map (\<lambda>(i, v). (i - 1, Some v)) (sdb_rows c))"
proof -
  have "(case x of (i, v) \<Rightarrow> rbind (sdb_get c (i - 1)) (\<lambda>d. Inr (i - 1, d))) = Inr (case x of (i, v) \<Rightarrow> (i - 1, Some v))"
    if "x \<in> set (sdb_rows c)" for x
  proof -
    obtain i v where x: "x = (i, v)" by force
    then have "sdb_lookup c (i - 1) = Some v" using that sdb_lookup_iff [OF assms, of "i - 1" v] by simp
    then show ?thesis by (simp add: x sdb_get_lookup [OF assms])
  qed
  then show ?thesis by (simp add: sdb_iterate_def rmap_all)
qed

definition sdb_items :: "'t sdb \<Rightarrow> (int \<times> bytes) list" where
  "sdb_items c = map (\<lambda>(i, v). (i - 1, v)) (sdb_rows c)"

lemma upd_image:
  "(k, x) \<in> (\<lambda>(k, w). if k = i then (k, v) else (k, w)) ` S \<longleftrightarrow>
     (if k = i then x = v \<and> (\<exists>w. (i, w) \<in> S) else (k, x) \<in> S)"
proof -
  have "(k, x) \<in> (\<lambda>(k, w). if k = i then (k, v) else (k, w)) ` S \<longleftrightarrow>
      (\<exists>a b. (a, b) \<in> S \<and> (k, x) = (if a = i then (a, v) else (a, b)))"
    by (auto simp: image_iff Bex_def)
  also have "\<dots> \<longleftrightarrow> (if k = i then x = v \<and> (\<exists>w. (i, w) \<in> S) else (k, x) \<in> S)"
    by (auto split: if_splits)
  finally show ?thesis .
qed

lemma sdb_put_new:
  assumes "sdb_wf c" "sdb_set c d None = Inr (c', r)"
  shows "sdb_wf c' \<and> (\<exists>k. r = Some k \<and> 0 \<le> k \<and> sdb_lookup c k = None \<and> sdb_lookup c' = (sdb_lookup c)(k \<mapsto> d))"
proof -
  note L = kvtable_lawsD [of "sdb_ops c"]
  from assms(1) have K: "kvtable_laws (sdb_ops c)" by (simp add: sdb_wf_def)
  from assms(2) obtain t' i where i: "t_insert (sdb_ops c) (sdb_tab c) d = Some (t', i)"
    and c': "c' = c\<lparr>sdb_tab := t'\<rparr>" "r = Some (i - 1)"
    by (auto simp: sdb_set_def split: option.splits)
  have pos: "0 < i" using L(4) [OF K i] assms(1) by (simp add: sdb_wf_def)
  have fresh: "i \<notin> fst ` set (sdb_rows c)" and rows: "set (sdb_rows c') = insert (i, d) (set (sdb_rows c))"
    using L(2,3) [OF K i] by (simp_all add: c')
  have w: "sdb_wf c'" using assms(1) pos rows by (auto simp: sdb_wf_def c')
  have "sdb_lookup c' = (sdb_lookup c)(i - 1 \<mapsto> d)"
  proof (rule sdb_lookup_eqI [OF w])
    fix k v
    show "((sdb_lookup c)(i - 1 \<mapsto> d)) k = Some v \<longleftrightarrow> (k + 1, v) \<in> set (sdb_rows c')"
      using fresh sdb_lookup_iff [OF assms(1), of k v] by (force simp: rows)
  qed
  moreover have "sdb_lookup c (i - 1) = None" using fresh by (simp add: sdb_lookup_None)
  ultimately show ?thesis using w pos c' by auto
qed

lemma sdb_put_old:
  assumes "sdb_wf c" "sdb_lookup c k = Some d0" "sdb_set c d (Some k) = Inr (c', r)"
  shows "sdb_wf c' \<and> sdb_lookup c' = (sdb_lookup c)(k \<mapsto> d) \<and> r = (if d0 = d then None else Some k)"
proof (cases "d0 = d")
  case True
  with assms show ?thesis
    by (auto simp: sdb_set_def sdb_exists_def sdb_get_lookup fun_upd_idem)
next
  case False
  from assms(1) have K: "kvtable_laws (sdb_ops c)" by (simp add: sdb_wf_def)
  from False assms have c': "c' = c\<lparr>sdb_tab := t_update (sdb_ops c) (sdb_tab c) (k + 1) d\<rparr>" "r = Some k"
    by (auto simp: sdb_set_def sdb_exists_def sdb_get_lookup)
  have rows: "set (sdb_rows c') = (\<lambda>(i, w). if i = k + 1 then (i, d) else (i, w)) ` set (sdb_rows c)"
    by (simp add: c' kvtable_lawsD(6) [OF K])
  have w: "sdb_wf c'" using assms(1) by (auto simp: sdb_wf_def rows split: if_splits) (auto simp: c')
  have "sdb_lookup c' = (sdb_lookup c)(k \<mapsto> d)"
  proof (rule sdb_lookup_eqI [OF w])
    fix x v
    have "(x + 1, v) \<in> set (sdb_rows c') \<longleftrightarrow>
        (if x = k then v = d \<and> (\<exists>w. (k + 1, w) \<in> set (sdb_rows c)) else (x + 1, v) \<in> set (sdb_rows c))"
      by (simp add: rows upd_image)
    then show "((sdb_lookup c)(k \<mapsto> d)) x = Some v \<longleftrightarrow> (x + 1, v) \<in> set (sdb_rows c')"
      using sdb_lookup_iff [OF assms(1)] assms(2) by auto
  qed
  with w c' False show ?thesis by simp
qed

lemma sdb_delete_wf:
  assumes "sdb_wf c"
  shows "sdb_wf (sdb_delete c k) \<and> sdb_lookup (sdb_delete c k) = (sdb_lookup c)(k := None)"
proof -
  from assms have K: "kvtable_laws (sdb_ops c)" by (simp add: sdb_wf_def)
  have rows: "set (sdb_rows (sdb_delete c k)) = {(i, w). (i, w) \<in> set (sdb_rows c) \<and> i \<noteq> k + 1}"
    by (simp add: sdb_delete_def kvtable_lawsD(7) [OF K])
  have w: "sdb_wf (sdb_delete c k)"
    unfolding sdb_wf_def rows using assms by (auto simp: sdb_wf_def) (auto simp: sdb_delete_def)
  moreover have "sdb_lookup (sdb_delete c k) = (sdb_lookup c)(k := None)"
    by (rule sdb_lookup_eqI [OF w]) (auto simp: rows sdb_lookup_iff [OF assms] split: if_splits)
  ultimately show ?thesis by simp
qed

interpretation sdb: kv_store sdb_wf sdb_lookup "\<lambda>now. sdb_set" "\<lambda>c k. Inr (sdb_delete c k)" sdb_items
proof
  fix c c' :: "'a sdb" and d :: bytes and k r d0
  show "sdb_wf c \<Longrightarrow> d \<noteq> [] \<Longrightarrow> sdb_set c d None = Inr (c', r) \<Longrightarrow> sdb_wf c' \<and>
      (\<exists>k. r = Some k \<and> 0 \<le> k \<and> sdb_lookup c k = None \<and> sdb_lookup c' = (sdb_lookup c)(k \<mapsto> d))"
    by (rule sdb_put_new)
  show "sdb_wf c \<Longrightarrow> d \<noteq> [] \<Longrightarrow> sdb_lookup c k = Some d0 \<Longrightarrow> sdb_set c d (Some k) = Inr (c', r) \<Longrightarrow>
      sdb_wf c' \<and> sdb_lookup c' = (sdb_lookup c)(k \<mapsto> d) \<and> r = (if d0 = d then None else Some k)"
    by (rule sdb_put_old)
  show "sdb_wf c \<Longrightarrow> 0 < k \<Longrightarrow> (Inr (sdb_delete c k) :: 'a sdb res) = Inr c' \<Longrightarrow>
      sdb_wf c' \<and> sdb_lookup c' = (sdb_lookup c)(k := None)"
    using sdb_delete_wf by blast
  assume w: "sdb_wf c"
  have "map fst (sdb_items c) = map (\<lambda>i. i - 1) (map fst (sdb_rows c))" by (auto simp: sdb_items_def)
  then have "distinct (map fst (sdb_items c))"
    using sdb_distinct [OF w] by (simp only: distinct_map) (auto intro: inj_onI)
  moreover have "set (sdb_items c) = {(k, d). sdb_lookup c k = Some d}"
    by (force simp: sdb_items_def sdb_lookup_iff [OF w])
  ultimately show "distinct (map fst (sdb_items c)) \<and> set (sdb_items c) = {(k, d). sdb_lookup c k = Some d}" by simp
qed

section \<open>A table for the examples\<close>

type_synonym memtab = "(int, bytes) alist"

definition next_id :: "memtab \<Rightarrow> int" where
  "next_id t = 1 + foldr max (map fst (DAList.impl_of t)) 0"

definition mem_table :: "memtab kvtable" where
  "mem_table = \<lparr>t_rows = DAList.impl_of,
     t_insert = \<lambda>t v. Some (DAList.update (next_id t) v t, next_id t),
     t_create = \<lambda>t i v. DAList.update i v t,
     t_update = \<lambda>t i v. if DAList.lookup t i = None then t else DAList.update i v t,
     t_delete = \<lambda>t i. DAList.delete i t,
     t_clear = \<lambda>t. DAList.empty\<rparr>"

lemma memtab_mem: "(k, v) \<in> set (DAList.impl_of t) \<longleftrightarrow> DAList.lookup t k = Some v"
  by (simp add: DAList.lookup.rep_eq)

lemma memtab_keys: "k \<in> fst ` set (DAList.impl_of t) \<longleftrightarrow> DAList.lookup t k \<noteq> None"
  by (simp add: DAList.lookup.rep_eq map_of_eq_None_iff)

lemma next_id_fresh: "DAList.lookup t (next_id t) = None" "0 < next_id t"
proof -
  have le: "i \<in> fst ` set xs \<Longrightarrow> i \<le> foldr max (map fst xs) 0" for i and xs :: "(int \<times> bytes) list"
    by (induction xs) (auto simp: le_max_iff_disj)
  have "next_id t \<notin> fst ` set (DAList.impl_of t)" using le by (force simp: next_id_def)
  then show "DAList.lookup t (next_id t) = None" by (simp add: memtab_keys)
  have "0 \<le> foldr max (map fst xs) 0" for xs :: "(int \<times> bytes) list" by (induction xs) (auto simp: le_max_iff_disj)
  then show "0 < next_id t" by (simp add: next_id_def add_pos_nonneg)
qed

lemma mem_table_laws: "kvtable_laws mem_table"
proof -
  have u: "DAList.lookup t i = None \<Longrightarrow> set (DAList.impl_of (DAList.update i v t)) = insert (i, v) (set (DAList.impl_of t))" for t i v
    by (auto simp: memtab_mem lookup_update split: if_splits)
  have w: "set (DAList.impl_of (if DAList.lookup t i = None then t else DAList.update i v t))
      = (\<lambda>(k, w). if k = i then (k, v) else (k, w)) ` set (DAList.impl_of t)" for t i v
  proof (rule set_eqI, unfold split_paired_all)
    fix k x
    show "(k, x) \<in> set (DAList.impl_of (if DAList.lookup t i = None then t else DAList.update i v t))
        \<longleftrightarrow> (k, x) \<in> (\<lambda>(k, w). if k = i then (k, v) else (k, w)) ` set (DAList.impl_of t)"
      unfolding upd_image memtab_mem by (cases "DAList.lookup t i") (auto simp: lookup_update)
  qed
  have d: "set (DAList.impl_of (DAList.delete i t)) = {(k, w). (k, w) \<in> set (DAList.impl_of t) \<and> k \<noteq> i}" for t i
    by (auto simp: memtab_mem lookup_delete split: if_splits)
  show ?thesis
    unfolding kvtable_laws_def
    by (intro conjI allI impI)
      (auto simp: mem_table_def w d memtab_keys next_id_fresh u DAList.empty.rep_eq simp del: not_None_eq)
qed

definition mem_sdb :: "memtab sdb" where
  "mem_sdb = \<lparr>sdb_ops = mem_table,
     sdb_tab = DAList.update 1 [7] (DAList.update 3 [8] (DAList.update 4 [9] DAList.empty))\<rparr>"

lemma mem_sdb_lookup: "sdb_lookup mem_sdb k = (if k = 0 then Some [7] else if k = 2 then Some [8] else if k = 3 then Some [9] else None)"
  by (simp add: sdb_lookup_def mem_sdb_def mem_table_def DAList.lookup.rep_eq [symmetric] lookup_update)

lemma mem_sdb_wf: "sdb_wf mem_sdb"
  by (auto simp: sdb_wf_def mem_sdb_def mem_table_laws)
    (auto simp: mem_table_def memtab_mem lookup_update split: if_splits)

section \<open>Properties\<close>

text \<open>On the SQLite store, \<^verbatim>\<open>list\<close> from a key lists exactly the keys that are not below it, but \<^verbatim>\<open>iterate\<close> from the same
  key also yields the record before it, because it compares the key with the row id, which is one higher.\<close>

theorem sdb_list_iterate_start:
  assumes "sdb_wf c" "0 < k"
  shows "\<exists>ks its. sdb_list c (Some k) = Inr ks \<and> sdb_iterate c (Some k) = Inr its
    \<and> set ks = {x. sdb_lookup c x \<noteq> None \<and> k \<le> x}
    \<and> set its = {(x, Some d) |x d. sdb_lookup c x = Some d \<and> k - 1 \<le> x}"
proof -
  have it: "\<exists>l. sdb_iterate c (Some s) = Inr l \<and> set l = {(x, Some d) |x d. sdb_lookup c x = Some d \<and> s - 1 \<le> x}"
    if "0 < s" for s
  proof -
    let ?is = "filter (\<lambda>(i, v). s \<le> i) (sdb_rows c)"
    have e: "(case x of (i, v) \<Rightarrow> rbind (sdb_get c (i - 1)) (\<lambda>d. Inr (i - 1, d))) = Inr (case x of (i, v) \<Rightarrow> (i - 1, Some v))"
      if "x \<in> set ?is" for x
    proof -
      obtain i v where x: "x = (i, v)" by force
      then have "sdb_lookup c (i - 1) = Some v" using that sdb_lookup_iff [OF assms(1), of "i - 1" v] by simp
      then show ?thesis by (simp add: x sdb_get_lookup [OF assms(1)])
    qed
    have "rmap (\<lambda>(i, v). rbind (sdb_get c (i - 1)) (\<lambda>d. Inr (i - 1, d))) ?is = Inr (map (\<lambda>(i, v). (i - 1, Some v)) ?is)"
      by (rule rmap_all) (rule e)
    then have "sdb_iterate c (Some s) = Inr (map (\<lambda>(i, v). (i - 1, Some v)) ?is)"
      using that by (simp add: sdb_iterate_def)
    moreover have "set (map (\<lambda>(i, v). (i - 1, Some v)) ?is) = {(x, Some d) |x d. sdb_lookup c x = Some d \<and> s - 1 \<le> x}"
      by (force simp: sdb_lookup_iff [OF assms(1)])
    ultimately show ?thesis by blast
  qed
  from it [of "k + 1"] assms(2) obtain l where "sdb_iterate c (Some (k + 1)) = Inr l"
    "set l = {(x, Some d) |x d. sdb_lookup c x = Some d \<and> k \<le> x}" by auto
  moreover from this have "set (map fst l) = {x. sdb_lookup c x \<noteq> None \<and> k \<le> x}" by force
  ultimately have "sdb_list c (Some k) = Inr (map fst l) \<and> set (map fst l) = {x. sdb_lookup c x \<noteq> None \<and> k \<le> x}"
    using assms(2) by (simp add: sdb_list_def)
  with it [OF assms(2)] show ?thesis by blast
qed

theorem sdb_list_iterate_start_witness:
  "(0 :: int) < 3 \<and> (\<exists>ks its. sdb_list mem_sdb (Some 3) = Inr ks \<and> sdb_iterate mem_sdb (Some 3) = Inr its
     \<and> set ks = {x. sdb_lookup mem_sdb x \<noteq> None \<and> 3 \<le> x} \<and> (2, Some [8]) \<in> set its)"
proof -
  have "sdb_lookup mem_sdb 2 = Some [8]" by (simp add: mem_sdb_lookup)
  with sdb_list_iterate_start [OF mem_sdb_wf, of 3] show ?thesis by auto
qed

end
