(* ===== verification/ZDB.thy ===== *)
theory ZDB
  imports Bin KVStore TypesPrim "HOL-Library.DAList"
begin

text \<open>
  The client of a 0-db server in sequential mode: \<^verbatim>\<open>clients/stor_zdb/ZDBClientBase.py\<close> and
  \<^verbatim>\<open>clients_impl/sequential.py\<close>. Keys are four little-endian bytes the server hands out. The server is a parameter,
  \<open>zsrv_laws\<close> is its documented behaviour in sequential mode.
\<close>

section \<open>The server\<close>

record 's zsrv =
  z_set :: "'s \<Rightarrow> bytes \<Rightarrow> bytes \<Rightarrow> ('s \<times> bytes option) option"  \<comment> \<open>None: the server refuses\<close>
  z_get :: "'s \<Rightarrow> bytes \<Rightarrow> bytes option"
  z_exists :: "'s \<Rightarrow> bytes \<Rightarrow> bool"
  z_del :: "'s \<Rightarrow> bytes \<Rightarrow> 's option"  \<comment> \<open>None: key not found\<close>
  z_flush :: "'s \<Rightarrow> 's"
  z_keycur :: "'s \<Rightarrow> bytes \<Rightarrow> bytes"
  z_scan :: "'s \<Rightarrow> bytes option \<Rightarrow> (bytes \<times> bytes list) option"  \<comment> \<open>cursor and keys of a page; None: no more data\<close>

text \<open>\<open>pages Z s c ks\<close>: scanning from cursor \<open>c\<close> ends after listing the keys \<open>ks\<close>.\<close>

inductive pages :: "'s zsrv \<Rightarrow> 's \<Rightarrow> bytes option \<Rightarrow> bytes list \<Rightarrow> bool" for Z s where
  pages_end: "z_scan Z s c = None \<Longrightarrow> pages Z s c []"
| pages_next: "z_scan Z s c = Some (n, ks) \<Longrightarrow> n \<noteq> [] \<Longrightarrow> pages Z s (Some n) ks' \<Longrightarrow> pages Z s c (ks @ ks')"

definition zsrv_laws :: "'s zsrv \<Rightarrow> bool" where
  "zsrv_laws Z = ((\<forall>s d s' r. z_set Z s [] d = Some (s', r) \<longrightarrow>
          (\<exists>k. r = Some k \<and> length k = 4 \<and> z_get Z s k = None \<and> z_get Z s' = (z_get Z s)(k \<mapsto> d)))
     \<and> (\<forall>s k d0 d. k \<noteq> [] \<longrightarrow> z_get Z s k = Some d0 \<longrightarrow>
          (if d0 = d then z_set Z s k d = Some (s, None)
           else (\<exists>s'. z_set Z s k d = Some (s', Some k) \<and> z_get Z s' = (z_get Z s)(k \<mapsto> d))))
     \<and> (\<forall>s k d. k \<noteq> [] \<longrightarrow> z_get Z s k = None \<longrightarrow> z_set Z s k d = None)
     \<and> (\<forall>s k. z_exists Z s k = (z_get Z s k \<noteq> None))
     \<and> (\<forall>s k. z_get Z s k = None \<longrightarrow> z_del Z s k = None)
     \<and> (\<forall>s k. z_get Z s k \<noteq> None \<longrightarrow> (\<exists>s'. z_del Z s k = Some s' \<and> z_get Z s' = (z_get Z s)(k := None)))
     \<and> (\<forall>s k. z_get Z (z_flush Z s) k = None)
     \<and> (\<forall>s. \<exists>ks. pages Z s None ks \<and> distinct ks \<and> set ks = {k. z_get Z s k \<noteq> None}))"

section \<open>The client\<close>

record 's zdb =
  zdb_ops :: "'s zsrv"
  zdb_srv :: 's
  zdb_nsname :: string

definition zdb_key_encode :: "int option \<Rightarrow> bytes res" where
  "zdb_key_encode key = (case key of None \<Rightarrow> Inr [] | Some k \<Rightarrow> pack_I k)"

definition zdb_key_decode :: "bytes \<Rightarrow> int res" where
  "zdb_key_decode key = unpack_I key"

definition zdb_set :: "'s zdb \<Rightarrow> bytes \<Rightarrow> int option \<Rightarrow> ('s zdb \<times> int option) res" where
  "zdb_set c data key = rbind (zdb_key_encode key) (\<lambda>key1.
     case z_set (zdb_ops c) (zdb_srv c) key1 data of
       None \<Rightarrow> Inl P_Exception
     | Some (s, None) \<Rightarrow> Inr (c\<lparr>zdb_srv := s\<rparr>, None)
     | Some (s, Some r) \<Rightarrow> if r = [] then Inr (c\<lparr>zdb_srv := s\<rparr>, None)
         else rbind (zdb_key_decode r) (\<lambda>k. Inr (c\<lparr>zdb_srv := s\<rparr>, Some k)))"

definition zdb_get :: "'s zdb \<Rightarrow> int \<Rightarrow> bytes option res" where
  "zdb_get c key = rbind (zdb_key_encode (Some key)) (\<lambda>k. Inr (z_get (zdb_ops c) (zdb_srv c) k))"

definition zdb_exists :: "'s zdb \<Rightarrow> int \<Rightarrow> bool res" where
  "zdb_exists c key = rbind (zdb_key_encode (Some key)) (\<lambda>k. Inr (z_exists (zdb_ops c) (zdb_srv c) k))"

definition zdb_delete :: "'s zdb \<Rightarrow> int \<Rightarrow> 's zdb res" where
  "zdb_delete c key = rbind (zdb_key_encode (Some key)) (\<lambda>k.
     case z_del (zdb_ops c) (zdb_srv c) k of None \<Rightarrow> Inr c | Some s \<Rightarrow> Inr (c\<lparr>zdb_srv := s\<rparr>))"

definition zdb_flush :: "'s zdb \<Rightarrow> 's zdb" where
  "zdb_flush c = (if zdb_nsname c \<in> {''default'', ''system''} then c
     else c\<lparr>zdb_srv := z_flush (zdb_ops c) (zdb_srv c)\<rparr>)"

text \<open>The loop of \<^verbatim>\<open>iterate\<close>: it runs as long as the server returns pages; None is a loop that does not end.\<close>

partial_function (option) zdb_scan :: "'s zdb \<Rightarrow> bytes option \<Rightarrow> bytes list \<Rightarrow> bytes list option" where
  "zdb_scan c next acc = (case z_scan (zdb_ops c) (zdb_srv c) (if next = Some [] then None else next) of
     None \<Rightarrow> Some acc
   | Some (n, results) \<Rightarrow> zdb_scan c (Some n) (acc @ results))"

definition zdb_iterate :: "'s zdb \<Rightarrow> int option \<Rightarrow> bool \<Rightarrow> (int \<times> bytes option) list res option" where
  \<comment> \<open>the flag is \<^verbatim>\<open>keyonly\<close>; with a start key the scan goes on after its cursor\<close>
  "zdb_iterate c key_start keyonly =
    (let Z = zdb_ops c; s = zdb_srv c;
         item = (\<lambda>kb. rbind (zdb_key_decode kb) (\<lambda>k. Inr (k, if keyonly then None else z_get Z s kb)))
     in case key_start of
          None \<Rightarrow> map_option (rmap item) (zdb_scan c None [])
        | Some k0 \<Rightarrow> (case zdb_key_encode (Some k0) of
              Inl e \<Rightarrow> Some (Inl e)
            | Inr kb \<Rightarrow> map_option (\<lambda>ks. rbind (rmap item ks) (\<lambda>l.
                  Inr ((k0, if keyonly then None else z_get Z s kb) # l)))
                (zdb_scan c (Some (z_keycur Z s kb)) [])))"

definition zdb_list :: "'s zdb \<Rightarrow> int option \<Rightarrow> int list res option" where
  "zdb_list c key_start = map_option (\<lambda>r. rbind r (\<lambda>l. Inr (map fst l))) (zdb_iterate c key_start True)"

section \<open>The contract\<close>

definition zdb_wf :: "'s zdb \<Rightarrow> bool" where
  "zdb_wf c = (zsrv_laws (zdb_ops c)
     \<and> (\<forall>k d. z_get (zdb_ops c) (zdb_srv c) k = Some d \<longrightarrow> length k = 4))"

definition zdb_lookup :: "'s zdb \<Rightarrow> int \<Rightarrow> bytes option" where
  \<comment> \<open>\<^verbatim>\<open>get\<close> where the key fits in four bytes\<close>
  "zdb_lookup c k = (case zdb_get c k of Inr r \<Rightarrow> r | Inl _ \<Rightarrow> None)"

lemma zsrv_lawsD:
  assumes "zsrv_laws Z"
  shows "z_set Z s [] d = Some (s', r) \<Longrightarrow>
          \<exists>k. r = Some k \<and> length k = 4 \<and> z_get Z s k = None \<and> z_get Z s' = (z_get Z s)(k \<mapsto> d)"
    and "k \<noteq> [] \<Longrightarrow> z_get Z s k = Some d \<Longrightarrow> z_set Z s k d = Some (s, None)"
    and "k \<noteq> [] \<Longrightarrow> z_get Z s k = Some d0 \<Longrightarrow> d0 \<noteq> d \<Longrightarrow>
          \<exists>s'. z_set Z s k d = Some (s', Some k) \<and> z_get Z s' = (z_get Z s)(k \<mapsto> d)"
    and "k \<noteq> [] \<Longrightarrow> z_get Z s k = None \<Longrightarrow> z_set Z s k d = None"
    and "z_get Z s k = None \<Longrightarrow> z_del Z s k = None"
    and "z_get Z s k \<noteq> None \<Longrightarrow> \<exists>s'. z_del Z s k = Some s' \<and> z_get Z s' = (z_get Z s)(k := None)"
    and "\<exists>ks. pages Z s None ks \<and> distinct ks \<and> set ks = {k. z_get Z s k \<noteq> None}"
proof -
  note h = assms [unfolded zsrv_laws_def]
  show "z_set Z s [] d = Some (s', r) \<Longrightarrow>
      \<exists>k. r = Some k \<and> length k = 4 \<and> z_get Z s k = None \<and> z_get Z s' = (z_get Z s)(k \<mapsto> d)"
    using conjunct1 [OF h] by metis
  note h1 = conjunct2 [OF h]
  show "k \<noteq> [] \<Longrightarrow> z_get Z s k = Some d \<Longrightarrow> z_set Z s k d = Some (s, None)"
    and "k \<noteq> [] \<Longrightarrow> z_get Z s k = Some d0 \<Longrightarrow> d0 \<noteq> d \<Longrightarrow>
      \<exists>s'. z_set Z s k d = Some (s', Some k) \<and> z_get Z s' = (z_get Z s)(k \<mapsto> d)"
    using conjunct1 [OF h1] by metis+
  note h2 = conjunct2 [OF h1]
  show "k \<noteq> [] \<Longrightarrow> z_get Z s k = None \<Longrightarrow> z_set Z s k d = None" using conjunct1 [OF h2] by metis
  note h3 = conjunct2 [OF conjunct2 [OF h2]]
  show "z_get Z s k = None \<Longrightarrow> z_del Z s k = None" using conjunct1 [OF h3] by metis
  note h4 = conjunct2 [OF h3]
  show "z_get Z s k \<noteq> None \<Longrightarrow> \<exists>s'. z_del Z s k = Some s' \<and> z_get Z s' = (z_get Z s)(k := None)"
    using conjunct1 [OF h4] by metis
  show "\<exists>ks. pages Z s None ks \<and> distinct ks \<and> set ks = {k. z_get Z s k \<noteq> None}"
    using conjunct2 [OF conjunct2 [OF h4]] by metis
qed

lemma zdb_lookup_Some:
  "zdb_lookup c k = Some d \<longleftrightarrow> (\<exists>kb. pack_I k = Inr kb \<and> z_get (zdb_ops c) (zdb_srv c) kb = Some d)"
  by (auto simp: zdb_lookup_def zdb_get_def zdb_key_encode_def rbind_def split: sum.splits)

lemma pack_ne: "pack_I k = Inr kb \<Longrightarrow> kb \<noteq> [] \<and> length kb = 4"
  by (auto simp: pack_I_def split: if_splits dest: arg_cong [of _ _ length])

lemma zdb_lookup_upd:
  assumes "pack_I k = Inr kb" "z_get (zdb_ops c) s' = (z_get (zdb_ops c) (zdb_srv c))(kb := v)"
  shows "zdb_lookup (c\<lparr>zdb_srv := s'\<rparr>) = (zdb_lookup c)(k := v)"
proof
  fix x
  show "zdb_lookup (c\<lparr>zdb_srv := s'\<rparr>) x = ((zdb_lookup c)(k := v)) x"
  proof (cases "pack_I x")
    case (Inr xb)
    then have "xb = kb \<longleftrightarrow> x = k" using pack_inj [of x xb k] assms(1) by auto
    with Inr show ?thesis
      using assms by (simp add: zdb_lookup_def zdb_get_def zdb_key_encode_def)
  next
    case Inl
    then have "x \<noteq> k" using assms(1) by auto
    with Inl show ?thesis by (simp add: zdb_lookup_def zdb_get_def zdb_key_encode_def)
  qed
qed

lemma zdb_put_new:
  assumes "zdb_wf c" "zdb_set c d None = Inr (c', r)"
  shows "zdb_wf c' \<and> (\<exists>k. r = Some k \<and> 0 \<le> k \<and> zdb_lookup c k = None \<and> zdb_lookup c' = (zdb_lookup c)(k \<mapsto> d))"
proof -
  from assms(1) have L: "zsrv_laws (zdb_ops c)" by (simp add: zdb_wf_def)
  from assms(2) obtain s' q where q: "z_set (zdb_ops c) (zdb_srv c) [] d = Some (s', q)"
    by (auto simp: zdb_set_def zdb_key_encode_def split: option.splits)
  from zsrv_lawsD(1) [OF L q] obtain kb where kb: "q = Some kb" "length kb = 4" "z_get (zdb_ops c) (zdb_srv c) kb = None"
    "z_get (zdb_ops c) s' = (z_get (zdb_ops c) (zdb_srv c))(kb \<mapsto> d)" by blast
  from kb(2) have ne: "kb \<noteq> []" by auto
  obtain k where k: "unpack_I kb = Inr k" "k = le_int kb" using kb(2) by (simp add: unpack_I_def)
  have c': "c' = c\<lparr>zdb_srv := s'\<rparr>" "r = Some k"
    using assms(2) by (auto simp: zdb_set_def zdb_key_encode_def q kb(1) ne zdb_key_decode_def k(1))
  have p: "pack_I k = Inr kb" by (rule pack_unpack [OF k(1)])
  have "zdb_wf c'" using assms(1) kb(2) by (auto simp: zdb_wf_def c' kb(4))
  moreover have "zdb_lookup c k = None" using p kb(3) by (simp add: zdb_lookup_def zdb_get_def zdb_key_encode_def)
  moreover have "zdb_lookup c' = (zdb_lookup c)(k \<mapsto> d)"
    unfolding c' by (rule zdb_lookup_upd [OF p kb(4)])
  ultimately show ?thesis using le_int_bounds [of kb] k(2) c'(2) by auto
qed

lemma zdb_put_old:
  assumes "zdb_wf c" "zdb_lookup c k = Some d0" "zdb_set c d (Some k) = Inr (c', r)"
  shows "zdb_wf c' \<and> zdb_lookup c' = (zdb_lookup c)(k \<mapsto> d) \<and> r = (if d0 = d then None else Some k)"
proof -
  from assms(1) have L: "zsrv_laws (zdb_ops c)" by (simp add: zdb_wf_def)
  from assms(2) obtain kb where kb: "pack_I k = Inr kb" "z_get (zdb_ops c) (zdb_srv c) kb = Some d0"
    by (auto simp: zdb_lookup_Some)
  note ne = pack_ne [OF kb(1)]
  show ?thesis
  proof (cases "d0 = d")
    case True
    then have "z_set (zdb_ops c) (zdb_srv c) kb d = Some (zdb_srv c, None)"
      using zsrv_lawsD(2) [OF L, of kb "zdb_srv c" d] ne kb(2) by simp
    with assms True show ?thesis by (auto simp: zdb_set_def zdb_key_encode_def kb(1) fun_upd_idem)
  next
    case False
    from zsrv_lawsD(3) [OF L _ kb(2) False] ne obtain s' where
      s': "z_set (zdb_ops c) (zdb_srv c) kb d = Some (s', Some kb)"
      "z_get (zdb_ops c) s' = (z_get (zdb_ops c) (zdb_srv c))(kb \<mapsto> d)" by blast
    have c': "c' = c\<lparr>zdb_srv := s'\<rparr>" "r = Some k"
      using assms(3) ne by (auto simp: zdb_set_def zdb_key_encode_def kb(1) s'(1) zdb_key_decode_def unpack_pack [OF kb(1)])
    have "zdb_wf c'" using assms(1) ne by (auto simp: zdb_wf_def c' s'(2))
    with False zdb_lookup_upd [OF kb(1) s'(2)] show ?thesis by (simp add: c')
  qed
qed

lemma zdb_delete_wf:
  assumes "zdb_wf c" "zdb_delete c k = Inr c'"
  shows "zdb_wf c' \<and> zdb_lookup c' = (zdb_lookup c)(k := None)"
proof -
  from assms(1) have L: "zsrv_laws (zdb_ops c)" by (simp add: zdb_wf_def)
  from assms(2) obtain kb where kb: "pack_I k = Inr kb"
    by (auto simp: zdb_delete_def zdb_key_encode_def rbind_eq_Inr)
  show ?thesis
  proof (cases "z_get (zdb_ops c) (zdb_srv c) kb = None")
    case True
    then have "zdb_lookup c k = None" by (simp add: zdb_lookup_def zdb_get_def zdb_key_encode_def kb)
    with True assms zsrv_lawsD(5) [OF L True] show ?thesis
      by (auto simp: zdb_delete_def zdb_key_encode_def kb fun_upd_idem)
  next
    case False
    from zsrv_lawsD(6) [OF L False] obtain s' where s': "z_del (zdb_ops c) (zdb_srv c) kb = Some s'"
      "z_get (zdb_ops c) s' = (z_get (zdb_ops c) (zdb_srv c))(kb := None)" by blast
    have c': "c' = c\<lparr>zdb_srv := s'\<rparr>" using assms(2) by (simp add: zdb_delete_def zdb_key_encode_def kb s'(1))
    have "zdb_wf c'" using assms(1) by (auto simp: zdb_wf_def c' s'(2) split: if_splits)
    with zdb_lookup_upd [OF kb s'(2)] show ?thesis by (simp add: c')
  qed
qed

lemma zdb_scan_pages: "pages (zdb_ops c) (zdb_srv c) n ks \<Longrightarrow> n \<noteq> Some [] \<Longrightarrow> zdb_scan c n acc = Some (acc @ ks)"
proof (induction arbitrary: acc rule: pages.induct)
  case (pages_end n)
  then show ?case by (subst zdb_scan.simps) simp
next
  case (pages_next n m ks ks')
  then show ?case by (subst zdb_scan.simps) simp
qed

definition zdb_items :: "'s zdb \<Rightarrow> (int \<times> bytes) list" where
  "zdb_items c = (case zdb_iterate c None False of
     Some (Inr l) \<Rightarrow> concat (map (\<lambda>(k, d). case d of None \<Rightarrow> [] | Some d \<Rightarrow> [(k, d)]) l) | _ \<Rightarrow> [])"

lemma zdb_iterate_graph:
  assumes "zdb_wf c"
  shows "\<exists>l. zdb_iterate c None False = Some (Inr l) \<and> distinct (map fst l)
    \<and> set l = {(k, Some d) |k d. zdb_lookup c k = Some d}"
proof -
  let ?Z = "zdb_ops c" and ?s = "zdb_srv c"
  from assms have L: "zsrv_laws ?Z" by (simp add: zdb_wf_def)
  from zsrv_lawsD(7) [OF L] obtain ks where ks: "pages ?Z ?s None ks" "distinct ks" "set ks = {k. z_get ?Z ?s k \<noteq> None}" by blast
  have four: "length k = 4" if "k \<in> set ks" for k using that ks(3) assms by (auto simp: zdb_wf_def)
  have i: "zdb_iterate c None False
      = Some (rmap (\<lambda>kb. rbind (zdb_key_decode kb) (\<lambda>k. Inr (k, z_get ?Z ?s kb))) ks)"
    using zdb_scan_pages [OF ks(1), of "[]"] by (simp add: zdb_iterate_def)
  have r: "rmap (\<lambda>kb. rbind (zdb_key_decode kb) (\<lambda>k. Inr (k, z_get ?Z ?s kb))) ks
      = Inr (map (\<lambda>kb. (le_int kb, z_get ?Z ?s kb)) ks)"
    by (rule rmap_all) (simp add: zdb_key_decode_def unpack_I_def four)
  have inj: "inj_on le_int (set ks)"
    by (rule inj_onI) (metis four le_bytes_le_int)
  have "distinct (map fst (map (\<lambda>kb. (le_int kb, z_get ?Z ?s kb)) ks))"
    using ks(2) inj by (simp add: comp_def distinct_map)
  moreover have "set (map (\<lambda>kb. (le_int kb, z_get ?Z ?s kb)) ks) = {(k, Some d) |k d. zdb_lookup c k = Some d}"
  proof -
    have "(\<exists>kb\<in>set ks. le_int kb = k \<and> z_get ?Z ?s kb = Some d) \<longleftrightarrow> zdb_lookup c k = Some d" for k d
    proof
      assume "\<exists>kb\<in>set ks. le_int kb = k \<and> z_get ?Z ?s kb = Some d"
      then obtain kb where kb: "kb \<in> set ks" "le_int kb = k" "z_get ?Z ?s kb = Some d" by blast
      then have "unpack_I kb = Inr k" using four by (simp add: unpack_I_def)
      with kb(3) show "zdb_lookup c k = Some d" using pack_unpack by (auto simp: zdb_lookup_Some)
    next
      assume "zdb_lookup c k = Some d"
      then obtain kb where kb: "pack_I k = Inr kb" "z_get ?Z ?s kb = Some d" by (auto simp: zdb_lookup_Some)
      then have "kb \<in> set ks" by (simp add: ks(3))
      moreover have "le_int kb = k" using unpack_pack [OF kb(1)] pack_ne [OF kb(1)] by (simp add: unpack_I_def)
      ultimately show "\<exists>kb\<in>set ks. le_int kb = k \<and> z_get ?Z ?s kb = Some d" using kb(2) by blast
    qed
    note * = this
    show ?thesis
    proof (rule set_eqI, unfold split_paired_all)
      fix k x
      have m: "(k, x) \<in> set (map (\<lambda>kb. (le_int kb, z_get ?Z ?s kb)) ks) \<longleftrightarrow> (\<exists>kb\<in>set ks. le_int kb = k \<and> z_get ?Z ?s kb = x)"
        by (simp only: set_map image_iff prod.inject) blast
      show "(k, x) \<in> set (map (\<lambda>kb. (le_int kb, z_get ?Z ?s kb)) ks) \<longleftrightarrow> (k, x) \<in> {(k, Some d) |k d. zdb_lookup c k = Some d}"
      proof (cases x)
        case None
        then show ?thesis unfolding m using ks(3) by auto
      next
        case (Some d)
        then show ?thesis unfolding m using * [of k d] by simp
      qed
    qed
  qed
  ultimately show ?thesis using i r by auto
qed


interpretation zdb: kv_store zdb_wf zdb_lookup "\<lambda>now. zdb_set" zdb_delete zdb_items
proof
  fix c c' :: "'a zdb" and d :: bytes and k r d0
  show "zdb_wf c \<Longrightarrow> d \<noteq> [] \<Longrightarrow> zdb_set c d None = Inr (c', r) \<Longrightarrow> zdb_wf c' \<and>
      (\<exists>k. r = Some k \<and> 0 \<le> k \<and> zdb_lookup c k = None \<and> zdb_lookup c' = (zdb_lookup c)(k \<mapsto> d))"
    by (rule zdb_put_new)
  show "zdb_wf c \<Longrightarrow> d \<noteq> [] \<Longrightarrow> zdb_lookup c k = Some d0 \<Longrightarrow> zdb_set c d (Some k) = Inr (c', r) \<Longrightarrow>
      zdb_wf c' \<and> zdb_lookup c' = (zdb_lookup c)(k \<mapsto> d) \<and> r = (if d0 = d then None else Some k)"
    by (rule zdb_put_old)
  show "zdb_wf c \<Longrightarrow> 0 < k \<Longrightarrow> zdb_delete c k = Inr c' \<Longrightarrow> zdb_wf c' \<and> zdb_lookup c' = (zdb_lookup c)(k := None)"
    by (rule zdb_delete_wf)
  assume "zdb_wf c"
  from zdb_iterate_graph [OF this] obtain l where l: "zdb_iterate c None False = Some (Inr l)" "distinct (map fst l)"
    "set l = {(k, Some d) |k d. zdb_lookup c k = Some d}" by blast
  have all: "\<forall>x\<in>set l. snd x \<noteq> None" using l(3) by auto
  have k: "map fst (concat (map (\<lambda>(k, d). case d of None \<Rightarrow> [] | Some d \<Rightarrow> [(k, d)]) xs)) = map fst xs"
    if "\<forall>x\<in>set xs. snd x \<noteq> None" for xs :: "(int \<times> bytes option) list"
    using that by (induction xs) auto
  have "set (zdb_items c) = {(k, d). (k, Some d) \<in> set l}"
    by (auto simp: zdb_items_def l(1) split: option.splits)
  then have "set (zdb_items c) = {(k, d). zdb_lookup c k = Some d}" by (simp add: l(3))
  with k [OF all] l(1,2) show "distinct (map fst (zdb_items c)) \<and> set (zdb_items c) = {(k, d). zdb_lookup c k = Some d}"
    by (simp add: zdb_items_def)
qed

section \<open>A server for the examples\<close>

type_synonym memzdb = "(bytes, bytes) alist"

definition mem_next :: "memzdb \<Rightarrow> int" where
  "mem_next t = foldr (\<lambda>(k, v) n. max (le_int k + 1) n) (DAList.impl_of t) 0"

definition mem_zsrv :: "memzdb zsrv" where
  "mem_zsrv = \<lparr>z_set = \<lambda>t k d.
       if k = [] then (if mem_next t < 2 ^ 32
         then Some (DAList.update (le_bytes 4 (mem_next t)) d t, Some (le_bytes 4 (mem_next t))) else None)
       else (case DAList.lookup t k of None \<Rightarrow> None
         | Some d0 \<Rightarrow> if d0 = d then Some (t, None) else Some (DAList.update k d t, Some k)),
     z_get = DAList.lookup, z_exists = \<lambda>t k. DAList.lookup t k \<noteq> None,
     z_del = \<lambda>t k. if DAList.lookup t k = None then None else Some (DAList.delete k t),
     z_flush = \<lambda>t. DAList.empty, z_keycur = \<lambda>t k. k,
     z_scan = \<lambda>t c. if c = None then Some ([0], map fst (DAList.impl_of t)) else None\<rparr>"

lemma mem_next_bounds: "DAList.lookup t k = Some v \<Longrightarrow> le_int k < mem_next t" "0 \<le> mem_next t"
proof -
  have "(k, v) \<in> set xs \<Longrightarrow> le_int k < foldr (\<lambda>(k, v) n. max (le_int k + 1) n) xs 0" for xs :: "(bytes \<times> bytes) list"
    by (induction xs) (auto simp: less_max_iff_disj)
  then show "DAList.lookup t k = Some v \<Longrightarrow> le_int k < mem_next t"
    by (simp add: mem_next_def DAList.lookup.rep_eq)
  have "0 \<le> foldr (\<lambda>(k, v) n. max (le_int k + 1) n) xs 0" for xs :: "(bytes \<times> bytes) list"
    by (induction xs) (auto simp: le_max_iff_disj)
  then show "0 \<le> mem_next t" by (simp add: mem_next_def)
qed

lemma mem_next_fresh: "mem_next t < 2 ^ 32 \<Longrightarrow> DAList.lookup t (le_bytes 4 (mem_next t)) = None"
  using mem_next_bounds(1) [of t "le_bytes 4 (mem_next t)"] mem_next_bounds(2) [of t] le_int_le_bytes [of "mem_next t" 4]
  by (cases "DAList.lookup t (le_bytes 4 (mem_next t))") auto

lemma mem_zsrv_laws: "zsrv_laws mem_zsrv"
proof -
  have "pages mem_zsrv t None (map fst (DAList.impl_of t) @ [])" for t
    by (rule pages_next [where n = "[0]"]) (auto simp: mem_zsrv_def intro: pages_end)
  moreover have "fst ` set (DAList.impl_of t) = {k. DAList.lookup t k \<noteq> None}" for t :: memzdb
    by (auto simp: DAList.lookup.rep_eq map_of_eq_None_iff)
  ultimately have p: "\<exists>ks. pages mem_zsrv t None ks \<and> distinct ks \<and> set ks = {k. z_get mem_zsrv t k \<noteq> None}" for t
    by (intro exI [of _ "map fst (DAList.impl_of t)"]) (simp add: mem_zsrv_def)
  have u: "DAList.lookup (DAList.update k d t) = (DAList.lookup t)(k \<mapsto> d)" for k d and t :: memzdb
    by (rule ext) (simp add: lookup_update)
  show ?thesis
    unfolding zsrv_laws_def
    by (intro conjI allI impI)
      (use p in \<open>auto simp: mem_zsrv_def mem_next_fresh u split: if_splits option.splits\<close>)
qed

definition mem_zdb :: "memzdb zdb" where
  "mem_zdb = \<lparr>zdb_ops = mem_zsrv, zdb_srv = DAList.update [0, 0, 0, 0] [7] DAList.empty, zdb_nsname = ''test''\<rparr>"

lemma mem_zdb_wf: "zdb_wf mem_zdb"
  by (simp add: zdb_wf_def mem_zdb_def mem_zsrv_laws) (simp add: mem_zsrv_def lookup_update)

section \<open>Property\<close>

text \<open>C40: Whatever pages the server cuts a scan into, \<^verbatim>\<open>iterate\<close> over a 0-db namespace ends and yields every record
  exactly once, with its number and its data.\<close>

theorem zdb_iterate_complete:
  assumes "zdb_wf c"
  shows "\<exists>l. zdb_iterate c None False = Some (Inr l) \<and> distinct (map fst l)
    \<and> set l = {(k, Some d) |k d. zdb_lookup c k = Some d}"
  by (rule zdb_iterate_graph [OF assms])

theorem zdb_iterate_complete_witness:
  "\<exists>l. zdb_iterate mem_zdb None False = Some (Inr l) \<and> (0, Some [7]) \<in> set l"
proof -
  have "pack_I 0 = Inr [0, 0, 0, 0]" by (simp add: pack_I_def numeral_eq_Suc)
  then have "zdb_lookup mem_zdb 0 = Some [7]"
    by (simp add: zdb_lookup_def zdb_get_def zdb_key_encode_def mem_zdb_def mem_zsrv_def lookup_update)
  with zdb_iterate_complete [OF mem_zdb_wf] show ?thesis by auto
qed

end
