(* ===== verification/SchemaText.thy ===== *)
theory SchemaText
  imports TypesReg
begin

text \<open>
  The text side of \<^verbatim>\<open>data/schema\<close>: cutting a text into schema blocks, rewriting a schema to its canonical form,
  its md5 (SchemaFactory.py, with \<^verbatim>\<open>text_strip\<close> of JumpscaleInstallLib/Tools.py), and reading the properties
  of a schema (Schema.py, SchemaProperty.py).
\<close>

section \<open>Helpers on text\<close>

definition lstrip :: "string \<Rightarrow> string" where
  "lstrip s = lstrip_by is_space s"

definition blank :: "string \<Rightarrow> bool" where
  "blank s = (strip s = [])"

definition split1 :: "char \<Rightarrow> string \<Rightarrow> (string \<times> string) res" where
  \<comment> \<open>\<^verbatim>\<open>a, b = s.split(c, 1)\<close>\<close>
  "split1 c s = (case split_first c s of None \<Rightarrow> Inl P_ValueError | Some p \<Rightarrow> Inr p)"

definition nth_part :: "char \<Rightarrow> string \<Rightarrow> nat \<Rightarrow> string res" where
  \<comment> \<open>\<^verbatim>\<open>s.split(c)[n]\<close>\<close>
  "nth_part c s n = (let ps = split_char c s in if n < length ps then Inr (ps ! n) else Inl P_IndexError)"

definition unlines :: "string list \<Rightarrow> string" where
  \<comment> \<open>every line followed by a newline\<close>
  "unlines ls = concat (map (\<lambda>l. l @ [newline]) ls)"

definition indent_of :: "string \<Rightarrow> nat" where
  "indent_of line = length line - length (lstrip line)"

definition min_indent :: "bool \<Rightarrow> string list \<Rightarrow> nat" where
  "min_indent ignorecomments ls = foldl (\<lambda>m line.
     if blank line then m
     else if ignorecomments \<and> starts_with ''#'' (strip line) \<and> \<not> starts_with ''#!'' (strip line) then m
     else min m (indent_of line)) 9999 ls"

definition text_strip :: "bool \<Rightarrow> string \<Rightarrow> string" where
  "text_strip ignorecomments content = (let ls = lines content; m = min_indent ignorecomments ls in
     if 0 < m then
       (let ls1 = (if blank (hd ls) then tl ls else ls)
        in join [newline] (map (drop m) (lines (join [newline] ls1))))
     else content)"

section \<open>SchemaFactory: blocks, canonical text, md5\<close>

record blockst =
  bk_block :: string
  bk_blocks :: "string list"

definition block_line :: "blockst \<Rightarrow> string \<Rightarrow> blockst" where
  "block_line st line = (let strip_line = strip (lower line) in
     if bk_block st = [] \<and> (strip_line = [] \<or> starts_with ''#'' strip_line) then st
     else let st1 = (if starts_with ''@url'' strip_line \<and> bk_block st \<noteq> []
                     then \<lparr>bk_block = [], bk_blocks = bk_blocks st @ [bk_block st]\<rparr> else st)
          in st1\<lparr>bk_block := bk_block st1 @ line @ [newline]\<rparr>)"

definition schema_blocks_get :: "string \<Rightarrow> string list" where
  "schema_blocks_get schema_text =
    (let st = foldl block_line \<lparr>bk_block = [], bk_blocks = []\<rparr> (lines (text_strip True schema_text))
     in if bk_block st \<noteq> [] then bk_blocks st @ [bk_block st] else bk_blocks st)"

definition is_multiple_schema :: "string \<Rightarrow> bool" where
  "is_multiple_schema schema_text = (1 < length (schema_blocks_get schema_text))"

definition remove_comment :: "string \<Rightarrow> string" where
  "remove_comment line = (case split_first (CHR ''#'') line of None \<Rightarrow> line | Some (line1, line2) \<Rightarrow> strip line1)"

record rewst =
  rw_url :: "string option"
  rw_found :: bool
  rw_nr :: int
  rw_out :: string

definition rewrite_line :: "rewst \<Rightarrow> string \<Rightarrow> rewst res" where
  "rewrite_line st line0 = (let line = replace_str ''::'' '':'' (strip line0) in
     if starts_with ''@url'' line then
       (if rw_url st \<noteq> None \<and> rw_url st \<noteq> Some [] then Inr st
        else (case split_first (CHR ''='') line of
              None \<Rightarrow> Inl P_IndexError | Some (a, b) \<Rightarrow> Inr (st\<lparr>rw_url := Some (strip b)\<rparr>)))
     else if starts_with ''@'' line then Inr (st\<lparr>rw_out := rw_out st @ line @ [newline]\<rparr>)
     else if strip line = [] then Inr st
     else if starts_with ''#'' (strip line) then Inr st
     else if CHR '':'' \<in> set (take 4 line)
     then Inr (st\<lparr>rw_found := True, rw_out := rw_out st @ remove_comment line @ [newline]\<rparr>)
     else if rw_found st then Inl E_Input
     else rbind (py_assert (CHR '':'' \<notin> set (take 3 line))) (\<lambda>_.
       Inr (st\<lparr>rw_out := rw_out st @ pad_right 2 (int_str (rw_nr st)) @ '': '' @ remove_comment line @ [newline],
               rw_nr := rw_nr st + 1\<rparr>)))"

definition schema_text_rewrite :: "string option \<Rightarrow> string \<Rightarrow> string res" where
  "schema_text_rewrite url schema_text = rbind (py_assert (schema_text \<noteq> [])) (\<lambda>_.
     rbind (rfold rewrite_line \<lparr>rw_url = url, rw_found = False, rw_nr = 0, rw_out = []\<rparr>
              (lines (text_strip False schema_text))) (\<lambda>st.
       case rw_url st of
         None \<Rightarrow> Inl P_AssertionError
       | Some u \<Rightarrow> rbind (py_assert (5 < length u)) (\<lambda>_.
           Inr (''@url = '' @ u @ [newline] @ strip (rw_out st) @ [newline]))))"

definition schema_md5 :: "(string \<Rightarrow> string) \<Rightarrow> bool \<Rightarrow> bool \<Rightarrow> string \<Rightarrow> string res" where
  \<comment> \<open>\<^verbatim>\<open>_md5(text, blocktest, rewrite)\<close>\<close>
  "schema_md5 md5 blocktest rw text =
     rbind (if blocktest then (case schema_blocks_get text of [b] \<Rightarrow> Inr b | _ \<Rightarrow> Inl P_AssertionError) else Inr text) (\<lambda>t1.
     rbind (if rw then schema_text_rewrite None t1 else Inr t1) (\<lambda>t2.
       Inr (md5 (strip (remove_char newline (remove_char (CHR '' '') t2))))))"

definition url_clean_schema :: "string \<Rightarrow> string" where
  \<comment> \<open>\<^verbatim>\<open>SchemaFactory._urlclean\<close>\<close>
  "url_clean_schema url = strip (lower url)"

section \<open>SchemaProperty\<close>

record sprop =
  p_nr :: int
  p_name :: string
  p_attr :: string
  p_type :: "jstype option"
  p_comment :: string
  p_index :: bool
  p_index_text :: bool
  p_unique :: bool

definition prop_init :: "int \<Rightarrow> string \<Rightarrow> string \<Rightarrow> jstype option \<Rightarrow> bool \<Rightarrow> sprop res" where
  \<comment> \<open>the arguments \<^verbatim>\<open>unique\<close> and \<^verbatim>\<open>comment\<close> some callers pass are not read: \<^verbatim>\<open>unique\<close> is False and the
    comment is looked up as \<^verbatim>\<open>comments\<close>\<close>
  "prop_init nr name attr ty idx = (if name = ''schema'' then Inl E_Base
     else Inr \<lparr>p_nr = nr, p_name = name, p_attr = attr, p_type = ty, p_comment = [], p_index = idx,
               p_index_text = False, p_unique = False\<rparr>)"

definition name_camel :: "string \<Rightarrow> string" where
  "name_camel name = foldl (\<lambda>out item. if out = [] then lower item else out @ capitalize item) []
     (split_char (CHR ''_'') name)"

definition is_jsxobject :: "jstype \<Rightarrow> bool" where
  "is_jsxobject t = (basetype (ty_klass t) = ''JSXOBJ'')"

definition is_list :: "jstype \<Rightarrow> bool" where
  "is_list t = (type_name (ty_klass t) = ''list'')"

definition sub_klass :: "jstype \<Rightarrow> klass" where
  "sub_klass t = (case ty_sub t of Some s \<Rightarrow> ty_klass s | None \<Rightarrow> KString)"

definition is_list_jsxobject :: "jstype \<Rightarrow> bool" where
  "is_list_jsxobject t = (basetype (ty_klass t) = ''list'' \<and> basetype (sub_klass t) = ''JSXOBJ'')"

definition has_jsxobject :: "jstype \<Rightarrow> bool" where
  "has_jsxobject t = (is_list_jsxobject t \<or> is_jsxobject t)"

definition is_complex_type :: "jstype \<Rightarrow> bool" where
  "is_complex_type t = is_objfactory (ty_klass t)"

definition is_primitive :: "jstype \<Rightarrow> bool" where
  "is_primitive t = (if is_serialized (ty_klass t) then False else if is_complex_type t then False
     else basetype (ty_klass t) \<in> {''string'', ''int'', ''dict'', ''bytes'', ''bool'', ''float''})"

definition type_capnp :: "jstype \<Rightarrow> string \<Rightarrow> int \<Rightarrow> string" where
  "type_capnp t name nr = (if is_list t
     then list_capnp (basetype (sub_klass t)) (capnp_type (sub_klass t)) name nr
     else capnp_line (capnp_type (ty_klass t)) name nr)"

definition prop_capnp_schema :: "sprop \<Rightarrow> string res" where
  "prop_capnp_schema p = (case p_type p of None \<Rightarrow> Inl P_AttributeError
     | Some t \<Rightarrow> Inr (type_capnp t (name_camel (p_name p)) (p_nr p)))"

section \<open>Schema: reading properties\<close>

type_synonym typeenv = "(string \<Rightarrow> string) \<times> (jstype \<Rightarrow> pyval \<Rightarrow> pyval res)"
  \<comment> \<open>md5 and the clean of type objects, for \<open>types_get\<close>\<close>

definition get_type :: "typeenv \<Rightarrow> tycache \<Rightarrow> string \<Rightarrow> pyval \<Rightarrow> (tycache \<times> jstype) res" where
  "get_type env cache name d = types_get (fst env) (snd env) cache name d"

definition proptype_get :: "typeenv \<Rightarrow> tycache \<Rightarrow> string \<Rightarrow> (tycache \<times> jstype) res" where
  "proptype_get env cache txt =
    (if str_in [CHR 0x5C, CHR ''n''] txt then get_type env cache ''multiline'' (PStr txt)
     else if CHR 0x27 \<in> set txt \<or> CHR 0x22 \<in> set txt \<or> strip_chars [CHR 0x27] txt = []
     then get_type env cache ''string'' (PStr (strip (strip_chars [CHR 0x27] (strip_chars [CHR 0x22] (strip txt)))))
     else if CHR ''.'' \<in> set txt then get_type env cache ''float'' (PStr txt)
     else if str_in ''true'' (lower txt) \<or> str_in ''false'' (lower txt) then get_type env cache ''bool'' (PStr txt)
     else if str_in ''[]'' txt then get_type env cache ''ls'' (PStr txt)
     else if int_checkString txt then get_type env cache ''i'' (PStr txt)
     else Inl E_Base)"

definition getdefault :: "string \<Rightarrow> pyval" where
  "getdefault txt0 = (let txt = (if CHR 0x22 \<in> set txt0 \<or> CHR 0x27 \<in> set txt0
        then strip (strip_chars [CHR 0x27] (strip_chars [CHR 0x22] (strip txt0))) else txt0)
     in if strip txt = [] then PNone else PStr (strip txt))"

definition cut :: "char \<Rightarrow> string \<Rightarrow> string \<times> string option" where
  \<comment> \<open>the text before the first \<open>c\<close> and the text after it, both stripped; the whole text when there is none\<close>
  "cut c s = (case split_first c s of None \<Rightarrow> (s, None) | Some (a, b) \<Rightarrow> (strip a, Some (strip b)))"

record propname =
  pn_name :: string
  pn_index :: bool
  pn_unique :: bool

definition property_name :: "string \<Rightarrow> propname res" where
  \<comment> \<open>the marks around a property name: \<^verbatim>\<open>**\<close> behind it for an index, \<^verbatim>\<open>&\<close> before it for unique and indexed\<close>
  "property_name propname = (if ends_with ''***'' propname then Inl E_Base
     else let (name1, idx1) = (if ends_with ''**'' propname then (take (length propname - 2) propname, True) else (propname, False)) in
       if ends_with ''*'' name1 then Inl E_Input
       else let (name2, idx2, un) = (if starts_with ''&'' name1 then (tl name1, True, True) else (name1, idx1, False)) in
         if name2 = ''id'' then Inl E_Base
         else Inr \<lparr>pn_name = name2, pn_index = idx2, pn_unique = un \<or> name2 = ''name''\<rparr>)"

definition property_get_from_line :: "typeenv \<Rightarrow> tycache \<Rightarrow> string \<Rightarrow> (tycache \<times> sprop) res" where
  "property_get_from_line env cache line0 =
     rbind (py_assert (CHR '':'' \<in> set line0)) (\<lambda>_.
     rbind (split1 (CHR '':'') line0) (\<lambda>(nrtxt, line1).
     rbind (to_int (PStr nrtxt)) (\<lambda>nr.
     rbind (py_assert (CHR ''='' \<in> set line1)) (\<lambda>_.
     rbind (split1 (CHR ''='') line1) (\<lambda>(pname, line2).
       let (line3, ptr) = cut (CHR ''!'') (strip line2);
           pointer = map_option url_clean_schema ptr;
           (line4, cmt) = cut (CHR ''#'') line3;
           comment = (case cmt of None \<Rightarrow> [] | Some c \<Rightarrow> c)
       in rbind (property_name (strip pname)) (\<lambda>pn.
          rbind (if CHR ''('' \<in> set line4 then
                   rbind (nth_part (CHR ''('') line4 1) (\<lambda>q. rbind (nth_part (CHR '')'') q 0) (\<lambda>ptype.
                     let d = (case pointer of
                            Some u \<Rightarrow> if u \<noteq> [] then PStr (url_clean_schema u)
                                      else getdefault (strip (hd (split_char (CHR ''('') line4)))
                          | None \<Rightarrow> getdefault (strip (hd (split_char (CHR ''('') line4))))
                     in get_type env cache (strip (lower ptype)) d))
                 else proptype_get env cache line4) (\<lambda>(cache', ty).
            Inr (cache', \<lparr>p_nr = nr, p_name = pn_name pn, p_attr = [], p_type = Some ty, p_comment = comment,
                          p_index = pn_index pn, p_index_text = False, p_unique = pn_unique pn\<rparr>))))))))"

record schema =
  s_text :: string
  s_url :: string
  s_md5 :: string
  s_props :: "(string \<times> sprop) list"
  s_system :: "(string \<times> string) list"

record parsest =
  ps_url :: "string option"
  ps_cache :: tycache
  ps_props :: "(string \<times> sprop) list"
  ps_system :: "(string \<times> string) list"

definition schema_line :: "typeenv \<Rightarrow> parsest \<Rightarrow> string \<Rightarrow> parsest res" where
  "schema_line env st line0 = (let line = strip line0 in
     if line = [] then Inr st
     else if starts_with ''@'' line then
       (let line1 = (case split_first (CHR ''#'') line of None \<Rightarrow> line | Some (a, b) \<Rightarrow> a) in
        rbind (nth_part (CHR ''='') line1 0) (\<lambda>a. rbind (nth_part (CHR ''='') line1 1) (\<lambda>b.
          let key = drop 1 (strip a); val = strip_chars [CHR 0x27] (strip_chars [CHR 0x22] (strip b));
              st1 = st\<lparr>ps_system := d_set (ps_system st) key val\<rparr>
          in Inr (if key = ''url'' then st1\<lparr>ps_url := Some (url_clean_schema val)\<rparr> else st1))))
     else if starts_with ''#'' line then Inr st
     else if CHR ''='' \<notin> set line then Inl E_Input
     else rbind (py_assert (ps_url st \<noteq> None \<and> ps_url st \<noteq> Some [])) (\<lambda>_.
       rbind (property_get_from_line env (ps_cache st) line) (\<lambda>(cache', p).
         Inr (st\<lparr>ps_cache := cache', ps_props := d_set (ps_props st) (p_name p) p\<rparr>))))"

definition schema_new :: "typeenv \<Rightarrow> tycache \<Rightarrow> string \<Rightarrow> string option \<Rightarrow> string \<Rightarrow> (tycache \<times> schema) res" where
  \<comment> \<open>\<^verbatim>\<open>Schema(text, url, md5)\<close>: \<^verbatim>\<open>_init\<close> and \<^verbatim>\<open>_schema_from_text\<close>\<close>
  "schema_new env cache text url md5 = rbind (py_assert (md5 \<noteq> [])) (\<lambda>_.
     if 1 < count_str ''@url'' text then Inl E_Input
     else if count_str ''@url'' text = 0 \<and> (url = None \<or> url = Some []) then Inl E_Input
     else rbind (rfold (schema_line env) \<lparr>ps_url = url, ps_cache = cache, ps_props = [], ps_system = []\<rparr>
                   (lines (text_strip True text))) (\<lambda>st.
       case ps_url st of
         Some u \<Rightarrow> if u = [] then Inl E_Input
           else Inr (ps_cache st, \<lparr>s_text = text, s_url = u, s_md5 = md5, s_props = ps_props st,
                     s_system = filter (\<lambda>(k, v). k \<noteq> ''url'') (ps_system st)\<rparr>)
       | None \<Rightarrow> Inl E_Input))"

definition properties :: "schema \<Rightarrow> sprop list" where
  "properties s = map snd (s_props s)"

definition propertynames :: "schema \<Rightarrow> string list" where
  "propertynames s = d_keys (s_props s)"

definition index_needed :: "schema \<Rightarrow> bool \<times> bool \<times> bool" where
  "index_needed s = (False, list_ex p_index (properties s), list_ex p_index_text (properties s))"

definition properties_unique :: "schema \<Rightarrow> sprop list" where
  "properties_unique s = filter p_unique (properties s)"

definition properties_index_text :: "schema \<Rightarrow> sprop list" where
  "properties_index_text s = filter p_index_text (properties s)"

text \<open>
  \<^verbatim>\<open>properties_index_sql\<close> follows properties that are objects into their schemas; \<open>sub\<close> looks up the schema of a
  type, \<open>n\<close> bounds the depth of nesting: schemas that contain each other recur for ever in the code as well.
\<close>

definition sub_prop :: "sprop \<Rightarrow> sprop \<Rightarrow> sprop res" where
  \<comment> \<open>the property standing for property \<open>q\<close> of the object in property \<open>p\<close>\<close>
  "sub_prop p q = prop_init (p_nr q) (p_name p @ ''__'' @ p_name q) (p_name p @ ''.'' @ p_name q) (p_type q) (p_index q)"

fun properties_index_sql :: "nat \<Rightarrow> (jstype \<Rightarrow> schema option) \<Rightarrow> schema \<Rightarrow> sprop list res" where
  "properties_index_sql 0 sub s = Inl P_RuntimeError"
| "properties_index_sql (Suc n) sub s = rbind (rmap (\<lambda>p.
     if p_index p then Inr [p]
     else (case p_type p of
        Some t \<Rightarrow> if is_jsxobject t then
            (case sub t of None \<Rightarrow> Inl E_Input
             | Some s' \<Rightarrow> rbind (properties_index_sql n sub s') (\<lambda>ps.
                 rmap (sub_prop p) ps))
          else Inr []
      | None \<Rightarrow> Inr [])) (properties s)) (\<lambda>l. Inr (concat l))"

section \<open>Lemmas: lines and blocks\<close>

lemma unlines_simps [simp]: "unlines [] = []" "unlines (l # ls) = l @ newline # unlines ls"
  "unlines (ls @ ls') = unlines ls @ unlines ls'"
  by (simp_all add: unlines_def)

lemma unlines_Nil_iff [simp]: "unlines ls = [] \<longleftrightarrow> ls = []"
  by (cases ls) simp_all

lemma lines_unlines: "list_all (\<lambda>l. newline \<notin> set l) ls \<Longrightarrow> lines (unlines ls) = ls @ [[]]"
  by (induction ls) (simp_all add: split_char_append newline_def)

definition skip_line :: "string \<Rightarrow> bool" where
  "skip_line l = (strip (lower l) = [] \<or> starts_with ''#'' (strip (lower l)))"

definition url_line :: "string \<Rightarrow> bool" where
  "url_line l = starts_with ''@url'' (strip (lower l))"

text \<open>Blocks as lists of lines: the specification \<open>schema_blocks_get\<close> implements with one string per block.\<close>

fun group_line :: "string list list \<times> string list \<Rightarrow> string \<Rightarrow> string list list \<times> string list" where
  "group_line (gs, cur) l = (if cur = [] \<and> skip_line l then (gs, cur)
     else if url_line l \<and> cur \<noteq> [] then (gs @ [cur], [l]) else (gs, cur @ [l]))"

lemma block_line_group:
  "block_line \<lparr>bk_block = unlines cur, bk_blocks = map unlines gs\<rparr> l =
     (case group_line (gs, cur) l of (gs', cur') \<Rightarrow> \<lparr>bk_block = unlines cur', bk_blocks = map unlines gs'\<rparr>)"
  by (auto simp: block_line_def skip_line_def url_line_def Let_def)

lemma foldl_block_group:
  "foldl block_line \<lparr>bk_block = unlines cur, bk_blocks = map unlines gs\<rparr> ls =
     (case foldl group_line (gs, cur) ls of (gs', cur') \<Rightarrow> \<lparr>bk_block = unlines cur', bk_blocks = map unlines gs'\<rparr>)"
proof (induction ls arbitrary: gs cur)
  case Nil
  then show ?case by simp
next
  case (Cons l ls)
  obtain gs' cur' where g: "group_line (gs, cur) l = (gs', cur')" by (cases "group_line (gs, cur) l")
  with Cons.IH [of cur' gs'] show ?case by (simp only: foldl_Cons block_line_group g prod.case)
qed

fun group_inv :: "string list \<Rightarrow> string list list \<times> string list \<Rightarrow> bool" where
  \<comment> \<open>what the groups made from the lines \<open>ls\<close> are\<close>
  "group_inv ls (gs, cur) = (concat gs @ cur = dropWhile skip_line ls
     \<and> list_all (\<lambda>g. g \<noteq> [] \<and> \<not> list_ex url_line (tl g)) gs \<and> \<not> list_ex url_line (tl cur)
     \<and> list_all (\<lambda>g. url_line (hd g)) (tl (gs @ [cur])) \<and> (cur = [] \<longrightarrow> gs = []))"

lemma dropWhile_snoc: "dropWhile p (xs @ [x]) = (if list_all p xs then dropWhile p [x] else dropWhile p xs @ [x])"
  by (induction xs) auto

lemma group_inv_line:
  assumes "group_inv ls s"
  shows "group_inv (ls @ [l]) (group_line s l)"
proof (cases s)
  case [simp]: (Pair gs cur)
  show ?thesis
  proof (cases "cur = []")
    case True
    with assms have "gs = []" "list_all skip_line ls" by (auto simp: list_all_iff dest: sym [THEN trans])
    with True show ?thesis by (simp add: dropWhile_snoc)
  next
    case False
    from assms have "concat gs @ cur = dropWhile skip_line ls" by simp
    with False have ne: "dropWhile skip_line ls \<noteq> []" by (metis append_is_Nil_conv)
    then have "\<not> list_all skip_line ls" by (simp add: list_all_iff dropWhile_eq_Nil_conv)
    then have d: "dropWhile skip_line (ls @ [l]) = concat gs @ cur @ [l]"
      using assms by (simp add: dropWhile_snoc)
    from assms False show ?thesis
      by (cases gs) (auto simp: d)
  qed
qed

lemma group_inv_all: "group_inv ls (foldl group_line ([], []) ls)"
  by (induction ls rule: rev_induct) (auto simp del: group_inv.simps group_line.simps intro: group_inv_line, simp)

text \<open>A schema text is cut into blocks without losing a line: the blocks are groups of consecutive lines of the text
  (less its common indentation and the blank and comment lines it starts with); every block but the first begins with an @url
  line and no @url line stands inside a block.\<close>

theorem blocks_get_lossless:
  "\<exists>gs. schema_blocks_get t = map unlines gs \<and> concat gs = dropWhile skip_line (lines (text_strip True t))
     \<and> list_all (\<lambda>g. g \<noteq> [] \<and> \<not> list_ex url_line (tl g)) gs \<and> list_all (\<lambda>g. url_line (hd g)) (tl gs)"
proof -
  let ?ls = "lines (text_strip True t)"
  obtain gs cur where g: "foldl group_line ([], []) ?ls = (gs, cur)" by (cases "foldl group_line ([], []) ?ls")
  have inv: "group_inv ?ls (gs, cur)" using group_inv_all [of ?ls] by (simp only: g)
  have b: "schema_blocks_get t = map unlines (if cur = [] then gs else gs @ [cur])"
    using foldl_block_group [of "[]" "[]" ?ls] by (simp add: schema_blocks_get_def g)
  show ?thesis
    using inv by (intro exI [of _ "if cur = [] then gs else gs @ [cur]"] conjI b) (auto split: if_splits)
qed

section \<open>Lemmas: the canonical text\<close>

definition no_cc :: "string \<Rightarrow> bool" where
  "no_cc s = successively (\<lambda>a b. \<not> (a = CHR '':'' \<and> b = CHR '':'')) s"

lemma starts_with_cc: "no_cc s \<Longrightarrow> \<not> starts_with ''::'' s"
  by (auto simp: starts_with_iff no_cc_def)

lemma no_cc_Cons: "no_cc (c # s) \<Longrightarrow> no_cc s"
  by (cases s) (auto simp: no_cc_def)

lemma replace_cc: "no_cc s \<Longrightarrow> replace_str ''::'' '':'' s = s"
proof (induction s)
  case Nil
  then show ?case by simp
next
  case (Cons c s)
  have "\<not> starts_with ''::'' (c # s)" by (rule starts_with_cc [OF Cons.prems])
  then show ?case using Cons.IH [OF no_cc_Cons [OF Cons.prems]]
    by (simp only: replace_str.simps(2) simp_thms if_False)
qed

lemma no_cc_append: "no_cc (a @ b) \<longleftrightarrow> no_cc a \<and> no_cc b
    \<and> (a = [] \<or> b = [] \<or> \<not> (last a = CHR '':'' \<and> hd b = CHR '':''))"
  by (auto simp: no_cc_def successively_append_iff)

lemma dropWhile_append_parts: "\<exists>u. s = u @ dropWhile p s"
  by (metis takeWhile_dropWhile_id)

lemma strip_parts: "\<exists>u v. s = u @ strip_by p s @ v"
proof -
  obtain u where u: "s = u @ lstrip_by p s"
    unfolding lstrip_by_def using dropWhile_append_parts by blast
  obtain w where "rev (lstrip_by p s) = w @ dropWhile p (rev (lstrip_by p s))"
    using dropWhile_append_parts by blast
  then have "lstrip_by p s = rstrip_by p (lstrip_by p s) @ rev w"
    unfolding rstrip_by_def by (metis rev_append rev_rev_ident)
  with u show ?thesis unfolding strip_by_def by metis
qed

lemma no_cc_strip: "no_cc s \<Longrightarrow> no_cc (strip_by p s)"
  using strip_parts [of s p] no_cc_append by metis

definition clean_url :: "string \<Rightarrow> bool" where
  "clean_url u = (strip u = u \<and> no_cc u \<and> newline \<notin> set u)"

definition canon_line :: "string \<Rightarrow> bool" where
  \<comment> \<open>a line the rewriting leaves as it is\<close>
  "canon_line l = (strip l = l \<and> l \<noteq> [] \<and> newline \<notin> set l \<and> no_cc l
     \<and> (if starts_with ''@'' l then \<not> starts_with ''@url'' l
        else CHR '':'' \<in> set (take 4 l) \<and> CHR ''#'' \<notin> set l))"

definition plain_line :: "string \<Rightarrow> bool" where
  \<comment> \<open>no \<^verbatim>\<open>::\<close>, and a number that is not behind the comment sign\<close>
  "plain_line l = (no_cc (strip l) \<and> (CHR '':'' \<in> set (take 4 (strip l)) \<longrightarrow> starts_with ''#'' (strip l)
     \<or> CHR '':'' \<in> set (take 4 (remove_comment (strip l)))))"

lemma starts_with_single: "starts_with [c] l \<longleftrightarrow> l \<noteq> [] \<and> hd l = c"
  by (cases l) auto

lemma rewrite_canon_line:
  assumes "canon_line l" "rw_url st = Some u" "u \<noteq> []"
  shows "rewrite_line st l = Inr (st\<lparr>rw_found := rw_found st \<or> \<not> starts_with ''@'' l, rw_out := rw_out st @ l @ [newline]\<rparr>)"
proof (cases "starts_with ''@'' l")
  case True
  with assms show ?thesis
    by (simp add: rewrite_line_def canon_line_def replace_cc Let_def)
next
  case False
  then have "\<not> starts_with ''@url'' l" by (auto simp: starts_with_iff)
  moreover have "\<not> starts_with ''#'' l" "remove_comment l = l"
    using assms(1) False split_first_None [of "CHR ''#''" l]
    by (auto simp: canon_line_def starts_with_iff remove_comment_def)
  ultimately show ?thesis using assms False
    by (simp add: rewrite_line_def canon_line_def replace_cc Let_def)
qed

lemma rewrite_canon_lines:
  assumes "list_all canon_line ls" "rw_url st = Some u" "u \<noteq> []"
  shows "\<exists>f. rfold rewrite_line st (ls @ [[]]) = Inr (st\<lparr>rw_found := f, rw_out := rw_out st @ unlines ls\<rparr>)
    \<and> rfold rewrite_line st (ls @ [[], []]) = Inr (st\<lparr>rw_found := f, rw_out := rw_out st @ unlines ls\<rparr>)"
  using assms
proof (induction ls arbitrary: st)
  case Nil
  then show ?case by (intro exI [of _ "rw_found st"]) (simp add: rewrite_line_def)
next
  case (Cons l ls)
  show ?case
    using Cons.prems Cons.IH [of "st\<lparr>rw_found := rw_found st \<or> \<not> starts_with ''@'' l, rw_out := rw_out st @ l @ [newline]\<rparr>"]
    by (simp add: rewrite_canon_line [of l st u])
qed

lemma unlines_join: "ls \<noteq> [] \<Longrightarrow> unlines ls = join [newline] ls @ [newline]"
  by (induction ls rule: induct_list012) auto

lemma hd_join: "ls \<noteq> [] \<Longrightarrow> hd ls \<noteq> [] \<Longrightarrow> hd (join sep ls) = hd (hd ls) \<and> join sep ls \<noteq> []"
  by (cases ls; cases "tl ls") auto

lemma last_join: "ls \<noteq> [] \<Longrightarrow> last ls \<noteq> [] \<Longrightarrow> last (join sep ls) = last (last ls) \<and> join sep ls \<noteq> []"
  by (induction ls rule: induct_list012) auto

lemma is_space_newline: "is_space newline"
  by code_simp

lemma strip_snoc_space: "is_space c \<Longrightarrow> strip (s @ [c]) = strip s"
proof (cases "\<forall>x\<in>set s. is_space x")
  case True
  moreover assume "is_space c"
  ultimately show ?thesis by (metis Un_iff empty_set set_append set_ConsD list.simps(15) strip_by_eq_Nil_iff insertE emptyE)
next
  case False
  moreover assume "is_space c"
  ultimately show ?thesis
    by (auto simp: strip_by_def lstrip_by_def rstrip_by_def dropWhile_append)
qed

lemma canon_line_stripped: "canon_line l \<Longrightarrow> stripped is_space l"
  using stripped_strip_by [of is_space l] by (simp add: canon_line_def)

lemma strip_unlines:
  assumes "list_all canon_line ls" "ls \<noteq> []"
  shows "strip (unlines ls) = join [newline] ls"
proof -
  have "hd ls \<in> set ls" "last ls \<in> set ls" using assms(2) by auto
  then have c: "canon_line (hd ls)" "canon_line (last ls)" using assms(1) by (auto simp: list_all_iff)
  then have "hd ls \<noteq> []" "last ls \<noteq> []" by (auto simp: canon_line_def)
  then have "stripped is_space (join [newline] ls)"
    using c [THEN canon_line_stripped] hd_join [of ls "[newline]"] last_join [of ls "[newline]"] assms(2)
    by (auto simp: stripped_def)
  then show ?thesis
    by (simp add: unlines_join assms(2) strip_snoc_space is_space_newline strip_by_id)
qed

lemma min_indent_zero:
  assumes "l \<in> set ls" "\<not> blank l" "indent_of l = 0"
  shows "min_indent False ls = 0"
proof -
  define step where "step = (\<lambda>m line. if blank line then m else min m (indent_of line))"
  have "foldl step 0 xs = 0" for xs by (induction xs) (auto simp: step_def)
  then have "foldl step m ls = 0" if "l \<in> set ls" for m
    using that assms(2,3) by (induction ls arbitrary: m) (auto simp: step_def)
  then show ?thesis using assms(1) by (simp add: min_indent_def step_def cong: if_cong)
qed

lemma text_strip_flat:
  assumes "starts_with ''@'' t"
  shows "text_strip False t = t"
proof -
  obtain t' where t: "t = CHR ''@'' # t'" using assms by (auto simp: starts_with_iff)
  obtain w ws where w: "lines t' = w # ws" by (cases "lines t'") auto
  have l: "lines t = (CHR ''@'' # w) # ws" by (simp add: t w)
  have "\<not> is_space (CHR ''@'')" by code_simp
  then have "min_indent False (lines t) = 0"
    unfolding l by (intro min_indent_zero [of "CHR ''@'' # w"])
      (auto simp: blank_def strip_by_eq_Nil_iff indent_of_def lstrip_def lstrip_by_def)
  then show ?thesis by (simp add: text_strip_def)
qed

lemma rewrite_canonical_text:
  assumes "list_all canon_line ls" "clean_url u" "5 < length u"
  shows "schema_text_rewrite None (''@url = '' @ u @ [newline] @ strip (unlines ls) @ [newline])
     = Inr (''@url = '' @ u @ [newline] @ strip (unlines ls) @ [newline])" (is "schema_text_rewrite None ?r = _")
proof -
  let ?h = "''@url = '' @ u"
  have ls: "list_all (\<lambda>l. newline \<notin> set l) (?h # ls)" "u \<noteq> []" "u = strip u" "no_cc u" "newline \<notin> set u"
    using assms by (auto simp: list_all_iff canon_line_def clean_url_def newline_def)
  have r: "?r = unlines (?h # (if ls = [] then [[]] else ls))"
    using strip_unlines [OF assms(1)] by (simp add: unlines_join [of ls])
  have lines: "lines ?r = ?h # (if ls = [] then [[], []] else ls @ [[]])"
    unfolding r using ls(1) by (subst lines_unlines) auto
  have "stripped is_space u" using stripped_strip_by [of is_space u] ls(3) by simp
  then have "stripped is_space ?h"
    using ls(2) by (auto simp: stripped_def is_space_def ccode_def)
  then have h: "strip ?h = ?h" by (rule strip_by_id)
  have "no_cc ?h" using ls(4) by (subst no_cc_append) (simp add: no_cc_def)
  note h = h replace_cc [OF this]
  have u: "strip (CHR '' '' # u) = u"
  proof -
    have "lstrip_by is_space (CHR '' '' # u) = lstrip_by is_space u" by (simp add: lstrip_by_def is_space_def ccode_def)
    then show ?thesis using ls(3) by (simp add: strip_by_def)
  qed
  define st where "st = \<lparr>rw_url = Some u, rw_found = False, rw_nr = 0, rw_out = []\<rparr>"
  have first: "rewrite_line \<lparr>rw_url = None, rw_found = False, rw_nr = 0, rw_out = []\<rparr> ?h = Inr st"
    unfolding rewrite_line_def h Let_def using u by (simp add: st_def)
  have "\<exists>f. rfold rewrite_line st (if ls = [] then [[], []] else ls @ [[]]) = Inr (st\<lparr>rw_found := f, rw_out := unlines ls\<rparr>)"
    using rewrite_canon_lines [OF assms(1), of st u] ls(2) by (cases "ls = []") (auto simp: st_def)
  then obtain f where f: "rfold rewrite_line st (if ls = [] then [[], []] else ls @ [[]])
      = Inr (st\<lparr>rw_found := f, rw_out := unlines ls\<rparr>)" by blast
  have flat: "text_strip False ?r = ?r" by (rule text_strip_flat) simp
  have "rfold rewrite_line \<lparr>rw_url = None, rw_found = False, rw_nr = 0, rw_out = []\<rparr> (lines (text_strip False ?r))
      = Inr (st\<lparr>rw_found := f, rw_out := unlines ls\<rparr>)"
    unfolding flat lines by (simp only: rfold.simps first rbind_Inr f)
  then show ?thesis
    using assms(3) unfolding schema_text_rewrite_def by (simp add: st_def)
qed

lemma strip_nonempty: "s \<noteq> [] \<Longrightarrow> \<not> is_space (hd s) \<Longrightarrow> strip s \<noteq> [] \<and> hd (strip s) = hd s"
proof -
  assume s: "s \<noteq> []" "\<not> is_space (hd s)"
  then have l: "lstrip_by is_space s = s" by (simp add: lstrip_by_def dropWhile_id_hd)
  have "strip s \<noteq> []" using s by (metis hd_in_set strip_by_eq_Nil_iff)
  then show ?thesis using rstrip_by_hd [of is_space s] by (simp add: strip_by_def l)
qed

lemma remove_comment_canon:
  assumes "strip l = l" "l \<noteq> []" "hd l \<noteq> CHR ''#''" "no_cc l" "newline \<notin> set l"
  shows "strip (remove_comment l) = remove_comment l \<and> remove_comment l \<noteq> [] \<and> hd (remove_comment l) = hd l
    \<and> no_cc (remove_comment l) \<and> newline \<notin> set (remove_comment l) \<and> CHR ''#'' \<notin> set (remove_comment l)"
proof (cases "split_first (CHR ''#'') l")
  case None
  then have "remove_comment l = l" "CHR ''#'' \<notin> set l" by (simp_all add: remove_comment_def flip: split_first_None)
  then show ?thesis using assms by simp
next
  case (Some p)
  then obtain a b where p: "split_first (CHR ''#'') l = Some (a, b)" by (cases p) auto
  then have l: "l = a @ CHR ''#'' # b" "CHR ''#'' \<notin> set a" by (auto simp: split_first_Some)
  have a: "a \<noteq> []" "hd a = hd l" using l assms(3) by (cases a; simp)+
  have "\<not> is_space (hd l)" using stripped_strip_by [of is_space l] assms(1,2) by (simp add: stripped_def)
  then have "strip a \<noteq> [] \<and> hd (strip a) = hd a" using a by (intro strip_nonempty) auto
  moreover have "no_cc a" using assms(4) unfolding l(1) no_cc_append by simp
  moreover have "newline \<notin> set (strip a)" "CHR ''#'' \<notin> set (strip a)"
    using set_strip_by [of is_space a] l assms(5) by auto
  moreover have "remove_comment l = strip a" by (simp add: remove_comment_def p)
  ultimately show ?thesis using a(2) by (simp add: no_cc_strip)
qed

lemma int_str_small: "0 \<le> n \<Longrightarrow> n < 1000 \<Longrightarrow> length (int_str n) \<le> 3"
  by (subst int_str_def, subst nat_str.simps, subst nat_str.simps, subst nat_str.simps) auto

lemma numbered_line_canon:
  assumes x: "strip x = x" "x \<noteq> []" "no_cc x" "newline \<notin> set x" "CHR ''#'' \<notin> set x" and n: "0 \<le> n" "n < 1000"
  shows "canon_line (pad_right 2 (int_str n) @ '': '' @ x)"
proof -
  define p where "p = pad_right 2 (int_str n)"
  obtain d ds where d: "int_str n = d # ds" "is_digit d" "\<forall>c\<in>set ds. is_digit c"
    using nat_str_digits [OF n(1)] nat_str_ne [of n] n(1) by (cases "nat_str n") (auto simp: int_str_def list_all_iff)
  have p: "p = d # ds @ replicate (1 - length ds) (CHR '' '')" by (simp add: p_def pad_right_def d(1))
  have len: "length p < 4" using int_str_small [OF n] by (simp add: p d(1))
  have ds: "\<forall>c\<in>set p. is_digit c \<or> c = CHR '' ''" using d p by auto
  have nc: "c \<noteq> CHR '':'' \<and> c \<noteq> newline \<and> c \<noteq> CHR ''#'' \<and> c \<noteq> CHR ''@''" if "is_digit c \<or> c = CHR '' ''" for c
    using that by (auto simp: is_digit_def ccode_def newline_def)
  have no: "CHR '':'' \<notin> set p" "newline \<notin> set p" "CHR ''#'' \<notin> set p" using ds nc by blast+
  have "no_cc q" if "CHR '':'' \<notin> set q" for q
    using that by (induction q) (auto simp: no_cc_def successively_Cons)
  from this [OF no(1)] have cc: "no_cc (p @ '': '' @ x)"
    using assms(3) no(1) by (subst no_cc_append, subst no_cc_append)
      (auto simp: no_cc_def dest: last_in_set)
  have "stripped is_space x" using stripped_strip_by [of is_space x] x(1) by simp
  moreover have "\<not> is_space d" using d(2) ccode_cmp_space(3) by simp
  ultimately have "strip (p @ '': '' @ x) = p @ '': '' @ x"
    using x(2) by (intro strip_by_id) (auto simp: stripped_def p)
  moreover have "CHR '':'' \<in> set (take 4 (p @ '': '' @ x))" using len by (cases "4 - length p") auto
  moreover have "\<not> starts_with ''@'' (p @ '': '' @ x)" using nc [of d] d(2) by (auto simp: p)
  moreover have "newline \<notin> set '': ''" "CHR ''#'' \<notin> set '': ''" by (simp_all add: newline_def)
  ultimately show ?thesis unfolding canon_line_def p_def [symmetric] using cc no x by simp
qed

definition rew_inv :: "nat \<Rightarrow> rewst \<Rightarrow> bool" where
  \<comment> \<open>at most \<open>n\<close> numbers are taken, the output is in canonical form\<close>
  "rew_inv n st = ((\<exists>ls. rw_out st = unlines ls \<and> list_all canon_line ls)
     \<and> (case rw_url st of None \<Rightarrow> True | Some u \<Rightarrow> clean_url u) \<and> 0 \<le> rw_nr st \<and> rw_nr st \<le> int n)"

lemma rew_inv_out:
  assumes "rew_inv n st" "canon_line l" "rw_url st' = rw_url st" "rw_out st' = rw_out st @ l @ [newline]"
    "rw_nr st' = rw_nr st \<or> rw_nr st' = rw_nr st + 1"
  shows "rew_inv (Suc n) st'"
proof -
  obtain ls where "rw_out st = unlines ls" "list_all canon_line ls" using assms(1) by (auto simp: rew_inv_def)
  then have "rw_out st' = unlines (ls @ [l]) \<and> list_all canon_line (ls @ [l])" using assms(2,4) by simp
  then have "\<exists>ls. rw_out st' = unlines ls \<and> list_all canon_line ls" by blast
  then show ?thesis using assms(1,3,5) unfolding rew_inv_def by auto
qed

lemma rewrite_line_inv:
  assumes "rewrite_line st l0 = Inr st'" "rew_inv n st" "plain_line l0" "newline \<notin> set l0" "n < 1000"
  shows "rew_inv (Suc n) st'"
proof -
  define l where "l = strip l0"
  have sl: "strip l = l" "no_cc l" "newline \<notin> set l"
    using assms(3,4) set_strip_by [of is_space l0] by (auto simp: l_def plain_line_def)
  have keep: "rew_inv (Suc n) st" using assms(2) by (auto simp: rew_inv_def)
  note step = assms(1) [unfolded rewrite_line_def Let_def l_def [symmetric] replace_cc [OF sl(2)]]
  show ?thesis
  proof (cases "starts_with ''@url'' l")
    case True
    with step keep have "st' = st \<or> (\<exists>a b. split_first (CHR ''='') l = Some (a, b) \<and> st' = st\<lparr>rw_url := Some (strip b)\<rparr>)"
      by (auto simp: split1_def rbind_eq_Inr split: option.splits if_splits)
    then consider "st' = st" | a b where "split_first (CHR ''='') l = Some (a, b)" "st' = st\<lparr>rw_url := Some (strip b)\<rparr>"
      by blast
    then show ?thesis
    proof cases
      case 1
      then show ?thesis using keep by simp
    next
      case 2
      then have b: "l = a @ CHR ''='' # b" by (simp add: split_first_Some)
      then have "no_cc b" "newline \<notin> set b"
        using sl(2,3) no_cc_Cons by (auto simp: no_cc_append)
      then have "clean_url (strip b)"
        using set_strip_by [of is_space b] by (auto simp: clean_url_def no_cc_strip)
      then show ?thesis using keep by (simp add: 2 rew_inv_def)
    qed
  next
    case False
    note step = step [unfolded if_not_P [OF False]]
    show ?thesis
    proof (cases "starts_with ''@'' l")
      case True
      then have "canon_line l" using sl False by (auto simp: canon_line_def starts_with_iff)
      from rew_inv_out [OF assms(2) this] show ?thesis using step True by auto
    next
      case at: False
      show ?thesis
      proof (cases "l = [] \<or> starts_with ''#'' l")
        case True
        then show ?thesis using step at sl(1) keep by (auto split: if_splits)
      next
        case False
        then have ne: "l \<noteq> []" "hd l \<noteq> CHR ''#''" by (auto simp: starts_with_single)
        note rc = remove_comment_canon [OF sl(1) ne sl(2,3)]
        have at': "\<not> starts_with ''@'' (remove_comment l)"
          using rc at ne by (simp add: starts_with_single)
        show ?thesis
        proof (cases "CHR '':'' \<in> set (take 4 l)")
          case True
          then have "canon_line (remove_comment l)"
            using rc at' assms(3) False by (auto simp: canon_line_def plain_line_def l_def [symmetric])
          from rew_inv_out [OF assms(2) this] show ?thesis
            using step at True False sl(1) by auto
        next
          case colon: False
          have "canon_line (pad_right 2 (int_str (rw_nr st)) @ '': '' @ remove_comment l)"
            using rc assms(2,5) by (intro numbered_line_canon) (auto simp: rew_inv_def)
          from rew_inv_out [OF assms(2) this] show ?thesis using step at colon False sl(1)
            by (auto simp: rbind_eq_Inr split: if_splits)
        qed
      qed
    qed
  qed
qed

lemma rewrite_lines_inv:
  assumes "rfold rewrite_line st ls = Inr st'" "rew_inv n st" "list_all (\<lambda>l. plain_line l \<and> newline \<notin> set l) ls"
    "n + length ls \<le> 1000"
  shows "rew_inv (n + length ls) st'"
  using assms
proof (induction ls arbitrary: st n)
  case Nil
  then show ?case by simp
next
  case (Cons l ls)
  from Cons.prems(1) obtain s where s: "rewrite_line st l = Inr s" "rfold rewrite_line s ls = Inr st'"
    by (auto simp: rbind_eq_Inr)
  have "rew_inv (Suc n) s"
    using Cons.prems by (intro rewrite_line_inv [OF s(1)]) auto
  from Cons.IH [OF s(2) this] Cons.prems(3,4) show ?case by simp
qed

text \<open>C12: Rewriting a schema text gives a text that rewriting leaves as it is, so a schema read back from its stored
  text has the md5 it is stored under. This holds for texts of at most 1000 lines whose lines have no double colons and no
  number behind the comment sign, with the url taken from the text or given without white space around it.\<close>

theorem rewrite_idempotent:
  assumes "schema_text_rewrite url t = Inr r" "list_all plain_line (lines (text_strip False t))"
    "length (lines (text_strip False t)) \<le> 1000" "case url of None \<Rightarrow> True | Some u \<Rightarrow> clean_url u"
  shows "schema_text_rewrite None r = Inr r"
proof -
  let ?ls = "lines (text_strip False t)"
  have "list_all (\<lambda>l. plain_line l \<and> newline \<notin> set l) ?ls"
    using assms(2) split_char_parts [of _ "CHR ''\<newline>''"] by (auto simp: list_all_iff newline_def)
  moreover have "rew_inv 0 \<lparr>rw_url = url, rw_found = False, rw_nr = 0, rw_out = []\<rparr>"
    using assms(4) by (auto simp: rew_inv_def intro: exI [of _ "[]"])
  ultimately obtain st where st: "rew_inv (length ?ls) st"
    "(case rw_url st of None \<Rightarrow> Inl P_AssertionError
      | Some u \<Rightarrow> rbind (py_assert (5 < length u)) (\<lambda>_. Inr (''@url = '' @ u @ [newline] @ strip (rw_out st) @ [newline]))) = Inr r"
    using assms(1,3) rewrite_lines_inv [of _ ?ls _ 0] unfolding schema_text_rewrite_def rbind_eq_Inr
    by (metis (no_types, lifting) add_0)
  then obtain u where u: "rw_url st = Some u" "5 < length u" "r = ''@url = '' @ u @ [newline] @ strip (rw_out st) @ [newline]"
    by (auto simp: py_assert_def split: option.splits if_splits)
  obtain ls where ls: "rw_out st = unlines ls" "list_all canon_line ls" using st(1) by (auto simp: rew_inv_def)
  have "clean_url u" using st(1) u(1) by (simp add: rew_inv_def)
  from rewrite_canonical_text [OF ls(2) this u(2)] show ?thesis unfolding u(3) ls(1) .
qed

definition sample_text :: string where
  "sample_text = unlines [''@url = proj.todo.1'', ''# the list'', ''title** = (S)  # shown'', ''&code = 5 (I)'']"

theorem rewrite_idempotent_witness:
  "\<exists>r. schema_text_rewrite None sample_text = Inr r \<and> schema_text_rewrite None r = Inr r
     \<and> r = unlines [''@url = proj.todo.1'', ''0 : title** = (S)'', ''1 : &code = 5 (I)'']"
proof -
  have a: "schema_text_rewrite None sample_text = Inr (unlines [''@url = proj.todo.1'', ''0 : title** = (S)'', ''1 : &code = 5 (I)''])"
    by code_simp
  have b: "list_all plain_line (lines (text_strip False sample_text))" by code_simp
  have c: "length (lines (text_strip False sample_text)) \<le> 1000" by code_simp
  from rewrite_idempotent [OF a b c] a show ?thesis by simp
qed

text \<open>
  The md5 forgets spaces, also those inside texts: two schemas that differ in a default value only by a space have the
  same md5 whatever the hash function.
\<close>

lemma md5_blind_to_spaces:
  "schema_md5 md5 False False (a @ CHR '' '' # b) = schema_md5 md5 False False (a @ b)"
  by (simp add: schema_md5_def remove_char_def)

text \<open>A second schema property made for the property of an embedded object is never unique.\<close>

lemma sub_prop_not_unique: "sub_prop q r = Inr p \<Longrightarrow> \<not> p_unique p \<and> p_comment p = [] \<and> p_index p = p_index r"
  by (auto simp: sub_prop_def prop_init_def split: if_splits)

text \<open>Of the properties an index table is made for, those that come from the schema of an embedded object have lost
  their unique mark: every unique property in the list is a property of the schema itself.\<close>

theorem index_sql_subprops_not_unique:
  assumes "properties_index_sql n sub s = Inr ps" "p \<in> set ps" "p_unique p"
  shows "p \<in> set (properties s) \<and> p_index p"
proof (cases n)
  case 0
  then show ?thesis using assms(1) by simp
next
  case (Suc m)
  from assms(1) obtain pss where pss: "rmap (\<lambda>p. if p_index p then Inr [p]
     else (case p_type p of
        Some t \<Rightarrow> if is_jsxobject t then
            (case sub t of None \<Rightarrow> Inl E_Input
             | Some s' \<Rightarrow> rbind (properties_index_sql m sub s') (\<lambda>ps.
                 rmap (sub_prop p) ps))
          else Inr []
      | None \<Rightarrow> Inr [])) (properties s) = Inr pss" "ps = concat pss"
    unfolding Suc properties_index_sql.simps(2) rbind_eq_Inr by auto
  from assms(2) pss(2) obtain l where l: "l \<in> set pss" "p \<in> set l" by auto
  from rmap_Inr_elem [OF pss(1) l(1)] obtain q where q: "q \<in> set (properties s)"
    "(if p_index q then Inr [q]
     else (case p_type q of
        Some t \<Rightarrow> if is_jsxobject t then
            (case sub t of None \<Rightarrow> Inl E_Input
             | Some s' \<Rightarrow> rbind (properties_index_sql m sub s') (\<lambda>ps.
                 rmap (sub_prop q) ps))
          else Inr []
      | None \<Rightarrow> Inr [])) = Inr l" by blast
  show ?thesis
  proof (cases "p_index q")
    case True
    then show ?thesis using q l(2) by auto
  next
    case False
    with q(2) l(2) obtain qs where "rmap (sub_prop q) qs = Inr l"
      by (auto simp: rbind_eq_Inr split: option.splits if_splits)
    from rmap_Inr_elem [OF this l(2)] sub_prop_not_unique assms(3) show ?thesis by blast
  qed
qed

definition sample_schema :: "bool \<Rightarrow> schema" where
  \<comment> \<open>the schema of an object with a unique code, or of one that has such an object as its property \<open>o\<close>\<close>
  "sample_schema inner = \<lparr>s_text = [], s_url = ''proj.x.1'', s_md5 = ''m'',
     s_props = (if inner then [(''code'', \<lparr>p_nr = 0, p_name = ''code'', p_attr = [], p_type = Some (plain_type KString), p_comment = [],
                                  p_index = True, p_index_text = False, p_unique = True\<rparr>)]
                else [(''o'', \<lparr>p_nr = 0, p_name = ''o'', p_attr = [], p_type = Some (plain_type KJSXObject), p_comment = [],
                                  p_index = False, p_index_text = False, p_unique = False\<rparr>)]), s_system = []\<rparr>"

theorem index_sql_subprops_not_unique_witness:
  "\<exists>p. properties_index_sql 1 (\<lambda>_. None) (sample_schema True) = Inr [p] \<and> p_unique p \<and> p_index p
     \<and> map_sum id (map (\<lambda>q. (p_name q, p_attr q, p_unique q))) (properties_index_sql 2 (\<lambda>_. Some (sample_schema True)) (sample_schema False))
         = Inr [(''o__code'', ''o.code'', False)]"
proof -
  define p where "p = snd (hd (s_props (sample_schema True)))"
  have a: "properties_index_sql 1 (\<lambda>_. None) (sample_schema True) = Inr [p]" unfolding p_def by code_simp
  have b: "p_unique p" unfolding p_def by code_simp
  have c: "map_sum id (map (\<lambda>q. (p_name q, p_attr q, p_unique q))) (properties_index_sql 2 (\<lambda>_. Some (sample_schema True)) (sample_schema False))
         = Inr [(''o__code'', ''o.code'', False)]" by code_simp
  from index_sql_subprops_not_unique [OF a _ b] a b c show ?thesis by simp
qed

end
