(* ===== verification/Effects.thy ===== *)
theory Effects
  imports Prelude
begin

text \<open>
  Methods that change the state of an object and may raise: a computation maps a state to the state it leaves
  behind and its result. The state survives an exception, as the attributes of a Python object do. \<open>keeps I m\<close>
  says that \<open>m\<close> preserves the invariant \<open>I\<close> on every exit, \<open>ensures\<close> is total correctness for a normal exit.
\<close>

type_synonym ('s, 'a) eff = "'s \<Rightarrow> 's \<times> 'a res"

definition ereturn :: "'a \<Rightarrow> ('s, 'a) eff" where
  "ereturn x = (\<lambda>s. (s, Inr x))"

definition eraise :: "exn \<Rightarrow> ('s, 'a) eff" where
  "eraise e = (\<lambda>s. (s, Inl e))"

definition ebind :: "('s, 'a) eff \<Rightarrow> ('a \<Rightarrow> ('s, 'b) eff) \<Rightarrow> ('s, 'b) eff" where
  "ebind m k = (\<lambda>s. case m s of (s', r) \<Rightarrow> (case r of Inl e \<Rightarrow> (s', Inl e) | Inr x \<Rightarrow> k x s'))"

definition eget :: "('s \<Rightarrow> 'a) \<Rightarrow> ('s, 'a) eff" where
  "eget f = (\<lambda>s. (s, Inr (f s)))"

definition emod :: "('s \<Rightarrow> 's) \<Rightarrow> ('s, unit) eff" where
  "emod f = (\<lambda>s. (f s, Inr ()))"

definition elift :: "'a res \<Rightarrow> ('s, 'a) eff" where
  "elift r = (\<lambda>s. (s, r))"

definition eassert :: "bool \<Rightarrow> ('s, unit) eff" where
  "eassert b = elift (py_assert b)"

definition ecatch :: "('s, 'a) eff \<Rightarrow> (exn \<Rightarrow> ('s, 'a) eff) \<Rightarrow> ('s, 'a) eff" where
  "ecatch m h = (\<lambda>s. case m s of (s', r) \<Rightarrow> (case r of Inl e \<Rightarrow> h e s' | Inr x \<Rightarrow> (s', Inr x)))"

fun efor :: "'a list \<Rightarrow> ('a \<Rightarrow> ('s, unit) eff) \<Rightarrow> ('s, unit) eff" where
  "efor [] body = ereturn ()"
| "efor (x # xs) body = ebind (body x) (\<lambda>_. efor xs body)"

fun emap :: "('a \<Rightarrow> ('s, 'b) eff) \<Rightarrow> 'a list \<Rightarrow> ('s, 'b list) eff" where
  "emap f [] = ereturn []"
| "emap f (x # xs) = ebind (f x) (\<lambda>y. ebind (emap f xs) (\<lambda>ys. ereturn (y # ys)))"

named_theorems keeps_rules \<open>introduction rules for invariants of computations\<close>

lemma e_simps [simp]:
  "ereturn x s = (s, Inr x)" "eraise e s = (s, Inl e)" "eget f s = (s, Inr (f s))" "emod g s = (g s, Inr ())"
  "elift r s = (s, r)" "eassert b s = (s, py_assert b)"
  by (simp_all add: ereturn_def eraise_def eget_def emod_def elift_def eassert_def)

lemma ebind_app: "ebind m k s = (case m s of (s', r) \<Rightarrow> (case r of Inl e \<Rightarrow> (s', Inl e) | Inr x \<Rightarrow> k x s'))"
  by (simp add: ebind_def)

lemma ebind_simps [simp]:
  "ebind (ereturn x) k = k x" "ebind (eraise e) k = eraise e" "ebind (eget f) k s = k (f s) s"
  by (simp_all add: fun_eq_iff ebind_app)

lemma ebind_unit [simp]:
  "ebind (emod g) k s = k () (g s)" "ebind (eassert b) k s = (if b then k () s else (s, Inl P_AssertionError))"
  by (simp_all add: ebind_app py_assert_def)

lemma ebind_lift [simp]:
  "ebind (elift r) k s = (case r of Inl e \<Rightarrow> (s, Inl e) | Inr x \<Rightarrow> k x s)"
  by (simp add: ebind_app)

lemma ebind_assoc: "ebind (ebind m k) h = ebind m (\<lambda>x. ebind (k x) h)"
  by (rule ext) (simp add: ebind_app split: prod.split sum.split)

lemma ebind_eq_Inr: "ebind m k s = (t, Inr y) \<longleftrightarrow> (\<exists>s' x. m s = (s', Inr x) \<and> k x s' = (t, Inr y))"
  by (auto simp: ebind_app split: prod.splits sum.splits)

lemma ebind_cong [fundef_cong]:
  "m s = m' s \<Longrightarrow> (\<And>x s'. m' s = (s', Inr x) \<Longrightarrow> k x s' = k' x s') \<Longrightarrow> s = s0 \<Longrightarrow> ebind m k s = ebind m' k' s0"
  by (auto simp: ebind_app split: prod.splits sum.splits)

section \<open>Invariants\<close>

definition keeps :: "('s \<Rightarrow> bool) \<Rightarrow> ('s, 'a) eff \<Rightarrow> bool" where
  "keeps I m = (\<forall>s. I s \<longrightarrow> I (fst (m s)))"

lemma keepsD: "keeps I m \<Longrightarrow> I s \<Longrightarrow> m s = (s', r) \<Longrightarrow> I s'"
  by (metis fst_conv keeps_def)

lemma keepsI: "(\<And>s s' r. I s \<Longrightarrow> m s = (s', r) \<Longrightarrow> I s') \<Longrightarrow> keeps I m"
  by (metis keeps_def surjective_pairing)

lemma keeps_basic [keeps_rules, intro, simp]:
  "keeps I (ereturn x)" "keeps I (eraise e)" "keeps I (eget f)" "keeps I (elift r)" "keeps I (eassert b)"
  by (simp_all add: keeps_def)

lemma keeps_emod [keeps_rules]: "(\<And>s. I s \<Longrightarrow> I (g s)) \<Longrightarrow> keeps I (emod g)"
  by (simp add: keeps_def)

lemma keeps_ebind [keeps_rules]:
  assumes "keeps I m" "\<And>x. keeps I (k x)"
  shows "keeps I (ebind m k)"
proof (rule keepsI)
  fix s s' r
  assume s: "I s" "ebind m k s = (s', r)"
  obtain s1 r1 where m: "m s = (s1, r1)" by (cases "m s")
  have s1: "I s1" by (rule keepsD [OF assms(1) s(1) m])
  show "I s'"
  proof (cases r1)
    case (Inl e)
    then show ?thesis using s(2) m s1 by (simp add: ebind_app)
  next
    case (Inr x)
    then have "k x s1 = (s', r)" using s(2) m by (simp add: ebind_app)
    then show ?thesis by (rule keepsD [OF assms(2) s1])
  qed
qed

lemma keeps_if [keeps_rules]: "(b \<Longrightarrow> keeps I m) \<Longrightarrow> (\<not> b \<Longrightarrow> keeps I m') \<Longrightarrow> keeps I (if b then m else m')"
  by simp

lemma keeps_option [keeps_rules]:
  "(z = None \<Longrightarrow> keeps I m) \<Longrightarrow> (\<And>x. z = Some x \<Longrightarrow> keeps I (k x)) \<Longrightarrow> keeps I (case z of None \<Rightarrow> m | Some x \<Rightarrow> k x)"
  by (cases z) auto

lemma keeps_prod [keeps_rules]: "(\<And>x y. z = (x, y) \<Longrightarrow> keeps I (k x y)) \<Longrightarrow> keeps I (case z of (x, y) \<Rightarrow> k x y)"
  by (cases z) auto

lemma keeps_efor [keeps_rules]: "(\<And>x. x \<in> set xs \<Longrightarrow> keeps I (body x)) \<Longrightarrow> keeps I (efor xs body)"
  by (induction xs) (auto intro: keeps_ebind)

lemma keeps_emap [keeps_rules]: "(\<And>x. x \<in> set xs \<Longrightarrow> keeps I (f x)) \<Longrightarrow> keeps I (emap f xs)"
  by (induction xs) (auto intro!: keeps_ebind)

lemma keeps_ecatch [keeps_rules]: "keeps I m \<Longrightarrow> (\<And>e. keeps I (h e)) \<Longrightarrow> keeps I (ecatch m h)"
  unfolding keeps_def ecatch_def
  by (auto split: prod.split sum.split)

lemma keeps_conj: "keeps I m \<Longrightarrow> keeps J m \<Longrightarrow> keeps (\<lambda>s. I s \<and> J s) m"
  by (simp add: keeps_def)

end
