(* ===== verification/SchemaMeta.thy ===== *)
theory SchemaMeta
  imports SchemaText Effects "HOL-Library.List_Lexorder" "HOL-Library.Char_ord"
begin

text \<open>
  The registry of schemas: \<^verbatim>\<open>data/schema/SchemaMeta.py\<close> remembers for every url its number and the md5s of its
  versions, oldest first, and for every md5 the text; \<^verbatim>\<open>data/schema/SchemaFactory.py\<close> keeps the schema objects in memory.
  The meta file is what \<open>enc\<close> (msgpack) makes of the dictionaries; an argument that is empty or None is an
  empty string here.
\<close>

section \<open>SchemaMeta\<close>

record urldata =
  u_sid :: int
  u_md5s :: "string list"

record md5data =
  d_text :: string
  d_epoch :: int
  d_url :: string

record 'f smeta =
  m_url :: "(string \<times> urldata) list"
  m_md5 :: "(string \<times> md5data) list"
  m_file :: "'f option"
  m_backup :: "(string \<times> string \<times> string \<times> int) list"

type_synonym meta_data = "(string \<times> urldata) list \<times> (string \<times> md5data) list"

definition meta_save :: "(meta_data \<Rightarrow> 'f) \<Rightarrow> 'f smeta \<Rightarrow> 'f smeta" where
  "meta_save enc m = m\<lparr>m_file := Some (enc (m_url m, m_md5 m))\<rparr>"

definition meta_load :: "(meta_data \<Rightarrow> 'f) \<Rightarrow> ('f \<Rightarrow> meta_data) \<Rightarrow> 'f smeta \<Rightarrow> 'f smeta" where
  "meta_load enc dec m = meta_save enc (case m_file m of
     Some f \<Rightarrow> m\<lparr>m_url := fst (dec f), m_md5 := snd (dec f)\<rparr> | None \<Rightarrow> m\<lparr>m_url := [], m_md5 := []\<rparr>)"

definition meta_reset :: "(meta_data \<Rightarrow> 'f) \<Rightarrow> ('f \<Rightarrow> meta_data) \<Rightarrow> 'f smeta \<Rightarrow> 'f smeta" where
  "meta_reset enc dec m = meta_load enc dec (m\<lparr>m_file := None\<rparr>)"

definition meta_exists :: "'f smeta \<Rightarrow> string \<Rightarrow> string \<Rightarrow> bool" where
  "meta_exists m md5 url = (if md5 \<noteq> [] then d_has (m_md5 m) md5 else if url \<noteq> [] then d_has (m_url m) url else False)"

definition schema_urls :: "'f smeta \<Rightarrow> string list" where
  "schema_urls m = d_keys (m_url m)"

definition find_sid :: "'f smeta \<Rightarrow> int" where
  "find_sid m = foldl (\<lambda>hi (url, ud). if hi < u_sid ud then u_sid ud else hi) 0 (m_url m) + 1"

definition schema_define :: "(meta_data \<Rightarrow> 'f) \<Rightarrow> string \<Rightarrow> 'f smeta \<Rightarrow> 'f smeta" where
  "schema_define enc url m = (if d_has (m_url m) url then m
     else meta_save enc (m\<lparr>m_url := d_set (m_url m) url \<lparr>u_sid = find_sid m, u_md5s = []\<rparr>\<rparr>))"

definition data_md5_get :: "'f smeta \<Rightarrow> string \<Rightarrow> md5data res" where
  \<comment> \<open>for a url that is known\<close>
  "data_md5_get m url = (case d_get (m_url m) url of
     None \<Rightarrow> Inl E_Input
   | Some ud \<Rightarrow> if u_md5s ud = [] then Inl E_Input
       else (case d_get (m_md5 m) (last (u_md5s ud)) of None \<Rightarrow> Inl E_Input | Some d \<Rightarrow> Inr d))"

definition data_url_get :: "(meta_data \<Rightarrow> 'f) \<Rightarrow> string \<Rightarrow> ('f smeta, urldata) eff" where
  "data_url_get enc url = ebind (emod (schema_define enc url)) (\<lambda>_. ebind (eget (\<lambda>m. d_get (m_url m) url)) (\<lambda>ud.
     case ud of None \<Rightarrow> eraise P_KeyError | Some ud \<Rightarrow> ereturn ud))"

definition meta_schema_get :: "'f smeta \<Rightarrow> string \<Rightarrow> string \<Rightarrow> md5data res" where
  "meta_schema_get m md5 url =
    (if md5 \<noteq> [] then (case d_get (m_md5 m) md5 of Some d \<Rightarrow> Inr d | None \<Rightarrow> Inl E_Input)
     else if url \<noteq> [] \<and> d_has (m_url m) url then data_md5_get m url
     else Inl E_Input)"

definition newest_md5s :: "bool \<Rightarrow> string \<Rightarrow> string list \<Rightarrow> bool \<times> string list" where
  \<comment> \<open>the versions of a url once the version \<open>md5\<close> is registered, and whether that counts as a change\<close>
  "newest_md5s newest md5 md5s =
    (if md5 \<in> set md5s then
       (if newest \<and> md5 \<noteq> last md5s then (True, remove1 md5 md5s @ [md5]) else (False, md5s))
     else if newest then (True, md5s @ [md5])
     else (False, md5 # md5s))"

definition schema_backup :: "int \<Rightarrow> schema \<Rightarrow> 'f smeta \<Rightarrow> 'f smeta" where
  "schema_backup now s m = m\<lparr>m_backup := m_backup m @ [(s_url s, s_md5 s, s_text s, now)]\<rparr>"

definition schema_set :: "(meta_data \<Rightarrow> 'f) \<Rightarrow> int \<Rightarrow> schema \<Rightarrow> bool \<Rightarrow> bool \<Rightarrow> ('f smeta, unit) eff" where
  \<comment> \<open>the versions of the url are changed before the conflict of two urls with one md5 is noticed\<close>
  "schema_set enc now s save newest =
     ebind (emod (schema_define enc (s_url s))) (\<lambda>_.
     ebind (eget (\<lambda>m. d_get (m_url m) (s_url s))) (\<lambda>ud.
       case ud of None \<Rightarrow> eraise P_AssertionError
       | Some ud \<Rightarrow>
         (case newest_md5s newest (s_md5 s) (u_md5s ud) of (change, md5s) \<Rightarrow>
           ebind (emod (\<lambda>m. m\<lparr>m_url := d_set (m_url m) (s_url s) (ud\<lparr>u_md5s := md5s\<rparr>)\<rparr>)) (\<lambda>_.
           ebind (eget (\<lambda>m. d_get (m_md5 m) (s_md5 s))) (\<lambda>d.
             case d of
               None \<Rightarrow>
                 ebind (emod (\<lambda>m. m\<lparr>m_md5 := d_set (m_md5 m) (s_md5 s) \<lparr>d_text = s_text s, d_epoch = now, d_url = s_url s\<rparr>\<rparr>)) (\<lambda>_.
                   if save then emod (\<lambda>m. meta_save enc (schema_backup now s m)) else ereturn ())
             | Some d \<Rightarrow> if d_url d \<noteq> s_url s then eraise E_Input
                 else if change \<and> save then emod (\<lambda>m. meta_save enc (schema_backup now s m)) else ereturn ())))))"

definition sid_from_url :: "'f smeta \<Rightarrow> string \<Rightarrow> string res" where
  \<comment> \<open>\<^verbatim>\<open>sid, md5s = self._data["url"][url]\<close> takes a dictionary apart: what it gets is its keys\<close>
  "sid_from_url m url = (if d_has (m_url m) url then Inr ''sid'' else Inl E_Input)"

definition meta_schema_delete :: "string \<Rightarrow> 'f smeta \<Rightarrow> 'f smeta" where
  "meta_schema_delete md5 m = (if d_has (m_md5 m) md5 then m\<lparr>m_md5 := d_pop (m_md5 m) md5\<rparr> else m)"

definition url_dicts :: "'f smeta \<Rightarrow> string \<Rightarrow> (md5data \<times> string \<times> int) list res" where
  "url_dicts m url = (case d_get (m_url m) url of None \<Rightarrow> Inl P_KeyError
     | Some ud \<Rightarrow> rmap (\<lambda>md5. case d_get (m_md5 m) md5 of None \<Rightarrow> Inl P_KeyError | Some d \<Rightarrow> Inr (d, md5, u_sid ud)) (u_md5s ud))"

definition schema_dicts :: "'f smeta \<Rightarrow> (md5data \<times> string \<times> int) list res" where
  \<comment> \<open>all versions, with md5 and number: the urls sorted, each from oldest to newest\<close>
  "schema_dicts m = rbind (rmap (url_dicts m) (sort (schema_urls m))) (\<lambda>l. Inr (concat l))"

section \<open>SchemaFactory\<close>

record 'f sfactory =
  f_meta :: "'f smeta"
  f_md5 :: "(string \<times> schema) list"
  f_loaded :: "(string \<times> schema) list"
  f_types :: tycache

record 'f senv =
  v_md5 :: "string \<Rightarrow> string"
  v_clean :: "jstype \<Rightarrow> pyval \<Rightarrow> pyval res"
  v_enc :: "meta_data \<Rightarrow> 'f"

definition on_meta :: "('f smeta, 'a) eff \<Rightarrow> ('f sfactory, 'a) eff" where
  "on_meta m = (\<lambda>f. case m (f_meta f) of (m', r) \<Rightarrow> (f\<lparr>f_meta := m'\<rparr>, r))"

definition factory_reset :: "'f senv \<Rightarrow> ('f \<Rightarrow> meta_data) \<Rightarrow> 'f sfactory \<Rightarrow> 'f sfactory" where
  "factory_reset v dec f = f\<lparr>f_meta := meta_reset (v_enc v) dec (f_meta f), f_md5 := [], f_loaded := []\<rparr>"

definition factory_exists :: "'f sfactory \<Rightarrow> string \<Rightarrow> string \<Rightarrow> bool" where
  "factory_exists f md5 url = ((md5 \<noteq> [] \<and> d_has (f_md5 f) md5) \<or> (md5 = [] \<and> url \<noteq> [] \<and> d_has (f_loaded f) url)
     \<or> meta_exists (f_meta f) md5 url)"

definition schema_cache_remove :: "string \<Rightarrow> 'f sfactory \<Rightarrow> 'f sfactory" where
  "schema_cache_remove url f = (case d_get (f_loaded f) url of
     None \<Rightarrow> f
   | Some s \<Rightarrow> f\<lparr>f_loaded := d_pop (f_loaded f) url, f_md5 := d_pop (f_md5 f) (s_md5 s),
       f_meta := (f_meta f)\<lparr>m_url := d_pop (m_url (f_meta f)) url, m_md5 := d_pop (m_md5 (f_meta f)) (s_md5 s)\<rparr>\<rparr>)"

definition factory_delete :: "'f senv \<Rightarrow> string \<Rightarrow> 'f sfactory \<Rightarrow> 'f sfactory" where
  "factory_delete v url f = (let f' = schema_cache_remove url f in f'\<lparr>f_meta := meta_save (v_enc v) (f_meta f')\<rparr>)"

definition opt_of :: "string \<Rightarrow> string option" where
  "opt_of s = (if s = [] then None else Some s)"

definition new_schema :: "'f senv \<Rightarrow> string \<Rightarrow> string \<Rightarrow> string \<Rightarrow> ('f sfactory, schema) eff" where
  \<comment> \<open>\<^verbatim>\<open>Schema(text=text, url=url, md5=md5)\<close>\<close>
  "new_schema v text url md5 = (\<lambda>f. case schema_new (v_md5 v, v_clean v) (f_types f) text (opt_of url) md5 of
     Inl e \<Rightarrow> (f, Inl e) | Inr (c, s) \<Rightarrow> (f\<lparr>f_types := c\<rparr>, Inr s))"

definition get_from_text_single :: "'f senv \<Rightarrow> int \<Rightarrow> string \<Rightarrow> string \<Rightarrow> bool \<Rightarrow> bool \<Rightarrow> ('f sfactory, schema) eff" where
  "get_from_text_single v now text url newest save =
     ebind (elift (schema_text_rewrite (opt_of url) text)) (\<lambda>text'.
     ebind (elift (schema_md5 (v_md5 v) True False text')) (\<lambda>md5.
     ebind (eget (\<lambda>f. d_get (f_md5 f) md5)) (\<lambda>found.
     ebind (case found of
              Some s \<Rightarrow> ebind (eassert (url = [] \<or> s_url s = url)) (\<lambda>_. ereturn s)
            | None \<Rightarrow> new_schema v text' url md5) (\<lambda>s.
       if save then
         ebind (on_meta (schema_set (v_enc v) now s True newest)) (\<lambda>_.
         ebind (emod (\<lambda>f. if newest \<or> \<not> d_has (f_loaded f) (s_url s) then f\<lparr>f_loaded := d_set (f_loaded f) (s_url s) s\<rparr> else f)) (\<lambda>_.
         ebind (emod (\<lambda>f. if newest \<or> \<not> d_has (f_md5 f) (s_md5 s) then f\<lparr>f_md5 := d_set (f_md5 f) (s_md5 s) s\<rparr> else f)) (\<lambda>_.
         ereturn s)))
       else ereturn s))))"

definition block_url :: "string \<Rightarrow> string \<Rightarrow> string res" where
  "block_url url block = (let url_line = hd (lines block) in
     if str_in ''@url'' url_line then rbind (nth_part (CHR ''='') url_line 1) (\<lambda>u. Inr (strip u)) else Inr url)"

definition remember_block :: "'f senv \<Rightarrow> int \<Rightarrow> string \<Rightarrow> string \<Rightarrow> ('f sfactory, unit) eff" where
  "remember_block v now url block =
     ebind (elift (block_url url block)) (\<lambda>schema_url.
     ebind (eget (\<lambda>f. factory_exists f [] schema_url)) (\<lambda>known.
       if known then ereturn ()
       else ebind (elift (schema_text_rewrite (opt_of schema_url) block)) (\<lambda>rewritten.
         ebind (elift (schema_md5 (v_md5 v) False True rewritten)) (\<lambda>md5.
         ebind (new_schema v rewritten schema_url md5) (\<lambda>s.
           on_meta (schema_set (v_enc v) now s True False))))))"

definition get_from_text :: "'f senv \<Rightarrow> int \<Rightarrow> string \<Rightarrow> string \<Rightarrow> bool \<Rightarrow> bool \<Rightarrow> ('f sfactory, schema option) eff" where
  \<comment> \<open>the first schema of the text; only it takes the url of the call\<close>
  "get_from_text v now text url newest save = (let blocks = schema_blocks_get text in
     ebind (emap (\<lambda>(i, block). ebind (get_from_text_single v now block (if i = 0 then url else []) newest save) (\<lambda>s.
              ebind (efor blocks (remember_block v now url)) (\<lambda>_. ereturn s))) (enumerate 0 blocks)) (\<lambda>ss.
       ereturn (case ss of [] \<Rightarrow> None | s # _ \<Rightarrow> Some s)))"

definition get_from_md5 :: "'f senv \<Rightarrow> int \<Rightarrow> string \<Rightarrow> ('f sfactory, schema option) eff" where
  "get_from_md5 v now md5 =
     ebind (eget (\<lambda>f. d_get (f_md5 f) md5)) (\<lambda>found. case found of
       Some s \<Rightarrow> ereturn (Some s)
     | None \<Rightarrow> ebind (eget (\<lambda>f. meta_schema_get (f_meta f) md5 [])) (\<lambda>r. ebind (elift r) (\<lambda>d.
         ebind (get_from_text v now (d_text d) [] False True) (\<lambda>s.
         ebind (emod (\<lambda>f. case s of Some s' \<Rightarrow> if d_has (f_md5 f) md5 then f else f\<lparr>f_md5 := d_set (f_md5 f) md5 s'\<rparr> | None \<Rightarrow> f)) (\<lambda>_.
         eget (\<lambda>f. d_get (f_md5 f) md5))))))"

definition get_from_url :: "'f senv \<Rightarrow> int \<Rightarrow> string \<Rightarrow> bool \<Rightarrow> ('f sfactory, schema option) eff" where
  \<comment> \<open>\<^verbatim>\<open>die\<close>: False gives None for a url that is not known\<close>
  "get_from_url v now url0 die =
     ebind (eget (\<lambda>f. (d_get (f_loaded f) url0, factory_exists f [] url0))) (\<lambda>(found, known). case found of
       Some s \<Rightarrow> ereturn (Some s)
     | None \<Rightarrow> if \<not> die \<and> \<not> known then ereturn None
         else let url = url_clean_schema url0 in
           ebind (eget (\<lambda>f. d_has (f_loaded f) url)) (\<lambda>loaded.
           ebind (if loaded then ereturn ()
                  else ebind (eget (\<lambda>f. meta_exists (f_meta f) [] url)) (\<lambda>ex. if \<not> ex then eraise E_Input
                    else ebind (eget (\<lambda>f. meta_schema_get (f_meta f) [] url)) (\<lambda>r. ebind (elift r) (\<lambda>d.
                      ebind (get_from_text v now (d_text d) (d_url d) True True) (\<lambda>_. ereturn ()))))) (\<lambda>_.
           ebind (eget (\<lambda>f. d_get (f_loaded f) url)) (\<lambda>s. if s = None then eraise E_Base else ereturn s))))"

definition factory_get :: "'f senv \<Rightarrow> int \<Rightarrow> string \<Rightarrow> string \<Rightarrow> string \<Rightarrow> ('f sfactory, schema option) eff" where
  "factory_get v now md5 url text =
    (if md5 \<noteq> [] then get_from_md5 v now md5
     else if text \<noteq> [] then get_from_text v now text url True True
     else if url \<noteq> [] then get_from_url v now url True
     else eraise E_Input)"

section \<open>Invariant of the registry\<close>

definition meta_wf :: "'f smeta \<Rightarrow> bool" where
  \<comment> \<open>numbers identify urls, versions are listed once, and every listed version has its text under that url\<close>
  "meta_wf m = (distinct (d_keys (m_url m)) \<and> distinct (d_keys (m_md5 m))
     \<and> inj_on (\<lambda>(url, ud). u_sid ud) (set (m_url m)) \<and> (\<forall>(url, ud)\<in>set (m_url m). 0 < u_sid ud)
     \<and> (\<forall>url ud. d_get (m_url m) url = Some ud \<longrightarrow> distinct (u_md5s ud)
          \<and> (\<forall>md5\<in>set (u_md5s ud). \<exists>d. d_get (m_md5 m) md5 = Some d \<and> d_url d = url)))"

lemma find_sid_greater: "(url, ud) \<in> set (m_url m) \<Longrightarrow> u_sid ud < find_sid m"
proof -
  define step :: "int \<Rightarrow> string \<times> urldata \<Rightarrow> int" where "step = (\<lambda>hi (url, ud). if hi < u_sid ud then u_sid ud else hi)"
  have up: "hi \<le> step hi x" for hi x by (auto simp: step_def split: prod.split)
  have mono: "hi \<le> foldl step hi xs" for hi xs
    by (induction xs arbitrary: hi) (auto intro: order_trans [OF up])
  have "u_sid ud \<le> foldl step hi xs" if "(url, ud) \<in> set xs" for hi xs
    using that
  proof (induction xs arbitrary: hi)
    case Nil
    then show ?case by simp
  next
    case (Cons x xs)
    have "u_sid ud \<le> step hi (url, ud)" by (simp add: step_def)
    then show ?case using Cons mono [of "step hi (url, ud)" xs] by auto
  qed
  then show "(url, ud) \<in> set (m_url m) \<Longrightarrow> ?thesis" by (simp add: find_sid_def step_def)
qed

lemma find_sid_pos: "0 < find_sid m"
proof -
  have "0 \<le> foldl (\<lambda>hi (url :: string, ud :: urldata). if hi < u_sid ud then u_sid ud else hi) hi xs" if "0 \<le> hi" for hi xs
    using that by (induction xs arbitrary: hi) (auto split: prod.split)
  from this [of 0] show ?thesis by (simp add: find_sid_def)
qed

lemma set_d_set: "distinct (d_keys d) \<Longrightarrow> set (d_set d k v) = insert (k, v) {p \<in> set d. fst p \<noteq> k}"
  by (induction d k v rule: d_set.induct) (auto simp: d_keys_def image_iff)

lemma meta_save_simps [simp]:
  "m_url (meta_save enc m) = m_url m" "m_md5 (meta_save enc m) = m_md5 m" "m_backup (meta_save enc m) = m_backup m"
  "m_url (schema_backup now s m) = m_url m" "m_md5 (schema_backup now s m) = m_md5 m"
  by (simp_all add: meta_save_def schema_backup_def)

lemma schema_define_simps [simp]:
  "m_md5 (schema_define enc url m) = m_md5 m"
  "d_get (m_url (schema_define enc url m)) u = (case d_get (m_url m) u of Some ud \<Rightarrow> Some ud
     | None \<Rightarrow> if u = url then Some \<lparr>u_sid = find_sid m, u_md5s = []\<rparr> else None)"
  by (auto simp: schema_define_def split: option.splits)

lemma meta_wf_save [simp]: "meta_wf (meta_save enc m) = meta_wf m" "meta_wf (schema_backup now s m) = meta_wf m"
  by (simp_all add: meta_wf_def)

lemma meta_wf_define: "meta_wf m \<Longrightarrow> meta_wf (schema_define enc url m)"
proof (cases "d_has (m_url m) url")
  case True
  then show "meta_wf m \<Longrightarrow> ?thesis" by (simp add: schema_define_def)
next
  case False
  assume wf: "meta_wf m"
  let ?p = "(url, \<lparr>u_sid = find_sid m, u_md5s = []\<rparr>)"
  have k: "url \<notin> set (d_keys (m_url m))" using False by (simp add: d_get_None_iff)
  have s: "set (d_set (m_url m) url \<lparr>u_sid = find_sid m, u_md5s = []\<rparr>) = insert ?p (set (m_url m))"
    using wf k by (auto simp: meta_wf_def set_d_set d_keys_def)
  have "inj_on (\<lambda>(url, ud). u_sid ud) (insert ?p (set (m_url m)))"
    using wf find_sid_greater [of _ _ m] by (fastforce simp: meta_wf_def)
  with wf False show ?thesis
    by (auto simp: meta_wf_def schema_define_def s find_sid_pos distinct_d_set)
qed

lemma set_newest_md5s: "newest_md5s newest md5 md5s = (c, l) \<Longrightarrow> set l = insert md5 (set md5s)"
  using in_set_remove1 [of _ md5 md5s] by (fastforce simp: newest_md5s_def split: if_splits)

lemma distinct_newest_md5s: "newest_md5s newest md5 md5s = (c, l) \<Longrightarrow> distinct md5s \<Longrightarrow> distinct l"
  by (auto simp: newest_md5s_def split: if_splits)

lemma last_newest_md5s: "newest_md5s True md5 md5s = (c, l) \<Longrightarrow> last l = md5 \<and> l \<noteq> []"
  by (auto simp: newest_md5s_def split: if_splits)

text \<open>What a call that returns has done.\<close>

lemma schema_set_returns:
  assumes "schema_set enc now s save newest m = (m', Inr ())"
  shows "\<exists>ud c l. d_get (m_url (schema_define enc (s_url s) m)) (s_url s) = Some ud
    \<and> newest_md5s newest (s_md5 s) (u_md5s ud) = (c, l)
    \<and> m_url m' = d_set (m_url (schema_define enc (s_url s) m)) (s_url s) (ud\<lparr>u_md5s := l\<rparr>)
    \<and> (case d_get (m_md5 m) (s_md5 s) of
         None \<Rightarrow> m_md5 m' = d_set (m_md5 m) (s_md5 s) \<lparr>d_text = s_text s, d_epoch = now, d_url = s_url s\<rparr>
       | Some d \<Rightarrow> m_md5 m' = m_md5 m \<and> d_url d = s_url s)"
  using assms unfolding schema_set_def
  by (auto simp: ebind_eq_Inr split: option.splits prod.splits if_splits)

lemma replace_versions_inj:
  assumes "inj_on (\<lambda>(url, ud). u_sid ud) S" "(k, ud) \<in> S"
  shows "inj_on (\<lambda>(url, ud). u_sid ud) (insert (k, ud\<lparr>u_md5s := l\<rparr>) {p \<in> S. fst p \<noteq> k})"
proof (rule inj_onI, goal_cases)
  case (1 x y)
  obtain a p b q where xy: "x = (a, p)" "y = (b, q)" by (cases x, cases y) auto
  let ?old = "\<lambda>z. if fst z = k then (k, ud) else z"
  have old: "?old x \<in> S" "?old y \<in> S" using 1 assms(2) by auto
  have "(\<lambda>(url, ud). u_sid ud) (?old x) = (\<lambda>(url, ud). u_sid ud) (?old y)" using 1 xy by auto
  then have "?old x = ?old y" by (rule inj_onD [OF assms(1) _ old])
  then show ?case using 1 xy by (auto split: if_splits)
qed

lemma meta_wf_versions:
  assumes wf: "meta_wf m" and ud: "d_get (m_url m) k = Some ud"
    and m': "m_url m' = d_set (m_url m) k (ud\<lparr>u_md5s := l\<rparr>)" "distinct (d_keys (m_md5 m'))"
    and texts: "\<And>md5 d. d_get (m_md5 m) md5 = Some d \<Longrightarrow> d_get (m_md5 m') md5 = Some d"
    and l: "distinct l" "\<And>md5. md5 \<in> set l \<Longrightarrow> md5 \<in> set (u_md5s ud) \<or> (\<exists>d. d_get (m_md5 m') md5 = Some d \<and> d_url d = k)"
  shows "meta_wf m'"
proof -
  have mem: "set (m_url m') = insert (k, ud\<lparr>u_md5s := l\<rparr>) {p \<in> set (m_url m). fst p \<noteq> k}"
    unfolding m'(1) using wf by (intro set_d_set) (simp add: meta_wf_def)
  have ud_in: "(k, ud) \<in> set (m_url m)" by (rule d_get_Some_mem [OF ud])
  have inj: "inj_on (\<lambda>(url, ud). u_sid ud) (set (m_url m'))"
    unfolding mem using wf ud_in by (intro replace_versions_inj) (simp_all add: meta_wf_def)
  have pos: "\<forall>(url, ud)\<in>set (m_url m'). 0 < u_sid ud" unfolding mem using wf ud_in by (auto simp: meta_wf_def)
  have old: "distinct (u_md5s v) \<and> (\<forall>md5\<in>set (u_md5s v). \<exists>d. d_get (m_md5 m) md5 = Some d \<and> d_url d = url)"
    if "d_get (m_url m) url = Some v" for url v using wf that unfolding meta_wf_def by blast
  have lists: "distinct (u_md5s v) \<and> (\<forall>md5\<in>set (u_md5s v). \<exists>d. d_get (m_md5 m') md5 = Some d \<and> d_url d = url)"
    if "d_get (m_url m') url = Some v" for url v
  proof (cases "url = k")
    case True
    then have "u_md5s v = l" using that m'(1) by auto
    then show ?thesis using True l texts old [OF ud] by metis
  next
    case False
    then show ?thesis using that m'(1) texts old [of url v] by fastforce
  qed
  have "distinct (d_keys (m_url m'))" using wf m'(1) by (simp add: meta_wf_def distinct_d_set)
  then show ?thesis unfolding meta_wf_def using m'(2) inj pos lists by blast
qed

text \<open>C10: A call of schema_set that returns keeps the registry well formed: numbers still identify urls, no version is
  listed twice and every listed version has its text under the right url. The numbers of the urls known before and all stored
  texts stay as they were.\<close>

theorem schema_set_keeps_wf:
  assumes "schema_set enc now s save newest m = (m', Inr ())" "meta_wf m"
  shows "meta_wf m' \<and> (\<forall>url ud. d_get (m_url m) url = Some ud \<longrightarrow> (\<exists>ud'. d_get (m_url m') url = Some ud' \<and> u_sid ud' = u_sid ud))
    \<and> (\<forall>md5 d. d_get (m_md5 m) md5 = Some d \<longrightarrow> d_get (m_md5 m') md5 = Some d)"
proof -
  let ?m = "schema_define enc (s_url s) m"
  obtain ud c l where r: "d_get (m_url ?m) (s_url s) = Some ud" "newest_md5s newest (s_md5 s) (u_md5s ud) = (c, l)"
    "m_url m' = d_set (m_url ?m) (s_url s) (ud\<lparr>u_md5s := l\<rparr>)"
    "case d_get (m_md5 m) (s_md5 s) of
         None \<Rightarrow> m_md5 m' = d_set (m_md5 m) (s_md5 s) \<lparr>d_text = s_text s, d_epoch = now, d_url = s_url s\<rparr>
       | Some d \<Rightarrow> m_md5 m' = m_md5 m \<and> d_url d = s_url s"
    using schema_set_returns [OF assms(1)] by blast
  have wf: "meta_wf ?m" by (rule meta_wf_define [OF assms(2)])
  have keys: "distinct (d_keys (m_md5 m'))" using wf r(4) by (auto simp: meta_wf_def distinct_d_set split: option.splits)
  have texts: "d_get (m_md5 m') md5 = Some d" if "d_get (m_md5 m) md5 = Some d" for md5 d
    using that r(4) by (auto split: option.splits)
  have own: "\<exists>d. d_get (m_md5 m') (s_md5 s) = Some d \<and> d_url d = s_url s" using r(4) by (auto split: option.splits)
  have d: "distinct l" using distinct_newest_md5s [OF r(2)] wf r(1) unfolding meta_wf_def by blast
  have "meta_wf m'"
    by (rule meta_wf_versions [OF wf r(1,3) keys _ d]) (use texts own set_newest_md5s [OF r(2)] in auto)
  moreover have "\<exists>ud'. d_get (m_url m') url = Some ud' \<and> u_sid ud' = u_sid ud0" if "d_get (m_url m) url = Some ud0" for url ud0
    using that r(1,3) by (auto split: option.splits)
  ultimately show ?thesis using texts by blast
qed

definition sample_meta :: "string smeta" where
  "sample_meta = \<lparr>m_url = [(''a.b.1'', \<lparr>u_sid = 1, u_md5s = [''m1'']\<rparr>)],
     m_md5 = [(''m1'', \<lparr>d_text = ''t1'', d_epoch = 5, d_url = ''a.b.1''\<rparr>)], m_file = None, m_backup = []\<rparr>"

definition sample_version :: "string \<Rightarrow> string \<Rightarrow> schema" where
  "sample_version url md5 = \<lparr>s_text = ''t2'', s_url = url, s_md5 = md5, s_props = [], s_system = []\<rparr>"

lemma sample_meta_wf: "meta_wf sample_meta"
  by (simp add: meta_wf_def sample_meta_def)

theorem schema_set_keeps_wf_witness:
  "\<exists>m'. schema_set (\<lambda>_. []) 9 (sample_version ''c.d.1'' ''m2'') True True sample_meta = (m', Inr ())
     \<and> meta_wf m' \<and> map (\<lambda>(url, ud). (url, u_sid ud, u_md5s ud)) (m_url m') = [(''a.b.1'', 1, [''m1'']), (''c.d.1'', 2, [''m2''])]"
proof -
  obtain m' where a: "schema_set (\<lambda>_. []) 9 (sample_version ''c.d.1'' ''m2'') True True sample_meta = (m', Inr ())"
    and b: "map (\<lambda>(url, ud). (url, u_sid ud, u_md5s ud)) (m_url m') = [(''a.b.1'', 1, [''m1'']), (''c.d.1'', 2, [''m2''])]"
    by (simp add: schema_set_def sample_version_def sample_meta_def schema_define_def find_sid_def newest_md5s_def
        meta_save_def schema_backup_def)
  from schema_set_keeps_wf [OF a sample_meta_wf] a b show ?thesis by (intro exI [of _ m'] conjI) auto
qed

lemma data_md5_get_Some:
  "d_get (m_url m) url = Some ud \<Longrightarrow> u_md5s ud \<noteq> [] \<Longrightarrow> d_get (m_md5 m) (last (u_md5s ud)) = Some d \<Longrightarrow> data_md5_get m url = Inr d"
  by (simp add: data_md5_get_def)

text \<open>C11: After a call with newest that returns, asking the registry for the url gives the text stored for the md5 of
  that schema, and a schema whose md5 was not known is stored with its text. A call without newest never changes what a url
  with versions resolves to.\<close>

theorem schema_set_newest_resolves:
  assumes "schema_set enc now s save newest m = (m', Inr ())" "s_url s \<noteq> []"
    "newest \<or> (\<exists>ud. d_get (m_url m) (s_url s) = Some ud \<and> u_md5s ud \<noteq> [])" "meta_wf m"
  shows "meta_schema_get m' [] (s_url s) =
    (if newest then (case d_get (m_md5 m) (s_md5 s) of Some d \<Rightarrow> Inr d
       | None \<Rightarrow> Inr \<lparr>d_text = s_text s, d_epoch = now, d_url = s_url s\<rparr>)
     else meta_schema_get m [] (s_url s))"
proof -
  let ?m = "schema_define enc (s_url s) m"
  obtain ud c l where r: "d_get (m_url ?m) (s_url s) = Some ud" "newest_md5s newest (s_md5 s) (u_md5s ud) = (c, l)"
    "m_url m' = d_set (m_url ?m) (s_url s) (ud\<lparr>u_md5s := l\<rparr>)"
    "case d_get (m_md5 m) (s_md5 s) of
         None \<Rightarrow> m_md5 m' = d_set (m_md5 m) (s_md5 s) \<lparr>d_text = s_text s, d_epoch = now, d_url = s_url s\<rparr>
       | Some d \<Rightarrow> m_md5 m' = m_md5 m \<and> d_url d = s_url s"
    using schema_set_returns [OF assms(1)] by blast
  have url: "d_get (m_url m') (s_url s) = Some (ud\<lparr>u_md5s := l\<rparr>)" by (simp add: r(3))
  show ?thesis
  proof (cases newest)
    case True
    then have l: "last l = s_md5 s" "l \<noteq> []" using last_newest_md5s r(2) by auto
    show ?thesis using True assms(2) url l r(4)
      by (auto simp: meta_schema_get_def data_md5_get_def split: option.splits)
  next
    case False
    with assms(3) obtain ud0 where ud0: "d_get (m_url m) (s_url s) = Some ud0" "u_md5s ud0 \<noteq> []" by blast
    then have ud: "ud = ud0" using r(1) by simp
    have last: "last l = last (u_md5s ud0)" "l \<noteq> []"
      using r(2) ud0(2) False by (auto simp: ud newest_md5s_def split: if_splits)
    have "last (u_md5s ud0) \<in> set (u_md5s ud0)" using ud0(2) by simp
    then obtain d where d: "d_get (m_md5 m) (last (u_md5s ud0)) = Some d"
      using assms(4) ud0(1) unfolding meta_wf_def by blast
    then have "d_get (m_md5 m') (last l) = Some d" using r(4) last by (auto split: option.splits)
    then have "data_md5_get m' (s_url s) = Inr d" "data_md5_get m (s_url s) = Inr d"
      using data_md5_get_Some [OF url] data_md5_get_Some [OF ud0 d] last by simp_all
    then show ?thesis using False assms(2) url ud0 by (simp add: meta_schema_get_def)
  qed
qed

theorem schema_set_newest_resolves_witness:
  "\<exists>m'. schema_set (\<lambda>_. []) 9 (sample_version ''a.b.1'' ''m2'') True True sample_meta = (m', Inr ())
     \<and> meta_schema_get m' [] ''a.b.1'' = Inr \<lparr>d_text = ''t2'', d_epoch = 9, d_url = ''a.b.1''\<rparr>"
proof -
  obtain m' where a: "schema_set (\<lambda>_. []) 9 (sample_version ''a.b.1'' ''m2'') True True sample_meta = (m', Inr ())"
    by (simp add: schema_set_def sample_version_def sample_meta_def schema_define_def find_sid_def newest_md5s_def)
  have u: "s_url (sample_version ''a.b.1'' ''m2'') \<noteq> []" by (simp add: sample_version_def)
  from schema_set_newest_resolves [OF a u _ sample_meta_wf] a show ?thesis
    by (simp add: sample_version_def sample_meta_def)
qed

text \<open>When a schema is set as newest while its md5 is already stored for another url, the call raises, but only after
  the md5 was made the newest version of the new url: from then on that url resolves to the text of the other url.\<close>

theorem schema_set_conflict_leaks:
  assumes "d_get (m_md5 m) (s_md5 s) = Some d" "d_url d \<noteq> s_url s" "s_url s \<noteq> []"
  shows "\<exists>m'. schema_set enc now s save True m = (m', Inl E_Input) \<and> meta_schema_get m' [] (s_url s) = Inr d"
proof -
  obtain ud where ud: "d_get (m_url (schema_define enc (s_url s) m)) (s_url s) = Some ud"
    by (cases "d_get (m_url m) (s_url s)") auto
  obtain c l where l: "newest_md5s True (s_md5 s) (u_md5s ud) = (c, l)"
    by (cases "newest_md5s True (s_md5 s) (u_md5s ud)") auto
  show ?thesis
    using assms last_newest_md5s [OF l]
    by (simp add: schema_set_def ud l meta_schema_get_def data_md5_get_def del: schema_define_simps(2))
qed

theorem schema_set_conflict_leaks_witness:
  "\<exists>m'. schema_set (\<lambda>_. []) 9 (sample_version ''c.d.1'' ''m1'') True True sample_meta = (m', Inl E_Input)
     \<and> meta_schema_get m' [] ''c.d.1'' = Inr \<lparr>d_text = ''t1'', d_epoch = 5, d_url = ''a.b.1''\<rparr>"
proof -
  have "d_get (m_md5 sample_meta) (s_md5 (sample_version ''c.d.1'' ''m1'')) = Some \<lparr>d_text = ''t1'', d_epoch = 5, d_url = ''a.b.1''\<rparr>"
    by (simp add: sample_meta_def sample_version_def)
  from schema_set_conflict_leaks [OF this, of "\<lambda>_. []" 9 True] show ?thesis by (simp add: sample_version_def)
qed

lemma url_dicts_wf:
  assumes "meta_wf m" "d_get (m_url m) url = Some ud"
  shows "url_dicts m url = Inr (map (\<lambda>md5. (the (d_get (m_md5 m) md5), md5, u_sid ud)) (u_md5s ud))"
proof -
  have "\<exists>d. d_get (m_md5 m) md5 = Some d" if "md5 \<in> set (u_md5s ud)" for md5
    using assms that unfolding meta_wf_def by blast
  then show ?thesis unfolding url_dicts_def assms(2)
    by (simp, intro rmap_all) fastforce
qed

lemma url_dicts_url: "meta_wf m \<Longrightarrow> url_dicts m url = Inr l \<Longrightarrow> x \<in> set l \<Longrightarrow> d_url (fst x) = url"
proof -
  assume a: "meta_wf m" "url_dicts m url = Inr l" "x \<in> set l"
  then obtain ud where ud: "d_get (m_url m) url = Some ud" by (auto simp: url_dicts_def split: option.splits)
  with a obtain md5 where "md5 \<in> set (u_md5s ud)" "x = (the (d_get (m_md5 m) md5), md5, u_sid ud)"
    using url_dicts_wf [OF a(1) ud] by auto
  then show ?thesis using a(1) ud unfolding meta_wf_def by force
qed

text \<open>On a well-formed registry walking over all schemas never fails, gives every version of every url with its md5, number
  and text, and gives them ordered by url.\<close>

theorem schema_dicts_complete:
  assumes "meta_wf m"
  shows "\<exists>l. schema_dicts m = Inr l \<and> sorted (map (\<lambda>x. d_url (fst x)) l)
    \<and> (\<forall>d md5 sid. (d, md5, sid) \<in> set l \<longleftrightarrow>
        (\<exists>url ud. d_get (m_url m) url = Some ud \<and> md5 \<in> set (u_md5s ud) \<and> sid = u_sid ud \<and> d_get (m_md5 m) md5 = Some d))"
proof -
  let ?urls = "sort (schema_urls m)"
  define f where "f = (\<lambda>url. projr (url_dicts m url))"
  have known: "\<exists>ud. d_get (m_url m) url = Some ud" if "url \<in> set ?urls" for url
    using that d_get_None_iff [of "m_url m" url] by (cases "d_get (m_url m) url") (auto simp: schema_urls_def)
  have f: "url_dicts m url = Inr (f url)" if "url \<in> set ?urls" for url
    using url_dicts_wf [OF assms] known [OF that] by (auto simp: f_def)
  then have r: "schema_dicts m = Inr (concat (map f ?urls))"
    using rmap_all [of ?urls "url_dicts m" f] by (simp add: schema_dicts_def)
  have "sorted (map (\<lambda>x. d_url (fst x)) (concat (map f us)))" if "sorted us" "set us \<subseteq> set ?urls" for us
    using that
  proof (induction us)
    case Nil
    then show ?case by simp
  next
    case (Cons u us)
    have u: "d_url (fst x) = u" if "x \<in> set (f u)" for x
      using url_dicts_url [OF assms f that] Cons.prems by simp
    have us: "u \<le> d_url (fst x)" if "x \<in> set (concat (map f us))" for x
    proof -
      obtain w where w: "w \<in> set us" "x \<in> set (f w)" using \<open>x \<in> set (concat (map f us))\<close> by auto
      then have "d_url (fst x) = w" using url_dicts_url [OF assms f w(2)] Cons.prems by auto
      then show ?thesis using w(1) Cons.prems by simp
    qed
    have "map (\<lambda>x. d_url (fst x)) (f u) = replicate (length (f u)) u"
      using u by (simp add: map_replicate_const [symmetric])
    then show ?case using Cons us by (auto simp: sorted_append)
  qed
  from this [of ?urls] have "sorted (map (\<lambda>x. d_url (fst x)) (concat (map f ?urls)))" by simp
  moreover have "(d, md5, sid) \<in> set (concat (map f ?urls)) \<longleftrightarrow>
        (\<exists>url ud. d_get (m_url m) url = Some ud \<and> md5 \<in> set (u_md5s ud) \<and> sid = u_sid ud \<and> d_get (m_md5 m) md5 = Some d)"
    for d md5 sid
  proof -
    have mem: "url \<in> set ?urls" if "d_get (m_url m) url = Some ud" for url ud
      using that d_get_None_iff [of "m_url m" url] by (auto simp: schema_urls_def)
    have fu: "f url = map (\<lambda>md5. (the (d_get (m_md5 m) md5), md5, u_sid ud)) (u_md5s ud)" if "d_get (m_url m) url = Some ud" for url ud
      using url_dicts_wf [OF assms that] by (simp add: f_def)
    have tx: "\<exists>d. d_get (m_md5 m) md5 = Some d" if "d_get (m_url m) url = Some ud" "md5 \<in> set (u_md5s ud)" for url ud md5
      using assms that unfolding meta_wf_def by blast
    show ?thesis
    proof
      assume "(d, md5, sid) \<in> set (concat (map f ?urls))"
      then obtain url where u: "url \<in> set ?urls" "(d, md5, sid) \<in> set (f url)" by auto
      with known [OF u(1)] fu tx show "\<exists>url ud. d_get (m_url m) url = Some ud \<and> md5 \<in> set (u_md5s ud) \<and> sid = u_sid ud \<and> d_get (m_md5 m) md5 = Some d"
        by fastforce
    next
      assume "\<exists>url ud. d_get (m_url m) url = Some ud \<and> md5 \<in> set (u_md5s ud) \<and> sid = u_sid ud \<and> d_get (m_md5 m) md5 = Some d"
      then obtain url ud where u: "d_get (m_url m) url = Some ud" "md5 \<in> set (u_md5s ud)" "sid = u_sid ud" "d_get (m_md5 m) md5 = Some d" by blast
      then have "(d, md5, sid) \<in> set (f url)" using fu by force
      then show "(d, md5, sid) \<in> set (concat (map f ?urls))" using mem [OF u(1)] by auto
    qed
  qed
  ultimately show ?thesis using r by blast
qed

theorem schema_dicts_complete_witness:
  "\<exists>l. schema_dicts sample_meta = Inr l \<and> (\<lparr>d_text = ''t1'', d_epoch = 5, d_url = ''a.b.1''\<rparr>, ''m1'', 1) \<in> set l"
proof -
  from schema_dicts_complete [OF sample_meta_wf] obtain l where "schema_dicts sample_meta = Inr l"
    "\<forall>d md5 sid. (d, md5, sid) \<in> set l \<longleftrightarrow>
        (\<exists>url ud. d_get (m_url sample_meta) url = Some ud \<and> md5 \<in> set (u_md5s ud) \<and> sid = u_sid ud \<and> d_get (m_md5 sample_meta) md5 = Some d)"
    by blast
  then show ?thesis by (simp add: sample_meta_def) 
qed

section \<open>The objects in memory\<close>

definition factory_wf :: "'f sfactory \<Rightarrow> bool" where
  "factory_wf f = ((\<forall>url s. d_get (f_loaded f) url = Some s \<longrightarrow> s_url s = url)
     \<and> (\<forall>md5 s. d_get (f_md5 f) md5 = Some s \<longrightarrow> s_md5 s = md5))"

lemma keeps_on_meta [keeps_rules]: "keeps factory_wf (on_meta m)"
  by (auto simp: keeps_def on_meta_def factory_wf_def split: prod.split)

lemma keeps_new_schema [keeps_rules]: "keeps factory_wf (new_schema v text url md5)"
  by (auto simp: keeps_def new_schema_def factory_wf_def split: sum.split prod.split)

lemma keeps_single [keeps_rules]: "keeps factory_wf (get_from_text_single v now text url newest save)"
  unfolding get_from_text_single_def
  by (intro keeps_rules) (auto simp: factory_wf_def)

lemma keeps_remember [keeps_rules]: "keeps factory_wf (remember_block v now url block)"
  unfolding remember_block_def by (intro keeps_rules)

lemma keeps_from_text [keeps_rules]: "keeps factory_wf (get_from_text v now text url newest save)"
  unfolding get_from_text_def Let_def by (intro keeps_rules)

lemma keeps_from_url [keeps_rules]: "keeps factory_wf (get_from_url v now url die)"
  unfolding get_from_url_def Let_def
  by (intro keeps_rules)

text \<open>The schema objects kept in memory stay filed under their own url and md5 whatever text is read and whether
  reading it fails or not, and looking up a url, in any capitals, gives a schema of that url.\<close>

theorem factory_url_lookup:
  assumes "factory_wf f"
  shows "factory_wf (fst (get_from_text v now text url newest save f)) \<and> factory_wf (fst (get_from_url v now url die f))
    \<and> (\<forall>f' s. get_from_url v now url die f = (f', Inr (Some s)) \<longrightarrow> s_url s = url \<or> s_url s = url_clean_schema url)"
proof (intro conjI allI impI)
  show "factory_wf (fst (get_from_text v now text url newest save f))"
    using keeps_from_text assms unfolding keeps_def by blast
  show "factory_wf (fst (get_from_url v now url die f))"
    using keeps_from_url assms unfolding keeps_def by blast
  fix f' s
  assume r: "get_from_url v now url die f = (f', Inr (Some s))"
  then have wf: "factory_wf f'" using keepsD [OF keeps_from_url assms] by blast
  show "s_url s = url \<or> s_url s = url_clean_schema url"
  proof (cases "d_get (f_loaded f) url")
    case None
    then have "d_get (f_loaded f') (url_clean_schema url) = Some s"
      using r by (auto simp: get_from_url_def Let_def ebind_eq_Inr split: if_splits)
    then show ?thesis using wf by (simp add: factory_wf_def)
  next
    case (Some s0)
    then show ?thesis using r assms by (auto simp: get_from_url_def factory_wf_def)
  qed
qed

definition sample_env :: "unit senv" where
  "sample_env = \<lparr>v_md5 = (\<lambda>s. s), v_clean = (\<lambda>t v. Inr v), v_enc = (\<lambda>_. ())\<rparr>"

definition sample_factory :: "unit sfactory" where
  "sample_factory = \<lparr>f_meta = \<lparr>m_url = [], m_md5 = [], m_file = None, m_backup = []\<rparr>, f_md5 = [], f_loaded = [], f_types = []\<rparr>"

theorem factory_url_lookup_witness:
  "factory_wf (fst (get_from_url sample_env 1 ''a.b.1'' False sample_factory))
    \<and> snd (get_from_url sample_env 1 ''a.b.1'' False sample_factory) = Inr None"
proof -
  have "factory_wf sample_factory" by (simp add: factory_wf_def sample_factory_def)
  from factory_url_lookup [OF this, of sample_env 1 "[]" "''a.b.1''" True True False] show ?thesis
    by (simp add: get_from_url_def sample_factory_def factory_exists_def meta_exists_def)
qed

text \<open>Dropping a url from the caches leaves the texts of its older versions behind.\<close>

lemma cache_remove_keeps_old:
  assumes "d_get (f_loaded f) url = Some s" "md5 \<noteq> s_md5 s" "md5 \<noteq> []" "d_get (m_md5 (f_meta f)) md5 = Some d"
  shows "factory_exists (schema_cache_remove url f) md5 []"
  using assms by (simp add: schema_cache_remove_def factory_exists_def meta_exists_def)

end
