(* ===== verification/Stores.thy ===== *)
theory Stores
  imports RDB SqliteStore ZDB Effects
begin

text \<open>
  The storage client of a BCDB instance (\<^verbatim>\<open>data/bcdb/BCDB.py\<close>) is one of three classes; the constructor of \<^verbatim>\<open>BCDB\<close>
  refuses any other. The operations dispatch on the class as the method calls of the code do, and the three clients
  together meet the storage contract again.
\<close>

datatype ('a, 'b, 'c) store = SRdb "'a rdb" | SSql "'b sdb" | SZdb "'c zdb"

fun st_get :: "('a, 'b, 'c) store \<Rightarrow> int \<Rightarrow> bytes option res" where
  "st_get (SRdb c) k = Inr (rdb_get c k)"
| "st_get (SSql c) k = sdb_get c k"
| "st_get (SZdb c) k = zdb_get c k"

fun st_set :: "int \<Rightarrow> ('a, 'b, 'c) store \<Rightarrow> bytes \<Rightarrow> int option \<Rightarrow> (('a, 'b, 'c) store \<times> int option) res" where
  "st_set now (SRdb c) d k = rbind (rdb_set now c d k) (\<lambda>(c', r). Inr (SRdb c', r))"
| "st_set now (SSql c) d k = rbind (sdb_set c d k) (\<lambda>(c', r). Inr (SSql c', r))"
| "st_set now (SZdb c) d k = rbind (zdb_set c d k) (\<lambda>(c', r). Inr (SZdb c', r))"

fun st_delete :: "('a, 'b, 'c) store \<Rightarrow> int \<Rightarrow> ('a, 'b, 'c) store res" where
  "st_delete (SRdb c) k = rbind (rdb_delete c k) (\<lambda>c'. Inr (SRdb c'))"
| "st_delete (SSql c) k = Inr (SSql (sdb_delete c k))"
| "st_delete (SZdb c) k = rbind (zdb_delete c k) (\<lambda>c'. Inr (SZdb c'))"

fun st_iterate :: "('a, 'b, 'c) store \<Rightarrow> (int \<times> bytes option) list res option" where
  \<comment> \<open>\<^verbatim>\<open>iterate()\<close> without a start; None is a scan that does not end\<close>
  "st_iterate (SRdb c) = Some (Inr (map (\<lambda>(k, d). (k, Some d)) (rdb_iterate c 0)))"
| "st_iterate (SSql c) = Some (sdb_iterate c None)"
| "st_iterate (SZdb c) = zdb_iterate c None False"

fun st_type :: "('a, 'b, 'c) store \<Rightarrow> string" where
  "st_type (SRdb c) = ''RDB''" | "st_type (SSql c) = ''SDB''" | "st_type (SZdb c) = ''ZDB''"

section \<open>The contract\<close>

fun st_wf :: "('a, 'b, 'c) store \<Rightarrow> bool" where
  "st_wf (SRdb c) = rdb_wf c" | "st_wf (SSql c) = sdb_wf c" | "st_wf (SZdb c) = zdb_wf c"

fun st_lookup :: "('a, 'b, 'c) store \<Rightarrow> int \<Rightarrow> bytes option" where
  "st_lookup (SRdb c) = rdb_get c" | "st_lookup (SSql c) = sdb_lookup c" | "st_lookup (SZdb c) = zdb_lookup c"

fun st_items :: "('a, 'b, 'c) store \<Rightarrow> (int \<times> bytes) list" where
  "st_items (SRdb c) = rdb_iterate c 0" | "st_items (SSql c) = sdb_items c" | "st_items (SZdb c) = zdb_items c"

lemma st_set_cases:
  assumes "st_set now s d k = Inr (s', r)"
  obtains c c' where "s = SRdb c" "s' = SRdb c'" "rdb_set now c d k = Inr (c', r)"
  | c c' where "s = SSql c" "s' = SSql c'" "sdb_set c d k = Inr (c', r)"
  | c c' where "s = SZdb c" "s' = SZdb c'" "zdb_set c d k = Inr (c', r)"
  using assms by (cases s) (auto simp: rbind_eq_Inr)

interpretation st: kv_store st_wf st_lookup st_set st_delete st_items
proof
  fix s s' :: "('a, 'b, 'c) store" and d :: bytes and now k r d0
  assume s: "st_wf s"
  {
    assume d: "d \<noteq> []" and set: "st_set now s d None = Inr (s', r)"
    from set show "st_wf s' \<and> (\<exists>k. r = Some k \<and> 0 \<le> k \<and> st_lookup s k = None \<and> st_lookup s' = (st_lookup s)(k \<mapsto> d))"
    proof (cases rule: st_set_cases)
      case (1 c c') then show ?thesis using rdb.put_new [of c d now c' r] s d by simp
    next
      case (2 c c') then show ?thesis using sdb.put_new [of c d c' r] s d by simp
    next
      case (3 c c') then show ?thesis using zdb.put_new [of c d c' r] s d by simp
    qed
  }
  {
    assume d: "d \<noteq> []" and get: "st_lookup s k = Some d0" and set: "st_set now s d (Some k) = Inr (s', r)"
    from set show "st_wf s' \<and> st_lookup s' = (st_lookup s)(k \<mapsto> d) \<and> r = (if d0 = d then None else Some k)"
    proof (cases rule: st_set_cases)
      case (1 c c') then show ?thesis using rdb.put_old [of c d k d0 now c' r] s d get by simp
    next
      case (2 c c') then show ?thesis using sdb.put_old [of c d k d0 c' r] s d get by simp
    next
      case (3 c c') then show ?thesis using zdb.put_old [of c d k d0 c' r] s d get by simp
    qed
  }
  {
    assume k: "0 < k" and del: "st_delete s k = Inr s'"
    show "st_wf s' \<and> st_lookup s' = (st_lookup s)(k := None)"
    proof (cases s)
      case (SRdb c) then show ?thesis using rdb.del_key [of c k] s k del by (auto simp: rbind_eq_Inr)
    next
      case (SSql c) then show ?thesis using sdb.del_key [of c k] s k del by auto
    next
      case (SZdb c) then show ?thesis using zdb.del_key [of c k] s k del by (auto simp: rbind_eq_Inr)
    qed
  }
  show "distinct (map fst (st_items s)) \<and> set (st_items s) = {(k, d). st_lookup s k = Some d}"
  proof (cases s)
    case (SRdb c) then show ?thesis using rdb.items_graph [of c] s by simp
  next
    case (SSql c) then show ?thesis using sdb.items_graph [of c] s by simp
  next
    case (SZdb c) then show ?thesis using zdb.items_graph [of c] s by simp
  qed
qed

text \<open>\<open>st_lookup\<close> is what \<open>st_get\<close> gives.\<close>

lemma st_get_lookup: "st_wf s \<Longrightarrow> st_get s k = Inr r \<Longrightarrow> st_lookup s k = r"
proof (cases s)
  case (SSql c)
  then show "st_wf s \<Longrightarrow> st_get s k = Inr r \<Longrightarrow> ?thesis" using sdb_get_lookup [of c k] by simp
qed (auto simp: zdb_lookup_def)

lemma st_lookup_get: "st_wf s \<Longrightarrow> st_lookup s k = Some d \<Longrightarrow> st_get s k = Inr (Some d)"
proof (cases s)
  case (SSql c)
  then show "st_wf s \<Longrightarrow> st_lookup s k = Some d \<Longrightarrow> ?thesis" using sdb_get_lookup [of c k] by simp
qed (auto simp: zdb_lookup_def split: sum.splits)

section \<open>Starting a BCDB on a store\<close>

definition init_bytes :: bytes where
  "init_bytes = encode ''INIT''"

definition bcdb_store_init :: "int \<Rightarrow> ('a, 'b, 'c) store \<Rightarrow> ('a, 'b, 'c) store res" where
  \<comment> \<open>id 0 is taken before the first object is stored\<close>
  "bcdb_store_init now s = rbind (st_get s 0) (\<lambda>r.
     if r \<noteq> None \<and> r \<noteq> Some [] then Inr s
     else rbind (st_set now s init_bytes None) (\<lambda>(s', k).
       rbind (st_get s' 0) (\<lambda>r'. rbind (py_assert (r' \<noteq> None \<and> r' \<noteq> Some [])) (\<lambda>_. Inr s'))))"

text \<open>Once a BCDB has started on a store, whichever of the three clients it uses, the record with id 0 exists and every
  object stored without an id gets a positive id no other object has; the other records stay as they are.\<close>

theorem bcdb_ids_positive:
  assumes "bcdb_store_init now s = Inr s1" "st_wf s" "d \<noteq> []" "st_set now' s1 d None = Inr (s2, r)"
  shows "\<exists>k. r = Some k \<and> 0 < k \<and> st_lookup s1 k = None \<and> st_lookup s2 = (st_lookup s1)(k \<mapsto> d) \<and> st_wf s2"
proof -
  have ne: "init_bytes \<noteq> []" by (simp add: init_bytes_def encode_def)
  have "st_wf s1 \<and> (\<exists>r. st_get s1 0 = Inr r \<and> r \<noteq> None)"
    using assms(1,2) st.put_new_wf [OF assms(2) ne]
    unfolding bcdb_store_init_def
    by (auto simp: rbind_eq_Inr py_assert_def split: if_splits prod.splits)
  then obtain d0 where s1: "st_wf s1" "st_lookup s1 0 = Some d0" using st_get_lookup by blast
  from st.put_new [OF s1(1) assms(3,4)] obtain k where k: "r = Some k" "0 \<le> k" "st_lookup s1 k = None"
    "st_lookup s2 = (st_lookup s1)(k \<mapsto> d)" "st_wf s2" by blast
  have "k \<noteq> 0" using k(3) s1(2) by auto
  with k show ?thesis by auto
qed

theorem bcdb_ids_positive_witness:
  "\<exists>(s1 :: (memsrv, memtab, memzdb) store) s2. bcdb_store_init 7 (SRdb mem_rdb) = Inr s1 \<and> st_set 8 s1 [65] None = Inr (s2, Some 1)"
proof -
  have wf: "st_wf (SRdb mem_rdb :: (memsrv, memtab, memzdb) store)" by (simp add: mem_rdb_wf)
  have "case bcdb_store_init 7 (SRdb mem_rdb :: (memsrv, memtab, memzdb) store) of Inl e \<Rightarrow> False
      | Inr s1 \<Rightarrow> (case st_set 8 s1 [65] None of Inl e \<Rightarrow> False | Inr (s2, r) \<Rightarrow> r = Some 1)" by code_simp
  then obtain s1 s2 where a: "bcdb_store_init 7 (SRdb mem_rdb :: (memsrv, memtab, memzdb) store) = Inr s1"
    "st_set 8 s1 [65] None = Inr (s2, Some 1)" by (auto split: sum.splits prod.splits)
  from bcdb_ids_positive [OF a(1) wf _ a(2)] a show ?thesis by auto
qed

end
