(* ===== verification/JSXData.thy ===== *)
theory JSXData
  imports TypesAdv SchemaText Bin Effects
begin

text \<open>
  Objects and their binary form: \<^verbatim>\<open>data/serializers/SerializerJSXObject.py\<close> and the two readers of
  \<^verbatim>\<open>data/bcdb/BCDB.py\<close> that look at it. A stored object is a version byte, its id, the md5 of its schema and the
  capnp message of its properties; around that BCDB puts encryption and a msgpack list with namespace and acl. Those
  three encodings are arguments.
\<close>

section \<open>Hexadecimal text\<close>

fun py_fromhex :: "string \<Rightarrow> bytes option" where
  "py_fromhex [] = Some []"
| "py_fromhex [c] = None"
| "py_fromhex (c # d # s) = (case (hex_val c, hex_val d, py_fromhex s) of
     (Some m, Some n, Some b) \<Rightarrow> Some (word_of_nat (16 * m + n) # b) | _ \<Rightarrow> None)"

definition py_hex :: "bytes \<Rightarrow> string" where
  "py_hex b = concat (map (\<lambda>x. [hex_digit (unat x div 16), hex_digit (unat x mod 16)]) b)"

lemma py_hex_fromhex:
  "list_all lower_hex s \<Longrightarrow> py_fromhex s = Some b \<Longrightarrow> py_hex b = s \<and> 2 * length b = length s"
proof (induction s arbitrary: b rule: py_fromhex.induct)
  case (3 c d s)
  from "3.prems"(2) obtain m n b' where h: "hex_val c = Some m" "hex_val d = Some n" "py_fromhex s = Some b'"
    "b = word_of_nat (16 * m + n) # b'"
    by (auto split: option.splits)
  have l: "m < 16" "n < 16" using hex_val_bound h by auto
  then have u: "unat (word_of_nat (16 * m + n) :: 8 word) = 16 * m + n"
    using take_bit_nat_eq_self [of "16 * m + n" 8] by (simp only: unat_of_nat) simp
  have "hex_digit m = c" "hex_digit n = d"
    using "3.prems"(1) h hex_digit_val by auto
  moreover have "(16 * m + n) div 16 = m" "(16 * m + n) mod 16 = n" using l by auto
  ultimately show ?case using 3 h u by (simp add: py_hex_def del: of_nat_add of_nat_mult)
qed (auto simp: py_hex_def)

lemma fromhex_lower: "list_all lower_hex s \<Longrightarrow> even (length s) \<Longrightarrow> \<exists>b. py_fromhex s = Some b"
  by (induction s rule: py_fromhex.induct) (auto dest!: lower_hex_val)

section \<open>Objects\<close>

type_synonym props = "(string \<times> pyval) list"

text \<open>\<open>o_aclobj\<close> is the acl object attached to an object (id and md5 of its content), \<open>o_acl\<close> the id that is stored.\<close>

record jobj =
  o_id :: "int option"
  o_nid :: int
  o_acl :: "int option"
  o_aclobj :: "(int option \<times> string) option"
  o_url :: string
  o_md5 :: string
  o_props :: props

definition jsx_dumps :: "(string \<Rightarrow> props \<Rightarrow> bytes) \<Rightarrow> jobj \<Rightarrow> bytes res" where
  \<comment> \<open>\<open>capnp\<close> packs the properties under the schema with that md5\<close>
  "jsx_dumps capnp ob = rbind (to_bytes_le 4 (case o_id ob of None \<Rightarrow> 0 | Some i \<Rightarrow> i)) (\<lambda>i.
     case py_fromhex (o_md5 ob) of None \<Rightarrow> Inl P_ValueError
     | Some m \<Rightarrow> Inr (3 # i @ m @ capnp (o_md5 ob) (o_props ob)))"

definition jsx_header :: "bytes \<Rightarrow> (int \<times> string \<times> bytes) res" where
  \<comment> \<open>id, md5 and message in the beginning of \<^verbatim>\<open>loads\<close>\<close>
  "jsx_header data = rbind (py_assert (data \<noteq> [])) (\<lambda>_.
     if le_int (take 1 data) = 3 then Inr (le_int (take 4 (drop 1 data)), py_hex (take 16 (drop 5 data)), drop 21 data)
     else Inl E_Base)"

record benv =
  e_capnp :: "string \<Rightarrow> props \<Rightarrow> bytes"
  e_uncapnp :: "string \<Rightarrow> bytes \<Rightarrow> props res"
  e_pack :: "int \<Rightarrow> int \<Rightarrow> bytes \<Rightarrow> bytes"
  e_unpack :: "bytes \<Rightarrow> (int \<times> int \<times> bytes) option res"
  e_encrypt :: "bytes \<Rightarrow> bytes"
  e_decrypt :: "bytes \<Rightarrow> bytes res"
  e_newest :: "string \<Rightarrow> (string \<times> string) res"
  e_new :: "props \<Rightarrow> props res"
  e_usd :: "pyval \<Rightarrow> pyval"

definition jsx_loads :: "benv \<Rightarrow> bytes \<Rightarrow> (jobj \<times> bool) res" where
  \<comment> \<open>the object is read with the newest schema of its url (\<^verbatim>\<open>get_from_md5\<close>, then \<^verbatim>\<open>get_from_url\<close>); the flag says that
    this is not the schema it was written with. The calls of triggers are in \<open>unserialize\<close> of the model\<close>
  "jsx_loads E data = rbind (jsx_header data) (\<lambda>(i, md5, data2).
     rbind (e_newest E md5) (\<lambda>(url, md5').
     rbind (e_uncapnp E md5' data2) (\<lambda>ps.
       Inr (\<lparr>o_id = (if i = 0 then None else Some i), o_nid = 1, o_acl = Some 0, o_aclobj = None, o_url = url, o_md5 = md5', o_props = ps\<rparr>,
            md5 \<noteq> md5'))))"

definition unserialize_md5 :: "benv \<Rightarrow> bytes \<Rightarrow> string res" where
  "unserialize_md5 E data = rbind (e_unpack E data) (\<lambda>r. case r of
     None \<Rightarrow> Inl E_Base
   | Some (nid, acl, enc) \<Rightarrow> rbind (e_decrypt E enc) (\<lambda>d.
       if le_int (take 1 d) = 3 then Inr (py_hex (take 16 (drop 5 d))) else Inl P_RuntimeError))"

definition md5_text :: "string \<Rightarrow> bool" where
  "md5_text s = (length s = 32 \<and> list_all lower_hex s)"

lemma jsx_dumps_parts:
  assumes "jsx_dumps capnp ob = Inr d" "md5_text (o_md5 ob)"
  obtains i m where "to_bytes_le 4 (case o_id ob of None \<Rightarrow> 0 | Some i \<Rightarrow> i) = Inr i" "length i = 4" "length m = 16"
    "py_hex m = o_md5 ob" "d = 3 # i @ m @ capnp (o_md5 ob) (o_props ob)"
proof -
  obtain i m where p: "to_bytes_le 4 (case o_id ob of None \<Rightarrow> 0 | Some i \<Rightarrow> i) = Inr i" "py_fromhex (o_md5 ob) = Some m"
    "d = 3 # i @ m @ capnp (o_md5 ob) (o_props ob)"
    using assms(1) by (auto simp: jsx_dumps_def rbind_eq_Inr split: option.splits)
  moreover have "length i = 4" using p(1) by (auto simp: to_bytes_le_def split: if_splits)
  ultimately show ?thesis using that py_hex_fromhex [OF _ p(2)] assms(2) by (auto simp: md5_text_def)
qed

lemma jsx_header_dumps:
  assumes "jsx_dumps capnp ob = Inr d" "md5_text (o_md5 ob)"
  shows "jsx_header d = Inr ((case o_id ob of None \<Rightarrow> 0 | Some i \<Rightarrow> i), o_md5 ob, capnp (o_md5 ob) (o_props ob))"
proof -
  obtain i m where p: "to_bytes_le 4 (case o_id ob of None \<Rightarrow> 0 | Some i \<Rightarrow> i) = Inr i" "length i = 4" "length m = 16"
    "py_hex m = o_md5 ob" "d = 3 # i @ m @ capnp (o_md5 ob) (o_props ob)"
    using jsx_dumps_parts [OF assms] .
  have "le_int i = (case o_id ob of None \<Rightarrow> 0 | Some i \<Rightarrow> i)"
    using p(1) le_int_le_bytes by (auto simp: to_bytes_le_def simp del: le_bytes.simps split: if_splits)
  then show ?thesis using p(2-5) by (simp add: jsx_header_def)
qed

text \<open>C30: Whatever the capnp message is, the header of a written object gives back its id (0 for none), the md5 of its schema
  and exactly that message; ids that do not fit in four bytes and negative ids are refused when writing.\<close>

theorem jsx_header_roundtrip:
  assumes "md5_text (o_md5 ob)"
  shows "(let i = (case o_id ob of None \<Rightarrow> 0 | Some i \<Rightarrow> i) in
     if 0 \<le> i \<and> i < 2 ^ 32
     then \<exists>d. jsx_dumps capnp ob = Inr d \<and> jsx_header d = Inr (i, o_md5 ob, capnp (o_md5 ob) (o_props ob))
     else jsx_dumps capnp ob = Inl P_OverflowError)"
proof -
  define i where "i = (case o_id ob of None \<Rightarrow> 0 | Some i \<Rightarrow> i)"
  show ?thesis
  proof (cases "0 \<le> i \<and> i < 2 ^ 32")
    case True
    obtain m where "py_fromhex (o_md5 ob) = Some m" using fromhex_lower [of "o_md5 ob"] assms by (auto simp: md5_text_def)
    then obtain d where d: "jsx_dumps capnp ob = Inr d"
      using True by (simp add: jsx_dumps_def i_def [symmetric] to_bytes_le_def)
    with True jsx_header_dumps [OF d assms] show ?thesis by (simp add: Let_def i_def [symmetric])
  next
    case False
    then have "jsx_dumps capnp ob = Inl P_OverflowError"
      by (auto simp: i_def [symmetric] jsx_dumps_def to_bytes_le_def)
    with False show ?thesis unfolding Let_def i_def [symmetric] by simp
  qed
qed

definition sample_obj :: jobj where
  "sample_obj = \<lparr>o_id = Some 12, o_nid = 1, o_acl = Some 0, o_aclobj = None, o_url = ''a.b.1'', o_md5 = ''000102030405060708090a0b0c0d0e0f'',
     o_props = [(''name'', PStr ''x'')]\<rparr>"

theorem jsx_header_roundtrip_witness:
  "\<exists>d. jsx_dumps (\<lambda>m p. [9]) sample_obj = Inr d \<and> jsx_header d = Inr (12, ''000102030405060708090a0b0c0d0e0f'', [9])"
proof -
  have m: "md5_text (o_md5 sample_obj)" by code_simp
  from jsx_header_roundtrip [OF m, of "\<lambda>m p. [9]"] show ?thesis by (simp add: sample_obj_def)
qed

end
