(* ===== verification/BCDBModel.thy ===== *)
theory BCDBModel
  imports JSXData Stores
begin

text \<open>
  One BCDB model: the objects of one schema (\<^verbatim>\<open>data/bcdb/BCDBModel.py\<close>), kept in the storage client and in an index
  table (\<^verbatim>\<open>BCDBModelIndex.py\<close>, \<^verbatim>\<open>BCDBIndexMeta.py\<close> and the class rendered from
  \<^verbatim>\<open>templates/BCDBModelIndexClass.py\<close>). The table is sqlite behind peewee: an argument with the laws of its
  statements. The text index is left out: \<open>no_text_index\<close> shows that no schema ever asks for it.
\<close>

section \<open>What is indexed\<close>

datatype ftype = TextField | IntegerField | BooleanField | FloatField

record ifield =
  if_name :: string
  if_attr :: string
  if_numeric :: bool
  if_unique :: bool
  if_type :: ftype

definition field_type :: "klass \<Rightarrow> ftype res" where
  "field_type k = (let n = type_name k in
     if n = ''string'' then Inr TextField
     else if n = ''enum'' then Inr TextField
     else if n \<in> {''int'', ''date'', ''datetime''} then Inr IntegerField
     else if n \<in> {''boolean'', ''bool''} then Inr BooleanField
     else if n = ''numeric'' then Inr FloatField
     else if n = ''float'' then Inr FloatField
     else if basetype k = ''string'' then Inr TextField
     else Inl E_Base)"

definition index_field :: "sprop \<Rightarrow> ifield res" where
  "index_field p = (case p_type p of None \<Rightarrow> Inl P_AttributeError
     | Some t \<Rightarrow> rbind (field_type (ty_klass t)) (\<lambda>ft.
         Inr \<lparr>if_name = p_name p, if_attr = p_attr p, if_numeric = (type_name (ty_klass t) = ''numeric''),
              if_unique = p_unique p, if_type = ft\<rparr>))"

definition index_meta :: "nat \<Rightarrow> (jstype \<Rightarrow> schema option) \<Rightarrow> schema \<Rightarrow> (ifield list \<times> string list) res" where
  \<comment> \<open>the fields of the index table and of the text index; the first two arguments are those of \<open>properties_index_sql\<close>\<close>
  "index_meta n sub s = rbind (properties_index_sql n sub s) (\<lambda>ps. rbind (rmap index_field ps) (\<lambda>fs.
     Inr (fs, map p_name (properties_index_text s))))"

lemma property_no_text_index:
  "property_get_from_line env cache line = Inr (cache', p) \<Longrightarrow> \<not> p_index_text p"
  unfolding property_get_from_line_def Let_def case_prod_beta by (elim rbind_InrE) auto

lemma schema_line_props:
  assumes "schema_line env st l = Inr st'"
  shows "ps_props st' = ps_props st \<or> (\<exists>p. \<not> p_index_text p \<and> ps_props st' = d_set (ps_props st) (p_name p) p)"
proof (cases "strip l = [] \<or> starts_with ''@'' (strip l) \<or> starts_with ''#'' (strip l) \<or> CHR ''='' \<notin> set (strip l)")
  case True
  show ?thesis using assms True unfolding schema_line_def Let_def
    by (auto elim!: rbind_InrE split: if_splits)
next
  case False
  then have "rbind (py_assert (ps_url st \<noteq> None \<and> ps_url st \<noteq> Some [])) (\<lambda>_.
       rbind (property_get_from_line env (ps_cache st) (strip l)) (\<lambda>(cache', p).
         Inr (st\<lparr>ps_cache := cache', ps_props := d_set (ps_props st) (p_name p) p\<rparr>))) = Inr st'"
    using assms by (simp add: schema_line_def Let_def)
  then show ?thesis unfolding case_prod_beta
    by (elim rbind_InrE) (use property_no_text_index in \<open>fastforce simp: prod_eq_iff\<close>)
qed

lemma no_text_index:
  assumes "schema_new env cache text url md5 = Inr (cache', s)"
  shows "properties_index_text s = [] \<and> snd (snd (index_needed s)) = False"
proof -
  have line: "list_all (\<lambda>(k, p). \<not> p_index_text p) (ps_props st')"
    if "schema_line env st l = Inr st'" "list_all (\<lambda>(k, p). \<not> p_index_text p) (ps_props st)" for st st' l
  proof -
    have set: "list_all (\<lambda>(k, p). \<not> p_index_text p) (d_set d k p)"
      if "list_all (\<lambda>(k, p). \<not> p_index_text p) d" "\<not> p_index_text p" for d :: "(string \<times> sprop) list" and k p
      using that by (induction d k p rule: d_set.induct) auto
    show ?thesis using that schema_line_props [OF that(1)] set by auto
  qed
  obtain st where st: "rfold (schema_line env) \<lparr>ps_url = url, ps_cache = cache, ps_props = [], ps_system = []\<rparr>
      (lines (text_strip True text)) = Inr st" "s_props s = ps_props st"
    using assms by (auto simp: schema_new_def rbind_eq_Inr split: if_splits option.splits)
  have "list_all (\<lambda>(k, p). \<not> p_index_text p) (ps_props st)"
    by (rule rfold_invariant [OF st(1)]) (auto intro: line)
  then have "\<forall>p\<in>set (properties s). \<not> p_index_text p"
    by (auto simp: properties_def st(2) list_all_iff)
  then show ?thesis by (auto simp: properties_index_text_def index_needed_def list_ex_iff)
qed

section \<open>The index table\<close>

record irow =
  r_id :: int
  r_nid :: int
  r_cols :: "(string \<times> pyval) list"

definition row_val :: "irow \<Rightarrow> string \<Rightarrow> pyval option" where
  "row_val r c = (if c = ''id'' then Some (PInt (r_id r)) else if c = ''nid'' then Some (PInt (r_nid r)) else d_get (r_cols r) c)"

definition row_conflict :: "string list \<Rightarrow> irow \<Rightarrow> irow \<Rightarrow> bool" where
  \<comment> \<open>NULL conflicts with nothing\<close>
  "row_conflict uniq r q = (r_id q = r_id r \<or> list_ex (\<lambda>c. row_val r c \<noteq> None \<and> row_val r c \<noteq> Some PNone \<and> row_val q c = row_val r c) uniq)"

definition sql_val :: "pyval \<Rightarrow> pyval" where
  \<comment> \<open>what a column holds: the database has no booleans\<close>
  "sql_val v = (case v of PBool b \<Rightarrow> PInt (if b then 1 else 0) | _ \<Rightarrow> v)"

record 't itable =
  x_rows :: "'t \<Rightarrow> irow list"
  x_eq :: "string \<Rightarrow> pyval \<Rightarrow> pyval \<Rightarrow> bool"
  x_create :: "'t \<Rightarrow> irow \<Rightarrow> 't option"
  x_update :: "'t \<Rightarrow> irow \<Rightarrow> 't option"
  x_delete :: "'t \<Rightarrow> (irow \<Rightarrow> bool) \<Rightarrow> 't"
  x_select :: "'t \<Rightarrow> (string \<times> pyval) list \<Rightarrow> int list"

definition row_matches :: "'t itable \<Rightarrow> (string \<times> pyval) list \<Rightarrow> irow \<Rightarrow> bool" where
  \<comment> \<open>\<^verbatim>\<open>c = ? AND ...\<close>\<close>
  "row_matches X wh r = list_all (\<lambda>(c, v). case row_val r c of None \<Rightarrow> False | Some w \<Rightarrow> x_eq X c w v) wh"

definition row_named :: "'t itable \<Rightarrow> pyval \<Rightarrow> irow \<Rightarrow> bool" where
  \<comment> \<open>peewee's \<^verbatim>\<open>name == v\<close>, which is \<^verbatim>\<open>IS NULL\<close> for None\<close>
  "row_named X v r = (case row_val r ''name'' of None \<Rightarrow> False | Some w \<Rightarrow> (v = PNone \<and> w = PNone) \<or> x_eq X ''name'' w (sql_val v))"

definition eq_laws :: "'t itable \<Rightarrow> bool" where
  \<comment> \<open>NULL equals nothing, integers are compared as such, and a name is a text; how the database compares other values is left open\<close>
  "eq_laws X = ((\<forall>c v. \<not> x_eq X c PNone v \<and> \<not> x_eq X c v PNone) \<and> (\<forall>c i k. x_eq X c (PInt i) (PInt k) = (i = k))
   \<and> (\<forall>v n. x_eq X ''name'' v (PStr n) = (v = PStr n)))"

definition itable_laws :: "string list \<Rightarrow> 't itable \<Rightarrow> bool" where
  \<comment> \<open>insert, update by id, delete and select of a table with these unique columns; None is the IntegrityError\<close>
  "itable_laws uniq X =
    ((\<forall>t r t'. x_create X t r = Some t' \<longrightarrow> (\<forall>q\<in>set (x_rows X t). \<not> row_conflict uniq r q) \<and> x_rows X t' = x_rows X t @ [r])
   \<and> (\<forall>t r. x_create X t r = None \<longrightarrow> (\<exists>q\<in>set (x_rows X t). row_conflict uniq r q))
   \<and> (\<forall>t r t'. x_update X t r = Some t' \<longrightarrow> (\<forall>q\<in>set (x_rows X t). r_id q \<noteq> r_id r \<longrightarrow> \<not> row_conflict uniq r q)
        \<and> x_rows X t' = map (\<lambda>q. if r_id q = r_id r then r else q) (x_rows X t))
   \<and> (\<forall>t r. x_update X t r = None \<longrightarrow> (\<exists>q\<in>set (x_rows X t). r_id q \<noteq> r_id r \<and> row_conflict uniq r q))
   \<and> (\<forall>t p. x_rows X (x_delete X t p) = filter (\<lambda>q. \<not> p q) (x_rows X t))
   \<and> (\<forall>t wh. x_select X t wh = map r_id (filter (row_matches X wh) (x_rows X t))) \<and> eq_laws X)"

section \<open>A model\<close>

datatype tres = TNone | TObj jobj | TPair "jobj option" bool | TBad
  \<comment> \<open>what a trigger returns: nothing, an object, a pair with a stop flag, or something else\<close>

type_synonym trigger = "jobj option \<Rightarrow> string \<Rightarrow> tres"

record ('a, 'b, 'c, 't) bstate =
  b_store :: "('a, 'b, 'c) store"
  b_tab :: 't

record ('a, 'b, 'c, 't) bconf =
  c_now :: int
  c_env :: benv
  c_tab :: "'t itable"
  c_fields :: "ifield list"
  c_unique :: "string list"
  c_props :: "string list"
  c_url :: string
  c_md5 :: string
  c_triggers :: "trigger list"
  c_nosave :: bool
  c_readonly :: bool
  c_acl_save :: "string \<Rightarrow> ('a, 'b, 'c) store \<Rightarrow> (('a, 'b, 'c) store \<times> int) res"
  c_acl_md5 :: "('a, 'b, 'c) store \<Rightarrow> int \<Rightarrow> string res"

type_synonym ('a, 'b, 'c, 't, 'r) beff = "(('a, 'b, 'c, 't) bstate, 'r) eff"

fun triggers_call :: "trigger list \<Rightarrow> jobj option \<Rightarrow> string \<Rightarrow> (jobj option \<times> bool) res" where
  "triggers_call [] ob action = Inr (ob, False)"
| "triggers_call (m # ms) ob action = (case m ob action of
     TNone \<Rightarrow> triggers_call ms ob action
   | TObj ob2 \<Rightarrow> triggers_call ms (Some ob2) action
   | TPair ob2 stop \<Rightarrow> if stop then Inr (ob, True)
       else triggers_call ms (case ob2 of None \<Rightarrow> ob | Some x \<Rightarrow> Some x) action
   | TBad \<Rightarrow> Inl E_Base)"

definition trig :: "('a, 'b, 'c, 't) bconf \<Rightarrow> jobj \<Rightarrow> string \<Rightarrow> (jobj \<times> bool) res" where
  "trig C ob action = rbind (triggers_call (c_triggers C) (Some ob) action) (\<lambda>(r, stop).
     Inr (case r of Some x \<Rightarrow> x | None \<Rightarrow> ob, stop))"

section \<open>Index operations\<close>

fun attr_val :: "string list \<Rightarrow> props \<Rightarrow> pyval res" where
  \<comment> \<open>\<^verbatim>\<open>obj.a.b\<close>\<close>
  "attr_val [] ps = Inl P_AttributeError"
| "attr_val [a] ps = (case d_get ps a of None \<Rightarrow> Inl P_AttributeError | Some v \<Rightarrow> Inr v)"
| "attr_val (a # b # as) ps = (case d_get ps a of
     Some (PDict d) \<Rightarrow> attr_val (b # as) (concat (map (\<lambda>(k, v). case k of PStr s \<Rightarrow> [(s, v)] | _ \<Rightarrow> []) d))
   | _ \<Rightarrow> Inl P_AttributeError)"

definition col_val :: "benv \<Rightarrow> jobj \<Rightarrow> ifield \<Rightarrow> (string \<times> pyval) res" where
  "col_val E ob f = rbind
     (if if_numeric f then rbind (attr_val [if_name f] (o_props ob)) (\<lambda>v. Inr (e_usd E v))
      else attr_val (if if_attr f \<noteq> [] then split_char (CHR ''.'') (if_attr f) else [if_name f]) (o_props ob))
     (\<lambda>v. Inr (if_name f, sql_val v))"

definition index_row :: "('a, 'b, 'c, 't) bconf \<Rightarrow> jobj \<Rightarrow> irow res" where
  "index_row C ob = (case o_id ob of None \<Rightarrow> Inl P_AssertionError | Some i \<Rightarrow>
     rbind (py_assert (i \<noteq> 0)) (\<lambda>_. rbind (py_assert (o_nid ob \<noteq> 0)) (\<lambda>_.
       rbind (rmap (col_val (c_env C) ob) (c_fields C)) (\<lambda>cols. Inr \<lparr>r_id = i, r_nid = o_nid ob, r_cols = cols\<rparr>))))"

definition sql_index_set :: "('a, 'b, 'c, 't) bconf \<Rightarrow> jobj \<Rightarrow> ('a, 'b, 'c, 't, bool) beff" where
  \<comment> \<open>False is the IntegrityError of the table\<close>
  "sql_index_set C ob = ebind (elift (index_row C ob)) (\<lambda>r.
     ebind (eget (\<lambda>s. x_select (c_tab C) (b_tab s) [(''id'', PInt (r_id r))])) (\<lambda>z.
     ebind (eget (\<lambda>s. if z = [] then x_create (c_tab C) (b_tab s) r else x_update (c_tab C) (b_tab s) r)) (\<lambda>t.
       case t of None \<Rightarrow> ereturn False | Some t' \<Rightarrow> ebind (emod (\<lambda>s. s\<lparr>b_tab := t'\<rparr>)) (\<lambda>_. ereturn True))))"

definition tab_delete :: "('a, 'b, 'c, 't) bconf \<Rightarrow> (irow \<Rightarrow> bool) \<Rightarrow> ('a, 'b, 'c, 't, unit) beff" where
  "tab_delete C p = emod (\<lambda>s. s\<lparr>b_tab := x_delete (c_tab C) (b_tab s) p\<rparr>)"

definition columns :: "('a, 'b, 'c, 't) bconf \<Rightarrow> string list" where
  "columns C = ''id'' # ''nid'' # map if_name (c_fields C)"

definition index_delete :: "('a, 'b, 'c, 't) bconf \<Rightarrow> jobj \<Rightarrow> ('a, 'b, 'c, 't, unit) beff" where
  \<comment> \<open>\<^verbatim>\<open>index.delete(obj)\<close>: rows with the id, then rows with the name when the object has one; the table class
    has an attribute \<^verbatim>\<open>name\<close> only when name is indexed\<close>
  "index_delete C ob = (case o_id ob of None \<Rightarrow> ereturn ()
   | Some i \<Rightarrow> ebind (tab_delete C (\<lambda>r. r_id r = i)) (\<lambda>_.
       case d_get (o_props ob) ''name'' of None \<Rightarrow> ereturn ()
       | Some v \<Rightarrow> if ''name'' \<in> set (columns C) then tab_delete C (row_named (c_tab C) v) else eraise P_AttributeError))"

definition index_delete_by_id :: "('a, 'b, 'c, 't) bconf \<Rightarrow> int \<Rightarrow> ('a, 'b, 'c, 't, unit) beff" where
  "index_delete_by_id C i = tab_delete C (\<lambda>r. r_id r = i)"

definition index_destroy :: "('a, 'b, 'c, 't) bconf \<Rightarrow> int \<Rightarrow> ('a, 'b, 'c, 't, unit) beff" where
  \<comment> \<open>\<^verbatim>\<open>nid\<close> 0 stands for None: the table is made anew\<close>
  "index_destroy C nid = tab_delete C (\<lambda>r. nid = 0 \<or> r_nid r = nid)"

definition index_set :: "('a, 'b, 'c, 't) bconf \<Rightarrow> jobj \<Rightarrow> ('a, 'b, 'c, 't, unit) beff" where
  \<comment> \<open>with the handler \<^verbatim>\<open>BCDBModel.set\<close> puts around it\<close>
  "index_set C ob = ebind (sql_index_set C ob) (\<lambda>ok. if ok then ereturn () else eraise E_Input)"

section \<open>Queries\<close>

definition find_query :: "('a, 'b, 'c, 't) bconf \<Rightarrow> int \<Rightarrow> int option \<Rightarrow> int option \<Rightarrow> (string \<times> pyval) list
    \<Rightarrow> ('a, 'b, 'c, 't, int list) beff" where
  \<comment> \<open>ids of the rows with these values, True and False as 1 and 0; the namespace is not looked at. A limit of 0 is none,
    an offset without limit and an unknown column are errors of the database\<close>
  "find_query C nid limit offset args =
    (let wh = map (\<lambda>(k, v). (k, case v of PBool b \<Rightarrow> PInt (if b then 1 else 0) | _ \<Rightarrow> v)) args;
         lim = (case limit of Some l \<Rightarrow> if l = 0 then None else Some l | None \<Rightarrow> None);
         off = (case offset of Some l \<Rightarrow> if l = 0 then None else Some l | None \<Rightarrow> None)
     in if (lim = None \<and> off \<noteq> None) \<or> \<not> list_all (\<lambda>(k, v). k \<in> set (columns C)) args then eraise P_Exception
        else eget (\<lambda>s. let ids = x_select (c_tab C) (b_tab s) wh; ids1 = (case off of None \<Rightarrow> ids | Some n \<Rightarrow> drop (nat n) ids)
               in (case lim of None \<Rightarrow> ids1 | Some n \<Rightarrow> if n < 0 then ids1 else take (nat n) ids1)))"

definition find_ids :: "('a, 'b, 'c, 't) bconf \<Rightarrow> int option \<Rightarrow> int option \<Rightarrow> int option \<Rightarrow> (string \<times> pyval) list
    \<Rightarrow> ('a, 'b, 'c, 't, int list) beff" where
  "find_ids C nid limit offset args = find_query C (case nid of None \<Rightarrow> 1 | Some n \<Rightarrow> if n = 0 then 1 else n) limit offset args"

definition model_count :: "('a, 'b, 'c, 't) bconf \<Rightarrow> int option \<Rightarrow> (string \<times> pyval) list \<Rightarrow> ('a, 'b, 'c, 't, int) beff" where
  "model_count C nid args = ebind (find_query C (case nid of None \<Rightarrow> 0 | Some n \<Rightarrow> n) None None args) (\<lambda>ids. ereturn (int (length ids)))"

section \<open>Reading objects\<close>

definition unserialize :: "('a, 'b, 'c, 't) bconf \<Rightarrow> int \<Rightarrow> bytes \<Rightarrow> jobj res" where
  \<comment> \<open>\<^verbatim>\<open>BCDB._unserialize\<close> with the schema of this model; another schema ends in a debug shell and the assertion.
    \<^verbatim>\<open>schema.new\<close> and \<^verbatim>\<open>loads\<close> both call the "new" triggers\<close>
  "unserialize C i data = rbind (e_unpack (c_env C) data) (\<lambda>r. case r of
     None \<Rightarrow> Inl E_Base
   | Some (nid, acl, enc) \<Rightarrow>
       rbind (e_decrypt (c_env C) enc) (\<lambda>bdata.
       rbind (jsx_loads (c_env C) bdata) (\<lambda>(ob, old).
       rbind (triggers_call (c_triggers C) (Some ob) ''new'') (\<lambda>_.
       rbind (if o_url ob = c_url C then triggers_call (c_triggers C) (Some ob) ''new'' else Inr (Some ob, False)) (\<lambda>_.
       rbind (if old \<and> o_url ob = c_url C then triggers_call (c_triggers C) (Some ob) ''schema_change'' else Inr (Some ob, False)) (\<lambda>_.
       rbind (py_assert (o_url ob = c_url C \<and> o_md5 ob = c_md5 C)) (\<lambda>_.
         Inr (ob\<lparr>o_nid := nid, o_id := (case o_id ob of Some k \<Rightarrow> Some k | None \<Rightarrow> if i = 0 then None else Some i),
                 o_acl := (if acl = 0 then o_acl ob else Some acl)\<rparr>))))))))"

definition model_get :: "('a, 'b, 'c, 't) bconf \<Rightarrow> int \<Rightarrow> bool \<Rightarrow> ('a, 'b, 'c, 't, jobj option) beff" where
  "model_get C i die = (if i = 0 then eraise E_Base
     else ebind (eget (\<lambda>s. st_get (b_store s) i)) (\<lambda>r. ebind (elift r) (\<lambda>data.
       if data = None \<or> data = Some [] then (if die then eraise E_NotFound else ereturn None)
       else ebind (elift (unserialize C i (the data))) (\<lambda>ob.
         ebind (elift (trig C ob ''get'')) (\<lambda>(ob', stop). ereturn (Some ob'))))))"

definition model_exists :: "('a, 'b, 'c, 't) bconf \<Rightarrow> int \<Rightarrow> ('a, 'b, 'c, 't, bool) beff" where
  "model_exists C i = ebind (model_get C i False) (\<lambda>r. ereturn (r \<noteq> None))"

definition model_find :: "('a, 'b, 'c, 't) bconf \<Rightarrow> int option \<Rightarrow> int option \<Rightarrow> int option \<Rightarrow> (string \<times> pyval) list
    \<Rightarrow> ('a, 'b, 'c, 't, jobj list) beff" where
  \<comment> \<open>an object that is in the index but not in the store is skipped\<close>
  "model_find C nid limit offset args = ebind (find_ids C nid limit offset args) (\<lambda>ids.
     ebind (emap (\<lambda>i. ecatch (model_get C i True) (\<lambda>e. if e = E_NotFound then ereturn None else eraise e)) ids) (\<lambda>obs.
       ereturn (concat (map (\<lambda>r. case r of None \<Rightarrow> [] | Some ob \<Rightarrow> [ob]) obs))))"

definition get_by_name :: "('a, 'b, 'c, 't) bconf \<Rightarrow> string \<Rightarrow> int \<Rightarrow> bool \<Rightarrow> ('a, 'b, 'c, 't, jobj option) beff" where
  "get_by_name C name nid die = ebind (model_find C (Some nid) None None [(''name'', PStr name)]) (\<lambda>obs.
     case obs of ob # _ \<Rightarrow> ereturn (Some ob) | [] \<Rightarrow> if die then eraise E_NotFound else ereturn None)"

definition model_iterate :: "('a, 'b, 'c, 't) bconf \<Rightarrow> int \<Rightarrow> ('a, 'b, 'c, 't, jobj option list) beff" where
  "model_iterate C nid = ebind (find_ids C (Some nid) None None []) (\<lambda>ids. emap (\<lambda>i. model_get C i True) ids)"

section \<open>Writing objects\<close>

definition store_set :: "('a, 'b, 'c, 't) bconf \<Rightarrow> bytes \<Rightarrow> int option \<Rightarrow> ('a, 'b, 'c, 't, int option) beff" where
  "store_set C data key = ebind (eget (\<lambda>s. st_set (c_now C) (b_store s) data key)) (\<lambda>r. ebind (elift r) (\<lambda>(st, k).
     ebind (emod (\<lambda>s. s\<lparr>b_store := st\<rparr>)) (\<lambda>_. ereturn k)))"

definition store_delete :: "int \<Rightarrow> ('a, 'b, 'c, 't, unit) beff" where
  "store_delete i = ebind (eget (\<lambda>s. st_delete (b_store s) i)) (\<lambda>r. ebind (elift r) (\<lambda>st. emod (\<lambda>s. s\<lparr>b_store := st\<rparr>)))"

definition save_acl :: "('a, 'b, 'c, 't) bconf \<Rightarrow> string \<Rightarrow> ('a, 'b, 'c, 't, int) beff" where
  "save_acl C md5 = ebind (eget (\<lambda>s. c_acl_save C md5 (b_store s))) (\<lambda>r. ebind (elift r) (\<lambda>(st, i).
     ebind (emod (\<lambda>s. s\<lparr>b_store := st\<rparr>)) (\<lambda>_. ereturn i)))"

definition set_acl :: "('a, 'b, 'c, 't) bconf \<Rightarrow> jobj \<Rightarrow> ('a, 'b, 'c, 't, jobj) beff" where
  \<comment> \<open>an acl that is new or has changed is saved as a new one\<close>
  "set_acl C ob = (let ob0 = (if o_acl ob = None then ob\<lparr>o_acl := Some 0\<rparr> else ob) in
     case o_aclobj ob of
       None \<Rightarrow> ereturn ob0
     | Some (aid, md5) \<Rightarrow>
         ebind (case aid of
             None \<Rightarrow> save_acl C md5
           | Some i \<Rightarrow> ebind (eget (\<lambda>s. c_acl_md5 C (b_store s) i)) (\<lambda>r. ebind (elift r) (\<lambda>md5'.
               if md5 \<noteq> md5' then save_acl C md5 else ereturn i))) (\<lambda>i.
           ereturn (ob0\<lparr>o_acl := Some i, o_aclobj := Some (Some i, md5)\<rparr>)))"

definition object_bytes :: "('a, 'b, 'c, 't) bconf \<Rightarrow> jobj \<Rightarrow> bytes res" where
  "object_bytes C ob = rbind (jsx_dumps (e_capnp (c_env C)) ob) (\<lambda>bdata.
     rbind (py_assert (0 < o_nid ob)) (\<lambda>_.
       Inr (e_pack (c_env C) (o_nid ob) (case o_acl ob of None \<Rightarrow> 0 | Some a \<Rightarrow> a) (e_encrypt (c_env C) bdata))))"

definition put_object :: "('a, 'b, 'c, 't) bconf \<Rightarrow> jobj \<Rightarrow> bytes \<Rightarrow> ('a, 'b, 'c, 't, jobj) beff" where
  "put_object C ob data = (case o_id ob of
     None \<Rightarrow> ebind (store_set C data None) (\<lambda>k.
       ebind (if k = Some 0 then store_set C data None else ereturn k) (\<lambda>k'.
         ebind (eassert (k' \<noteq> None \<and> k' \<noteq> Some 0)) (\<lambda>_. ereturn (ob\<lparr>o_id := k'\<rparr>))))
   | Some i \<Rightarrow> ebind (store_set C data (Some i)) (\<lambda>_. ereturn ob))"

definition model_set :: "('a, 'b, 'c, 't) bconf \<Rightarrow> jobj \<Rightarrow> bool \<Rightarrow> bool \<Rightarrow> ('a, 'b, 'c, 't, jobj) beff" where
  \<comment> \<open>\<^verbatim>\<open>set(obj, index, store)\<close>\<close>
  "model_set C ob index store =
     ebind (eassert (o_nid ob \<noteq> 0)) (\<lambda>_.
     ebind (if store then
         ebind (elift (trig C ob ''set_pre'')) (\<lambda>(ob1, stop).
           if stop then ebind (eassert (o_id ob1 \<noteq> None \<and> o_id ob1 \<noteq> Some 0)) (\<lambda>_. ereturn (ob1, True))
           else ebind (set_acl C ob1) (\<lambda>ob2.
             ebind (elift (object_bytes C ob2)) (\<lambda>data.
             ebind (put_object C ob2 data) (\<lambda>ob3. ereturn (ob3, False)))))
       else ereturn (ob, False)) (\<lambda>(ob3, stopped).
     if stopped then ereturn ob3
     else ebind (if index then
           ebind (if store then ereturn () else index_delete C ob3) (\<lambda>_. index_set C ob3)
         else ereturn ()) (\<lambda>_.
       ebind (elift (trig C ob3 ''set_post'')) (\<lambda>(ob4, stop). ereturn ob4))))"

definition delete_id :: "('a, 'b, 'c, 't) bconf \<Rightarrow> int \<Rightarrow> ('a, 'b, 'c, 't, unit) beff" where
  "delete_id C i = ebind (eassert (0 < i)) (\<lambda>_. ebind (store_delete i) (\<lambda>_. index_delete_by_id C i))"

definition delete_obj :: "('a, 'b, 'c, 't) bconf \<Rightarrow> jobj \<Rightarrow> ('a, 'b, 'c, 't, unit) beff" where
  "delete_obj C ob = ebind (eassert (o_nid ob \<noteq> 0)) (\<lambda>_.
     case o_id ob of None \<Rightarrow> ereturn ()
     | Some i \<Rightarrow> ebind (elift (trig C ob ''delete'')) (\<lambda>(ob', stop).
         if stop then ereturn ()
         else (case o_id ob' of None \<Rightarrow> eraise P_AssertionError
           | Some k \<Rightarrow> ebind (store_delete k) (\<lambda>_. index_delete_by_id C k))))"

definition model_destroy :: "('a, 'b, 'c, 't) bconf \<Rightarrow> int \<Rightarrow> ('a, 'b, 'c, 't, unit) beff" where
  \<comment> \<open>\<^verbatim>\<open>index.destroy()\<close> has no argument here: it is that of namespace 1\<close>
  "model_destroy C nid = ebind (eassert (0 < nid)) (\<lambda>_.
     ebind (find_ids C (Some nid) None None []) (\<lambda>ids.
     ebind (efor ids store_delete) (\<lambda>_. index_destroy C 1)))"

definition index_rebuild :: "('a, 'b, 'c, 't) bconf \<Rightarrow> int \<Rightarrow> ('a, 'b, 'c, 't, unit) beff" where
  \<comment> \<open>the ids to walk over are read from the index after it was destroyed\<close>
  "index_rebuild C nid = ebind (index_destroy C nid) (\<lambda>_.
     ebind (find_ids C (Some nid) None None []) (\<lambda>ids.
       efor ids (\<lambda>i. ebind (model_get C i True) (\<lambda>ob. case ob of None \<Rightarrow> eraise P_AttributeError
          | Some ob' \<Rightarrow> ebind (model_set C ob' True False) (\<lambda>_. ereturn ())))))"

datatype dyn = DynDict props | DynBytes bytes | DynObj jobj

definition int_prop :: "props \<Rightarrow> string \<Rightarrow> int option" where
  "int_prop ps k = (case d_get ps k of Some (PInt i) \<Rightarrow> Some i | _ \<Rightarrow> None)"

definition fresh_obj :: "('a, 'b, 'c, 't) bconf \<Rightarrow> props \<Rightarrow> jobj res" where
  \<comment> \<open>\<^verbatim>\<open>schema.new(datadict=...)\<close>\<close>
  "fresh_obj C ps = rbind (e_new (c_env C) ps) (\<lambda>ps'. Inr \<lparr>o_id = int_prop ps ''id'', o_nid = 1, o_acl = Some 0, o_aclobj = None,
      o_url = c_url C, o_md5 = c_md5 C, o_props = ps'\<rparr>)"

definition set_dynamic :: "('a, 'b, 'c, 't) bconf \<Rightarrow> dyn \<Rightarrow> int option \<Rightarrow> int \<Rightarrow> ('a, 'b, 'c, 't, jobj) beff" where
  \<comment> \<open>a json text becomes a dictionary first; a namespace in the data only counts when it is an object\<close>
  "set_dynamic C data obj_id nid =
     ebind (case data of
         DynDict ps \<Rightarrow> ebind (eassert (nid \<noteq> 0)) (\<lambda>_. ebind (elift (fresh_obj C ps)) (\<lambda>ob.
           ereturn (ob\<lparr>o_nid := nid\<rparr>, case obj_id of Some i \<Rightarrow> Some i | None \<Rightarrow> int_prop ps ''id'')))
       | DynBytes b \<Rightarrow> ebind (elift (jsx_loads (c_env C) b)) (\<lambda>(ob, old).
           if obj_id = None then eraise E_Base else ereturn (ob, obj_id))
       | DynObj ob \<Rightarrow> if o_nid ob = 0 \<and> nid = 0 then eraise E_Base
           else ereturn (if o_nid ob = 0 then ob\<lparr>o_nid := nid\<rparr> else ob, case obj_id of Some i \<Rightarrow> Some i | None \<Rightarrow> o_id ob))
     (\<lambda>(ob, i). model_set C (if o_id ob = None \<or> o_id ob = Some 0 then ob\<lparr>o_id := i\<rparr> else ob) True True)"

definition model_new :: "('a, 'b, 'c, 't) bconf \<Rightarrow> props \<Rightarrow> int \<Rightarrow> jobj res" where
  "model_new C ps nid = rbind (fresh_obj C ps) (\<lambda>ob.
     rbind (if ps = [] then Inr (ob, False) else trig C ob ''new'') (\<lambda>_.
     rbind (trig C (ob\<lparr>o_nid := nid\<rparr>) ''new'') (\<lambda>(ob', stop). Inr ob')))"

section \<open>Saving an object (\<^verbatim>\<open>JSXObjectRoot\<close>)\<close>

definition check_empty :: "('a, 'b, 'c, 't) bconf \<Rightarrow> jobj \<Rightarrow> unit res" where
  "check_empty C ob = rbind (rmap (\<lambda>f.
     rbind (attr_val (if str_in ''__'' (if_name f) then [hd (split_char (CHR ''_'') (if_name f)), last (split_char (CHR ''_'') (if_name f))]
                      else [if_name f]) (o_props ob)) (\<lambda>v.
       if \<not> truth v \<and> \<not> is_int v \<and> \<not> is_float v then Inl E_Input else Inr ())) (c_fields C)) (\<lambda>_. Inr ())"

definition check_unique :: "('a, 'b, 'c, 't) bconf \<Rightarrow> jobj \<Rightarrow> string \<Rightarrow> ('a, 'b, 'c, 't, unit) beff" where
  "check_unique C ob u = ebind (elift (attr_val [u] (o_props ob))) (\<lambda>v.
     ebind (model_find C None None None [(u, v)]) (\<lambda>r.
       case r of [] \<Rightarrow> ereturn ()
       | [q] \<Rightarrow> if o_id ob \<noteq> None \<and> o_id ob \<noteq> Some 0 \<and> o_id ob \<noteq> o_id q then eraise E_Input else ereturn ()
       | _ \<Rightarrow> eraise E_Input))"

definition object_save :: "('a, 'b, 'c, 't) bconf \<Rightarrow> jobj \<Rightarrow> bool \<Rightarrow> ('a, 'b, 'c, 't, jobj) beff" where
  \<comment> \<open>the flag is \<^verbatim>\<open>obj._changed\<close>\<close>
  "object_save C ob changed = (if \<not> changed then ereturn ob
     else if c_nosave C then ebind (elift (trig C ob ''set_pre'')) (\<lambda>(ob', stop). ereturn ob')
     else ebind (elift (check_empty C ob)) (\<lambda>_.
       ebind (efor (c_unique C) (check_unique C ob)) (\<lambda>_.
       ebind (model_set C ob True True) (\<lambda>ob'.
       ebind (eassert (o_id ob' \<noteq> None \<and> o_id ob' \<noteq> Some 0)) (\<lambda>_. ereturn ob')))))"

definition object_delete :: "('a, 'b, 'c, 't) bconf \<Rightarrow> bool \<Rightarrow> jobj \<Rightarrow> ('a, 'b, 'c, 't, unit) beff" where
  \<comment> \<open>the flag says that the model is the one of the acls\<close>
  "object_delete C isacl ob = ebind (elift (trig C ob ''delete'')) (\<lambda>_.
     if c_nosave C then ereturn ()
     else if c_readonly C then eraise E_Base
     else if isacl then ereturn () else delete_obj C ob)"

section \<open>Storing and reading back\<close>

definition benv_laws :: "benv \<Rightarrow> bool" where
  \<comment> \<open>msgpack and encryption can be undone, msgpack for integers of 64 bits; a packed record is not empty\<close>
  "benv_laws E = ((\<forall>n a b. 0 \<le> n \<longrightarrow> n < 2 ^ 64 \<longrightarrow> 0 \<le> a \<longrightarrow> a < 2 ^ 64 \<longrightarrow> e_unpack E (e_pack E n a b) = Inr (Some (n, a, b)))
     \<and> (\<forall>n a b. e_pack E n a b \<noteq> []) \<and> (\<forall>b. e_decrypt E (e_encrypt E b) = Inr b))"

definition quiet :: "('a, 'b, 'c, 't) bconf \<Rightarrow> bool" where
  "quiet C = (\<forall>m\<in>set (c_triggers C). \<forall>ob a. m ob a = TNone)"

definition own_obj :: "('a, 'b, 'c, 't) bconf \<Rightarrow> jobj \<Rightarrow> bool" where
  \<comment> \<open>an object of the newest schema of the model, without an acl object attached, whose capnp message can be read back\<close>
  "own_obj C ob = (o_nid ob < 2 ^ 64 \<and> (case o_acl ob of None \<Rightarrow> True | Some a \<Rightarrow> 0 \<le> a \<and> a < 2 ^ 64)
     \<and> e_uncapnp (c_env C) (c_md5 C) (e_capnp (c_env C) (c_md5 C) (o_props ob)) = Inr (o_props ob)
     \<and> o_md5 ob = c_md5 C \<and> o_url ob = c_url C \<and> o_aclobj ob = None \<and> md5_text (c_md5 C)
     \<and> e_newest (c_env C) (c_md5 C) = Inr (c_url C, c_md5 C))"

definition known_id :: "('a, 'b, 'c, 't) bstate \<Rightarrow> jobj \<Rightarrow> bool" where
  "known_id s ob = (case o_id ob of None \<Rightarrow> True | Some i \<Rightarrow> 0 < i \<and> st_lookup (b_store s) i \<noteq> None)"

definition with_acl :: "jobj \<Rightarrow> jobj" where
  "with_acl ob = (if o_acl ob = None then ob\<lparr>o_acl := Some 0\<rparr> else ob)"

lemma triggers_quiet: "\<forall>m\<in>set ms. \<forall>ob a. m ob a = TNone \<Longrightarrow> triggers_call ms ob a = Inr (ob, False)"
  by (induction ms) auto

lemma trig_quiet: "quiet C \<Longrightarrow> trig C ob a = Inr (ob, False)"
  by (simp add: trig_def quiet_def triggers_quiet)

lemma with_acl_simps [simp]: "o_id (with_acl ob) = o_id ob" "o_nid (with_acl ob) = o_nid ob" "o_props (with_acl ob) = o_props ob"
  "o_md5 (with_acl ob) = o_md5 ob" "o_url (with_acl ob) = o_url ob" "o_aclobj (with_acl ob) = o_aclobj ob" "o_acl (with_acl ob) \<noteq> None"
  by (simp_all add: with_acl_def)

lemma set_acl_none: "o_aclobj ob = None \<Longrightarrow> set_acl C ob = ereturn (with_acl ob)"
  by (simp add: set_acl_def with_acl_def)

lemma unserialize_object:
  assumes "object_bytes C ob = Inr data" "benv_laws (c_env C)" "own_obj C ob" "quiet C" "o_acl ob \<noteq> None"
    "case o_id ob of None \<Rightarrow> k \<noteq> 0 | Some i \<Rightarrow> i = k \<and> k \<noteq> 0"
  shows "unserialize C k data = Inr (ob\<lparr>o_id := Some k\<rparr>)"
proof -
  let ?E = "c_env C"
  obtain bdata a where b: "jsx_dumps (e_capnp ?E) ob = Inr bdata" "0 < o_nid ob" "o_acl ob = Some a"
    "data = e_pack ?E (o_nid ob) a (e_encrypt ?E bdata)"
    using assms(1,5) by (auto simp: object_bytes_def rbind_eq_Inr py_assert_def split: if_splits)
  have m: "md5_text (o_md5 ob)" using assms(3) by (simp add: own_obj_def)
  have own: "o_nid ob < 2 ^ 64" "0 \<le> a" "a < 2 ^ 64" "o_md5 ob = c_md5 C" "o_url ob = c_url C" "o_aclobj ob = None"
    "e_newest ?E (c_md5 C) = Inr (c_url C, c_md5 C)" "e_uncapnp ?E (c_md5 C) (e_capnp ?E (c_md5 C) (o_props ob)) = Inr (o_props ob)"
    using assms(3) b(3) by (simp_all add: own_obj_def)
  have u: "e_unpack ?E data = Inr (Some (o_nid ob, a, e_encrypt ?E bdata))" "e_decrypt ?E (e_encrypt ?E bdata) = Inr bdata"
    using assms(2) b(2,4) own(1-3) by (simp_all add: benv_laws_def)
  show ?thesis
    using assms(4,6) jsx_header_dumps [OF b(1) m] triggers_quiet [of "c_triggers C"] own(4-8) b(3) u
    by (auto simp: unserialize_def quiet_def jsx_loads_def split: option.splits)
qed

lemma store_set_run: "store_set C d k s = (case st_set (c_now C) (b_store s) d k of Inl e \<Rightarrow> (s, Inl e)
    | Inr (st, r) \<Rightarrow> (s\<lparr>b_store := st\<rparr>, Inr r))"
  by (auto simp: store_set_def split: sum.splits prod.splits)

lemma store_delete_run: "store_delete i s = (case st_delete (b_store s) i of Inl e \<Rightarrow> (s, Inl e) | Inr st \<Rightarrow> (s\<lparr>b_store := st\<rparr>, Inr ()))"
  by (auto simp: store_delete_def split: sum.splits)

lemma put_object_stored:
  assumes "put_object C ob data s = (s', Inr ob')" "st_wf (b_store s)" "data \<noteq> []" "known_id s ob"
  shows "\<exists>k>0. ob' = ob\<lparr>o_id := Some k\<rparr> \<and> st_wf (b_store s') \<and> st_lookup (b_store s') k = Some data \<and> b_tab s' = b_tab s
    \<and> (o_id ob = None \<longrightarrow> st_lookup (b_store s) k = None) \<and> (o_id ob = None \<or> o_id ob = Some k)
    \<and> (\<forall>i. i \<noteq> k \<longrightarrow> i \<noteq> 0 \<longrightarrow> st_lookup (b_store s') i = st_lookup (b_store s) i)"
proof (cases "o_id ob")
  case None
  from assms(1) have "\<exists>s1 k1 k2. store_set C data None s = (s1, Inr k1) \<and>
      (if k1 = Some 0 then store_set C data None s1 else (s1, Inr k1)) = (s', Inr k2) \<and> k2 \<noteq> None \<and> k2 \<noteq> Some 0 \<and> ob' = ob\<lparr>o_id := k2\<rparr>"
    unfolding put_object_def None option.case ebind_eq_Inr by (fastforce simp: py_assert_def split: if_splits)
  then obtain s1 k1 k2 where 1: "store_set C data None s = (s1, Inr k1)"
    "(if k1 = Some 0 then store_set C data None s1 else (s1, Inr k1)) = (s', Inr k2)"
    "k2 \<noteq> None" "k2 \<noteq> Some 0" "ob' = ob\<lparr>o_id := k2\<rparr>" by blast
  then obtain st1 where st1: "st_set (c_now C) (b_store s) data None = Inr (st1, k1)" "s1 = s\<lparr>b_store := st1\<rparr>"
    by (auto simp: store_set_run split: sum.splits prod.splits)
  from st.put_new [OF assms(2,3) st1(1)] obtain j where j: "st_wf st1" "k1 = Some j" "0 \<le> j" "st_lookup (b_store s) j = None"
    "st_lookup st1 = (st_lookup (b_store s))(j \<mapsto> data)" by blast
  show ?thesis
  proof (cases "j = 0")
    case True
    with 1(2) j(2) obtain st2 where st2: "st_set (c_now C) st1 data None = Inr (st2, k2)" "s' = s1\<lparr>b_store := st2\<rparr>"
      by (auto simp: store_set_run st1(2) split: sum.splits prod.splits)
    from st.put_new [OF j(1) assms(3) st2(1)] obtain k where k: "st_wf st2" "k2 = Some k" "0 \<le> k" "st_lookup st1 k = None"
      "st_lookup st2 = (st_lookup st1)(k \<mapsto> data)" by blast
    with 1(3-5) j True st1(2) st2(2) None show ?thesis
      by (intro exI [of _ k]) (auto simp: fun_upd_def split: if_splits)
  next
    case False
    with 1 j st1(2) None show ?thesis by (intro exI [of _ j]) auto
  qed
next
  case (Some i)
  with assms(4) obtain d0 where i: "0 < i" "st_lookup (b_store s) i = Some d0" by (auto simp: known_id_def)
  from assms(1) obtain st1 k1 where st1: "st_set (c_now C) (b_store s) data (Some i) = Inr (st1, k1)" "s' = s\<lparr>b_store := st1\<rparr>" "ob' = ob"
    by (auto simp: put_object_def Some ebind_eq_Inr store_set_run split: sum.splits prod.splits)
  from st.put_old [OF assms(2,3) i(2) st1(1)] i(1) Some st1(2,3) show ?thesis
    by (intro exI [of _ i]) auto
qed

text \<open>Storing without indexing, and what the index adds.\<close>

lemma model_set_store:
  assumes "model_set C ob index True s = (s', r)" "quiet C" "o_aclobj ob = None" "o_nid ob \<noteq> 0"
  shows "(\<exists>e. r = Inl e \<and> model_set C ob False True s = (s', Inl e))
    \<or> (\<exists>data s1 ob1. object_bytes C (with_acl ob) = Inr data \<and> put_object C (with_acl ob) data s = (s1, Inr ob1)
        \<and> model_set C ob False True s = (s1, Inr ob1)
        \<and> (if index then (case index_set C ob1 s1 of (s2, Inl e) \<Rightarrow> s' = s2 \<and> r = Inl e | (s2, Inr _) \<Rightarrow> s' = s2 \<and> r = Inr ob1)
           else s' = s1 \<and> r = Inr ob1))"
proof -
  have run: "model_set C ob index True s = (case object_bytes C (with_acl ob) of Inl e \<Rightarrow> (s, Inl e)
     | Inr data \<Rightarrow> (case put_object C (with_acl ob) data s of (s1, Inl e) \<Rightarrow> (s1, Inl e)
        | (s1, Inr ob1) \<Rightarrow> if index then (case index_set C ob1 s1 of (s2, Inl e) \<Rightarrow> (s2, Inl e) | (s2, Inr _) \<Rightarrow> (s2, Inr ob1))
            else (s1, Inr ob1)))" for index
    using assms(2-4) by (auto simp: model_set_def trig_quiet set_acl_none ebind_app split: sum.splits prod.splits)
  show ?thesis
  proof (cases "object_bytes C (with_acl ob)")
    case (Inl e)
    then show ?thesis using assms(1) run [of index] run [of False] by auto
  next
    case data: (Inr data)
    obtain s1 r1 where p: "put_object C (with_acl ob) data s = (s1, r1)" by (cases "put_object C (with_acl ob) data s")
    show ?thesis
    proof (cases r1)
      case (Inl e)
      then show ?thesis using assms(1) run [of index] run [of False] data p by auto
    next
      case (Inr ob1)
      have f: "model_set C ob False True s = (s1, Inr ob1)" using run [of False] data p Inr by simp
      have i: "model_set C ob index True s = (if index then (case index_set C ob1 s1 of (s2, Inl e) \<Rightarrow> (s2, Inl e) | (s2, Inr _) \<Rightarrow> (s2, Inr ob1))
            else (s1, Inr ob1))"
        using run [of index] data p Inr by simp
      show ?thesis
        using assms(1) data p Inr f i
        by (intro disjI2 exI [of _ data] exI [of _ s1] exI [of _ ob1]) (auto split: prod.splits sum.splits if_splits)
    qed
  qed
qed

lemma index_set_store: "index_set C ob s = (s', r) \<Longrightarrow> b_store s' = b_store s"
  by (auto simp: index_set_def sql_index_set_def ebind_app split: sum.splits prod.splits option.splits if_splits)

lemma model_get_stored:
  assumes "st_lookup (b_store s) k = Some data" "st_wf (b_store s)" "unserialize C k data = Inr ob" "quiet C" "k \<noteq> 0" "data \<noteq> []"
  shows "model_get C k die s = (s, Inr (Some ob))"
  using st_lookup_get [OF assms(2,1)] assms by (simp add: model_get_def trig_quiet)

lemma model_set_stored:
  assumes "model_set C ob False True s = (s1, Inr ob1)" "quiet C" "benv_laws (c_env C)" "own_obj C ob" "o_nid ob \<noteq> 0"
    "st_wf (b_store s)" "known_id s ob"
  shows "\<exists>k>0. o_id ob1 = Some k \<and> ob1 = (with_acl ob)\<lparr>o_id := Some k\<rparr> \<and> st_wf (b_store s1) \<and> b_tab s1 = b_tab s
    \<and> (o_id ob = None \<longrightarrow> st_lookup (b_store s) k = None) \<and> (o_id ob = None \<or> o_id ob = Some k)
    \<and> (\<forall>s2 die. b_store s2 = b_store s1 \<longrightarrow> model_get C k die s2 = (s2, Inr (Some ob1)))"
proof -
  obtain data where d: "object_bytes C (with_acl ob) = Inr data" "put_object C (with_acl ob) data s = (s1, Inr ob1)"
    using model_set_store [OF assms(1,2) _ assms(5)] assms(4) by (auto simp: own_obj_def)
  have ne: "data \<noteq> []" using d(1) assms(3) by (auto simp: object_bytes_def rbind_eq_Inr benv_laws_def)
  have kn: "known_id s (with_acl ob)" using assms(7) by (simp add: known_id_def)
  obtain k where k: "0 < k" "ob1 = (with_acl ob)\<lparr>o_id := Some k\<rparr>" "st_wf (b_store s1)" "st_lookup (b_store s1) k = Some data"
    "b_tab s1 = b_tab s" "o_id ob = None \<longrightarrow> st_lookup (b_store s) k = None" "o_id ob = None \<or> o_id ob = Some k"
    using put_object_stored [OF d(2) assms(6) ne kn] by auto
  have own: "own_obj C (with_acl ob)" using assms(4) by (auto simp: own_obj_def with_acl_def)
  have "unserialize C k data = Inr ob1"
    unfolding k(2) using k(1,7) by (intro unserialize_object [OF d(1) assms(3) own assms(2)]) auto
  then have "model_get C k die s2 = (s2, Inr (Some ob1))" if "b_store s2 = b_store s1" for s2 die
    using that k(1,3,4) ne assms(2) by (intro model_get_stored) auto
  with k show ?thesis by auto
qed

lemma model_set_returns:
  assumes "model_set C ob index True s = (s', Inr ob')" "quiet C" "o_aclobj ob = None" "o_nid ob \<noteq> 0"
  shows "\<exists>s1. model_set C ob False True s = (s1, Inr ob')
    \<and> (if index then index_set C ob' s1 = (s', Inr ()) else s' = s1)"
  using model_set_store [OF assms] by (auto split: if_splits prod.splits sum.splits)

text \<open>C8: Reading back what was stored: after an object of the current schema was set (a new one or one the store has), getting
  its id gives exactly the object that \<^verbatim>\<open>set\<close> returned: same properties, namespace and acl, with a positive id. This holds
  for every storage client, as long as triggers leave the object alone.\<close>

theorem set_then_get:
  assumes "model_set C ob index True s = (s', Inr ob')" "quiet C" "benv_laws (c_env C)" "own_obj C ob" "o_nid ob \<noteq> 0"
    "st_wf (b_store s)" "known_id s ob"
  shows "\<exists>k>0. ob' = (with_acl ob)\<lparr>o_id := Some k\<rparr> \<and> model_get C k die s' = (s', Inr (Some ob'))"
proof -
  obtain s1 where s1: "model_set C ob False True s = (s1, Inr ob')" "if index then index_set C ob' s1 = (s', Inr ()) else s' = s1"
    using model_set_returns [OF assms(1,2) _ assms(5)] assms(4) by (auto simp: own_obj_def)
  have "b_store s' = b_store s1" using s1(2) index_set_store by (auto split: if_splits)
  with model_set_stored [OF s1(1) assms(2-7)] show ?thesis by auto
qed

section \<open>The index table after an operation\<close>

lemma itable_create: "itable_laws uniq X \<Longrightarrow> x_create X t r = Some t' \<Longrightarrow>
    (\<forall>q\<in>set (x_rows X t). \<not> row_conflict uniq r q) \<and> x_rows X t' = x_rows X t @ [r]"
  unfolding itable_laws_def by blast

lemma itable_update: "itable_laws uniq X \<Longrightarrow> x_update X t r = Some t' \<Longrightarrow>
    (\<forall>q\<in>set (x_rows X t). r_id q \<noteq> r_id r \<longrightarrow> \<not> row_conflict uniq r q)
    \<and> x_rows X t' = map (\<lambda>q. if r_id q = r_id r then r else q) (x_rows X t)"
  unfolding itable_laws_def by blast

lemma itable_conflict:
  assumes "itable_laws uniq X" "q \<in> set (x_rows X t)" "r_id q \<noteq> r_id r" "row_conflict uniq r q"
  shows "x_create X t r = None" "x_update X t r = None"
proof -
  show "x_create X t r = None"
    using itable_create [OF assms(1), of t r] assms(2,4) by (cases "x_create X t r") auto
  show "x_update X t r = None"
    using itable_update [OF assms(1), of t r] assms(2-4) by (cases "x_update X t r") auto
qed

lemma itable_delete: "itable_laws uniq X \<Longrightarrow> x_rows X (x_delete X t p) = filter (\<lambda>q. \<not> p q) (x_rows X t)"
  unfolding itable_laws_def by blast

lemma itable_select: "itable_laws uniq X \<Longrightarrow> x_select X t wh = map r_id (filter (row_matches X wh) (x_rows X t))"
  unfolding itable_laws_def by blast

lemma itable_eq:
  assumes "itable_laws uniq X"
  shows "\<not> x_eq X c PNone v" "\<not> x_eq X c v PNone" "x_eq X c (PInt i) (PInt k) = (i = k)" "x_eq X ''name'' v (PStr n) = (v = PStr n)"
  using assms by (simp_all add: itable_laws_def eq_laws_def)

lemma row_matches_name: "itable_laws uniq X \<Longrightarrow> row_matches X [(''name'', PStr n)] r = (row_val r ''name'' = Some (PStr n))"
  by (auto simp: row_matches_def itable_eq split: option.splits)

lemma row_matches_id: "itable_laws uniq X \<Longrightarrow> row_matches X [(''id'', PInt i)] r = (r_id r = i)"
  by (simp add: row_matches_def row_val_def itable_eq)

definition uniq_cols :: "('a, 'b, 'c, 't) bconf \<Rightarrow> string list" where
  "uniq_cols C = map if_name (filter if_unique (c_fields C))"

definition tab_wf :: "('a, 'b, 'c, 't) bconf \<Rightarrow> ('a, 'b, 'c, 't) bstate \<Rightarrow> bool" where
  \<comment> \<open>no two rows have the same id or the same value in a unique column\<close>
  "tab_wf C s = sorted_wrt (\<lambda>q r. \<not> row_conflict (uniq_cols C) r q) (x_rows (c_tab C) (b_tab s))"

lemma row_conflict_sym: "row_conflict u r q = row_conflict u q r"
  unfolding row_conflict_def list_ex_iff by (metis (no_types, lifting))

lemma sorted_wrt_replace:
  assumes "sorted_wrt (\<lambda>q r. \<not> row_conflict u r q) rows" "\<forall>q\<in>set rows. r_id q \<noteq> r_id r \<longrightarrow> \<not> row_conflict u r q"
  shows "sorted_wrt (\<lambda>q r. \<not> row_conflict u r q) (map (\<lambda>q. if r_id q = r_id r then r else q) rows)"
  using assms
proof (induction rows)
  case Nil
  then show ?case by simp
next
  case (Cons x rows)
  have ids: "\<forall>q\<in>set rows. r_id q \<noteq> r_id x" using Cons.prems(1) by (auto simp: row_conflict_def)
  show ?case
    using Cons ids row_conflict_sym [of u r] by (auto split: if_splits)
qed

lemma keeps_tab_delete: "itable_laws (uniq_cols C) (c_tab C) \<Longrightarrow> keeps (tab_wf C) (tab_delete C p)"
  unfolding tab_delete_def
  by (intro keeps_emod) (auto simp: tab_wf_def itable_delete sorted_wrt_filter)

lemma keeps_sql_index_set:
  assumes "itable_laws (uniq_cols C) (c_tab C)"
  shows "keeps (tab_wf C) (sql_index_set C ob)"
proof (rule keepsI)
  fix s s' r
  assume s: "tab_wf C s" "sql_index_set C ob s = (s', r)"
  show "tab_wf C s'"
  proof (cases "index_row C ob")
    case (Inl e)
    then show ?thesis using s by (simp add: sql_index_set_def)
  next
    case (Inr row)
    let ?X = "c_tab C" let ?t = "b_tab s"
    let ?z = "x_select ?X ?t [(''id'', PInt (r_id row))]"
    show ?thesis
    proof (cases "if ?z = [] then x_create ?X ?t row else x_update ?X ?t row")
      case None
      then show ?thesis using s Inr by (simp add: sql_index_set_def)
    next
      case (Some t')
      then have s': "s' = s\<lparr>b_tab := t'\<rparr>" using s Inr by (simp add: sql_index_set_def)
      have wf: "sorted_wrt (\<lambda>q r. \<not> row_conflict (uniq_cols C) r q) (x_rows ?X ?t)" using s(1) by (simp add: tab_wf_def)
      show ?thesis
      proof (cases "?z = []")
        case True
        with Some have "x_create ?X ?t row = Some t'" by simp
        from itable_create [OF assms this] wf show ?thesis by (auto simp: tab_wf_def s' sorted_wrt_append)
      next
        case False
        with Some have "x_update ?X ?t row = Some t'" by simp
        from itable_update [OF assms this] wf show ?thesis by (simp add: tab_wf_def s' sorted_wrt_replace)
      qed
    qed
  qed
qed

lemma keeps_index_set: "itable_laws (uniq_cols C) (c_tab C) \<Longrightarrow> keeps (tab_wf C) (index_set C ob)"
  unfolding index_set_def by (intro keeps_rules keeps_sql_index_set)

lemma keeps_index_delete: "itable_laws (uniq_cols C) (c_tab C) \<Longrightarrow> keeps (tab_wf C) (index_delete C ob)"
  unfolding index_delete_def by (intro keeps_rules keeps_tab_delete)

lemma tab_wf_store [simp]: "tab_wf C (s\<lparr>b_store := st\<rparr>) = tab_wf C s"
  by (simp add: tab_wf_def)

lemma keeps_store:
  "keeps (tab_wf C) (store_set C d k)" "keeps (tab_wf C) (store_delete i)" "keeps (tab_wf C) (save_acl C md5)"
  unfolding store_set_def store_delete_def save_acl_def by (intro keeps_rules; simp)+

lemma keeps_reads:
  "keeps I (model_get C i die)" "keeps I (find_query C nid limit offset args)"
  unfolding model_get_def find_query_def Let_def by (intro keeps_rules)+

lemma keeps_find: "keeps I (find_ids C n limit offset args)" "keeps I (model_find C n limit offset args)"
  unfolding model_find_def find_ids_def by (intro keeps_rules keeps_reads)+

lemma keeps_check_unique: "keeps I (check_unique C ob u)"
  unfolding check_unique_def by (intro keeps_rules keeps_find) (auto split: list.split)

lemma object_save_sets:
  assumes "object_save C ob True s = (s', Inr ob')" "\<not> c_nosave C"
  shows "model_set C ob True True s = (s', Inr ob')"
proof -
  from assms obtain s1 where c: "efor (c_unique C) (check_unique C ob) s = (s1, Inr ())" and m: "model_set C ob True True s1 = (s', Inr ob')"
    by (auto simp: object_save_def ebind_eq_Inr py_assert_def simp del: ebind_lift split: if_splits)
  have "keeps (\<lambda>t. t = s) (efor (c_unique C) (check_unique C ob))" by (intro keeps_rules keeps_check_unique)
  from keepsD [OF this refl c] m show ?thesis by simp
qed

lemma keeps_set_acl: "keeps (tab_wf C) (set_acl C ob)"
  unfolding set_acl_def Let_def by (intro keeps_rules keeps_store)

lemma keeps_put_object: "keeps (tab_wf C) (put_object C ob data)"
  unfolding put_object_def by (intro keeps_rules keeps_store)

lemma keeps_model_set: "itable_laws (uniq_cols C) (c_tab C) \<Longrightarrow> keeps (tab_wf C) (model_set C ob index store)"
  unfolding model_set_def by (intro keeps_rules keeps_set_acl keeps_put_object keeps_index_set keeps_index_delete)

lemma keeps_fst: "keeps I m \<Longrightarrow> I s \<Longrightarrow> I (fst (m s))"
  by (simp add: keeps_def)

lemma keeps_dyn:
  "(\<And>ps. keeps I (f ps)) \<Longrightarrow> (\<And>b. keeps I (g b)) \<Longrightarrow> (\<And>ob. keeps I (h ob)) \<Longrightarrow>
    keeps I (case data of DynDict ps \<Rightarrow> f ps | DynBytes b \<Rightarrow> g b | DynObj ob \<Rightarrow> h ob)"
  by (cases data) auto

text \<open>The index table never holds two rows with the same id or the same value in a unique column: saving, setting from a
  dictionary or bytes, deleting, destroying and rebuilding keep this, whether they return or raise, with any triggers.\<close>

theorem index_stays_unique:
  assumes "itable_laws (uniq_cols C) (c_tab C)" "tab_wf C s"
  shows "tab_wf C (fst (object_save C ob changed s)) \<and> tab_wf C (fst (set_dynamic C data obj_id nid s))
    \<and> tab_wf C (fst (delete_obj C ob s)) \<and> tab_wf C (fst (delete_id C i s)) \<and> tab_wf C (fst (model_destroy C nid s))
    \<and> tab_wf C (fst (index_rebuild C nid s))"
proof -
  note rules = keeps_rules keeps_model_set [OF assms(1)] keeps_find keeps_store keeps_reads keeps_tab_delete [OF assms(1)]
  have 1: "keeps (tab_wf C) (object_save C ob changed)"
    unfolding object_save_def by (intro rules keeps_check_unique)
  have 2: "keeps (tab_wf C) (set_dynamic C data obj_id nid)"
    unfolding set_dynamic_def
    by (rule keeps_ebind, rule keeps_dyn) (rule keeps_rules keeps_model_set [OF assms(1)])+
  have 3: "keeps (tab_wf C) (delete_obj C ob)" "keeps (tab_wf C) (delete_id C i)"
    unfolding delete_obj_def delete_id_def index_delete_by_id_def by (intro rules)+
  have 4: "keeps (tab_wf C) (model_destroy C nid)" "keeps (tab_wf C) (index_rebuild C nid)"
    unfolding model_destroy_def index_rebuild_def index_destroy_def by (intro rules)+
  show ?thesis by (intro conjI keeps_fst [where I = "tab_wf C" and s = s] assms(2) 1 2 3 4)
qed

text \<open>C9: When the index table refuses a new object because another row has its value in a unique column, the call raises, but
  the object is already in the store under an id of its own: it can be read by that id and no query finds it.\<close>

theorem set_conflict_orphan:
  assumes "model_set C ob False True s = (s1, Inr ob1)" "quiet C" "benv_laws (c_env C)" "own_obj C ob" "o_nid ob \<noteq> 0"
    "st_wf (b_store s)" "o_id ob = None" "itable_laws (uniq_cols C) (c_tab C)"
    "index_row C ob1 = Inr r" "q \<in> set (x_rows (c_tab C) (b_tab s))" "r_id q \<noteq> r_id r" "row_conflict (uniq_cols C) r q"
  shows "model_set C ob True True s = (s1, Inl E_Input) \<and> b_tab s1 = b_tab s
    \<and> (\<exists>k. o_id ob1 = Some k \<and> st_lookup (b_store s) k = None \<and> model_get C k True s1 = (s1, Inr (Some ob1)))"
proof -
  have "known_id s ob" using assms(7) by (simp add: known_id_def)
  from model_set_stored [OF assms(1-6) this] obtain k where k: "0 < k" "o_id ob1 = Some k" "b_tab s1 = b_tab s"
    "st_lookup (b_store s) k = None" "model_get C k True s1 = (s1, Inr (Some ob1))" using assms(7) by blast
  have "index_set C ob1 s1 = (s1, Inl E_Input)"
    using itable_conflict [OF assms(8,10-12)] k(3)
    by (simp add: index_set_def sql_index_set_def assms(9) ebind_app)
  moreover have "o_aclobj ob = None" using assms(4) by (simp add: own_obj_def)
  ultimately have "model_set C ob True True s = (s1, Inl E_Input)"
    using assms(1,2,5)
    by (auto simp: model_set_def trig_quiet set_acl_none ebind_app split: sum.splits prod.splits)
  with k show ?thesis by blast
qed

lemma delete_run:
  "ebind (store_delete k) (\<lambda>_. index_delete_by_id C k) s =
    (case st_delete (b_store s) k of Inl e \<Rightarrow> (s, Inl e)
     | Inr st \<Rightarrow> (s\<lparr>b_store := st, b_tab := x_delete (c_tab C) (b_tab s) (\<lambda>r. r_id r = k)\<rparr>, Inr ()))"
  by (auto simp: ebind_app store_delete_run index_delete_by_id_def tab_delete_def split: sum.split)

text \<open>Deleting an object removes its record and its index rows, and nothing else: getting the id then finds nothing, every
  other object is still there.\<close>

theorem delete_removes:
  assumes "delete_obj C ob s = (s', Inr ())" "quiet C" "st_wf (b_store s)" "itable_laws (uniq_cols C) (c_tab C)"
    "o_id ob = Some k" "0 < k"
  shows "st_wf (b_store s') \<and> st_lookup (b_store s') = (st_lookup (b_store s))(k := None)
    \<and> x_rows (c_tab C) (b_tab s') = filter (\<lambda>r. r_id r \<noteq> k) (x_rows (c_tab C) (b_tab s))"
proof -
  have "ebind (store_delete k) (\<lambda>_. index_delete_by_id C k) s = (s', Inr ())"
    using assms(1,2,5) by (auto simp: delete_obj_def trig_quiet split: if_splits)
  then obtain st where st: "st_delete (b_store s) k = Inr st"
    "s' = s\<lparr>b_store := st, b_tab := x_delete (c_tab C) (b_tab s) (\<lambda>r. r_id r = k)\<rparr>"
    by (auto simp: delete_run split: sum.splits)
  from st.del_key [OF assms(3,6) st(1)] st(2) itable_delete [OF assms(4)] show ?thesis by simp
qed

lemma efor_store_delete:
  assumes "efor ids store_delete s = (s', Inr ())" "st_wf (b_store s)" "list_all (\<lambda>i. 0 < i) ids"
  shows "st_wf (b_store s') \<and> b_tab s' = b_tab s
    \<and> (\<forall>k. st_lookup (b_store s') k = (if k \<in> set ids then None else st_lookup (b_store s) k))"
  using assms
proof (induction ids arbitrary: s)
  case Nil
  then show ?case by simp
next
  case (Cons i ids)
  from Cons.prems(1) obtain s1 where s1: "store_delete i s = (s1, Inr ())" "efor ids store_delete s1 = (s', Inr ())"
    by (auto simp: ebind_eq_Inr)
  then obtain st where st: "st_delete (b_store s) i = Inr st" "s1 = s\<lparr>b_store := st\<rparr>"
    by (auto simp: store_delete_run split: sum.splits)
  have "st_wf st \<and> st_lookup st = (st_lookup (b_store s))(i := None)"
    using st.del_key [OF Cons.prems(2) _ st(1)] Cons.prems(3) by simp
  with Cons.IH [OF s1(2)] st(2) Cons.prems(3) show ?case by auto
qed

lemma find_ids_all:
  assumes "itable_laws (uniq_cols C) (c_tab C)"
  shows "find_ids C n None None [] s = (s, Inr (map r_id (x_rows (c_tab C) (b_tab s))))"
  using itable_select [OF assms] by (simp add: find_ids_def find_query_def row_matches_def)

text \<open>Destroying a model for one namespace deletes the stored objects of all namespaces, while of the index only the rows of
  namespace 1 go: every row that is left refers to an object that no longer exists.\<close>

theorem destroy_hits_all_namespaces:
  assumes "model_destroy C nid s = (s', Inr ())" "st_wf (b_store s)" "itable_laws (uniq_cols C) (c_tab C)"
    "list_all (\<lambda>r. 0 < r_id r) (x_rows (c_tab C) (b_tab s))"
  shows "x_rows (c_tab C) (b_tab s') = filter (\<lambda>r. r_nid r \<noteq> 1) (x_rows (c_tab C) (b_tab s))
    \<and> list_all (\<lambda>r. st_lookup (b_store s') (r_id r) = None) (x_rows (c_tab C) (b_tab s))"
proof -
  let ?rows = "x_rows (c_tab C) (b_tab s)"
  obtain s1 where s1: "efor (map r_id ?rows) store_delete s = (s1, Inr ())" "index_destroy C 1 s1 = (s', Inr ())"
    using assms(1) find_ids_all [OF assms(3), of "Some nid" s]
    by (auto simp: model_destroy_def ebind_eq_Inr split: if_splits)
  have pos: "list_all (\<lambda>i. 0 < i) (map r_id ?rows)" using assms(4) by (simp add: list_all_iff)
  note d = efor_store_delete [OF s1(1) assms(2) pos]
  have "s' = s1\<lparr>b_tab := x_delete (c_tab C) (b_tab s1) (\<lambda>r. r_nid r = 1)\<rparr>"
    using s1(2) by (simp add: index_destroy_def tab_delete_def)
  then show ?thesis using d itable_delete [OF assms(3)] by (simp add: list_all_iff)
qed

text \<open>Rebuilding the index of a model empties it: when all rows belong to the namespace that is rebuilt, the call
  returns and the index has no row at all, so no object of the model can be found any more.\<close>

theorem rebuild_empties_index:
  assumes "itable_laws (uniq_cols C) (c_tab C)" "nid \<noteq> 0" "list_all (\<lambda>r. r_nid r = nid) (x_rows (c_tab C) (b_tab s))"
  shows "\<exists>s'. index_rebuild C nid s = (s', Inr ()) \<and> x_rows (c_tab C) (b_tab s') = [] \<and> b_store s' = b_store s
    \<and> find_ids C None None None [] s' = (s', Inr [])"
proof -
  define s1 where "s1 = s\<lparr>b_tab := x_delete (c_tab C) (b_tab s) (\<lambda>r. nid = 0 \<or> r_nid r = nid)\<rparr>"
  have rows: "x_rows (c_tab C) (b_tab s1) = []"
    using itable_delete [OF assms(1)] assms(3) by (auto simp: s1_def list_all_iff)
  then have ids: "find_ids C n None None [] s1 = (s1, Inr [])" for n
    using find_ids_all [OF assms(1), of n s1] by simp
  have "index_destroy C nid s = (s1, Inr ())" by (simp add: index_destroy_def tab_delete_def s1_def)
  then have "index_rebuild C nid s = (s1, Inr ())" by (simp add: index_rebuild_def ebind_app ids)
  then show ?thesis using rows ids by (auto simp: s1_def)
qed

text \<open>A schema with a property that is unique but not indexed (a plain \<^verbatim>\<open>name\<close>) has objects that cannot be saved: the
  uniqueness check asks the index table for a column it does not have.\<close>

theorem save_needs_indexed_unique:
  assumes "c_unique C = [u]" "u \<notin> set (columns C)" "\<not> c_nosave C" "check_empty C ob = Inr ()" "d_get (o_props ob) u = Some v"
  shows "object_save C ob True s = (s, Inl P_Exception)"
  using assms
  by (simp add: object_save_def check_unique_def model_find_def find_ids_def find_query_def ebind_app)

section \<open>A model on the memory stores\<close>

text \<open>Concrete arguments for the theorems above: the redis client on a list, a table that is a list of rows, and plain
  encodings of objects whose only property is a name.\<close>

definition mem_matches :: "(string \<times> pyval) list \<Rightarrow> irow \<Rightarrow> bool" where
  "mem_matches wh r = list_all (\<lambda>(c, v). row_val r c = Some v \<and> v \<noteq> PNone) wh"

definition mem_itable :: "string list \<Rightarrow> irow list itable" where
  "mem_itable uniq = \<lparr>x_rows = (\<lambda>t. t), x_eq = (\<lambda>c v w. v = w \<and> v \<noteq> PNone),
     x_create = (\<lambda>t r. if list_ex (row_conflict uniq r) t then None else Some (t @ [r])),
     x_update = (\<lambda>t r. if list_ex (\<lambda>q. r_id q \<noteq> r_id r \<and> row_conflict uniq r q) t then None
        else Some (map (\<lambda>q. if r_id q = r_id r then r else q) t)),
     x_delete = (\<lambda>t p. filter (\<lambda>q. \<not> p q) t),
     x_select = (\<lambda>t wh. map r_id (filter (mem_matches wh) t))\<rparr>"

lemma mem_itable_laws: "itable_laws uniq (mem_itable uniq)"
proof -
  have m: "row_matches (mem_itable uniq) wh = mem_matches wh" for wh
    by (rule ext, induction wh) (auto simp: row_matches_def mem_matches_def mem_itable_def split: option.splits)
  have e: "eq_laws (mem_itable uniq)" by (auto simp: eq_laws_def mem_itable_def)
  show ?thesis unfolding itable_laws_def m using e by (auto simp: mem_itable_def list_ex_iff split: if_splits)
qed

definition name_bytes :: "props \<Rightarrow> bytes" where
  "name_bytes ps = (case ps of [(k, PStr s)] \<Rightarrow> encode s | _ \<Rightarrow> [])"

definition sample_md5 :: string where
  "sample_md5 = ''000102030405060708090a0b0c0d0e0f''"

definition plain_env :: benv where
  "plain_env = \<lparr>e_capnp = (\<lambda>m. name_bytes), e_uncapnp = (\<lambda>m b. Inr [(''name'', PStr (map char_of_byte b))]),
     e_pack = (\<lambda>n a b. le_bytes 8 n @ le_bytes 8 a @ b),
     e_unpack = (\<lambda>d. Inr (Some (le_int (take 8 d), le_int (take 8 (drop 8 d)), drop 16 d))),
     e_encrypt = (\<lambda>b. b), e_decrypt = Inr, e_newest = (\<lambda>m. Inr (''a.b.1'', sample_md5)), e_new = Inr, e_usd = (\<lambda>v. v)\<rparr>"

lemma plain_env_laws: "benv_laws plain_env"
proof -
  have l: "length (le_bytes 8 i) = 8" for i by (rule length_le_bytes)
  have n: "le_bytes 8 i \<noteq> []" for i using l [of i] by (metis list.size(3) zero_neq_numeral)
  show ?thesis using l n le_int_le_bytes [of _ 8]
    by (auto simp: benv_laws_def plain_env_def simp del: le_bytes.simps)
qed

type_synonym mem_state = "(memsrv, memtab, memzdb, irow list) bstate"

definition mem_conf :: "(memsrv, memtab, memzdb, irow list) bconf" where
  "mem_conf = \<lparr>c_now = 7, c_env = plain_env, c_tab = mem_itable [''name''],
     c_fields = [\<lparr>if_name = ''name'', if_attr = [], if_numeric = False, if_unique = True, if_type = TextField\<rparr>],
     c_unique = [''name''], c_props = [''name''], c_url = ''a.b.1'', c_md5 = sample_md5, c_triggers = [], c_nosave = False,
     c_readonly = False, c_acl_save = (\<lambda>m st. Inl E_Base), c_acl_md5 = (\<lambda>st i. Inl E_Base)\<rparr>"

definition mem_start :: "irow list \<Rightarrow> mem_state" where
  "mem_start rows = \<lparr>b_store = SRdb mem_rdb, b_tab = rows\<rparr>"

definition named_obj :: "string \<Rightarrow> jobj" where
  "named_obj n = \<lparr>o_id = None, o_nid = 1, o_acl = None, o_aclobj = None, o_url = ''a.b.1'', o_md5 = sample_md5,
     o_props = [(''name'', PStr n)]\<rparr>"

definition named_row :: "int \<Rightarrow> int \<Rightarrow> string \<Rightarrow> irow" where
  "named_row i nid n = \<lparr>r_id = i, r_nid = nid, r_cols = [(''name'', PStr n)]\<rparr>"

lemma mem_conf_simps [simp]: "c_env mem_conf = plain_env" "c_tab mem_conf = mem_itable [''name'']" "c_md5 mem_conf = sample_md5"
  "c_url mem_conf = ''a.b.1''" "c_nosave mem_conf = False" "uniq_cols mem_conf = [''name'']" "c_unique mem_conf = [''name'']"
  by (simp_all add: mem_conf_def uniq_cols_def)

lemma quiet_mem: "quiet mem_conf"
  by (simp add: quiet_def mem_conf_def)

lemma itable_mem: "itable_laws (uniq_cols mem_conf) (c_tab mem_conf)"
  using mem_itable_laws [of "[''name'']"] by simp

lemma wf_mem: "st_wf (b_store (mem_start rows))"
  by (simp add: mem_start_def mem_rdb_wf)

lemma own_named: "own_obj mem_conf (named_obj n)"
proof -
  have "md5_text sample_md5" by code_simp
  then show ?thesis
    by (simp add: own_obj_def named_obj_def plain_env_def name_bytes_def encode_def o_def)
qed

definition run_ok :: "'s \<times> 'a res \<Rightarrow> bool" where
  "run_ok r = (case snd r of Inl _ \<Rightarrow> False | Inr _ \<Rightarrow> True)"

lemma run_okE: "run_ok (m s) \<Longrightarrow> (\<And>s' x. m s = (s', Inr x) \<Longrightarrow> P) \<Longrightarrow> P"
  by (cases "m s") (auto simp: run_ok_def split: sum.splits)

theorem set_then_get_witness:
  "\<exists>s' ob'. model_set mem_conf (named_obj ''x'') True True (mem_start []) = (s', Inr ob')
     \<and> o_props ob' = [(''name'', PStr ''x'')] \<and> (\<exists>k>0. model_get mem_conf k True s' = (s', Inr (Some ob')))"
proof -
  have "run_ok (model_set mem_conf (named_obj ''x'') True True (mem_start []))" by code_simp
  then obtain s' ob' where a: "model_set mem_conf (named_obj ''x'') True True (mem_start []) = (s', Inr ob')" by (rule run_okE)
  have l: "benv_laws (c_env mem_conf)" by (simp add: plain_env_laws)
  have i: "o_nid (named_obj ''x'') \<noteq> 0" "known_id (mem_start []) (named_obj ''x'')" by (simp_all add: named_obj_def known_id_def)
  from set_then_get [OF a quiet_mem l own_named i(1) wf_mem i(2), of True] a show ?thesis by (auto simp: named_obj_def)
qed

theorem index_stays_unique_witness:
  "tab_wf mem_conf (fst (object_save mem_conf (named_obj ''x'') True (mem_start [named_row 5 1 ''y''])))
    \<and> length (x_rows (c_tab mem_conf) (b_tab (fst (object_save mem_conf (named_obj ''x'') True (mem_start [named_row 5 1 ''y'']))))) = 2"
proof -
  have wf: "tab_wf mem_conf (mem_start [named_row 5 1 ''y''])" by (simp add: tab_wf_def mem_start_def mem_itable_def)
  have n: "length (x_rows (c_tab mem_conf) (b_tab (fst (object_save mem_conf (named_obj ''x'') True (mem_start [named_row 5 1 ''y'']))))) = 2"
    by code_simp
  from index_stays_unique [OF itable_mem wf] n show ?thesis by blast
qed

theorem set_conflict_orphan_witness:
  "\<exists>s1 k ob1. model_set mem_conf (named_obj ''x'') True True (mem_start [named_row 5 1 ''x'']) = (s1, Inl E_Input)
     \<and> model_get mem_conf k True s1 = (s1, Inr (Some ob1)) \<and> k \<noteq> 5"
proof -
  let ?s = "mem_start [named_row 5 1 ''x'']"
  have "run_ok (model_set mem_conf (named_obj ''x'') False True ?s)" by code_simp
  then obtain s1 ob1 where a: "model_set mem_conf (named_obj ''x'') False True ?s = (s1, Inr ob1)" by (rule run_okE)
  have "map_sum id o_id (snd (model_set mem_conf (named_obj ''x'') False True ?s)) = Inr (Some 1)" by code_simp
  then have i1: "o_id ob1 = Some 1" using a by simp
  have "map_sum id (index_row mem_conf) (snd (model_set mem_conf (named_obj ''x'') False True ?s)) = Inr (Inr (named_row 1 1 ''x''))" by code_simp
  then have r: "index_row mem_conf ob1 = Inr (named_row 1 1 ''x'')" using a by simp
  have l: "benv_laws (c_env mem_conf)" by (simp add: plain_env_laws)
  have i: "o_nid (named_obj ''x'') \<noteq> 0" "o_id (named_obj ''x'') = None" by (simp_all add: named_obj_def)
  have q: "named_row 5 1 ''x'' \<in> set (x_rows (c_tab mem_conf) (b_tab ?s))" by (simp add: mem_start_def mem_itable_def)
  have c: "row_conflict (uniq_cols mem_conf) (named_row 1 1 ''x'') (named_row 5 1 ''x'')" by (simp add: row_conflict_def row_val_def named_row_def)
  have ne: "r_id (named_row 5 1 ''x'') \<noteq> r_id (named_row 1 1 ''x'')" by (simp add: named_row_def)
  from set_conflict_orphan [OF a quiet_mem l own_named i(1) wf_mem i(2) itable_mem r q ne c] i1 show ?thesis by auto
qed

theorem delete_removes_witness:
  "\<exists>s'. delete_obj mem_conf ((named_obj ''x'')\<lparr>o_id := Some 5\<rparr>) (mem_start [named_row 5 1 ''x'']) = (s', Inr ())
     \<and> x_rows (c_tab mem_conf) (b_tab s') = []"
proof -
  let ?ob = "(named_obj ''x'')\<lparr>o_id := Some 5\<rparr>"
  have "run_ok (delete_obj mem_conf ?ob (mem_start [named_row 5 1 ''x'']))" by code_simp
  then obtain s' where a: "delete_obj mem_conf ?ob (mem_start [named_row 5 1 ''x'']) = (s', Inr ())" by (rule run_okE) simp
  from delete_removes [OF a quiet_mem wf_mem itable_mem, of 5] a show ?thesis
    by (simp add: named_obj_def mem_start_def named_row_def) (simp add: mem_itable_def)
qed

theorem destroy_hits_all_namespaces_witness:
  "\<exists>s'. model_destroy mem_conf 1 (mem_start [named_row 5 1 ''x'', named_row 6 2 ''y'']) = (s', Inr ())
     \<and> x_rows (c_tab mem_conf) (b_tab s') = [named_row 6 2 ''y''] \<and> st_lookup (b_store s') 6 = None"
proof -
  let ?s = "mem_start [named_row 5 1 ''x'', named_row 6 2 ''y'']"
  have "run_ok (model_destroy mem_conf 1 ?s)" by code_simp
  then obtain s' where a: "model_destroy mem_conf 1 ?s = (s', Inr ())" by (rule run_okE) simp
  have p: "list_all (\<lambda>r. 0 < r_id r) (x_rows (c_tab mem_conf) (b_tab ?s))" by (simp add: mem_start_def mem_itable_def named_row_def)
  from destroy_hits_all_namespaces [OF a wf_mem itable_mem p] a show ?thesis
    by (simp add: mem_start_def named_row_def) (simp add: mem_itable_def)
qed

theorem rebuild_empties_index_witness:
  "\<exists>s'. index_rebuild mem_conf 1 (mem_start [named_row 5 1 ''x'']) = (s', Inr ()) \<and> x_rows (c_tab mem_conf) (b_tab s') = []"
proof -
  have "list_all (\<lambda>r. r_nid r = 1) (x_rows (c_tab mem_conf) (b_tab (mem_start [named_row 5 1 ''x''])))"
    by (simp add: mem_start_def mem_itable_def named_row_def)
  from rebuild_empties_index [OF itable_mem _ this] show ?thesis by auto
qed

theorem save_needs_indexed_unique_witness:
  "object_save (mem_conf\<lparr>c_fields := []\<rparr>) (named_obj ''x'') True (mem_start []) = (mem_start [], Inl P_Exception)"
  by (rule save_needs_indexed_unique [where v = "PStr ''x''" and u = "''name''"])
    (simp_all add: columns_def check_empty_def named_obj_def)

end
