(* ===== verification/Jobs.thy ===== *)
theory Jobs
  imports Effects PyStr
begin

text \<open>
  The job server (\<^verbatim>\<open>servers/myjobs\<close>): jobs are records of a BCDB model, their ids wait in a redis list, and
  worker processes take them from there, look at their dependencies and run them. A worker process is a program counter
  with its local copies of the worker and job objects; \<open>proc_step\<close> runs it up to its next access to shared data,
  \<open>jstep\<close> interleaves the processes with the manager, and \<open>jmove\<close> adds what clients do with job objects they hold: start a job
  again, or load one, look whether it is ready and save what they saw. The user code of a job is an argument (\<open>outcome\<close>), as is the clock.
\<close>

section \<open>Jobs and workers\<close>

datatype jobstate = NEW | ERROR | OK | RUNNING | DONE

datatype errcat = CatNA | CatTIMEOUT | CatCRASH | CatHALTED | CatERROR

record job =
  jb_name :: string
  jb_start :: int
  jb_stop :: int
  jb_state :: jobstate
  jb_cat :: errcat
  jb_timeout :: int
  jb_action :: int
  jb_result :: string
  jb_error :: string
  jb_deps :: "int list"
  jb_queues :: "string list"

datatype wstate = W_NEW | W_ERROR | W_BUSY | W_WAITING | W_HALTED

datatype wtype = TMUX | SUBPROCESS | INPROCESS

definition no_job :: int where
  "no_job = 2147483647"

record wobj =
  wo_state :: wstate
  wo_job :: int
  wo_update :: int
  wo_halt :: bool
  wo_pid :: int
  wo_nr :: int
  wo_type :: wtype

datatype qitem = QJob int | QHalt

datatype outcome = OCompile string | ORaise string | OTimeout | ONotJson string | OJson string
  \<comment> \<open>the action cannot be compiled, raises, runs out of its time, gives something json cannot write, or a json text\<close>

datatype pc =
    PGet
  | PDeps int job "int list" bool bool
  | PPut int
  | PRun int job
  | PExec int job
  | PResults int job bool
  | PTail
  | PEnd
  | PDead exn

record proc =
  pr_worker :: int
  pr_pc :: pc
  pr_obj :: wobj
  pr_push :: int
  pr_onetime :: bool

record jsys =
  s_jobs :: "int \<rightharpoonup> job"
  s_next :: int
  s_actions :: "int list"
  s_queue :: "qitem list"
  s_ret :: "(string \<times> (int \<times> string \<times> jobstate)) list"
  s_workers :: "int \<rightharpoonup> wobj"
  s_procs :: "int \<rightharpoonup> proc"
  s_seen :: "int \<rightharpoonup> int \<times> job"
    \<comment> \<open>the job object a client holds, as it was when it was loaded\<close>

section \<open>The worker process\<close>

definition job_save :: "int \<Rightarrow> job \<Rightarrow> jsys \<Rightarrow> jsys" where
  "job_save k jb s = s\<lparr>s_jobs := (s_jobs s)(k \<mapsto> jb)\<rparr>"

definition worker_save :: "int \<Rightarrow> wobj \<Rightarrow> jsys \<Rightarrow> jsys" where
  "worker_save i w s = s\<lparr>s_workers := (s_workers s)(i \<mapsto> w)\<rparr>"

definition queue_put :: "qitem \<Rightarrow> jsys \<Rightarrow> jsys" where
  "queue_put x s = s\<lparr>s_queue := s_queue s @ [x]\<rparr>"

definition result_key :: "string \<Rightarrow> string" where
  "result_key q = ''myjobs:'' @ q"

definition queue_results :: "int \<Rightarrow> job \<Rightarrow> jsys \<Rightarrow> jsys" where
  "queue_results k jb s = s\<lparr>s_ret := s_ret s @ map (\<lambda>q. (result_key q, (k, jb_result jb, jb_state jb))) (jb_queues jb)\<rparr>"

definition state_set :: "wstate \<Rightarrow> int \<Rightarrow> wobj \<Rightarrow> wobj" where
  "state_set st now w = w\<lparr>wo_state := st, wo_job := no_job, wo_update := now\<rparr>"

definition proc_start :: "int \<Rightarrow> int \<Rightarrow> int \<Rightarrow> bool \<Rightarrow> jsys \<Rightarrow> jsys" where
  \<comment> \<open>a new process \<^verbatim>\<open>pid\<close> for a worker that is known\<close>
  "proc_start now pid i onetime s = (case s_workers s i of None \<Rightarrow> s
   | Some w \<Rightarrow> let w' = (state_set W_WAITING now w)\<lparr>wo_pid := pid\<rparr>
       in (worker_save i w' s)\<lparr>s_procs := (s_procs s)(pid \<mapsto> \<lparr>pr_worker = i, pr_pc = PGet, pr_obj = w', pr_push = now, pr_onetime = onetime\<rparr>)\<rparr>)"

definition take_job :: "int \<Rightarrow> int \<Rightarrow> jsys \<Rightarrow> pc" where
  \<comment> \<open>an id from the queue: the job that has it, with its start time, or the next round when there is none\<close>
  "take_job now k s = (if k = 0 then PDead E_Base else case s_jobs s k of None \<Rightarrow> PGet
     | Some jb \<Rightarrow> PDeps k (jb\<lparr>jb_start := now\<rparr>) (jb_deps jb) False False)"

definition get_step :: "int \<Rightarrow> proc \<Rightarrow> jsys \<Rightarrow> proc \<times> jsys" where
  \<comment> \<open>the blocking read of the queue and what follows it. A worker that is asked to halt leaves the loop through \<^verbatim>\<open>stop\<close>,
    which calls a method that does not exist before anything is stored\<close>
  "get_step now p s = (let i = pr_worker p in case s_queue s of
     [] \<Rightarrow> if pr_onetime p then (p, s)
       else (case s_workers s i of None \<Rightarrow> (p\<lparr>pr_pc := PDead E_NotFound\<rparr>, s)
         | Some w \<Rightarrow> if wo_halt w then (p\<lparr>pr_pc := PDead P_AttributeError, pr_obj := w\<rparr>, s)
             else if now > pr_push p + 20
               then let w' = state_set W_WAITING now w in (p\<lparr>pr_obj := w', pr_push := now\<rparr>, worker_save i w' s)
             else (p\<lparr>pr_obj := w\<rparr>, s))
   | x # q \<Rightarrow> (let s' = s\<lparr>s_queue := q\<rparr> in
       case s_workers s i of None \<Rightarrow> (p\<lparr>pr_pc := PDead E_NotFound\<rparr>, s')
         | Some w \<Rightarrow> if wo_halt w \<or> x = QHalt then (p\<lparr>pr_pc := PDead P_AttributeError, pr_obj := w\<rparr>, s')
             else (case x of QHalt \<Rightarrow> (p\<lparr>pr_obj := w\<rparr>, s') | QJob k \<Rightarrow> (p\<lparr>pr_pc := take_job now k s, pr_obj := w\<rparr>, s'))))"

definition dep_failed :: "int \<Rightarrow> int \<Rightarrow> job \<Rightarrow> job" where
  "dep_failed now d jb = (let msg = ''cannot run because dependency failed: '' @ int_str d
     in jb\<lparr>jb_state := ERROR, jb_result := msg, jb_error := msg, jb_stop := now\<rparr>)"

definition dep_step :: "int \<Rightarrow> proc \<Rightarrow> int \<Rightarrow> job \<Rightarrow> int list \<Rightarrow> bool \<Rightarrow> bool \<Rightarrow> jsys \<Rightarrow> proc \<times> jsys" where
  \<comment> \<open>one dependency; after the last one the job is put back, left or run\<close>
  "dep_step now p k jb ds skip relaunch s = (case ds of
     d # ds' \<Rightarrow> (case s_jobs s d of None \<Rightarrow> (p\<lparr>pr_pc := PDead E_NotFound\<rparr>, s)
       | Some jd \<Rightarrow> if jb_state jd = ERROR
           then let jb' = dep_failed now d jb in (p\<lparr>pr_pc := PDeps k jb' ds' True relaunch\<rparr>, job_save k jb' s)
         else if jb_state jd \<noteq> OK \<and> jb_state jd \<noteq> DONE then (p\<lparr>pr_pc := PDeps k jb ds' True True\<rparr>, s)
         else (p\<lparr>pr_pc := PDeps k jb ds' skip relaunch\<rparr>, s))
   | [] \<Rightarrow> if skip \<and> relaunch then (p\<lparr>pr_pc := PPut k\<rparr>, job_save k (jb\<lparr>jb_state := NEW\<rparr>) s)
       else if skip then (p\<lparr>pr_pc := PTail\<rparr>, s) else (p\<lparr>pr_pc := PRun k jb\<rparr>, s))"

definition failed :: "int \<Rightarrow> string \<Rightarrow> job \<Rightarrow> job" where
  "failed now msg jb = jb\<lparr>jb_state := ERROR, jb_stop := now, jb_error := msg\<rparr>"

definition job_after :: "int \<Rightarrow> outcome \<Rightarrow> job \<Rightarrow> job" where
  "job_after now out jb = (case out of
     OCompile e \<Rightarrow> failed now e jb
   | ORaise e \<Rightarrow> failed now e jb
   | OTimeout \<Rightarrow> failed now ''time out'' (jb\<lparr>jb_cat := CatTIMEOUT\<rparr>)
   | ONotJson e \<Rightarrow> failed now e jb
   | OJson v \<Rightarrow> jb\<lparr>jb_result := v, jb_stop := now, jb_state := OK\<rparr>)"

fun is_ok :: "outcome \<Rightarrow> bool" where
  "is_ok (OJson v) = True"
| "is_ok _ = False"

definition proc_step :: "outcome \<Rightarrow> int \<Rightarrow> proc \<Rightarrow> jsys \<Rightarrow> proc \<times> jsys" where
  "proc_step out now p s = (let i = pr_worker p in case pr_pc p of
     PGet \<Rightarrow> get_step now p s
   | PDeps k jb ds skip relaunch \<Rightarrow> dep_step now p k jb ds skip relaunch s
   | PPut k \<Rightarrow> (p\<lparr>pr_pc := PTail\<rparr>, queue_put (QJob k) s)
   | PRun k jb \<Rightarrow> if jb_action jb \<notin> set (s_actions s) then (p\<lparr>pr_pc := PDead E_NotFound\<rparr>, s)
       else let w = (pr_obj p)\<lparr>wo_update := now, wo_job := k, wo_state := W_BUSY\<rparr>
            in (p\<lparr>pr_pc := PExec k jb, pr_obj := w\<rparr>, worker_save i w s)
   | PExec k jb \<Rightarrow> (let jb' = job_after now out jb in (p\<lparr>pr_pc := PResults k jb' (is_ok out)\<rparr>, job_save k jb' s))
   | PResults k jb ok \<Rightarrow> (let s' = queue_results k jb s in
       if \<not> ok then (p\<lparr>pr_pc := if pr_onetime p then PEnd else PGet\<rparr>, s')
       else if s_queue s' = [] then let w = state_set W_WAITING now (pr_obj p) in (p\<lparr>pr_pc := PTail, pr_obj := w\<rparr>, worker_save i w s')
       else (p\<lparr>pr_pc := PTail\<rparr>, s'))
   | PTail \<Rightarrow> if pr_onetime p then let w = state_set W_HALTED now (pr_obj p) in (p\<lparr>pr_pc := PEnd, pr_obj := w\<rparr>, worker_save i w s)
       else (p\<lparr>pr_pc := PGet\<rparr>, s)
   | PEnd \<Rightarrow> (p, s)
   | PDead e \<Rightarrow> (p, s))"

section \<open>The manager\<close>

definition new_job :: "int \<Rightarrow> string \<Rightarrow> int \<Rightarrow> int list \<Rightarrow> string list \<Rightarrow> int \<Rightarrow> job" where
  "new_job now name action deps queues timeout = \<lparr>jb_name = name, jb_start = now, jb_stop = 0, jb_state = NEW, jb_cat = CatNA,
     jb_timeout = timeout, jb_action = action, jb_result = [], jb_error = [], jb_deps = deps, jb_queues = queues\<rparr>"

definition drop_name :: "string \<Rightarrow> (int \<rightharpoonup> job) \<Rightarrow> (int \<rightharpoonup> job)" where
  "drop_name name jobs = (\<lambda>k. case jobs k of None \<Rightarrow> None | Some jb \<Rightarrow> if jb_name jb = name then None else Some jb)"

definition schedule :: "int \<Rightarrow> string \<Rightarrow> int \<Rightarrow> int list \<Rightarrow> string list \<Rightarrow> int \<Rightarrow> jsys \<Rightarrow> jsys" where
  \<comment> \<open>a job with that name is deleted first, the new one gets the next id of the store\<close>
  "schedule now name action deps queues timeout s = queue_put (QJob (s_next s))
     (s\<lparr>s_jobs := (drop_name name (s_jobs s))(s_next s \<mapsto> new_job now name action deps queues timeout), s_next := s_next s + 1,
         s_actions := List.insert action (s_actions s)\<rparr>)"

definition worker_stop :: "bool \<Rightarrow> int \<Rightarrow> int \<Rightarrow> jsys \<Rightarrow> jsys" where
  \<comment> \<open>hard: the process is killed (one that runs inside the caller is not) and the worker halted; otherwise the worker is
    asked to halt\<close>
  "worker_stop hard now i s = (case s_workers s i of None \<Rightarrow> s
   | Some w \<Rightarrow> if hard then (worker_save i ((state_set W_HALTED now w)\<lparr>wo_pid := 0, wo_halt := False\<rparr>) s)
         \<lparr>s_procs := (if wo_type w = INPROCESS then s_procs s
            else (\<lambda>pid. case s_procs s pid of None \<Rightarrow> None | Some p \<Rightarrow> if pr_worker p = i then None else Some p))\<rparr>
       else worker_save i (w\<lparr>wo_halt := True\<rparr>) s)"

definition queue_reset :: "jsys \<Rightarrow> jsys" where
  "queue_reset s = s\<lparr>s_queue := []\<rparr>"

definition job_start :: "int \<Rightarrow> jsys \<Rightarrow> jsys" where
  "job_start k s = queue_put (QJob k) s"

definition check_ready :: "bool \<Rightarrow> int \<Rightarrow> job \<Rightarrow> job \<times> bool \<times> bool res" where
  \<comment> \<open>the object afterwards, whether it is saved, and the answer\<close>
  "check_ready die now jb = (if jb_state jb = ERROR then
       (if jb_cat jb = CatNA then jb\<lparr>jb_cat := CatERROR\<rparr> else jb, True, if die then Inl E_Base else Inr True)
     else if jb_stop jb = 0 then
       (if jb_timeout jb \<noteq> 0 \<and> jb_start jb + jb_timeout jb < now
        then (jb\<lparr>jb_cat := CatTIMEOUT\<rparr>, True, if die then Inl E_Timeout else Inr True)
        else (jb, False, Inr False))
     else (jb, False, Inr True))"

definition job_load :: "int \<Rightarrow> int \<Rightarrow> jsys \<Rightarrow> jsys" where
  \<comment> \<open>\<^verbatim>\<open>job.load()\<close> of the client \<open>c\<close>\<close>
  "job_load c k s = (case s_jobs s k of None \<Rightarrow> s | Some jb \<Rightarrow> s\<lparr>s_seen := (s_seen s)(c \<mapsto> (k, jb))\<rparr>)"

definition job_check :: "bool \<Rightarrow> int \<Rightarrow> int \<Rightarrow> jsys \<Rightarrow> jsys" where
  \<comment> \<open>the rest of \<^verbatim>\<open>check_ready\<close>: other processes may have written the job since it was loaded\<close>
  "job_check die now c s = (case s_seen s c of None \<Rightarrow> s | Some (k, jb) \<Rightarrow>
     (case check_ready die now jb of (jb', saved, r) \<Rightarrow>
       (if saved then job_save k jb' s else s)\<lparr>s_seen := (s_seen s)(c \<mapsto> (k, jb'))\<rparr>))"

definition wait_key :: "string \<Rightarrow> string" where
  "wait_key q = ''myjobs:wait:'' @ q"

definition queue_content :: "string \<Rightarrow> jsys \<Rightarrow> (int \<times> string \<times> jobstate) list" where
  "queue_content key s = map snd (filter (\<lambda>e. fst e = key) (s_ret s))"

definition wait_queues_ready :: "string list \<Rightarrow> nat \<Rightarrow> jsys \<Rightarrow> bool" where
  \<comment> \<open>what \<^verbatim>\<open>wait_queues\<close> polls for before it reads the results\<close>
  "wait_queues_ready qs n s = list_all (\<lambda>q. n \<le> length (queue_content (wait_key q) s)) qs"

definition worker_next_get :: "wobj list \<Rightarrow> int" where
  "worker_next_get ws = fold (\<lambda>w last. if wo_nr w > last then wo_nr w else last) ws 0 + 1"

definition worker_check :: "int \<Rightarrow> wobj \<Rightarrow> (wobj \<times> bool \<times> bool \<times> bool) res" where
  \<comment> \<open>the worker, whether it is listed, counts as running, and counts as an error\<close>
  "worker_check now w =
    (if wo_state w = W_NEW \<and> wo_update w < now - 20 then Inr (w\<lparr>wo_state := W_ERROR\<rparr>, True, False, True)
     else if wo_state w = W_WAITING then
       (if wo_update w < now - 20 then Inr (w\<lparr>wo_state := W_ERROR\<rparr>, True, False, True) else Inr (w, True, True, False))
     else if wo_state w = W_BUSY then
       (if wo_update w < now - 7200 then Inr (w\<lparr>wo_state := W_ERROR\<rparr>, True, False, True) else Inr (w, True, True, False))
     else if wo_state w = W_ERROR then Inr (w, True, False, True)
     else if wo_state w = W_HALTED then Inr (w, False, False, False)
     else Inl E_JSBUG)"

definition workers_check :: "int \<Rightarrow> wobj list \<Rightarrow> (wobj list \<times> int \<times> int) res" where
  "workers_check now ws = rbind (rmap (worker_check now) ws) (\<lambda>rs.
     Inr (map fst (filter (\<lambda>(w, l, c, e). l) rs), int (length (filter (\<lambda>(w, l, c, e). c) rs)),
          int (length (filter (\<lambda>(w, l, c, e). e) rs))))"

definition workers_more :: "int \<Rightarrow> int \<Rightarrow> int \<Rightarrow> int \<Rightarrow> bool" where
  "workers_more lo hi qsize count = (count < hi \<and> (count < qsize \<or> count < lo))"

definition workers_less :: "int \<Rightarrow> int \<Rightarrow> int \<Rightarrow> int \<Rightarrow> bool" where
  "workers_less lo hi qsize count = (count > hi \<or> (count > qsize \<and> count > lo))"

function workers_start :: "int \<Rightarrow> int \<Rightarrow> int \<Rightarrow> int \<Rightarrow> int" where
  \<comment> \<open>the loop that starts workers while more are wanted, on the number of them\<close>
  "workers_start lo hi qsize count = (if workers_more lo hi qsize count then workers_start lo hi qsize (count + 1) else count)"
  by auto

termination by (relation "measure (\<lambda>(lo, hi, qsize, count). nat (hi - count))") (auto simp: workers_more_def)

section \<open>The system\<close>

definition run_proc :: "outcome \<Rightarrow> int \<Rightarrow> int \<Rightarrow> jsys \<Rightarrow> jsys" where
  \<comment> \<open>one step of the process \<open>pid\<close>\<close>
  "run_proc out now pid s = (case s_procs s pid of None \<Rightarrow> s
   | Some p \<Rightarrow> (case proc_step out now p s of (p', s') \<Rightarrow> s'\<lparr>s_procs := (s_procs s')(pid \<mapsto> p')\<rparr>))"

inductive jstep :: "jsys \<Rightarrow> jsys \<Rightarrow> bool" where
  run: "jstep s (run_proc out now pid s)"
| scheduled: "jstep s (schedule now name action deps queues timeout s)"
| started: "s_procs s pid = None \<Longrightarrow> jstep s (proc_start now pid i onetime s)"
| stopped: "jstep s (worker_stop hard now i s)"
| died: "jstep s (s\<lparr>s_procs := (s_procs s)(pid := None)\<rparr>)"
| worker: "jstep s (worker_save i w s)"
| reset: "jstep s (queue_reset s)"

inductive jmove :: "jsys \<Rightarrow> jsys \<Rightarrow> bool" where
  server: "jstep s s' \<Longrightarrow> jmove s s'"
| again: "jmove s (job_start k s)"
| seen: "jmove s (job_load c k s)"
| checked: "jmove s (job_check die now c s)"

inductive jpath :: "jsys \<Rightarrow> jsys list \<Rightarrow> bool" for s0 where
  \<comment> \<open>the states passed through, the latest first\<close>
  path_start: "jpath s0 [s0]"
| path_move: "jpath s0 (s # tr) \<Longrightarrow> jmove s s' \<Longrightarrow> jpath s0 (s' # s # tr)"

section \<open>Jobs run after their dependencies\<close>

text \<open>The part of a state that matters: the jobs, the next id, the ids in the queue and the program counters.\<close>

fun queue_ids :: "qitem list \<Rightarrow> int list" where
  "queue_ids [] = []"
| "queue_ids (QJob k # q) = k # queue_ids q"
| "queue_ids (QHalt # q) = queue_ids q"

fun held :: "pc \<Rightarrow> int option" where
  "held (PDeps k jb ds skip relaunch) = Some k"
| "held (PPut k) = Some k"
| "held (PRun k jb) = Some k"
| "held (PExec k jb) = Some k"
| "held _ = None"

definition jb_done :: "job \<Rightarrow> bool" where
  "jb_done jb = (jb_state jb = OK \<or> jb_state jb = DONE)"

definition holds :: "(int \<rightharpoonup> pc) \<Rightarrow> int \<Rightarrow> int \<Rightarrow> bool" where
  "holds P pid k = (case P pid of None \<Rightarrow> False | Some c \<Rightarrow> held c = Some k)"

lemma holds_upd [simp]: "holds (P(pid \<mapsto> c)) pid' k = (if pid' = pid then held c = Some k else holds P pid' k)"
  "holds (P(pid := None)) pid' k = (pid' \<noteq> pid \<and> holds P pid' k)"
  by (simp_all add: holds_def)

lemma holdsI: "P pid = Some c \<Longrightarrow> held c = Some k \<Longrightarrow> holds P pid k"
  by (simp add: holds_def)

definition active :: "int list \<Rightarrow> (int \<rightharpoonup> pc) \<Rightarrow> int \<Rightarrow> bool" where
  "active Q P k = (k \<in> set Q \<or> (\<exists>pid. holds P pid k))"

definition settled :: "(int \<rightharpoonup> job) \<Rightarrow> int \<Rightarrow> int list \<Rightarrow> (int \<rightharpoonup> pc) \<Rightarrow> int \<Rightarrow> bool" where
  \<comment> \<open>done or deleted, and nobody will write it again\<close>
  "settled J n Q P d = (d < n \<and> \<not> active Q P d \<and> (case J d of None \<Rightarrow> True | Some jd \<Rightarrow> jb_done jd))"

fun pc_deps :: "pc \<Rightarrow> int set" where
  \<comment> \<open>the dependencies a process has found done\<close>
  "pc_deps (PDeps k jb ds skip relaunch) = (if skip then {} else set (take (length (jb_deps jb) - length ds) (jb_deps jb)))"
| "pc_deps (PRun k jb) = set (jb_deps jb)"
| "pc_deps (PExec k jb) = set (jb_deps jb)"
| "pc_deps _ = {}"

fun pc_shape :: "pc \<Rightarrow> bool" where
  "pc_shape (PDeps k jb ds skip relaunch) = (\<exists>pre. jb_deps jb = pre @ ds)"
| "pc_shape _ = True"

definition exclusive :: "int list \<Rightarrow> (int \<rightharpoonup> pc) \<Rightarrow> bool" where
  "exclusive Q P = (distinct Q \<and> (\<forall>pid k. holds P pid k \<longrightarrow> k \<notin> set Q)
     \<and> (\<forall>pid pid' k. holds P pid k \<longrightarrow> holds P pid' k \<longrightarrow> pid' = pid))"

definition jobs_inv :: "(int \<rightharpoonup> job) \<Rightarrow> int \<Rightarrow> int list \<Rightarrow> (int \<rightharpoonup> pc) \<Rightarrow> bool" where
  "jobs_inv J n Q P = (exclusive Q P
     \<and> (\<forall>k. J k \<noteq> None \<or> active Q P k \<longrightarrow> k < n)
     \<and> (\<forall>k jb. active Q P k \<longrightarrow> J k = Some jb \<longrightarrow> \<not> jb_done jb)
     \<and> (\<forall>k jb d. J k = Some jb \<longrightarrow> jb_done jb \<longrightarrow> d \<in> set (jb_deps jb) \<longrightarrow> settled J n Q P d)
     \<and> (\<forall>pid c d. P pid = Some c \<longrightarrow> d \<in> pc_deps c \<longrightarrow> settled J n Q P d)
     \<and> (\<forall>pid c. P pid = Some c \<longrightarrow> pc_shape c))"

lemma jobs_invD:
  assumes "jobs_inv J n Q P"
  shows "exclusive Q P" "J k \<noteq> None \<or> active Q P k \<Longrightarrow> k < n" "active Q P k \<Longrightarrow> J k = Some jb \<Longrightarrow> \<not> jb_done jb"
    "J k = Some jb \<Longrightarrow> jb_done jb \<Longrightarrow> d \<in> set (jb_deps jb) \<Longrightarrow> settled J n Q P d"
    "P pid = Some c \<Longrightarrow> d \<in> pc_deps c \<Longrightarrow> settled J n Q P d" "P pid = Some c \<Longrightarrow> pc_shape c"
  using assms unfolding jobs_inv_def by blast+

lemma jobs_invI:
  assumes "exclusive Q P" "\<And>k. J k \<noteq> None \<or> active Q P k \<Longrightarrow> k < n" "\<And>k jb. active Q P k \<Longrightarrow> J k = Some jb \<Longrightarrow> \<not> jb_done jb"
    "\<And>k jb d. J k = Some jb \<Longrightarrow> jb_done jb \<Longrightarrow> d \<in> set (jb_deps jb) \<Longrightarrow> settled J n Q P d"
    "\<And>pid c d. P pid = Some c \<Longrightarrow> d \<in> pc_deps c \<Longrightarrow> settled J n Q P d" "\<And>pid c. P pid = Some c \<Longrightarrow> pc_shape c"
  shows "jobs_inv J n Q P"
  using assms unfolding jobs_inv_def by blast

text \<open>Less activity keeps the invariant: an id leaves the queue, a process lets go of its job or ends.\<close>

lemma jobs_inv_less:
  assumes "jobs_inv J n Q P" "exclusive Q' P'" "\<And>k. active Q' P' k \<Longrightarrow> active Q P k"
    "\<And>pid c d. P' pid = Some c \<Longrightarrow> d \<in> pc_deps c \<Longrightarrow> settled J n Q P d" "\<And>pid c. P' pid = Some c \<Longrightarrow> pc_shape c"
  shows "jobs_inv J n Q' P'"
proof -
  have s: "settled J n Q P d \<Longrightarrow> settled J n Q' P' d" for d using assms(3) by (auto simp: settled_def)
  note inv = jobs_invD [OF assms(1)]
  show ?thesis
    apply (rule jobs_invI [OF assms(2)])
    subgoal for k using inv(2) [of k] assms(3) [of k] by auto
    subgoal for k jb using inv(3) [of k jb] assms(3) [of k] by auto
    subgoal for k jb d using s inv(4) [of k jb d] by simp
    subgoal for pid c d using s assms(4) [of pid c d] by simp
    subgoal for pid c using assms(5) [of pid c] by simp
    done
qed

text \<open>Writing a job one holds.\<close>

lemma jobs_inv_write:
  assumes "jobs_inv J n Q P" "P pid = Some c" "held c = Some k"
    "held c' = Some k \<and> \<not> jb_done jb' \<or> held c' = None \<and> (jb_done jb' \<longrightarrow> (\<forall>d\<in>set (jb_deps jb'). settled J n Q P d))"
    "\<And>d. d \<in> pc_deps c' \<Longrightarrow> settled J n Q P d" "pc_shape c'"
  shows "jobs_inv (J(k \<mapsto> jb')) n Q (P(pid \<mapsto> c'))"
proof -
  have h: "holds P pid k" using assms(2,3) by (rule holdsI)
  then have act: "active Q P k" by (auto simp: active_def)
  have ex: "exclusive Q P" using jobs_invD(1) [OF assms(1)] .
  have h': "holds (P(pid \<mapsto> c')) p j \<Longrightarrow> holds P p j" for p j using h assms(4) by (auto split: if_splits)
  have uniq: "holds P p k \<Longrightarrow> p = pid" for p using ex h unfolding exclusive_def by blast
  have ne: "k \<notin> set Q" using ex h unfolding exclusive_def by blast
  have less: "active Q (P(pid \<mapsto> c')) j \<Longrightarrow> active Q P j" for j using h' unfolding active_def by blast
  have kact: "active Q (P(pid \<mapsto> c')) k \<Longrightarrow> held c' = Some k" using uniq ne unfolding active_def by (auto split: if_splits)
  have s: "settled J n Q P d \<Longrightarrow> settled (J(k \<mapsto> jb')) n Q (P(pid \<mapsto> c')) d" for d using less act by (auto simp: settled_def)
  have e: "exclusive Q (P(pid \<mapsto> c'))" using ex h' unfolding exclusive_def by blast
  note inv = jobs_invD [OF assms(1)]
  show ?thesis
  proof (rule jobs_invI [OF e])
    fix j assume "(J(k \<mapsto> jb')) j \<noteq> None \<or> active Q (P(pid \<mapsto> c')) j"
    then show "j < n" using inv(2) less act by (auto split: if_splits)
  next
    fix j jb assume "active Q (P(pid \<mapsto> c')) j" "(J(k \<mapsto> jb')) j = Some jb"
    then show "\<not> jb_done jb" using inv(3) less kact assms(4) by (auto split: if_splits)
  next
    fix j jb d assume "(J(k \<mapsto> jb')) j = Some jb" "jb_done jb" "d \<in> set (jb_deps jb)"
    then show "settled (J(k \<mapsto> jb')) n Q (P(pid \<mapsto> c')) d" using inv(4) s assms(4) by (auto split: if_splits)
  next
    fix pid' e d assume "(P(pid \<mapsto> c')) pid' = Some e" "d \<in> pc_deps e"
    then show "settled (J(k \<mapsto> jb')) n Q (P(pid \<mapsto> c')) d" using inv(5) s assms(5) by (auto split: if_splits)
  next
    fix pid' e assume "(P(pid \<mapsto> c')) pid' = Some e"
    then show "pc_shape e" using inv(6) assms(6) by (auto split: if_splits)
  qed
qed

lemma settled_done: "jobs_inv J n Q P \<Longrightarrow> J d = Some jd \<Longrightarrow> jb_done jd \<Longrightarrow> settled J n Q P d"
  using jobs_invD(2,3) [of J n Q P] by (auto simp: settled_def)

lemma jobs_inv_set:
  assumes "jobs_inv J n Q P" "exclusive Q' (P(pid \<mapsto> c'))" "\<And>k. active Q' (P(pid \<mapsto> c')) k \<Longrightarrow> active Q P k"
    "\<And>d. d \<in> pc_deps c' \<Longrightarrow> settled J n Q P d" "pc_shape c'"
  shows "jobs_inv J n Q' (P(pid \<mapsto> c'))"
proof (rule jobs_inv_less [OF assms(1-3)])
  show "(P(pid \<mapsto> c')) q = Some e \<Longrightarrow> d \<in> pc_deps e \<Longrightarrow> settled J n Q P d" for q e d
    using jobs_invD(5) [OF assms(1)] assms(4) by (auto split: if_splits)
  show "(P(pid \<mapsto> c')) q = Some e \<Longrightarrow> pc_shape e" for q e using jobs_invD(6) [OF assms(1)] assms(5) by (auto split: if_splits)
qed

lemma jobs_inv_keep:
  assumes "jobs_inv J n Q P" "held c' = None \<or> P pid = Some c \<and> held c' = held c" "\<And>d. d \<in> pc_deps c' \<Longrightarrow> settled J n Q P d" "pc_shape c'"
  shows "jobs_inv J n Q (P(pid \<mapsto> c'))"
proof -
  have h: "holds (P(pid \<mapsto> c')) q j \<Longrightarrow> holds P q j" for q j using assms(2) by (auto simp: holds_def split: if_splits)
  have "exclusive Q (P(pid \<mapsto> c'))" using jobs_invD(1) [OF assms(1)] h unfolding exclusive_def by blast
  moreover have "active Q (P(pid \<mapsto> c')) k \<Longrightarrow> active Q P k" for k using h unfolding active_def by blast
  ultimately show ?thesis using jobs_inv_set [OF assms(1) _ _ assms(3,4)] by blast
qed

lemma jobs_inv_pop:
  assumes "jobs_inv J n (k # Q) P"
  shows "jobs_inv J n Q P"
proof (rule jobs_inv_less [OF assms])
  show "exclusive Q P" using jobs_invD(1) [OF assms] unfolding exclusive_def by simp
  show "active Q P j \<Longrightarrow> active (k # Q) P j" for j by (auto simp: active_def)
qed (use jobs_invD(5,6) [OF assms] in auto)

lemma jobs_inv_take:
  assumes "jobs_inv J n (k # Q) P" "held c' = Some k" "pc_deps c' = {}" "pc_shape c'"
  shows "jobs_inv J n Q (P(pid \<mapsto> c'))"
proof (rule jobs_inv_set [OF assms(1)])
  have nk: "\<not> holds P q k" for q using jobs_invD(1) [OF assms(1)] by (auto simp: exclusive_def)
  show "exclusive Q (P(pid \<mapsto> c'))" using jobs_invD(1) [OF assms(1)] assms(2) nk unfolding exclusive_def by auto
  show "active Q (P(pid \<mapsto> c')) j \<Longrightarrow> active (k # Q) P j" for j
    using assms(2) unfolding active_def by (auto split: if_splits)
qed (use assms(3,4) in auto)

lemma jobs_inv_put:
  assumes "jobs_inv J n Q P" "P pid = Some c" "held c = Some k" "held c' = None" "pc_deps c' = {}" "pc_shape c'"
  shows "jobs_inv J n (Q @ [k]) (P(pid \<mapsto> c'))"
proof (rule jobs_inv_set [OF assms(1)])
  have k: "holds P pid k" using assms(2,3) by (rule holdsI)
  have ex: "exclusive Q P" using jobs_invD(1) [OF assms(1)] .
  have h: "holds (P(pid \<mapsto> c')) q j \<Longrightarrow> holds P q j \<and> j \<noteq> k" for q j using assms(4) ex k unfolding exclusive_def by (auto split: if_splits)
  show "exclusive (Q @ [k]) (P(pid \<mapsto> c'))" using ex k h assms(4) unfolding exclusive_def by auto
  show "active (Q @ [k]) (P(pid \<mapsto> c')) j \<Longrightarrow> active Q P j" for j using h k unfolding active_def by auto
qed (use assms(5,6) in auto)

section \<open>Every step keeps the invariant\<close>

definition pcs :: "jsys \<Rightarrow> int \<rightharpoonup> pc" where
  "pcs s = (\<lambda>pid. map_option pr_pc (s_procs s pid))"

definition jobs_ok :: "jsys \<Rightarrow> bool" where
  "jobs_ok s = jobs_inv (s_jobs s) (s_next s) (queue_ids (s_queue s)) (pcs s)"

lemma pcs_upd [simp]: "pcs (s\<lparr>s_procs := (s_procs s)(pid \<mapsto> p)\<rparr>) = (pcs s)(pid \<mapsto> pr_pc p)"
  by (auto simp: pcs_def)

lemma pcs_same: "s_procs s' = s_procs s \<Longrightarrow> pcs s' = pcs s"
  by (simp add: pcs_def)

lemma queue_ids_append [simp]: "queue_ids (q @ r) = queue_ids q @ queue_ids r"
  by (induction q rule: queue_ids.induct) auto

lemma save_simps [simp]:
  "s_jobs (worker_save i w s) = s_jobs s" "s_next (worker_save i w s) = s_next s" "s_queue (worker_save i w s) = s_queue s"
  "s_procs (worker_save i w s) = s_procs s" "s_actions (worker_save i w s) = s_actions s"
  "s_jobs (job_save k jb s) = (s_jobs s)(k \<mapsto> jb)" "s_next (job_save k jb s) = s_next s" "s_queue (job_save k jb s) = s_queue s"
  "s_procs (job_save k jb s) = s_procs s"
  "s_jobs (queue_results k jb s) = s_jobs s" "s_next (queue_results k jb s) = s_next s" "s_queue (queue_results k jb s) = s_queue s"
  "s_procs (queue_results k jb s) = s_procs s"
  "s_jobs (queue_put x s) = s_jobs s" "s_next (queue_put x s) = s_next s" "s_queue (queue_put x s) = s_queue s @ [x]"
  "s_procs (queue_put x s) = s_procs s"
  by (simp_all add: worker_save_def job_save_def queue_results_def queue_put_def)

text \<open>A step of a process, seen on the jobs, the queue and its counter.\<close>

definition step_ok :: "jsys \<Rightarrow> int \<Rightarrow> proc \<times> jsys \<Rightarrow> bool" where
  "step_ok s pid r = (s_procs (snd r) = s_procs s
     \<and> jobs_inv (s_jobs (snd r)) (s_next (snd r)) (queue_ids (s_queue (snd r))) ((pcs s)(pid \<mapsto> pr_pc (fst r))))"

lemma step_ok_run:
  assumes "s_procs s pid = Some p" "step_ok s pid (proc_step out now p s)"
  shows "jobs_ok (run_proc out now pid s)"
proof -
  obtain p' s' where r: "proc_step out now p s = (p', s')" by fastforce
  have "pcs (s'\<lparr>s_procs := (s_procs s)(pid \<mapsto> p')\<rparr>) = (pcs s)(pid \<mapsto> pr_pc p')" by (auto simp: pcs_def)
  with assms r show ?thesis by (simp add: step_ok_def run_proc_def jobs_ok_def)
qed

lemma step_okI:
  assumes "s_procs (snd r) = s_procs s"
    "jobs_inv (s_jobs (snd r)) (s_next (snd r)) (queue_ids (s_queue (snd r))) ((pcs s)(pid \<mapsto> pr_pc (fst r)))"
  shows "step_ok s pid r"
  using assms by (simp add: step_ok_def)

lemma get_step_ok:
  assumes "jobs_ok s" "s_procs s pid = Some p" "pr_pc p = PGet"
  shows "step_ok s pid (get_step now p s)"
proof -
  have inv: "jobs_inv (s_jobs s) (s_next s) (queue_ids (s_queue s)) (pcs s)" using assms(1) by (simp add: jobs_ok_def)
  have free: "held c = None \<Longrightarrow> pc_deps c = {} \<Longrightarrow> pc_shape c \<Longrightarrow> jobs_inv (s_jobs s) (s_next s) (queue_ids (s_queue s)) ((pcs s)(pid \<mapsto> c))" for c
    by (rule jobs_inv_keep [OF inv]) auto
  show ?thesis
  proof (cases "s_queue s")
    case Nil
    with free assms(3) show ?thesis
      by (auto simp: get_step_def step_ok_def Let_def split: option.splits)
  next
    case (Cons x q)
    have pop: "held c = None \<Longrightarrow> pc_deps c = {} \<Longrightarrow> pc_shape c \<Longrightarrow> jobs_inv (s_jobs s) (s_next s) (queue_ids q) ((pcs s)(pid \<mapsto> c))" for c
      using jobs_inv_pop [of "s_jobs s" "s_next s" _ "queue_ids q" "(pcs s)(pid \<mapsto> c)"] free [of c] Cons by (cases x) auto
    have take: "x = QJob k \<Longrightarrow> jobs_inv (s_jobs s) (s_next s) (queue_ids q) ((pcs s)(pid \<mapsto> take_job now k s))" for k
      using jobs_inv_take [of "s_jobs s" "s_next s" k "queue_ids q" "pcs s"] pop inv Cons
      by (auto simp: take_job_def split: option.splits)
    show ?thesis using pop take Cons assms(3)
      by (auto simp: get_step_def step_ok_def Let_def split: option.splits qitem.splits)
  qed
qed

lemma dep_step_ok:
  assumes "jobs_ok s" "s_procs s pid = Some p" "pr_pc p = PDeps k jb ds skip relaunch"
  shows "step_ok s pid (dep_step now p k jb ds skip relaunch s)"
proof -
  let ?J = "s_jobs s" and ?n = "s_next s" and ?Q = "queue_ids (s_queue s)"
  have inv: "jobs_inv ?J ?n ?Q (pcs s)" using assms(1) by (simp add: jobs_ok_def)
  have c: "pcs s pid = Some (PDeps k jb ds skip relaunch)" using assms(2,3) by (simp add: pcs_def)
  obtain pre where pre: "jb_deps jb = pre @ ds" using jobs_invD(6) [OF inv c] by auto
  have old: "\<not> skip \<Longrightarrow> d \<in> set pre \<Longrightarrow> settled ?J ?n ?Q (pcs s) d" for d using jobs_invD(5) [OF inv c] pre by auto
  show ?thesis
  proof (cases ds)
    case Nil
    have "jobs_inv ?J ?n ?Q ((pcs s)(pid \<mapsto> PTail))" "\<not> skip \<Longrightarrow> jobs_inv ?J ?n ?Q ((pcs s)(pid \<mapsto> PRun k jb))"
      using jobs_inv_keep [OF inv, of PTail] jobs_inv_keep [OF inv, of "PRun k jb", OF disjI2 [OF conjI [OF c]]] old pre Nil by auto
    moreover have "jobs_inv (?J(k \<mapsto> jb\<lparr>jb_state := NEW\<rparr>)) ?n ?Q ((pcs s)(pid \<mapsto> PPut k))"
      by (rule jobs_inv_write [OF inv c]) (auto simp: jb_done_def)
    ultimately show ?thesis using Nil by (auto simp: dep_step_def step_ok_def)
  next
    case (Cons d ds')
    have shape: "\<exists>pre. jb_deps jb = pre @ ds'" using pre Cons by (intro exI [of _ "pre @ [d]"]) simp
    have keep: "jobs_inv ?J ?n ?Q ((pcs s)(pid \<mapsto> PDeps k jb ds' True relaunch'))" for relaunch'
      by (rule jobs_inv_keep [OF inv, OF disjI2 [OF conjI [OF c]]]) (use shape in auto)
    have next1: "jobs_inv ?J ?n ?Q ((pcs s)(pid \<mapsto> PDeps k jb ds' skip relaunch))" if "?J d = Some jd" "jb_done jd" for jd
      by (rule jobs_inv_keep [OF inv, OF disjI2 [OF conjI [OF c]]])
        (use shape pre Cons old settled_done [OF inv that] in \<open>auto split: if_splits\<close>)
    have fail: "jobs_inv (?J(k \<mapsto> dep_failed now d jb)) ?n ?Q ((pcs s)(pid \<mapsto> PDeps k (dep_failed now d jb) ds' True relaunch))"
      by (rule jobs_inv_write [OF inv c]) (use shape in \<open>auto simp: jb_done_def dep_failed_def Let_def\<close>)
    have dead: "jobs_inv ?J ?n ?Q ((pcs s)(pid \<mapsto> PDead e))" for e using jobs_inv_keep [OF inv, of "PDead e"] by simp
    show ?thesis using keep next1 fail dead Cons
      by (auto simp: dep_step_def step_ok_def jb_done_def Let_def split: option.splits)
  qed
qed

lemma exec_step_ok:
  assumes "jobs_ok s" "s_procs s pid = Some p" "pr_pc p = PExec k jb"
  shows "jobs_inv ((s_jobs s)(k \<mapsto> job_after now out jb)) (s_next s) (queue_ids (s_queue s)) ((pcs s)(pid \<mapsto> PResults k (job_after now out jb) ok))"
proof -
  have inv: "jobs_inv (s_jobs s) (s_next s) (queue_ids (s_queue s)) (pcs s)" using assms(1) by (simp add: jobs_ok_def)
  have c: "pcs s pid = Some (PExec k jb)" using assms(2,3) by (simp add: pcs_def)
  have d: "jb_deps (job_after now out jb) = jb_deps jb" by (cases out) (auto simp: job_after_def failed_def)
  show ?thesis by (rule jobs_inv_write [OF inv c]) (use jobs_invD(5) [OF inv c] d in auto)
qed

lemma proc_step_ok:
  assumes "jobs_ok s" "s_procs s pid = Some p"
  shows "step_ok s pid (proc_step out now p s)"
proof -
  have inv: "jobs_inv (s_jobs s) (s_next s) (queue_ids (s_queue s)) (pcs s)" using assms(1) by (simp add: jobs_ok_def)
  have free: "held c = None \<Longrightarrow> pc_deps c = {} \<Longrightarrow> pc_shape c \<Longrightarrow> jobs_inv (s_jobs s) (s_next s) (queue_ids (s_queue s)) ((pcs s)(pid \<mapsto> c))" for c
    by (rule jobs_inv_keep [OF inv]) auto
  have c: "pcs s pid = Some (pr_pc p)" using assms(2) by (simp add: pcs_def)
  show ?thesis
  proof (cases "pr_pc p")
    case PGet
    then show ?thesis using get_step_ok [OF assms] by (simp add: proc_step_def Let_def)
  next
    case (PDeps k jb ds skip relaunch)
    then show ?thesis using dep_step_ok [OF assms] by (simp add: proc_step_def Let_def)
  next
    case (PPut k)
    then show ?thesis using jobs_inv_put [OF inv c, of k PTail] by (simp add: proc_step_def step_ok_def Let_def)
  next
    case (PRun k jb)
    then have "jobs_inv (s_jobs s) (s_next s) (queue_ids (s_queue s)) ((pcs s)(pid \<mapsto> PExec k jb))"
      using jobs_inv_keep [OF inv disjI2 [OF conjI [OF c]], of "PExec k jb"] jobs_invD(5) [OF inv c] by auto
    with PRun free show ?thesis by (auto simp: proc_step_def step_ok_def Let_def)
  next
    case (PExec k jb)
    then show ?thesis using exec_step_ok [OF assms PExec] by (simp add: proc_step_def step_ok_def Let_def)
  qed (use free in \<open>auto simp: proc_step_def step_ok_def Let_def\<close>)
qed

lemma jobs_ok_run: "jobs_ok s \<Longrightarrow> jobs_ok (run_proc out now pid s)"
proof (cases "s_procs s pid")
  case (Some p)
  then show "jobs_ok s \<Longrightarrow> jobs_ok (run_proc out now pid s)" using step_ok_run proc_step_ok by blast
qed (simp add: run_proc_def)

lemma jobs_ok_schedule:
  assumes "jobs_ok s"
  shows "jobs_ok (schedule now name action deps queues timeout s)"
proof -
  let ?J = "s_jobs s" and ?n = "s_next s" and ?Q = "queue_ids (s_queue s)" and ?P = "pcs s"
  let ?J' = "(drop_name name ?J)(?n \<mapsto> new_job now name action deps queues timeout)"
  have inv: "jobs_inv ?J ?n ?Q ?P" using assms by (simp add: jobs_ok_def)
  have J': "?J' k = Some jb \<Longrightarrow> k = ?n \<and> \<not> jb_done jb \<or> k \<noteq> ?n \<and> ?J k = Some jb" for k jb
    by (auto simp: drop_name_def new_job_def jb_done_def split: if_splits option.splits)
  have fresh: "\<not> active ?Q ?P ?n" using jobs_invD(2) [OF inv, of ?n] by auto
  then have nh: "\<not> holds ?P pid ?n" for pid by (auto simp: active_def)
  have act: "active (?Q @ [?n]) ?P k \<longleftrightarrow> active ?Q ?P k \<or> k = ?n" for k by (auto simp: active_def)
  have s: "settled ?J ?n ?Q ?P d \<Longrightarrow> settled ?J' (?n + 1) (?Q @ [?n]) ?P d" for d
    by (auto simp: settled_def act drop_name_def split: option.splits)
  have "jobs_inv ?J' (?n + 1) (?Q @ [?n]) ?P"
  proof (rule jobs_invI)
    show "exclusive (?Q @ [?n]) ?P" using jobs_invD(1) [OF inv] fresh nh unfolding exclusive_def active_def by auto
    fix k assume "?J' k \<noteq> None \<or> active (?Q @ [?n]) ?P k"
    then show "k < ?n + 1" using jobs_invD(2) [OF inv, of k] J' [of k] act by fastforce
  next
    fix k jb assume "active (?Q @ [?n]) ?P k" "?J' k = Some jb"
    then show "\<not> jb_done jb" using jobs_invD(3) [OF inv] J' act by blast
  next
    fix k jb d assume "?J' k = Some jb" "jb_done jb" "d \<in> set (jb_deps jb)"
    then show "settled ?J' (?n + 1) (?Q @ [?n]) ?P d" using jobs_invD(4) [OF inv] J' s by blast
  qed (use jobs_invD(5,6) [OF inv] s in auto)
  then show ?thesis by (simp add: jobs_ok_def schedule_def pcs_def)
qed

lemma jobs_ok_less:
  assumes "jobs_ok s" "s_jobs s' = s_jobs s" "s_next s' = s_next s" "queue_ids (s_queue s') = queue_ids (s_queue s) \<or> queue_ids (s_queue s') = []"
    "\<And>pid c. pcs s' pid = Some c \<Longrightarrow> pcs s pid = Some c \<or> c = PGet"
  shows "jobs_ok s'"
proof -
  have inv: "jobs_inv (s_jobs s) (s_next s) (queue_ids (s_queue s)) (pcs s)" using assms(1) by (simp add: jobs_ok_def)
  have h: "holds (pcs s') pid k \<Longrightarrow> holds (pcs s) pid k" for pid k using assms(5) [of pid] by (auto simp: holds_def split: option.splits)
  have "jobs_inv (s_jobs s) (s_next s) (queue_ids (s_queue s')) (pcs s')"
  proof (rule jobs_inv_less [OF inv])
    have q: "set (queue_ids (s_queue s')) \<subseteq> set (queue_ids (s_queue s))" using assms(4) by auto
    have "distinct (queue_ids (s_queue s'))" using jobs_invD(1) [OF inv] assms(4) by (auto simp: exclusive_def)
    then show "exclusive (queue_ids (s_queue s')) (pcs s')" using jobs_invD(1) [OF inv] q h unfolding exclusive_def by blast
    show "active (queue_ids (s_queue s')) (pcs s') k \<Longrightarrow> active (queue_ids (s_queue s)) (pcs s) k" for k
      using h assms(4) unfolding active_def by auto
  qed (use assms(5) jobs_invD(5,6) [OF inv] in fastforce)+
  then show ?thesis using assms(2,3) by (simp add: jobs_ok_def)
qed

lemma jobs_ok_step: "jstep s s' \<Longrightarrow> jobs_ok s \<Longrightarrow> jobs_ok s'"
proof (induction rule: jstep.induct)
  case (started s pid now i onetime)
  then show ?case
    by (intro jobs_ok_less [OF started.prems]) (auto simp: proc_start_def pcs_def Let_def split: option.splits if_splits)
next
  case (stopped s hard now i)
  then show ?case
    by (intro jobs_ok_less [OF stopped.prems]) (auto simp: worker_stop_def pcs_def split: option.splits if_splits)
next
  case (died s pid)
  then show ?case by (intro jobs_ok_less [OF died.prems]) (auto simp: pcs_def split: if_splits)
next
  case (worker s i w)
  then show ?case by (intro jobs_ok_less [OF worker.prems]) (auto simp: pcs_def)
next
  case (reset s)
  then show ?case by (intro jobs_ok_less [OF reset.prems]) (auto simp: pcs_def queue_reset_def)
qed (auto intro: jobs_ok_run jobs_ok_schedule)

section \<open>A worker drains the queue\<close>

text \<open>\<open>ev pid R s\<close>: when only the process \<open>pid\<close> moves, whatever its jobs do, it gets to a state with \<open>R\<close>.\<close>

inductive ev :: "int \<Rightarrow> (jsys \<Rightarrow> bool) \<Rightarrow> jsys \<Rightarrow> bool" for pid R where
  now: "R s \<Longrightarrow> ev pid R s"
| step: "(\<And>out now. ev pid R (run_proc out now pid s)) \<Longrightarrow> ev pid R s"

lemma ev_trans: "ev pid R s \<Longrightarrow> (\<And>s. R s \<Longrightarrow> ev pid S s) \<Longrightarrow> ev pid S s"
  by (induction rule: ev.induct) (auto intro: ev.step)

fun solo :: "(nat \<Rightarrow> outcome) \<Rightarrow> (nat \<Rightarrow> int) \<Rightarrow> int \<Rightarrow> nat \<Rightarrow> jsys \<Rightarrow> jsys" where
  \<comment> \<open>\<open>n\<close> steps of one process\<close>
  "solo out now pid 0 s = s"
| "solo out now pid (Suc n) s = solo (\<lambda>i. out (Suc i)) (\<lambda>i. now (Suc i)) pid n (run_proc (out 0) (now 0) pid s)"

lemma ev_solo: "ev pid R s \<Longrightarrow> \<exists>n. R (solo out now pid n s)"
proof (induction arbitrary: out now rule: ev.induct)
  case (now s)
  then show ?case by (intro exI [of _ 0]) simp
next
  case (step s)
  obtain n where "R (solo (\<lambda>i. out (Suc i)) (\<lambda>i. now (Suc i)) pid n (run_proc (out 0) (now 0) pid s))"
    using step.IH by blast
  then show ?case by (intro exI [of _ "Suc n"]) simp
qed

definition at_pc :: "int \<Rightarrow> jsys \<Rightarrow> (int \<rightharpoonup> job) \<Rightarrow> int list \<Rightarrow> int list \<Rightarrow> pc \<Rightarrow> bool" where
  \<comment> \<open>a process that serves the queue and has not been asked to halt\<close>
  "at_pc pid s J A Q c = (s_jobs s = J \<and> s_actions s = A \<and> s_queue s = map QJob Q
     \<and> (\<exists>p w. s_procs s pid = Some p \<and> pr_pc p = c \<and> \<not> pr_onetime p \<and> \<not> wo_halt (pr_obj p)
          \<and> s_workers s (pr_worker p) = Some w \<and> \<not> wo_halt w))"

lemma at_pcE:
  assumes "at_pc pid s J A Q c"
  obtains p w where "s_jobs s = J" "s_actions s = A" "s_queue s = map QJob Q" "s_procs s pid = Some p" "pr_pc p = c"
    "\<not> pr_onetime p" "\<not> wo_halt (pr_obj p)" "s_workers s (pr_worker p) = Some w" "\<not> wo_halt w"
  using assms unfolding at_pc_def by blast

lemma save_simps2 [simp]:
  "s_workers (worker_save i w s) = (s_workers s)(i \<mapsto> w)" "s_workers (job_save k jb s) = s_workers s"
  "s_workers (queue_results k jb s) = s_workers s" "s_workers (queue_put x s) = s_workers s"
  "s_actions (job_save k jb s) = s_actions s" "s_actions (queue_results k jb s) = s_actions s" "s_actions (queue_put x s) = s_actions s"
  by (simp_all add: worker_save_def job_save_def queue_results_def queue_put_def)

lemma step_get:
  assumes "at_pc pid s J A (k # Q) PGet" "k \<noteq> 0" "J k = Some jb"
  shows "at_pc pid (run_proc out now pid s) J A Q (PDeps k (jb\<lparr>jb_start := now\<rparr>) (jb_deps jb) False False)"
  using assms(1) by (rule at_pcE) (use assms(2,3) in \<open>auto simp: at_pc_def run_proc_def proc_step_def get_step_def take_job_def Let_def\<close>)

lemma step_dep:
  assumes "at_pc pid s J A Q (PDeps k jb (d # ds) skip relaunch)" "J d = Some jd"
  shows "if jb_state jd = ERROR then at_pc pid (run_proc out now pid s) (J(k \<mapsto> dep_failed now d jb)) A Q (PDeps k (dep_failed now d jb) ds True relaunch)
    else if jb_done jd then at_pc pid (run_proc out now pid s) J A Q (PDeps k jb ds skip relaunch)
    else at_pc pid (run_proc out now pid s) J A Q (PDeps k jb ds True True)"
  using assms(1) by (rule at_pcE) (use assms(2) in \<open>auto simp: at_pc_def run_proc_def proc_step_def dep_step_def jb_done_def Let_def\<close>)

lemma step_back:
  assumes "at_pc pid s J A Q (PDeps k jb [] True True)"
  shows "at_pc pid (run_proc out now pid s) (J(k \<mapsto> jb\<lparr>jb_state := NEW\<rparr>)) A Q (PPut k)"
  using assms by (rule at_pcE) (auto simp: at_pc_def run_proc_def proc_step_def dep_step_def Let_def)

lemma step_skip:
  assumes "at_pc pid s J A Q (PDeps k jb [] True False)"
  shows "at_pc pid (run_proc out now pid s) J A Q PTail"
  using assms by (rule at_pcE) (auto simp: at_pc_def run_proc_def proc_step_def dep_step_def Let_def)

lemma step_go:
  assumes "at_pc pid s J A Q (PDeps k jb [] False relaunch)"
  shows "at_pc pid (run_proc out now pid s) J A Q (PRun k jb)"
  using assms by (rule at_pcE) (auto simp: at_pc_def run_proc_def proc_step_def dep_step_def Let_def)

lemma step_put:
  assumes "at_pc pid s J A Q (PPut k)"
  shows "at_pc pid (run_proc out now pid s) J A (Q @ [k]) PTail"
  using assms by (rule at_pcE) (auto simp: at_pc_def run_proc_def proc_step_def Let_def)

lemma step_run:
  assumes "at_pc pid s J A Q (PRun k jb)" "jb_action jb \<in> set A"
  shows "at_pc pid (run_proc out now pid s) J A Q (PExec k jb)"
  using assms(1) by (rule at_pcE) (use assms(2) in \<open>auto simp: at_pc_def run_proc_def proc_step_def Let_def\<close>)

lemma step_exec:
  assumes "at_pc pid s J A Q (PExec k jb)"
  shows "at_pc pid (run_proc out now pid s) (J(k \<mapsto> job_after now out jb)) A Q (PResults k (job_after now out jb) (is_ok out))"
  using assms by (rule at_pcE) (auto simp: at_pc_def run_proc_def proc_step_def Let_def)

lemma step_results:
  assumes "at_pc pid s J A Q (PResults k jb ok)"
  shows "at_pc pid (run_proc out now pid s) J A Q PTail \<or> at_pc pid (run_proc out now pid s) J A Q PGet"
  using assms by (rule at_pcE) (auto simp: at_pc_def run_proc_def proc_step_def state_set_def Let_def)

lemma step_tail:
  assumes "at_pc pid s J A Q PTail"
  shows "at_pc pid (run_proc out now pid s) J A Q PGet"
  using assms by (rule at_pcE) (auto simp: at_pc_def run_proc_def proc_step_def Let_def)

definition jb_final :: "job \<Rightarrow> bool" where
  "jb_final jb = (jb_done jb \<or> jb_state jb = ERROR)"

definition final_in :: "(int \<rightharpoonup> job) \<Rightarrow> int \<Rightarrow> bool" where
  "final_in J d = (case J d of None \<Rightarrow> False | Some jb \<Rightarrow> jb_final jb)"

definition error_in :: "(int \<rightharpoonup> job) \<Rightarrow> int \<Rightarrow> bool" where
  "error_in J d = (case J d of None \<Rightarrow> False | Some jb \<Rightarrow> jb_state jb = ERROR)"

definition after_deps :: "int \<Rightarrow> int \<Rightarrow> (int \<rightharpoonup> job) \<Rightarrow> int list \<Rightarrow> int list \<Rightarrow> job \<Rightarrow> bool \<Rightarrow> jsys \<Rightarrow> bool" where
  \<comment> \<open>the loop over the dependencies is over: only the job \<open>k\<close> was written, and it failed when it is skipped for good\<close>
  "after_deps pid k J A Q jb relaunch s = (\<exists>J' jb' skip. at_pc pid s J' A Q (PDeps k jb' [] skip relaunch)
     \<and> jb_deps jb' = jb_deps jb \<and> jb_action jb' = jb_action jb \<and> (\<forall>j. j \<noteq> k \<longrightarrow> J' j = J j)
     \<and> (relaunch \<longrightarrow> skip) \<and> (skip \<and> \<not> relaunch \<longrightarrow> error_in J' k))"

lemma after_deps_fail:
  "after_deps pid k (J(k \<mapsto> e)) A Q (dep_failed now d jb) r s \<Longrightarrow> after_deps pid k J A Q jb r s"
  by (auto simp: after_deps_def dep_failed_def Let_def)

text \<open>The loop over the dependencies asks for another round exactly when one of them is not final.\<close>

lemma ev_deps:
  assumes "at_pc pid s J A Q (PDeps k jb ds skip relaunch)" "\<forall>d\<in>set ds. d \<noteq> k \<and> J d \<noteq> None" "skip \<and> \<not> relaunch \<longrightarrow> error_in J k" "relaunch \<longrightarrow> skip"
  shows "ev pid (after_deps pid k J A Q jb (relaunch \<or> (\<exists>d\<in>set ds. \<not> final_in J d))) s"
  using assms
proof (induction ds arbitrary: s J jb skip relaunch)
  case Nil
  then show ?case by (intro ev.now) (auto simp: after_deps_def)
next
  case (Cons d ds)
  obtain jd where jd: "J d = Some jd" "d \<noteq> k" using Cons.prems(2) by auto
  have ds: "\<forall>d\<in>set ds. d \<noteq> k \<and> J d \<noteq> None" using Cons.prems(2) by auto
  show ?case
  proof (rule ev.step)
    fix out now
    let ?s = "run_proc out now pid s" and ?jb = "dep_failed now d jb"
    note st = step_dep [OF Cons.prems(1) jd(1), of out now]
    consider "jb_state jd = ERROR" | "jb_state jd \<noteq> ERROR" "jb_done jd" | "jb_state jd \<noteq> ERROR" "\<not> jb_done jd" by blast
    then show "ev pid (after_deps pid k J A Q jb (relaunch \<or> (\<exists>d\<in>set (d # ds). \<not> final_in J d))) ?s"
    proof cases
      case 1
      have a: "at_pc pid ?s (J(k \<mapsto> ?jb)) A Q (PDeps k ?jb ds True relaunch)" using st 1 by simp
      have "final_in J d" using jd 1 by (simp add: final_in_def jb_final_def)
      then have r: "(relaunch \<or> (\<exists>d\<in>set (d # ds). \<not> final_in J d)) = (relaunch \<or> (\<exists>d\<in>set ds. \<not> final_in (J(k \<mapsto> ?jb)) d))"
        using ds by (auto simp: final_in_def)
      have e: "error_in (J(k \<mapsto> ?jb)) k" by (simp add: error_in_def dep_failed_def Let_def)
      have "ev pid (after_deps pid k (J(k \<mapsto> ?jb)) A Q ?jb (relaunch \<or> (\<exists>d\<in>set ds. \<not> final_in (J(k \<mapsto> ?jb)) d))) ?s"
      proof (rule Cons.IH [OF a])
        show "\<forall>d\<in>set ds. d \<noteq> k \<and> (J(k \<mapsto> ?jb)) d \<noteq> None" using ds by (simp add: fun_upd_apply)
      qed (use e in blast)+
      then show ?thesis unfolding r by (rule ev_trans) (rule ev.now, erule after_deps_fail)
    next
      case 2
      then have a: "at_pc pid ?s J A Q (PDeps k jb ds skip relaunch)" using st by simp
      have "final_in J d" using jd 2 by (simp add: final_in_def jb_final_def)
      then show ?thesis using Cons.IH [OF a ds Cons.prems(3,4)] by simp
    next
      case 3
      then have a: "at_pc pid ?s J A Q (PDeps k jb ds True True)" using st by simp
      have "\<not> final_in J d" using jd 3 by (simp add: final_in_def jb_final_def)
      then show ?thesis using Cons.IH [OF a ds] by simp
    qed
  qed
qed

text \<open>A turn of the worker: the first job of the queue becomes final when its dependencies are, and goes to the end of the
  queue otherwise.\<close>

lemma ev_get: "at_pc pid s J A Q PGet \<Longrightarrow> R J Q \<Longrightarrow> ev pid (\<lambda>s'. \<exists>J' Q'. at_pc pid s' J' A Q' PGet \<and> R J' Q') s"
  by (rule ev.now) blast

lemma ev_tail: "at_pc pid s J A Q PTail \<Longrightarrow> R J Q \<Longrightarrow> ev pid (\<lambda>s'. \<exists>J' Q'. at_pc pid s' J' A Q' PGet \<and> R J' Q') s"
  by (rule ev.step) (rule ev_get [OF step_tail])

lemma ev_exec:
  assumes "at_pc pid s J A Q (PRun k jb)" "jb_action jb \<in> set A" "\<And>J'. final_in J' k \<Longrightarrow> (\<forall>j. j \<noteq> k \<longrightarrow> J' j = J j) \<Longrightarrow> R J' Q"
  shows "ev pid (\<lambda>s'. \<exists>J' Q'. at_pc pid s' J' A Q' PGet \<and> R J' Q') s"
proof (rule ev.step, rule ev.step, rule ev.step)
  fix out1 now1 out now out2 now2
  let ?jb = "job_after now out jb"
  let ?s = "run_proc out now pid (run_proc out1 now1 pid s)"
  have 2: "at_pc pid ?s (J(k \<mapsto> ?jb)) A Q (PResults k ?jb (is_ok out))" by (rule step_exec [OF step_run [OF assms(1,2)]])
  have R: "R (J(k \<mapsto> ?jb)) Q"
    by (rule assms(3)) (cases out; auto simp: final_in_def jb_final_def jb_done_def job_after_def failed_def)+
  from step_results [OF 2] show "ev pid (\<lambda>s'. \<exists>J' Q'. at_pc pid s' J' A Q' PGet \<and> R J' Q') (run_proc out2 now2 pid ?s)"
    using ev_tail [where R = R, OF _ R] ev_get [where R = R, OF _ R] by blast
qed

definition ready :: "(int \<rightharpoonup> job) \<Rightarrow> int \<Rightarrow> bool" where
  "ready J k = (case J k of None \<Rightarrow> False | Some jb \<Rightarrow> list_all (final_in J) (jb_deps jb))"

definition job_known :: "(int \<rightharpoonup> job) \<Rightarrow> int list \<Rightarrow> (int \<Rightarrow> nat) \<Rightarrow> int list \<Rightarrow> int \<Rightarrow> bool" where
  "job_known J A rank Q k = (k \<noteq> 0 \<and> (case J k of None \<Rightarrow> False | Some jb \<Rightarrow> \<not> jb_final jb \<and> jb_action jb \<in> set A
     \<and> list_all (\<lambda>d. J d \<noteq> None \<and> (final_in J d \<or> d \<in> set Q \<and> rank d < rank k)) (jb_deps jb)))"

definition queue_ok :: "(int \<rightharpoonup> job) \<Rightarrow> int list \<Rightarrow> (int \<Rightarrow> nat) \<Rightarrow> int list \<Rightarrow> bool" where
  \<comment> \<open>the jobs that wait have what they need, and depend on final jobs or on jobs of lower rank that wait as well\<close>
  "queue_ok J A rank Q = (distinct Q \<and> list_all (job_known J A rank Q) Q)"

definition turned :: "int \<Rightarrow> (int \<rightharpoonup> job) \<Rightarrow> int list \<Rightarrow> (int \<rightharpoonup> job) \<Rightarrow> int list \<Rightarrow> bool" where
  "turned k J Q J' Q' = ((\<forall>j. j \<noteq> k \<longrightarrow> J' j = J j) \<and> (if ready J k then Q' = Q \<and> final_in J' k
     else Q' = Q @ [k] \<and> (\<exists>jb jb'. J k = Some jb \<and> J' k = Some jb' \<and> jb_deps jb' = jb_deps jb \<and> jb_action jb' = jb_action jb \<and> jb_state jb' = NEW)))"

lemma job_knownD:
  assumes "job_known J A rank Q k"
  obtains jb where "k \<noteq> 0" "J k = Some jb" "\<not> jb_final jb" "jb_action jb \<in> set A"
    "\<forall>d\<in>set (jb_deps jb). J d \<noteq> None \<and> (final_in J d \<or> d \<in> set Q \<and> rank d < rank k)"
  using assms by (auto simp: job_known_def list_all_iff split: option.splits)

lemma ev_turn:
  assumes "at_pc pid s J A (k # Q) PGet" "job_known J A rank (k # Q) k"
  shows "ev pid (\<lambda>s'. \<exists>J' Q'. at_pc pid s' J' A Q' PGet \<and> turned k J Q J' Q') s"
proof (rule ev.step)
  fix out now
  let ?s = "run_proc out now pid s"
  obtain jb where jb: "k \<noteq> 0" "J k = Some jb" "\<not> jb_final jb" "jb_action jb \<in> set A"
    "\<forall>d\<in>set (jb_deps jb). J d \<noteq> None \<and> (final_in J d \<or> d \<in> set (k # Q) \<and> rank d < rank k)"
    using assms(2) by (rule job_knownD)
  let ?jb = "jb\<lparr>jb_start := now\<rparr>"
  have nf: "\<not> final_in J k" using jb(2,3) by (simp add: final_in_def)
  have dk: "\<forall>d\<in>set (jb_deps jb). d \<noteq> k \<and> J d \<noteq> None" using jb(5) nf by force
  have r: "ready J k \<longleftrightarrow> \<not> (\<exists>d\<in>set (jb_deps jb). \<not> final_in J d)" using jb(2) by (auto simp: ready_def list_all_iff)
  have "ev pid (after_deps pid k J A Q ?jb (False \<or> (\<exists>d\<in>set (jb_deps jb). \<not> final_in J d))) ?s"
    by (rule ev_deps [OF step_get [OF assms(1) jb(1,2)] dk]) simp_all
  then have "ev pid (after_deps pid k J A Q ?jb (\<not> ready J k)) ?s" using r by simp
  then show "ev pid (\<lambda>s'. \<exists>J' Q'. at_pc pid s' J' A Q' PGet \<and> turned k J Q J' Q') ?s"
  proof (rule ev_trans)
    fix s1 assume "after_deps pid k J A Q ?jb (\<not> ready J k) s1"
    then obtain J' jb' skip where a: "at_pc pid s1 J' A Q (PDeps k jb' [] skip (\<not> ready J k))" "jb_deps jb' = jb_deps jb"
      "jb_action jb' = jb_action jb" "\<forall>j. j \<noteq> k \<longrightarrow> J' j = J j" "\<not> ready J k \<longrightarrow> skip" "skip \<and> ready J k \<longrightarrow> error_in J' k"
      by (auto simp: after_deps_def)
    show "ev pid (\<lambda>s'. \<exists>J' Q'. at_pc pid s' J' A Q' PGet \<and> turned k J Q J' Q') s1"
    proof (rule ev.step, cases "ready J k"; cases skip)
      fix out now assume c: "ready J k" skip
      then have "turned k J Q J' Q" using a(4,6)
        by (auto simp: turned_def final_in_def error_in_def jb_final_def split: option.splits)
      with ev_tail [OF step_skip] a(1) c show "ev pid (\<lambda>s'. \<exists>J' Q'. at_pc pid s' J' A Q' PGet \<and> turned k J Q J' Q') (run_proc out now pid s1)" by simp
    next
      fix out now assume c: "ready J k" "\<not> skip"
      show "ev pid (\<lambda>s'. \<exists>J' Q'. at_pc pid s' J' A Q' PGet \<and> turned k J Q J' Q') (run_proc out now pid s1)"
      proof (rule ev_exec)
        show "at_pc pid (run_proc out now pid s1) J' A Q (PRun k jb')" using step_go a(1) c by simp
      qed (use a(3,4) jb(4) c in \<open>auto simp: turned_def\<close>)
    next
      fix out now assume c: "\<not> ready J k" skip
      let ?J = "J'(k \<mapsto> jb'\<lparr>jb_state := NEW\<rparr>)"
      have "turned k J Q ?J (Q @ [k])" using a(2-4) c jb(2) by (auto simp: turned_def)
      moreover have "at_pc pid (run_proc out now pid s1) ?J A Q (PPut k)" using step_back a(1) c by simp
      ultimately show "ev pid (\<lambda>s'. \<exists>J' Q'. at_pc pid s' J' A Q' PGet \<and> turned k J Q J' Q') (run_proc out now pid s1)"
        by (intro ev.step [OF ev_tail [OF step_put]])
    qed (use a(5) in simp)
  qed
qed

text \<open>Some job of a queue is always ready, so after at most a round the queue gets shorter.\<close>

definition waiting :: "(int \<rightharpoonup> job) \<Rightarrow> int list \<Rightarrow> nat" where
  "waiting J Q = length (takeWhile (\<lambda>k. \<not> ready J k) Q)"

lemma some_ready:
  assumes "queue_ok J A rank Q" "Q \<noteq> []"
  shows "\<exists>k\<in>set Q. ready J k"
proof -
  obtain k where k: "k \<in> set Q" "\<And>j. j \<in> set Q \<Longrightarrow> rank k \<le> rank j"
    using ex_has_least_nat [of "\<lambda>k. k \<in> set Q" "hd Q" rank] assms(2) by auto
  then have "job_known J A rank Q k" using assms(1) by (simp add: queue_ok_def list_all_iff)
  then have "ready J k" by (rule job_knownD) (use k(2) in \<open>fastforce simp: ready_def list_all_iff\<close>)
  with k(1) show ?thesis ..
qed

lemma turned_final:
  assumes "turned k J Q J' Q'" "job_known J A rank (k # Q) k" "\<not> ready J k"
  shows "final_in J' j = final_in J j" "ready J' j = ready J j"
proof -
  obtain jb jb' where k: "J k = Some jb" "J' k = Some jb'" "jb_deps jb' = jb_deps jb" "jb_state jb' = NEW"
    and o: "\<forall>j. j \<noteq> k \<longrightarrow> J' j = J j" using assms(1,3) by (auto simp: turned_def)
  have "\<not> jb_final jb" using assms(2) k(1) by (auto elim: job_knownD)
  then have "final_in J' i = final_in J i" for i
    using k o by (cases "i = k") (simp_all add: final_in_def jb_final_def jb_done_def)
  then have f: "final_in J' = final_in J" by blast
  then show "final_in J' j = final_in J j" by simp
  show "ready J' j = ready J j" using f k o by (cases "j = k") (auto simp: ready_def split: option.splits)
qed

lemma turned_known:
  assumes "turned k J Q J' Q'" "job_known J A rank (k # Q) k" "job_known J A rank (k # Q) j" "j \<noteq> k \<or> \<not> ready J k"
  shows "job_known J' A rank Q' j"
proof -
  have o: "\<forall>j. j \<noteq> k \<longrightarrow> J' j = J j" using assms(1) by (simp add: turned_def)
  obtain jb where jb: "j \<noteq> 0" "J j = Some jb" "\<not> jb_final jb" "jb_action jb \<in> set A"
    "\<forall>d\<in>set (jb_deps jb). J d \<noteq> None \<and> (final_in J d \<or> d \<in> set (k # Q) \<and> rank d < rank j)"
    using assms(3) by (rule job_knownD)
  have k: "J' k \<noteq> None" using assms(1) by (auto simp: turned_def final_in_def split: if_splits option.splits)
  have "d \<in> set (jb_deps jb) \<Longrightarrow> J' d \<noteq> None" for d using jb(5) o k by metis
  moreover have "d \<in> set (jb_deps jb) \<Longrightarrow> final_in J' d \<or> d \<in> set Q' \<and> rank d < rank j" for d
  proof (cases "ready J k")
    case True
    have "d \<noteq> k \<Longrightarrow> final_in J' d = final_in J d" using o by (simp add: final_in_def)
    moreover assume "d \<in> set (jb_deps jb)"
    ultimately show ?thesis using True jb(5) assms(1) by (cases "d = k") (auto simp: turned_def)
  next
    case False
    assume "d \<in> set (jb_deps jb)"
    with False jb(5) turned_final(1) [OF assms(1,2) False] assms(1) show ?thesis by (auto simp: turned_def)
  qed
  ultimately have d: "\<forall>d\<in>set (jb_deps jb). J' d \<noteq> None \<and> (final_in J' d \<or> d \<in> set Q' \<and> rank d < rank j)" by blast
  show ?thesis
  proof (cases "j = k")
    case True
    with assms(1,4) jb(2) obtain jb' where "J' j = Some jb'" "jb_deps jb' = jb_deps jb" "jb_action jb' = jb_action jb" "jb_state jb' = NEW"
      by (auto simp: turned_def)
    with d jb(1,4) show ?thesis by (simp add: job_known_def list_all_iff jb_final_def jb_done_def)
  qed (use d jb o in \<open>simp add: job_known_def list_all_iff\<close>)
qed

lemma ev_drain:
  assumes "at_pc pid s J A Q PGet" "queue_ok J A rank Q"
  shows "ev pid (\<lambda>s'. \<exists>J'. at_pc pid s' J' A [] PGet \<and> (\<forall>k\<in>set Q. final_in J' k) \<and> (\<forall>j. j \<notin> set Q \<longrightarrow> J' j = J j)) s"
  using assms
proof (induction "length Q * length Q + waiting J Q" arbitrary: s J Q rule: less_induct)
  case less
  show ?case
  proof (cases Q)
    case Nil
    with less.prems(1) show ?thesis by (auto intro!: ev.now)
  next
    case (Cons k Q0)
    have dk: "distinct (k # Q0)" and kn: "\<And>j. j \<in> set (k # Q0) \<Longrightarrow> job_known J A rank (k # Q0) j"
      using less.prems(2) Cons by (auto simp: queue_ok_def list_all_iff)
    have "ev pid (\<lambda>s'. \<exists>J' Q'. at_pc pid s' J' A Q' PGet \<and> turned k J Q0 J' Q') s"
      using ev_turn [of pid s J A k Q0 rank] less.prems(1) kn Cons by simp
    then show ?thesis
    proof (rule ev_trans)
      fix s1 assume "\<exists>J' Q'. at_pc pid s1 J' A Q' PGet \<and> turned k J Q0 J' Q'"
      then obtain J1 Q1 where 1: "at_pc pid s1 J1 A Q1 PGet" "turned k J Q0 J1 Q1" by blast
      have same: "\<forall>j. j \<noteq> k \<longrightarrow> J1 j = J j" using 1(2) by (simp add: turned_def)
      have mem: "set Q1 \<subseteq> set Q" "\<forall>j\<in>set Q. j \<in> set Q1 \<or> j = k \<and> ready J k" "distinct Q1"
        using 1(2) dk Cons by (auto simp: turned_def split: if_splits)
      have ok: "queue_ok J1 A rank Q1"
        using turned_known [OF 1(2) kn [of k] kn] mem 1(2) dk Cons by (auto simp: queue_ok_def list_all_iff turned_def split: if_splits)
      have dec: "length Q1 * length Q1 + waiting J1 Q1 < length Q * length Q + waiting J Q"
      proof (cases "ready J k")
        case True
        then have "Q1 = Q0" using 1(2) by (simp add: turned_def)
        moreover have "waiting J1 Q0 \<le> length Q0" by (simp add: waiting_def length_takeWhile_le)
        ultimately show ?thesis using Cons by simp
      next
        case False
        note t = turned_final [OF 1(2) kn [of k] False]
        have Q1: "Q1 = Q0 @ [k]" using 1(2) False by (simp add: turned_def)
        obtain j where j: "j \<in> set Q0" "ready J j" using some_ready [OF less.prems(2)] False Cons by auto
        have "waiting J1 Q1 = length (takeWhile (\<lambda>k. \<not> ready J k) Q0)"
          using t(2) j by (simp add: waiting_def Q1 takeWhile_append1 [of j])
        then show ?thesis using Cons Q1 False by (simp add: waiting_def)
      qed
      have fin: "j \<notin> set Q1 \<Longrightarrow> j \<in> set Q \<Longrightarrow> final_in J1 j" for j using mem(2) 1(2) by (auto simp: turned_def)
      show "ev pid (\<lambda>s'. \<exists>J'. at_pc pid s' J' A [] PGet \<and> (\<forall>k\<in>set Q. final_in J' k) \<and> (\<forall>j. j \<notin> set Q \<longrightarrow> J' j = J j)) s1"
      proof (rule ev_trans [OF less.hyps [OF dec 1(1) ok]], rule ev.now, elim exE conjE, intro exI conjI)
        fix s2 J2 assume 2: "\<forall>k\<in>set Q1. final_in J2 k" "\<forall>j. j \<notin> set Q1 \<longrightarrow> J2 j = J1 j"
        show "\<forall>k\<in>set Q. final_in J2 k" using 2 fin by (metis final_in_def)
        show "\<forall>j. j \<notin> set Q \<longrightarrow> J2 j = J j" using 2(2) mem(1) same Cons by auto
      qed
    qed
  qed
qed

section \<open>Properties\<close>

definition idle_server :: "(int \<rightharpoonup> wobj) \<Rightarrow> jsys" where
  "idle_server ws = \<lparr>s_jobs = Map.empty, s_next = 1, s_actions = [], s_queue = [], s_ret = [], s_workers = ws, s_procs = Map.empty, s_seen = Map.empty\<rparr>"

lemma jobs_ok_idle: "jobs_ok (idle_server ws)"
  by (simp add: jobs_ok_def idle_server_def jobs_inv_def exclusive_def active_def pcs_def holds_def)

lemma jobs_ok_reach: "jstep\<^sup>*\<^sup>* s s' \<Longrightarrow> jobs_ok s \<Longrightarrow> jobs_ok s'"
  by (induction rule: rtranclp_induct) (auto intro: jobs_ok_step)

text \<open>What a process has found is a matter of the past: \<open>found_done\<close> says that at some point of the path, since the process took
  the job, the other job was done.\<close>

definition found_done :: "int \<Rightarrow> int \<Rightarrow> int \<Rightarrow> jsys list \<Rightarrow> bool" where
  "found_done pid k d tr = (\<exists>us u vs jd. tr = us @ u # vs \<and> s_jobs u d = Some jd \<and> jb_done jd \<and> (\<forall>x\<in>set (us @ [u]). holds (pcs x) pid k))"

definition once_found :: "int \<Rightarrow> int \<Rightarrow> jsys list \<Rightarrow> bool" where
  "once_found k d tr = (\<exists>pid us vs. tr = us @ vs \<and> found_done pid k d vs)"

lemma found_here: "s_jobs s d = Some jd \<Longrightarrow> jb_done jd \<Longrightarrow> holds (pcs s) pid k \<Longrightarrow> found_done pid k d (s # tr)"
  unfolding found_done_def by (intro exI [of _ "[]"] exI [of _ s] exI [of _ tr] exI [of _ jd]) simp

lemma found_later: "found_done pid k d tr \<Longrightarrow> holds (pcs s) pid k \<Longrightarrow> found_done pid k d (s # tr)"
  unfolding found_done_def proof -
  assume h: "holds (pcs s) pid k" and f: "\<exists>us u vs jd. tr = us @ u # vs \<and> s_jobs u d = Some jd \<and> jb_done jd \<and> (\<forall>x\<in>set (us @ [u]). holds (pcs x) pid k)"
  then obtain us u vs jd where "tr = us @ u # vs" "s_jobs u d = Some jd" "jb_done jd" "\<forall>x\<in>set (us @ [u]). holds (pcs x) pid k" by blast
  with h show "\<exists>us u vs jd. s # tr = us @ u # vs \<and> s_jobs u d = Some jd \<and> jb_done jd \<and> (\<forall>x\<in>set (us @ [u]). holds (pcs x) pid k)"
    by (intro exI [of _ "s # us"] exI [of _ u] exI [of _ vs] exI [of _ jd]) simp
qed

lemma once_later: "once_found k d tr \<Longrightarrow> once_found k d (s # tr)"
  unfolding once_found_def by (metis append_Cons)

lemma onceI: "found_done pid k d tr \<Longrightarrow> once_found k d tr"
  unfolding once_found_def by (intro exI [of _ pid] exI [of _ "[]"] exI [of _ tr]) simp

text \<open>What one step of a process adds to what it has found, and which done jobs it writes.\<close>

lemma step_found:
  assumes "proc_step out now p s = (p', s')" "pc_shape (pr_pc p)"
  shows "pc_shape (pr_pc p')"
    and "held (pr_pc p') = Some k \<Longrightarrow> d \<in> pc_deps (pr_pc p') \<Longrightarrow>
      held (pr_pc p) = Some k \<and> (d \<in> pc_deps (pr_pc p) \<or> (\<exists>jd. s_jobs s d = Some jd \<and> jb_done jd))"
    and "s_jobs s' k = Some jb \<Longrightarrow> jb_done jb \<Longrightarrow> s_jobs s k = Some jb \<or> held (pr_pc p) = Some k \<and> set (jb_deps jb) \<subseteq> pc_deps (pr_pc p)"
    and "s_seen s' = s_seen s" "s_procs s' = s_procs s"
proof -
  have a: "jb_deps (job_after now out jb) = jb_deps jb" for jb by (cases out) (auto simp: job_after_def failed_def)
  have st: "pc_shape (pr_pc p') \<and> s_seen s' = s_seen s \<and> s_procs s' = s_procs s
    \<and> (held (pr_pc p') = Some k \<and> d \<in> pc_deps (pr_pc p') \<longrightarrow>
      held (pr_pc p) = Some k \<and> (d \<in> pc_deps (pr_pc p) \<or> (\<exists>jd. s_jobs s d = Some jd \<and> jb_done jd)))
    \<and> (s_jobs s' k = Some jb \<and> jb_done jb \<longrightarrow> s_jobs s k = Some jb \<or> held (pr_pc p) = Some k \<and> set (jb_deps jb) \<subseteq> pc_deps (pr_pc p))"
    for k d jb
  proof (cases "pr_pc p")
    case PGet
    then show ?thesis using assms
      by (auto simp: proc_step_def Let_def get_step_def take_job_def worker_save_def split: list.splits option.splits qitem.splits if_splits)
  next
    case (PDeps k0 jb0 ds skip relaunch)
    obtain pre where pre: "jb_deps jb0 = pre @ ds" using assms(2) PDeps by auto
    show ?thesis
    proof (cases ds)
      case Nil
      then show ?thesis using assms(1) PDeps pre
        by (auto simp: proc_step_def Let_def dep_step_def job_save_def jb_done_def split: if_splits)
    next
      case (Cons e es)
      have "\<exists>pre'. jb_deps jb0 = pre' @ es" using pre Cons by (intro exI [of _ "pre @ [e]"]) simp
      then show ?thesis using assms(1) PDeps pre Cons
        by (auto simp: proc_step_def Let_def dep_step_def dep_failed_def job_save_def jb_done_def split: option.splits if_splits)
    qed
  next
    case (PRun k0 jb0)
    then show ?thesis using assms(1)
      by (auto simp: proc_step_def Let_def worker_save_def split: if_splits)
  next
    case (PExec k0 jb0)
    then show ?thesis using assms(1) a
      by (auto simp: proc_step_def Let_def job_save_def split: if_splits)
  next
    case (PResults k0 jb0 ok)
    then show ?thesis using assms(1)
      by (auto simp: proc_step_def Let_def queue_results_def worker_save_def split: if_splits)
  next
    case PTail
    then show ?thesis using assms(1) by (auto simp: proc_step_def Let_def worker_save_def split: if_splits)
  qed (use assms in \<open>auto simp: proc_step_def Let_def queue_put_def\<close>)
  from st show "pc_shape (pr_pc p')" "s_seen s' = s_seen s" "s_procs s' = s_procs s" by blast+
  from st show "held (pr_pc p') = Some k \<Longrightarrow> d \<in> pc_deps (pr_pc p') \<Longrightarrow>
      held (pr_pc p) = Some k \<and> (d \<in> pc_deps (pr_pc p) \<or> (\<exists>jd. s_jobs s d = Some jd \<and> jb_done jd))" by blast
  from st show "s_jobs s' k = Some jb \<Longrightarrow> jb_done jb \<Longrightarrow> s_jobs s k = Some jb \<or> held (pr_pc p) = Some k \<and> set (jb_deps jb) \<subseteq> pc_deps (pr_pc p)"
    by blast
qed

definition traced :: "jsys \<Rightarrow> jsys list \<Rightarrow> bool" where
  "traced s tr = ((\<forall>pid c. pcs s pid = Some c \<longrightarrow> pc_shape c)
     \<and> (\<forall>pid c k d. pcs s pid = Some c \<longrightarrow> held c = Some k \<longrightarrow> d \<in> pc_deps c \<longrightarrow> found_done pid k d (s # tr))
     \<and> (\<forall>k jb d. s_jobs s k = Some jb \<longrightarrow> jb_done jb \<longrightarrow> d \<in> set (jb_deps jb) \<longrightarrow> once_found k d (s # tr))
     \<and> (\<forall>c k jb d. s_seen s c = Some (k, jb) \<longrightarrow> jb_done jb \<longrightarrow> d \<in> set (jb_deps jb) \<longrightarrow> once_found k d (s # tr)))"

lemma tracedD:
  assumes "traced s tr"
  shows "pcs s pid = Some c \<Longrightarrow> pc_shape c" "pcs s pid = Some c \<Longrightarrow> held c = Some k \<Longrightarrow> d \<in> pc_deps c \<Longrightarrow> found_done pid k d (s # tr)"
    "s_jobs s k = Some jb \<Longrightarrow> jb_done jb \<Longrightarrow> d \<in> set (jb_deps jb) \<Longrightarrow> once_found k d (s # tr)"
    "s_seen s a = Some (k, jb) \<Longrightarrow> jb_done jb \<Longrightarrow> d \<in> set (jb_deps jb) \<Longrightarrow> once_found k d (s # tr)"
  using assms unfolding traced_def by blast+

lemma tracedI:
  assumes "\<And>pid c. pcs s pid = Some c \<Longrightarrow> pc_shape c"
    "\<And>pid c k d. pcs s pid = Some c \<Longrightarrow> held c = Some k \<Longrightarrow> d \<in> pc_deps c \<Longrightarrow> found_done pid k d (s # tr)"
    "\<And>k jb d. s_jobs s k = Some jb \<Longrightarrow> jb_done jb \<Longrightarrow> d \<in> set (jb_deps jb) \<Longrightarrow> once_found k d (s # tr)"
    "\<And>c k jb d. s_seen s c = Some (k, jb) \<Longrightarrow> jb_done jb \<Longrightarrow> d \<in> set (jb_deps jb) \<Longrightarrow> once_found k d (s # tr)"
  shows "traced s tr"
  using assms unfolding traced_def by blast

definition same_done :: "job \<Rightarrow> job \<Rightarrow> bool" where
  "same_done jb' jb = (jb_done jb' \<longrightarrow> jb_done jb \<and> jb_deps jb' = jb_deps jb)"

text \<open>A step that moves no process keeps the path sound when the done jobs it writes were seen done before.\<close>

lemma traced_still:
  assumes "traced s tr"
    and pc: "\<And>pid c. pcs s' pid = Some c \<Longrightarrow> pcs s pid = Some c \<or> c = PGet"
    and jobs: "\<And>k jb. s_jobs s' k = Some jb \<Longrightarrow> \<not> jb_done jb \<or> (\<exists>j. same_done jb j \<and> (s_jobs s k = Some j \<or> (\<exists>a. s_seen s a = Some (k, j))))"
    and seen: "\<And>c k jb. s_seen s' c = Some (k, jb) \<Longrightarrow> (\<exists>j. same_done jb j \<and> (s_jobs s k = Some j \<or> (\<exists>a. s_seen s a = Some (k, j))))"
  shows "traced s' (s # tr)"
proof (rule tracedI)
  have once: "once_found k d (s' # s # tr)" if "same_done jb j" "jb_done jb" "d \<in> set (jb_deps jb)" "s_jobs s k = Some j \<or> (\<exists>a. s_seen s a = Some (k, j))" for k d jb j
    by (rule once_later) (use that tracedD(3,4) [OF assms(1)] in \<open>auto simp: same_done_def\<close>)
  show "pcs s' pid = Some c \<Longrightarrow> pc_shape c" for pid c using pc tracedD(1) [OF assms(1)] by force
  show "found_done pid k d (s' # s # tr)" if "pcs s' pid = Some c" "held c = Some k" "d \<in> pc_deps c" for pid c k d
    by (rule found_later) (use that pc tracedD(2) [OF assms(1)] in \<open>auto simp: holds_def\<close>, force)
  show "once_found k d (s' # s # tr)" if "s_jobs s' k = Some jb" "jb_done jb" "d \<in> set (jb_deps jb)" for k jb d
    using jobs [OF that(1)] once that(2,3) by blast
  show "once_found k d (s' # s # tr)" if "s_seen s' c = Some (k, jb)" "jb_done jb" "d \<in> set (jb_deps jb)" for c k jb d
    using seen [OF that(1)] once that(2,3) by blast
qed

lemma same_done_refl [simp]: "same_done jb jb" by (simp add: same_done_def)

lemma traced_run:
  assumes "traced s tr"
  shows "traced (run_proc out now pid s) (s # tr)"
proof (cases "s_procs s pid")
  case None
  then show ?thesis by (intro traced_still [OF assms]) (force simp: run_proc_def)+
next
  case (Some p)
  obtain p' s1 where r: "proc_step out now p s = (p', s1)" by fastforce
  let ?s = "s1\<lparr>s_procs := (s_procs s1)(pid \<mapsto> p')\<rparr>"
  have s': "run_proc out now pid s = ?s" using Some r by (simp add: run_proc_def)
  have c: "pcs s pid = Some (pr_pc p)" using Some by (simp add: pcs_def)
  note st = step_found [OF r tracedD(1) [OF assms c]]
  have pcs: "pcs ?s = (pcs s)(pid \<mapsto> pr_pc p')" using st(5) by (auto simp: pcs_def)
  show ?thesis unfolding s'
  proof (rule tracedI)
    show "pcs ?s q = Some e \<Longrightarrow> pc_shape e" for q e using st(1) tracedD(1) [OF assms] unfolding pcs by (auto split: if_splits)
    fix q e k d assume q: "pcs ?s q = Some e" "held e = Some k" "d \<in> pc_deps e"
    have h: "holds (pcs ?s) q k" using q by (simp add: holds_def)
    have "found_done q k d (s # tr)"
    proof (cases "q = pid")
      case True
      then have e: "e = pr_pc p'" using q(1) pcs by simp
      show ?thesis using st(2) [of k d] q(2,3) tracedD(2) [OF assms c, of k d] found_here [of s d _ pid k tr] c
        unfolding e True by (auto simp: holds_def)
    next
      case False
      then have "pcs s q = Some e" using q(1) unfolding pcs by simp
      then show ?thesis using q(2,3) by (rule tracedD(2) [OF assms])
    qed
    then show "found_done q k d (?s # s # tr)" using h by (rule found_later)
  next
    fix k jb d assume j: "s_jobs ?s k = Some jb" "jb_done jb" "d \<in> set (jb_deps jb)"
    then have "s_jobs s k = Some jb \<or> held (pr_pc p) = Some k \<and> d \<in> pc_deps (pr_pc p)" using st(3) [of k jb] by auto
    then have "once_found k d (s # tr)" using tracedD(3) [OF assms _ j(2,3)] tracedD(2) [OF assms c] onceI by blast
    then show "once_found k d (?s # s # tr)" by (rule once_later)
  next
    fix a k jb d assume j: "s_seen ?s a = Some (k, jb)" "jb_done jb" "d \<in> set (jb_deps jb)"
    then have "once_found k d (s # tr)" using tracedD(4) [OF assms, of a k jb d] st(4) by simp
    then show "once_found k d (?s # s # tr)" by (rule once_later)
  qed
qed

lemma seen_simps [simp]: "s_seen (worker_save i w s) = s_seen s" "s_seen (job_save k jb s) = s_seen s" "s_seen (queue_put x s) = s_seen s"
  by (simp_all add: worker_save_def job_save_def queue_put_def)

lemma traced_step: "jstep s s' \<Longrightarrow> traced s tr \<Longrightarrow> traced s' (s # tr)"
proof (induction rule: jstep.induct)
  case (scheduled s now name action deps queues timeout)
  show ?case
    by (rule traced_still [OF scheduled])
      (force simp: schedule_def pcs_def queue_put_def drop_name_def new_job_def jb_done_def split: if_splits option.splits)+
next
  case (started s pid now i onetime)
  show ?case
    by (rule traced_still [OF started(2)]) (force simp: proc_start_def pcs_def Let_def split: option.splits if_splits)+
next
  case (stopped s hard now i)
  show ?case
    by (rule traced_still [OF stopped]) (force simp: worker_stop_def pcs_def split: option.splits if_splits)+
next
  case (died s pid)
  show ?case by (rule traced_still [OF died]) (force simp: pcs_def split: if_splits)+
next
  case (worker s i w)
  show ?case by (rule traced_still [OF worker]) (force simp: pcs_def)+
next
  case (reset s)
  show ?case by (rule traced_still [OF reset]) (force simp: pcs_def queue_reset_def)+
qed (rule traced_run)

lemma check_ready_same: "check_ready die now jb = (jb', saved, r) \<Longrightarrow> same_done jb' jb"
  by (auto simp: check_ready_def same_done_def jb_done_def split: if_splits)

lemma traced_check:
  assumes "traced s tr"
  shows "traced (job_check die now c s) (s # tr)"
proof (cases "s_seen s c")
  case None
  then show ?thesis by (intro traced_still [OF assms]) (force simp: job_check_def)+
next
  case (Some x)
  obtain k jb where x: "x = (k, jb)" by fastforce
  obtain jb' saved r where r: "check_ready die now jb = (jb', saved, r)" by (cases "check_ready die now jb") auto
  have s': "job_check die now c s = (if saved then job_save k jb' s else s)\<lparr>s_seen := (s_seen s)(c \<mapsto> (k, jb'))\<rparr>"
    using Some x r by (simp add: job_check_def)
  have e: "\<exists>j. same_done jb' j \<and> (s_jobs s k = Some j \<or> (\<exists>a. s_seen s a = Some (k, j)))" using check_ready_same [OF r] Some x by blast
  show ?thesis unfolding s'
    by (rule traced_still [OF assms]) (use e in \<open>force simp: pcs_def job_save_def split: if_splits\<close>)+
qed

lemma traced_move: "jmove s s' \<Longrightarrow> traced s tr \<Longrightarrow> traced s' (s # tr)"
proof (induction rule: jmove.induct)
  case (server s s')
  then show ?case by (rule traced_step)
next
  case (again s k)
  show ?case by (rule traced_still [OF again]) (force simp: job_start_def queue_put_def pcs_def)+
next
  case (seen s c k)
  show ?case by (rule traced_still [OF seen]) (force simp: job_load_def pcs_def split: option.splits if_splits)+
next
  case (checked s die now c)
  then show ?case by (rule traced_check)
qed

lemma traced_path:
  assumes "jpath (idle_server ws) (s # tr)"
  shows "traced s tr"
proof -
  have "t \<noteq> [] \<and> traced (hd t) (tl t)" if "jpath (idle_server ws) t" for t using that
  proof (induction rule: jpath.induct)
    case path_start
    show ?case by (auto simp: traced_def idle_server_def pcs_def)
  next
    case (path_move s tr s')
    then show ?case using traced_move [OF path_move.hyps(2)] by simp
  qed
  from this [OF assms] show ?thesis by simp
qed

lemma calm_state:
  assumes "jobs_ok s"
  shows "(\<forall>k jb d jd. s_jobs s k = Some jb \<longrightarrow> jb_done jb \<longrightarrow> d \<in> set (jb_deps jb) \<longrightarrow> s_jobs s d = Some jd \<longrightarrow> jb_done jd)
    \<and> (\<forall>pid p k jb d jd. s_procs s pid = Some p \<longrightarrow> pr_pc p = PRun k jb \<or> pr_pc p = PExec k jb
         \<longrightarrow> d \<in> set (jb_deps jb) \<longrightarrow> s_jobs s d = Some jd \<longrightarrow> jb_done jd)
    \<and> distinct (queue_ids (s_queue s))
    \<and> (\<forall>pid p pid' p' k. s_procs s pid = Some p \<longrightarrow> held (pr_pc p) = Some k \<longrightarrow> s_procs s pid' = Some p' \<longrightarrow> held (pr_pc p') = Some k
         \<longrightarrow> pid' = pid \<and> k \<notin> set (queue_ids (s_queue s)))"
proof -
  let ?Q = "queue_ids (s_queue s)"
  have inv: "jobs_inv (s_jobs s) (s_next s) ?Q (pcs s)" using assms by (simp add: jobs_ok_def)
  have c: "s_procs s pid = Some p \<Longrightarrow> pcs s pid = Some (pr_pc p)" for pid p by (simp add: pcs_def)
  have st: "settled (s_jobs s) (s_next s) ?Q (pcs s) d \<Longrightarrow> s_jobs s d = Some jd \<Longrightarrow> jb_done jd" for d jd by (simp add: settled_def)
  have run: "s_procs s pid = Some p \<Longrightarrow> pr_pc p = PRun k jb \<or> pr_pc p = PExec k jb \<Longrightarrow> d \<in> set (jb_deps jb) \<Longrightarrow> s_jobs s d = Some jd \<Longrightarrow> jb_done jd"
    for pid p k jb d jd using jobs_invD(5) [OF inv c, of pid p d] st [of d jd] by auto
  have ex: "exclusive ?Q (pcs s)" using jobs_invD(1) [OF inv] .
  have hold: "s_procs s pid = Some p \<Longrightarrow> held (pr_pc p) = Some k \<Longrightarrow> holds (pcs s) pid k" for pid p k using c holdsI by blast
  show ?thesis
  proof (intro conjI)
    show "\<forall>k jb d jd. s_jobs s k = Some jb \<longrightarrow> jb_done jb \<longrightarrow> d \<in> set (jb_deps jb) \<longrightarrow> s_jobs s d = Some jd \<longrightarrow> jb_done jd"
      using jobs_invD(4) [OF inv] st by blast
    show "distinct ?Q" using ex by (simp add: exclusive_def)
    show "\<forall>pid p pid' p' k. s_procs s pid = Some p \<longrightarrow> held (pr_pc p) = Some k \<longrightarrow> s_procs s pid' = Some p' \<longrightarrow> held (pr_pc p') = Some k
         \<longrightarrow> pid' = pid \<and> k \<notin> set ?Q"
      using ex hold unfolding exclusive_def by blast
  qed (use run in blast)
qed

text \<open>C4: However the worker processes and the manager interleave, whenever processes are stopped or die, and whatever clients do
  with job objects (starting a job again, checking and saving an object they loaded long ago), a job runs and becomes OK only
  after the jobs it depends on were OK: a process that is about to run a job, or runs it, found each dependency OK or DONE
  at some moment since it took the job, and for a job that is OK some process did. While no client starts a job again or saves
  one it checked, more holds in every reachable state: the dependencies of a job that is OK or being run are OK or DONE now
  (or were deleted), no id waits twice in the queue, and no two processes hold the same job. Starting a job again
  can break this second part.\<close>

theorem jobs_after_dependencies:
  assumes "jpath (idle_server ws) (s # tr)"
  shows "(\<forall>pid p k jb d. s_procs s pid = Some p \<longrightarrow> pr_pc p = PRun k jb \<or> pr_pc p = PExec k jb \<longrightarrow> d \<in> set (jb_deps jb)
         \<longrightarrow> found_done pid k d (s # tr))
    \<and> (\<forall>k jb d. s_jobs s k = Some jb \<longrightarrow> jb_done jb \<longrightarrow> d \<in> set (jb_deps jb) \<longrightarrow> once_found k d (s # tr))
    \<and> (jstep\<^sup>*\<^sup>* (idle_server ws) s \<longrightarrow>
        (\<forall>k jb d jd. s_jobs s k = Some jb \<longrightarrow> jb_done jb \<longrightarrow> d \<in> set (jb_deps jb) \<longrightarrow> s_jobs s d = Some jd \<longrightarrow> jb_done jd)
      \<and> (\<forall>pid p k jb d jd. s_procs s pid = Some p \<longrightarrow> pr_pc p = PRun k jb \<or> pr_pc p = PExec k jb
           \<longrightarrow> d \<in> set (jb_deps jb) \<longrightarrow> s_jobs s d = Some jd \<longrightarrow> jb_done jd)
      \<and> distinct (queue_ids (s_queue s))
      \<and> (\<forall>pid p pid' p' k. s_procs s pid = Some p \<longrightarrow> held (pr_pc p) = Some k \<longrightarrow> s_procs s pid' = Some p' \<longrightarrow> held (pr_pc p') = Some k
           \<longrightarrow> pid' = pid \<and> k \<notin> set (queue_ids (s_queue s))))"
proof -
  note tr = traced_path [OF assms]
  have "found_done pid k d (s # tr)"
    if "s_procs s pid = Some p" "pr_pc p = PRun k jb \<or> pr_pc p = PExec k jb" "d \<in> set (jb_deps jb)" for pid p k jb d
    using tracedD(2) [OF tr, of pid "pr_pc p" k d] that by (auto simp: pcs_def)
  moreover have "once_found k d (s # tr)" if "s_jobs s k = Some jb" "jb_done jb" "d \<in> set (jb_deps jb)" for k jb d
    using that by (rule tracedD(3) [OF tr])
  ultimately show ?thesis
  proof (intro conjI)
    assume a: "\<And>pid p k jb d. s_procs s pid = Some p \<Longrightarrow> pr_pc p = PRun k jb \<or> pr_pc p = PExec k jb \<Longrightarrow> d \<in> set (jb_deps jb) \<Longrightarrow> found_done pid k d (s # tr)"
    show "\<forall>pid p k jb d. s_procs s pid = Some p \<longrightarrow> pr_pc p = PRun k jb \<or> pr_pc p = PExec k jb \<longrightarrow> d \<in> set (jb_deps jb)
         \<longrightarrow> found_done pid k d (s # tr)" by (intro allI impI) (rule a)
  qed (blast, rule impI, rule calm_state, rule jobs_ok_reach [OF _ jobs_ok_idle])
qed

text \<open>C5: A worker that is left alone empties the queue: when the jobs that wait exist, have their actions and depend only on
  final jobs or, without a circle, on each other, then after finitely many steps of one process the queue is empty and every
  one of these jobs is final (OK or ERROR), whatever they do when they run, and no other job has changed.\<close>

theorem worker_drains_queue:
  assumes "s_procs s pid = Some p" "pr_pc p = PGet" "\<not> pr_onetime p" "\<not> wo_halt (pr_obj p)"
    "s_workers s (pr_worker p) = Some w" "\<not> wo_halt w" "s_queue s = map QJob Q" "queue_ok (s_jobs s) (s_actions s) rank Q"
  shows "\<exists>n. s_queue (solo out now pid n s) = [] \<and> (\<forall>k\<in>set Q. final_in (s_jobs (solo out now pid n s)) k)
    \<and> (\<forall>j. j \<notin> set Q \<longrightarrow> s_jobs (solo out now pid n s) j = s_jobs s j)"
proof -
  have "at_pc pid s (s_jobs s) (s_actions s) Q PGet" using assms by (auto simp: at_pc_def)
  from ev_solo [OF ev_drain [OF this assms(8)], of out now] show ?thesis unfolding at_pc_def by auto
qed

text \<open>A request to halt costs a job: a worker that was asked to halt takes the next id from the queue and then fails
  in its stop method before it stores anything, so the job waits nowhere any more, is not run, and the worker is not
  recorded as halted.\<close>

theorem halt_loses_job:
  assumes "s_procs s pid = Some p" "pr_pc p = PGet" "s_workers s (pr_worker p) = Some w" "wo_halt w" "s_queue s = QJob k # q"
  shows "s_queue (run_proc out now pid s) = q \<and> s_jobs (run_proc out now pid s) = s_jobs s
    \<and> map_option pr_pc (s_procs (run_proc out now pid s) pid) = Some (PDead P_AttributeError)
    \<and> s_workers (run_proc out now pid s) (pr_worker p) = Some w"
  using assms by (simp add: run_proc_def proc_step_def get_step_def Let_def)

lemma ret_only_results:
  assumes "at_pc pid s J A Q c" "\<And>k jb ok. c \<noteq> PResults k jb ok"
  shows "s_ret (run_proc out now pid s) = s_ret s"
proof -
  have sv: "s_ret (worker_save i w s) = s_ret s" "s_ret (job_save k jb s) = s_ret s" "s_ret (queue_put x s) = s_ret s" for i w k jb x s
    by (simp_all add: worker_save_def job_save_def queue_put_def)
  from assms(1) obtain p where p: "s_procs s pid = Some p" "pr_pc p = c" by (rule at_pcE)
  have g: "s_ret (snd (get_step now p s)) = s_ret s"
    by (simp add: get_step_def Let_def sv split: list.split option.split qitem.split)
  have d: "s_ret (snd (dep_step now p k jb ds skip relaunch s)) = s_ret s" for k jb ds skip relaunch
    by (simp add: dep_step_def Let_def sv split: list.split option.split)
  have "s_ret (snd (proc_step out now p s)) = s_ret s"
  proof (cases c)
    case (PResults k jb ok)
    with assms(2) show ?thesis by blast
  qed (use p(2) g d in \<open>simp_all add: proc_step_def Let_def sv\<close>)
  then show ?thesis using p(1) by (cases "proc_step out now p s") (simp add: run_proc_def)
qed

lemma solo_deps_fail:
  assumes "at_pc pid s J A Q (PDeps k jb ds skip False)" "\<forall>d\<in>set ds. d \<noteq> k \<and> final_in J d" "skip \<or> (\<exists>d\<in>set ds. error_in J d)" "skip \<longrightarrow> error_in J k"
  shows "s_ret (solo out now pid (length ds + 2) s) = s_ret s \<and> (\<exists>J'. at_pc pid (solo out now pid (length ds + 2) s) J' A Q PGet \<and> error_in J' k)"
  using assms
proof (induction ds arbitrary: s J jb skip out now)
  case Nil
  then have 1: "at_pc pid (run_proc (out 0) (now 0) pid s) J A Q PTail" using step_skip by simp
  then have "at_pc pid (run_proc (out 1) (now 1) pid (run_proc (out 0) (now 0) pid s)) J A Q PGet" by (rule step_tail)
  moreover have "s_ret (run_proc (out 1) (now 1) pid (run_proc (out 0) (now 0) pid s)) = s_ret s"
    using ret_only_results [OF 1] ret_only_results [OF Nil.prems(1)] by simp
  ultimately show ?case using Nil.prems(3,4) by (auto simp: numeral_2_eq_2)
next
  case (Cons d ds)
  let ?s = "run_proc (out 0) (now 0) pid s" and ?jb = "dep_failed (now 0) d jb"
  obtain jd where jd: "J d = Some jd" "jb_final jd" "d \<noteq> k" using Cons.prems(2) by (auto simp: final_in_def split: option.splits)
  note st = step_dep [OF Cons.prems(1) jd(1), of "out 0" "now 0"]
  have r: "s_ret ?s = s_ret s" using ret_only_results [OF Cons.prems(1)] by simp
  have sh: "solo out now pid (length (d # ds) + 2) s = solo (\<lambda>i. out (Suc i)) (\<lambda>i. now (Suc i)) pid (length ds + 2) ?s" by simp
  show ?case
  proof (cases "jb_state jd = ERROR")
    case True
    then have a: "at_pc pid ?s (J(k \<mapsto> ?jb)) A Q (PDeps k ?jb ds True False)" using st by simp
    have "\<forall>d\<in>set ds. d \<noteq> k \<and> final_in (J(k \<mapsto> ?jb)) d" using Cons.prems(2) by (simp add: final_in_def)
    moreover have "error_in (J(k \<mapsto> ?jb)) k" by (simp add: error_in_def dep_failed_def Let_def)
    ultimately show ?thesis
      using Cons.IH [OF a, of "\<lambda>i. out (Suc i)" "\<lambda>i. now (Suc i)"] unfolding sh r by blast
  next
    case False
    then have a: "at_pc pid ?s J A Q (PDeps k jb ds skip False)" using st jd(2) by (simp add: jb_final_def)
    have "\<not> error_in J d" using False jd(1) by (simp add: error_in_def)
    then have "skip \<or> (\<exists>d\<in>set ds. error_in J d)" "\<forall>d\<in>set ds. d \<noteq> k \<and> final_in J d" using Cons.prems(2,3) by auto
    then show ?thesis
      using Cons.IH [OF a, of "\<lambda>i. out (Suc i)" "\<lambda>i. now (Suc i)"] Cons.prems(4) unfolding sh r by blast
  qed
qed

text \<open>A job whose dependency failed is never reported: when all dependencies of the job that is taken from the queue are
  final and one of them is ERROR, the job becomes ERROR within a bounded number of steps of the worker, but nothing is
  put on its return queues (a job that fails when it runs is reported there), so that nobody who waits for them hears of it.\<close>

theorem failed_dependency_silent:
  assumes "s_procs s pid = Some p" "pr_pc p = PGet" "\<not> pr_onetime p" "\<not> wo_halt (pr_obj p)"
    "s_workers s (pr_worker p) = Some w" "\<not> wo_halt w" "s_queue s = map QJob (k # Q)" "k \<noteq> 0" "s_jobs s k = Some jb"
    "list_all (\<lambda>d. d \<noteq> k \<and> final_in (s_jobs s) d) (jb_deps jb)" "list_ex (error_in (s_jobs s)) (jb_deps jb)"
  shows "s_ret (solo out now pid (length (jb_deps jb) + 3) s) = s_ret s
    \<and> error_in (s_jobs (solo out now pid (length (jb_deps jb) + 3) s)) k
    \<and> s_queue (solo out now pid (length (jb_deps jb) + 3) s) = map QJob Q"
proof -
  let ?s = "run_proc (out 0) (now 0) pid s" and ?s' = "solo out now pid (length (jb_deps jb) + 3) s"
  have a: "at_pc pid s (s_jobs s) (s_actions s) (k # Q) PGet" using assms(1-7) by (auto simp: at_pc_def)
  note b = step_get [OF a assms(8,9), of "out 0" "now 0"]
  have s': "?s' = solo (\<lambda>i. out (Suc i)) (\<lambda>i. now (Suc i)) pid (length (jb_deps jb) + 2) ?s" by (simp add: numeral_3_eq_3)
  have "s_ret ?s' = s_ret ?s \<and> (\<exists>J'. at_pc pid ?s' J' (s_actions s) Q PGet \<and> error_in J' k)"
    unfolding s' by (rule solo_deps_fail [OF b]) (use assms(10,11) in \<open>auto simp: list_all_iff list_ex_iff\<close>)
  moreover have "s_ret ?s = s_ret s" using ret_only_results [OF a] by simp
  ultimately show ?thesis by (auto simp: at_pc_def)
qed

section \<open>A server with one worker\<close>

definition one_worker :: wobj where
  "one_worker = \<lparr>wo_state = W_NEW, wo_job = no_job, wo_update = 0, wo_halt = False, wo_pid = 0, wo_nr = 1, wo_type = TMUX\<rparr>"

definition two_jobs :: "string list \<Rightarrow> jsys" where
  \<comment> \<open>the second job depends on the first one and waits before it\<close>
  "two_jobs qs = proc_start 10 77 1 False (schedule 6 ''b'' 1 [] [] 0 (schedule 5 ''a'' 1 [2] qs 0 (idle_server (Map.empty(1 \<mapsto> one_worker)))))"

definition busy_proc :: proc where
  "busy_proc = \<lparr>pr_worker = 1, pr_pc = PGet, pr_obj = (state_set W_WAITING 10 one_worker)\<lparr>wo_pid := 77\<rparr>, pr_push = 10, pr_onetime = False\<rparr>"

lemma reach_solo: "jstep\<^sup>*\<^sup>* s0 s \<Longrightarrow> jstep\<^sup>*\<^sup>* s0 (solo out now pid n s)"
proof (induction n arbitrary: s out now)
  case (Suc n)
  have "jstep\<^sup>*\<^sup>* s0 (run_proc (out 0) (now 0) pid s)" using Suc.prems jstep.run by (rule rtranclp.rtrancl_into_rtrancl)
  then show ?case by (simp add: Suc.IH)
qed simp

lemma reach_two_jobs: "jstep\<^sup>*\<^sup>* (idle_server (Map.empty(1 \<mapsto> one_worker))) (two_jobs qs)"
proof -
  let ?s0 = "idle_server (Map.empty(1 \<mapsto> one_worker))"
  let ?s1 = "schedule 5 ''a'' 1 [2] qs 0 ?s0" and ?s2 = "schedule 6 ''b'' 1 [] [] 0 (schedule 5 ''a'' 1 [2] qs 0 ?s0)"
  have "jstep ?s0 ?s1" "jstep ?s1 ?s2" by (rule jstep.scheduled)+
  moreover have "jstep ?s2 (two_jobs qs)"
    unfolding two_jobs_def by (rule jstep.started) (simp add: schedule_def queue_put_def idle_server_def)
  ultimately show ?thesis by (meson rtranclp.rtrancl_into_rtrancl rtranclp.rtrancl_refl)
qed

lemma path_solo: "jpath s0 (s # tr) \<Longrightarrow> \<exists>tr'. jpath s0 (solo out now pid n s # tr')"
proof (induction n arbitrary: s tr out now)
  case (Suc n)
  have "jpath s0 (run_proc (out 0) (now 0) pid s # s # tr)" by (rule path_move [OF Suc.prems jmove.server [OF jstep.run]])
  from Suc.IH [OF this] show ?case by simp
qed auto

lemma path_two_jobs: "\<exists>tr. jpath (idle_server (Map.empty(1 \<mapsto> one_worker))) (two_jobs qs # tr)"
proof -
  have "\<exists>tr. jpath s0 (s # tr)" if "jstep\<^sup>*\<^sup>* s0 s" for s0 s
    using that by (induction rule: rtranclp_induct) (blast intro: jpath.intros jmove.server)+
  then show ?thesis using reach_two_jobs by blast
qed

theorem jobs_after_dependencies_witness:
  "\<exists>s tr. jpath (idle_server (Map.empty(1 \<mapsto> one_worker))) (s # tr) \<and> map_option jb_state (s_jobs s 1) = Some OK
     \<and> once_found 1 2 (s # tr) \<and> map_option jb_done (s_jobs s 2) = Some True \<and> distinct (queue_ids (s_queue s))"
proof -
  let ?s = "solo (\<lambda>_. OJson ''1'') (\<lambda>_. 11) 77 20 (two_jobs [])"
  have r: "jstep\<^sup>*\<^sup>* (idle_server (Map.empty(1 \<mapsto> one_worker))) ?s" by (rule reach_solo [OF reach_two_jobs])
  obtain tr where tr: "jpath (idle_server (Map.empty(1 \<mapsto> one_worker))) (?s # tr)" using path_two_jobs path_solo by blast
  have "map_option (\<lambda>jb. (jb_state jb, jb_deps jb)) (s_jobs ?s 1) = Some (OK, [2])" "s_jobs ?s 2 \<noteq> None" by code_simp+
  with jobs_after_dependencies [OF tr] r tr show ?thesis by (intro exI [of _ ?s] exI [of _ tr]) (auto simp: jb_done_def)
qed

text \<open>A job that is started again can fail after a job that depends on it is OK.\<close>

lemma again_fails:
  "let s = solo (\<lambda>_. ORaise ''e'') (\<lambda>_. 12) 77 20 (job_start 2 (solo (\<lambda>_. OJson ''1'') (\<lambda>_. 11) 77 20 (two_jobs [])))
   in map_option (\<lambda>jb. (jb_state jb, jb_deps jb)) (s_jobs s 1) = Some (OK, [2]) \<and> map_option jb_state (s_jobs s 2) = Some ERROR"
  by code_simp

text \<open>A check that saves an old object undoes a job: a client loads a job that waits, a worker runs it, and the client's
  check, which sees a timeout in its copy, saves that copy, so that the job is NEW again and its result is gone.\<close>

lemma check_undoes_job:
  "let s = solo (\<lambda>_. OJson ''1'') (\<lambda>_. 11) 77 20 (job_load 9 2 (proc_start 10 77 1 False
        (schedule 6 ''b'' 1 [] [] 3 (schedule 5 ''a'' 1 [] [] 0 (idle_server (Map.empty(1 \<mapsto> one_worker)))))))
   in map_option (\<lambda>jb. (jb_state jb, jb_result jb)) (s_jobs s 2) = Some (OK, ''1'')
    \<and> map_option (\<lambda>jb. (jb_state jb, jb_result jb)) (s_jobs (job_check True 20 9 s) 2) = Some (NEW, [])"
  by code_simp

theorem worker_drains_queue_witness:
  "\<exists>n. s_queue (solo (\<lambda>_. ORaise ''e'') (\<lambda>_. 11) 77 n (two_jobs [])) = []"
proof -
  let ?s = "two_jobs []"
  have p: "s_procs ?s 77 = Some busy_proc" "s_queue ?s = map QJob [1, 2]" "map_option wo_halt (s_workers ?s 1) = Some False" by code_simp+
  have q: "queue_ok (s_jobs ?s) (s_actions ?s) (\<lambda>k. nat (2 - k)) [1, 2]" by code_simp
  obtain w where w: "s_workers ?s (pr_worker busy_proc) = Some w" "\<not> wo_halt w" using p(3) by (auto simp: busy_proc_def)
  have b: "pr_pc busy_proc = PGet" "\<not> pr_onetime busy_proc" "\<not> wo_halt (pr_obj busy_proc)"
    by (simp_all add: busy_proc_def state_set_def one_worker_def)
  from worker_drains_queue [OF p(1) b w p(2) q] show ?thesis by blast
qed

theorem halt_loses_job_witness:
  "s_queue (run_proc OTimeout 12 77 (worker_stop False 11 1 (two_jobs []))) = [QJob 2]
     \<and> map_option pr_pc (s_procs (run_proc OTimeout 12 77 (worker_stop False 11 1 (two_jobs []))) 77) = Some (PDead P_AttributeError)"
proof -
  let ?s = "worker_stop False 11 1 (two_jobs [])"
  have p: "s_procs ?s 77 = Some busy_proc" "s_queue ?s = [QJob 1, QJob 2]" "map_option wo_halt (s_workers ?s 1) = Some True" by code_simp+
  obtain w where w: "s_workers ?s (pr_worker busy_proc) = Some w" "wo_halt w" using p(3) by (auto simp: busy_proc_def)
  have "pr_pc busy_proc = PGet" by (simp add: busy_proc_def)
  from halt_loses_job [OF p(1) this w p(2)] show ?thesis by blast
qed

theorem failed_dependency_silent_witness:
  "\<exists>s. map_option jb_queues (s_jobs s 1) = Some [''q''] \<and> s_ret (solo (\<lambda>_. OTimeout) (\<lambda>_. 13) 77 4 s) = s_ret s
     \<and> error_in (s_jobs (solo (\<lambda>_. OTimeout) (\<lambda>_. 13) 77 4 s)) 1"
proof -
  let ?s = "solo (\<lambda>_. ORaise ''e'') (\<lambda>_. 11) 77 10 (two_jobs [''q''])"
  have c: "(case s_procs ?s 77 of None \<Rightarrow> False | Some p \<Rightarrow> pr_worker p = 1 \<and> pr_pc p = PGet \<and> \<not> pr_onetime p \<and> \<not> wo_halt (pr_obj p))"
    "(case s_workers ?s 1 of None \<Rightarrow> False | Some w \<Rightarrow> \<not> wo_halt w)" by code_simp+
  have q: "s_queue ?s = map QJob (1 # [])" by code_simp
  have j: "(case s_jobs ?s 1 of None \<Rightarrow> False | Some jb \<Rightarrow> jb_deps jb = [2] \<and> jb_queues jb = [''q''])" by code_simp
  have d: "final_in (s_jobs ?s) 2" "error_in (s_jobs ?s) 2" by code_simp+
  obtain p w jb where p: "s_procs ?s 77 = Some p" "pr_worker p = 1" "pr_pc p = PGet" "\<not> pr_onetime p" "\<not> wo_halt (pr_obj p)"
    "s_workers ?s 1 = Some w" "\<not> wo_halt w" "s_jobs ?s 1 = Some jb" "jb_deps jb = [2]" "jb_queues jb = [''q'']"
    using c j by (auto split: option.splits)
  have "s_workers ?s (pr_worker p) = Some w" using p(2,6) by simp
  from failed_dependency_silent [OF p(1,3,4,5) this p(7) q _ p(8), of "\<lambda>_. OTimeout" "\<lambda>_. 13"] p(8-10) d
  show ?thesis by (intro exI [of _ ?s]) simp
qed

lemma running_inverted: "jb_state jb \<noteq> ERROR \<Longrightarrow> jb_stop jb \<noteq> 0 \<Longrightarrow> check_ready True now jb = (jb, False, Inr True)"
  by (simp add: check_ready_def)

lemma results_on_other_key:
  "''wait:'' @ q \<notin> set (jb_queues jb) \<Longrightarrow> queue_content (wait_key q) (queue_results k jb s) = queue_content (wait_key q) s"
  by (auto simp: queue_content_def queue_results_def wait_key_def result_key_def filter_empty_conv)

lemma new_worker_unknown: "wo_state w = W_NEW \<Longrightarrow> now - 20 \<le> wo_update w \<Longrightarrow> worker_check now w = Inl E_JSBUG"
  by (simp add: worker_check_def)

lemma workers_start_count:
  "workers_start lo hi qsize count = max count (min hi (max qsize lo))"
  by (induction lo hi qsize count rule: workers_start.induct) (subst workers_start.simps, auto simp: workers_more_def)

end
