(* ===== verification/ACL.thy ===== *)
theory ACL
  imports Effects PyStr
begin

text \<open>
  Access control lists (\<^verbatim>\<open>data/bcdb/models_system/ACL.py\<close>): an acl has entries for users and for circles, each with
  its rights. Rights given to a circle go to every circle below it, which \<^verbatim>\<open>_rights_update\<close> walks with a stack.
  The models of users, circles and entries are those of a BCDB; their get and save are arguments (\<open>aclenv\<close>).
\<close>

section \<open>Entries\<close>

record aclent =
  ae_id :: int
  ae_rights :: "string list"
  ae_sub :: bool
    \<comment> \<open>read back as a part of a stored acl: such an object cannot be saved, its \<^verbatim>\<open>save\<close> calls a method its root does not have\<close>

record circle =
  ci_users :: "int list"
  ci_circles :: "int list"

record 's aclenv =
  g_user :: "'s \<Rightarrow> int \<Rightarrow> int res"
  g_circle :: "'s \<Rightarrow> int \<Rightarrow> circle res"
  g_save_user :: "string \<Rightarrow> aclent \<Rightarrow> ('s, unit) eff"
  g_save_circle :: "string \<Rightarrow> aclent \<Rightarrow> ('s, unit) eff"

record acl =
  a_name :: string
  a_users :: "aclent list"
  a_circles :: "aclent list"

record 's aclstate =
  as_acl :: acl
  as_db :: 's

definition right_step :: "bool \<Rightarrow> string \<Rightarrow> string list \<times> bool \<Rightarrow> string list \<times> bool" where
  "right_step add r st = (case st of (rs, changed) \<Rightarrow>
     if r \<notin> set rs \<and> add then (rs @ [r], True)
     else if r \<in> set rs \<and> \<not> add then (remove1 r rs, True)
     else (rs, changed))"

definition rights_apply :: "bool \<Rightarrow> string list \<Rightarrow> string list \<Rightarrow> string list \<times> bool" where
  "rights_apply add rights rs = fold (right_step add) rights (rs, False)"

fun entry_find :: "int \<Rightarrow> aclent list \<Rightarrow> aclent option" where
  "entry_find i [] = None"
| "entry_find i (e # es) = (if ae_id e = i then Some e else entry_find i es)"

fun entry_set :: "int \<Rightarrow> string list \<Rightarrow> aclent list \<Rightarrow> aclent list" where
  "entry_set i rs [] = []"
| "entry_set i rs (e # es) = (if ae_id e = i then e\<lparr>ae_rights := rs\<rparr> # es else e # entry_set i rs es)"

definition entry_save :: "(aclent \<Rightarrow> ('s, unit) eff) \<Rightarrow> aclent \<Rightarrow> ('s, unit) eff" where
  "entry_save sv e = (if ae_sub e then eraise P_AttributeError else sv e)"

definition entry_update :: "(aclent \<Rightarrow> ('s, unit) eff) \<Rightarrow> bool \<Rightarrow> string list \<Rightarrow> int \<Rightarrow> aclent list \<times> 's \<Rightarrow> (aclent list \<times> 's) \<times> bool res" where
  \<comment> \<open>an entry in the list is changed in place before it is saved; a new one joins the list after it was saved\<close>
  "entry_update sv add rights i st = (case st of (es, db) \<Rightarrow> case entry_find i es of
     Some e \<Rightarrow> (let (rs, changed) = rights_apply add rights (ae_rights e); es' = entry_set i rs es in
       case entry_save sv (e\<lparr>ae_rights := rs\<rparr>) db of (db', r) \<Rightarrow> ((es', db'), rbind r (\<lambda>_. Inr changed)))
   | None \<Rightarrow> (let e = \<lparr>ae_id = i, ae_rights = fst (rights_apply add rights []), ae_sub = False\<rparr> in
       case entry_save sv e db of (db', Inl x) \<Rightarrow> ((es, db'), Inl x) | (db', Inr _) \<Rightarrow> ((es @ [e], db'), Inr True)))"

section \<open>Giving and taking rights\<close>

definition user_update :: "'s aclenv \<Rightarrow> bool \<Rightarrow> string list \<Rightarrow> int \<Rightarrow> ('s aclstate, bool) eff" where
  "user_update E add rights uid s = (case entry_update (g_save_user E (''user_'' @ a_name (as_acl s) @ ''_'' @ int_str uid)) add rights uid
       (a_users (as_acl s), as_db s) of ((es, db), r) \<Rightarrow> (s\<lparr>as_acl := (as_acl s)\<lparr>a_users := es\<rparr>, as_db := db\<rparr>, r))"

definition circle_update :: "'s aclenv \<Rightarrow> bool \<Rightarrow> string list \<Rightarrow> int \<Rightarrow> ('s aclstate, bool) eff" where
  "circle_update E add rights cid s = (case entry_update (g_save_circle E (''circle_'' @ a_name (as_acl s) @ ''_'' @ int_str cid)) add rights cid
       (a_circles (as_acl s), as_db s) of ((es, db), r) \<Rightarrow> (s\<lparr>as_acl := (as_acl s)\<lparr>a_circles := es\<rparr>, as_db := db\<rparr>, r))"

fun users_loop :: "'s aclenv \<Rightarrow> bool \<Rightarrow> string list \<Rightarrow> int list \<Rightarrow> bool \<Rightarrow> ('s aclstate, bool) eff" where
  "users_loop E add rights [] changed = ereturn changed"
| "users_loop E add rights (u # us) changed = ebind (user_update E add rights u) (\<lambda>c. users_loop E add rights us (changed \<or> c))"

fun circles_loop :: "nat \<Rightarrow> 's aclenv \<Rightarrow> bool \<Rightarrow> string list \<Rightarrow> int list \<Rightarrow> int list \<Rightarrow> bool \<Rightarrow> 's aclstate
    \<Rightarrow> ('s aclstate \<times> bool res) option" where
  \<comment> \<open>the stack of circles, popped from its end, and the visited ones; None when the steps do not suffice\<close>
  "circles_loop 0 E add rights stack visited changed s = None"
| "circles_loop (Suc n) E add rights stack visited changed s =
    (if stack = [] then Some (s, Inr changed)
     else let cid = last stack; visited' = visited @ [cid] in
       case circle_update E add rights cid s of
         (s1, Inl e) \<Rightarrow> Some (s1, Inl e)
       | (s1, Inr c) \<Rightarrow> (case g_circle E (as_db s1) cid of
             Inl e \<Rightarrow> Some (s1, Inl e)
           | Inr ci \<Rightarrow> circles_loop n E add rights (butlast stack @ filter (\<lambda>x. x \<notin> set visited') (ci_circles ci)) visited' (changed \<or> c) s1))"

definition rights_update :: "nat \<Rightarrow> 's aclenv \<Rightarrow> (acl \<Rightarrow> ('s, unit) eff) \<Rightarrow> bool \<Rightarrow> string list \<Rightarrow> int list \<Rightarrow> int list \<Rightarrow> 's aclstate
    \<Rightarrow> ('s aclstate \<times> bool res) option" where
  \<comment> \<open>the second argument saves the acl with the md5 of its data\<close>
  "rights_update n E save add rights userids circleids s = (case users_loop E add rights userids False s of
     (s1, Inl e) \<Rightarrow> Some (s1, Inl e)
   | (s1, Inr changed) \<Rightarrow> (case circles_loop n E add rights circleids [] changed s1 of
       None \<Rightarrow> None
     | Some (s2, Inl e) \<Rightarrow> Some (s2, Inl e)
     | Some (s2, Inr changed') \<Rightarrow> (case save (as_acl s2) (as_db s2) of (db, r) \<Rightarrow> Some (s2\<lparr>as_db := db\<rparr>, rbind r (\<lambda>_. Inr changed')))))"

definition rights_add :: "nat \<Rightarrow> 's aclenv \<Rightarrow> (acl \<Rightarrow> ('s, unit) eff) \<Rightarrow> string list \<Rightarrow> int list \<Rightarrow> int list \<Rightarrow> 's aclstate
    \<Rightarrow> ('s aclstate \<times> bool res) option" where
  "rights_add n E save rights userids circleids s = rights_update n E save True rights userids circleids s"

definition rights_delete :: "nat \<Rightarrow> 's aclenv \<Rightarrow> (acl \<Rightarrow> ('s, unit) eff) \<Rightarrow> string list \<Rightarrow> int list \<Rightarrow> int list \<Rightarrow> 's aclstate
    \<Rightarrow> ('s aclstate \<times> bool res) option" where
  "rights_delete n E save rights userids circleids s = rights_update n E save False rights userids circleids s"

section \<open>Checking rights\<close>

fun compare_rights :: "string list \<Rightarrow> string list \<Rightarrow> bool" where
  "compare_rights acl_rights [] = True"
| "compare_rights acl_rights (r # rs) = (if r \<notin> set acl_rights then False else compare_rights acl_rights rs)"

fun user_has_rights :: "(int \<Rightarrow> circle res) \<Rightarrow> int \<Rightarrow> string list \<Rightarrow> aclent list \<Rightarrow> bool res" where
  "user_has_rights get uid rights [] = Inr False"
| "user_has_rights get uid rights (e # es) = rbind (get (ae_id e)) (\<lambda>ci.
     if compare_rights (ae_rights e) rights \<and> uid \<in> set (ci_users ci) then Inr True else user_has_rights get uid rights es)"

definition circle_has_rights :: "acl \<Rightarrow> int \<Rightarrow> string list \<Rightarrow> bool" where
  "circle_has_rights a cid rights = list_ex (\<lambda>e. ae_id e = cid \<and> compare_rights (ae_rights e) rights) (a_circles a)"

definition rights_check :: "'s aclenv \<Rightarrow> 's aclstate \<Rightarrow> int \<Rightarrow> string list \<Rightarrow> bool res" where
  "rights_check E s i rights = (case g_user E (as_db s) i of
     Inr uid \<Rightarrow> if list_ex (\<lambda>e. ae_id e = uid \<and> compare_rights (ae_rights e) rights) (a_users (as_acl s)) then Inr True
       else user_has_rights (g_circle E (as_db s)) uid rights (a_circles (as_acl s))
   | Inl _ \<Rightarrow> (case g_circle E (as_db s) i of Inr _ \<Rightarrow> Inr (circle_has_rights (as_acl s) i rights) | Inl _ \<Rightarrow> Inl P_RuntimeError))"

section \<open>Rights of one entry\<close>

lemma compare_rights_iff: "compare_rights have want \<longleftrightarrow> set want \<subseteq> set have"
  by (induction want) auto

lemma rights_apply_add:
  "set (fst (rights_apply True rights rs)) = set rs \<union> set rights" "snd (rights_apply True rights rs) \<longleftrightarrow> \<not> set rights \<subseteq> set rs"
  "set rights \<subseteq> set rs \<Longrightarrow> rights_apply True rights rs = (rs, False)"
proof -
  have a: "set (fst (fold (right_step True) rights st)) = set (fst st) \<union> set rights"
    and b: "snd (fold (right_step True) rights st) \<longleftrightarrow> snd st \<or> \<not> set rights \<subseteq> set (fst st)" for st
    by (induction rights arbitrary: st) (auto simp: right_step_def split: prod.splits)
  show "set (fst (rights_apply True rights rs)) = set rs \<union> set rights" using a by (simp add: rights_apply_def)
  show "snd (rights_apply True rights rs) \<longleftrightarrow> \<not> set rights \<subseteq> set rs" using b by (simp add: rights_apply_def)
  have "set rights \<subseteq> set (fst st) \<Longrightarrow> fold (right_step True) rights st = st" for st
    by (induction rights arbitrary: st) (auto simp: right_step_def split: prod.splits)
  then show "set rights \<subseteq> set rs \<Longrightarrow> rights_apply True rights rs = (rs, False)" by (simp add: rights_apply_def)
qed

lemma rights_apply_delete:
  "distinct rs \<Longrightarrow> set (fst (rights_apply False rights rs)) = set rs - set rights \<and> distinct (fst (rights_apply False rights rs))"
proof -
  have "distinct (fst st) \<Longrightarrow> set (fst (fold (right_step False) rights st)) = set (fst st) - set rights \<and> distinct (fst (fold (right_step False) rights st))" for st
    by (induction rights arbitrary: st) (auto simp: right_step_def split: prod.splits)
  then show "distinct rs \<Longrightarrow> set (fst (rights_apply False rights rs)) = set rs - set rights \<and> distinct (fst (rights_apply False rights rs))"
    by (simp add: rights_apply_def)
qed

definition after :: "bool \<Rightarrow> string list \<Rightarrow> string set \<Rightarrow> string set" where
  "after add rights R = (if add then R \<union> set rights else R - set rights)"

definition rights_of :: "aclent list \<Rightarrow> int \<Rightarrow> string set option" where
  "rights_of es i = map_option (\<lambda>e. set (ae_rights e)) (entry_find i es)"

definition given :: "aclent list \<Rightarrow> int \<Rightarrow> string set" where
  "given es i = (case rights_of es i of None \<Rightarrow> {} | Some R \<Rightarrow> R)"

definition all_distinct :: "aclent list \<Rightarrow> bool" where
  "all_distinct es = list_all (\<lambda>e. distinct (ae_rights e)) es"

lemma after_idem [simp]: "after add rights (after add rights R) = after add rights R"
  by (auto simp: after_def)

lemma rights_apply_after:
  assumes "add \<or> distinct rs"
  shows "set (fst (rights_apply add rights rs)) = after add rights (set rs)"
  using assms rights_apply_add(1) [of rights rs] rights_apply_delete [of rs rights] by (cases add) (auto simp: after_def)

lemma rights_apply_distinct: "distinct rs \<Longrightarrow> distinct (fst (rights_apply add rights rs))"
proof -
  have "distinct (fst st) \<Longrightarrow> distinct (fst (fold (right_step add) rights st))" for st
    by (induction rights arbitrary: st) (auto simp: right_step_def split: prod.splits)
  then show "distinct rs \<Longrightarrow> distinct (fst (rights_apply add rights rs))" by (simp add: rights_apply_def)
qed

lemma entry_find_set:
  "entry_find j (entry_set i rs es) = (if j = i then map_option (\<lambda>e. e\<lparr>ae_rights := rs\<rparr>) (entry_find i es) else entry_find j es)"
  by (induction es) auto

lemma entry_find_append: "entry_find j (es @ fs) = (case entry_find j es of None \<Rightarrow> entry_find j fs | Some e \<Rightarrow> Some e)"
  by (induction es) auto

lemma entry_find_mem: "entry_find i es = Some e \<Longrightarrow> e \<in> set es \<and> ae_id e = i"
  by (induction es) (auto split: if_splits)

lemma all_distinct_set: "all_distinct es \<Longrightarrow> distinct rs \<Longrightarrow> all_distinct (entry_set i rs es)"
  by (induction es) (auto simp: all_distinct_def)

text \<open>Updating an entry changes the rights of that entry only, and reports whether they or the list changed.\<close>

lemma entry_update_result:
  assumes "entry_update sv add rights i (es, db) = ((es', db'), Inr c)" "add \<or> all_distinct es"
  shows "rights_of es' i = Some (after add rights (given es i))" "j \<noteq> i \<Longrightarrow> entry_find j es' = entry_find j es"
    "all_distinct es \<Longrightarrow> all_distinct es'" "\<exists>e. db' = fst (sv e db)"
    "add \<Longrightarrow> rights_of es i = Some (after add rights (given es i)) \<Longrightarrow> \<not> c \<and> es' = es"
proof -
  have "rights_of es' i = Some (after add rights (given es i)) \<and> (j \<noteq> i \<longrightarrow> entry_find j es' = entry_find j es)
    \<and> (all_distinct es \<longrightarrow> all_distinct es') \<and> (\<exists>e. db' = fst (sv e db))
    \<and> (add \<longrightarrow> rights_of es i = Some (after add rights (given es i)) \<longrightarrow> \<not> c \<and> es' = es)"
  proof (cases "entry_find i es")
    case None
    let ?e = "\<lparr>ae_id = i, ae_rights = fst (rights_apply add rights []), ae_sub = False\<rparr>"
    have r: "es' = es @ [?e]" "db' = fst (sv ?e db)"
      using assms(1) None by (auto simp: entry_update_def entry_save_def Let_def split: prod.splits sum.splits)
    have "set (fst (rights_apply add rights [])) = after add rights {}" by (simp add: rights_apply_after)
    then show ?thesis using None r(2) rights_apply_distinct [of "[]" add rights]
      by (auto simp: r(1) rights_of_def given_def entry_find_append all_distinct_def split: option.splits)
  next
    case (Some e)
    obtain rs ch where rs: "rights_apply add rights (ae_rights e) = (rs, ch)" by fastforce
    have r: "es' = entry_set i rs es" "db' = fst (sv (e\<lparr>ae_rights := rs\<rparr>) db)" "c = ch"
      using assms(1) Some rs by (auto simp: entry_update_def entry_save_def rbind_eq_Inr split: prod.splits if_splits)
    have d: "all_distinct es \<Longrightarrow> distinct (ae_rights e)" using entry_find_mem [OF Some] by (auto simp: all_distinct_def list_all_iff)
    have "set rs = after add rights (set (ae_rights e))" using rights_apply_after [of add "ae_rights e" rights] assms(2) d rs by auto
    moreover have "all_distinct es \<Longrightarrow> all_distinct es'"
      using all_distinct_set rights_apply_distinct [of "ae_rights e" add rights] d rs r(1) by simp
    moreover have "add \<Longrightarrow> set rights \<subseteq> set (ae_rights e) \<Longrightarrow> rs = ae_rights e \<and> \<not> ch"
      using rights_apply_add(3) [of rights "ae_rights e"] rs by auto
    moreover have "entry_find i fs = Some e \<Longrightarrow> entry_set i (ae_rights e) fs = fs" for fs by (induction fs) (auto split: if_splits)
    ultimately show ?thesis using Some r by (auto simp: rights_of_def given_def entry_find_set after_def)
  qed
  then show "rights_of es' i = Some (after add rights (given es i))" "j \<noteq> i \<Longrightarrow> entry_find j es' = entry_find j es"
    "all_distinct es \<Longrightarrow> all_distinct es'" "\<exists>e. db' = fst (sv e db)"
    "add \<Longrightarrow> rights_of es i = Some (after add rights (given es i)) \<Longrightarrow> \<not> c \<and> es' = es" by blast+
qed

section \<open>Walking the circles\<close>

definition directory_kept :: "'s aclenv \<Rightarrow> bool" where
  \<comment> \<open>saving an entry of an acl changes no user and no circle\<close>
  "directory_kept E = (\<forall>name e db. g_circle E (fst (g_save_circle E name e db)) = g_circle E db
     \<and> g_circle E (fst (g_save_user E name e db)) = g_circle E db
     \<and> g_user E (fst (g_save_circle E name e db)) = g_user E db
     \<and> g_user E (fst (g_save_user E name e db)) = g_user E db)"

definition sub_circle :: "(int \<Rightarrow> circle res) \<Rightarrow> int \<Rightarrow> int \<Rightarrow> bool" where
  "sub_circle G a b = (case G a of Inl e \<Rightarrow> False | Inr ci \<Rightarrow> b \<in> set (ci_circles ci))"

definition below :: "(int \<Rightarrow> circle res) \<Rightarrow> int set \<Rightarrow> int set" where
  \<comment> \<open>the circles that can be reached from these\<close>
  "below G cs = {b. \<exists>a\<in>cs. (sub_circle G)\<^sup>*\<^sup>* a b}"

lemma below_step: "a \<in> cs \<Longrightarrow> G a = Inr ci \<Longrightarrow> b \<in> below G (set (ci_circles ci)) \<Longrightarrow> b \<in> below G cs"
proof -
  assume a: "a \<in> cs" "G a = Inr ci" "b \<in> below G (set (ci_circles ci))"
  then obtain c where c: "c \<in> set (ci_circles ci)" "(sub_circle G)\<^sup>*\<^sup>* c b" by (auto simp: below_def)
  have "sub_circle G a c" using a(2) c(1) by (simp add: sub_circle_def)
  from this c(2) have "(sub_circle G)\<^sup>*\<^sup>* a b" by (rule converse_rtranclp_into_rtranclp)
  with a(1) show "b \<in> below G cs" by (auto simp: below_def)
qed

lemma below_closed: "cs \<subseteq> V \<Longrightarrow> \<forall>v\<in>V. \<exists>ci. G v = Inr ci \<and> set (ci_circles ci) \<subseteq> V \<Longrightarrow> below G cs \<subseteq> V"
proof
  fix b assume V: "cs \<subseteq> V" "\<forall>v\<in>V. \<exists>ci. G v = Inr ci \<and> set (ci_circles ci) \<subseteq> V" and "b \<in> below G cs"
  then obtain a where "a \<in> V" "(sub_circle G)\<^sup>*\<^sup>* a b" by (auto simp: below_def)
  from this(2,1) show "b \<in> V" by (induction rule: rtranclp_induct) (use V(2) in \<open>fastforce simp: sub_circle_def\<close>)+
qed

lemma circle_update_result:
  assumes "circle_update E add rights cid s = (s', Inr c)" "add \<or> all_distinct (a_circles (as_acl s))"
  shows "rights_of (a_circles (as_acl s')) cid = Some (after add rights (given (a_circles (as_acl s)) cid))"
    "j \<noteq> cid \<Longrightarrow> entry_find j (a_circles (as_acl s')) = entry_find j (a_circles (as_acl s))"
    "all_distinct (a_circles (as_acl s)) \<Longrightarrow> all_distinct (a_circles (as_acl s'))"
    "a_users (as_acl s') = a_users (as_acl s)" "a_name (as_acl s') = a_name (as_acl s)"
    "directory_kept E \<Longrightarrow> g_circle E (as_db s') = g_circle E (as_db s) \<and> g_user E (as_db s') = g_user E (as_db s)"
    "add \<Longrightarrow> rights_of (a_circles (as_acl s)) cid = Some (after add rights (given (a_circles (as_acl s)) cid)) \<Longrightarrow> \<not> c \<and> as_acl s' = as_acl s"
proof -
  let ?sv = "g_save_circle E (''circle_'' @ a_name (as_acl s) @ ''_'' @ int_str cid)"
  obtain es db where u: "entry_update ?sv add rights cid (a_circles (as_acl s), as_db s) = ((es, db), Inr c)"
    "s' = s\<lparr>as_acl := (as_acl s)\<lparr>a_circles := es\<rparr>, as_db := db\<rparr>"
    using assms(1) by (auto simp: circle_update_def split: prod.splits)
  note r = entry_update_result [OF u(1) assms(2)]
  show "rights_of (a_circles (as_acl s')) cid = Some (after add rights (given (a_circles (as_acl s)) cid))"
    "j \<noteq> cid \<Longrightarrow> entry_find j (a_circles (as_acl s')) = entry_find j (a_circles (as_acl s))"
    "all_distinct (a_circles (as_acl s)) \<Longrightarrow> all_distinct (a_circles (as_acl s'))"
    "a_users (as_acl s') = a_users (as_acl s)" "a_name (as_acl s') = a_name (as_acl s)"
    "add \<Longrightarrow> rights_of (a_circles (as_acl s)) cid = Some (after add rights (given (a_circles (as_acl s)) cid)) \<Longrightarrow> \<not> c \<and> as_acl s' = as_acl s"
    using r u(2) by auto
  show "directory_kept E \<Longrightarrow> g_circle E (as_db s') = g_circle E (as_db s) \<and> g_user E (as_db s') = g_user E (as_db s)"
    using r(4) u(2) by (auto simp: directory_kept_def)
qed

lemma below_next:
  assumes "c \<in> cs" "G c = Inr ci" "ds \<subseteq> cs \<union> set (ci_circles ci)"
  shows "below G ds \<subseteq> below G cs"
proof
  fix b assume "b \<in> below G ds"
  then obtain a where a: "a \<in> ds" "(sub_circle G)\<^sup>*\<^sup>* a b" by (auto simp: below_def)
  show "b \<in> below G cs"
  proof (cases "a \<in> cs")
    case True
    with a(2) show ?thesis by (auto simp: below_def)
  next
    case False
    with a assms(3) have "b \<in> below G (set (ci_circles ci))" unfolding below_def by blast
    with assms(1,2) below_step show ?thesis by blast
  qed
qed

lemma circle_update_visited:
  fixes s :: "'s aclstate" and s1 :: "'s aclstate"
  assumes "circle_update E add rights cid s = (s1, Inr c)" "add \<or> all_distinct (a_circles (as_acl s))"
    and "\<forall>v\<in>set visited. rights_of (a_circles (as_acl s)) v = Some (after add rights (given (a_circles (as_acl s)) v))"
  shows "after add rights (given (a_circles (as_acl s1)) v) = after add rights (given (a_circles (as_acl s)) v)"
    and "\<forall>v\<in>set (visited @ [cid]). rights_of (a_circles (as_acl s1)) v = Some (after add rights (given (a_circles (as_acl s1)) v))"
proof -
  note r = circle_update_result [OF assms(1,2)]
  have old: "v \<noteq> cid \<Longrightarrow> rights_of (a_circles (as_acl s1)) v = rights_of (a_circles (as_acl s)) v" for v
    using r(2) by (simp add: rights_of_def)
  show upd: "after add rights (given (a_circles (as_acl s1)) v) = after add rights (given (a_circles (as_acl s)) v)" for v
    using r(1) old by (cases "v = cid") (simp_all add: given_def)
  show "\<forall>v\<in>set (visited @ [cid]). rights_of (a_circles (as_acl s1)) v = Some (after add rights (given (a_circles (as_acl s1)) v))"
    using assms(3) r(1) old upd by (metis Un_iff empty_iff empty_set insert_iff list.simps(15) set_append)
qed

lemma circles_covered:
  assumes "\<forall>v\<in>V. \<exists>ci. G v = Inr ci \<and> set (ci_circles ci) \<subseteq> U" "G c = Inr ci" "U \<subseteq> U'" "set (ci_circles ci) \<subseteq> U'"
  shows "\<forall>v\<in>insert c V. \<exists>ci. G v = Inr ci \<and> set (ci_circles ci) \<subseteq> U'"
  using assms by blast

text \<open>The loop visits the circles it starts with and all circles below them, and updates each of them.\<close>

lemma circles_loop_result:
  assumes "circles_loop n E add rights stack visited ch s = Some (s', Inr ch')" "directory_kept E" "G = g_circle E (as_db s)"
    "add \<or> all_distinct (a_circles (as_acl s))" "\<forall>v\<in>set visited. \<exists>ci. G v = Inr ci \<and> set (ci_circles ci) \<subseteq> set visited \<union> set stack"
    "\<forall>v\<in>set visited. rights_of (a_circles (as_acl s)) v = Some (after add rights (given (a_circles (as_acl s)) v))"
  shows "\<exists>V. set visited \<union> set stack \<subseteq> V \<and> V \<subseteq> set visited \<union> below G (set stack)
    \<and> (\<forall>v\<in>V. \<exists>ci. G v = Inr ci \<and> set (ci_circles ci) \<subseteq> V)
    \<and> (\<forall>v\<in>V. rights_of (a_circles (as_acl s')) v = Some (after add rights (given (a_circles (as_acl s)) v)))
    \<and> (\<forall>j. j \<notin> V \<longrightarrow> entry_find j (a_circles (as_acl s')) = entry_find j (a_circles (as_acl s)))
    \<and> a_users (as_acl s') = a_users (as_acl s) \<and> g_circle E (as_db s') = G \<and> g_user E (as_db s') = g_user E (as_db s)"
  using assms
proof (induction n arbitrary: stack visited ch s)
  case (Suc n)
  let ?es = "\<lambda>s. a_circles (as_acl s)"
  show ?case
  proof (cases "stack = []")
    case True
    with Suc.prems show ?thesis by (intro exI [of _ "set visited"]) auto
  next
    case False
    let ?cid = "last stack" and ?v = "visited @ [last stack]"
    obtain s1 c where c: "circle_update E add rights ?cid s = (s1, Inr c)"
      using Suc.prems(1) False by (cases "circle_update E add rights ?cid s") (auto simp: Let_def split: sum.splits)
    note r = circle_update_result [OF c Suc.prems(4)]
    have G1: "g_circle E (as_db s1) = G" "g_user E (as_db s1) = g_user E (as_db s)" using r(6) Suc.prems(2,3) by auto
    obtain ci where ci: "G ?cid = Inr ci" using Suc.prems(1) False c G1 by (auto simp: Let_def split: sum.splits)
    let ?stack = "butlast stack @ filter (\<lambda>x. x \<notin> set ?v) (ci_circles ci)"
    have run: "circles_loop n E add rights ?stack ?v (ch \<or> c) s1 = Some (s', Inr ch')"
      using Suc.prems(1) False c ci G1 by (simp add: Let_def)
    have st: "set stack = insert ?cid (set (butlast stack))" using False by (metis append_butlast_last_id insert_is_Un list.simps(15) set_append sup_commute empty_set)
    have cov: "set ?v \<union> set ?stack = set visited \<union> set stack \<union> set (ci_circles ci)" using st by auto
    have i3: "\<forall>v\<in>set ?v. \<exists>ci. G v = Inr ci \<and> set (ci_circles ci) \<subseteq> set ?v \<union> set ?stack"
      using circles_covered [OF Suc.prems(5) ci, of "set ?v \<union> set ?stack"] unfolding cov by simp
    note upd = circle_update_visited(1) [OF c Suc.prems(4,6)] and i4 = circle_update_visited(2) [OF c Suc.prems(4,6)]
    have i2: "add \<or> all_distinct (?es s1)" using Suc.prems(4) r(3) by auto
    obtain V where V: "set ?v \<union> set ?stack \<subseteq> V" "V \<subseteq> set ?v \<union> below G (set ?stack)"
      "\<forall>v\<in>V. \<exists>ci. G v = Inr ci \<and> set (ci_circles ci) \<subseteq> V"
      "\<forall>v\<in>V. rights_of (?es s') v = Some (after add rights (given (?es s1) v))"
      "\<forall>j. j \<notin> V \<longrightarrow> entry_find j (?es s') = entry_find j (?es s1)"
      "a_users (as_acl s') = a_users (as_acl s1)" "g_circle E (as_db s') = G" "g_user E (as_db s') = g_user E (as_db s1)"
      using Suc.IH [OF run Suc.prems(2) G1(1) [symmetric] i2 i3 i4] by auto
    have cid: "?cid \<in> V" using V(1) by simp
    have "below G (set ?stack) \<subseteq> below G (set stack)" by (rule below_next [of ?cid _ G ci]) (use st ci in auto)
    moreover have "?cid \<in> below G (set stack)" using st by (auto simp: below_def)
    ultimately have sub: "V \<subseteq> set visited \<union> below G (set stack)" using V(2) by auto
    show ?thesis
    proof (intro exI [of _ V] conjI)
      show "set visited \<union> set stack \<subseteq> V" using V(1) cov by blast
      show "\<forall>v\<in>V. rights_of (?es s') v = Some (after add rights (given (?es s) v))" using V(4) upd by simp
      show "\<forall>j. j \<notin> V \<longrightarrow> entry_find j (?es s') = entry_find j (?es s)" 
      proof (intro allI impI)
        fix j assume "j \<notin> V"
        moreover from this cid have "j \<noteq> ?cid" by auto
        ultimately show "entry_find j (?es s') = entry_find j (?es s)" using V(5) r(2) by simp
      qed
      show "V \<subseteq> set visited \<union> below G (set stack)" by (rule sub)
      show "\<forall>v\<in>V. \<exists>ci. G v = Inr ci \<and> set (ci_circles ci) \<subseteq> V" by (rule V(3))
    qed (use V(6-8) r(4) G1(2) in simp_all)
  qed
qed simp

lemma user_update_result:
  assumes "user_update E add rights u s = (s', Inr c)" "add \<or> all_distinct (a_users (as_acl s))"
  shows "rights_of (a_users (as_acl s')) j = (if j = u then Some (after add rights (given (a_users (as_acl s)) j)) else rights_of (a_users (as_acl s)) j)"
    "all_distinct (a_users (as_acl s)) \<Longrightarrow> all_distinct (a_users (as_acl s'))" "a_circles (as_acl s') = a_circles (as_acl s)"
    "directory_kept E \<Longrightarrow> g_circle E (as_db s') = g_circle E (as_db s) \<and> g_user E (as_db s') = g_user E (as_db s)"
proof -
  let ?sv = "g_save_user E (''user_'' @ a_name (as_acl s) @ ''_'' @ int_str u)"
  obtain es db where e: "entry_update ?sv add rights u (a_users (as_acl s), as_db s) = ((es, db), Inr c)"
    "s' = s\<lparr>as_acl := (as_acl s)\<lparr>a_users := es\<rparr>, as_db := db\<rparr>"
    using assms(1) by (auto simp: user_update_def split: prod.splits)
  note r = entry_update_result [OF e(1) assms(2)]
  show "rights_of (a_users (as_acl s')) j = (if j = u then Some (after add rights (given (a_users (as_acl s)) j)) else rights_of (a_users (as_acl s)) j)"
    using r(1,2) e(2) by (simp add: rights_of_def)
  show "all_distinct (a_users (as_acl s)) \<Longrightarrow> all_distinct (a_users (as_acl s'))" "a_circles (as_acl s') = a_circles (as_acl s)"
    using r(3) e(2) by auto
  show "directory_kept E \<Longrightarrow> g_circle E (as_db s') = g_circle E (as_db s) \<and> g_user E (as_db s') = g_user E (as_db s)"
    using r(4) e(2) by (auto simp: directory_kept_def)
qed

lemma users_loop_result:
  assumes "users_loop E add rights us ch s = (s', Inr ch')" "directory_kept E" "add \<or> all_distinct (a_users (as_acl s))"
  shows "rights_of (a_users (as_acl s')) j = (if j \<in> set us then Some (after add rights (given (a_users (as_acl s)) j)) else rights_of (a_users (as_acl s)) j)
    \<and> a_circles (as_acl s') = a_circles (as_acl s) \<and> g_circle E (as_db s') = g_circle E (as_db s) \<and> g_user E (as_db s') = g_user E (as_db s)"
  using assms
proof (induction us arbitrary: ch s)
  case (Cons u us)
  then obtain s1 c where 1: "user_update E add rights u s = (s1, Inr c)" "users_loop E add rights us (ch \<or> c) s1 = (s', Inr ch')"
    by (auto simp: ebind_eq_Inr)
  note r = user_update_result [OF 1(1) Cons.prems(3)]
  have d: "add \<or> all_distinct (a_users (as_acl s1))" using Cons.prems(3) r(2) by auto
  from Cons.IH [OF 1(2) Cons.prems(2) d] r(1,3) r(4) [OF Cons.prems(2)] show ?case
    by (auto simp: given_def)
qed simp

definition save_kept :: "'s aclenv \<Rightarrow> (acl \<Rightarrow> ('s, unit) eff) \<Rightarrow> bool" where
  "save_kept E save = (\<forall>a db. g_circle E (fst (save a db)) = g_circle E db \<and> g_user E (fst (save a db)) = g_user E db)"

lemma rights_update_result:
  assumes "rights_update n E save add rights us cs s = Some (s', Inr ch)" "directory_kept E" "save_kept E save"
    "add \<or> all_distinct (a_users (as_acl s)) \<and> all_distinct (a_circles (as_acl s))"
  shows "rights_of (a_users (as_acl s')) u = (if u \<in> set us then Some (after add rights (given (a_users (as_acl s)) u)) else rights_of (a_users (as_acl s)) u)"
    "rights_of (a_circles (as_acl s')) c = (if c \<in> below (g_circle E (as_db s)) (set cs)
        then Some (after add rights (given (a_circles (as_acl s)) c)) else rights_of (a_circles (as_acl s)) c)"
    "g_circle E (as_db s') = g_circle E (as_db s)" "g_user E (as_db s') = g_user E (as_db s)"
    "v \<in> below (g_circle E (as_db s)) (set cs) \<Longrightarrow> \<exists>ci. g_circle E (as_db s) v = Inr ci"
proof -
  let ?G = "g_circle E (as_db s)"
  obtain s1 c1 where 1: "users_loop E add rights us False s = (s1, Inr c1)"
    using assms(1) by (cases "users_loop E add rights us False s") (auto simp: rights_update_def split: sum.splits)
  obtain s2 where 2: "circles_loop n E add rights cs [] c1 s1 = Some (s2, Inr ch)" "as_acl s' = as_acl s2" "\<exists>a. as_db s' = fst (save a (as_db s2))"
    using assms(1) 1 by (auto simp: rights_update_def rbind_eq_Inr split: option.splits sum.splits prod.splits) (metis fst_conv)
  have d: "add \<or> all_distinct (a_users (as_acl s))" using assms(4) by auto
  note u = users_loop_result [OF 1 assms(2) d]
  have dc: "add \<or> all_distinct (a_circles (as_acl s1))" using assms(4) u by auto
  obtain V where V: "set cs \<subseteq> V" "V \<subseteq> below (g_circle E (as_db s1)) (set cs)"
    "\<forall>v\<in>V. \<exists>ci. g_circle E (as_db s1) v = Inr ci \<and> set (ci_circles ci) \<subseteq> V"
    "\<forall>v\<in>V. rights_of (a_circles (as_acl s2)) v = Some (after add rights (given (a_circles (as_acl s1)) v))"
    "\<forall>j. j \<notin> V \<longrightarrow> entry_find j (a_circles (as_acl s2)) = entry_find j (a_circles (as_acl s1))"
    "a_users (as_acl s2) = a_users (as_acl s1)" "g_circle E (as_db s2) = g_circle E (as_db s1)" "g_user E (as_db s2) = g_user E (as_db s1)"
    using circles_loop_result [OF 2(1) assms(2) refl dc] by auto
  have G: "g_circle E (as_db s1) = ?G" using u by simp
  have Vb: "V = below ?G (set cs)" using below_closed [OF V(1,3)] V(2) by (simp add: G)
  show "rights_of (a_users (as_acl s')) u = (if u \<in> set us then Some (after add rights (given (a_users (as_acl s)) u)) else rights_of (a_users (as_acl s)) u)"
    using users_loop_result [OF 1 assms(2) d, of u] V(6) 2(2) by simp
  show "rights_of (a_circles (as_acl s')) c = (if c \<in> below ?G (set cs)
      then Some (after add rights (given (a_circles (as_acl s)) c)) else rights_of (a_circles (as_acl s)) c)"
    using V(4,5) u 2(2) by (simp add: Vb rights_of_def)
  show "g_circle E (as_db s') = ?G" "g_user E (as_db s') = g_user E (as_db s)"
    using 2(3) assms(3) V(7,8) u by (auto simp: save_kept_def)
  show "v \<in> below ?G (set cs) \<Longrightarrow> \<exists>ci. ?G v = Inr ci" using V(3) Vb G by auto
qed

section \<open>The walk ends\<close>

lemma circles_loop_ends:
  assumes "finite U" "set stack \<subseteq> U" "\<And>c ci. c \<in> U \<Longrightarrow> g_circle E (as_db s) c = Inr ci \<Longrightarrow> set (ci_circles ci) \<subseteq> U" "directory_kept E"
  shows "\<exists>n r. circles_loop n E add rights stack visited ch s = Some r"
  using assms(2,3)
proof (induction "(card (U - set visited), length (filter (\<lambda>c. c \<in> set visited) stack))" arbitrary: stack visited ch s
    rule: wf_induct_rule [OF wf_lex_prod [OF wf_less_than wf_less_than]])
  case 1
  show ?case
  proof (cases "stack = []")
    case True
    then show ?thesis by (intro exI [of _ "Suc 0"]) simp
  next
    case False
    let ?cid = "last stack" and ?v = "visited @ [last stack]"
    have cid: "?cid \<in> U" using 1(2) False by auto
    obtain s1 r where c: "circle_update E add rights ?cid s = (s1, r)" by fastforce
    have G: "g_circle E (as_db s1) = g_circle E (as_db s)"
    proof -
      have "as_db s1 = as_db s \<or> (\<exists>name e. as_db s1 = fst (g_save_circle E name e (as_db s)))"
        using c by (auto simp: circle_update_def entry_update_def entry_save_def Let_def split: prod.splits option.splits sum.splits if_splits)
          (metis fst_conv)+
      then show ?thesis using assms(4) by (auto simp: directory_kept_def)
    qed
    show ?thesis
    proof (cases r)
      case (Inl e)
      then show ?thesis using c False by (intro exI [of _ "Suc 0"]) simp
    next
      case (Inr b)
      show ?thesis
      proof (cases "g_circle E (as_db s1) ?cid")
        case (Inl e)
        then show ?thesis using c \<open>r = Inr b\<close> False by (intro exI [of _ "Suc 0"]) (simp add: Let_def)
      next
        case ci: (Inr ci)
        let ?stack = "butlast stack @ filter (\<lambda>x. x \<notin> set ?v) (ci_circles ci)"
        have sub: "set ?stack \<subseteq> U" using 1(2) 1(3) [OF cid] ci G by (auto dest: in_set_butlastD)
        have "length (filter (\<lambda>c. c \<in> set visited) stack) = length (filter (\<lambda>c. c \<in> set visited) (butlast stack @ [?cid]))" using False by simp
        then have dec: "((card (U - set ?v), length (filter (\<lambda>c. c \<in> set ?v) ?stack)),
             (card (U - set visited), length (filter (\<lambda>c. c \<in> set visited) stack))) \<in> less_than <*lex*> less_than"
        proof (cases "?cid \<in> set visited")
          case False
          then have "card (U - set ?v) < card (U - set visited)" using cid assms(1) by (intro psubset_card_mono) auto
          then show ?thesis by simp
        next
          case True
          then have v: "set ?v = set visited" by auto
          have "filter (\<lambda>c. c \<in> set visited) (filter (\<lambda>x. x \<notin> set visited) (ci_circles ci)) = []" by (auto simp: filter_empty_conv)
          then show ?thesis using \<open>length (filter _ stack) = _\<close> True unfolding v by simp
        qed
        have "\<exists>n q. circles_loop n E add rights ?stack ?v (ch \<or> b) s1 = Some q"
          by (rule 1(1) [OF dec sub]) (use 1(3) G in simp)
        then obtain n q where "circles_loop n E add rights ?stack ?v (ch \<or> b) s1 = Some q" by blast
        then show ?thesis using c \<open>r = Inr b\<close> ci False by (intro exI [of _ "Suc n"]) (simp add: Let_def)
      qed
    qed
  qed
qed

lemma circles_loop_more: "circles_loop n E add rights stack visited ch s = Some r \<Longrightarrow> n \<le> m \<Longrightarrow> circles_loop m E add rights stack visited ch s = Some r"
proof (induction n arbitrary: m stack visited ch s)
  case (Suc n)
  then obtain m' where "m = Suc m'" "n \<le> m'" by (cases m) auto
  with Suc show ?case by (auto simp: Let_def split: if_splits prod.splits sum.splits)
qed simp

lemma user_has_rights_True:
  assumes "\<forall>e\<in>set es. \<exists>ci. G (ae_id e) = Inr ci" "e \<in> set es" "set rights \<subseteq> set (ae_rights e)" "G (ae_id e) = Inr ci" "u \<in> set (ci_users ci)"
  shows "user_has_rights G u rights es = Inr True"
  using assms by (induction es) (auto simp: compare_rights_iff)

lemma entry_find_has: "e \<in> set es \<Longrightarrow> rights_of es (ae_id e) \<noteq> None"
  by (induction es) (auto simp: rights_of_def split: if_splits)

lemma rights_of_Nil: "rights_of [] i = None"
  by (simp add: rights_of_def)

lemma rights_of_has: "rights_of es i \<noteq> None \<Longrightarrow> \<exists>e\<in>set es. ae_id e = i"
  by (cases "entry_find i es") (auto simp: rights_of_def dest: entry_find_mem)

section \<open>Properties\<close>

text \<open>C7: Giving or taking rights touches exactly the users that are named and the circles that are named or lie below them,
  and does to each of them exactly what was asked: an entry (an empty one for who had none) gains the rights, or loses
  them, and every other entry is as before. Circles that contain each other do no harm.\<close>

theorem rights_update_exact:
  assumes "rights_update n E save add rights us cs s = Some (s', Inr ch)" "directory_kept E" "save_kept E save"
    "add \<or> all_distinct (a_users (as_acl s)) \<and> all_distinct (a_circles (as_acl s))"
  shows "rights_of (a_users (as_acl s')) = (\<lambda>u. if u \<in> set us then Some (after add rights (given (a_users (as_acl s)) u)) else rights_of (a_users (as_acl s)) u)
    \<and> rights_of (a_circles (as_acl s')) = (\<lambda>c. if c \<in> below (g_circle E (as_db s)) (set cs)
          then Some (after add rights (given (a_circles (as_acl s)) c)) else rights_of (a_circles (as_acl s)) c)"
  using rights_update_result(1,2) [OF assms] by blast

text \<open>C39: The walk over the circles ends, also when circles contain each other: for finitely many circles there is a number
  of steps from which on the update has one and the same result.\<close>

theorem rights_update_ends:
  assumes "finite U" "set cs \<subseteq> U" "\<forall>c\<in>U. \<forall>ci. g_circle E (as_db s) c = Inr ci \<longrightarrow> set (ci_circles ci) \<subseteq> U" "directory_kept E"
    "add \<or> all_distinct (a_users (as_acl s))"
  shows "\<exists>n r. \<forall>m\<ge>n. rights_update m E save add rights us cs s = Some r"
proof -
  obtain s1 r1 where 1: "users_loop E add rights us False s = (s1, r1)" by fastforce
  show ?thesis
  proof (cases r1)
    case (Inl e)
    with 1 show ?thesis by (simp add: rights_update_def)
  next
    case (Inr c1)
    have G: "g_circle E (as_db s1) = g_circle E (as_db s)" using users_loop_result [OF 1 [unfolded Inr] assms(4,5)] by simp
    obtain n r where "circles_loop n E add rights cs [] c1 s1 = Some r"
      using circles_loop_ends [OF assms(1,2) _ assms(4), of s1 add rights "[]" c1] assms(3) G by auto
    then have c: "\<forall>m\<ge>n. circles_loop m E add rights cs [] c1 s1 = Some r" using circles_loop_more by blast
    then have "\<forall>m\<ge>n. rights_update m E save add rights us cs s = rights_update n E save add rights us cs s" using 1 Inr by (simp add: rights_update_def)
    moreover have "rights_update n E save add rights us cs s \<noteq> None" using 1 Inr c by (auto simp: rights_update_def split: prod.splits sum.splits)
    ultimately show ?thesis by (metis not_None_eq)
  qed
qed

lemma rights_add_circles:
  assumes "rights_add n E save rights us cs s = Some (s', Inr ch)" "directory_kept E" "save_kept E save"
    "list_all (\<lambda>e. \<not> isl (g_circle E (as_db s) (ae_id e))) (a_circles (as_acl s))"
    "c \<in> below (g_circle E (as_db s)) (set cs)" "g_circle E (as_db s) c = Inr ci"
  shows "(\<forall>u\<in>set (ci_users ci). g_user E (as_db s) u = Inr u \<longrightarrow> rights_check E s' u rights = Inr True) \<and> (isl (g_user E (as_db s) c) \<longrightarrow> rights_check E s' c rights = Inr True)"
proof -
  let ?G = "g_circle E (as_db s)" and ?es = "a_circles (as_acl s')"
  note run = assms(1) [unfolded rights_add_def]
  note r = rights_update_result [OF run assms(2,3), simplified]
  have all: "\<exists>ci. ?G (ae_id e) = Inr ci" if "e \<in> set ?es" for e
  proof (cases "ae_id e \<in> below ?G (set cs)")
    case False
    then have "rights_of (a_circles (as_acl s)) (ae_id e) \<noteq> None" using entry_find_has [OF that] r(2) by auto
    then obtain e0 where "e0 \<in> set (a_circles (as_acl s))" "ae_id e0 = ae_id e" using rights_of_has by blast
    then show ?thesis using assms(4) by (auto simp: list_all_iff isl_def) (metis obj_sumE)
  qed (rule r(5))
  have "rights_of ?es c = Some (after True rights (given (a_circles (as_acl s)) c))" using r(2) assms(5) by simp
  then obtain e where e: "e \<in> set ?es" "ae_id e = c" "set rights \<subseteq> set (ae_rights e)"
    by (auto simp: rights_of_def after_def dest: entry_find_mem)
  have "rights_check E s' u rights = Inr True" if "u \<in> set (ci_users ci)" "g_user E (as_db s) u = Inr u" for u
  proof -
    have "user_has_rights ?G u rights ?es = Inr True"
      by (rule user_has_rights_True [of ?es ?G e rights ci u]) (use all e assms(6) that in auto)
    then show ?thesis using r(3,4) that(2) by (simp add: rights_check_def)
  qed
  moreover have "circle_has_rights (as_acl s') c rights" using e by (auto simp: circle_has_rights_def list_ex_iff compare_rights_iff)
  then have "isl (g_user E (as_db s) c) \<longrightarrow> rights_check E s' c rights = Inr True"
    using r(3,4) assms(6) by (auto simp: rights_check_def isl_def)
  ultimately show ?thesis by simp
qed

lemma rights_add_users:
  assumes "rights_add n E save rights us cs s = Some (s', Inr ch)" "directory_kept E" "save_kept E save"
    "u \<in> set us" "g_user E (as_db s) u = Inr u"
  shows "rights_check E s' u rights = Inr True"
proof -
  note r = rights_update_result [OF assms(1) [unfolded rights_add_def] assms(2,3), simplified]
  have "rights_of (a_users (as_acl s')) u = Some (after True rights (given (a_users (as_acl s)) u))" using r(1) assms(4) by simp
  then obtain e where "e \<in> set (a_users (as_acl s'))" "ae_id e = u" "set rights \<subseteq> set (ae_rights e)"
    by (auto simp: rights_of_def after_def dest: entry_find_mem)
  then have "list_ex (\<lambda>e. ae_id e = u \<and> compare_rights (ae_rights e) rights) (a_users (as_acl s'))"
    by (auto simp: list_ex_iff compare_rights_iff)
  moreover have "g_user E (as_db s') u = Inr u" using r(3,4) assms(5) by simp
  ultimately show ?thesis by (simp add: rights_check_def)
qed

text \<open>C38: Rights that were given are found by the check. After the call returns, every user who was named has them; and when the
  circles of the acl are known, so does every circle below the circles that were named (when no user has its number), and
  every user who is a member of one of them.\<close>

theorem rights_add_then_check:
  assumes "rights_add n E save rights us cs s = Some (s', Inr ch)" "directory_kept E" "save_kept E save"
  shows "(\<forall>u\<in>set us. g_user E (as_db s) u = Inr u \<longrightarrow> rights_check E s' u rights = Inr True) \<and>
    (list_all (\<lambda>e. \<not> isl (g_circle E (as_db s) (ae_id e))) (a_circles (as_acl s)) \<longrightarrow>
      (\<forall>c\<in>below (g_circle E (as_db s)) (set cs). \<forall>ci. g_circle E (as_db s) c = Inr ci \<longrightarrow>
         (\<forall>u\<in>set (ci_users ci). g_user E (as_db s) u = Inr u \<longrightarrow> rights_check E s' u rights = Inr True)
         \<and> (isl (g_user E (as_db s) c) \<longrightarrow> rights_check E s' c rights = Inr True)))"
  using rights_add_users [OF assms] rights_add_circles [OF assms] by blast

text \<open>An acl that was read back from the store cannot be changed where it has an entry already: the entry is an embedded
  object whose save raises, after the rights of the entry were changed in memory and before anything is stored.\<close>

theorem stored_entry_refuses:
  assumes "entry_find u (a_users (as_acl s)) = Some e" "ae_sub e"
  shows "\<exists>s'. rights_update n E save add rights (u # us) cs s = Some (s', Inl P_AttributeError) \<and> as_db s' = as_db s
    \<and> map_option ae_rights (entry_find u (a_users (as_acl s'))) = Some (fst (rights_apply add rights (ae_rights e)))"
  using assms
  by (auto simp: rights_update_def user_update_def entry_update_def entry_save_def ebind_app entry_find_set split: prod.splits)

section \<open>Three circles\<close>

text \<open>Users 1 to 5 and circles 10, 11 and 12; circle 10 contains 11 and 12, which contain each other. The state counts what was saved.\<close>

definition circles_env :: "int aclenv" where
  "circles_env = \<lparr>g_user = (\<lambda>db u. if 1 \<le> u \<and> u \<le> 5 then Inr u else Inl E_NotFound),
     g_circle = (\<lambda>db c. if c = 10 then Inr \<lparr>ci_users = [1], ci_circles = [11, 12]\<rparr>
       else if c = 11 then Inr \<lparr>ci_users = [2], ci_circles = [12]\<rparr>
       else if c = 12 then Inr \<lparr>ci_users = [3, 4], ci_circles = [11]\<rparr> else Inl E_NotFound),
     g_save_user = (\<lambda>name e db. (db + 1, Inr ())), g_save_circle = (\<lambda>name e db. (db + 1, Inr ()))\<rparr>"

definition count_save :: "acl \<Rightarrow> (int, unit) eff" where
  "count_save a db = (db + 1, Inr ())"

definition no_rights :: "int aclstate" where
  "no_rights = \<lparr>as_acl = \<lparr>a_name = ''a'', a_users = [], a_circles = []\<rparr>, as_db = 0\<rparr>"

lemma circles_env_kept: "directory_kept circles_env" "save_kept circles_env count_save"
  by (simp_all add: directory_kept_def save_kept_def circles_env_def count_save_def)

theorem rights_update_exact_witness:
  "\<exists>s'. rights_update 10 circles_env count_save True [''r''] [5] [10] no_rights = Some (s', Inr True)
     \<and> rights_of (a_users (as_acl s')) 5 = Some {''r''} \<and> rights_of (a_circles (as_acl s')) 12 = Some {''r''}"
proof -
  have "map_option snd (rights_update 10 circles_env count_save True [''r''] [5] [10] no_rights) = Some (Inr True)" by code_simp
  then obtain s' where s': "rights_update 10 circles_env count_save True [''r''] [5] [10] no_rights = Some (s', Inr True)" by auto
  have s: "sub_circle (g_circle circles_env 0) 10 12" by (simp add: sub_circle_def circles_env_def)
  then have "12 \<in> below (g_circle circles_env (as_db no_rights)) (set [10])"
    by (auto simp: below_def no_rights_def)
  with rights_update_exact [OF s' circles_env_kept] s' show ?thesis
    by (simp add: no_rights_def given_def after_def rights_of_Nil)
qed

theorem rights_update_ends_witness:
  "\<exists>n r. \<forall>m\<ge>n. rights_update m circles_env count_save False [''r''] [] [12] no_rights = Some r"
proof (rule rights_update_ends [of "{10, 11, 12}"])
  show "\<forall>c\<in>{10, 11, 12}. \<forall>ci. g_circle circles_env (as_db no_rights) c = Inr ci \<longrightarrow> set (ci_circles ci) \<subseteq> {10, 11, 12}"
    by (auto simp: circles_env_def)
qed (simp_all add: circles_env_kept no_rights_def all_distinct_def)

theorem rights_add_then_check_witness:
  "\<exists>s'. rights_add 10 circles_env count_save [''r'', ''w''] [5] [10] no_rights = Some (s', Inr True)
     \<and> rights_check circles_env s' 4 [''r'', ''w''] = Inr True \<and> rights_check circles_env s' 5 [''r'', ''w''] = Inr True"
proof -
  have "map_option snd (rights_add 10 circles_env count_save [''r'', ''w''] [5] [10] no_rights) = Some (Inr True)" by code_simp
  then obtain s' where s': "rights_add 10 circles_env count_save [''r'', ''w''] [5] [10] no_rights = Some (s', Inr True)" by auto
  have "sub_circle (g_circle circles_env 0) 10 12" by (simp add: sub_circle_def circles_env_def)
  then have b: "12 \<in> below (g_circle circles_env (as_db no_rights)) (set [10])"
    by (auto simp: below_def no_rights_def)
  have c: "g_circle circles_env (as_db no_rights) 12 = Inr \<lparr>ci_users = [3, 4], ci_circles = [11]\<rparr>"
    "g_user circles_env (as_db no_rights) 4 = Inr 4" "g_user circles_env (as_db no_rights) 5 = Inr 5"
    "a_circles (as_acl no_rights) = []" by (simp_all add: circles_env_def no_rights_def)
  define ws where "ws = [''r'', ''w'']"
  from rights_add_then_check [OF s' circles_env_kept] b c
  have "rights_check circles_env s' 4 ws = Inr True \<and> rights_check circles_env s' 5 ws = Inr True"
    unfolding ws_def [symmetric] by fastforce
  with s' show ?thesis unfolding ws_def by blast
qed

theorem stored_entry_refuses_witness:
  "\<exists>s'. rights_update 3 circles_env count_save True [''w''] [5] []
       (no_rights\<lparr>as_acl := \<lparr>a_name = ''a'', a_users = [\<lparr>ae_id = 5, ae_rights = [''r''], ae_sub = True\<rparr>], a_circles = []\<rparr>\<rparr>)
     = Some (s', Inl P_AttributeError) \<and> as_db s' = 0"
proof -
  let ?s = "no_rights\<lparr>as_acl := \<lparr>a_name = ''a'', a_users = [\<lparr>ae_id = 5, ae_rights = [''r''], ae_sub = True\<rparr>], a_circles = []\<rparr>\<rparr>"
  have "entry_find 5 (a_users (as_acl ?s)) = Some \<lparr>ae_id = 5, ae_rights = [''r''], ae_sub = True\<rparr>" by simp
  from stored_entry_refuses [OF this, where n = 3 and E = circles_env and save = count_save and add = True and rights = "[''w'']" and us = "[]" and cs = "[]"]
  show ?thesis by (auto simp: no_rights_def)
qed

end
