(* ===== verification/Database.thy ===== *)
theory Database
  imports BCDBModel
begin

text \<open>
  A BCDB (\<^verbatim>\<open>data/bcdb/BCDB.py\<close>): one storage client with the objects of many models, the models that were loaded, and the
  urls it remembers. The schema registry is asked for the url of an md5, the newest md5 of a url and the schema of a text;
  each model is that of \<open>BCDBModel\<close> on the shared store and a table of its own.
\<close>

section \<open>State\<close>

record ('a, 'b, 'c, 't) db =
  d_store :: "('a, 'b, 'c) store"
  d_tabs :: "string \<Rightarrow> 't"
  d_models :: "(string \<times> string) list"
    \<comment> \<open>url and md5 of the schema a loaded model has\<close>
  d_urls :: "string list"

record ('a, 'b, 'c, 't) dconf =
  dc_model :: "string \<Rightarrow> ('a, 'b, 'c, 't) bconf"
  dc_url_of :: "string \<Rightarrow> string option"
    \<comment> \<open>the url of the schema with this md5\<close>
  dc_newest :: "string \<Rightarrow> string option"
    \<comment> \<open>the md5 of the newest schema of a url\<close>
  dc_text :: "string \<Rightarrow> (string \<times> string) res"
    \<comment> \<open>url and md5 of the schema with this text, which is added to the registry\<close>
  dc_env :: benv
  dc_system :: "string list"
    \<comment> \<open>urls of acl, user, circle and namespace\<close>
  dc_empty :: 't
    \<comment> \<open>a table that was just made\<close>

type_synonym ('a, 'b, 'c, 't, 'r) deff = "(('a, 'b, 'c, 't) db, 'r) eff"

section \<open>Models of a database\<close>

datatype sref = ByText string | BySchema string string | ByUrl string | ByMd5 string
  \<comment> \<open>what \<^verbatim>\<open>schema_get\<close> is called with: a text, a schema (url and md5), a url or an md5\<close>

definition schema_get :: "('a, 'b, 'c, 't) dconf \<Rightarrow> sref \<Rightarrow> (string \<times> string) res" where
  "schema_get D r = (case r of
     ByText t \<Rightarrow> dc_text D t
   | BySchema url md5 \<Rightarrow> Inr (url, md5)
   | ByUrl url \<Rightarrow> (case dc_newest D (url_clean_schema url) of None \<Rightarrow> Inl E_Input | Some m \<Rightarrow> Inr (url_clean_schema url, m))
   | ByMd5 md5 \<Rightarrow> (case dc_url_of D md5 of None \<Rightarrow> Inl E_Input
       | Some url \<Rightarrow> (case dc_newest D url of None \<Rightarrow> Inl E_Input | Some m \<Rightarrow> Inr (url, m))))"

definition url_set :: "string \<Rightarrow> ('a, 'b, 'c, 't, unit) deff" where
  "url_set url = emod (\<lambda>s. if url \<in> set (d_urls s) then s else s\<lparr>d_urls := d_urls s @ [url]\<rparr>)"

definition model_add :: "string \<Rightarrow> string \<Rightarrow> ('a, 'b, 'c, 't, unit) deff" where
  "model_add url md5 = ebind (emod (\<lambda>s. s\<lparr>d_models := d_set (d_models s) url md5\<rparr>)) (\<lambda>_. url_set url)"

definition db_model_get :: "('a, 'b, 'c, 't) dconf \<Rightarrow> sref \<Rightarrow> ('a, 'b, 'c, 't, string) deff" where
  \<comment> \<open>the url of the model. A model in memory takes over the schema it is asked with, whichever version that is; a new one
    starts with the newest version of its url\<close>
  "db_model_get D r = ebind (elift (schema_get D r)) (\<lambda>(url, md5).
     ebind (eget (\<lambda>s. d_get (d_models s) url)) (\<lambda>known. case known of
       Some m \<Rightarrow> ebind (if m \<noteq> md5 then emod (\<lambda>s. s\<lparr>d_models := d_set (d_models s) url md5\<rparr>) else ereturn ()) (\<lambda>_. ereturn url)
     | None \<Rightarrow> ebind (url_set url) (\<lambda>_.
         case dc_newest D url of None \<Rightarrow> eraise E_Input
         | Some m \<Rightarrow> ebind (model_add url m) (\<lambda>_. ereturn url))))"

definition on_model :: "('a, 'b, 'c, 't) dconf \<Rightarrow> string \<Rightarrow> (('a, 'b, 'c, 't) bconf \<Rightarrow> ('a, 'b, 'c, 't, 'r) beff) \<Rightarrow> ('a, 'b, 'c, 't, 'r) deff" where
  \<comment> \<open>an operation of the model with that url, on the shared store and its own table\<close>
  "on_model D url m s = (case m (dc_model D url) \<lparr>b_store = d_store s, b_tab = d_tabs s url\<rparr> of
     (b, r) \<Rightarrow> (s\<lparr>d_store := b_store b, d_tabs := (d_tabs s)(url := b_tab b)\<rparr>, r))"

section \<open>Reading objects of any model\<close>

definition db_unserialize :: "('a, 'b, 'c, 't) dconf \<Rightarrow> int \<Rightarrow> bytes \<Rightarrow> ('a, 'b, 'c, 't, jobj) deff" where
  \<comment> \<open>\<^verbatim>\<open>_unserialize\<close> without a schema: the one with the md5 in the data is looked up, and the object, which is read with
    the newest version, must have it\<close>
  "db_unserialize D i data = ebind (elift (unserialize_md5 (dc_env D) data)) (\<lambda>md5.
     case dc_url_of D md5 of None \<Rightarrow> eraise E_Input
     | Some url \<Rightarrow> ebind (db_model_get D (BySchema url md5)) (\<lambda>_.
         elift (unserialize ((dc_model D url)\<lparr>c_md5 := md5\<rparr>) i data)))"

definition obj_get :: "('a, 'b, 'c, 't) dconf \<Rightarrow> int \<Rightarrow> ('a, 'b, 'c, 't, jobj option) deff" where
  "obj_get D i = ebind (eget (\<lambda>s. st_get (d_store s) i)) (\<lambda>r. ebind (elift r) (\<lambda>data.
     case data of None \<Rightarrow> ereturn None | Some d \<Rightarrow> ebind (db_unserialize D i d) (\<lambda>ob. ereturn (Some ob))))"

datatype yielded = YKey int | YObj jobj | YBlank

fun iterate_from :: "('a, 'b, 'c, 't) dconf \<Rightarrow> bool \<Rightarrow> yielded option \<Rightarrow> (int \<times> bytes option) list \<Rightarrow> ('a, 'b, 'c, 't) db
    \<Rightarrow> ('a, 'b, 'c, 't) db \<times> yielded list \<times> exn option" where
  \<comment> \<open>what the generator yields for these records and the exception it ends with. With \<^verbatim>\<open>keyonly\<close> the key is yielded and then
    the object as well, which was not read: the variable has the object of an earlier round or is not bound\<close>
  "iterate_from D keyonly prev [] s = (s, [], None)"
| "iterate_from D keyonly prev ((k, data) # items) s =
    (if k = 0 then iterate_from D keyonly prev items s
     else if keyonly then (case prev of None \<Rightarrow> (s, [YKey k], Some P_NameError)
       | Some y \<Rightarrow> (case iterate_from D keyonly prev items s of (s', ys, e) \<Rightarrow> (s', YKey k # y # ys, e)))
     else if data = None \<or> data = Some [] then
       (case iterate_from D keyonly (Some YBlank) items s of (s', ys, e) \<Rightarrow> (s', YBlank # ys, e))
     else (case db_unserialize D k (the data) s of
         (s1, Inl e) \<Rightarrow> (s1, [], Some e)
       | (s1, Inr ob) \<Rightarrow> (case iterate_from D keyonly (Some (YObj ob)) items s1 of (s', ys, e) \<Rightarrow> (s', YObj ob # ys, e))))"

definition keyonly_items :: "('a, 'b, 'c) store \<Rightarrow> bool \<Rightarrow> (int \<times> bytes option) list \<Rightarrow> (int \<times> bytes option) list res" where
  \<comment> \<open>the redis client then yields numbers, which do not unpack into a key and a value\<close>
  "keyonly_items st keyonly items = (case st of SRdb c \<Rightarrow> if keyonly \<and> items \<noteq> [] then Inl P_TypeError else Inr items
     | _ \<Rightarrow> Inr items)"

definition db_iterate :: "('a, 'b, 'c, 't) dconf \<Rightarrow> bool \<Rightarrow> ('a, 'b, 'c, 't) db \<Rightarrow> (('a, 'b, 'c, 't) db \<times> yielded list \<times> exn option) option" where
  "db_iterate D keyonly s = (case st_iterate (d_store s) of None \<Rightarrow> None
     | Some (Inl e) \<Rightarrow> Some (s, [], Some e)
     | Some (Inr items) \<Rightarrow> Some (case keyonly_items (d_store s) keyonly items of
         Inl e \<Rightarrow> (s, [], Some e)
       | Inr items' \<Rightarrow> iterate_from D keyonly None items' s))"

definition get_all :: "('a, 'b, 'c, 't) dconf \<Rightarrow> ('a, 'b, 'c, 't) db \<Rightarrow> (('a, 'b, 'c, 't) db \<times> yielded list res) option" where
  "get_all D s = map_option (\<lambda>(s', ys, e). (s', case e of None \<Rightarrow> Inr ys | Some x \<Rightarrow> Inl x)) (db_iterate D False s)"

section \<open>Start, reset and rebuild\<close>

definition init_props :: "('a, 'b, 'c, 't, unit) deff" where
  "init_props = emod (\<lambda>s. s\<lparr>d_models := []\<rparr>)"

definition db_start :: "('a, 'b, 'c, 't) dconf \<Rightarrow> ('a, 'b, 'c, 't, unit) deff" where
  \<comment> \<open>the four system models are added\<close>
  "db_start D = ebind init_props (\<lambda>_. efor (dc_system D) (\<lambda>url.
     case dc_newest D url of None \<Rightarrow> eraise E_Input | Some m \<Rightarrow> model_add url m))"

definition load_models :: "('a, 'b, 'c, 't) dconf \<Rightarrow> ('a, 'b, 'c, 't, unit) deff" where
  \<comment> \<open>the property \<^verbatim>\<open>models\<close>\<close>
  "load_models D = ebind (eget d_urls) (\<lambda>urls. efor urls (\<lambda>url.
     ebind (eget (\<lambda>s. d_get (d_models s) url)) (\<lambda>m.
       if m \<noteq> None then ereturn () else ebind (db_model_get D (ByUrl url)) (\<lambda>_. ereturn ()))))"

definition index_reset :: "('a, 'b, 'c, 't) dconf \<Rightarrow> ('a, 'b, 'c, 't, unit) deff" where
  \<comment> \<open>the rows of namespace 1 of every model are deleted, then the file of the tables is removed\<close>
  "index_reset D = ebind init_props (\<lambda>_. ebind (load_models D) (\<lambda>_.
     ebind (eget d_models) (\<lambda>ms. ebind (efor (map fst ms) (\<lambda>url. on_model D url (\<lambda>C. index_destroy C 1))) (\<lambda>_.
       emod (\<lambda>s. s\<lparr>d_tabs := (\<lambda>_. dc_empty D)\<rparr>)))))"

definition remember_urls :: "('a, 'b, 'c, 't) dconf \<Rightarrow> (int \<times> bytes option) list \<Rightarrow> ('a, 'b, 'c, 't, unit) deff" where
  "remember_urls D items = efor items (\<lambda>(i, data). ebind (elift (unserialize_md5 (dc_env D) (case data of None \<Rightarrow> [] | Some d \<Rightarrow> d))) (\<lambda>md5.
     case dc_url_of D md5 of None \<Rightarrow> eraise E_Input | Some url \<Rightarrow> url_set url))"

definition reindex :: "('a, 'b, 'c, 't) dconf \<Rightarrow> int \<times> bytes option \<Rightarrow> ('a, 'b, 'c, 't, unit) deff" where
  "reindex D item = (case item of (i, data) \<Rightarrow> ebind (db_unserialize D i (case data of None \<Rightarrow> [] | Some d \<Rightarrow> d)) (\<lambda>ob.
     ebind (db_model_get D (BySchema (o_url ob) (o_md5 ob))) (\<lambda>url.
     ebind (on_model D url (\<lambda>C. model_set C ob True False)) (\<lambda>_. ereturn ()))))"

definition db_index_rebuild :: "('a, 'b, 'c, 't) dconf \<Rightarrow> ('a, 'b, 'c, 't) db \<Rightarrow> (('a, 'b, 'c, 't) db \<times> unit res) option" where
  \<comment> \<open>None is a scan of the store that does not end; the first record is skipped\<close>
  "db_index_rebuild D s = (case ebind (index_reset D) (\<lambda>_. db_start D) s of
     (s1, Inl e) \<Rightarrow> Some (s1, Inl e)
   | (s1, Inr _) \<Rightarrow> (case st_iterate (d_store s1) of None \<Rightarrow> None
       | Some (Inl e) \<Rightarrow> Some (s1, Inl e)
       | Some (Inr items) \<Rightarrow> Some (ebind (if d_urls s1 = [] then remember_urls D items else ereturn ())
           (\<lambda>_. efor (drop 1 items) (reindex D)) s1)))"

section \<open>Rebuilding the index\<close>

definition dconf_ok :: "('a, 'b, 'c, 't) dconf \<Rightarrow> bool" where
  \<comment> \<open>the models share the environment, keep the laws of their tables, and have no triggers that interfere\<close>
  "dconf_ok D = (benv_laws (dc_env D) \<and> (\<forall>u. c_env (dc_model D u) = dc_env D \<and> c_url (dc_model D u) = u \<and> quiet (dc_model D u)
     \<and> itable_laws (uniq_cols (dc_model D u)) (c_tab (dc_model D u)) \<and> x_rows (c_tab (dc_model D u)) (dc_empty D) = [])
     \<and> list_all (\<lambda>u. dc_newest D u \<noteq> None) (dc_system D))"

definition row_in :: "('a, 'b, 'c, 't) dconf \<Rightarrow> jobj \<Rightarrow> irow \<Rightarrow> bool" where
  "row_in D ob r = (index_row (dc_model D (o_url ob)) ob = Inr r)"

definition stored_obj :: "('a, 'b, 'c, 't) dconf \<Rightarrow> int \<times> bytes option \<Rightarrow> jobj \<Rightarrow> bool" where
  \<comment> \<open>the record of an object of the newest version of its schema; an object that was new when it was written has no id in it\<close>
  "stored_obj D item ob = (o_id ob = Some (fst item) \<and> fst item \<noteq> 0 \<and> o_acl ob \<noteq> None \<and> own_obj (dc_model D (o_url ob)) ob
     \<and> (\<exists>i\<in>{None, Some (fst item)}. map_sum id Some (object_bytes (dc_model D (o_url ob)) (ob\<lparr>o_id := i\<rparr>)) = Inr (snd item))
     \<and> dc_url_of D (o_md5 ob) = Some (o_url ob) \<and> dc_newest D (o_url ob) = Some (o_md5 ob)
     \<and> (d_get (o_props ob) ''name'' \<noteq> None \<longrightarrow> ''name'' \<in> set (columns (dc_model D (o_url ob)))))"

definition apart :: "('a, 'b, 'c, 't) dconf \<Rightarrow> jobj \<Rightarrow> irow \<Rightarrow> irow \<Rightarrow> bool" where
  \<comment> \<open>the row of an object does not conflict with another row, which does not have the object's name either\<close>
  "apart D ob r q = (\<not> row_conflict (uniq_cols (dc_model D (o_url ob))) r q
     \<and> (case d_get (o_props ob) ''name'' of None \<Rightarrow> True | Some v \<Rightarrow> \<not> row_named (c_tab (dc_model D (o_url ob))) v q))"

lemma unserialize_md5_object:
  assumes "object_bytes C ob = Inr data" "benv_laws (c_env C)" "own_obj C ob" "o_acl ob \<noteq> None"
  shows "unserialize_md5 (c_env C) data = Inr (o_md5 ob)"
proof -
  let ?E = "c_env C"
  obtain bdata a where b: "jsx_dumps (e_capnp ?E) ob = Inr bdata" "0 < o_nid ob" "o_acl ob = Some a"
    "data = e_pack ?E (o_nid ob) a (e_encrypt ?E bdata)"
    using assms(1,4) by (auto simp: object_bytes_def rbind_eq_Inr py_assert_def split: if_splits)
  have own: "o_nid ob < 2 ^ 64" "0 \<le> a" "a < 2 ^ 64" "md5_text (o_md5 ob)" using assms(3) b(3) by (auto simp: own_obj_def)
  have u: "e_unpack ?E data = Inr (Some (o_nid ob, a, e_encrypt ?E bdata))" "e_decrypt ?E (e_encrypt ?E bdata) = Inr bdata"
    using assms(2) b(2,4) own(1-3) by (simp_all add: benv_laws_def)
  from jsx_header_dumps [OF b(1) own(4)] have "le_int (take 1 bdata) = 3" "py_hex (take 16 (drop 5 bdata)) = o_md5 ob"
    by (auto simp: jsx_header_def py_assert_def split: if_splits)
  then show ?thesis by (simp add: unserialize_md5_def u)
qed

lemma db_model_get_run:
  assumes "dc_newest D url \<noteq> None"
  shows "\<exists>s'. db_model_get D (BySchema url md5) s = (s', Inr url) \<and> d_store s' = d_store s \<and> d_tabs s' = d_tabs s"
  using assms by (auto simp: db_model_get_def schema_get_def url_set_def model_add_def ebind_app split: option.splits)

lemma db_unserialize_object:
  assumes "dconf_ok D" "stored_obj D (k, Some d) ob"
  shows "\<exists>s'. db_unserialize D k d s = (s', Inr ob) \<and> d_store s' = d_store s \<and> d_tabs s' = d_tabs s"
proof -
  let ?C = "dc_model D (o_url ob)"
  obtain i where i: "i = None \<or> i = Some k" "object_bytes ?C (ob\<lparr>o_id := i\<rparr>) = Inr d"
    using assms(2) by (auto simp: stored_obj_def map_sum_def split: sum.splits)
  have st: "o_id ob = Some k" "k \<noteq> 0" "o_acl ob \<noteq> None" "own_obj ?C ob"
    "dc_url_of D (o_md5 ob) = Some (o_url ob)" "dc_newest D (o_url ob) \<noteq> None"
    using assms(2) by (auto simp: stored_obj_def)
  let ?ob = "ob\<lparr>o_id := i\<rparr>"
  have own: "own_obj ?C ?ob" using st(4) by (simp add: own_obj_def)
  have C: "benv_laws (c_env ?C)" "c_env ?C = dc_env D" "quiet ?C" using assms(1) by (auto simp: dconf_ok_def)
  have m: "unserialize_md5 (dc_env D) d = Inr (o_md5 ob)"
    using unserialize_md5_object [OF i(2) C(1) own] st(3) C(2) by simp
  have "c_md5 ?C = o_md5 ob" using st(4) by (simp add: own_obj_def)
  then have c: "?C\<lparr>c_md5 := o_md5 ob\<rparr> = ?C" by simp
  have "unserialize ?C k d = Inr (?ob\<lparr>o_id := Some k\<rparr>)"
    by (rule unserialize_object [OF i(2) C(1) own C(3)]) (use i(1) st(2,3) in auto)
  moreover have "?ob\<lparr>o_id := Some k\<rparr> = ob" using st(1) by simp
  ultimately have u: "unserialize (?C\<lparr>c_md5 := o_md5 ob\<rparr>) k d = Inr ob" using c by simp
  obtain s1 where "db_model_get D (BySchema (o_url ob) (o_md5 ob)) s = (s1, Inr (o_url ob))" "d_store s1 = d_store s" "d_tabs s1 = d_tabs s"
    using db_model_get_run [OF st(6)] by blast
  then show ?thesis using st(5) u m by (simp add: db_unserialize_def ebind_app)
qed

lemma itable_refused: "itable_laws uniq X \<Longrightarrow> x_create X t r = None \<Longrightarrow> \<exists>q\<in>set (x_rows X t). row_conflict uniq r q"
  unfolding itable_laws_def by blast

text \<open>Setting an object in the index only, when its row is apart from the others.\<close>

lemma model_set_index:
  assumes "quiet C" "itable_laws (uniq_cols C) (c_tab C)" "index_row C ob = Inr r"
    "\<forall>q\<in>set (x_rows (c_tab C) (b_tab s)). \<not> row_conflict (uniq_cols C) r q"
    "case d_get (o_props ob) ''name'' of None \<Rightarrow> True | Some v \<Rightarrow> ''name'' \<in> set (columns C) \<and> (\<forall>q\<in>set (x_rows (c_tab C) (b_tab s)). \<not> row_named (c_tab C) v q)"
  shows "\<exists>s'. model_set C ob True False s = (s', Inr ob) \<and> b_store s' = b_store s \<and> x_rows (c_tab C) (b_tab s') = x_rows (c_tab C) (b_tab s) @ [r]"
proof -
  let ?rows = "\<lambda>s. x_rows (c_tab C) (b_tab s)"
  obtain i where i: "o_id ob = Some i" "i \<noteq> 0" "o_nid ob \<noteq> 0" "r_id r = i"
    using assms(3) by (auto simp: index_row_def rbind_eq_Inr py_assert_def split: option.splits if_splits)
  have ni: "q \<in> set (?rows s) \<Longrightarrow> r_id q \<noteq> i" for q using assms(4) i(4) by (auto simp: row_conflict_def)
  obtain s1 where s1: "index_delete C ob s = (s1, Inr ())" "b_store s1 = b_store s" "?rows s1 = ?rows s"
  proof -
    let ?t = "x_delete (c_tab C) (b_tab s) (\<lambda>r. r_id r = i)"
    have f: "x_rows (c_tab C) ?t = ?rows s" using itable_delete [OF assms(2)] ni by (simp add: filter_id_conv)
    show thesis
    proof (cases "d_get (o_props ob) ''name''")
      case None
      with f show thesis by (intro that [of "s\<lparr>b_tab := ?t\<rparr>"]) (simp_all add: index_delete_def i tab_delete_def)
    next
      case (Some v)
      have "x_rows (c_tab C) (x_delete (c_tab C) ?t (row_named (c_tab C) v)) = ?rows s"
        using itable_delete [OF assms(2)] f assms(5) Some by (simp add: filter_id_conv)
      with Some assms(5) show thesis
        by (intro that [of "s\<lparr>b_tab := x_delete (c_tab C) ?t (row_named (c_tab C) v)\<rparr>"]) (simp_all add: index_delete_def i tab_delete_def)
    qed
  qed
  have z: "x_select (c_tab C) (b_tab s1) [(''id'', PInt i)] = []"
    using itable_select [OF assms(2)] ni s1(3) by (auto simp: filter_empty_conv row_matches_id [OF assms(2)])
  obtain t where t: "x_create (c_tab C) (b_tab s1) r = Some t" "x_rows (c_tab C) t = ?rows s @ [r]"
  proof (cases "x_create (c_tab C) (b_tab s1) r")
    case None
    with itable_refused [OF assms(2) None] assms(4) s1(3) show thesis by auto
  next
    case (Some t)
    with itable_create [OF assms(2) Some] s1(3) show thesis by (intro that [of t]) simp_all
  qed
  have "index_set C ob s1 = (s1\<lparr>b_tab := t\<rparr>, Inr ())"
    using z t(1) i(4) by (simp add: index_set_def sql_index_set_def assms(3) ebind_app)
  then have "model_set C ob True False s = (s1\<lparr>b_tab := t\<rparr>, Inr ob)"
    using s1(1) i(3) trig_quiet [OF assms(1)] by (simp add: model_set_def ebind_app)
  with t(2) s1(2) show ?thesis by auto
qed

definition rows_in :: "('a, 'b, 'c, 't) dconf \<Rightarrow> ('a, 'b, 'c, 't) db \<Rightarrow> string \<Rightarrow> irow list" where
  "rows_in D s u = x_rows (c_tab (dc_model D u)) (d_tabs s u)"

definition rows_for :: "string \<Rightarrow> (jobj \<times> irow) list \<Rightarrow> irow list" where
  "rows_for u orows = map snd (filter (\<lambda>(ob, r). o_url ob = u) orows)"

fun all_apart :: "('a, 'b, 'c, 't) dconf \<Rightarrow> (jobj \<times> irow) list \<Rightarrow> bool" where
  \<comment> \<open>no object conflicts with one before it\<close>
  "all_apart D [] = True"
| "all_apart D ((ob, r) # orows) = (list_all (\<lambda>(ob', r'). o_url ob' = o_url ob \<longrightarrow> apart D ob' r' r) orows \<and> all_apart D orows)"

lemma reindex_run:
  assumes "dconf_ok D" "stored_obj D item ob" "row_in D ob r" "\<forall>q\<in>set (rows_in D s (o_url ob)). apart D ob r q"
  shows "\<exists>s'. reindex D item s = (s', Inr ()) \<and> d_store s' = d_store s
    \<and> (\<forall>u. rows_in D s' u = (if u = o_url ob then rows_in D s u @ [r] else rows_in D s u))"
proof -
  let ?u = "o_url ob" and ?C = "dc_model D (o_url ob)"
  obtain k d where item: "item = (k, Some d)" using assms(2) by (cases item) (auto simp: stored_obj_def map_sum_def split: sum.splits)
  obtain s1 where 1: "db_unserialize D k d s = (s1, Inr ob)" "d_store s1 = d_store s" "d_tabs s1 = d_tabs s"
    using db_unserialize_object [OF assms(1) assms(2) [unfolded item]] by blast
  have "dc_newest D ?u \<noteq> None" using assms(2) by (simp add: stored_obj_def)
  then obtain s2 where 2: "db_model_get D (BySchema ?u (o_md5 ob)) s1 = (s2, Inr ?u)" "d_store s2 = d_store s1" "d_tabs s2 = d_tabs s1"
    using db_model_get_run by blast
  have C: "quiet ?C" "itable_laws (uniq_cols ?C) (c_tab ?C)" using assms(1) by (auto simp: dconf_ok_def)
  let ?b = "\<lparr>b_store = d_store s2, b_tab = d_tabs s2 ?u\<rparr>"
  have rows: "x_rows (c_tab ?C) (b_tab ?b) = rows_in D s ?u" using 1(3) 2(3) by (simp add: rows_in_def)
  have a: "index_row ?C ob = Inr r" using assms(3) by (simp add: row_in_def)
  have b: "\<forall>q\<in>set (x_rows (c_tab ?C) (b_tab ?b)). \<not> row_conflict (uniq_cols ?C) r q"
    using assms(4) unfolding rows apart_def by blast
  have c: "case d_get (o_props ob) ''name'' of None \<Rightarrow> True
    | Some v \<Rightarrow> ''name'' \<in> set (columns ?C) \<and> (\<forall>q\<in>set (x_rows (c_tab ?C) (b_tab ?b)). \<not> row_named (c_tab ?C) v q)"
  proof (cases "d_get (o_props ob) ''name''")
    case (Some v)
    then have "''name'' \<in> set (columns ?C)" using assms(2) unfolding stored_obj_def by simp
    moreover have "\<forall>q\<in>set (rows_in D s ?u). \<not> row_named (c_tab ?C) v q" using assms(4) Some unfolding apart_def by simp
    ultimately show ?thesis using Some unfolding rows by simp
  qed simp
  obtain b where 3: "model_set ?C ob True False ?b = (b, Inr ob)" "b_store b = d_store s2" "x_rows (c_tab ?C) (b_tab b) = rows_in D s ?u @ [r]"
    using model_set_index [OF C a b c] unfolding rows by auto
  let ?s' = "s2\<lparr>d_store := b_store b, d_tabs := (d_tabs s2)(?u := b_tab b)\<rparr>"
  have "reindex D item s = (?s', Inr ())"
    by (simp add: item reindex_def ebind_app 1(1) 2(1) on_model_def 3(1))
  moreover have "rows_in D ?s' u = (if u = ?u then rows_in D s u @ [r] else rows_in D s u)" for u
    using 3(3) 1(3) 2(3) by (simp add: rows_in_def)
  ultimately show ?thesis using 1(2) 2(2) 3(2) by auto
qed

lemma reindex_all:
  assumes "dconf_ok D" "list_all2 (stored_obj D) items (map fst orows)" "list_all (\<lambda>(ob, r). row_in D ob r) orows" "all_apart D orows"
    "\<forall>(ob, r)\<in>set orows. \<forall>q\<in>set (rows_in D s (o_url ob)). apart D ob r q"
  shows "\<exists>s'. efor items (reindex D) s = (s', Inr ()) \<and> d_store s' = d_store s \<and> (\<forall>u. rows_in D s' u = rows_in D s u @ rows_for u orows)"
  using assms(2-5)
proof (induction orows arbitrary: items s)
  case Nil
  then show ?case by (simp add: rows_for_def)
next
  case (Cons p orows)
  obtain ob r where p: "p = (ob, r)" by fastforce
  obtain item items' where items: "items = item # items'" "stored_obj D item ob" "list_all2 (stored_obj D) items' (map fst orows)"
    using Cons.prems(1) p by (auto simp: list_all2_Cons2)
  obtain s1 where 1: "reindex D item s = (s1, Inr ())" "d_store s1 = d_store s"
    "\<forall>u. rows_in D s1 u = (if u = o_url ob then rows_in D s u @ [r] else rows_in D s u)"
    using reindex_run [OF assms(1) items(2), of r s] Cons.prems(2,4) p by auto
  have ap: "list_all (\<lambda>(ob', r'). o_url ob' = o_url ob \<longrightarrow> apart D ob' r' r) orows" using Cons.prems(3) p by simp
  have "apart D ob' r' q" if m: "(ob', r') \<in> set orows" "q \<in> set (rows_in D s1 (o_url ob'))" for ob' r' q
  proof (cases "q \<in> set (rows_in D s (o_url ob'))")
    case True
    with m(1) Cons.prems(4) p show ?thesis by fastforce
  next
    case False
    with m(2) 1(3) have "o_url ob' = o_url ob" "q = r" by (auto split: if_splits)
    with ap m(1) show ?thesis unfolding list_all_iff by fastforce
  qed
  then have "\<forall>(ob', r')\<in>set orows. \<forall>q\<in>set (rows_in D s1 (o_url ob')). apart D ob' r' q" by blast
  then obtain s2 where 2: "efor items' (reindex D) s1 = (s2, Inr ())" "d_store s2 = d_store s1"
    "\<forall>u. rows_in D s2 u = rows_in D s1 u @ rows_for u orows"
    using Cons.IH [OF items(3), of s1] Cons.prems(2,3) p by auto
  then show ?case using 1 p by (auto simp: items(1) ebind_app rows_for_def)
qed

lemma add_systems_run:
  "list_all (\<lambda>u. dc_newest D u \<noteq> None) us \<Longrightarrow>
   \<exists>s'. efor us (\<lambda>url. case dc_newest D url of None \<Rightarrow> eraise E_Input | Some m \<Rightarrow> model_add url m) s = (s', Inr ())
     \<and> d_store s' = d_store s \<and> d_tabs s' = d_tabs s \<and> (us \<noteq> [] \<longrightarrow> d_urls s' \<noteq> [])"
proof (induction us arbitrary: s)
  case (Cons u us)
  then obtain m where m: "dc_newest D u = Some m" by auto
  obtain s1 where 1: "model_add u m s = (s1, Inr ())" "d_store s1 = d_store s" "d_tabs s1 = d_tabs s" "d_urls s1 \<noteq> []"
    by (cases "d_urls s"; cases "u \<in> set (d_urls s)") (auto simp: model_add_def url_set_def ebind_app)
  obtain s' where 2: "efor us (\<lambda>url. case dc_newest D url of None \<Rightarrow> eraise E_Input | Some m \<Rightarrow> model_add url m) s1 = (s', Inr ())"
    "d_store s' = d_store s1" "d_tabs s' = d_tabs s1" "us \<noteq> [] \<longrightarrow> d_urls s' \<noteq> []" using Cons.IH [of s1] Cons.prems by auto
  have "us = [] \<longrightarrow> s' = s1" using 2(1) by auto
  then have "d_urls s' \<noteq> []" using 1(4) 2(4) by blast
  then show ?case using m 1 2 by (simp add: ebind_app)
qed simp

lemma efor_keeps_run:
  assumes "\<And>x s. x \<in> set xs \<Longrightarrow> I s \<Longrightarrow> \<exists>s'. body x s = (s', Inr ()) \<and> I s'" "I s"
  shows "\<exists>s'. efor xs body s = (s', Inr ()) \<and> I s'"
  using assms
proof (induction xs arbitrary: s)
  case (Cons x xs)
  obtain s1 where 1: "body x s = (s1, Inr ())" "I s1" using Cons.prems(1) [of x s] Cons.prems(2) by auto
  obtain s2 where "efor xs body s1 = (s2, Inr ())" "I s2" using Cons.IH [of s1] Cons.prems(1) 1(2) by auto
  with 1(1) show ?case by (simp add: ebind_app)
qed simp

definition url_known :: "('a, 'b, 'c, 't) dconf \<Rightarrow> string \<Rightarrow> bool" where
  "url_known D u = (dc_newest D u \<noteq> None \<and> url_clean_schema u = u)"

lemma db_model_get_url:
  assumes "url_known D u"
  shows "\<exists>s'. db_model_get D (ByUrl u) s = (s', Inr u) \<and> d_store s' = d_store s"
  using assms
  by (auto simp: url_known_def db_model_get_def schema_get_def url_set_def model_add_def ebind_app split: option.splits)

lemma index_reset_run:
  fixes D :: "('a, 'b, 'c, 't) dconf"
  assumes "list_all (url_known D) (d_urls s)"
  shows "\<exists>s'. index_reset D s = (s', Inr ()) \<and> d_store s' = d_store s \<and> d_tabs s' = (\<lambda>_. dc_empty D)"
proof -
  let ?I = "\<lambda>s'. d_store s' = d_store s" and ?s0 = "s\<lparr>d_models := []\<rparr>"
  have k: "url_known D u" if "u \<in> set (d_urls s)" for u using assms that by (simp add: list_all_iff)
  have load: "\<exists>s'. load_models D ?s0 = (s', Inr ()) \<and> ?I s'"
  proof -
    let ?body = "\<lambda>url. ebind (eget (\<lambda>s. d_get (d_models s) url)) (\<lambda>m. if m \<noteq> None then ereturn ()
       else ebind (db_model_get D (ByUrl url)) (\<lambda>_. ereturn ()))"
    have "\<exists>s'. ?body u t = (s', Inr ()) \<and> ?I s'" if u: "u \<in> set (d_urls s)" and t: "?I t" for u and t :: "('a, 'b, 'c, 't) db"
    proof -
      obtain t' where "db_model_get D (ByUrl u) t = (t', Inr u)" "d_store t' = d_store t" using db_model_get_url [OF k [OF u]] by blast
      with t show ?thesis by (cases "d_get (d_models t) u") (simp_all add: ebind_app)
    qed
    from efor_keeps_run [where I = ?I and body = ?body and xs = "d_urls s" and s = ?s0, OF this]
    show ?thesis by (simp add: load_models_def)
  qed
  then obtain s1 where s1: "load_models D ?s0 = (s1, Inr ())" "?I s1" by blast
  have "\<exists>s'. efor (map fst (d_models s1)) (\<lambda>url. on_model D url (\<lambda>C. index_destroy C 1)) s1 = (s', Inr ()) \<and> ?I s'"
    by (rule efor_keeps_run [where I = ?I]) (simp_all add: s1(2) on_model_def index_destroy_def tab_delete_def)
  then obtain s2 where "efor (map fst (d_models s1)) (\<lambda>url. on_model D url (\<lambda>C. index_destroy C 1)) s1 = (s2, Inr ())" "?I s2" by blast
  with s1 show ?thesis by (simp add: index_reset_def init_props_def ebind_app)
qed

text \<open>C6: Rebuilding the index leaves, in the table of every model, exactly one row for each object of the store, in the order
  of the records, whatever the tables had before, and does not change the store. It needs every object to be of the newest
  version of its schema and no two rows to conflict, and it passes over the first record.\<close>

theorem index_rebuild_complete:
  assumes "dconf_ok D" "dc_system D \<noteq> []" "list_all (url_known D) (d_urls s)"
    "st_iterate (d_store s) = Some (Inr (first # items))"
    "list_all2 (stored_obj D) items (map fst orows)" "list_all (\<lambda>(ob, r). row_in D ob r) orows" "all_apart D orows"
  shows "\<exists>s'. db_index_rebuild D s = Some (s', Inr ()) \<and> d_store s' = d_store s \<and> (\<forall>u. rows_in D s' u = rows_for u orows)"
proof -
  obtain s1 where 1: "index_reset D s = (s1, Inr ())" "d_store s1 = d_store s" "d_tabs s1 = (\<lambda>_. dc_empty D)"
    using index_reset_run [OF assms(3)] by blast
  have sys: "list_all (\<lambda>u. dc_newest D u \<noteq> None) (dc_system D)" using assms(1) by (simp add: dconf_ok_def)
  obtain s2 where 2: "db_start D s1 = (s2, Inr ())" "d_store s2 = d_store s1" "d_tabs s2 = d_tabs s1" "d_urls s2 \<noteq> []"
    using add_systems_run [OF sys, of "s1\<lparr>d_models := []\<rparr>"] assms(2) by (auto simp: db_start_def init_props_def)
  have e: "rows_in D s2 u = []" for u using assms(1) 1(3) 2(3) by (simp add: rows_in_def dconf_ok_def)
  obtain s3 where 3: "efor items (reindex D) s2 = (s3, Inr ())" "d_store s3 = d_store s2" "\<forall>u. rows_in D s3 u = rows_in D s2 u @ rows_for u orows"
    using reindex_all [OF assms(1,5-7), of s2] e by auto
  have "db_index_rebuild D s = Some (s3, Inr ())"
    using 1 2 3(1) assms(4) by (simp add: db_index_rebuild_def ebind_app)
  with 1(2) 2(2) 3(2,3) e show ?thesis by simp
qed

section \<open>Reading all objects\<close>

lemma iterate_from_objects:
  assumes "dconf_ok D" "list_all2 (stored_obj D) items obs"
  shows "\<exists>s'. iterate_from D False prev items s = (s', map YObj obs, None) \<and> d_store s' = d_store s \<and> d_tabs s' = d_tabs s"
  using assms(2)
proof (induction items obs arbitrary: prev s rule: list_all2_induct)
  case (Cons item items ob obs)
  obtain k d i where item: "item = (k, Some d)" "k \<noteq> 0" "object_bytes (dc_model D (o_url ob)) (ob\<lparr>o_id := i\<rparr>) = Inr d"
    using Cons(1) by (cases item) (auto simp: stored_obj_def map_sum_def split: sum.splits)
  obtain s1 where 1: "db_unserialize D k d s = (s1, Inr ob)" "d_store s1 = d_store s" "d_tabs s1 = d_tabs s"
    using db_unserialize_object [OF assms(1) Cons(1) [unfolded item(1)]] by blast
  have ne: "d \<noteq> []" using assms(1) item(3) by (auto simp: dconf_ok_def benv_laws_def object_bytes_def rbind_eq_Inr py_assert_def split: if_splits option.splits)
  obtain s2 where "iterate_from D False (Some (YObj ob)) items s1 = (s2, map YObj obs, None)" "d_store s2 = d_store s1" "d_tabs s2 = d_tabs s1"
    using Cons(3) by blast
  with 1 item(1,2) ne show ?case by simp
qed simp

text \<open>Iterating over a database whose objects are all of the newest version of their schema yields exactly these objects, in
  the order of their records, each as it was stored; the record with key 0 is passed over and neither the store nor a table
  changes.\<close>

theorem iterate_yields_objects:
  assumes "dconf_ok D" "st_iterate (d_store s) = Some (Inr ((0, meta) # items))" "list_all2 (stored_obj D) items obs"
  shows "\<exists>s'. get_all D s = Some (s', Inr (map YObj obs)) \<and> d_store s' = d_store s \<and> d_tabs s' = d_tabs s"
proof -
  obtain s' where "iterate_from D False None items s = (s', map YObj obs, None)" "d_store s' = d_store s" "d_tabs s' = d_tabs s"
    using iterate_from_objects [OF assms(1,3)] by blast
  then show ?thesis using assms(2) by (auto simp: get_all_def db_iterate_def keyonly_items_def split: store.split)
qed

lemma iterate_keyonly_stuck:
  "\<exists>item\<in>set items. fst item \<noteq> 0 \<Longrightarrow> \<exists>ys e. iterate_from D True None items s = (s, ys, Some e) \<and> length ys \<le> 1"
proof (induction items)
  case (Cons item items)
  then show ?case by (cases item) auto
qed simp

text \<open>Iterating with \<^verbatim>\<open>keyonly\<close> raises after at most one key, as soon as the store has an object: after the key the generator
  yields the object too, which was not read.\<close>

theorem iterate_keyonly_raises:
  assumes "st_iterate (d_store s) = Some (Inr items)" "\<exists>item\<in>set items. fst item \<noteq> 0"
  shows "\<exists>ys e. db_iterate D True s = Some (s, ys, Some e) \<and> length ys \<le> 1"
proof -
  have "items \<noteq> []" using assms(2) by auto
  with iterate_keyonly_stuck [OF assms(2), of D s] assms(1) show ?thesis
    by (auto simp: db_iterate_def keyonly_items_def split: store.split)
qed

text \<open>An object that was stored under an older version of its schema cannot be read without naming the model: the database
  looks up the old version, reads the object as one of the newest version and fails the assertion that these are the same.
  Its model reads the same record.\<close>

theorem old_version_unreadable:
  assumes "e_unpack (dc_env D) d = Inr (Some (nid, a, enc))" "e_decrypt (dc_env D) enc = Inr bdata"
    "jsx_loads (dc_env D) bdata = Inr (ob, True)" "dc_url_of D (py_hex (take 16 (drop 5 bdata))) = Some (o_url ob)"
    "dc_newest D (o_url ob) = Some (o_md5 ob)" "c_env (dc_model D (o_url ob)) = dc_env D" "quiet (dc_model D (o_url ob))"
    "c_url (dc_model D (o_url ob)) = o_url ob" "c_md5 (dc_model D (o_url ob)) = o_md5 ob"
    "st_get (d_store s) k = Inr (Some d)"
  shows "(\<exists>s'. obj_get D k s = (s', Inl P_AssertionError))
    \<and> (\<exists>ob'. unserialize (dc_model D (o_url ob)) k d = Inr ob' \<and> o_props ob' = o_props ob)"
proof -
  let ?C = "dc_model D (o_url ob)" and ?old = "py_hex (take 16 (drop 5 bdata))"
  have h: "le_int (take 1 bdata) = 3" "?old \<noteq> o_md5 ob"
    using assms(3) by (auto simp: jsx_loads_def jsx_header_def rbind_eq_Inr py_assert_def split: if_splits)
  have m: "unserialize_md5 (dc_env D) d = Inr ?old" using assms(1,2) h(1) by (simp add: unserialize_md5_def)
  have t: "triggers_call (c_triggers ?C) o' act = Inr (o', False)" for o' act
    using assms(7) by (simp add: quiet_def triggers_quiet)
  have u: "unserialize (?C\<lparr>c_md5 := ?old\<rparr>) k d = Inl P_AssertionError"
    using assms(1-3,6,8) h(2) t by (simp add: unserialize_def py_assert_def)
  obtain s1 where "db_model_get D (BySchema (o_url ob) ?old) s = (s1, Inr (o_url ob))"
    using db_model_get_run [of D "o_url ob"] assms(5) by blast
  then have "obj_get D k s = (s1, Inl P_AssertionError)"
    using assms(4,10) m u by (simp add: obj_get_def db_unserialize_def ebind_app)
  moreover have "\<exists>ob'. unserialize ?C k d = Inr ob' \<and> o_props ob' = o_props ob"
    using assms(1-3,6,8,9) t by (simp add: unserialize_def py_assert_def)
  ultimately show ?thesis by blast
qed

section \<open>A database on the memory stores\<close>

definition mem_db_conf :: "(memsrv, memtab, memzdb, irow list) dconf" where
  "mem_db_conf = \<lparr>dc_model = (\<lambda>u. mem_conf\<lparr>c_url := u\<rparr>), dc_url_of = (\<lambda>m. Some ''a.b.1''), dc_newest = (\<lambda>u. Some sample_md5),
     dc_text = (\<lambda>t. Inl E_Input), dc_env = plain_env, dc_system = [''a.b.1''], dc_empty = []\<rparr>"

definition mem_db :: "(memsrv, memtab, memzdb, irow list) db" where
  \<comment> \<open>the store after one object was saved, the tables empty\<close>
  "mem_db = \<lparr>d_store = b_store (fst (model_set mem_conf (named_obj ''x'') True True (mem_start []))), d_tabs = (\<lambda>_. []), d_models = [],
     d_urls = [''a.b.1'']\<rparr>"

definition mem_obj :: jobj where
  "mem_obj = (named_obj ''x'')\<lparr>o_id := Some 1, o_acl := Some 0\<rparr>"

definition mem_bytes :: "string \<Rightarrow> bytes" where
  \<comment> \<open>the record of a new object named x, with the md5 of a schema\<close>
  "mem_bytes md5 = (case object_bytes mem_conf (mem_obj\<lparr>o_id := None, o_md5 := md5\<rparr>) of Inl e \<Rightarrow> [] | Inr d \<Rightarrow> d)"

lemma mem_db_conf_ok: "dconf_ok mem_db_conf"
  using mem_itable_laws [of "[''name'']"] quiet_mem plain_env_laws
  by (simp add: dconf_ok_def mem_db_conf_def uniq_cols_def mem_conf_def quiet_def) (simp add: mem_itable_def)

lemma mem_db_items: "st_iterate (d_store mem_db) = Some (Inr [(0, Some (mem_bytes sample_md5)), (1, Some (mem_bytes sample_md5))])"
  by code_simp

lemma mem_obj_stored: "stored_obj mem_db_conf (1, Some (mem_bytes sample_md5)) mem_obj"
proof -
  have "object_bytes (mem_conf\<lparr>c_url := ''a.b.1''\<rparr>) (mem_obj\<lparr>o_id := None\<rparr>) = Inr (mem_bytes sample_md5)" by code_simp
  moreover have "own_obj (mem_conf\<lparr>c_url := ''a.b.1''\<rparr>) mem_obj" using own_named [of "''x''"]
    by (simp add: own_obj_def mem_obj_def mem_conf_def)
  ultimately show ?thesis by (simp add: stored_obj_def mem_db_conf_def) (simp add: mem_obj_def named_obj_def columns_def mem_conf_def)
qed

theorem index_rebuild_complete_witness:
  "\<exists>s'. db_index_rebuild mem_db_conf mem_db = Some (s', Inr ()) \<and> rows_in mem_db_conf s' ''a.b.1'' = [named_row 1 1 ''x'']"
proof -
  have k: "list_all (url_known mem_db_conf) (d_urls mem_db)"
    by (simp add: url_known_def mem_db_conf_def mem_db_def) code_simp
  have r: "list_all (\<lambda>(ob, r). row_in mem_db_conf ob r) [(mem_obj, named_row 1 1 ''x'')]"
  proof -
    have "index_row (mem_conf\<lparr>c_url := ''a.b.1''\<rparr>) mem_obj = Inr (named_row 1 1 ''x'')" by code_simp
    then show ?thesis by (simp add: row_in_def mem_db_conf_def mem_obj_def named_obj_def)
  qed
  have s: "dc_system mem_db_conf \<noteq> []" by (simp add: mem_db_conf_def)
  have "list_all2 (stored_obj mem_db_conf) [(1, Some (mem_bytes sample_md5))] (map fst [(mem_obj, named_row 1 1 ''x'')])"
    using mem_obj_stored by simp
  from index_rebuild_complete [OF mem_db_conf_ok s k mem_db_items this r] show ?thesis
    by (simp add: rows_for_def) (auto simp: mem_obj_def named_obj_def)
qed

theorem iterate_yields_objects_witness:
  "\<exists>s'. get_all mem_db_conf mem_db = Some (s', Inr [YObj mem_obj])"
  using iterate_yields_objects [OF mem_db_conf_ok mem_db_items, of "[mem_obj]"] mem_obj_stored by auto

theorem iterate_keyonly_raises_witness:
  "\<exists>ys e. db_iterate mem_db_conf True mem_db = Some (mem_db, ys, Some e)"
  using iterate_keyonly_raises [OF mem_db_items, of mem_db_conf] by auto

theorem old_version_unreadable_witness:
  "\<exists>s s'. obj_get mem_db_conf 0 s = (s', Inl P_AssertionError)"
proof -
  let ?d = "mem_bytes ''ff0102030405060708090a0b0c0d0e0f''" and ?ob = "mem_obj\<lparr>o_id := None\<rparr>"
  have "map_sum id (\<lambda>(c, r). rdb_get c 0) (rdb_set 7 mem_rdb ?d None) = Inr (Some ?d)" by code_simp
  then obtain c' :: "memsrv rdb" where c: "rdb_get c' 0 = Some ?d" by (auto simp: map_sum_def split: sum.splits)
  have u: "e_unpack (dc_env mem_db_conf) ?d = Inr (Some (1, 0, drop 16 ?d))" by code_simp
  have e: "e_decrypt (dc_env mem_db_conf) (drop 16 ?d) = Inr (drop 16 ?d)" by (simp add: mem_db_conf_def plain_env_def)
  have l: "jsx_loads (dc_env mem_db_conf) (drop 16 ?d) = Inr (?ob, True)" by code_simp
  have "\<exists>s'. obj_get mem_db_conf 0 (mem_db\<lparr>d_store := SRdb c'\<rparr>) = (s', Inl P_AssertionError)"
    by (rule old_version_unreadable [OF u e l, THEN conjunct1])
      (simp_all add: c mem_db_conf_def mem_obj_def named_obj_def mem_conf_def quiet_def)
  then show ?thesis by blast
qed

end
