(* ===== verification/Shamir.thy ===== *)
theory Shamir
  imports Prelude
begin

text \<open>
  Secret sharing (\<^verbatim>\<open>data/encryption/mnemonic/secretsharing.py\<close>): a secret is the value at 0 of a random polynomial modulo a
  prime, its values at 1, 2, ... are the shares, and interpolation gives the secret back. The random numbers are an argument.
  Integers are unbounded as in Python, and \<open>div\<close>, \<open>mod\<close> are its floor division.
\<close>

section \<open>The code\<close>

function egcd :: "int \<Rightarrow> int \<Rightarrow> int \<times> int \<times> int" where
  "egcd a b = (if a = 0 then (b, 0, 1) else (case egcd (b mod a) a of (g, y, x) \<Rightarrow> (g, x - (b div a) * y, y)))"
  by pat_completeness auto

termination by (relation "measure (\<lambda>(a, b). nat \<bar>a\<bar>)") (auto simp: abs_mod_less)

declare egcd.simps [simp del]

definition mod_inverse :: "int \<Rightarrow> int \<Rightarrow> int" where
  \<comment> \<open>for a prime that is not 0\<close>
  "mod_inverse k0 prime = (let k = k0 mod prime;
     r = (if k < 0 then snd (snd (egcd prime (- k))) else snd (snd (egcd prime k))) in (prime + r) mod prime)"

definition random_polynomial :: "(nat \<Rightarrow> int) \<Rightarrow> int \<Rightarrow> int \<Rightarrow> int \<Rightarrow> int list res" where
  \<comment> \<open>\<open>rnd i\<close> is what the call number i of \<^verbatim>\<open>randint(0, upper_bound - 1)\<close> gives; it raises when there is no such number.
    The module does not import \<^verbatim>\<open>j\<close>, so its own exceptions end as errors of a name that is not known\<close>
  "random_polynomial rnd degree intercept upper_bound =
    (if degree < 0 then Inl P_NameError
     else if degree > 0 \<and> upper_bound < 1 then Inl P_ValueError
     else Inr (intercept # map rnd [0..<nat degree]))"

definition point_term :: "int list \<Rightarrow> int \<Rightarrow> int \<Rightarrow> nat \<Rightarrow> int \<Rightarrow> int" where
  "point_term coefficients prime x i y = (let exponentiation = (x ^ i) mod prime;
     term = (coefficients ! i * exponentiation) mod prime in (y + term) mod prime)"

definition point_y :: "int list \<Rightarrow> int \<Rightarrow> int \<Rightarrow> int" where
  "point_y coefficients prime x = fold (point_term coefficients prime x) [1..<length coefficients] (coefficients ! 0)"

definition get_polynomial_points :: "int list \<Rightarrow> nat \<Rightarrow> int \<Rightarrow> (int \<times> int) list res" where
  "get_polynomial_points coefficients num_points prime =
    (if num_points > 0 \<and> coefficients = [] then Inl P_IndexError
     else if num_points > 0 \<and> length coefficients > 1 \<and> prime = 0 then Inl P_ZeroDivision
     else Inr (map (\<lambda>x. (x, point_y coefficients prime x)) (map int [1..<num_points + 1])))"

definition basis_step :: "int \<Rightarrow> (int \<times> int) list \<Rightarrow> int \<Rightarrow> nat \<Rightarrow> nat \<Rightarrow> int \<times> int \<Rightarrow> int \<times> int" where
  "basis_step x points prime i j nd = (case nd of (numerator, denominator) \<Rightarrow>
     if i = j then (numerator, denominator)
     else ((numerator * (x - fst (points ! j))) mod prime, (denominator * (fst (points ! i) - fst (points ! j))) mod prime))"

definition lagrange_term :: "int \<Rightarrow> (int \<times> int) list \<Rightarrow> int \<Rightarrow> nat \<Rightarrow> int \<Rightarrow> int" where
  "lagrange_term x points prime i f_x = (case fold (basis_step x points prime i) [0..<length points] (1, 1) of (numerator, denominator) \<Rightarrow>
     (let lagrange_polynomial = numerator * mod_inverse denominator prime in (prime + f_x + snd (points ! i) * lagrange_polynomial) mod prime))"

definition modular_lagrange_interpolation :: "int \<Rightarrow> (int \<times> int) list \<Rightarrow> int \<Rightarrow> int res" where
  "modular_lagrange_interpolation x points prime =
    (if points = [] then Inl P_ValueError else if prime = 0 then Inl P_ZeroDivision
     else Inr (fold (lagrange_term x points prime) [0..<length points] 0))"

definition secret_int_to_points :: "(nat \<Rightarrow> int) \<Rightarrow> int \<Rightarrow> int \<Rightarrow> nat \<Rightarrow> int \<Rightarrow> (int \<times> int) list res" where
  "secret_int_to_points rnd secret_int point_threshold num_points prime =
    (if point_threshold < 2 then Inl P_NameError
     else if point_threshold > int num_points then Inl P_NameError
     else if secret_int > prime then Inl P_NameError
     else rbind (random_polynomial rnd (point_threshold - 1) secret_int prime) (\<lambda>coefficients. get_polynomial_points coefficients num_points prime))"

definition points_to_secret_int :: "(int \<times> int) list \<Rightarrow> int \<Rightarrow> int res" where
  "points_to_secret_int points prime = modular_lagrange_interpolation 0 points prime"

section \<open>Inverses modulo a prime\<close>

definition prime_int :: "int \<Rightarrow> bool" where
  "prime_int p = (1 < p \<and> (\<forall>d\<in>{2..<p}. \<not> d dvd p))"

lemma egcd_0: "egcd 0 b = (b, 0, 1)"
  by (simp add: egcd.simps)

lemma egcd_step: "a \<noteq> 0 \<Longrightarrow> egcd a b = (case egcd (b mod a) a of (g, y, x) \<Rightarrow> (g, x - (b div a) * y, y))"
  by (subst egcd.simps) simp

lemma egcd_bezout: "egcd a b = (g, x, y) \<Longrightarrow> a * x + b * y = g"
proof (induction a b arbitrary: g x y rule: egcd.induct)
  case (1 a b)
  show ?case
  proof (cases "a = 0")
    case True
    with 1(2) show ?thesis by (simp add: egcd_0)
  next
    case False
    obtain g' y' x' where r: "egcd (b mod a) a = (g', y', x')" by (cases "egcd (b mod a) a")
    with 1(2) False have e: "g = g'" "x = x' - (b div a) * y'" "y = y'" by (auto simp: egcd_step)
    have "(b mod a) * y' + a * x' = g'" using 1(1) [OF False r] .
    moreover have "b mod a = b - a * (b div a)" by (simp add: minus_mult_div_eq_mod)
    ultimately show ?thesis by (simp add: e algebra_simps)
  qed
qed

lemma egcd_gcd: "0 \<le> a \<Longrightarrow> 0 \<le> b \<Longrightarrow> fst (egcd a b) = gcd a b"
proof (induction a b rule: egcd.induct)
  case (1 a b)
  show ?case
  proof (cases "a = 0")
    case True
    with 1(3) show ?thesis by (simp add: egcd_0)
  next
    case False
    with 1 have "fst (egcd (b mod a) a) = gcd (b mod a) a" by simp
    also have "\<dots> = gcd a b" by (metis gcd.commute gcd_red_int)
    finally show ?thesis using False by (cases "egcd (b mod a) a") (simp add: egcd_step)
  qed
qed

lemma prime_int_pos: "prime_int p \<Longrightarrow> 1 < p"
  by (simp add: prime_int_def)

lemma prime_int_coprime:
  assumes "prime_int p" "\<not> p dvd k"
  shows "coprime p k"
proof -
  let ?g = "gcd p k"
  have p: "1 < p" using assms(1) by (simp add: prime_int_def)
  have g: "?g dvd p" "?g dvd k" "0 < ?g" using p by (simp_all add: gcd_pos_int)
  have "?g \<noteq> p" using g(2) assms(2) by metis
  moreover have "?g \<le> p" using zdvd_imp_le [OF g(1)] p by simp
  ultimately have "?g < p" by simp
  moreover have "?g = 1 \<or> 2 \<le> ?g" using g(3) by linarith
  ultimately have "?g = 1" using assms(1) g(1) unfolding prime_int_def by (meson atLeastLessThan_iff)
  then show ?thesis by (simp add: coprime_iff_gcd_eq_1)
qed

lemma prime_int_dvd_mult: "prime_int p \<Longrightarrow> p dvd a * b \<Longrightarrow> p dvd a \<or> p dvd b"
  using prime_int_coprime [of p a] coprime_dvd_mult_right_iff [of p a b] by blast

lemma mod_inverse_mult:
  assumes "prime_int p" "\<not> p dvd k"
  shows "(k * mod_inverse k p) mod p = 1"
proof -
  have p: "1 < p" using assms(1) by (simp add: prime_int_def)
  let ?k = "k mod p"
  have k: "0 \<le> ?k" "\<not> p dvd ?k" using p assms(2) by (simp_all add: dvd_mod_iff)
  obtain g s r where e: "egcd p ?k = (g, s, r)" by (cases "egcd p ?k")
  have "g = 1" using egcd_gcd [of p ?k] e k p prime_int_coprime [OF assms(1) k(2)] by (simp add: coprime_iff_gcd_eq_1)
  with egcd_bezout [OF e] have b: "?k * r = 1 - p * s" by simp
  have "mod_inverse k p = r mod p" using k(1) e by (simp add: mod_inverse_def)
  then have "(k * mod_inverse k p) mod p = (?k * r) mod p" by (simp add: mod_mult_left_eq mod_mult_right_eq)
  also have "\<dots> = 1" using p b by (metis mod_diff_right_eq mod_mult_self1_is_0 diff_zero mod_pos_pos_trivial zero_le_one)
  finally show ?thesis .
qed

section \<open>Polynomials\<close>

text \<open>The value of a polynomial with these coefficients, and the functions that are polynomials with at most n coefficients.\<close>

fun peval :: "int list \<Rightarrow> int \<Rightarrow> int" where
  "peval [] x = 0"
| "peval (c # cs) x = c + x * peval cs x"

fun padd :: "int list \<Rightarrow> int list \<Rightarrow> int list" where
  "padd [] ds = ds"
| "padd cs [] = cs"
| "padd (c # cs) (d # ds) = (c + d) # padd cs ds"

definition poly_fun :: "nat \<Rightarrow> (int \<Rightarrow> int) \<Rightarrow> bool" where
  "poly_fun n f = (\<exists>cs. length cs \<le> n \<and> f = peval cs)"

lemma padd_props: "peval (padd cs ds) x = peval cs x + peval ds x" "length (padd cs ds) = max (length cs) (length ds)"
  by (induction cs ds rule: padd.induct) (simp_all add: algebra_simps)

lemma peval_scale: "peval (map (\<lambda>c. a * c) cs) x = a * peval cs x"
  by (induction cs) (simp_all add: algebra_simps)

lemma poly_funI: "length cs \<le> n \<Longrightarrow> (\<And>x. f x = peval cs x) \<Longrightarrow> poly_fun n f"
  unfolding poly_fun_def by auto

lemma poly_funE:
  assumes "poly_fun n f"
  obtains cs where "length cs \<le> n" "f = peval cs"
  using assms by (auto simp: poly_fun_def)

lemma poly_fun_add:
  assumes "poly_fun n f" "poly_fun n g"
  shows "poly_fun n (\<lambda>x. f x + g x)"
proof -
  obtain cs ds where "length cs \<le> n" "f = peval cs" "length ds \<le> n" "g = peval ds" using assms by (elim poly_funE)
  then show ?thesis by (intro poly_funI [of "padd cs ds"]) (simp_all add: padd_props)
qed

lemma poly_fun_scale:
  assumes "poly_fun n f"
  shows "poly_fun n (\<lambda>x. a * f x)"
proof -
  obtain cs where "length cs \<le> n" "f = peval cs" using assms by (rule poly_funE)
  then show ?thesis by (intro poly_funI [of "map (\<lambda>c. a * c) cs"]) (simp_all add: peval_scale)
qed

lemma poly_fun_mono: "poly_fun n f \<Longrightarrow> n \<le> m \<Longrightarrow> poly_fun m f"
  by (elim poly_funE, rule poly_funI) auto

lemma poly_fun_shift:
  assumes "poly_fun n f"
  shows "poly_fun (Suc n) (\<lambda>x. x * f x)"
proof -
  obtain cs where "length cs \<le> n" "f = peval cs" using assms by (rule poly_funE)
  then show ?thesis by (intro poly_funI [of "0 # cs"]) simp_all
qed

lemma poly_fun_linear:
  assumes "poly_fun n f"
  shows "poly_fun (Suc n) (\<lambda>x. (x - a) * f x)"
proof -
  have "poly_fun (Suc n) (\<lambda>x. x * f x + (- a) * f x)"
    by (intro poly_fun_add poly_fun_shift poly_fun_scale assms poly_fun_mono [OF assms]) simp
  then show ?thesis by (simp add: algebra_simps)
qed

lemma poly_fun_zero: "poly_fun n (\<lambda>x. 0)"
  by (rule poly_funI [of "[]"]) simp_all

lemma poly_fun_const: "poly_fun (Suc 0) (\<lambda>x. c)"
  by (rule poly_funI [of "[c]"]) simp_all

lemma poly_fun_sum: "(\<And>i. i \<in> set xs \<Longrightarrow> poly_fun n (F i)) \<Longrightarrow> poly_fun n (\<lambda>x. sum_list (map (\<lambda>i. F i x) xs))"
  by (induction xs) (auto intro: poly_fun_zero poly_fun_add)

lemma poly_fun_prod: "poly_fun (Suc (length as)) (\<lambda>x. prod_list (map (\<lambda>a. x - a) as))"
  by (induction as) (auto intro: poly_fun_const poly_fun_linear)

lemma factor_step: "p = q + (x - a) * g \<Longrightarrow> c + x * p = c + a * q + (x - a) * (p + a * g)" for x :: int
  by (hypsubst, simp add: algebra_simps)

lemma peval_factor: "\<exists>g. poly_fun (length cs - 1) g \<and> (\<forall>x. peval cs x = peval cs a + (x - a) * g x)"
proof (induction cs)
  case Nil
  show ?case by (rule exI [of _ "\<lambda>x. 0"]) (simp add: poly_fun_zero)
next
  case (Cons c cs)
  then obtain g where g: "poly_fun (length cs - 1) g" "\<forall>x. peval cs x = peval cs a + (x - a) * g x" by blast
  have "poly_fun (length (c # cs) - 1) (\<lambda>x. peval cs x + a * g x)"
    by (intro poly_fun_add poly_fun_scale poly_fun_mono [OF g(1)] poly_funI [of cs]) simp_all
  moreover have "peval (c # cs) x = peval (c # cs) a + (x - a) * (peval cs x + a * g x)" for x
    unfolding peval.simps by (rule factor_step) (rule spec [OF g(2)])
  ultimately show ?case by blast
qed

lemma poly_fun_factor:
  assumes "poly_fun (Suc n) f"
  shows "\<exists>g. poly_fun n g \<and> (\<forall>x. f x = f a + (x - a) * g x)"
proof -
  obtain cs where cs: "length cs \<le> Suc n" "f = peval cs" using assms by (rule poly_funE)
  obtain g where g: "poly_fun (length cs - 1) g" "\<forall>x. peval cs x = peval cs a + (x - a) * g x" using peval_factor by blast
  have "poly_fun n g" using poly_fun_mono [OF g(1)] cs(1) by simp
  with g(2) cs(2) show ?thesis by blast
qed

text \<open>A polynomial that vanishes modulo a prime at as many points as it has coefficients, vanishes everywhere.\<close>

lemma poly_fun_roots:
  assumes "prime_int p"
  shows "poly_fun n f \<Longrightarrow> length as = n \<Longrightarrow> distinct (map (\<lambda>a. a mod p) as) \<Longrightarrow> (\<forall>a\<in>set as. p dvd f a) \<Longrightarrow> p dvd f x"
proof (induction n arbitrary: f as x)
  case 0
  then show ?case by (auto simp: poly_fun_def)
next
  case (Suc n)
  then obtain a as' where as: "as = a # as'" "length as' = n" by (cases as) auto
  obtain g where g: "poly_fun n g" "\<forall>x. f x = f a + (x - a) * g x" using poly_fun_factor [OF Suc.prems(1)] by blast
  have "p dvd g b" if b: "b \<in> set as'" for b
  proof -
    have "p dvd f b" "p dvd f a" using Suc.prems(4) as(1) b by auto
    moreover have "f b = f a + (b - a) * g b" using g(2) by blast
    ultimately have "p dvd (b - a) * g b" by (simp add: dvd_add_right_iff)
    moreover have "b mod p \<noteq> a mod p" using Suc.prems(3) b by (auto simp: as(1) image_iff)
    then have "\<not> p dvd (b - a)" by (simp add: mod_eq_dvd_iff)
    ultimately show ?thesis using prime_int_dvd_mult [OF assms] by blast
  qed
  then have "p dvd g x" using Suc.IH [OF g(1) as(2)] Suc.prems(3) as(1) by simp
  moreover have "p dvd f a" using Suc.prems(4) as(1) by simp
  moreover have "f x = f a + (x - a) * g x" using g(2) by blast
  ultimately show ?case by simp
qed

section \<open>Interpolation\<close>

text \<open>Interpolation over the integers, without the reductions: numerators and denominators as products.\<close>

definition others :: "nat \<Rightarrow> (int \<times> int) list \<Rightarrow> int list" where
  "others i points = map (\<lambda>j. fst (points ! j)) (filter (\<lambda>j. j \<noteq> i) [0..<length points])"

definition away :: "int list \<Rightarrow> int \<Rightarrow> int" where
  "away as x = prod_list (map (\<lambda>a. x - a) as)"

definition lagrange :: "(int \<times> int) list \<Rightarrow> int \<Rightarrow> int \<Rightarrow> int" where
  "lagrange points p x = sum_list (map (\<lambda>i. snd (points ! i) * mod_inverse (away (others i points) (fst (points ! i))) p * away (others i points) x)
     [0..<length points])"

lemma mod_inverse_mod [simp]: "mod_inverse (k mod p) p = mod_inverse k p"
  by (simp add: mod_inverse_def)

lemma basis_fold:
  "fold (basis_step x points p i) js (n mod p, d mod p) =
     ((n * away (map (\<lambda>j. fst (points ! j)) (filter (\<lambda>j. j \<noteq> i) js)) x) mod p,
      (d * away (map (\<lambda>j. fst (points ! j)) (filter (\<lambda>j. j \<noteq> i) js)) (fst (points ! i))) mod p)"
proof (induction js arbitrary: n d)
  case (Cons j js)
  show ?case
  proof (cases "i = j")
    case True
    then show ?thesis using Cons by (simp add: basis_step_def)
  next
    case False
    then have "basis_step x points p i j (n mod p, d mod p)
      = ((n * (x - fst (points ! j))) mod p, (d * (fst (points ! i) - fst (points ! j))) mod p)"
      by (simp add: basis_step_def mod_mult_left_eq)
    with False Cons show ?thesis by (simp add: away_def mult.assoc)
  qed
qed (simp add: away_def)

lemma lagrange_term_mod:
  assumes "1 < p"
  shows "lagrange_term x points p i f mod p =
    (f + snd (points ! i) * mod_inverse (away (others i points) (fst (points ! i))) p * away (others i points) x) mod p"
    "lagrange_term x points p i f \<in> {0..<p}"
proof -
  have b: "fold (basis_step x points p i) [0..<length points] (1, 1)
    = (away (others i points) x mod p, away (others i points) (fst (points ! i)) mod p)"
    using basis_fold [of x points p i "[0..<length points]" 1 1] assms by (simp add: others_def)
  have e: "(p + f + y * (n mod p * v)) mod p = (f + y * v * n) mod p" for y n v :: int
    by (metis (no_types, opaque_lifting) ab_semigroup_mult_class.mult_ac(1) add.assoc mod_add_right_eq mod_add_self1 mod_mult_right_eq mult.commute mult.left_commute)
  show "lagrange_term x points p i f mod p =
    (f + snd (points ! i) * mod_inverse (away (others i points) (fst (points ! i))) p * away (others i points) x) mod p"
    by (simp add: lagrange_term_def b e)
  show "lagrange_term x points p i f \<in> {0..<p}" using assms by (simp add: lagrange_term_def b)
qed

lemma lagrange_fold:
  assumes "1 < p"
  shows "fold (lagrange_term x points p) is f mod p =
    (f + sum_list (map (\<lambda>i. snd (points ! i) * mod_inverse (away (others i points) (fst (points ! i))) p * away (others i points) x) is)) mod p"
    "is \<noteq> [] \<Longrightarrow> fold (lagrange_term x points p) is f \<in> {0..<p}"
proof -
  show "fold (lagrange_term x points p) is f mod p =
    (f + sum_list (map (\<lambda>i. snd (points ! i) * mod_inverse (away (others i points) (fst (points ! i))) p * away (others i points) x) is)) mod p"
  proof (induction "is" arbitrary: f)
    case (Cons i "is")
    show ?case unfolding fold.simps o_apply Cons
      using lagrange_term_mod(1) [OF assms, of x points i f] by (simp add: mod_add_left_eq algebra_simps) (metis (no_types, lifting) add.assoc mod_add_left_eq)
  qed simp
next
  have "f \<in> {0..<p} \<or> is \<noteq> [] \<Longrightarrow> fold (lagrange_term x points p) is f \<in> {0..<p}"
  proof (induction "is" arbitrary: f)
    case (Cons i "is")
    from lagrange_term_mod(2) [OF assms] Cons.IH show ?case by simp
  qed simp
  then show "is \<noteq> [] \<Longrightarrow> fold (lagrange_term x points p) is f \<in> {0..<p}" by blast
qed

lemma interpolation_lagrange:
  assumes "1 < p" "points \<noteq> []"
  shows "modular_lagrange_interpolation x points p = Inr (lagrange points p x mod p)"
proof -
  let ?v = "fold (lagrange_term x points p) [0..<length points] 0"
  have "?v \<in> {0..<p}" using lagrange_fold(2) [OF assms(1)] assms(2) by simp
  moreover have "?v mod p = lagrange points p x mod p" using lagrange_fold(1) [OF assms(1), of x points _ 0] by (simp add: lagrange_def)
  ultimately have "?v = lagrange points p x mod p" by (metis atLeastLessThan_iff mod_pos_pos_trivial)
  with assms show ?thesis by (simp add: modular_lagrange_interpolation_def)
qed

lemma lagrange_poly: "poly_fun (length points) (lagrange points p)"
proof -
  have "poly_fun (length points) (\<lambda>x. c * away (others i points) x)" if "i \<in> set [0..<length points]" for i c
  proof -
    have "length (filter (\<lambda>j. j \<noteq> i) [0..<length points]) < length points"
      using that length_filter_less [of i "[0..<length points]" "\<lambda>j. j \<noteq> i"] by simp
    then have "Suc (length (others i points)) \<le> length points" by (simp add: others_def)
    then show ?thesis unfolding away_def by (intro poly_fun_scale poly_fun_mono [OF poly_fun_prod])
  qed
  then show ?thesis unfolding lagrange_def by (intro poly_fun_sum)
qed

lemma away_zero: "a \<in> set as \<Longrightarrow> away as a = 0"
  unfolding away_def by (induction as) auto

lemma away_not_dvd:
  assumes "prime_int p" "\<forall>a\<in>set as. \<not> p dvd x - a"
  shows "\<not> p dvd away as x"
  using assms(2)
proof (induction as)
  case Nil
  then show ?case using prime_int_pos [OF assms(1)] by (simp add: away_def zdvd1_eq)
next
  case (Cons a as)
  then show ?case using prime_int_dvd_mult [OF assms(1), of "x - a" "away as x"] by (auto simp: away_def)
qed

definition separate :: "int \<Rightarrow> (int \<times> int) list \<Rightarrow> bool" where
  "separate p points = distinct (map (\<lambda>q. fst q mod p) points)"

lemma separate_apart:
  assumes "separate p points" "i < length points" "j < length points" "i \<noteq> j"
  shows "\<not> p dvd fst (points ! i) - fst (points ! j)"
proof -
  have "map (\<lambda>q. fst q mod p) points ! i \<noteq> map (\<lambda>q. fst q mod p) points ! j"
    using nth_eq_iff_index_eq [of "map (\<lambda>q. fst q mod p) points" i j] assms by (simp add: separate_def)
  with assms(2,3) show ?thesis by (simp add: split_beta mod_eq_dvd_iff)
qed

lemma lagrange_at:
  assumes "prime_int p" "separate p points" "k < length points"
  shows "lagrange points p (fst (points ! k)) mod p = snd (points ! k) mod p"
proof -
  let ?t = "\<lambda>i. snd (points ! i) * mod_inverse (away (others i points) (fst (points ! i))) p * away (others i points) (fst (points ! k))"
  have z: "?t i = 0" if "i < length points" "i \<noteq> k" for i
    using away_zero [of "fst (points ! k)" "others i points"] that assms(3) by (force simp: others_def)
  have "sum_list (map ?t [0..<length points]) = sum_list (map (\<lambda>i. if i = k then ?t k else 0) [0..<length points])"
    by (intro arg_cong [where f = sum_list] map_cong refl) (use z in auto)
  also have "\<dots> = ?t k" using assms(3) by (simp add: sum_list_map_eq_sum_count2 interv_sum_list_conv_sum_set_nat)
  finally have l: "lagrange points p (fst (points ! k)) = ?t k" by (simp add: lagrange_def)
  have "\<not> p dvd away (others k points) (fst (points ! k))"
    by (rule away_not_dvd [OF assms(1)]) (use separate_apart [OF assms(2) assms(3)] in \<open>auto simp: others_def\<close>)
  from mod_inverse_mult [OF assms(1) this] show ?thesis unfolding l
    by (metis (no_types, lifting) ab_semigroup_mult_class.mult_ac(1) mod_mult_right_eq mult.commute mult.right_neutral)
qed

text \<open>The only polynomial with that many coefficients through the points, modulo p.\<close>

lemma lagrange_unique:
  assumes "prime_int p" "separate p points" "poly_fun (length points) f" "\<forall>(x, y)\<in>set points. f x mod p = y mod p"
  shows "lagrange points p x mod p = f x mod p"
proof -
  have g: "poly_fun (length points) (\<lambda>x. lagrange points p x + (- 1) * f x)"
    by (intro poly_fun_add poly_fun_scale lagrange_poly assms(3))
  have "p dvd lagrange points p a + (- 1) * f a" if a: "a \<in> set (map fst points)" for a
  proof -
    obtain k where k: "k < length points" "a = fst (points ! k)" using a by (auto simp: in_set_conv_nth)
    have "f a mod p = snd (points ! k) mod p" using assms(4) k by (metis (mono_tags, lifting) case_prodD nth_mem prod.collapse)
    with lagrange_at [OF assms(1,2) k(1)] k(2) have "lagrange points p a mod p = f a mod p" by simp
    then show ?thesis by (simp add: mod_eq_dvd_iff)
  qed
  then have "p dvd lagrange points p x + (- 1) * f x"
    by (intro poly_fun_roots [OF assms(1) g, of "map fst points"]) (use assms(2) in \<open>simp_all add: separate_def o_def split_beta\<close>)
  then show ?thesis by (simp add: mod_eq_dvd_iff)
qed

section \<open>Shares\<close>

lemma point_fold:
  "fold (point_term cs p x) js y mod p = (y + sum_list (map (\<lambda>i. cs ! i * x ^ i) js)) mod p"
proof (induction js arbitrary: y)
  case (Cons j js)
  have "point_term cs p x j y mod p = (y + cs ! j * x ^ j) mod p"
    unfolding point_term_def Let_def by (metis mod_add_right_eq mod_mod_trivial mod_mult_right_eq)
  then show ?case unfolding fold.simps o_apply Cons
    by (simp add: add.assoc [symmetric]) (metis mod_add_left_eq)
qed simp

lemma peval_sum: "peval cs x = sum_list (map (\<lambda>i. cs ! i * x ^ i) [0..<length cs])"
proof (induction cs)
  case (Cons c cs)
  have "map (\<lambda>i. (c # cs) ! i * x ^ i) [0..<length (c # cs)] = c # map (\<lambda>i. x * (cs ! i * x ^ i)) [0..<length cs]"
    by (simp add: upt_conv_Cons map_Suc_upt [symmetric] o_def ac_simps del: upt_Suc)
  with Cons show ?case by (simp add: sum_list_const_mult)
qed simp

lemma point_y_mod: "cs \<noteq> [] \<Longrightarrow> point_y cs p x mod p = peval cs x mod p"
  by (cases cs) (simp_all add: point_y_def point_fold peval_sum upt_conv_Cons del: upt_Suc)

lemma point_y_range:
  assumes "1 < p" "1 < length cs"
  shows "point_y cs p x \<in> {0..<p}"
proof -
  have "[1..<length cs] = [1..<length cs - 1] @ [length cs - 1]" using assms(2) by (cases "length cs") (auto simp: upt_Suc_append)
  then have "point_y cs p x = point_term cs p x (length cs - 1) (fold (point_term cs p x) [1..<length cs - 1] (cs ! 0))"
    by (simp add: point_y_def)
  then show ?thesis using assms(1) by (simp add: point_term_def Let_def)
qed

lemma point_y_eq: "1 < p \<Longrightarrow> 1 < length cs \<Longrightarrow> point_y cs p x = peval cs x mod p"
  using point_y_range [of p cs x] point_y_mod [of cs p x] by (cases cs) auto

text \<open>The points of a run that does not raise.\<close>

definition share_list :: "(nat \<Rightarrow> int) \<Rightarrow> int \<Rightarrow> int \<Rightarrow> nat \<Rightarrow> int \<Rightarrow> (int \<times> int) list" where
  "share_list rnd s k n p = map (\<lambda>x. (x, peval (s # map rnd [0..<nat (k - 1)]) x mod p)) (map int [1..<n + 1])"

lemma secret_int_to_points_run:
  assumes "1 < p"
  shows "secret_int_to_points rnd s k n p = (if 2 \<le> k \<and> k \<le> int n \<and> s \<le> p then Inr (share_list rnd s k n p) else Inl P_NameError)"
  using assms by (auto simp: secret_int_to_points_def random_polynomial_def get_polynomial_points_def share_list_def point_y_eq)

lemma share_list_mem: "q \<in> set (share_list rnd s k n p) \<longleftrightarrow>
    1 \<le> fst q \<and> fst q \<le> int n \<and> snd q = peval (s # map rnd [0..<nat (k - 1)]) (fst q) mod p"
proof -
  have "set (map int [1..<n + 1]) = {1..int n}"
    using image_int_atLeastAtMost [of 1 n] by (simp only: set_map set_upt) (simp add: atLeastLessThanSuc_atLeastAtMost)
  then have "set (share_list rnd s k n p) = (\<lambda>x. (x, peval (s # map rnd [0..<nat (k - 1)]) x mod p)) ` {1..int n}"
    unfolding share_list_def by (subst set_map) (simp only:)
  then show ?thesis by (cases q) auto
qed

lemma share_list_separate:
  assumes "int n < p" "set points \<subseteq> set (share_list rnd s k n p)" "distinct points"
  shows "separate p points"
proof -
  have "fst q mod p = fst q" if "q \<in> set points" for q
    using that assms(1,2) share_list_mem [of q rnd s k n p] by auto
  moreover have "inj_on fst (set points)"
  proof (rule inj_onI)
    fix q q' assume "q \<in> set points" "q' \<in> set points" "fst q = fst q'"
    then show "q = q'" using assms(2) share_list_mem [of q rnd s k n p] share_list_mem [of q' rnd s k n p]
      by (intro prod_eqI) auto
  qed
  ultimately have "inj_on (\<lambda>q. fst q mod p) (set points)" by (simp add: inj_on_def)
  with assms(3) show ?thesis by (simp add: separate_def distinct_map)
qed

text \<open>C2: Any choice of at least as many different shares as the threshold gives the secret back, in any order, whatever the
  random numbers were; the secret that equals the prime, which is accepted, comes back as 0.\<close>

theorem shares_give_secret:
  assumes "prime_int p" "int n < p" "0 \<le> s" "secret_int_to_points rnd s k n p = Inr shares"
    "set points \<subseteq> set shares" "distinct points" "k \<le> int (length points)"
  shows "points_to_secret_int points p = Inr (if s = p then 0 else s)"
proof -
  let ?f = "peval (s # map rnd [0..<nat (k - 1)])"
  have p: "1 < p" using assms(1) by (rule prime_int_pos)
  have k: "2 \<le> k" "s \<le> p" "shares = share_list rnd s k n p"
    using assms(4) unfolding secret_int_to_points_run [OF p] by (auto split: if_splits)
  have sep: "separate p points" using share_list_separate [OF assms(2)] assms(5,6) k(3) by simp
  have f: "poly_fun (length points) ?f" by (rule poly_funI [of "s # map rnd [0..<nat (k - 1)]"]) (use k(1) assms(7) in simp_all)
  have "\<forall>(x, y)\<in>set points. ?f x mod p = y mod p" using assms(5) share_list_mem [of _ rnd s k n p] k(3) by auto
  from lagrange_unique [OF assms(1) sep f this, of 0] have "lagrange points p 0 mod p = s mod p" by simp
  moreover have "points \<noteq> []" using assms(7) k(1) by auto
  ultimately have "points_to_secret_int points p = Inr (s mod p)"
    using interpolation_lagrange [OF p] by (simp add: points_to_secret_int_def)
  also have "s mod p = (if s = p then 0 else s)" using assms(3) k(2) by (auto simp: mod_pos_pos_trivial)
  finally show ?thesis .
qed

lemma peval_append_zeros: "peval (cs @ replicate m 0) x = peval cs x"
  by (induction cs) (induction m, simp_all)

lemma peval_map_mod: "peval (map (\<lambda>c. c mod p) cs) x mod p = peval cs x mod p"
proof (induction cs)
  case (Cons c cs)
  have "(c mod p + x * peval (map (\<lambda>c. c mod p) cs) x) mod p = (c + x * (peval (map (\<lambda>c. c mod p) cs) x mod p)) mod p"
    by (metis mod_add_eq mod_mod_trivial mod_mult_right_eq)
  also have "\<dots> = (c + x * peval cs x) mod p" unfolding Cons by (metis mod_add_right_eq mod_mult_right_eq)
  finally show ?case by simp
qed simp

text \<open>C3: Fewer shares than the threshold say nothing about the secret: for every other secret there are random numbers,
  each one that the code can draw, with which the same shares are handed out.\<close>

theorem shares_hide_secret:
  assumes "prime_int p" "int n < p" "0 \<le> s'" "s' < p" "secret_int_to_points rnd s k n p = Inr shares"
    "set points \<subseteq> set shares" "distinct points" "int (length points) < k"
  shows "\<exists>rnd' shares'. (\<forall>i. 0 \<le> rnd' i \<and> rnd' i < p) \<and> secret_int_to_points rnd' s' k n p = Inr shares' \<and> set points \<subseteq> set shares'"
proof -
  have p: "1 < p" using assms(1) by (rule prime_int_pos)
  have k: "2 \<le> k" "k \<le> int n" "shares = share_list rnd s k n p"
    using assms(5) unfolding secret_int_to_points_run [OF p] by (auto split: if_splits)
  have mem: "1 \<le> fst q" "fst q \<le> int n" "0 \<le> snd q" "snd q < p" if "q \<in> set points" for q
    using that assms(6) share_list_mem [of q rnd s k n p] k(3) p by auto
  let ?ps = "(0, s') # points"
  have "separate p points" using share_list_separate [OF assms(2)] assms(6,7) k(3) by simp
  moreover have "fst q mod p \<noteq> 0" if "q \<in> set points" for q using mem [OF that] assms(2) by simp
  ultimately have sep: "separate p ?ps" by (auto simp: separate_def)
  obtain cs where cs: "length cs \<le> length ?ps" "lagrange ?ps p = peval cs" using lagrange_poly by (rule poly_funE)
  have l: "length (cs @ replicate (nat k - length cs) 0) = nat k" using cs(1) assms(8) by simp
  then obtain c rest where cr: "cs @ replicate (nat k - length cs) 0 = c # rest"
    using k(1) by (cases "cs @ replicate (nat k - length cs) 0") auto
  then have lr: "length rest = nat (k - 1)" using l by (simp add: nat_diff_distrib')
  have ev: "peval cs x = c + x * peval rest x" for x using peval_append_zeros [of cs "nat k - length cs" x] unfolding cr by simp
  define rnd' where "rnd' i = (if i < length rest then rest ! i mod p else 0)" for i
  have r: "map rnd' [0..<nat (k - 1)] = map (\<lambda>c. c mod p) rest" using lr by (intro nth_equalityI) (simp_all add: rnd'_def)
  have at: "lagrange ?ps p (fst q) mod p = snd q mod p" if "q \<in> set ?ps" for q
    using lagrange_at [OF assms(1) sep] that by (metis in_set_conv_nth)
  have c: "c mod p = s' mod p" using at [of "(0, s')"] by (simp add: cs(2) ev)
  have v: "peval (s' # map rnd' [0..<nat (k - 1)]) x mod p = peval cs x mod p" for x
    unfolding r ev peval.simps using c by (metis mod_add_cong mod_mult_right_eq peval_map_mod)
  have "set points \<subseteq> set (share_list rnd' s' k n p)"
  proof
    fix q assume q: "q \<in> set points"
    then have "snd q = peval cs (fst q) mod p" using at [of q] mem [OF q] by (simp add: cs(2))
    then show "q \<in> set (share_list rnd' s' k n p)" using mem [OF q] v by (simp add: share_list_mem)
  qed
  moreover have "0 \<le> rnd' i \<and> rnd' i < p" for i using p by (simp add: rnd'_def)
  ultimately show ?thesis using k(1,2) assms(4) unfolding secret_int_to_points_run [OF p] by auto
qed

section \<open>A concrete run\<close>

lemma prime_13: "prime_int 13"
  by code_simp

lemma shares_13: "secret_int_to_points (\<lambda>i. 5) 7 2 3 13 = Inr [(1, 12), (2, 4), (3, 9)]"
  by code_simp

theorem shares_give_secret_witness: "points_to_secret_int [(3, 9), (1, 12)] 13 = Inr 7"
  using shares_give_secret [OF prime_13 _ _ shares_13, of "[(3, 9), (1, 12)]"] by simp

theorem shares_hide_secret_witness:
  "\<exists>rnd' shares'. secret_int_to_points rnd' 3 2 3 13 = Inr shares' \<and> (2, 4) \<in> set shares'"
  using shares_hide_secret [OF prime_13 _ _ _ shares_13, of 3 "[(2, 4)]"] by auto

end
