(* ===== verification/Mnemonic.thy ===== *)
theory Mnemonic
  imports Bin PyStr "HOL-Library.List_Lexorder" "HOL-Library.Char_ord"
begin

text \<open>
  Mnemonic phrases for keys: \<^verbatim>\<open>to_mnemonic\<close> and \<^verbatim>\<open>to_entropy\<close> (\<^verbatim>\<open>install/threesdk/InstallTools.py\<close>, where the second is also
  in \<^verbatim>\<open>JumpscaleInstallLib/Tools.py\<close>) and the class around them (\<^verbatim>\<open>data/encryption/mnemonic/mnemonic.py\<close>). A phrase
  holds the bits of the data and a checksum, eleven bits a word. The hash function (SHA-256) is an argument.
\<close>

section \<open>Python's numbers as texts of bits\<close>

function py_bin :: "nat \<Rightarrow> string" where
  \<comment> \<open>\<^verbatim>\<open>bin(n)[2:]\<close>\<close>
  "py_bin n = (if n < 2 then [digit_char n] else py_bin (n div 2) @ [digit_char (n mod 2)])"
  by pat_completeness auto

termination by (relation "measure id") auto

declare py_bin.simps [simp del]

definition zfill :: "nat \<Rightarrow> string \<Rightarrow> string" where
  "zfill w s = replicate (w - length s) (CHR ''0'') @ s"

definition int_base2 :: "string \<Rightarrow> nat" where
  \<comment> \<open>\<^verbatim>\<open>int(s, 2)\<close> for a text of zeros and ones\<close>
  "int_base2 s = fold (\<lambda>c n. 2 * n + digit_val c) s 0"

definition be_nat :: "bytes \<Rightarrow> nat" where
  \<comment> \<open>\<^verbatim>\<open>int(binascii.hexlify(data), 16)\<close>\<close>
  "be_nat data = fold (\<lambda>b n. 256 * n + unat b) data 0"

fun be_bytes :: "nat \<Rightarrow> nat \<Rightarrow> bytes" where
  \<comment> \<open>the number in hexadecimal, filled with zeros, read as that many bytes\<close>
  "be_bytes 0 n = []"
| "be_bytes (Suc w) n = be_bytes w (n div 256) @ [of_nat (n mod 256)]"

section \<open>Looking up words\<close>

function bisect_left :: "string list \<Rightarrow> string \<Rightarrow> nat \<Rightarrow> nat \<Rightarrow> nat" where
  \<comment> \<open>as in the module \<^verbatim>\<open>bisect\<close>\<close>
  "bisect_left a x lo hi = (if lo < hi then (let mid = (lo + hi) div 2 in
     if a ! mid < x then bisect_left a x (mid + 1) hi else bisect_left a x lo mid) else lo)"
  by pat_completeness auto

termination by (relation "measure (\<lambda>(a, x, lo, hi). hi - lo)") auto

declare bisect_left.simps [simp del]

definition binary_search :: "string list \<Rightarrow> string \<Rightarrow> int" where
  "binary_search a x = (let hi = length a; pos = bisect_left a x 0 hi in if pos \<noteq> hi \<and> a ! pos = x then int pos else - 1)"

section \<open>Phrases\<close>

definition py_index :: "'a list \<Rightarrow> nat \<Rightarrow> 'a res" where
  "py_index xs i = (if i < length xs then Inr (xs ! i) else Inl P_IndexError)"

definition to_mnemonic :: "(bytes \<Rightarrow> bytes) \<Rightarrow> bytes \<Rightarrow> string list \<Rightarrow> string res" where
  "to_mnemonic sha data english =
    (if length data \<notin> {16, 20, 24, 28, 32} then Inl E_Value
     else let b = zfill (length data * 8) (py_bin (be_nat data)) @ take (length data * 8 div 32) (zfill 256 (py_bin (be_nat (sha data))))
       in rbind (rmap (\<lambda>i. py_index english (int_base2 (take 11 (drop (i * 11) b)))) [0..<length b div 11])
            (\<lambda>result. Inr (join '' '' result)))"

datatype words = Phrase string | Words "string list"

definition word_list :: "words \<Rightarrow> string list" where
  "word_list w = (case w of Phrase s \<Rightarrow> split_char (CHR '' '') s | Words ws \<Rightarrow> ws)"

definition index_bits :: "int \<Rightarrow> bool list" where
  \<comment> \<open>the eleven bits a word stands for\<close>
  "index_bits ndx = map (\<lambda>ii. and ndx (push_bit (10 - ii) 1) \<noteq> 0) [0..<11]"

definition word_bits :: "string list \<Rightarrow> string \<Rightarrow> bool list res" where
  "word_bits english word = (let ndx = binary_search english word in if ndx < 0 then Inl E_NotFound else Inr (index_bits ndx))"

definition byte_of_bits :: "bool list \<Rightarrow> nat \<Rightarrow> 8 word" where
  \<comment> \<open>the byte number \<open>ii\<close> of the entropy\<close>
  "byte_of_bits bits ii = fold (\<lambda>jj w. if bits ! (ii * 8 + jj) then or w (push_bit (7 - jj) 1) else w) [0..<8] 0"

definition byte_bits :: "8 word \<Rightarrow> bool list" where
  "byte_bits c = map (\<lambda>i. and c (push_bit (7 - i) 1) \<noteq> 0) [0..<8]"

definition to_entropy :: "(bytes \<Rightarrow> bytes) \<Rightarrow> words \<Rightarrow> string list \<Rightarrow> bytes res" where
  \<comment> \<open>the bits of the words stand one after the other in \<open>bits\<close>\<close>
  "to_entropy sha words english = (let ws = word_list words in
     if length ws \<notin> {12, 15, 18, 21, 24} then Inl E_Value
     else rbind (rmap (word_bits english) ws) (\<lambda>wbits.
       let bits = concat wbits; concatLenBits = length ws * 11; checksumLengthBits = concatLenBits div 33;
         entropyLengthBits = concatLenBits - checksumLengthBits;
         entropy = map (byte_of_bits bits) [0..<entropyLengthBits div 8];
         hashBits = concat (map byte_bits (sha entropy))
       in if list_ex (\<lambda>i. bits ! (entropyLengthBits + i) \<noteq> hashBits ! i) [0..<checksumLengthBits] then Inl E_Value else Inr entropy))"

section \<open>The class Mnemonic\<close>

definition mnemonic_init :: "string list \<Rightarrow> string list res" where
  \<comment> \<open>the lines of the word list of the language\<close>
  "mnemonic_init rows = (let wordlist = map strip rows in if length wordlist \<noteq> 2048 then Inl P_Exception else Inr wordlist)"

definition generate :: "(bytes \<Rightarrow> bytes) \<Rightarrow> (nat \<Rightarrow> bytes) \<Rightarrow> string list \<Rightarrow> int \<Rightarrow> string res" where
  \<comment> \<open>the second argument is \<^verbatim>\<open>os.urandom\<close>\<close>
  "generate sha urandom wordlist strength = (if strength \<notin> {128, 160, 192, 224, 256} then Inl E_Value
     else to_mnemonic sha (urandom (nat (strength div 8))) wordlist)"

fun list_index :: "string list \<Rightarrow> string \<Rightarrow> nat option" where
  "list_index [] x = None"
| "list_index (w # ws) x = (if w = x then Some 0 else map_option Suc (list_index ws x))"

definition mnemonic_check :: "(string \<Rightarrow> string) \<Rightarrow> (bytes \<Rightarrow> bytes) \<Rightarrow> string list \<Rightarrow> string \<Rightarrow> bool" where
  \<comment> \<open>the first argument is the normal form of a text\<close>
  "mnemonic_check nfkd sha wordlist mnemonic = (let ws = split_char (CHR '' '') (nfkd mnemonic) in
     if length ws \<notin> {12, 15, 18, 21, 24} then False
     else if list_ex (\<lambda>w. list_index wordlist w = None) ws then False
     else let b = concat (map (\<lambda>w. zfill 11 (py_bin (the (list_index wordlist w)))) ws); l = length b;
         d = take (l div 33 * 32) b; h = drop (l - l div 33) b;
         nd = be_bytes (l div 33 * 4) (int_base2 d);
         nh = take (l div 33) (zfill 256 (py_bin (be_nat (sha nd))))
       in h = nh)"

definition expand_word :: "string list \<Rightarrow> string \<Rightarrow> string" where
  "expand_word wordlist prefix = (if prefix \<in> set wordlist then prefix
     else (case filter (\<lambda>w. starts_with prefix w) wordlist of [w] \<Rightarrow> w | _ \<Rightarrow> prefix))"

definition expand :: "string list \<Rightarrow> string \<Rightarrow> string" where
  "expand wordlist mnemonic = join '' '' (map (expand_word wordlist) (split_char (CHR '' '') mnemonic))"

section \<open>Bits of numbers\<close>

fun nbits :: "nat \<Rightarrow> nat \<Rightarrow> bool list" where
  \<comment> \<open>the lowest \<open>w\<close> bits, the highest of them first\<close>
  "nbits 0 n = []"
| "nbits (Suc w) n = nbits w (n div 2) @ [odd n]"

fun bval :: "bool list \<Rightarrow> nat" where
  "bval [] = 0"
| "bval (b # bs) = of_bool b * 2 ^ length bs + bval bs"

definition dig :: "bool \<Rightarrow> char" where
  "dig b = digit_char (of_bool b)"

lemma char_of_48: "char_of (48::nat) = CHR ''0''"
  by code_simp

lemma length_nbits [simp]: "length (nbits w n) = w"
  by (induction w n rule: nbits.induct) simp_all

lemma bval_snoc: "bval (bs @ [b]) = 2 * bval bs + of_bool b"
  by (induction bs) (simp_all add: algebra_simps)

lemma nbits_bval: "nbits (length bs) (bval bs) = bs"
  by (induction bs rule: rev_induct) (simp_all add: bval_snoc)

lemma bval_bound: "bval bs < 2 ^ length bs"
  by (induction bs) auto

lemma bval_nbits: "n < 2 ^ w \<Longrightarrow> bval (nbits w n) = n"
proof (induction w arbitrary: n)
  case (Suc w)
  then have "n div 2 < 2 ^ w" by (simp add: div_less_iff_less_mult mult.commute)
  with Suc.IH [of "n div 2"] show ?case by (simp add: bval_snoc of_bool_def)
qed simp

lemma nbits_append: "m < 2 ^ v \<Longrightarrow> nbits (w + v) (n * 2 ^ v + m) = nbits w n @ nbits v m"
proof (induction v arbitrary: m)
  case (Suc v)
  have "(n * 2 ^ Suc v + m) div 2 = n * 2 ^ v + m div 2" by (simp add: div_add1_eq)
  moreover have "odd (n * 2 ^ Suc v + m) = odd m" by simp
  moreover have "m div 2 < 2 ^ v" using Suc.prems by (simp add: div_less_iff_less_mult mult.commute)
  ultimately show ?case using Suc.IH [of "m div 2"] by simp
qed simp

lemma nbits_0: "nbits w 0 = replicate w False"
  by (induction w) (simp_all add: replicate_append_same)

lemma bin_nbits: "n < 2 ^ w \<Longrightarrow> 0 < w \<Longrightarrow> zfill w (py_bin n) = map dig (nbits w n)"
proof (induction n arbitrary: w rule: py_bin.induct)
  case (1 n)
  obtain v where w: "w = Suc v" using 1(3) by (cases w) auto
  show ?case
  proof (cases "n < 2")
    case True
    then have "n = 0 \<or> n = 1" by auto
    moreover have "n div 2 = 0" using True by simp
    ultimately show ?thesis using True by (auto simp: py_bin.simps [of n] zfill_def w nbits_0 dig_def digit_char_def char_of_48)
  next
    case False
    then have v: "0 < v" "n div 2 < 2 ^ v" using 1(2) w by (cases v; simp add: div_less_iff_less_mult mult.commute)+
    have "py_bin n = py_bin (n div 2) @ [dig (odd n)]" using False by (simp add: py_bin.simps [of n] dig_def odd_iff_mod_2_eq_one)
    then have "zfill w (py_bin n) = zfill v (py_bin (n div 2)) @ [dig (odd n)]" by (simp add: zfill_def w)
    then show ?thesis using 1(1) [OF False v(2,1)] by (simp add: w)
  qed
qed

lemma int_base2_dig: "int_base2 (map dig bs) = bval bs"
proof -
  have "fold (\<lambda>c n. 2 * n + digit_val c) (map dig bs) a = a * 2 ^ length bs + bval bs" for a
    by (induction bs arbitrary: a) (auto simp: dig_def algebra_simps)
  then show ?thesis by (simp add: int_base2_def)
qed

lemma nbits_nth: "i < w \<Longrightarrow> nbits w n ! i = bit n (w - 1 - i)"
proof (induction w arbitrary: n)
  case (Suc w)
  show ?case
  proof (cases "i = w")
    case False
    then have "i < w" using Suc.prems by simp
    then have "w - i = Suc (w - 1 - i)" by simp
    with Suc.IH [OF \<open>i < w\<close>, of "n div 2"] \<open>i < w\<close> show ?thesis by (simp add: nth_append bit_Suc)
  qed (simp add: nth_append bit_0)
qed simp

lemma byte_bits_nbits: "byte_bits c = nbits 8 (unat c)"
proof (intro nth_equalityI)
  fix i assume "i < length (byte_bits c)"
  then have i: "i < 8" by (simp add: byte_bits_def)
  then have "byte_bits c ! i = bit c (7 - i)"
    unfolding byte_bits_def bit_iff_and_push_bit_not_eq_0 by (subst nth_map) simp_all
  then show "byte_bits c ! i = nbits 8 (unat c) ! i" using i by (simp add: nbits_nth bit_unsigned_iff del: nbits.simps)
qed (simp add: byte_bits_def)

lemma index_bits_nbits: "index_bits (int n) = nbits 11 n"
proof (intro nth_equalityI)
  fix i assume "i < length (index_bits (int n))"
  then have i: "i < 11" by (simp add: index_bits_def)
  then have "index_bits (int n) ! i = bit (int n) (10 - i)"
    unfolding index_bits_def bit_iff_and_push_bit_not_eq_0 by (subst nth_map) simp_all
  then show "index_bits (int n) ! i = nbits 11 n ! i" using i by (simp add: nbits_nth bit_of_nat_iff_bit del: nbits.simps)
qed (simp add: index_bits_def)

lemma be_nat_snoc: "be_nat (ds @ [d]) = 256 * be_nat ds + unat d"
  by (simp add: be_nat_def)

lemma unat_8: "unat (d :: 8 word) < 256"
  using unsigned_less [of d, where ?'a = nat] by simp

lemma be_nat_bound: "be_nat ds < 2 ^ (8 * length ds)"
proof (induction ds rule: rev_induct)
  case (snoc d ds)
  then show ?case using unat_8 [of d] by (simp add: be_nat_snoc power_add)
qed (simp add: be_nat_def)

lemma be_nat_bits: "nbits (8 * length ds) (be_nat ds) = concat (map byte_bits ds)"
proof (induction ds rule: rev_induct)
  case (snoc d ds)
  have "nbits (8 * length ds + 8) (be_nat ds * 2 ^ 8 + unat d) = nbits (8 * length ds) (be_nat ds) @ nbits 8 (unat d)"
    by (rule nbits_append) (use unat_8 [of d] in simp)
  with snoc show ?case by (simp add: be_nat_snoc byte_bits_nbits mult.commute add.commute del: nbits.simps)
qed simp

lemma be_bytes_be_nat: "be_bytes (length ds) (be_nat ds) = ds"
proof (induction ds rule: rev_induct)
  case (snoc d ds)
  have "(256 * be_nat ds + unat d) div 256 = be_nat ds" "(256 * be_nat ds + unat d) mod 256 = unat d" using unat_8 [of d] by simp_all
  with snoc show ?case by (simp add: be_nat_snoc)
qed simp

lemma byte_fold:
  "k < 8 \<Longrightarrow> bit (fold (\<lambda>jj (w :: 8 word). if P jj then or w (push_bit (7 - jj) 1) else w) js w) k
    = (bit w k \<or> (\<exists>jj\<in>set js. P jj \<and> 7 - jj = k))"
  by (induction js arbitrary: w) (auto simp: bit_or_iff bit_push_bit_iff bit_1_iff bit_exp_iff)

lemma byte_of_bits_eq:
  assumes "\<And>jj. jj < 8 \<Longrightarrow> bits ! (ii * 8 + jj) = bit d (7 - jj)"
  shows "byte_of_bits bits ii = d"
proof (rule bit_word_eqI)
  fix k assume "k < LENGTH(8)"
  then have k: "k < 8" by simp
  have "(\<exists>jj\<in>set [0..<8]. bits ! (ii * 8 + jj) \<and> 7 - jj = k) = bits ! (ii * 8 + (7 - k))"
    using k by (auto intro!: bexI [of _ "7 - k"] simp: less_Suc_eq_le diff_diff_eq2) 
  also have "\<dots> = bit d k" using assms [of "7 - k"] k by simp
  finally show "bit (byte_of_bits bits ii) k = bit d k" by (simp add: byte_of_bits_def byte_fold [OF k])
qed

section \<open>Looking up a word of the list\<close>

lemma bisect_left_at:
  assumes "sorted_wrt (<) a" "i < length a"
  shows "lo \<le> i \<Longrightarrow> i \<le> hi \<Longrightarrow> hi \<le> length a \<Longrightarrow> bisect_left a (a ! i) lo hi = i"
proof (induction "hi - lo" arbitrary: lo hi rule: less_induct)
  case less
  note prems = less.prems and IH = less.hyps
  let ?m = "(lo + hi) div 2"
  show ?case
  proof (cases "lo < hi")
    case True
    then have m: "lo \<le> ?m" "?m < hi" by auto
    have "a ! ?m < a ! i \<longleftrightarrow> ?m < i"
    proof
      show "a ! ?m < a ! i \<Longrightarrow> ?m < i"
        using sorted_wrt_nth_less [OF assms(1), of i ?m] prems m assms(2) by (cases "i < ?m"; cases "i = ?m") auto
    qed (use sorted_wrt_nth_less [OF assms(1), of ?m i] assms(2) in simp)
    with IH [of ?m lo] IH [of hi "?m + 1"] prems True m show ?thesis by (subst bisect_left.simps) (simp add: Let_def)
  qed (use prems in \<open>simp add: bisect_left.simps\<close>)
qed

lemma bisect_left_bounds: "lo \<le> hi \<Longrightarrow> bisect_left a x lo hi \<le> hi"
proof (induction a x lo hi rule: bisect_left.induct)
  case (1 a x lo hi)
  have "bisect_left a x lo ((lo + hi) div 2) \<le> hi" if "lo < hi" "\<not> a ! ((lo + hi) div 2) < x"
    using 1(2) [OF that(1) refl that(2)] that(1) by linarith
  with 1 show ?case by (subst bisect_left.simps) (simp add: Let_def)
qed

lemma list_index_Some: "list_index ws x = Some i \<Longrightarrow> i < length ws \<and> ws ! i = x"
  by (induction ws arbitrary: i) (auto split: if_splits)

lemma list_index_None: "list_index ws x = None \<longleftrightarrow> x \<notin> set ws"
  by (induction ws) auto

lemma list_index_nth: "distinct ws \<Longrightarrow> i < length ws \<Longrightarrow> list_index ws (ws ! i) = Some i"
  by (induction ws arbitrary: i) (auto simp: nth_Cons split: nat.splits)

lemma binary_search_nth: "sorted_wrt (<) a \<Longrightarrow> i < length a \<Longrightarrow> binary_search a (a ! i) = int i"
  using bisect_left_at [of a i 0 "length a"] by (simp add: binary_search_def)

text \<open>In a list in strictly ascending order, the binary search gives the position a linear search finds, and -1 for a word
  that is not in the list.\<close>

theorem binary_search_linear:
  assumes "sorted_wrt (<) a"
  shows "binary_search a x = (case list_index a x of None \<Rightarrow> - 1 | Some i \<Rightarrow> int i)"
proof (cases "list_index a x")
  case None
  then have "x \<notin> set a" by (simp add: list_index_None)
  then show ?thesis using None bisect_left_bounds [of 0 "length a" a x]
    by (auto simp: binary_search_def Let_def) (metis le_neq_implies_less nth_mem)
next
  case (Some i)
  with list_index_Some [OF Some] binary_search_nth [OF assms] show ?thesis by auto
qed

section \<open>Phrases and their bits\<close>

definition chunk :: "bool list \<Rightarrow> nat \<Rightarrow> bool list" where
  "chunk bs i = take 11 (drop (i * 11) bs)"

definition phrase_bits :: "(bytes \<Rightarrow> bytes) \<Rightarrow> bytes \<Rightarrow> bool list" where
  \<comment> \<open>the data and its checksum\<close>
  "phrase_bits sha data = concat (map byte_bits data) @ take (length data div 4) (concat (map byte_bits (sha data)))"

definition phrase_words :: "(bytes \<Rightarrow> bytes) \<Rightarrow> bytes \<Rightarrow> string list \<Rightarrow> string list" where
  "phrase_words sha data english = map (\<lambda>i. english ! bval (chunk (phrase_bits sha data) i)) [0..<3 * (length data div 4)]"

definition word_list_ok :: "string list \<Rightarrow> bool" where
  "word_list_ok english = (length english = 2048 \<and> sorted_wrt (<) english \<and> list_all (\<lambda>w. CHR '' '' \<notin> set w) english)"

lemma concat_chunks: "concat (map (chunk bs) [0..<n]) = take (n * 11) bs"
proof (induction n)
  case (Suc n)
  have "take (Suc n * 11) bs = take (n * 11) bs @ take 11 (drop (n * 11) bs)" by (simp add: take_add [symmetric] add.commute)
  with Suc show ?case by (simp add: chunk_def)
qed simp

lemma length_byte_bits [simp]: "length (byte_bits c) = 8"
  by (simp add: byte_bits_def)

lemma length_concat_bits [simp]: "length (concat (map byte_bits ds)) = 8 * length ds"
  by (induction ds) simp_all

lemma concat_bits_nth:
  "i < length ds \<Longrightarrow> j < 8 \<Longrightarrow> concat (map byte_bits ds) ! (i * 8 + j) = bit (ds ! i) (7 - j)"
proof (induction ds arbitrary: i)
  case (Cons d ds)
  show ?case
  proof (cases i)
    case 0
    with Cons.prems show ?thesis by (simp add: nth_append byte_bits_nbits nbits_nth bit_unsigned_iff del: nbits.simps)
  next
    case (Suc k)
    with Cons show ?thesis by (simp add: nth_append)
  qed
qed simp

definition phrase_ok :: "(bytes \<Rightarrow> bytes) \<Rightarrow> string list \<Rightarrow> bytes \<Rightarrow> nat \<Rightarrow> bool" where
  \<comment> \<open>a size the code accepts (\<open>k\<close> units of four bytes), a hash of 256 bits, and a good word list\<close>
  "phrase_ok sha english data k = (length data = 4 * k \<and> k \<in> {4, 5, 6, 7, 8} \<and> length (sha data) = 32 \<and> word_list_ok english)"

lemma phrase_okD:
  assumes "phrase_ok sha english data k"
  shows "length data = 4 * k" "k \<in> {4, 5, 6, 7, 8}" "length (sha data) = 32" "word_list_ok english"
  using assms by (simp_all add: phrase_ok_def)

lemma length_bs: "phrase_ok sha english data k \<Longrightarrow> length (phrase_bits sha data) = 33 * k"
  by (auto simp: phrase_ok_def phrase_bits_def)

lemma rmap_map: "rmap f (map g xs) = rmap (\<lambda>x. f (g x)) xs"
  by (induction xs) simp_all

lemma length_chunk:
  assumes "phrase_ok sha english data k" "i < 3 * k"
  shows "length (chunk (phrase_bits sha data) i) = 11"
  using length_bs [OF assms(1)] assms(2) by (simp add: chunk_def)

lemma word_known:
  assumes "phrase_ok sha english data k" "i < 3 * k"
  shows "bval (chunk (phrase_bits sha data) i) < length english"
  using bval_bound [of "chunk (phrase_bits sha data) i"] length_chunk [OF assms] phrase_okD(4) [OF assms(1)]
  by (simp add: word_list_ok_def)

lemma text_bits:
  assumes "phrase_ok sha english data k"
  shows "zfill (length data * 8) (py_bin (be_nat data)) @ take (length data * 8 div 32) (zfill 256 (py_bin (be_nat (sha data))))
    = map dig (phrase_bits sha data)"
proof -
  note ok = phrase_okD [OF assms]
  have "zfill (8 * length data) (py_bin (be_nat data)) = map dig (nbits (8 * length data) (be_nat data))"
    by (rule bin_nbits [OF be_nat_bound]) (use ok(1,2) in auto)
  moreover have "zfill (8 * length (sha data)) (py_bin (be_nat (sha data))) = map dig (nbits (8 * length (sha data)) (be_nat (sha data)))"
    by (rule bin_nbits [OF be_nat_bound]) (use ok(3) in simp)
  moreover have "length data * 8 div 32 = length data div 4" by simp
  ultimately show ?thesis unfolding be_nat_bits using ok(3) by (simp add: phrase_bits_def take_map mult.commute)
qed

lemma mnemonic_words:
  assumes "phrase_ok sha english data k"
  shows "to_mnemonic sha data english = Inr (join '' '' (phrase_words sha data english))"
proof -
  note ok = phrase_okD [OF assms]
  let ?bs = "phrase_bits sha data"
  have "rmap (\<lambda>i. py_index english (int_base2 (take 11 (drop (i * 11) (map dig ?bs))))) [0..<3 * k]
    = Inr (map (\<lambda>i. english ! bval (chunk ?bs i)) [0..<3 * k])"
    by (rule rmap_all) (simp add: drop_map take_map int_base2_dig chunk_def [symmetric] py_index_def word_known [OF assms])
  moreover have "length (map dig ?bs) div 11 = 3 * k" by (simp add: length_bs [OF assms])
  moreover have "length data \<in> {16, 20, 24, 28, 32}" using ok(1,2) by auto
  ultimately show ?thesis unfolding to_mnemonic_def text_bits [OF assms] Let_def using ok(1) by (simp add: phrase_words_def)
qed

lemma length_phrase_words: "phrase_ok sha english data k \<Longrightarrow> length (phrase_words sha data english) = 3 * k"
  by (simp add: phrase_ok_def phrase_words_def)

lemma phrase_words_nth:
  "phrase_ok sha english data k \<Longrightarrow> i < 3 * k \<Longrightarrow> phrase_words sha data english ! i = english ! bval (chunk (phrase_bits sha data) i)"
  by (simp add: phrase_ok_def phrase_words_def)

lemma words_split:
  assumes "phrase_ok sha english data k"
  shows "split_char (CHR '' '') (join '' '' (phrase_words sha data english)) = phrase_words sha data english"
proof (rule split_join)
  show "phrase_words sha data english \<noteq> []" using length_phrase_words [OF assms] phrase_okD(2) [OF assms] by auto
  fix w assume "w \<in> set (phrase_words sha data english)"
  then obtain i where "i < 3 * k" "w = english ! bval (chunk (phrase_bits sha data) i)"
    using length_phrase_words [OF assms] phrase_words_nth [OF assms] by (auto simp: in_set_conv_nth)
  then have "w \<in> set english" using word_known [OF assms] by simp
  then show "CHR '' '' \<notin> set w" using phrase_okD(4) [OF assms] by (simp add: word_list_ok_def list_all_iff)
qed

lemma word_bits_chunk:
  assumes "phrase_ok sha english data k" "i < 3 * k"
  shows "word_bits english (english ! bval (chunk (phrase_bits sha data) i)) = Inr (chunk (phrase_bits sha data) i)"
proof -
  let ?c = "chunk (phrase_bits sha data) i"
  have "binary_search english (english ! bval ?c) = int (bval ?c)"
    using binary_search_nth [OF _ word_known [OF assms]] phrase_okD(4) [OF assms(1)] by (simp add: word_list_ok_def)
  moreover have "index_bits (int (bval ?c)) = ?c" using nbits_bval [of ?c] length_chunk [OF assms] by (simp add: index_bits_nbits)
  ultimately show ?thesis by (simp add: word_bits_def)
qed

lemma all_bits:
  assumes "phrase_ok sha english data k"
  shows "rmap (word_bits english) (phrase_words sha data english) = Inr (map (chunk (phrase_bits sha data)) [0..<3 * k])"
proof -
  have "rmap (\<lambda>i. word_bits english (english ! bval (chunk (phrase_bits sha data) i))) [0..<3 * k] = Inr (map (chunk (phrase_bits sha data)) [0..<3 * k])"
    by (rule rmap_all) (simp add: word_bits_chunk [OF assms])
  then show ?thesis using phrase_okD(1) [OF assms] by (simp add: phrase_words_def rmap_map)
qed

lemma all_chunks: "phrase_ok sha english data k \<Longrightarrow> concat (map (chunk (phrase_bits sha data)) [0..<3 * k]) = phrase_bits sha data"
  unfolding concat_chunks by (simp add: length_bs)

lemma entropy_bytes:
  assumes "phrase_ok sha english data k"
  shows "map (byte_of_bits (phrase_bits sha data)) [0..<4 * k] = data"
proof (intro nth_equalityI)
  note ok = phrase_okD [OF assms]
  show "length (map (byte_of_bits (phrase_bits sha data)) [0..<4 * k]) = length data" using ok(1) by simp
  fix i assume "i < length (map (byte_of_bits (phrase_bits sha data)) [0..<4 * k])"
  then have i: "i < length data" using ok(1) by simp
  have "byte_of_bits (phrase_bits sha data) i = data ! i"
    by (rule byte_of_bits_eq) (use i concat_bits_nth [OF i] in \<open>simp add: phrase_bits_def nth_append\<close>)
  then show "map (byte_of_bits (phrase_bits sha data)) [0..<4 * k] ! i = data ! i" using i ok(1) by simp
qed

lemma checksum_bits:
  assumes "phrase_ok sha english data k" "i < k"
  shows "phrase_bits sha data ! (32 * k + i) = concat (map byte_bits (sha data)) ! i"
  using phrase_okD [OF assms(1)] assms(2) by (auto simp: phrase_bits_def nth_append)

section \<open>Round trips\<close>

text \<open>C35: Data that was written as a phrase is read back from it, for every size that is accepted, every hash function with 256
  bits and every word list of 2048 words in ascending order without spaces.\<close>

theorem mnemonic_entropy_roundtrip:
  assumes "length data \<in> {16, 20, 24, 28, 32}" "length (sha data) = 32" "word_list_ok english"
  shows "rbind (to_mnemonic sha data english) (\<lambda>phrase. to_entropy sha (Phrase phrase) english) = Inr data"
proof -
  obtain k where k: "phrase_ok sha english data k" using assms by (auto simp: phrase_ok_def intro: that [of "length data div 4"])
  have "3 * k \<in> {12, 15, 18, 21, 24}" "3 * k * 11 div 33 = k" "3 * k * 11 - k = 32 * k" "32 * k div 8 = 4 * k"
    using phrase_okD(2) [OF k] by auto
  moreover have "\<not> list_ex (\<lambda>i. phrase_bits sha data ! (32 * k + i) \<noteq> concat (map byte_bits (sha data)) ! i) [0..<k]"
    using checksum_bits [OF k] by (simp add: list_ex_iff)
  ultimately have "to_entropy sha (Phrase (join '' '' (phrase_words sha data english))) english = Inr data"
    unfolding to_entropy_def word_list_def Let_def words.case words_split [OF k] length_phrase_words [OF k] all_bits [OF k] rbind_Inr
      all_chunks [OF k] using entropy_bytes [OF k] by simp
  then show ?thesis by (simp add: mnemonic_words [OF k])
qed

lemma index_chunk:
  assumes "phrase_ok sha english data k" "i < 3 * k"
  shows "list_index english (english ! bval (chunk (phrase_bits sha data) i)) = Some (bval (chunk (phrase_bits sha data) i))"
  using list_index_nth [OF _ word_known [OF assms]] phrase_okD(4) [OF assms(1)] by (auto simp: word_list_ok_def strict_sorted_iff)

text \<open>Every phrase the code makes passes its own check, in which the words are looked up one by one.\<close>

theorem mnemonic_passes_check:
  assumes "length data \<in> {16, 20, 24, 28, 32}" "length (sha data) = 32" "word_list_ok english"
    "to_mnemonic sha data english = Inr phrase" "nfkd phrase = phrase"
  shows "mnemonic_check nfkd sha english phrase"
proof -
  obtain k where k: "phrase_ok sha english data k" using assms(1-3) by (auto simp: phrase_ok_def intro: that [of "length data div 4"])
  note ok = phrase_okD [OF k]
  let ?ws = "phrase_words sha data english" and ?bs = "phrase_bits sha data"
  have p: "phrase = join '' '' ?ws" using assms(4) mnemonic_words [OF k] by simp
  let ?f = "\<lambda>w. zfill 11 (py_bin (the (list_index english w)))"
  have "?f (english ! bval (chunk ?bs i)) = map dig (chunk ?bs i)" if i: "i < 3 * k" for i
    using bin_nbits [of "bval (chunk ?bs i)" 11] bval_bound [of "chunk ?bs i"] nbits_bval [of "chunk ?bs i"] length_chunk [OF k i]
      index_chunk [OF k i] by simp
  then have z: "map ?f ?ws = map (\<lambda>i. map dig (chunk ?bs i)) [0..<3 * k]"
    using ok(1) by (simp add: phrase_words_def)
  have nf: "nfkd (join '' '' ?ws) = join '' '' ?ws" using assms(5) p by simp
  have b: "concat (map (\<lambda>i. map dig (chunk ?bs i)) [0..<3 * k]) = map dig ?bs"
    using arg_cong [OF all_chunks [OF k], of "map dig"] by (simp add: map_concat o_def)
  have d: "take (k * 32) ?bs = concat (map byte_bits data)" "drop (k * 32) ?bs = take k (concat (map byte_bits (sha data)))"
    using ok(1) by (simp_all add: phrase_bits_def)
  have bv: "bval (concat (map byte_bits data)) = be_nat data"
    using be_nat_bits [of data] be_nat_bound [of data] bval_nbits by metis
  have nd: "be_bytes (k * 4) (be_nat data) = data" using be_bytes_be_nat [of data] ok(1) by (simp add: mult.commute)
  have nh: "zfill 256 (py_bin (be_nat (sha data))) = map dig (concat (map byte_bits (sha data)))"
    using bin_nbits [of "be_nat (sha data)" 256] be_nat_bound [of "sha data"] be_nat_bits [of "sha data"] ok(3) by simp
  have all: "\<not> list_ex (\<lambda>w. list_index english w = None) ?ws"
    using length_phrase_words [OF k] phrase_words_nth [OF k] index_chunk [OF k] by (auto simp: list_ex_iff in_set_conv_nth)
  have n: "length ?ws \<in> {12, 15, 18, 21, 24}" using length_phrase_words [OF k] ok(2) by auto
  have l: "length (map dig ?bs) div 33 = k" "length (map dig ?bs) - k = k * 32" using length_bs [OF k] by simp_all
  show ?thesis
    unfolding mnemonic_check_def p nf words_split [OF k] Let_def z b l take_map drop_map d int_base2_dig bv nd nh using n all by simp
qed

section \<open>A word list\<close>

definition sample_words :: "string list" where
  "sample_words = map (\<lambda>i. [char_of (64 + i div 64), char_of (64 + i mod 64)]) [0..<2048]"

lemma of_char_of_nat: "n < 256 \<Longrightarrow> of_char (char_of n :: char) = n" for n :: nat
  by simp

lemma sample_words_ok: "word_list_ok sample_words"
proof -
  have b: "64 + i div 64 < 256 \<and> 64 + i mod 64 < 256" if "i < 2048" for i :: nat using that by auto
  have less: "[char_of (64 + i div 64), char_of (64 + i mod 64)] < [char_of (64 + j div 64), char_of (64 + j mod 64 :: nat)]"
    if "i < j" "j < 2048" for i j
  proof -
    have "i div 64 < j div 64 \<or> i div 64 = j div 64 \<and> i mod 64 < j mod 64"
      using that(1) by (metis div_le_mono div_mod_decomp le_eq_less_or_eq less_imp_le_nat nat_add_left_cancel_less)
    then show ?thesis using b [of i] b [of j] that by (auto simp: less_char_def of_char_of_nat)
  qed
  have ne: "CHR '' '' \<noteq> char_of (64 + n)" if "64 + n < 256" for n :: nat
  proof
    assume "CHR '' '' = char_of (64 + n)"
    then have "(of_char (CHR '' '') :: nat) = of_char (char_of (64 + n) :: char)" by (rule arg_cong)
    also have "\<dots> = 64 + n" by (rule of_char_of_nat [OF that])
    also have "(of_char (CHR '' '') :: nat) = 32" by code_simp
    finally show False by simp
  qed
  have sp: "CHR '' '' \<notin> {char_of (64 + i div 64), char_of (64 + i mod 64)}" if "i < 2048" for i :: nat
    using ne [of "i div 64"] ne [of "i mod 64"] b [OF that] by blast
  show ?thesis unfolding word_list_ok_def sample_words_def sorted_wrt_map list_all_iff
    using less sp by (auto simp: sorted_wrt_iff_nth_less)
qed

theorem binary_search_linear_witness: "binary_search [''ab'', ''cd''] ''cd'' = 1"
  using binary_search_linear [of "[''ab'', ''cd'']" "''cd''"] by (simp add: less_char_def)

theorem mnemonic_entropy_roundtrip_witness:
  "rbind (to_mnemonic (\<lambda>d. replicate 32 7) (replicate 16 5) sample_words) (\<lambda>phrase. to_entropy (\<lambda>d. replicate 32 7) (Phrase phrase) sample_words)
    = Inr (replicate 16 5)"
  using mnemonic_entropy_roundtrip [of "replicate 16 5" "\<lambda>d. replicate 32 7", OF _ _ sample_words_ok] by simp

theorem mnemonic_passes_check_witness:
  "\<exists>phrase. to_mnemonic (\<lambda>d. replicate 32 7) (replicate 16 5) sample_words = Inr phrase
    \<and> mnemonic_check (\<lambda>s. s) (\<lambda>d. replicate 32 7) sample_words phrase"
proof -
  have "phrase_ok (\<lambda>d. replicate 32 7) sample_words (replicate 16 5) 4" using sample_words_ok by (simp add: phrase_ok_def)
  from mnemonic_words [OF this] obtain phrase where m: "to_mnemonic (\<lambda>d. replicate 32 7) (replicate 16 5) sample_words = Inr phrase" by blast
  then show ?thesis using mnemonic_passes_check [OF _ _ sample_words_ok m, of "\<lambda>s. s"] by simp
qed

end
