(* ===== verification/Gun.thy ===== *)
theory Gun
  imports FloatFacts Effects "HOL-Library.List_Lexorder" "HOL-Library.Char_ord"
begin

text \<open>
  The graph of the gun server (\<^verbatim>\<open>servers/gundb/backend/GunUtils.py\<close>, \<^verbatim>\<open>resolvers.py\<close>): nodes with values and a state
  (a time stamp) for each of them, the algorithm that decides between two values of a key, and the mixing of a change into
  the graph. Nodes are dictionaries with the keys \<open>_\<close> (the metadata: \<open>#\<close> the name, \<open>>\<close> the states), \<open>#\<close> and those of the values.
\<close>

section \<open>Nodes\<close>

record gmeta =
  m_soul :: "pyval option"
  m_state :: "(string \<times> pyval) list option"

record gnode =
  n_meta :: "gmeta option"
  n_soul :: "pyval option"
  n_props :: "(string \<times> pyval) list"

type_synonym graph = "(string \<times> gnode) list"

definition no_node :: gnode where
  \<comment> \<open>\<^verbatim>\<open>{}\<close>\<close>
  "no_node = \<lparr>n_meta = None, n_soul = None, n_props = []\<rparr>"

definition d_default :: "('k \<times> 'v) list \<Rightarrow> 'k \<Rightarrow> 'v \<Rightarrow> 'v" where
  "d_default d k v = (case d_get d k of None \<Rightarrow> v | Some x \<Rightarrow> x)"

definition get_state_of :: "gnode \<Rightarrow> string \<Rightarrow> pyval" where
  \<comment> \<open>a node without states gives \<^verbatim>\<open>{STATE: {}}\<close>, which has no other key\<close>
  "get_state_of node key = (case n_meta node of None \<Rightarrow> PInt 0
     | Some m \<Rightarrow> (case m_state m of None \<Rightarrow> PInt 0 | Some st \<Rightarrow> d_default st key (PInt 0)))"

definition new_node :: "string \<Rightarrow> gnode" where
  "new_node name = \<lparr>n_meta = Some \<lparr>m_soul = Some (PStr name), m_state = Some []\<rparr>, n_soul = None, n_props = []\<rparr>"

definition ensure_state :: "gnode \<Rightarrow> gnode \<times> unit res" where
  \<comment> \<open>the states of a node that has none: 0 for every key but \<open>#\<close>, the metadata among them. The name is set after that\<close>
  "ensure_state node = (case n_meta node of None \<Rightarrow> (node, Inl P_KeyError)
     | Some m \<Rightarrow> (case m_state m of Some st \<Rightarrow> (node, Inr ())
         | None \<Rightarrow> (let m' = m\<lparr>m_state := Some (map (\<lambda>k. (k, PInt 0)) (''_'' # map fst (n_props node)))\<rparr> in
             case n_soul node of None \<Rightarrow> (node\<lparr>n_meta := Some m'\<rparr>, Inl P_KeyError)
             | Some s \<Rightarrow> (node\<lparr>n_meta := Some (m'\<lparr>m_soul := Some s\<rparr>)\<rparr>, Inr ()))))"

definition set_state :: "string \<Rightarrow> pyval \<Rightarrow> gnode \<Rightarrow> gnode" where
  "set_state key st node = (case n_meta node of None \<Rightarrow> node | Some m \<Rightarrow> node\<lparr>n_meta := Some (m\<lparr>m_state := map_option (\<lambda>d. d_set d key st) (m_state m)\<rparr>)\<rparr>)"

definition set_prop :: "string \<Rightarrow> pyval \<Rightarrow> gnode \<Rightarrow> gnode" where
  "set_prop key v node = node\<lparr>n_props := d_set (n_props node) key v\<rparr>"

section \<open>Conflicts\<close>

datatype ham = Defer | Historical | SameState | ConvergeCurrent | ConvergeIncoming | InvalidData

definition f_less :: "pyfloat \<Rightarrow> pyfloat \<Rightarrow> bool" where
  \<comment> \<open>\<^verbatim>\<open>a < b\<close>: false when one of them is not a number\<close>
  "f_less a b = (case (a, b) of
     (Fin p, Fin q) \<Rightarrow> p < q | (Fin p, Inf neg) \<Rightarrow> \<not> neg | (Inf neg, Fin q) \<Rightarrow> neg
   | (Inf neg, Inf neg') \<Rightarrow> neg \<and> \<not> neg' | _ \<Rightarrow> False)"

definition f_equal :: "pyfloat \<Rightarrow> pyfloat \<Rightarrow> bool" where
  "f_equal a b = (a = b \<and> a \<noteq> NaN)"

definition value_text :: "pyval \<Rightarrow> string" where
  "value_text v = (if v = PNone then [] else py_str v)"

definition or_zero :: "pyval \<Rightarrow> pyval" where
  \<comment> \<open>\<^verbatim>\<open>v or 0\<close>\<close>
  "or_zero v = (if truth v then v else PInt 0)"

definition HAM :: "int \<Rightarrow> pyval \<Rightarrow> pyval \<Rightarrow> pyval \<Rightarrow> pyval \<Rightarrow> ham res" where
  \<comment> \<open>\<^verbatim>\<open>HAM(machine_state, incoming_state, current_state, incoming_value, current_value)\<close>. The second test for an older
    state repeats the first, where an newer one was meant\<close>
  "HAM machine_state incoming_state current_state incoming_value current_value =
    rbind (to_float (or_zero incoming_state)) (\<lambda>inc.
    rbind (to_float (or_zero current_state)) (\<lambda>cur.
      let iv = value_text incoming_value; cv = value_text current_value in
      if f_less (Fin (of_int machine_state)) inc then Inr Defer
      else if f_less inc cur then Inr Historical
      else if f_less inc cur then Inr ConvergeIncoming
      else if f_equal inc cur then
        (if iv = cv then Inr SameState else if iv < cv then Inr ConvergeCurrent else if cv < iv then Inr ConvergeIncoming else Inr InvalidData)
      else Inr InvalidData))"

section \<open>Mixing a change into the graph\<close>

type_synonym 'a geff = "(graph \<times> graph, 'a) eff"
  \<comment> \<open>the graph and the differences\<close>

definition put_value :: "string \<Rightarrow> string \<Rightarrow> pyval \<Rightarrow> graph \<Rightarrow> graph" where
  "put_value soul key v g = d_set g soul (set_prop key v (d_default g soul (new_node soul)))"

definition ensure_in :: "string \<Rightarrow> graph \<Rightarrow> graph \<times> unit res" where
  "ensure_in soul g = (case d_get g soul of None \<Rightarrow> (g, Inl P_KeyError)
     | Some node \<Rightarrow> (case ensure_state node of (node', r) \<Rightarrow> (d_set g soul node', r)))"

definition put_state :: "string \<Rightarrow> string \<Rightarrow> pyval \<Rightarrow> graph \<Rightarrow> graph" where
  "put_state soul key st g = (case d_get g soul of None \<Rightarrow> g | Some node \<Rightarrow> d_set g soul (set_state key st node))"

definition mix_step :: "int \<Rightarrow> string \<Rightarrow> gnode \<Rightarrow> string \<times> pyval \<Rightarrow> unit geff" where
  \<comment> \<open>one value of the change. What \<open>HAM\<close> answers is not looked at\<close>
  "mix_step machine soul node kv s = (case (kv, s) of ((key, val), (g, diff)) \<Rightarrow>
     let state = or_zero (get_state_of node key); graphnode = d_default g soul no_node;
         was = or_zero (get_state_of graphnode key); known = d_default (n_props graphnode) key (PInt 0)
     in (case HAM machine state was val known of Inl e \<Rightarrow> ((g, diff), Inl e)
         | Inr ham \<Rightarrow>
            (let g1 = put_value soul key val g; diff1 = put_value soul key val diff in
             case ensure_in soul g1 of (g2, Inl e) \<Rightarrow> ((g2, diff1), Inl e)
             | (g2, Inr _) \<Rightarrow> (case ensure_in soul diff1 of (diff2, Inl e) \<Rightarrow> ((g2, diff2), Inl e)
                 | (diff2, Inr _) \<Rightarrow> ((put_state soul key state g2, put_state soul key state diff2), Inr ())))))"

definition ham_mix :: "int \<Rightarrow> graph \<Rightarrow> graph \<Rightarrow> graph \<times> graph res" where
  \<comment> \<open>the graph afterwards and the differences; \<open>machine\<close> is the clock in milliseconds\<close>
  "ham_mix machine change g = (case efor change (\<lambda>(soul, node). efor (n_props node) (mix_step machine soul node)) (g, []) of
     ((g', diff), r) \<Rightarrow> (g', rbind r (\<lambda>_. Inr diff)))"

section \<open>What the algorithm decides\<close>

text \<open>For time stamps below 2 to the 53, a value from the future is deferred, an older one is historical, and between two
  values of the same time the greater text wins, on both sides alike; the newer value, which should win, is answered with the
  error for data that cannot be.\<close>

theorem ham_table:
  assumes "\<bar>i\<bar> < 2 ^ 53" "\<bar>c\<bar> < 2 ^ 53"
  shows "HAM m (PInt i) (PInt c) v w = Inr (
      if m < i then Defer else if i < c then Historical else if c < i then InvalidData
      else if value_text v = value_text w then SameState else if value_text v < value_text w then ConvergeCurrent else ConvergeIncoming)"
proof -
  have f: "to_float (or_zero (PInt t)) = Inr (Fin (of_int t))" if "\<bar>t\<bar> < 2 ^ 53" for t
    using to_double_int [OF that] to_double_int [of 0] by (auto simp: or_zero_def truth_def to_float_def)
  show ?thesis unfolding HAM_def f [OF assms(1)] f [OF assms(2)]
    by (auto simp: f_less_def f_equal_def Let_def)
qed

section \<open>Changes overwrite\<close>

definition node_ok :: "gnode \<Rightarrow> bool" where
  "node_ok n = (case n_meta n of None \<Rightarrow> False | Some m \<Rightarrow> m_state m \<noteq> None)"

definition graph_ok :: "graph \<Rightarrow> bool" where
  "graph_ok g = (\<forall>soul n. d_get g soul = Some n \<longrightarrow> node_ok n)"

definition timely :: "pyval \<Rightarrow> bool" where
  \<comment> \<open>a state that can be converted to a float\<close>
  "timely v = (case to_float (or_zero v) of Inl e \<Rightarrow> False | Inr f \<Rightarrow> True)"

definition value_at :: "graph \<Rightarrow> string \<Rightarrow> string \<Rightarrow> pyval option" where
  "value_at g soul key = (case d_get g soul of None \<Rightarrow> None | Some n \<Rightarrow> d_get (n_props n) key)"

definition state_at :: "graph \<Rightarrow> string \<Rightarrow> string \<Rightarrow> pyval" where
  "state_at g soul key = get_state_of (d_default g soul no_node) key"

lemma HAM_total: "timely a \<Longrightarrow> timely b \<Longrightarrow> \<exists>h. HAM m a b v w = Inr h"
  by (auto simp: timely_def HAM_def Let_def split: sum.splits)

lemma or_zero_idem [simp]: "or_zero (or_zero v) = or_zero v"
  by (simp add: or_zero_def truth_def)

lemma timely_or_zero [simp]: "timely (or_zero v) = timely v"
  by (simp add: timely_def)

lemma timely_int: "\<bar>t\<bar> < 2 ^ 53 \<Longrightarrow> timely (PInt t)"
  using to_double_int [of t] to_double_int [of 0] by (auto simp: timely_def or_zero_def truth_def to_float_def)

lemma ensure_in_ok:
  assumes "graph_ok g" "d_get g soul = Some n"
  shows "ensure_in soul g = (d_set g soul n, Inr ())"
proof -
  have "node_ok n" using assms by (simp add: graph_ok_def)
  then obtain m st where "n_meta n = Some m" "m_state m = Some st" by (auto simp: node_ok_def split: option.splits)
  with assms(2) show ?thesis by (simp add: ensure_in_def ensure_state_def)
qed

lemma node_ok_simps [simp]: "node_ok (new_node soul)" "node_ok (set_prop key v n) = node_ok n" "node_ok (set_state key st n) = node_ok n"
  by (auto simp: node_ok_def new_node_def set_prop_def set_state_def split: option.splits)

lemma graph_ok_set: "graph_ok g \<Longrightarrow> node_ok n \<Longrightarrow> graph_ok (d_set g soul n)"
  by (simp add: graph_ok_def)

lemma node_ok_default: "graph_ok g \<Longrightarrow> node_ok (d_default g soul (new_node soul))"
  by (auto simp: d_default_def graph_ok_def split: option.split)

lemma put_ok:
  assumes "graph_ok g"
  shows "\<exists>g'. ensure_in soul (put_value soul key v g) = (g', Inr ()) \<and> graph_ok (put_state soul key st g')
    \<and> value_at (put_state soul key st g') s k = (if s = soul \<and> k = key then Some v else value_at g s k)
    \<and> state_at (put_state soul key st g') s k = (if s = soul \<and> k = key then st else state_at g s k)"
proof -
  let ?n = "set_prop key v (d_default g soul (new_node soul))"
  have n: "node_ok ?n" using node_ok_default [OF assms] by simp
  have g1: "graph_ok (put_value soul key v g)" "d_get (put_value soul key v g) soul = Some ?n"
    using graph_ok_set [OF assms n] by (simp_all add: put_value_def)
  let ?g = "d_set (put_value soul key v g) soul ?n"
  have 1: "ensure_in soul (put_value soul key v g) = (?g, Inr ())" by (rule ensure_in_ok [OF g1])
  have 2: "put_state soul key st ?g = d_set ?g soul (set_state key st ?n)" by (simp add: put_state_def)
  have "graph_ok (put_state soul key st ?g)" unfolding 2 using graph_ok_set [OF graph_ok_set [OF g1(1) n]] n by simp
  moreover have "value_at (put_state soul key st ?g) s k = (if s = soul \<and> k = key then Some v else value_at g s k)"
    unfolding 2 by (auto simp: value_at_def put_value_def set_state_def set_prop_def d_default_def new_node_def split: option.splits)
  moreover have "state_at (put_state soul key st ?g) s k = (if s = soul \<and> k = key then st else state_at g s k)"
    unfolding 2 using n assms
    by (auto simp: state_at_def put_value_def set_state_def set_prop_def d_default_def new_node_def no_node_def get_state_of_def node_ok_def graph_ok_def
      split: option.splits)
  ultimately show ?thesis using 1 by blast
qed

lemma mix_step_run:
  assumes "graph_ok g" "graph_ok diff" "timely (get_state_of node key)" "timely (state_at g soul key)"
  shows "\<exists>g' diff'. mix_step m soul node (key, v) (g, diff) = ((g', diff'), Inr ()) \<and> graph_ok g' \<and> graph_ok diff'
    \<and> (\<forall>s k. value_at g' s k = (if s = soul \<and> k = key then Some v else value_at g s k))
    \<and> (\<forall>s k. state_at g' s k = (if s = soul \<and> k = key then or_zero (get_state_of node key) else state_at g s k))"
proof -
  let ?st = "or_zero (get_state_of node key)"
  obtain h where h: "HAM m ?st (or_zero (state_at g soul key)) v
      (d_default (n_props (d_default g soul no_node)) key (PInt 0)) = Inr h"
    using HAM_total [of ?st "or_zero (state_at g soul key)" m v] assms(3,4) by auto
  obtain g2 where g2: "ensure_in soul (put_value soul key v g) = (g2, Inr ())" using put_ok [OF assms(1)] by blast
  obtain d2 where d2: "ensure_in soul (put_value soul key v diff) = (d2, Inr ())" using put_ok [OF assms(2)] by blast
  have "mix_step m soul node (key, v) (g, diff) = ((put_state soul key ?st g2, put_state soul key ?st d2), Inr ())"
    using h g2 d2 by (simp add: mix_step_def Let_def state_at_def)
  moreover have "graph_ok (put_state soul key ?st g2)" "graph_ok (put_state soul key ?st d2)"
    using put_ok [OF assms(1), of soul key v ?st] g2 put_ok [OF assms(2), of soul key v ?st] d2 by auto
  moreover have "\<forall>s k. value_at (put_state soul key ?st g2) s k = (if s = soul \<and> k = key then Some v else value_at g s k)"
    using put_ok [OF assms(1), of soul key v ?st] g2 by auto
  moreover have "\<forall>s k. state_at (put_state soul key ?st g2) s k = (if s = soul \<and> k = key then ?st else state_at g s k)"
    using put_ok [OF assms(1), of soul key v ?st] g2 by auto
  ultimately show ?thesis by blast
qed

definition one_value :: "string \<Rightarrow> string \<Rightarrow> pyval \<Rightarrow> pyval \<Rightarrow> graph" where
  \<comment> \<open>the change of one value, with its time\<close>
  "one_value soul key v t = [(soul, \<lparr>n_meta = Some \<lparr>m_soul = Some (PStr soul), m_state = Some [(key, t)]\<rparr>, n_soul = None, n_props = [(key, v)]\<rparr>)]"

lemma one_value_mix:
  assumes "graph_ok g" "timely t" "timely (state_at g soul key)"
  shows "\<exists>diff. snd (ham_mix m (one_value soul key v t) g) = Inr diff"
    "graph_ok (fst (ham_mix m (one_value soul key v t) g))"
    "value_at (fst (ham_mix m (one_value soul key v t) g)) s k = (if s = soul \<and> k = key then Some v else value_at g s k)"
    "state_at (fst (ham_mix m (one_value soul key v t) g)) soul key = or_zero t"
proof -
  let ?node = "\<lparr>n_meta = Some \<lparr>m_soul = Some (PStr soul), m_state = Some [(key, t)]\<rparr>, n_soul = None, n_props = [(key, v)]\<rparr>"
  have e: "graph_ok []" by (simp add: graph_ok_def)
  have t: "get_state_of ?node key = t" by (simp add: get_state_of_def d_default_def)
  obtain g' diff' where r: "mix_step m soul ?node (key, v) (g, []) = ((g', diff'), Inr ())" "graph_ok g'"
    "\<forall>s k. value_at g' s k = (if s = soul \<and> k = key then Some v else value_at g s k)"
    "state_at g' soul key = or_zero t"
    using mix_step_run [OF assms(1) e, of ?node key soul m v] assms(2,3) t by auto
  have "ham_mix m (one_value soul key v t) g = (g', Inr diff')"
    by (simp add: ham_mix_def one_value_def ebind_app r(1))
  with r(2-4) show "\<exists>diff. snd (ham_mix m (one_value soul key v t) g) = Inr diff"
    "graph_ok (fst (ham_mix m (one_value soul key v t) g))"
    "value_at (fst (ham_mix m (one_value soul key v t) g)) s k = (if s = soul \<and> k = key then Some v else value_at g s k)"
    "state_at (fst (ham_mix m (one_value soul key v t) g)) soul key = or_zero t"
    by simp_all
qed

definition mix2 :: "int \<Rightarrow> graph \<Rightarrow> graph \<Rightarrow> graph \<Rightarrow> graph" where
  "mix2 machine a b g = fst (ham_mix machine b (fst (ham_mix machine a g)))"

text \<open>Mixing does not look at the decision: of two changes of one value, the one that is mixed last stays, whatever their
  times are. Two replicas that receive them in different orders end with different graphs.\<close>

theorem replicas_diverge:
  assumes "graph_ok g" "timely t1" "timely t2" "timely (state_at g soul key)" "v1 \<noteq> v2"
  shows "value_at (mix2 m (one_value soul key v1 t1) (one_value soul key v2 t2) g) soul key = Some v2
    \<and> value_at (mix2 m (one_value soul key v2 t2) (one_value soul key v1 t1) g) soul key = Some v1
    \<and> mix2 m (one_value soul key v1 t1) (one_value soul key v2 t2) g \<noteq> mix2 m (one_value soul key v2 t2) (one_value soul key v1 t1) g"
proof -
  have last: "value_at (mix2 m (one_value soul key v t) (one_value soul key w u) g) soul key = Some w" if "timely t" "timely u" for v w t u
    unfolding mix2_def using one_value_mix [OF assms(1) that(1) assms(4)] that by (subst one_value_mix(3)) simp_all
  have "mix2 m (one_value soul key v1 t1) (one_value soul key v2 t2) g \<noteq> mix2 m (one_value soul key v2 t2) (one_value soul key v1 t1) g"
    using last [OF assms(2,3), of v1 v2] last [OF assms(3,2), of v2 v1] assms(5) by (metis option.inject)
  with last [OF assms(2,3)] last [OF assms(3,2)] show ?thesis by simp
qed

theorem ham_table_witness: "HAM 10 (PInt 7) (PInt 5) (PStr ''new'') (PStr ''old'') = Inr InvalidData"
  using ham_table [of 7 5 10] by simp

theorem replicas_diverge_witness:
  "mix2 9 (one_value ''a'' ''k'' (PStr ''x'') (PInt 1)) (one_value ''a'' ''k'' (PStr ''y'') (PInt 2)) []
   \<noteq> mix2 9 (one_value ''a'' ''k'' (PStr ''y'') (PInt 2)) (one_value ''a'' ''k'' (PStr ''x'') (PInt 1)) []"
proof -
  have g: "graph_ok []" by (simp add: graph_ok_def)
  have t: "timely (PInt 1)" "timely (PInt 2)" "timely (state_at [] ''a'' ''k'')"
    by (simp_all add: timely_int state_at_def d_default_def no_node_def get_state_of_def)
  from replicas_diverge [OF g t, of "PStr ''x''" "PStr ''y''" 9] show ?thesis by simp
qed

end
