(* ===== verification/Config.thy ===== *)
theory Config
  imports PyVal
begin

text \<open>
  The flat configuration files of the installer (\<^verbatim>\<open>install/threesdk/InstallTools.py\<close>, class \<^verbatim>\<open>Tools\<close>): one
  \<^verbatim>\<open>KEY = value\<close> per line, written by \<^verbatim>\<open>config_save\<close> and read by \<^verbatim>\<open>config_load\<close>, and the text helpers \<^verbatim>\<open>bool\<close> and
  \<^verbatim>\<open>text_strip_to_ascii_dense\<close>. A file is None when it does not exist. The variant that goes through an executor reads
  and writes the same text with shell commands.
\<close>

section \<open>Text helpers\<close>

abbreviation nl :: char where "nl \<equiv> CHR ''\<newline>''"
abbreviation cret :: char where "cret \<equiv> CHR 0x0D"
abbreviation squote :: char where "squote \<equiv> CHR 0x27"
abbreviation dquote :: char where "dquote \<equiv> CHR 0x22"
abbreviation underscore :: char where "underscore \<equiv> CHR ''_''"

definition tools_bool :: "pyval \<Rightarrow> bool" where
  "tools_bool v = (if \<not> truth v then False else strip (lower (py_str v)) \<in> {''true'', ''1'', ''yes''})"

definition dense_char :: "char \<Rightarrow> char" where
  "dense_char c = (if c \<in> set (''-/'' @ [CHR 0x5C] @ ''= ;!+()'') then underscore else c)"

definition dense_ok :: "char \<Rightarrow> bool" where
  "dense_ok c = (c \<in> set ''._'' \<or> (47 < ccode c \<and> ccode c < 58) \<or> (96 < ccode c \<and> ccode c < 123))"

function collapse :: "string \<Rightarrow> string \<Rightarrow> string \<Rightarrow> string" where
  \<comment> \<open>\<^verbatim>\<open>while p in s: s = s.replace(p, r)\<close>\<close>
  "collapse p r s = (if length r < length p \<and> str_in p s then collapse p r (replace_str p r s) else s)"
  by pat_completeness auto

lemma replace_shorter: "p \<noteq> [] \<Longrightarrow> length r < length p \<Longrightarrow> length (replace_str p r s) \<le> length s
    \<and> (str_in p s \<longrightarrow> length (replace_str p r s) < length s)"
proof (induction p r s rule: replace_str.induct)
  case (2 p r c cs)
  show ?case
  proof (cases "starts_with p (c # cs)")
    case True
    then obtain t where t: "c # cs = p @ t" by (auto simp: starts_with_iff)
    then have d: "drop (length p) (c # cs) = t" by (simp only: t) simp
    have "length (replace_str p r t) \<le> length t" using 2(1) [OF conjI [OF 2(3) True] 2(3,4)] d by simp
    moreover have "replace_str p r (c # cs) = r @ replace_str p r t" using d True 2(3) by simp
    moreover have "length (c # cs) = length p + length t" using arg_cong [OF t, of length] by simp
    ultimately show ?thesis using 2(4) by simp
  next
    case False
    with 2 show ?thesis by auto
  qed
qed auto

termination collapse
  by (relation "measure (\<lambda>(p, r, s). length s)") (simp, metis (no_types, lifting) case_prod_conv in_measure length_0_conv not_less_zero replace_shorter)

declare collapse.simps [simp del]

definition squeeze :: "string \<Rightarrow> string" where
  "squeeze s = collapse ''__'' ''_'' s"

definition text_strip_to_ascii_dense :: "string \<Rightarrow> string" where
  "text_strip_to_ascii_dense t0 =
     (let t = remove_char (CHR '' '') (remove_char (CHR 0x09) (remove_char nl (lower t0)));
          res = filter dense_ok (map dense_char t)
      in rstrip_chars ''_'' (squeeze res))"

section \<open>Reading\<close>

definition strip_quotes :: "string \<Rightarrow> string" where
  "strip_quotes s = strip (strip_chars [dquote] (strip (strip_chars [squote] (strip s))))"

definition cfg_value :: "string \<Rightarrow> pyval" where
  "cfg_value v0 = (let v = strip_quotes v0 in
     if lower v \<in> {''false'', ''n'', ''no''} then PBool False
     else if lower v \<in> {''true'', ''y'', ''yes''} then PBool True
     else if has_char (CHR ''['') v then
       PList (map (PStr \<circ> strip_quotes)
         (filter (\<lambda>i. strip i \<noteq> []) (split_char (CHR '','') (strip_chars '']'' (strip_chars ''['' v)))))
     else (case py_int v of None \<Rightarrow> PStr v | Some i \<Rightarrow> PInt i))"

type_synonym cfg = "(string \<times> pyval) list"

definition cfg_line :: "bool \<Rightarrow> cfg \<Rightarrow> string \<Rightarrow> cfg res" where
  "cfg_line keys_lower d l =
     (if strip l = [] then Inr d
      else if starts_with ''#'' l then Inr d
      else (case split_first (CHR ''='') l of
          None \<Rightarrow> Inl E_Input
        | Some (k, v) \<Rightarrow>
            (let v' = (case split_first (CHR ''#'') v of None \<Rightarrow> v | Some (a, b) \<Rightarrow> a);
                 key = upper (strip k);
                 key' = (if keys_lower then lower key else key)
             in Inr (d_set d key' (cfg_value v')))))"

definition config_parse :: "bool \<Rightarrow> string \<Rightarrow> cfg res" where
  "config_parse keys_lower t = rfold (cfg_line keys_lower) [] (lines t)"

fun newlines_from :: "bool \<Rightarrow> string \<Rightarrow> string" where
  \<comment> \<open>the flag: the character before was a carriage return\<close>
  "newlines_from b [] = []"
| "newlines_from b (c # cs) =
     (if c = cret then nl # newlines_from True cs
      else if c = nl \<and> b then newlines_from False cs else c # newlines_from False cs)"

definition newlines :: "string \<Rightarrow> string" where
  \<comment> \<open>reading a file as text turns every end of line into a newline\<close>
  "newlines t = newlines_from False t"

section \<open>Writing\<close>

definition cfg_item :: "pyval \<Rightarrow> string res" where
  \<comment> \<open>\<^verbatim>\<open>"'%s'," % item\<close>: a tuple is the argument list of the format\<close>
  "cfg_item v = (case v of
       PTuple l \<Rightarrow> (case l of [x] \<Rightarrow> Inr (squote # py_str x @ [squote, CHR '','']) | _ \<Rightarrow> Inl P_TypeError)
     | _ \<Rightarrow> Inr (squote # py_str v @ [squote, CHR '','']))"

definition cfg_text :: "pyval \<Rightarrow> string res" where
  "cfg_text v = (case v of
       PList l \<Rightarrow> rbind (rmap cfg_item l) (\<lambda>is. Inr (rstrip_chars '','' (''['' @ concat is) @ '']''))
     | PStr s \<Rightarrow> Inr (squote # s @ [squote])
     | _ \<Rightarrow> Inr (py_str v))"

definition cfg_out_line :: "bool \<Rightarrow> string \<times> pyval \<Rightarrow> string res" where
  "cfg_out_line up kv = rbind (cfg_text (snd kv))
     (\<lambda>t. Inr ((if up then upper (fst kv) else fst kv) @ '' = '' @ t @ [nl]))"

definition config_text :: "bool \<Rightarrow> cfg \<Rightarrow> string res" where
  "config_text up d = rbind (rmap (cfg_out_line up) d) (\<lambda>ls. Inr (concat ls))"

definition config_save :: "bool \<Rightarrow> cfg \<Rightarrow> string option \<Rightarrow> string option res" where
  \<comment> \<open>the new content of the file\<close>
  "config_save up d file = rbind (config_text up d) (\<lambda>t. Inr (Some t))"

definition config_load :: "string option \<Rightarrow> bool \<Rightarrow> string \<Rightarrow> bool \<Rightarrow> (cfg \<times> string option) res" where
  \<comment> \<open>the content of the file, \<^verbatim>\<open>if_not_exist_create\<close>, \<^verbatim>\<open>content\<close>, \<^verbatim>\<open>keys_lower\<close>; the dictionary and the file after it\<close>
  "config_load file create content keys_lower =
     (if content = [] then
        (case file of
           None \<Rightarrow> if create then rbind (config_save True [] file) (\<lambda>f. Inr ([], f)) else Inr ([], file)
         | Some t \<Rightarrow> rbind (config_parse keys_lower (newlines t)) (\<lambda>d. Inr (d, file)))
      else rbind (config_parse keys_lower content) (\<lambda>d. Inr (d, file)))"

section \<open>Reading back what was written\<close>

definition bare :: "char \<Rightarrow> bool" where
  \<comment> \<open>what the reader strips around a value\<close>
  "bare c = (is_space c \<or> c = squote \<or> c = dquote)"

definition cfg_plain :: "string \<Rightarrow> bool" where
  "cfg_plain s = (stripped bare s \<and> nl \<notin> set s \<and> cret \<notin> set s \<and> CHR ''#'' \<notin> set s)"

definition cfg_words :: "string set" where
  "cfg_words = {''false'', ''n'', ''no'', ''true'', ''y'', ''yes''}"

fun cfg_val_ok :: "pyval \<Rightarrow> bool" where
  \<comment> \<open>the values the format can hold: integers, booleans, plain text that does not look like another value, lists of plain
      text\<close>
  "cfg_val_ok (PInt i) = True"
| "cfg_val_ok (PBool b) = True"
| "cfg_val_ok (PStr s) = (cfg_plain s \<and> lower s \<notin> cfg_words \<and> CHR ''['' \<notin> set s \<and> py_int s = None)"
| "cfg_val_ok (PList l) = list_all (\<lambda>i. case i of PStr s \<Rightarrow> cfg_plain s \<and> CHR '','' \<notin> set s | _ \<Rightarrow> False) l"
| "cfg_val_ok _ = False"

definition cfg_key_ok :: "string \<Rightarrow> bool" where
  "cfg_key_ok k = (stripped is_space k \<and> CHR ''='' \<notin> set k \<and> nl \<notin> set k \<and> cret \<notin> set k \<and> \<not> starts_with ''#'' k)"

lemma strip_by_wrap: "p c \<Longrightarrow> strip_by p (c # s @ [c]) = strip_by p s"
  by (cases "list_all p s")
     (auto simp: strip_by_def lstrip_by_def rstrip_by_def dropWhile_append list_all_iff dropWhile_eq_Nil_conv
      dest: set_dropWhileD)

lemma strip_by_Cons: "p c \<Longrightarrow> strip_by p (c # s) = strip_by p s"
  by (simp add: strip_by_def lstrip_by_def)

lemma strip_by_ends: "s \<noteq> [] \<Longrightarrow> \<not> p (hd s) \<Longrightarrow> \<not> p (last s) \<Longrightarrow> strip_by p s = s"
  by (rule strip_by_id) (simp add: stripped_def)

lemma not_space [simp]: "\<not> is_space squote" "\<not> is_space dquote" "\<not> is_space (CHR ''['')" "\<not> is_space (CHR '']'')"
  "is_space (CHR '' '')"
  by (simp_all add: is_space_def ccode_def)

lemma strip_sub: "stripped bare s \<Longrightarrow> (\<And>c. p c \<Longrightarrow> bare c) \<Longrightarrow> strip_by p s = s"
  by (rule strip_by_id) (auto simp: stripped_def)

lemma strip_quotes_id: "stripped bare s \<Longrightarrow> strip_quotes s = s"
  by (simp add: strip_quotes_def strip_sub bare_def)

lemma strip_quotes_quoted: "stripped bare s \<Longrightarrow> strip_quotes (squote # s @ [squote]) = s"
proof -
  assume s: "stripped bare s"
  have a: "strip (squote # s @ [squote]) = squote # s @ [squote]" by (rule strip_by_ends) auto
  have b: "strip_chars [squote] (squote # s @ [squote]) = s"
    using strip_by_wrap [of "\<lambda>c. c \<in> set [squote]" squote s] strip_sub [OF s, of "\<lambda>c. c \<in> set [squote]"]
    by (simp add: bare_def)
  show ?thesis unfolding strip_quotes_def a b using s by (simp add: strip_sub bare_def)
qed

lemma strip_quotes_space: "strip_quotes (CHR '' '' # s) = strip_quotes s"
  by (simp add: strip_quotes_def strip_by_Cons)

definition quoted :: "string \<Rightarrow> string" where
  "quoted s = squote # s @ [squote]"

lemma quoted_ends: "quoted s \<noteq> []" "hd (quoted s) = squote" "last (quoted s) = squote"
  by (simp_all add: quoted_def)

lemma join_quoted_ends: "ss \<noteq> [] \<Longrightarrow> join '','' (map quoted ss) \<noteq> [] \<and> hd (join '','' (map quoted ss)) = squote
    \<and> last (join '','' (map quoted ss)) = squote"
proof (induction ss)
  case (Cons s ss)
  then show ?case by (cases ss) (auto simp: quoted_ends join_Cons)
qed simp

lemma concat_items: "ss \<noteq> [] \<Longrightarrow> concat (map (\<lambda>s. quoted s @ '','') ss) = join '','' (map quoted ss) @ '',''"
proof (induction ss)
  case (Cons s ss)
  then show ?case by (cases "ss = []") (auto simp: join_Cons)
qed simp

definition list_text :: "string list \<Rightarrow> string" where
  "list_text ss = CHR ''['' # join '','' (map quoted ss) @ '']''"

lemma cfg_text_list:
  "list_all is_str l \<Longrightarrow> cfg_text (PList l) = Inr (list_text (map py_str l))"
proof -
  assume l: "list_all is_str l"
  have "rmap cfg_item l = Inr (map (\<lambda>v. quoted (py_str v) @ '','') l)"
    by (rule rmap_all) (use l in \<open>auto simp: list_all_iff is_str_def cfg_item_def quoted_def split: pyval.splits\<close>)
  moreover have "rstrip_chars '','' (CHR ''['' # concat (map (\<lambda>s. quoted s @ '','') ss)) = CHR ''['' # join '','' (map quoted ss)"
    for ss
  proof (cases "ss = []")
    case False
    then show ?thesis
      using join_quoted_ends [OF False] unfolding concat_items [OF False] rstrip_by_def
      by (simp add: dropWhile_append1 dropWhile_id_hd hd_rev)
  qed (simp add: rstrip_by_def)
  from this [of "map py_str l"] have "rstrip_chars '','' (CHR ''['' # concat (map (\<lambda>v. quoted (py_str v) @ '','') l))
      = CHR ''['' # join '','' (map quoted (map py_str l))" by (simp add: comp_def)
  ultimately show ?thesis by (simp add: cfg_text_def list_text_def)
qed

lemma list_text_inside: "strip_chars '']'' (strip_chars ''['' (list_text ss)) = join '','' (map quoted ss)"
proof (cases "ss = []")
  case True
  then show ?thesis by (simp add: list_text_def strip_by_def lstrip_by_def rstrip_by_def)
next
  case False
  note e = join_quoted_ends [OF False]
  have a: "strip_chars ''['' (list_text ss) = join '','' (map quoted ss) @ '']''"
    unfolding list_text_def by (subst strip_by_Cons) (auto intro!: strip_by_ends simp: e hd_append)
  have b: "dropWhile (\<lambda>c. c \<in> set '']'') (join '','' (map quoted ss) @ '']'') = join '','' (map quoted ss) @ '']''"
    by (rule dropWhile_id_hd) (use e in \<open>auto simp: hd_append\<close>)
  have c: "dropWhile (\<lambda>c. c \<in> set '']'') (rev (join '','' (map quoted ss))) = rev (join '','' (map quoted ss))"
    by (rule dropWhile_id_hd) (use e in \<open>auto simp: hd_rev\<close>)
  show ?thesis unfolding a using b c by (simp add: strip_by_def lstrip_by_def rstrip_by_def)
qed

lemma cfg_value_list:
  assumes "\<And>s. s \<in> set ss \<Longrightarrow> stripped bare s \<and> CHR '','' \<notin> set s"
  shows "cfg_value (list_text ss) = PList (map PStr ss)"
proof -
  have ne: "list_text ss \<noteq> []" and h: "hd (list_text ss) = CHR ''[''" "last (list_text ss) = CHR '']''"
    by (simp_all add: list_text_def)
  have "stripped bare (list_text ss)" using ne h by (simp add: stripped_def bare_def is_space_def ccode_def)
  then have v: "strip_quotes (list_text ss) = list_text ss" by (rule strip_quotes_id)
  have w: "lower (list_text ss) \<notin> {''false'', ''n'', ''no''}" "lower (list_text ss) \<notin> {''true'', ''y'', ''yes''}"
    by (simp_all add: list_text_def lower_def lower_char_def is_upper_def ccode_def)
  have "split_char (CHR '','') (join '','' (map quoted ss)) = map quoted ss" if "ss \<noteq> []"
    by (rule split_join) (use that assms in \<open>auto simp: quoted_def\<close>)
  then have "filter (\<lambda>i. strip i \<noteq> []) (split_char (CHR '','') (join '','' (map quoted ss))) = map quoted ss"
    by (cases "ss = []") (auto simp: filter_id_conv strip_by_eq_Nil_iff quoted_def)
  moreover have "map (PStr \<circ> strip_quotes) (map quoted ss) = map PStr ss"
    using assms by (auto simp: quoted_def strip_quotes_quoted)
  moreover have "has_char (CHR ''['') (list_text ss)" by (simp add: list_text_def)
  ultimately show ?thesis using w by (simp add: cfg_value_def v Let_def list_text_inside [simplified])
qed

lemma cfg_value_str: "cfg_val_ok (PStr s) \<Longrightarrow> cfg_value (quoted s) = PStr s"
  by (simp add: cfg_value_def quoted_def strip_quotes_quoted cfg_plain_def cfg_words_def)

lemma cfg_value_int: "cfg_value (int_str i) = PInt i"
proof -
  have c: "is_digit c \<or> c = CHR ''-''" if "c \<in> set (int_str i)" for c using int_str_chars [OF that] .
  have nb: "\<not> bare c" if "c \<in> set (int_str i)" for c
    using c [OF that] ccode_cmp_space(3) [of c] is_digit_not [of c] by (auto simp: bare_def is_space_def ccode_def)
  have "stripped bare (int_str i)" using nb by (simp add: stripped_def)
  then have v: "strip_quotes (int_str i) = int_str i" by (rule strip_quotes_id)
  have "lower_char c = c" if "c \<in> set (int_str i)" for c
    using c [OF that] by (auto simp: lower_char_def is_upper_def is_digit_def ccode_def)
  then have l: "lower (int_str i) = int_str i" by (simp add: lower_def map_idI)
  have h: "is_digit (hd (int_str i)) \<or> hd (int_str i) = CHR ''-''" using c [OF hd_in_set [OF int_str_ne]] .
  have w: "int_str i \<notin> {''false'', ''n'', ''no''}" "int_str i \<notin> {''true'', ''y'', ''yes''}"
    using h by (auto simp: is_digit_def ccode_def)
  have "\<not> has_char (CHR ''['') (int_str i)" using c [of "CHR ''[''"] by (auto simp: is_digit_def ccode_def)
  with w show ?thesis by (simp add: cfg_value_def v l Let_def)
qed

lemma cfg_value_bool: "cfg_value (py_str (PBool b)) = PBool b"
proof -
  have "cfg_value ''True'' = PBool True" by code_simp
  moreover have "cfg_value ''False'' = PBool False" by code_simp
  ultimately show ?thesis by (cases b) (simp_all add: py_str_def)
qed

lemma cfg_value_space: "cfg_value (CHR '' '' # s) = cfg_value s"
  by (simp add: cfg_value_def strip_quotes_space)

definition cfg_clean_text :: "string \<Rightarrow> bool" where
  "cfg_clean_text t = (nl \<notin> set t \<and> cret \<notin> set t \<and> CHR ''#'' \<notin> set t)"

lemma notin_join: "x \<notin> set sep \<Longrightarrow> (\<And>w. w \<in> set ws \<Longrightarrow> x \<notin> set w) \<Longrightarrow> x \<notin> set (join sep ws)"
proof (induction ws)
  case (Cons w ws)
  then show ?case by (cases ws) (auto simp: join_Cons)
qed simp

lemma notin_list_text:
  assumes "x \<notin> {squote, CHR '','', CHR ''['', CHR '']''}" "\<And>s. s \<in> set ss \<Longrightarrow> x \<notin> set s"
  shows "x \<notin> set (list_text ss)"
proof -
  have "x \<notin> set w" if "w \<in> set (map quoted ss)" for w using that assms by (auto simp: quoted_def)
  moreover have "x \<notin> set '',''" using assms(1) by simp
  ultimately have "x \<notin> set (join '','' (map quoted ss))" using notin_join by metis
  then show ?thesis using assms(1) by (simp add: list_text_def)
qed

lemma map_PStr_py_str: "list_all is_str l \<Longrightarrow> map PStr (map py_str l) = l"
  by (induction l) (auto simp: is_str_def py_str_def split: pyval.splits)

lemma cfg_text_ok:
  assumes "cfg_val_ok v"
  shows "\<exists>t. cfg_text v = Inr t \<and> cfg_value (CHR '' '' # t) = v \<and> cfg_clean_text t"
proof (cases v)
  case (PInt i)
  have "cfg_clean_text (int_str i)" unfolding cfg_clean_text_def
    using int_str_chars [of nl i] int_str_chars [of cret i] int_str_chars [of "CHR ''#''" i]
    by (auto simp: is_digit_def ccode_def)
  with PInt show ?thesis by (auto simp: cfg_text_def py_str_def cfg_value_space cfg_value_int)
next
  case (PBool b)
  have "cfg_clean_text (py_str (PBool b))" by (cases b) (simp_all add: py_str_def cfg_clean_text_def)
  with PBool show ?thesis
    using cfg_value_bool [of b] cfg_value_space [of "py_str (PBool b)"] by (auto simp: cfg_text_def)
next
  case (PStr s)
  with assms show ?thesis
    using cfg_value_str [of s] by (auto simp: cfg_text_def cfg_value_space quoted_def cfg_clean_text_def cfg_plain_def)
next
  case (PList l)
  define ss where "ss = map py_str l"
  have strs: "list_all is_str l" and plain: "list_all (\<lambda>s. cfg_plain s \<and> CHR '','' \<notin> set s) ss"
    using assms unfolding PList ss_def
    by (induction l) (auto simp: is_str_def py_str_def simp del: set_simps split: pyval.splits)
  have l: "l = map PStr ss" using map_PStr_py_str [OF strs] by (simp add: ss_def)
  have ok: "cfg_plain s \<and> CHR '','' \<notin> set s" if "s \<in> set ss" for s using plain that by (simp add: list_all_iff)
  have "cfg_value (list_text ss) = PList (map PStr ss)"
    by (rule cfg_value_list) (use ok in \<open>auto simp: cfg_plain_def\<close>)
  moreover have "cfg_clean_text (list_text ss)"
    unfolding cfg_clean_text_def using ok by (intro conjI notin_list_text) (simp_all add: cfg_plain_def)
  moreover have "cfg_text (PList l) = Inr (list_text ss)" using cfg_text_list [OF strs] by (simp only: ss_def)
  ultimately have "cfg_text v = Inr (list_text ss) \<and> cfg_value (CHR '' '' # list_text ss) = v \<and> cfg_clean_text (list_text ss)"
    unfolding PList cfg_value_space l [symmetric] by blast
  then show ?thesis by blast
qed (use assms in auto)

definition load_key :: "bool \<Rightarrow> string \<Rightarrow> string" where
  "load_key kl k = (if kl then lower k else upper k)"

lemma lower_upper_char [simp]: "lower_char (upper_char c) = lower_char c"
  by (cases "is_lower c") (auto simp: lower_char_def upper_char_def is_upper_def is_lower_def ccode_char_of ccode_def)

lemma upper_lower_char [simp]: "upper_char (lower_char c) = upper_char c"
  by (cases "is_upper c") (auto simp: lower_char_def upper_char_def is_upper_def is_lower_def ccode_char_of ccode_def)

lemma lower_upper [simp]: "lower (upper k) = lower k" "upper (lower k) = upper k"
  by (simp_all add: lower_def upper_def)

lemma load_key_inj: "load_key kl k = load_key kl k' \<longleftrightarrow> upper k = upper k'"
  unfolding load_key_def by (metis lower_upper)

lemma upper_char_iff:
  assumes "\<not> is_lower c" "\<not> is_upper c"
  shows "upper_char d = c \<longleftrightarrow> d = c"
proof
  assume "upper_char d = c"
  then show "d = c" using assms is_upper_upper_char [of d] by (cases "is_lower d") (auto simp: upper_char_def)
qed (use assms in \<open>auto simp: upper_char_def\<close>)

lemma cfg_punct: "\<not> is_lower (CHR ''='')" "\<not> is_upper (CHR ''='')" "\<not> is_lower nl" "\<not> is_upper nl"
  "\<not> is_lower cret" "\<not> is_upper cret" "\<not> is_lower (CHR ''#'')" "\<not> is_upper (CHR ''#'')"
  by (simp_all add: is_lower_def is_upper_def ccode_def)

lemma upper_mem:
  assumes "\<not> is_lower c" "\<not> is_upper c"
  shows "c \<in> set (upper k) \<longleftrightarrow> c \<in> set k"
proof -
  have "c \<in> set (upper k) \<longleftrightarrow> (\<exists>d\<in>set k. upper_char d = c)" by (auto simp: upper_def)
  also have "\<dots> \<longleftrightarrow> (\<exists>d\<in>set k. d = c)" by (simp only: upper_char_iff [OF assms])
  finally show ?thesis by simp
qed

lemma starts_with_char: "starts_with [c] s \<longleftrightarrow> s \<noteq> [] \<and> hd s = c"
  by (cases s) auto

lemma cfg_key_upper:
  assumes "cfg_key_ok k"
  shows "cfg_key_ok (upper k)"
proof -
  have "stripped is_space (upper k)" using assms unfolding cfg_key_ok_def stripped_def upper_def
    by (cases "k = []") (simp_all add: hd_map last_map)
  moreover have "starts_with ''#'' (upper k) \<longleftrightarrow> starts_with ''#'' k"
    using upper_char_iff [OF cfg_punct(7,8)] unfolding starts_with_char upper_def by (cases k) simp_all
  ultimately show ?thesis using assms by (simp add: cfg_key_ok_def upper_mem cfg_punct)
qed

lemma strip_snoc: "p c \<Longrightarrow> strip_by p (s @ [c]) = strip_by p s"
  by (cases "list_all p s")
     (auto simp: strip_by_def lstrip_by_def rstrip_by_def dropWhile_append list_all_iff dropWhile_eq_Nil_conv
       dest: set_dropWhileD)

lemma cfg_line_written:
  assumes k: "cfg_key_ok k" and v: "cfg_val_ok v" and t: "cfg_text v = Inr t"
  shows "cfg_line kl d (k @ '' = '' @ t) = Inr (d_set d (load_key kl k) v)"
    "nl \<notin> set (k @ '' = '' @ t)" "cret \<notin> set (k @ '' = '' @ t)"
proof -
  from cfg_text_ok [OF v] t have val: "cfg_value (CHR '' '' # t) = v" and c: "cfg_clean_text t" by auto
  have "strip (k @ '' = '' @ t) \<noteq> []" by (simp add: strip_by_eq_Nil_iff is_space_def ccode_def)
  moreover have "\<not> starts_with ''#'' (k @ '' = '' @ t)"
    using k by (cases k) (auto simp: cfg_key_ok_def)
  moreover have "split_first (CHR ''='') (k @ '' = '' @ t) = Some (k @ '' '', CHR '' '' # t)"
    unfolding split_first_Some using k by (auto simp: cfg_key_ok_def)
  moreover have "split_first (CHR ''#'') (CHR '' '' # t) = None"
    unfolding split_first_None using c by (simp add: cfg_clean_text_def)
  moreover have "strip (k @ '' '') = k"
    using k strip_snoc [of is_space "CHR '' ''" k] by (simp add: cfg_key_ok_def strip_by_id)
  ultimately show "cfg_line kl d (k @ '' = '' @ t) = Inr (d_set d (load_key kl k) v)"
    using val by (simp add: cfg_line_def load_key_def)
  show "nl \<notin> set (k @ '' = '' @ t)" "cret \<notin> set (k @ '' = '' @ t)"
    using k c by (auto simp: cfg_key_ok_def cfg_clean_text_def)
qed

lemma d_set_new: "k \<notin> set (d_keys d) \<Longrightarrow> d_set d k v = d @ [(k, v)]"
  by (induction d k v rule: d_set.induct) auto

lemma newlines_id: "cret \<notin> set t \<Longrightarrow> newlines t = t"
proof -
  have "cret \<notin> set t \<Longrightarrow> newlines_from False t = t" by (induction t) auto
  then show "cret \<notin> set t \<Longrightarrow> newlines t = t" by (simp add: newlines_def)
qed

lemma lines_concat: "list_all (\<lambda>l. nl \<notin> set l) ls \<Longrightarrow> lines (concat (map (\<lambda>l. l @ [nl]) ls)) = ls @ [[]]"
  by (induction ls) (auto simp: split_char_append)

definition cfg_ok :: "cfg \<Rightarrow> bool" where
  "cfg_ok d = (list_all (\<lambda>(k, v). cfg_key_ok k \<and> cfg_val_ok v) d \<and> distinct (map (\<lambda>(k, v). upper k) d))"

definition loaded :: "bool \<Rightarrow> cfg \<Rightarrow> cfg" where
  "loaded kl d = map (\<lambda>(k, v). (load_key kl k, v)) d"

definition out_key :: "bool \<Rightarrow> string \<Rightarrow> string" where
  "out_key up k = (if up then upper k else k)"

lemma load_out_key [simp]: "load_key kl (out_key up k) = load_key kl k"
  by (simp add: load_key_def out_key_def)

lemma out_key_ok: "cfg_key_ok k \<Longrightarrow> cfg_key_ok (out_key up k)"
  by (simp add: out_key_def cfg_key_upper)

lemma config_text_lines:
  assumes "list_all (\<lambda>(k, v). cfg_key_ok k \<and> cfg_val_ok v) d"
  shows "\<exists>ls. config_text up d = Inr (concat (map (\<lambda>l. l @ [nl]) ls)) \<and> list_all (\<lambda>l. nl \<notin> set l \<and> cret \<notin> set l) ls
    \<and> (\<forall>e. distinct (d_keys e @ map (\<lambda>(k, v). load_key kl k) d) \<longrightarrow> rfold (cfg_line kl) e ls = Inr (e @ loaded kl d))"
  using assms
proof (induction d)
  case Nil
  show ?case by (rule exI [of _ "[]"]) (simp add: config_text_def loaded_def)
next
  case (Cons kv d)
  obtain k v where kv: "kv = (k, v)" by (cases kv)
  with Cons obtain ls where ls: "config_text up d = Inr (concat (map (\<lambda>l. l @ [nl]) ls))"
    "list_all (\<lambda>l. nl \<notin> set l \<and> cret \<notin> set l) ls"
    "\<And>e. distinct (d_keys e @ map (\<lambda>(k, v). load_key kl k) d) \<Longrightarrow> rfold (cfg_line kl) e ls = Inr (e @ loaded kl d)"
    by auto
  from Cons.prems kv have k: "cfg_key_ok k" "cfg_val_ok v" by auto
  then obtain t where t: "cfg_text v = Inr t" using cfg_text_ok by blast
  note w = cfg_line_written [OF out_key_ok [OF k(1), of up] k(2) t]
  let ?l = "out_key up k @ '' = '' @ t"
  have "config_text up (kv # d) = Inr (concat (map (\<lambda>l. l @ [nl]) (?l # ls)))"
    using ls(1) t kv by (auto simp: config_text_def cfg_out_line_def rbind_eq_Inr out_key_def)
  moreover have "list_all (\<lambda>l. nl \<notin> set l \<and> cret \<notin> set l) (?l # ls)" using ls(2) w(2,3) by simp
  moreover have "rfold (cfg_line kl) e (?l # ls) = Inr (e @ loaded kl (kv # d))"
    if "distinct (d_keys e @ map (\<lambda>(k, v). load_key kl k) (kv # d))" for e
    using that ls(3) [of "e @ [(load_key kl k, v)]"] w(1) kv
    by (simp add: d_set_new loaded_def d_keys_def)
  ultimately show ?case by blast
qed

lemma config_parse_text:
  assumes "cfg_ok d"
  shows "\<exists>t. config_text up d = Inr t \<and> cret \<notin> set t \<and> config_parse kl t = Inr (loaded kl d)"
proof -
  from assms have ok: "list_all (\<lambda>(k, v). cfg_key_ok k \<and> cfg_val_ok v) d" and di: "distinct (map (\<lambda>(k, v). upper k) d)"
    by (simp_all add: cfg_ok_def)
  from di have "distinct (map (\<lambda>(k, v). load_key kl k) d)"
    by (induction d) (auto simp: load_key_inj image_iff split: prod.splits)
  with config_text_lines [OF ok, of up kl] obtain ls where ls: "config_text up d = Inr (concat (map (\<lambda>l. l @ [nl]) ls))"
    "list_all (\<lambda>l. nl \<notin> set l \<and> cret \<notin> set l) ls" "rfold (cfg_line kl) [] ls = Inr (loaded kl d)" by force
  have "list_all (\<lambda>l. nl \<notin> set l) ls" using ls(2) by (simp add: list_all_iff)
  moreover have "cfg_line kl e [] = Inr e" for e by (simp add: cfg_line_def)
  moreover have "rfold (cfg_line kl) e (ls @ [[]]) = rfold (cfg_line kl) e ls" for e
    using calculation(2) by (induction ls arbitrary: e) (auto simp: rbind_def split: sum.splits)
  ultimately have "config_parse kl (concat (map (\<lambda>l. l @ [nl]) ls)) = Inr (loaded kl d)"
    using ls(3) by (simp add: config_parse_def lines_concat)
  moreover have "cret \<notin> set (concat (map (\<lambda>l. l @ [nl]) ls))" using ls(2) by (auto simp: list_all_iff)
  ultimately show ?thesis using ls(1) by blast
qed

text \<open>C25: A configuration whose keys and values fit the format is read back from its file exactly as it was saved: the same
  keys in the same order, in upper case (lower case when the reader asks for it), with the same values.\<close>

theorem config_roundtrip:
  assumes "cfg_ok d"
  shows "\<exists>t. config_save up d file = Inr (Some t) \<and> config_load (Some t) create [] kl = Inr (loaded kl d, Some t)"
  using config_parse_text [OF assms, of up kl] by (auto simp: config_save_def config_load_def newlines_id)

theorem config_roundtrip_witness:
  "\<exists>t. config_save True [(''debug'', PBool False), (''level'', PInt 15), (''dirs'', PList [PStr ''a b'', PStr ''c[1]''])] None = Inr (Some t)
    \<and> config_load (Some t) False [] False = Inr ([(''DEBUG'', PBool False), (''LEVEL'', PInt 15), (''DIRS'', PList [PStr ''a b'', PStr ''c[1]''])], Some t)"
proof -
  let ?d = "[(''debug'', PBool False), (''level'', PInt 15), (''dirs'', PList [PStr ''a b'', PStr ''c[1]''])]"
  have ok: "cfg_ok ?d" by code_simp
  have "loaded False ?d = [(''DEBUG'', PBool False), (''LEVEL'', PInt 15), (''DIRS'', PList [PStr ''a b'', PStr ''c[1]''])]" by code_simp
  then show ?thesis using config_roundtrip [OF ok, of True None False False] by metis
qed

text \<open>Text that reads as another value comes back changed, and a line without an equals sign stops the reader.\<close>

lemma config_roundtrip_fails:
  "config_load (case config_save True [(''X'', PStr ''no'')] None of Inr f \<Rightarrow> f | Inl _ \<Rightarrow> None) False [] False
     = Inr ([(''X'', PBool False)], Some [CHR ''X'', CHR '' '', CHR ''='', CHR '' '', squote, CHR ''n'', CHR ''o'', squote, nl])"
  "config_load (Some ''abc'') False [] False = Inl E_Input"
  by code_simp+

section \<open>Dense text\<close>

lemma collapse_none: "length r < length p \<Longrightarrow> \<not> str_in p (collapse p r s)"
proof (induction p r s rule: collapse.induct)
  case (1 p r s)
  then show ?case by (cases "str_in p s") (simp_all add: collapse.simps [of p r s])
qed

lemma squeeze_none: "\<not> str_in ''__'' (squeeze s)"
  by (simp add: squeeze_def collapse_none)

lemma set_replace: "set (replace_str p r s) \<subseteq> set r \<union> set s"
proof (induction p r s rule: replace_str.induct)
  case (2 p r c cs)
  show ?case
  proof (cases "p \<noteq> [] \<and> starts_with p (c # cs)")
    case True
    have "set (drop (length p) (c # cs)) \<subseteq> set (c # cs)" by (rule set_drop_subset)
    with 2(1) [OF True] True show ?thesis by (auto simp del: set_simps)
  next
    case False
    with 2(2) [OF False] show ?thesis by auto
  qed
qed simp

lemma set_collapse: "set (collapse p r s) \<subseteq> set r \<union> set s"
proof (induction p r s rule: collapse.induct)
  case (1 p r s)
  then show ?case using set_replace [of p r s]
    by (cases "length r < length p \<and> str_in p s") (auto simp: collapse.simps [of p r s])
qed

lemma set_squeeze: "set (squeeze s) \<subseteq> insert underscore (set s)"
  using set_collapse [of "''__''" "''_''" s] by (simp add: squeeze_def)

definition dense :: "string \<Rightarrow> bool" where
  "dense s = (list_all dense_ok s \<and> \<not> str_in ''__'' s \<and> (s = [] \<or> last s \<noteq> underscore))"

lemma str_in_prefix: "str_in p s \<Longrightarrow> str_in p (s @ t)"
  unfolding str_in_iff by (metis append_assoc)

lemma dense_text: "dense (text_strip_to_ascii_dense t)"
proof -
  define r where "r = filter dense_ok (map dense_char (remove_char (CHR '' '') (remove_char (CHR 0x09) (remove_char nl (lower t)))))"
  have out: "text_strip_to_ascii_dense t = rstrip_chars ''_'' (squeeze r)"
    by (simp add: text_strip_to_ascii_dense_def r_def Let_def)
  have "list_all dense_ok (squeeze r)" using set_squeeze [of r] by (auto simp: list_all_iff r_def dense_ok_def)
  moreover obtain u where u: "squeeze r = rstrip_chars ''_'' (squeeze r) @ u"
    using takeWhile_dropWhile_id [of "\<lambda>c. c \<in> set ''_''" "rev (squeeze r)"] unfolding rstrip_by_def
    by (metis rev_append rev_rev_ident)
  ultimately have "list_all dense_ok (rstrip_chars ''_'' (squeeze r))" by (metis list_all_append)
  moreover have "\<not> str_in ''__'' (rstrip_chars ''_'' (squeeze r))"
    using squeeze_none [of r] str_in_prefix [of "''__''" "rstrip_chars ''_'' (squeeze r)" u] u by metis
  ultimately show ?thesis using rstrip_by_last [of "\<lambda>c. c \<in> set ''_''" "squeeze r"] by (auto simp: dense_def out)
qed

lemma dense_ok_fixed:
  assumes "dense_ok c"
  shows "lower_char c = c" "dense_char c = c" "c \<noteq> nl" "c \<noteq> CHR 0x09" "c \<noteq> CHR '' ''"
  using assms by (auto simp: dense_ok_def dense_char_def lower_char_def is_upper_def ccode_def)

lemma dense_fixed:
  assumes "dense s"
  shows "text_strip_to_ascii_dense s = s"
proof -
  from assms have c: "\<And>c. c \<in> set s \<Longrightarrow> dense_ok c" by (simp add: dense_def list_all_iff)
  have "lower s = s" "map dense_char s = s" using c dense_ok_fixed by (auto simp: lower_def map_idI)
  moreover have "remove_char x s = s" if "x \<in> {nl, CHR 0x09, CHR '' ''}" for x
    using that c dense_ok_fixed by (intro remove_char_id) blast
  moreover have "filter dense_ok s = s" using c by (simp add: filter_id_conv)
  moreover have "squeeze s = s" using assms by (simp add: squeeze_def collapse.simps [of _ _ s] dense_def)
  moreover have "rstrip_chars ''_'' s = s"
    using assms by (cases "s = []") (auto simp: rstrip_by_def dense_def dropWhile_id_hd hd_rev)
  ultimately show ?thesis by (simp add: text_strip_to_ascii_dense_def)
qed

text \<open>The dense form of a text only holds lower case letters, digits, dots and single underscores that are not last,
  and taking the dense form again changes nothing.\<close>

theorem ascii_dense_normal_form:
  "dense (text_strip_to_ascii_dense t)
   \<and> text_strip_to_ascii_dense (text_strip_to_ascii_dense t) = text_strip_to_ascii_dense t"
  by (simp add: dense_text dense_fixed)

end
