(* ===== verification/EnvState.thy ===== *)
theory EnvState
  imports Config
begin

text \<open>
  The environment object of the installer (\<^verbatim>\<open>install/threesdk/InstallTools.py\<close>, class \<^verbatim>\<open>MyEnv_\<close>): the directories it works
  in, the defaults of its configuration, the secret, and the record of the steps already done (\<^verbatim>\<open>state_*\<close>), which is kept
  in memory and in the file \<^verbatim>\<open>jumpscale_done.toml\<close>. The host (platform, environment variables, existing directories) and
  the md5 digest are arguments.
\<close>

section \<open>Directories\<close>

record host =
  h_windows :: bool
  h_linux :: bool   \<comment> \<open>\<^verbatim>\<open>"linux" in sys.platform\<close>\<close>
  h_root :: bool    \<comment> \<open>\<^verbatim>\<open>whoami\<close> succeeds and says root\<close>
  h_env :: "(string \<times> string) list"
  h_dirs :: "string list"

definition dir_ensure :: "string \<Rightarrow> host \<Rightarrow> host" where
  "dir_ensure p h = (if p \<in> set (h_dirs h) then h else h\<lparr>h_dirs := p # h_dirs h\<rparr>)"

definition homedir_get :: "host \<Rightarrow> string res" where
  "homedir_get h =
     (if h_windows h then (case d_get (h_env h) ''USERPROFILE'' of None \<Rightarrow> Inl P_KeyError | Some d \<Rightarrow> Inr d)
      else (case d_get (h_env h) ''HOMEDIR'' of Some d \<Rightarrow> Inr d
        | None \<Rightarrow> (case d_get (h_env h) ''HOME'' of Some d \<Rightarrow> Inr d | None \<Rightarrow> Inr ''/root'')))"

definition sep_dir :: "host \<Rightarrow> string \<Rightarrow> string \<Rightarrow> string" where
  "sep_dir h base name = base @ (if h_windows h then [CHR 0x5C] else ''/'') @ name"

definition basedir_get :: "bool \<Rightarrow> host \<Rightarrow> (string \<times> host) res" where
  "basedir_get ro h =
     (if ro then Inr (''/tmp/jumpscale'', h)
      else if h_linux h \<and> (''/sandbox'' \<in> set (h_dirs h) \<or> h_root h) then Inr (''/sandbox'', dir_ensure ''/sandbox'' h)
      else rbind (homedir_get h) (\<lambda>home. Inr (sep_dir h home ''sandbox'', dir_ensure (sep_dir h home ''sandbox'') h)))"

definition subdir_get :: "string \<Rightarrow> bool \<Rightarrow> host \<Rightarrow> (string \<times> host) res" where
  \<comment> \<open>the identity (\<^verbatim>\<open>myhost\<close>) and code directories\<close>
  "subdir_get name ro h = rbind (basedir_get ro h) (\<lambda>(b, h'). Inr (sep_dir h b name, h'))"

definition cfgdir_get :: "bool \<Rightarrow> host \<Rightarrow> (string \<times> host) res" where
  "cfgdir_get ro h = (if ro then Inr (''/tmp/jumpscale/cfg'', h) else subdir_get ''cfg'' ro h)"

section \<open>Configuration defaults\<close>

definition default_to :: "string \<Rightarrow> pyval \<Rightarrow> cfg \<Rightarrow> cfg" where
  \<comment> \<open>\<^verbatim>\<open>if k not in config: config[k] = v\<close>\<close>
  "default_to k v c = (if d_has c k then c else d_set c k v)"

definition default_by :: "string \<Rightarrow> (host \<Rightarrow> (string \<times> host) res) \<Rightarrow> cfg \<times> host \<Rightarrow> (cfg \<times> host) res" where
  "default_by k f ch = (if d_has (fst ch) k then Inr ch
     else rbind (f (snd ch)) (\<lambda>(p, h'). Inr (d_set (fst ch) k (PStr p), h')))"

definition cfg_base :: "cfg \<Rightarrow> string" where
  \<comment> \<open>\<^verbatim>\<open>"%s" % config["DIR_BASE"]\<close>\<close>
  "cfg_base c = (case d_get c ''DIR_BASE'' of Some v \<Rightarrow> py_str v | None \<Rightarrow> [])"

definition above50 :: "pyval \<Rightarrow> bool res" where
  \<comment> \<open>\<^verbatim>\<open>v > 50\<close>\<close>
  "above50 v = (case v of
       PFloat f \<Rightarrow> Inr (case f of Fin q \<Rightarrow> 50 < q | Inf neg \<Rightarrow> \<not> neg | NaN \<Rightarrow> False)
     | _ \<Rightarrow> (case num_of v of Some q \<Rightarrow> Inr (50 < q) | None \<Rightarrow> Inl P_TypeError))"

definition clamp_level :: "cfg \<Rightarrow> cfg res" where
  "clamp_level c = (case d_get c ''LOGGER_LEVEL'' of
       Some v \<Rightarrow> rbind (above50 v) (\<lambda>b. Inr (if b then d_set c ''LOGGER_LEVEL'' (PInt 50) else c))
     | None \<Rightarrow> Inl P_KeyError)"

definition defaults1 :: "cfg \<Rightarrow> cfg" where
  "defaults1 c = foldl (\<lambda>c (k, v). default_to k v c) c
     [(''READONLY'', PBool False), (''DEBUG'', PBool False), (''DEBUGGER'', PStr ''pudb''),
      (''LOGGER_INCLUDE'', PList [PStr ''*'']), (''LOGGER_EXCLUDE'', PList [PStr ''sal.fs'']), (''LOGGER_LEVEL'', PInt 15)]"

definition defaults2 :: "bool \<Rightarrow> cfg \<Rightarrow> cfg" where
  "defaults2 ro c0 =
     (let c1 = default_to ''LOGGER_PANEL_NRLINES'' (PInt 0) c0;
          c2 = (if ro then d_set c1 ''DIR_TEMP'' (PStr ''/tmp/jumpscale_installer'') else c1)
      in default_to ''DIR_VAR'' (PStr (cfg_base c2 @ ''/var'')) (default_to ''DIR_TEMP'' (PStr ''/tmp/jumpscale'') c2))"

definition late_defaults :: "string \<Rightarrow> cfg" where
  "late_defaults base =
     [(''DIR_BIN'', PStr (base @ ''/bin'')), (''DIR_APPS'', PStr (base @ ''/apps'')),
      (''EXPLORER_ADDR'', PStr ''explorer.testnet.grid.tf''), (''THREEBOT_DOMAIN'', PStr ''3bot.testnet.grid.tf''),
      (''THREEBOT_CONNECT'', PBool True), (''MAX_MSGPACKS_LOGS_COUNT'', PInt 50), (''SSH_KEY_DEFAULT'', PStr []),
      (''SSH_AGENT'', PBool True), (''USEGIT'', PBool True)]"

definition defaults3 :: "cfg \<Rightarrow> cfg" where
  "defaults3 c = foldl (\<lambda>c (k, v). default_to k v c) c (late_defaults (cfg_base c))"

definition config_default_get :: "bool \<Rightarrow> host \<Rightarrow> cfg \<Rightarrow> (cfg \<times> host) res" where
  "config_default_get ro h c =
     rbind (default_by ''DIR_BASE'' (basedir_get ro) (c, h)) (\<lambda>ch1.
     rbind (default_by ''DIR_HOME'' (\<lambda>h. rbind (homedir_get h) (\<lambda>p. Inr (p, h))) ch1) (\<lambda>ch2.
     rbind (default_by ''DIR_CFG'' (cfgdir_get ro) ch2) (\<lambda>ch3.
     rbind (default_by ''DIR_IDENTITY'' (subdir_get ''myhost'' ro) ch3) (\<lambda>(c4, h4).
     rbind (clamp_level (defaults1 c4)) (\<lambda>c5.
     rbind (default_by ''DIR_CODE'' (subdir_get ''code'' ro) (defaults2 ro c5, h4)) (\<lambda>(c6, h6).
     Inr (defaults3 c6, h6)))))))"

section \<open>The record of steps\<close>

record env =
  e_readonly :: bool
  e_state :: cfg
  e_file :: "string option"  \<comment> \<open>the content of \<^verbatim>\<open>jumpscale_done.toml\<close>\<close>

definition cut_at :: "char \<Rightarrow> string \<Rightarrow> string" where
  \<comment> \<open>\<^verbatim>\<open>s.split(c, 1)[0]\<close>\<close>
  "cut_at c s = (case split_first c s of None \<Rightarrow> s | Some (a, b) \<Rightarrow> a)"

definition key_get :: "string \<Rightarrow> string" where
  "key_get k = upper (cut_at (CHR '' '') (cut_at (CHR ''<'') (cut_at (CHR ''>'') (cut_at (CHR ''='') k))))"

definition state_load :: "env \<Rightarrow> env res" where
  "state_load e =
     (if e_file e \<noteq> None then rbind (config_load (e_file e) False [] False) (\<lambda>(d, f). Inr (e\<lparr>e_state := d, e_file := f\<rparr>))
      else if \<not> e_readonly e then rbind (config_load (e_file e) True [] False) (\<lambda>(d, f). Inr (e\<lparr>e_state := d, e_file := f\<rparr>))
      else Inr (e\<lparr>e_state := []\<rparr>))"

definition state_save :: "env \<Rightarrow> env res" where
  "state_save e = (if e_readonly e then Inr e
     else rbind (config_save True (e_state e) (e_file e)) (\<lambda>f. Inr (e\<lparr>e_file := f\<rparr>)))"

definition state_get :: "env \<Rightarrow> string \<Rightarrow> bool" where
  "state_get e k = d_has (e_state e) (key_get k)"

definition state_set :: "env \<Rightarrow> string \<Rightarrow> env res" where
  "state_set e k = (if e_readonly e then Inr e
     else state_save (e\<lparr>e_state := d_set (e_state e) (key_get k) (PBool True)\<rparr>))"

definition state_delete :: "env \<Rightarrow> string \<Rightarrow> env res" where
  "state_delete e k = (if e_readonly e then Inr e
     else if d_has (e_state e) (key_get k) then state_save (e\<lparr>e_state := d_pop (e_state e) (key_get k)\<rparr>)
     else Inr e)"

definition states_delete :: "env \<Rightarrow> string \<Rightarrow> env res" where
  "states_delete e p = (if e_readonly e then Inr e
     else rfold (\<lambda>e k. if starts_with (upper p) k then state_save (e\<lparr>e_state := d_pop (e_state e) k\<rparr>) else Inr e)
       e (d_keys (e_state e)))"

definition state_reset :: "env \<Rightarrow> env res" where
  "state_reset e = state_load (e\<lparr>e_file := None\<rparr>)"

text \<open>The operations a caller makes, and the start of a new process, which reads the file again.\<close>

datatype env_op = OSet string | ODelete string | ODeletes string | OGet string | OReset | ORestart

fun env_step :: "env \<Rightarrow> env_op \<Rightarrow> (env \<times> bool option) res" where
  "env_step e (OSet k) = rbind (state_set e k) (\<lambda>e'. Inr (e', None))"
| "env_step e (ODelete k) = rbind (state_delete e k) (\<lambda>e'. Inr (e', None))"
| "env_step e (ODeletes p) = rbind (states_delete e p) (\<lambda>e'. Inr (e', None))"
| "env_step e (OGet k) = Inr (e, Some (state_get e k))"
| "env_step e OReset = rbind (state_reset e) (\<lambda>e'. Inr (e', None))"
| "env_step e ORestart = rbind (state_load (e\<lparr>e_state := []\<rparr>)) (\<lambda>e'. Inr (e', None))"

fun env_run :: "env \<Rightarrow> env_op list \<Rightarrow> (env \<times> bool option list) res" where
  "env_run e [] = Inr (e, [])"
| "env_run e (p # ps) = rbind (env_step e p) (\<lambda>(e', r). rbind (env_run e' ps) (\<lambda>(e'', rs). Inr (e'', r # rs)))"

text \<open>What it promises: a set of names.\<close>

fun spec_step :: "string set \<Rightarrow> env_op \<Rightarrow> string set \<times> bool option" where
  "spec_step S (OSet k) = (insert (key_get k) S, None)"
| "spec_step S (ODelete k) = (S - {key_get k}, None)"
| "spec_step S (ODeletes p) = ({k \<in> S. \<not> starts_with (upper p) k}, None)"
| "spec_step S (OGet k) = (S, Some (key_get k \<in> S))"
| "spec_step S OReset = ({}, None)"
| "spec_step S ORestart = (S, None)"

fun spec_run :: "string set \<Rightarrow> env_op list \<Rightarrow> string set \<times> bool option list" where
  "spec_run S [] = (S, [])"
| "spec_run S (p # ps) = (let (S', r) = spec_step S p; (S'', rs) = spec_run S' ps in (S'', r # rs))"

section \<open>The secret\<close>

record secretst =
  s_secret :: pyval          \<comment> \<open>\<^verbatim>\<open>_secret\<close>, PNone at first\<close>
  s_db :: "bytes option option"  \<comment> \<open>the key in redis; None when there is no redis\<close>

definition secret_bytes :: "pyval \<Rightarrow> bytes res" where
  "secret_bytes v = (case v of PBytes b \<Rightarrow> Inr b | PStr s \<Rightarrow> Inr (encode s) | _ \<Rightarrow> Inl P_AttributeError)"

definition secret_format :: "(bytes \<Rightarrow> string) \<Rightarrow> pyval \<Rightarrow> pyval res" where
  "secret_format md5hex v = rbind (secret_bytes v) (\<lambda>b. Inr (if length b \<noteq> 32 then PStr (md5hex b) else PBytes b))"

definition to_db :: "pyval \<Rightarrow> bytes" where
  \<comment> \<open>what redis keeps of a str or bytes\<close>
  "to_db v = (case v of PBytes b \<Rightarrow> b | PStr s \<Rightarrow> encode s | _ \<Rightarrow> [])"

definition secret_set :: "(bytes \<Rightarrow> string) \<Rightarrow> pyval \<Rightarrow> secretst \<Rightarrow> secretst res" where
  \<comment> \<open>with a secret given; asking for one is input of the user\<close>
  "secret_set md5hex v st = rbind (secret_format md5hex v) (\<lambda>s.
     Inr (st\<lparr>s_db := (case s_db st of None \<Rightarrow> None | Some _ \<Rightarrow> Some (Some (to_db s))), s_secret := s\<rparr>))"

definition secret_text :: "pyval \<Rightarrow> pyval res" where
  "secret_text v = (case v of PBytes b \<Rightarrow> (case decode b of None \<Rightarrow> Inl P_UnicodeError | Some s \<Rightarrow> Inr (PStr s)) | _ \<Rightarrow> Inr v)"

definition pylen :: "pyval \<Rightarrow> nat" where
  "pylen v = (case v of PStr s \<Rightarrow> length s | PBytes b \<Rightarrow> length b | _ \<Rightarrow> 0)"

definition secret_get :: "(bytes \<Rightarrow> string) \<Rightarrow> string option \<Rightarrow> pyval \<Rightarrow> secretst \<Rightarrow> (pyval \<times> secretst) res" where
  \<comment> \<open>the variable \<^verbatim>\<open>JSXSECRET\<close>, and the answer of the user when a secret has to be asked for\<close>
  "secret_get md5hex var answer st =
     (if truth (s_secret st) then Inr (s_secret st, st)
      else
       (let fromdb = (case s_db st of Some (Some b) \<Rightarrow> PBytes b | _ \<Rightarrow> PNone) in
        rbind (case var of None \<Rightarrow> Inr fromdb | Some x \<Rightarrow> secret_format md5hex (PStr (strip x))) (\<lambda>s.
        rbind (if truth s then Inr (s, st)
               else rbind (py_assert (pylen answer < 32)) (\<lambda>_. rbind (secret_set md5hex answer st) (\<lambda>st'. Inr (s_secret st', st'))))
          (\<lambda>(s, st'). rbind (secret_text s) (\<lambda>t.
            rbind (py_assert (pylen t = 32)) (\<lambda>_. Inr (t, st'\<lparr>s_secret := t\<rparr>)))))))"

section \<open>The record of steps refines a set of names\<close>

definition state_ok :: "cfg \<Rightarrow> bool" where
  "state_ok d = (distinct (d_keys d) \<and> list_all (\<lambda>(k, v). cfg_key_ok k \<and> upper k = k \<and> cfg_val_ok v) d)"

definition env_inv :: "env \<Rightarrow> bool" where
  \<comment> \<open>reading the file gives the record in memory\<close>
  "env_inv e = (\<not> e_readonly e \<and> state_ok (e_state e)
     \<and> (\<exists>t. e_file e = Some t \<and> config_parse False (newlines t) = Inr (e_state e)))"

definition env_names :: "env \<Rightarrow> string set" where
  "env_names e = set (d_keys (e_state e))"

fun op_ok :: "env_op \<Rightarrow> bool" where
  "op_ok (OSet k) = cfg_key_ok (key_get k)" | "op_ok _ = True"

lemma upper_key_get [simp]: "upper (key_get k) = key_get k"
  by (simp add: key_get_def)

lemma loaded_upper: "list_all (\<lambda>(k, v). upper k = k) d \<Longrightarrow> loaded False d = d"
  by (induction d) (auto simp: loaded_def load_key_def)

lemma state_ok_cfg: "state_ok d \<Longrightarrow> cfg_ok d \<and> loaded False d = d"
proof -
  assume d: "state_ok d"
  then have u: "list_all (\<lambda>(k, v). upper k = k) d" and "list_all (\<lambda>(k, v). cfg_key_ok k \<and> cfg_val_ok v) d"
    by (auto simp: state_ok_def list_all_iff)
  moreover from u have "map (\<lambda>(k, v). upper k) d = d_keys d" by (induction d) (auto simp: d_keys_def)
  ultimately show ?thesis using d loaded_upper [OF u] by (simp add: cfg_ok_def state_ok_def)
qed

lemma state_ok_set: "state_ok d \<Longrightarrow> cfg_key_ok k \<Longrightarrow> upper k = k \<Longrightarrow> cfg_val_ok v \<Longrightarrow> state_ok (d_set d k v)"
proof -
  assume a: "state_ok d" "cfg_key_ok k" "upper k = k" "cfg_val_ok v"
  have "list_all (\<lambda>(k, v). cfg_key_ok k \<and> upper k = k \<and> cfg_val_ok v) (d_set d k v)"
    using a unfolding state_ok_def by (induction d k v rule: d_set.induct) auto
  with a show ?thesis by (auto simp: state_ok_def)
qed

lemma state_ok_pop: "state_ok d \<Longrightarrow> state_ok (d_pop d k)"
  by (auto simp: state_ok_def list_all_iff d_pop_def [of d k]) (metis d_pop_def distinct_d_pop)

lemma state_save_inv:
  assumes "\<not> e_readonly e" "state_ok (e_state e)"
  shows "\<exists>e'. state_save e = Inr e' \<and> e_state e' = e_state e \<and> env_inv e'"
proof -
  from state_ok_cfg [OF assms(2)] config_parse_text [of "e_state e" True False] obtain t
    where "config_text True (e_state e) = Inr t" "cret \<notin> set t" "config_parse False t = Inr (e_state e)" by auto
  then show ?thesis using assms by (auto simp: state_save_def config_save_def env_inv_def newlines_id)
qed

lemma state_load_inv:
  assumes "\<not> e_readonly e"
    and "e_file e = None \<and> S = {} \<or> env_inv (e\<lparr>e_state := d\<rparr>) \<and> env_names (e\<lparr>e_state := d\<rparr>) = S"
  shows "\<exists>e'. state_load e = Inr e' \<and> env_names e' = S \<and> env_inv e'"
  using assms(2)
proof
  assume a: "e_file e = None \<and> S = {}"
  have "config_parse False (newlines []) = Inr []" by code_simp
  with a assms(1) show ?thesis
    by (auto simp: state_load_def config_load_def config_save_def config_text_def env_inv_def state_ok_def env_names_def)
next
  assume a: "env_inv (e\<lparr>e_state := d\<rparr>) \<and> env_names (e\<lparr>e_state := d\<rparr>) = S"
  then show ?thesis
    by (auto simp: state_load_def config_load_def env_inv_def env_names_def)
qed

lemma states_delete_inv:
  assumes "env_inv e"
  shows "\<exists>e'. rfold (\<lambda>e k. if starts_with p k then state_save (e\<lparr>e_state := d_pop (e_state e) k\<rparr>) else Inr e) e ks = Inr e'
    \<and> env_inv e' \<and> env_names e' = env_names e - {k \<in> set ks. starts_with p k}"
  using assms
proof (induction ks arbitrary: e)
  case (Cons k ks)
  show ?case
  proof (cases "starts_with p k")
    case False
    then have "{k' \<in> set (k # ks). starts_with p k'} = {k' \<in> set ks. starts_with p k'}" by auto
    with False Cons show ?thesis by simp
  next
    case True
    have "state_ok (d_pop (e_state e) k)" "\<not> e_readonly e" using Cons.prems(1) by (simp_all add: env_inv_def state_ok_pop)
    with state_save_inv [of "e\<lparr>e_state := d_pop (e_state e) k\<rparr>"] obtain e1
      where e1: "state_save (e\<lparr>e_state := d_pop (e_state e) k\<rparr>) = Inr e1" "e_state e1 = d_pop (e_state e) k" "env_inv e1" by auto
    then have "env_names e1 = env_names e - {k}" by (simp add: env_names_def)
    then have "env_names e1 - {k' \<in> set ks. starts_with p k'} = env_names e - {k' \<in> set (k # ks). starts_with p k'}"
      using True by auto
    with Cons.IH [OF e1(3)] True e1(1) show ?thesis by simp
  qed
qed simp

lemma env_step_refines:
  assumes e: "env_inv e" and ok: "op_ok p"
  shows "\<exists>e' r. env_step e p = Inr (e', r) \<and> env_inv e' \<and> spec_step (env_names e) p = (env_names e', r)"
proof -
  have ro: "\<not> e_readonly e" and st: "state_ok (e_state e)" using e by (simp_all add: env_inv_def)
  have has: "d_has (e_state e) k \<longleftrightarrow> k \<in> env_names e" for k
    using d_get_None_iff [of "e_state e" k] by (simp add: env_names_def)
  show ?thesis
  proof (cases p)
    case (OSet k)
    with st ok have "state_ok (d_set (e_state e) (key_get k) (PBool True))" by (simp add: state_ok_set)
    with ro state_save_inv [of "e\<lparr>e_state := d_set (e_state e) (key_get k) (PBool True)\<rparr>"] obtain e'
      where "state_set e k = Inr e'" "e_state e' = d_set (e_state e) (key_get k) (PBool True)" "env_inv e'"
      by (auto simp: state_set_def)
    with OSet show ?thesis by (auto simp: env_names_def d_keys_set)
  next
    case (ODelete k)
    show ?thesis
    proof (cases "d_has (e_state e) (key_get k)")
      case True
      from st have "state_ok (d_pop (e_state e) (key_get k))" by (rule state_ok_pop)
      with ro state_save_inv [of "e\<lparr>e_state := d_pop (e_state e) (key_get k)\<rparr>"] True obtain e'
        where "state_delete e k = Inr e'" "e_state e' = d_pop (e_state e) (key_get k)" "env_inv e'"
        by (auto simp: state_delete_def)
      with ODelete show ?thesis by (auto simp: env_names_def)
    next
      case False
      with ro e ODelete has [of "key_get k"] show ?thesis by (auto simp: state_delete_def)
    qed
  next
    case (ODeletes q)
    have "env_names e - {k \<in> set (d_keys (e_state e)). starts_with (upper q) k}
        = {k \<in> env_names e. \<not> starts_with (upper q) k}" by (auto simp: env_names_def)
    with states_delete_inv [OF e, of "upper q" "d_keys (e_state e)"] ro ODeletes show ?thesis
      by (auto simp: states_delete_def)
  next
    case (OGet k)
    with e has show ?thesis by (simp add: state_get_def)
  next
    case OReset
    with state_load_inv [of "e\<lparr>e_file := None\<rparr>" "{}"] ro show ?thesis by (auto simp: state_reset_def)
  next
    case ORestart
    with state_load_inv [of "e\<lparr>e_state := []\<rparr>" "env_names e" "e_state e"] ro e show ?thesis by auto
  qed
qed

text \<open>C23: The record of installation steps behaves as a set of names: a sequence of sets, deletes, prefix deletes, queries,
  resets and restarts of the process (which only keep the file) gives the answers of the same operations on a set, and ends
  with the same names, provided the names fit a line of the file.\<close>

theorem env_state_refines:
  assumes "env_inv e" "list_all op_ok ps"
  shows "\<exists>e' rs. env_run e ps = Inr (e', rs) \<and> env_inv e' \<and> spec_run (env_names e) ps = (env_names e', rs)"
  using assms
proof (induction ps arbitrary: e)
  case (Cons p ps)
  then obtain e1 r where "env_step e p = Inr (e1, r)" "env_inv e1" "spec_step (env_names e) p = (env_names e1, r)"
    using env_step_refines [of e p] by auto
  with Cons.IH [of e1] Cons.prems show ?case by auto
qed simp

theorem env_state_refines_witness:
  "\<exists>e'. env_run \<lparr>e_readonly = False, e_state = [], e_file = Some []\<rparr>
     [OSet ''base'', OSet ''pip3'', ORestart, OGet ''Base=1'', ODeletes ''pi'', ORestart, OGet ''pip3''] =
     Inr (e', [None, None, None, Some True, None, None, Some False])"
proof -
  let ?ps = "[OSet ''base'', OSet ''pip3'', ORestart, OGet ''Base=1'', ODeletes ''pi'', ORestart, OGet ''pip3'']"
  let ?e = "\<lparr>e_readonly = False, e_state = [], e_file = Some []\<rparr>"
  have "config_parse False (newlines []) = Inr []" by code_simp
  then have inv: "env_inv ?e" by (simp add: env_inv_def state_ok_def)
  have ok: "list_all op_ok ?ps" by code_simp
  have "snd (spec_run {} ?ps) = [None, None, None, Some True, None, None, Some False]" by code_simp
  moreover have "env_names ?e = {}" by (simp add: env_names_def)
  ultimately show ?thesis using env_state_refines [OF inv ok] by (metis snd_conv)
qed

text \<open>A name that starts with a number sign is forgotten: its line is read as a comment.\<close>

lemma state_comment_lost:
  "rbind (env_run \<lparr>e_readonly = False, e_state = [], e_file = Some []\<rparr> [OSet ''#x'', OGet ''#x'', ORestart, OGet ''#x''])
     (\<lambda>(e, rs). Inr rs) = Inr [None, Some True, None, Some False]"
  by code_simp

section \<open>Defaults\<close>

definition default_names :: "string list" where
  "default_names = [''DIR_BASE'', ''DIR_HOME'', ''DIR_CFG'', ''DIR_IDENTITY'', ''READONLY'', ''DEBUG'', ''DEBUGGER'',
     ''LOGGER_INCLUDE'', ''LOGGER_EXCLUDE'', ''LOGGER_LEVEL'', ''LOGGER_PANEL_NRLINES'', ''DIR_TEMP'', ''DIR_VAR'', ''DIR_CODE'',
     ''DIR_BIN'', ''DIR_APPS'', ''EXPLORER_ADDR'', ''THREEBOT_DOMAIN'', ''THREEBOT_CONNECT'', ''MAX_MSGPACKS_LOGS_COUNT'',
     ''SSH_KEY_DEFAULT'', ''SSH_AGENT'', ''USEGIT'']"

definition forced :: "string set" where
  "forced = {''LOGGER_LEVEL'', ''DIR_TEMP''}"

lemma forced_mem: "''LOGGER_LEVEL'' \<in> forced" "''DIR_TEMP'' \<in> forced"
  by (simp_all add: forced_def)

definition cfg_keeps :: "cfg \<Rightarrow> cfg \<Rightarrow> bool" where
  \<comment> \<open>every key stays, and every value apart from the two the defaults force\<close>
  "cfg_keeps c c' = (\<forall>k. (d_has c k \<longrightarrow> d_has c' k) \<and> (k \<notin> forced \<and> d_has c k \<longrightarrow> d_get c' k = d_get c k))"

lemma keeps_refl: "cfg_keeps c c"
  by (simp add: cfg_keeps_def)

lemma keeps_trans: "cfg_keeps a b \<Longrightarrow> cfg_keeps b c \<Longrightarrow> cfg_keeps a c"
  unfolding cfg_keeps_def by metis

lemma keeps_has: "cfg_keeps a b \<Longrightarrow> d_has a k \<Longrightarrow> d_has b k"
  by (simp add: cfg_keeps_def)

lemma d_set_same: "d_get d k = Some v \<Longrightarrow> d_set d k v = d"
  by (induction d) (auto split: if_splits)

lemma default_to_has: "d_has (default_to k v c) k"
  by (simp add: default_to_def)

lemma default_to_keeps: "cfg_keeps c (default_to k v c)"
  by (auto simp: default_to_def cfg_keeps_def)

lemma default_to_id [simp]: "d_has c k \<Longrightarrow> default_to k v c = c"
  by (simp add: default_to_def)

lemma default_by_keeps:
  "default_by k f (c, h) = Inr (c', h') \<Longrightarrow> cfg_keeps c c' \<and> d_has c' k"
  by (auto simp: default_by_def rbind_eq_Inr cfg_keeps_def split: if_splits)

lemma default_by_id: "d_has c k \<Longrightarrow> default_by k f (c, h) = Inr (c, h)"
  by (simp add: default_by_def)

lemma defaults_fold:
  "cfg_keeps c (foldl (\<lambda>c (k, v). default_to k v c) c l) \<and> (\<forall>k\<in>fst ` set l. d_has (foldl (\<lambda>c (k, v). default_to k v c) c l) k)"
proof (induction l arbitrary: c)
  case Nil
  then show ?case by (simp add: keeps_refl)
next
  case (Cons kv l)
  obtain k v where kv: "kv = (k, v)" by (cases kv)
  from Cons.IH [of "default_to k v c"] default_to_keeps [of c k v] default_to_has [of k v c] kv show ?case
    by (auto intro: keeps_trans dest: keeps_has)
qed

lemma defaults_fold_id: "\<forall>k\<in>fst ` set l. d_has c k \<Longrightarrow> foldl (\<lambda>c (k, v). default_to k v c) c l = c"
  by (induction l) auto

lemma clamp_key:
  fixes K :: string
  assumes "(case d_get c K of Some v \<Rightarrow> rbind (above50 v) (\<lambda>b. Inr (if b then d_set c K (PInt 50) else c)) | None \<Rightarrow> Inl P_KeyError) = Inr c'"
  shows "\<exists>v. d_get c' K = Some v \<and> above50 v = Inr False \<and> (\<forall>k. d_has c' k = d_has c k \<and> (k \<noteq> K \<longrightarrow> d_get c' k = d_get c k))"
proof -
  from assms obtain v b where v: "d_get c K = Some v" "above50 v = Inr b" "c' = (if b then d_set c K (PInt 50) else c)"
    by (auto simp: rbind_eq_Inr split: option.splits)
  have "above50 (PInt 50) = Inr False" by (simp add: above50_def num_of_def)
  with v show ?thesis by (cases b) auto
qed

lemma clamp_keeps:
  assumes "clamp_level c = Inr c'"
  shows "cfg_keeps c c'" "\<exists>v. d_get c' ''LOGGER_LEVEL'' = Some v \<and> above50 v = Inr False"
proof -
  define K where "K = ''LOGGER_LEVEL''"
  have K: "K \<in> forced" by (simp only: K_def forced_mem)
  note m = clamp_key [OF assms [unfolded clamp_level_def K_def [symmetric]]]
  from m obtain v where v: "d_get c' K = Some v" "above50 v = Inr False" by (elim exE conjE) (rule that)
  from m have o: "d_has c' k = d_has c k" "k \<noteq> K \<Longrightarrow> d_get c' k = d_get c k" for k by (elim exE conjE; simp only: simp_thms)+
  have o': "d_get c' k = d_get c k" if "k \<notin> forced" for k using that K by (intro o(2)) auto
  show "cfg_keeps c c'" unfolding cfg_keeps_def using o(1) o' by simp
  show "\<exists>v. d_get c' ''LOGGER_LEVEL'' = Some v \<and> above50 v = Inr False"
    by (rule exI [of _ v]) (simp only: v K_def [symmetric] simp_thms)
qed

lemma clamp_id: "d_get c ''LOGGER_LEVEL'' = Some v \<Longrightarrow> above50 v = Inr False \<Longrightarrow> clamp_level c = Inr c"
  by (simp only: clamp_level_def option.case rbind_Inr if_False)

lemma default_to_get: "d_has c k \<Longrightarrow> d_get (default_to k' v c) k = d_get c k"
  by (auto simp: default_to_def)

lemma defaults_fold_get: "d_has c k \<Longrightarrow> d_get (foldl (\<lambda>c (k, v). default_to k v c) c l) k = d_get c k"
proof (induction l arbitrary: c)
  case (Cons kv l)
  obtain k' v where kv: "kv = (k', v)" by (cases kv)
  from Cons.prems default_to_keeps have "d_has (default_to k' v c) k" by (rule keeps_has [rotated])
  from Cons.IH [OF this] default_to_get [OF Cons.prems] kv show ?case by simp
qed simp

lemma default_by_get: "default_by k f (c, h) = Inr (c', h') \<Longrightarrow> d_has c k' \<Longrightarrow> d_get c' k' = d_get c k'"
  by (auto simp: default_by_def rbind_eq_Inr split: if_splits)

definition has_forced :: "string \<Rightarrow> pyval \<Rightarrow> bool \<Rightarrow> cfg \<Rightarrow> bool" where
  "has_forced K V ro c = (d_has c K \<and> (ro \<longrightarrow> d_get c K = Some V))"

lemma has_forced_get: "has_forced K V ro c \<Longrightarrow> d_get c' K = d_get c K \<Longrightarrow> has_forced K V ro c'"
  by (simp add: has_forced_def)

lemma has_forced_set: "has_forced K V ro (default_to K W (if ro then d_set c K V else c))"
  by (auto simp: has_forced_def default_to_def)

lemma has_forced_id: "has_forced K V ro c \<Longrightarrow> (if ro then d_set c K V else c) = c"
  by (simp add: has_forced_def d_set_same)

abbreviation temp_of :: "bool \<Rightarrow> cfg \<Rightarrow> bool" where
  "temp_of \<equiv> has_forced ''DIR_TEMP'' (PStr ''/tmp/jumpscale_installer'')"

lemma set_temp_keeps: "K \<in> forced \<Longrightarrow> cfg_keeps c (d_set c K v)"
  by (auto simp: cfg_keeps_def)

lemma level_not_temp: "''LOGGER_LEVEL'' \<noteq> ''DIR_TEMP''"
  by simp

lemma defaults2_facts:
  "cfg_keeps c (defaults2 ro c)" "temp_of ro (defaults2 ro c)" "d_has (defaults2 ro c) ''LOGGER_PANEL_NRLINES''"
  "d_has (defaults2 ro c) ''DIR_VAR''" "d_has c ''LOGGER_LEVEL'' \<Longrightarrow> d_get (defaults2 ro c) ''LOGGER_LEVEL'' = d_get c ''LOGGER_LEVEL''"
proof -
  define c1 where "c1 = default_to ''LOGGER_PANEL_NRLINES'' (PInt 0) c"
  define c2 where "c2 = (if ro then d_set c1 ''DIR_TEMP'' (PStr ''/tmp/jumpscale_installer'') else c1)"
  define c3 where "c3 = default_to ''DIR_TEMP'' (PStr ''/tmp/jumpscale'') c2"
  have out: "defaults2 ro c = default_to ''DIR_VAR'' (PStr (cfg_base c2 @ ''/var'')) c3"
    by (simp only: defaults2_def c1_def c2_def c3_def Let_def)
  have k1: "cfg_keeps c c1" "d_has c1 ''LOGGER_PANEL_NRLINES''" unfolding c1_def by (rule default_to_keeps, rule default_to_has)
  have k2: "cfg_keeps c1 c2" unfolding c2_def by (cases ro) (simp_all only: if_True if_False keeps_refl set_temp_keeps forced_mem)
  have k3: "cfg_keeps c2 c3" "d_has c3 ''DIR_TEMP''" unfolding c3_def by (rule default_to_keeps, rule default_to_has)
  have k4: "cfg_keeps c3 (defaults2 ro c)" "d_has (defaults2 ro c) ''DIR_VAR''" unfolding out by (rule default_to_keeps, rule default_to_has)
  show "cfg_keeps c (defaults2 ro c)" by (rule keeps_trans [OF k1(1) keeps_trans [OF k2 keeps_trans [OF k3(1) k4(1)]]])
  show "d_has (defaults2 ro c) ''DIR_VAR''" by (rule k4(2))
  show "d_has (defaults2 ro c) ''LOGGER_PANEL_NRLINES''"
    by (rule keeps_has [OF k4(1)], rule keeps_has [OF k3(1)], rule keeps_has [OF k2], rule k1(2))
  have "temp_of ro c3" unfolding c3_def c2_def by (rule has_forced_set)
  then show "temp_of ro (defaults2 ro c)" unfolding out by (rule has_forced_get) (rule default_to_get [OF k3(2)])
  assume l: "d_has c ''LOGGER_LEVEL''"
  note l1 = keeps_has [OF k1(1) l] note l2 = keeps_has [OF k2 l1] note l3 = keeps_has [OF k3(1) l2]
  have "d_get (defaults2 ro c) ''LOGGER_LEVEL'' = d_get c3 ''LOGGER_LEVEL''" unfolding out by (rule default_to_get [OF l3])
  also have "\<dots> = d_get c2 ''LOGGER_LEVEL''" unfolding c3_def by (rule default_to_get [OF l2])
  also have "\<dots> = d_get c1 ''LOGGER_LEVEL''" unfolding c2_def
    by (cases ro) (simp_all only: if_True if_False d_get_set level_not_temp level_not_temp [symmetric])
  also have "\<dots> = d_get c ''LOGGER_LEVEL''" unfolding c1_def by (rule default_to_get [OF l])
  finally show "d_get (defaults2 ro c) ''LOGGER_LEVEL'' = d_get c ''LOGGER_LEVEL''" .
qed

lemma defaults2_id:
  assumes "temp_of ro c" "d_has c ''LOGGER_PANEL_NRLINES''" "d_has c ''DIR_VAR''"
  shows "defaults2 ro c = c"
proof -
  have t: "d_has c ''DIR_TEMP''" using assms(1) unfolding has_forced_def by (rule conjunct1)
  show ?thesis
    by (simp only: defaults2_def Let_def default_to_id [OF assms(2)] has_forced_id [OF assms(1)] default_to_id [OF assms(3)]
        default_to_id [OF t])
qed

lemma rbind_eq: "m = Inr x \<Longrightarrow> k x = r \<Longrightarrow> rbind m k = r"
  by simp

text \<open>Filling in the defaults of a configuration keeps every value that was set (apart from a log level above 50 and the
  temporary directory of a read-only environment) and is stable: on its result it changes nothing and touches no directory.\<close>

theorem config_defaults_stable:
  assumes "config_default_get ro h c = Inr (c', h')"
  shows "cfg_keeps c c' \<and> config_default_get ro h2 c' = Inr (c', h2)"
proof -
  from assms obtain c1 h1 c2 h2' c3 h3 c4 h4 c5 c6 where
    s1: "default_by ''DIR_BASE'' (basedir_get ro) (c, h) = Inr (c1, h1)" and
    s2: "default_by ''DIR_HOME'' (\<lambda>h. rbind (homedir_get h) (\<lambda>p. Inr (p, h))) (c1, h1) = Inr (c2, h2')" and
    s3: "default_by ''DIR_CFG'' (cfgdir_get ro) (c2, h2') = Inr (c3, h3)" and
    s4: "default_by ''DIR_IDENTITY'' (subdir_get ''myhost'' ro) (c3, h3) = Inr (c4, h4)" and
    s5: "clamp_level (defaults1 c4) = Inr c5" and
    s6: "default_by ''DIR_CODE'' (subdir_get ''code'' ro) (defaults2 ro c5, h4) = Inr (c6, h')" and
    s7: "c' = defaults3 c6"
    unfolding config_default_get_def by (auto elim!: rbind_InrE split: prod.splits)
  note k1 = default_by_keeps [OF s1, THEN conjunct1] default_by_keeps [OF s1, THEN conjunct2]
  note k2 = default_by_keeps [OF s2, THEN conjunct1] default_by_keeps [OF s2, THEN conjunct2]
  note k3 = default_by_keeps [OF s3, THEN conjunct1] default_by_keeps [OF s3, THEN conjunct2]
  note k4 = default_by_keeps [OF s4, THEN conjunct1] default_by_keeps [OF s4, THEN conjunct2]
  note k6 = default_by_keeps [OF s6, THEN conjunct1] default_by_keeps [OF s6, THEN conjunct2]
  note d1 = defaults_fold [of c4, folded defaults1_def]
  note d2 = defaults2_facts [where ro = ro and c = c5]
  have k7: "cfg_keeps c6 c'" unfolding s7 defaults3_def by (rule defaults_fold [THEN conjunct1])
  have k27: "cfg_keeps (defaults2 ro c5) c'" by (rule keeps_trans [OF k6(1) k7])
  have k57: "cfg_keeps c5 c'" by (rule keeps_trans [OF d2(1) k27])
  have k47: "cfg_keeps c4 c'" unfolding defaults1_def
    by (rule keeps_trans [OF _ keeps_trans [OF clamp_keeps(1) [OF s5] k57]]) (simp only: defaults1_def defaults_fold)
  have k37: "cfg_keeps c3 c'" by (rule keeps_trans [OF k4(1) k47])
  have k17: "cfg_keeps c1 c'" by (rule keeps_trans [OF k2(1) keeps_trans [OF k3(1) k37]])
  have kc: "cfg_keeps c c'" by (rule keeps_trans [OF k1(1) k17])
  have tail: "d_get c' k = d_get (defaults2 ro c5) k" if "d_has (defaults2 ro c5) k" for k
    unfolding s7 defaults3_def
    using defaults_fold_get [OF keeps_has [OF k6(1) that]] default_by_get [OF s6 that] by metis
  have level: "\<exists>v. d_get c' ''LOGGER_LEVEL'' = Some v \<and> above50 v = Inr False"
  proof -
    from clamp_keeps(2) [OF s5] obtain v where v: "d_get c5 ''LOGGER_LEVEL'' = Some v" "above50 v = Inr False" by (elim exE conjE) (rule that)
    have l: "d_has c5 ''LOGGER_LEVEL''" by (simp only: v option.distinct simp_thms)
    have "d_get c' ''LOGGER_LEVEL'' = Some v" by (simp only: tail [OF keeps_has [OF d2(1) l]] d2(5) [OF l] v)
    then show ?thesis using v(2) by (intro exI conjI)
  qed
  have temp: "temp_of ro c'"
    by (rule has_forced_get [OF d2(2)], rule tail) (rule d2(2) [unfolded has_forced_def, THEN conjunct1])
  have all1: "\<forall>k\<in>fst ` set l. d_has c' k"
    if "defaults1 c4 = foldl (\<lambda>c (k, v). default_to k v c) c4 l" for l
    using defaults_fold [of c4 l] that keeps_has [OF keeps_trans [OF clamp_keeps(1) [OF s5] k57]] by simp
  have d1: "defaults1 c' = c'" unfolding defaults1_def by (rule defaults_fold_id) (rule all1, rule defaults1_def)
  have "fst ` set (late_defaults b) = fst ` set (late_defaults b')" for b b' by (simp add: late_defaults_def)
  then have "\<forall>k\<in>fst ` set (late_defaults (cfg_base c')). d_has c' k"
    using defaults_fold [of c6 "late_defaults (cfg_base c6)"] s7 unfolding defaults3_def by metis
  then have d3: "defaults3 c' = c'" unfolding defaults3_def by (rule defaults_fold_id)
  from level obtain v where v: "d_get c' ''LOGGER_LEVEL'' = Some v" "above50 v = Inr False" by (elim exE conjE) (rule that)
  have cl: "clamp_level (defaults1 c') = Inr c'" unfolding d1 by (rule clamp_id [OF v])
  have d2': "defaults2 ro c' = c'"
    by (rule defaults2_id [OF temp keeps_has [OF k27 d2(3)] keeps_has [OF k27 d2(4)]])
  have "config_default_get ro h2 c' = Inr (c', h2)"
    unfolding config_default_get_def default_by_id [OF keeps_has [OF k17 k1(2)]] rbind_Inr
      default_by_id [OF keeps_has [OF keeps_trans [OF k3(1) k37] k2(2)]]
      default_by_id [OF keeps_has [OF k37 k3(2)]] default_by_id [OF keeps_has [OF k47 k4(2)]] prod.case cl d2'
      default_by_id [OF keeps_has [OF k7 k6(2)]] d3 ..
  with kc show ?thesis ..
qed

theorem config_defaults_stable_witness:
  "\<exists>c'. config_default_get False \<lparr>h_windows = False, h_linux = True, h_root = True, h_env = [], h_dirs = []\<rparr> [(''LOGGER_LEVEL'', PInt 90)]
      = Inr (c', \<lparr>h_windows = False, h_linux = True, h_root = True, h_env = [], h_dirs = [''/sandbox'']\<rparr>)
    \<and> d_get c' ''DIR_CODE'' = Some (PStr ''/sandbox/code'') \<and> d_get c' ''LOGGER_LEVEL'' = Some (PInt 50)
    \<and> config_default_get False \<lparr>h_windows = False, h_linux = True, h_root = False, h_env = [], h_dirs = []\<rparr> c'
      = Inr (c', \<lparr>h_windows = False, h_linux = True, h_root = False, h_env = [], h_dirs = []\<rparr>)"
proof -
  let ?h = "\<lparr>h_windows = False, h_linux = True, h_root = True, h_env = [], h_dirs = []\<rparr>"
  let ?h1 = "\<lparr>h_windows = False, h_linux = True, h_root = True, h_env = [], h_dirs = [''/sandbox'']\<rparr>"
  define c4 where "c4 = [(''LOGGER_LEVEL'', PInt 90), (''DIR_BASE'', PStr ''/sandbox''), (''DIR_HOME'', PStr ''/root''),
    (''DIR_CFG'', PStr ''/sandbox/cfg''), (''DIR_IDENTITY'', PStr ''/sandbox/myhost'')]"
  have "\<exists>c5. clamp_level (defaults1 c4) = Inr c5 \<and> d_get c5 ''LOGGER_LEVEL'' = Some (PInt 50)
      \<and> (\<exists>c6. default_by ''DIR_CODE'' (subdir_get ''code'' False) (defaults2 False c5, ?h1) = Inr (c6, ?h1)
        \<and> d_get c6 ''DIR_CODE'' = Some (PStr ''/sandbox/code'') \<and> d_get c6 ''LOGGER_LEVEL'' = Some (PInt 50))"
    by (simp add: c4_def defaults1_def defaults2_def default_to_def default_by_def clamp_level_def above50_def num_of_def
        subdir_get_def basedir_get_def sep_dir_def dir_ensure_def cfg_base_def py_str_def Let_def)
  then obtain c5 c6 where c6: "clamp_level (defaults1 c4) = Inr c5"
    "default_by ''DIR_CODE'' (subdir_get ''code'' False) (defaults2 False c5, ?h1) = Inr (c6, ?h1)"
    "d_get c6 ''DIR_CODE'' = Some (PStr ''/sandbox/code'')" "d_get c6 ''LOGGER_LEVEL'' = Some (PInt 50)"
    by (elim exE conjE) (rule that)
  define c' where "c' = defaults3 c6"
  note dirs = default_by_def subdir_get_def cfgdir_get_def basedir_get_def homedir_get_def sep_dir_def dir_ensure_def
  let ?c0 = "[(''LOGGER_LEVEL'', PInt 90)]"
  let ?c1 = "[(''LOGGER_LEVEL'', PInt 90), (''DIR_BASE'', PStr ''/sandbox'')]"
  let ?c2 = "[(''LOGGER_LEVEL'', PInt 90), (''DIR_BASE'', PStr ''/sandbox''), (''DIR_HOME'', PStr ''/root'')]"
  let ?c3 = "[(''LOGGER_LEVEL'', PInt 90), (''DIR_BASE'', PStr ''/sandbox''), (''DIR_HOME'', PStr ''/root''), (''DIR_CFG'', PStr ''/sandbox/cfg'')]"
  have s1: "default_by ''DIR_BASE'' (basedir_get False) (?c0, ?h) = Inr (?c1, ?h1)" by (simp add: dirs)
  have s2: "default_by ''DIR_HOME'' (\<lambda>h. rbind (homedir_get h) (\<lambda>p. Inr (p, h))) (?c1, ?h1) = Inr (?c2, ?h1)" by (simp add: dirs)
  have s3: "default_by ''DIR_CFG'' (cfgdir_get False) (?c2, ?h1) = Inr (?c3, ?h1)" by (simp add: dirs)
  have s4: "default_by ''DIR_IDENTITY'' (subdir_get ''myhost'' False) (?c3, ?h1) = Inr (c4, ?h1)" by (simp add: dirs c4_def)
  have c: "config_default_get False ?h ?c0 = Inr (c', ?h1)"
    by (simp only: config_default_get_def s1 s2 s3 s4 rbind_Inr prod.case c6(1,2) c'_def)
  have d: "d_get c' ''DIR_CODE'' = Some (PStr ''/sandbox/code'')" "d_get c' ''LOGGER_LEVEL'' = Some (PInt 50)"
    unfolding c'_def defaults3_def using c6(3,4) by (simp_all add: defaults_fold_get)
  note stable = config_defaults_stable [OF c, THEN conjunct2]
  show ?thesis by (intro exI [of _ c'] conjI) (rule c, rule d(1), rule d(2), rule stable)
qed

section \<open>The secret\<close>

text \<open>A new process finds the same secret in redis whether the passphrase or its md5 digest was given to the one before.\<close>

theorem secret_hash_or_passphrase:
  assumes digest: "length (md5hex (encode p)) = 32" "decode (encode (md5hex (encode p))) = Some (md5hex (encode p))"
    and p: "length p \<noteq> 32" and v: "v = PStr p \<or> v = PStr (md5hex (encode p))" and st: "s_db st = Some old"
  shows "\<exists>st'. secret_set md5hex v st = Inr st'
    \<and> (\<exists>st2. secret_get md5hex None ask (st'\<lparr>s_secret := PNone\<rparr>) = Inr (PStr (md5hex (encode p)), st2))"
proof -
  have l: "length (encode p) = length p" for p by (simp add: encode_def)
  have ne: "md5hex (encode p) \<noteq> []" "encode (md5hex (encode p)) \<noteq> []" using digest(1) by (auto simp: encode_def)
  show ?thesis using v p st digest ne
    by (auto simp: secret_set_def secret_format_def secret_bytes_def to_db_def secret_get_def truth_def secret_text_def pylen_def l)
qed

definition toy_digest :: "bytes \<Rightarrow> string" where
  \<comment> \<open>a stand-in for md5 in the examples: 32 hexadecimal digits\<close>
  "toy_digest b = replicate 32 (hex_digit (length b mod 16))"

theorem secret_hash_or_passphrase_witness:
  "(\<exists>st st2. secret_set toy_digest (PStr ''abc'') \<lparr>s_secret = PNone, s_db = Some None\<rparr> = Inr st
     \<and> secret_get toy_digest None PNone (st\<lparr>s_secret := PNone\<rparr>) = Inr (PStr (replicate 32 (CHR ''3'')), st2))"
proof -
  have d: "toy_digest (encode ''abc'') = replicate 32 (CHR ''3'')" by code_simp
  have a: "length (toy_digest (encode ''abc'')) = 32" by code_simp
  have b: "decode (encode (toy_digest (encode ''abc''))) = Some (toy_digest (encode ''abc''))" by code_simp
  from secret_hash_or_passphrase [of toy_digest "''abc''" "PStr ''abc''" "\<lparr>s_secret = PNone, s_db = Some None\<rparr>" None PNone] a b d
  show ?thesis by auto
qed

text \<open>In the process that set the digest itself the secret is bytes, not text.\<close>

lemma secret_digest_bytes:
  assumes "length h = 32" "md5hex b = h"
  shows "\<exists>st'. secret_set md5hex (PStr h) st = Inr st' \<and> secret_get md5hex None ask st' = Inr (PBytes (encode h), st')"
proof -
  have "length (encode h) = 32" "encode h \<noteq> []" using assms by (auto simp: encode_def)
  then show ?thesis by (simp add: secret_set_def secret_format_def secret_bytes_def secret_get_def truth_def)
qed

end
