(* ===== verification/Nodes.thy ===== *)
theory Nodes
  imports Config
begin

text \<open>
  The machines the installer manages (\<^verbatim>\<open>install/threesdk/InstallTools.py\<close>): the attributes of a container and its ports
  (\<^verbatim>\<open>DockerConfig\<close>), the state an executor keeps on a machine (\<^verbatim>\<open>Executor\<close>), the registry that numbers the clients of a
  server, with the copy every process keeps of it (\<^verbatim>\<open>Registry\<close>), and the networks wireguard gives them (\<^verbatim>\<open>WireGuardServer\<close>). JSON, the test of a TCP port and what a
  remote machine tells about itself are arguments.
\<close>

section \<open>The attributes of a container\<close>

record dock =
  dk_attrs :: cfg               \<comment> \<open>\<^verbatim>\<open>__dict__\<close>\<close>
  dk_file :: "string option"    \<comment> \<open>\<^verbatim>\<open>docker_config.toml\<close>\<close>

definition portrange_of :: "cfg \<Rightarrow> int res" where
  \<comment> \<open>\<^verbatim>\<open>assert isinstance(self.portrange, int)\<close>, then its value\<close>
  "portrange_of a = (case d_get a ''portrange'' of
       None \<Rightarrow> Inl P_AttributeError
     | Some v \<Rightarrow> (if is_int v then to_int v else Inl P_AssertionError))"

definition docker_sshport :: "int \<Rightarrow> int" where
  "docker_sshport p = 9000 + p * 10"

definition portrange_txt :: "int \<Rightarrow> string" where
  "portrange_txt p = ''-p '' @ int_str (9005 + p * 10) @ ''-'' @ int_str (9009 + p * 10) @ '':8005-8009''
     @ '' -p '' @ int_str (7000 + p * 10) @ '':80'' @ '' -p '' @ int_str (5000 + p * 10) @ '':8888''
     @ '' -p '' @ int_str (4000 + p * 10) @ '':443'' @ '' -p '' @ int_str (9001 + p * 10) @ '':9001/udp''
     @ '' -p '' @ int_str (9000 + p * 10) @ '':22''"

definition docker_load :: "(pyval \<Rightarrow> pyval res) \<Rightarrow> dock \<Rightarrow> dock res" where
  "docker_load jloads d =
     (if dk_file d = None then Inl E_JSBUG
      else rbind (config_load (dk_file d) False [] True) (\<lambda>(r, f).
        rbind (case d_get r ''ports'' of
            Some v \<Rightarrow> if truth v then rbind (jloads v) (\<lambda>p. Inr (d_set (dk_attrs d) ''ports'' p)) else Inr (dk_attrs d)
          | None \<Rightarrow> Inr (dk_attrs d)) (\<lambda>a.
        let a' = foldl (\<lambda>a (k, v). d_set a k v) a (d_pop r ''ports'') in
        rbind (portrange_of a') (\<lambda>p.
          Inr (d\<lparr>dk_attrs := d_set (d_set a' ''sshport'' (PInt (docker_sshport p))) ''portrange_txt'' (PStr (portrange_txt p)),
                 dk_file := f\<rparr>)))))"

definition docker_save :: "(pyval \<Rightarrow> string) \<Rightarrow> (pyval \<Rightarrow> pyval res) \<Rightarrow> dock \<Rightarrow> dock res" where
  "docker_save jdumps jloads d =
     (case d_get (dk_attrs d) ''ports'' of
        None \<Rightarrow> Inl P_KeyError
      | Some p \<Rightarrow> rbind (config_save True (d_set (dk_attrs d) ''ports'' (PStr (jdumps p))) (dk_file d)) (\<lambda>f.
          rbind (portrange_of (dk_attrs d)) (\<lambda>_. docker_load jloads (d\<lparr>dk_file := f\<rparr>))))"

definition done_name :: "string \<Rightarrow> string" where
  "done_name n = ''done_'' @ n"

definition docker_done_set :: "(pyval \<Rightarrow> string) \<Rightarrow> (pyval \<Rightarrow> pyval res) \<Rightarrow> string \<Rightarrow> dock \<Rightarrow> dock res" where
  "docker_done_set jd jl n d = docker_save jd jl (d\<lparr>dk_attrs := d_set (dk_attrs d) (done_name n) (PBool True)\<rparr>)"

definition docker_attr :: "dock \<Rightarrow> string \<Rightarrow> pyval res" where
  "docker_attr d n = (case d_get (dk_attrs d) n of Some v \<Rightarrow> Inr v | None \<Rightarrow> Inl P_KeyError)"

definition docker_get_or :: "(pyval \<Rightarrow> string) \<Rightarrow> (pyval \<Rightarrow> pyval res) \<Rightarrow> string \<Rightarrow> pyval \<Rightarrow> dock \<Rightarrow> (pyval \<times> dock) res" where
  \<comment> \<open>\<^verbatim>\<open>done_get\<close> and \<^verbatim>\<open>val_get\<close>: a missing attribute is set first\<close>
  "docker_get_or jd jl n v d =
     rbind (if d_has (dk_attrs d) n then Inr d else docker_save jd jl (d\<lparr>dk_attrs := d_set (dk_attrs d) n v\<rparr>)) (\<lambda>d'.
     rbind (docker_attr d' n) (\<lambda>w. Inr (w, d')))"

definition docker_done_get :: "(pyval \<Rightarrow> string) \<Rightarrow> (pyval \<Rightarrow> pyval res) \<Rightarrow> string \<Rightarrow> dock \<Rightarrow> (pyval \<times> dock) res" where
  "docker_done_get jd jl n = docker_get_or jd jl (done_name n) (PBool False)"

definition docker_val_get :: "(pyval \<Rightarrow> string) \<Rightarrow> (pyval \<Rightarrow> pyval res) \<Rightarrow> string \<Rightarrow> dock \<Rightarrow> (pyval \<times> dock) res" where
  "docker_val_get jd jl n = docker_get_or jd jl n PNone"

definition docker_val_set :: "(pyval \<Rightarrow> string) \<Rightarrow> (pyval \<Rightarrow> pyval res) \<Rightarrow> string \<Rightarrow> pyval \<Rightarrow> dock \<Rightarrow> dock res" where
  "docker_val_set jd jl n v d = docker_save jd jl (d\<lparr>dk_attrs := d_set (dk_attrs d) n v\<rparr>)"

definition docker_done_reset :: "(pyval \<Rightarrow> string) \<Rightarrow> (pyval \<Rightarrow> pyval res) \<Rightarrow> string \<Rightarrow> dock \<Rightarrow> dock res" where
  \<comment> \<open>without a name the flags are only dropped in memory\<close>
  "docker_done_reset jd jl n d =
     (if n = [] then Inr (d\<lparr>dk_attrs := filter (\<lambda>(k, v). \<not> starts_with ''done_'' k) (dk_attrs d)\<rparr>)
      else let n' = (if starts_with ''done_'' n then drop 5 n else n)
           in docker_save jd jl (d\<lparr>dk_attrs := d_set (dk_attrs d) (done_name n') (PBool False)\<rparr>))"

definition docker_init :: "(pyval \<Rightarrow> pyval res) \<Rightarrow> string \<Rightarrow> string \<Rightarrow> string option \<Rightarrow> string option \<Rightarrow> bool \<Rightarrow> pyval
    \<Rightarrow> string option \<Rightarrow> dock res" where
  \<comment> \<open>name, directory of the container, image, start command, \<^verbatim>\<open>delete\<close>, ports, the file before\<close>
  "docker_init jl name vardir img cmd del ports file =
     (let a = [(''name'', PStr name), (''ports'', ports), (''path_vardir'', PStr vardir), (''path_config'', PStr (vardir @ ''/docker_config.toml''))];
          nonempty = (\<lambda>s dflt. case s of Some t \<Rightarrow> (if t = [] then dflt else t) | None \<Rightarrow> dflt);
          file' = (if del then None else file)
      in rbind (if file' = None then
             Inr \<lparr>dk_attrs = a @ [(''portrange'', PNone), (''image'', PStr (nonempty img ''threefoldtech/3bot2'')),
                 (''startupcmd'', PStr (nonempty cmd ''/sbin/my_init''))], dk_file = None\<rparr>
           else docker_load jl \<lparr>dk_attrs = a, dk_file = file'\<rparr>)
         (\<lambda>d. Inr (d\<lparr>dk_attrs := d_set (dk_attrs d) ''ipaddr'' (PStr ''localhost'')\<rparr>)))"

definition docker_reset :: "dock \<Rightarrow> dock" where
  "docker_reset d = d\<lparr>dk_file := None\<rparr>"

definition find_port_range :: "(int \<Rightarrow> bool) \<Rightarrow> string \<Rightarrow> (string \<times> pyval) list \<Rightarrow> pyval \<Rightarrow> pyval res" where
  \<comment> \<open>whether a local port answers, the name of the container, the containers with their port ranges, the port range before;
      the new port range. When all fifty are taken an old range that is not zero is kept.\<close>
  "find_port_range answers name others old =
     (let existing = map snd (filter (\<lambda>(n, p). n \<noteq> name) others);
          free = filter (\<lambda>i. \<not> py_in (PInt i) existing \<and> \<not> answers (9000 + i * 10)) [0..49]
      in (case free of i # is \<Rightarrow> Inr (PInt i)
          | [] \<Rightarrow> (if \<not> truth old then Inl E_Input else Inr old)))"

section \<open>The state of an executor\<close>

record xconf =
  xc_base :: bool                          \<comment> \<open>\<^verbatim>\<open>DIR_BASE\<close> is known\<close>
  xc_state :: "(string \<times> pyval) list option"
  xc_rest :: cfg

record exec =
  x_mem :: "xconf option"   \<comment> \<open>\<^verbatim>\<open>_config\<close>\<close>
  x_disk :: "xconf option"  \<comment> \<open>the pickled data on the machine\<close>

definition x_empty :: xconf where
  "x_empty = \<lparr>xc_base = False, xc_state = None, xc_rest = []\<rparr>"

definition x_save :: "exec \<Rightarrow> exec" where
  "x_save x = x\<lparr>x_disk := x_mem x\<rparr>"

definition x_load :: "(xconf \<Rightarrow> xconf) \<Rightarrow> exec \<Rightarrow> exec" where
  \<comment> \<open>the argument is \<^verbatim>\<open>systemenv_load\<close>, which sets the directories\<close>
  "x_load sysenv x =
     (let c = (case x_disk x of Some c \<Rightarrow> c | None \<Rightarrow> x_empty)
      in if xc_base c then x\<lparr>x_mem := Some c\<rparr> else x_save (x\<lparr>x_mem := Some (sysenv c)\<rparr>))"

definition x_config :: "(xconf \<Rightarrow> xconf) \<Rightarrow> exec \<Rightarrow> exec" where
  \<comment> \<open>the property \<^verbatim>\<open>config\<close>: an empty configuration is loaded again\<close>
  "x_config sysenv x = (case x_mem x of
       None \<Rightarrow> x_load sysenv x
     | Some c \<Rightarrow> if c = x_empty then x_load sysenv x else x)"

definition x_state :: "exec \<Rightarrow> (string \<times> pyval) list" where
  "x_state x = (case x_mem x of Some c \<Rightarrow> (case xc_state c of Some d \<Rightarrow> d | None \<Rightarrow> []) | None \<Rightarrow> [])"

definition x_put :: "(string \<times> pyval) list \<Rightarrow> exec \<Rightarrow> exec" where
  "x_put d x = x\<lparr>x_mem := map_option (\<lambda>c. c\<lparr>xc_state := Some d\<rparr>) (x_mem x)\<rparr>"

definition x_open :: "(xconf \<Rightarrow> xconf) \<Rightarrow> exec \<Rightarrow> exec" where
  \<comment> \<open>the property \<^verbatim>\<open>state\<close>\<close>
  "x_open sysenv x = (let x' = x_config sysenv x in x_put (x_state x') x')"

definition x_state_exists :: "(xconf \<Rightarrow> xconf) \<Rightarrow> string \<Rightarrow> exec \<Rightarrow> bool \<times> exec" where
  "x_state_exists sysenv k x = (let x' = x_open sysenv x in (d_has (x_state x') (text_strip_to_ascii_dense k), x'))"

definition x_state_set :: "(xconf \<Rightarrow> xconf) \<Rightarrow> string \<Rightarrow> pyval \<Rightarrow> bool \<Rightarrow> exec \<Rightarrow> exec" where
  "x_state_set sysenv k v save x =
     (let key = text_strip_to_ascii_dense k; x' = x_open sysenv x; d = x_state x'
      in if save \<or> (case d_get d key of None \<Rightarrow> True | Some w \<Rightarrow> \<not> py_eq w v) then x_save (x_put (d_set d key v) x') else x')"

definition x_state_get :: "(xconf \<Rightarrow> xconf) \<Rightarrow> string \<Rightarrow> pyval \<Rightarrow> exec \<Rightarrow> pyval \<times> exec" where
  \<comment> \<open>a default is entered in memory and not saved\<close>
  "x_state_get sysenv k dflt x =
     (let key = text_strip_to_ascii_dense k; x' = x_open sysenv x; d = x_state x'
      in (case d_get d key of
            Some v \<Rightarrow> (v, x')
          | None \<Rightarrow> if truth dflt then (dflt, x_put (d_set d key dflt) x') else (PNone, x')))"

definition x_state_delete :: "(xconf \<Rightarrow> xconf) \<Rightarrow> string \<Rightarrow> exec \<Rightarrow> exec" where
  "x_state_delete sysenv k x =
     (let key = text_strip_to_ascii_dense k; x' = x_open sysenv x; d = x_state x'
      in if d_has d key then x_save (x_put (d_pop d key) x') else x')"

definition x_state_reset :: "(xconf \<Rightarrow> xconf) \<Rightarrow> exec \<Rightarrow> exec" where
  "x_state_reset sysenv x = x_save (x_put [] (x_config sysenv x))"

definition x_restart :: "exec \<Rightarrow> exec" where
  \<comment> \<open>a new executor object for the same machine\<close>
  "x_restart x = x\<lparr>x_mem := None\<rparr>"

section \<open>The registry of clients\<close>

record regclient =
  rc_keypub :: "string option"
  rc_myid :: "int option"

record registry =
  rg_clients :: "(string \<times> regclient) list"
  rg_last :: "int option"   \<comment> \<open>\<^verbatim>\<open>lastmyid\<close>\<close>

definition reg_client :: "registry \<Rightarrow> string \<Rightarrow> regclient" where
  "reg_client r n = (case d_get (rg_clients r) n of Some c \<Rightarrow> c | None \<Rightarrow> \<lparr>rc_keypub = None, rc_myid = None\<rparr>)"

definition reg_myname :: "string \<Rightarrow> string \<Rightarrow> registry \<Rightarrow> registry \<times> string res" where
  \<comment> \<open>the name of the ssh key (confirmed when it is new) and the public key; the inner \<^verbatim>\<open>askdetails\<close> is called without its
      argument\<close>
  "reg_myname n pub r =
     (let c = reg_client r n; r1 = r\<lparr>rg_clients := d_set (rg_clients r) n c\<rparr> in
      (case rc_keypub c of
         None \<Rightarrow> (r1\<lparr>rg_clients := d_set (rg_clients r1) n (c\<lparr>rc_keypub := Some pub\<rparr>)\<rparr>, Inl P_TypeError)
       | Some k \<Rightarrow> (r1, if strip k = strip pub then Inr n else Inl E_Input)))"

definition reg_myid :: "string \<Rightarrow> string \<Rightarrow> registry \<Rightarrow> registry \<times> int res" where
  "reg_myid n pub r =
     (case reg_myname n pub r of
        (r1, Inl e) \<Rightarrow> (r1, Inl e)
      | (r1, Inr _) \<Rightarrow> (case rc_myid (reg_client r1 n) of
          Some i \<Rightarrow> (r1, Inr i)
        | None \<Rightarrow> (let l = (case rg_last r1 of None \<Rightarrow> 1 | Some l \<Rightarrow> l + 1)
            in (r1\<lparr>rg_last := Some l, rg_clients := d_set (rg_clients r1) n ((reg_client r1 n)\<lparr>rc_myid := Some l\<rparr>)\<rparr>, Inr l))))"

text \<open>Every process keeps the configuration of the server it once read; only a number that is given out is saved, with everything else
  the process remembers.\<close>

record reghost =
  rh_server :: registry
  rh_kept :: "(nat \<times> registry) list"

definition reg_config :: "nat \<Rightarrow> reghost \<Rightarrow> registry" where
  "reg_config k h = (case d_get (rh_kept h) k of Some r \<Rightarrow> r | None \<Rightarrow> rh_server h)"

definition reg_ask :: "nat \<Rightarrow> string \<Rightarrow> string \<Rightarrow> reghost \<Rightarrow> reghost \<times> int res" where
  \<comment> \<open>process k asks for the number of the client n\<close>
  "reg_ask k n pub h = (let r = reg_config k h; (r', res) = reg_myid n pub r;
       saved = (\<not> isl res \<and> rc_myid (reg_client r n) = None)
     in (\<lparr>rh_server = (if saved then r' else rh_server h), rh_kept = d_set (rh_kept h) k r'\<rparr>, res))"

section \<open>Networks\<close>

definition subnet_calc :: "int \<Rightarrow> string res" where
  \<comment> \<open>two bytes, high one first; struct refuses what does not fit\<close>
  "subnet_calc a = (if 0 \<le> a \<and> a < 65536 then Inr (int_str (a div 256) @ ''.'' @ int_str (a mod 256)) else Inl P_StructError)"

definition wg_serverid :: int where
  "wg_serverid = 201"

definition wg_init :: "string \<Rightarrow> int \<Rightarrow> int res \<Rightarrow> int res" where
  \<comment> \<open>the number of the client: the one given, or the one of the registry\<close>
  "wg_init addr myid registry_id =
     rbind (py_assert (addr \<noteq> [])) (\<lambda>_.
     rbind (if myid = 0 then registry_id else Inr myid) (\<lambda>i.
     rbind (py_assert (i \<noteq> wg_serverid)) (\<lambda>_. Inr i)))"

section \<open>Ports of different containers\<close>

definition range_maps :: "int \<Rightarrow> (string \<times> string) list" where
  \<comment> \<open>the ports of the host in \<open>portrange_txt\<close>, and those of the container\<close>
  "range_maps p = [(int_str (9005 + p * 10) @ ''-'' @ int_str (9009 + p * 10), ''8005-8009''), (int_str (7000 + p * 10), ''80''),
     (int_str (5000 + p * 10), ''8888''), (int_str (4000 + p * 10), ''443''), (int_str (9001 + p * 10), ''9001/udp''),
     (int_str (docker_sshport p), ''22'')]"

definition own_maps :: "pyval \<Rightarrow> (string \<times> string) list" where
  \<comment> \<open>the ports a container was given by its user\<close>
  "own_maps ports = (case ports of PDict d \<Rightarrow> map (\<lambda>(k, v). (py_str k, py_str v)) d | _ \<Rightarrow> [])"

definition maps_txt :: "(string \<times> string) list \<Rightarrow> string" where
  "maps_txt ms = concat (map (\<lambda>(h, c). '' -p '' @ h @ '':'' @ c) ms)"

definition ports_txt :: "cfg \<Rightarrow> string res" where
  \<comment> \<open>what docker is told to publish\<close>
  "ports_txt a = rbind (case d_get a ''portrange_txt'' of None \<Rightarrow> Inl P_AttributeError
       | Some v \<Rightarrow> Inr (if truth v then py_str v else [])) (\<lambda>t.
     case d_get a ''ports'' of
       None \<Rightarrow> Inl P_AttributeError
     | Some v \<Rightarrow> if truth v then (case v of PDict d \<Rightarrow> Inr (t @ maps_txt (own_maps v)) | _ \<Rightarrow> Inl P_AttributeError) else Inr t)"

definition host_range :: "string \<Rightarrow> int list" where
  \<comment> \<open>a port or a range of ports\<close>
  "host_range h = (case map py_int (split_char (CHR ''-'') h) of
       [Some a] \<Rightarrow> [a] | [Some a, Some b] \<Rightarrow> [a..b] | _ \<Rightarrow> [])"

definition docker_ports :: "int \<Rightarrow> pyval \<Rightarrow> int list" where
  \<comment> \<open>the ports of the host a container takes\<close>
  "docker_ports p ports = concat (map (host_range \<circ> fst) (range_maps p @ own_maps ports))"

lemma ports_txt_maps:
  assumes "d_get a ''portrange_txt'' = Some (PStr (portrange_txt p))" "d_get a ''ports'' = Some ports"
    and "ports = PDict d \<or> \<not> truth ports \<and> own_maps ports = []"
  shows "rbind (ports_txt a) (\<lambda>t. Inr ('' '' @ t)) = Inr (maps_txt (range_maps p @ own_maps ports))"
proof -
  have "truth (PStr (portrange_txt p))" "py_str (PStr (portrange_txt p)) = portrange_txt p"
    by (simp_all add: truth_def portrange_txt_def py_str_def)
  moreover have "'' '' @ portrange_txt p = maps_txt (range_maps p)"
    by (simp add: portrange_txt_def maps_txt_def range_maps_def docker_sshport_def)
  moreover have "maps_txt (own_maps (PDict [])) = []" by (simp add: maps_txt_def own_maps_def)
  ultimately show ?thesis using assms
    by (cases d) (auto simp: ports_txt_def maps_txt_def truth_def own_maps_def)
qed

lemma minus_int_str: "0 \<le> i \<Longrightarrow> CHR ''-'' \<notin> set (int_str i)"
  using nat_str_digits [of i] by (auto simp: int_str_def list_all_iff is_digit_def ccode_def)

lemma range_ports:
  assumes "0 \<le> p"
  shows "docker_ports p ports = [9005 + p * 10 .. 9009 + p * 10] @ [7000 + p * 10, 5000 + p * 10, 4000 + p * 10, 9001 + p * 10, docker_sshport p]
    @ concat (map (host_range \<circ> fst) (own_maps ports))"
proof -
  have one: "host_range (int_str i) = [i]" if "0 \<le> i" for i
    using minus_int_str [OF that] by (simp add: host_range_def split_char_notin)
  have two: "host_range (int_str i @ ''-'' @ int_str k) = [i..k]" if "0 \<le> i" "0 \<le> k" for i k
    using minus_int_str [OF that(1)] minus_int_str [OF that(2)] by (simp add: host_range_def split_char_notin split_char_append)
  show ?thesis using assms unfolding docker_ports_def range_maps_def
    by (simp add: one two [simplified] docker_sshport_def)
qed

definition own_ports :: "pyval \<Rightarrow> int set" where
  "own_ports ports = set (concat (map (host_range \<circ> fst) (own_maps ports)))"

definition in_ranges :: "int \<Rightarrow> bool" where
  \<comment> \<open>the ports that the ranges of fifty containers are taken from\<close>
  "in_ranges x = (4000 \<le> x \<and> x < 10000)"

lemma docker_ports_disjoint:
  assumes "0 \<le> i" "i < 50" "0 \<le> j" "j < 50" "i \<noteq> j"
    and "\<forall>x \<in> own_ports v \<union> own_ports w. \<not> in_ranges x" "own_ports v \<inter> own_ports w = {}"
  shows "set (docker_ports i v) \<inter> set (docker_ports j w) = {}"
proof -
  let ?r = "\<lambda>p. [9005 + p * 10 .. 9009 + p * 10] @ [7000 + p * 10, 5000 + p * 10, 4000 + p * 10, 9001 + p * 10, docker_sshport p]"
  have all: "set (docker_ports p q) = set (?r p) \<union> own_ports q" if "0 \<le> p" for p q
    unfolding range_ports [OF that] own_ports_def by auto
  have "x \<noteq> y" if "x \<in> set (?r i)" "y \<in> set (?r j)" for x y
    using that assms(1-5) by (auto simp: docker_sshport_def)
  moreover have "in_ranges x" if "x \<in> set (?r p)" "0 \<le> p" "p < 50" for x p
    using that by (auto simp: docker_sshport_def in_ranges_def)
  ultimately show ?thesis unfolding all [OF assms(1)] all [OF assms(3)] using assms(1-4,6,7) by blast
qed

lemma find_port_range_free:
  assumes "find_port_range answers name others old = Inr v" "\<not> truth old"
  shows "\<exists>i. v = PInt i \<and> 0 \<le> i \<and> i < 50 \<and> \<not> answers (9000 + i * 10)
    \<and> (\<forall>(n, p) \<in> set others. n \<noteq> name \<longrightarrow> \<not> py_eq (PInt i) p)"
proof -
  let ?f = "filter (\<lambda>i. \<not> py_in (PInt i) (map snd (filter (\<lambda>(n, p). n \<noteq> name) others)) \<and> \<not> answers (9000 + i * 10)) [0..49]"
  from assms obtain i t where i: "?f = i # t" "v = PInt i"
    by (auto simp: find_port_range_def Let_def split: list.splits if_splits)
  have "i \<in> set ?f" unfolding i(1) by simp
  then show ?thesis using i(2) by (fastforce simp: py_in_def list_ex_iff)
qed

text \<open>C28: A container that is given its first port range gets one whose ssh port does not answer, and publishes no port of the host
  that another container with a range of its own publishes, provided that the ports their users asked for on top lie outside of
  the ranges (4000 to 9999) and differ from each other: nothing in the code looks at those.\<close>

theorem docker_ports_separate:
  assumes "find_port_range answers name others old = Inr (PInt i)" "\<not> truth old"
    and "(other, PInt j) \<in> set others" "other \<noteq> name" "0 \<le> j" "j < 50"
    and "\<forall>x \<in> own_ports v \<union> own_ports w. \<not> in_ranges x" "own_ports v \<inter> own_ports w = {}"
  shows "\<not> answers (docker_sshport i) \<and> set (docker_ports i v) \<inter> set (docker_ports j w) = {}"
proof -
  from find_port_range_free [OF assms(1,2)] have i: "0 \<le> i" "i < 50" "\<not> answers (9000 + i * 10)"
    and o: "\<forall>(n, p) \<in> set others. n \<noteq> name \<longrightarrow> \<not> py_eq (PInt i) p" by auto
  from o assms(3,4) have "i \<noteq> j" by auto
  with docker_ports_disjoint [OF i(1,2) assms(5,6) _ assms(7,8)] i(3) show ?thesis by (simp add: docker_sshport_def)
qed

theorem docker_ports_separate_witness:
  "find_port_range (\<lambda>p. p = 9010) ''3bot'' [(''old'', PInt 0), (''new'', PInt 2), (''3bot'', PNone)] PNone = Inr (PInt 3)
   \<and> set (docker_ports 3 (PDict [(PInt 22000, PInt 22)])) \<inter> set (docker_ports 2 PNone) = {}"
proof -
  have f: "find_port_range (\<lambda>p. p = 9010) ''3bot'' [(''old'', PInt 0), (''new'', PInt 2), (''3bot'', PNone)] PNone = Inr (PInt 3)"
    by code_simp
  have "\<not> truth PNone" by (simp add: truth_def)
  moreover have "own_ports (PDict [(PInt 22000, PInt 22)]) = {22000}" "own_ports PNone = {}" by code_simp+
  ultimately show ?thesis using docker_ports_separate [OF f, of "''new''" 2 "PDict [(PInt 22000, PInt 22)]" PNone] f
    by (simp add: in_ranges_def)
qed

text \<open>Two containers whose users ask for the same port of the host both publish it.\<close>

lemma same_own_port: "80 \<in> set (docker_ports 1 (PDict [(PInt 80, PInt 80)])) \<inter> set (docker_ports 2 (PDict [(PInt 80, PInt 8080)]))"
  by code_simp

text \<open>A value that is not there is None the first time it is asked for only in memory: the object reads its file back at once,
  where None is a text.\<close>

lemma docker_val_get_none:
  "rbind (docker_val_get (\<lambda>_. ''null'') (\<lambda>_. Inr PNone) ''x''
     \<lparr>dk_attrs = [(''ports'', PNone), (''portrange'', PInt 1)], dk_file = None\<rparr>) (\<lambda>(v, d). Inr v) = Inr (PStr ''None'')"
  by code_simp

text \<open>Flags dropped by a reset without a name are back when the object is made again.\<close>

lemma docker_done_reset_lost:
  "(let jd = (\<lambda>_. ''null''); jl = (\<lambda>_. Inr PNone) in
    rbind (docker_done_set jd jl ''base'' \<lparr>dk_attrs = [(''ports'', PNone), (''portrange'', PInt 1)], dk_file = None\<rparr>) (\<lambda>d1.
    rbind (docker_done_reset jd jl [] d1) (\<lambda>d2.
    rbind (docker_init jl ''c'' ''/v'' None None False PNone (dk_file d2)) (\<lambda>d3.
      Inr (docker_attr d2 (done_name ''base''), docker_attr d3 (done_name ''base''))))))
   = Inr (Inl P_KeyError, Inr (PBool True))"
  by code_simp

section \<open>What an executor remembers\<close>

definition sysenv_ok :: "(xconf \<Rightarrow> xconf) \<Rightarrow> bool" where
  \<comment> \<open>\<^verbatim>\<open>systemenv_load\<close> sets \<^verbatim>\<open>DIR_BASE\<close> and leaves the state alone\<close>
  "sysenv_ok f = (\<forall>c. xc_base (f c) \<and> xc_state (f c) = xc_state c)"

lemma x_config_state:
  assumes "sysenv_ok f"
  shows "\<exists>c. x_mem (x_config f x) = Some c"
    "x_mem x = None \<Longrightarrow> x_disk x = Some c \<Longrightarrow> x_state (x_config f x) = (case xc_state c of Some d \<Rightarrow> d | None \<Rightarrow> [])"
  using assms
  by (auto simp: x_config_def x_load_def x_save_def x_state_def sysenv_ok_def Let_def split: option.splits)

lemma x_state_put [simp]: "x_mem x \<noteq> None \<Longrightarrow> x_state (x_put d x) = d"
  by (auto simp: x_state_def x_put_def)

lemma x_open_state: "sysenv_ok f \<Longrightarrow> x_state (x_open f x) = x_state (x_config f x) \<and> (\<exists>c. x_mem (x_open f x) = Some c)"
  using x_config_state(1) [of f x] by (auto simp: x_open_def Let_def) (auto simp: x_put_def)

lemma x_saved:
  assumes "sysenv_ok f" "x_mem x = Some c"
  shows "x_state (x_open f (x_restart (x_save (x_put d x)))) = d"
proof -
  have "x_disk (x_save (x_put d x)) = Some (c\<lparr>xc_state := Some d\<rparr>)" using assms(2) by (simp add: x_save_def x_put_def)
  then show ?thesis
    using x_open_state [OF assms(1), of "x_restart (x_save (x_put d x))"]
      x_config_state(2) [OF assms(1), of "x_restart (x_save (x_put d x))"]
    by (simp add: x_restart_def)
qed

text \<open>What an executor is told to remember is there for the next executor on the same machine, under every key with the
  same dense form, and setting it changes no other key.\<close>

theorem executor_state_persists:
  assumes "sysenv_ok f"
  shows "fst (x_state_get f k' PNone (x_restart (x_state_set f k v True x))) =
    (if text_strip_to_ascii_dense k' = text_strip_to_ascii_dense k then v
     else fst (x_state_get f k' PNone x))"
proof -
  obtain c where c: "x_mem (x_open f x) = Some c" using x_open_state [OF assms] by blast
  let ?d = "d_set (x_state (x_open f x)) (text_strip_to_ascii_dense k) v"
  have "x_state (x_open f (x_restart (x_state_set f k v True x))) = ?d"
    using x_saved [OF assms c] by (simp add: x_state_set_def Let_def)
  then show ?thesis by (simp add: x_state_get_def Let_def truth_def split: option.splits)
qed

theorem executor_state_persists_witness:
  "fst (x_state_get (\<lambda>c. c\<lparr>xc_base := True\<rparr>) ''My Key'' PNone
     (x_restart (x_state_set (\<lambda>c. c\<lparr>xc_base := True\<rparr>) ''my-key'' (PInt 3) True \<lparr>x_mem = None, x_disk = None\<rparr>))) = PNone
   \<and> fst (x_state_get (\<lambda>c. c\<lparr>xc_base := True\<rparr>) ''my=key'' PNone
     (x_restart (x_state_set (\<lambda>c. c\<lparr>xc_base := True\<rparr>) ''my-key'' (PInt 3) True \<lparr>x_mem = None, x_disk = None\<rparr>))) = PInt 3"
proof -
  have f: "sysenv_ok (\<lambda>c. c\<lparr>xc_base := True\<rparr>)" by (simp add: sysenv_ok_def)
  have d: "text_strip_to_ascii_dense ''My Key'' = ''mykey''" "text_strip_to_ascii_dense ''my-key'' = ''my_key''"
    "text_strip_to_ascii_dense ''my=key'' = ''my_key''" by code_simp+
  have n: "fst (x_state_get (\<lambda>c. c\<lparr>xc_base := True\<rparr>) ''My Key'' PNone \<lparr>x_mem = None, x_disk = None\<rparr>) = PNone"
    by (simp add: x_state_get_def d x_open_def x_config_def x_load_def x_empty_def x_save_def x_put_def x_state_def truth_def Let_def)
  show ?thesis unfolding executor_state_persists [OF f] d using n by simp
qed

section \<open>The attributes of a container survive\<close>

definition update :: "cfg \<Rightarrow> cfg \<Rightarrow> cfg" where
  \<comment> \<open>\<^verbatim>\<open>__dict__.update(r)\<close>\<close>
  "update a r = foldl (\<lambda>a (k, v). d_set a k v) a r"

lemma update_get: "distinct (d_keys r) \<Longrightarrow> d_get (update a r) k = (case d_get r k of Some v \<Rightarrow> Some v | None \<Rightarrow> d_get a k)"
proof (induction r arbitrary: a)
  case (Cons kv r)
  obtain k' v where kv: "kv = (k', v)" by (cases kv)
  with Cons.prems have "d_get r k' = None" by (simp add: d_get_None_iff)
  with Cons kv show ?case by (auto simp: update_def split: option.splits)
qed (simp add: update_def)

definition computed :: "int \<Rightarrow> cfg \<Rightarrow> cfg" where
  "computed p a = d_set (d_set a ''sshport'' (PInt (docker_sshport p))) ''portrange_txt'' (PStr (portrange_txt p))"

lemma computed_get: "d_get a k = d_get b k \<Longrightarrow> d_get (computed p a) k = d_get (computed p b) k"
  by (simp add: computed_def)

definition saved_attrs :: "(pyval \<Rightarrow> string) \<Rightarrow> pyval \<Rightarrow> cfg \<Rightarrow> cfg" where
  "saved_attrs jd p a = d_set a ''ports'' (PStr (jd p))"

lemma loaded_lower: "list_all (\<lambda>k. lower k = k) (d_keys d) \<Longrightarrow> loaded True d = d"
  by (induction d) (auto simp: loaded_def load_key_def d_keys_def)

lemma cfg_ok_distinct: "cfg_ok d \<Longrightarrow> distinct (d_keys d)"
proof -
  assume "cfg_ok d"
  then have "distinct (map (\<lambda>(k, v). upper k) d)" by (simp add: cfg_ok_def)
  moreover have "map (\<lambda>(k, v). upper k) d = map upper (d_keys d)" by (induction d) (auto simp: d_keys_def)
  ultimately show ?thesis by (simp add: distinct_map)
qed

lemma docker_load_file:
  assumes t: "config_load (Some t) False [] True = Inr (data, Some t)" and di: "distinct (d_keys data)"
    and data: "data = saved_attrs jd p a" and ne: "jd p \<noteq> []" and jl: "jl (PStr (jd p)) = Inr p"
    and pr: "d_get a ''ports'' = Some p" "portrange_of a = Inr r"
  shows "\<exists>d2. docker_load jl \<lparr>dk_attrs = a0, dk_file = Some t\<rparr> = Inr d2 \<and> dk_file d2 = Some t
    \<and> (\<forall>k. d_has a k \<longrightarrow> d_get (dk_attrs d2) k = d_get (computed r a) k)"
proof -
  define P where "P = ''ports''"
  define a' where "a' = update (d_set a0 P p) (d_pop data P)"
  have dP: "d_get data P = Some (PStr (jd p))" by (simp add: data saved_attrs_def P_def)
  have g: "d_get a' k = d_get a k" if "d_has a k" for k
    using update_get [OF distinct_d_pop [OF di], of "d_set a0 P p" P k] that pr(1)
    by (auto simp: a'_def data saved_attrs_def P_def [symmetric] split: option.splits)
  have "d_has a ''portrange''" using pr(2) by (auto simp: portrange_of_def split: option.splits)
  from g [OF this] pr(2) have pr': "portrange_of a' = Inr r" by (simp only: portrange_of_def)
  have "docker_load jl \<lparr>dk_attrs = a0, dk_file = Some t\<rparr> = Inr \<lparr>dk_attrs = computed r a', dk_file = Some t\<rparr>"
    using t dP ne jl pr' by (simp add: docker_load_def P_def [symmetric] truth_def Let_def update_def [symmetric] a'_def [symmetric] computed_def)
  moreover have "d_get (computed r a') k = d_get (computed r a) k" if "d_has a k" for k by (rule computed_get) (rule g [OF that])
  ultimately show ?thesis by (intro exI [of _ "\<lparr>dk_attrs = computed r a', dk_file = Some t\<rparr>"] conjI allI impI) simp_all
qed

text \<open>C27: The attributes of a container whose names are in lower case and whose values fit the format survive: after saving, the
  object in memory and any object made from its file agree on every attribute it had, the ports included.\<close>

theorem docker_attrs_persist:
  assumes ports: "d_get (dk_attrs d) ''ports'' = Some p" "jd p \<noteq> []" "jl (PStr (jd p)) = Inr p"
    and range: "portrange_of (dk_attrs d) = Inr r"
    and ok: "cfg_ok (saved_attrs jd p (dk_attrs d))" "list_all (\<lambda>k. lower k = k) (d_keys (saved_attrs jd p (dk_attrs d)))"
  shows "\<exists>d' d2. docker_save jd jl d = Inr d' \<and> docker_load jl \<lparr>dk_attrs = a0, dk_file = dk_file d'\<rparr> = Inr d2
    \<and> (\<forall>k. d_has (dk_attrs d) k \<longrightarrow> d_get (dk_attrs d') k = d_get (computed r (dk_attrs d)) k
         \<and> d_get (dk_attrs d2) k = d_get (computed r (dk_attrs d)) k)"
proof -
  let ?data = "saved_attrs jd p (dk_attrs d)"
  from config_parse_text [OF ok(1), of True True] obtain t where t: "config_text True ?data = Inr t" "cret \<notin> set t"
    "config_parse True t = Inr ?data" by (auto simp: loaded_lower [OF ok(2)])
  then have l: "config_load (Some t) False [] True = Inr (?data, Some t)" by (simp add: config_load_def newlines_id)
  note load = docker_load_file [where jd = jd and a = "dk_attrs d" and p = p and data = ?data and t = t and jl = jl and r = r, OF l cfg_ok_distinct [OF ok(1)] refl ports(2,3,1) range]
  have s: "docker_save jd jl d = docker_load jl \<lparr>dk_attrs = dk_attrs d, dk_file = Some t\<rparr>"
  proof -
    have "config_save True (d_set (dk_attrs d) ''ports'' (PStr (jd p))) (dk_file d) = Inr (Some t)"
      using t(1) by (simp only: saved_attrs_def config_save_def rbind_Inr)
    then have "docker_save jd jl d = docker_load jl (d\<lparr>dk_file := Some t\<rparr>)"
      by (simp only: docker_save_def ports(1) option.case range rbind_Inr)
    moreover have "d\<lparr>dk_file := Some t\<rparr> = \<lparr>dk_attrs = dk_attrs d, dk_file = Some t\<rparr>" by simp
    ultimately show ?thesis by (simp only:)
  qed
  from load [of "dk_attrs d"] obtain d' where d': "docker_load jl \<lparr>dk_attrs = dk_attrs d, dk_file = Some t\<rparr> = Inr d'" "dk_file d' = Some t"
    "\<forall>k. d_has (dk_attrs d) k \<longrightarrow> d_get (dk_attrs d') k = d_get (computed r (dk_attrs d)) k" by blast
  from load [of a0] obtain d2 where d2: "docker_load jl \<lparr>dk_attrs = a0, dk_file = Some t\<rparr> = Inr d2"
    "\<forall>k. d_has (dk_attrs d) k \<longrightarrow> d_get (dk_attrs d2) k = d_get (computed r (dk_attrs d)) k" by blast
  show ?thesis by (intro exI [of _ d'] exI [of _ d2] conjI) (use s d' d2 in auto)
qed

theorem docker_attrs_persist_witness:
  "\<exists>d' d2. docker_save (\<lambda>_. ''{}'') (\<lambda>_. Inr (PDict []))
      \<lparr>dk_attrs = [(''ports'', PDict []), (''portrange'', PInt 2), (''done_base'', PBool True)], dk_file = None\<rparr> = Inr d'
    \<and> docker_load (\<lambda>_. Inr (PDict [])) \<lparr>dk_attrs = [], dk_file = dk_file d'\<rparr> = Inr d2
    \<and> d_get (dk_attrs d2) ''done_base'' = Some (PBool True)"
proof -
  let ?d = "\<lparr>dk_attrs = [(''ports'', PDict []), (''portrange'', PInt 2), (''done_base'', PBool True)], dk_file = None\<rparr>"
  let ?jd = "\<lambda>_ :: pyval. ''{}''" and ?jl = "\<lambda>_ :: pyval. Inr (PDict []) :: pyval res"
  have a: "d_get (dk_attrs ?d) ''ports'' = Some (PDict [])" by simp
  have b: "?jd (PDict []) \<noteq> []" "?jl (PStr (?jd (PDict []))) = Inr (PDict [])" by simp_all
  have c: "portrange_of (dk_attrs ?d) = Inr 2" by code_simp
  have e: "cfg_ok (saved_attrs ?jd (PDict []) (dk_attrs ?d))" by code_simp
  have f: "list_all (\<lambda>k. lower k = k) (d_keys (saved_attrs ?jd (PDict []) (dk_attrs ?d)))" by code_simp
  have g: "d_get (computed 2 (dk_attrs ?d)) ''done_base'' = Some (PBool True)" "d_has (dk_attrs ?d) ''done_base''"
    by (simp_all add: computed_def)
  from docker_attrs_persist [where jd = ?jd and jl = ?jl, OF a b c e f, of "[]"] g show ?thesis by metis
qed

section \<open>Numbers of clients\<close>

definition reg_ids :: "registry \<Rightarrow> (string \<times> int) set" where
  "reg_ids r = {(n, i). \<exists>c. d_get (rg_clients r) n = Some c \<and> rc_myid c = Some i}"

definition reg_inv :: "registry \<Rightarrow> bool" where
  \<comment> \<open>no number twice, and all between one and the last given\<close>
  "reg_inv r = ((\<forall>n m i. (n, i) \<in> reg_ids r \<and> (m, i) \<in> reg_ids r \<longrightarrow> n = m)
     \<and> (\<forall>n i. (n, i) \<in> reg_ids r \<longrightarrow> 1 \<le> i \<and> (case rg_last r of None \<Rightarrow> False | Some l \<Rightarrow> i \<le> l))
     \<and> (\<forall>l. rg_last r = Some l \<longrightarrow> 0 \<le> l))"

lemma reg_myname_ids: "reg_ids (fst (reg_myname n pub r)) = reg_ids r \<and> rg_last (fst (reg_myname n pub r)) = rg_last r"
  by (auto simp: reg_myname_def reg_ids_def reg_client_def Let_def split: option.splits if_splits)

lemma reg_myid_ids:
  "reg_ids (fst (reg_myid n pub r)) = reg_ids r \<and> rg_last (fst (reg_myid n pub r)) = rg_last r
   \<or> (\<exists>l. l = (case rg_last r of None \<Rightarrow> 1 | Some l \<Rightarrow> l + 1) \<and> (\<forall>i. (n, i) \<notin> reg_ids r)
        \<and> reg_ids (fst (reg_myid n pub r)) = insert (n, l) (reg_ids r) \<and> rg_last (fst (reg_myid n pub r)) = Some l
        \<and> snd (reg_myid n pub r) = Inr l)"
proof -
  obtain r1 res where m: "reg_myname n pub r = (r1, res)" by (cases "reg_myname n pub r")
  with reg_myname_ids [of n pub r] have r1: "reg_ids r1 = reg_ids r" "rg_last r1 = rg_last r" by simp_all
  show ?thesis
  proof (cases "\<exists>x. res = Inr x \<and> rc_myid (reg_client r1 n) = None")
    case True
    then have "(n, i) \<notin> reg_ids r1" for i by (auto simp: reg_ids_def reg_client_def split: option.splits)
    moreover have "reg_ids (r1\<lparr>rg_last := Some l, rg_clients := d_set (rg_clients r1) n ((reg_client r1 n)\<lparr>rc_myid := Some l\<rparr>)\<rparr>)
        = insert (n, l) (reg_ids r1)" for l
      using True by (auto simp: reg_ids_def reg_client_def split: option.splits if_splits)
    ultimately show ?thesis using True m r1 by (auto simp: reg_myid_def Let_def)
  next
    case False
    then have "fst (reg_myid n pub r) = r1" using m by (auto simp: reg_myid_def Let_def split: sum.splits option.splits)
    with r1 show ?thesis by simp
  qed
qed

lemma reg_myid_answer: "snd (reg_myid n pub r) = Inr i \<Longrightarrow> (n, i) \<in> reg_ids (fst (reg_myid n pub r))"
  by (auto simp: reg_myid_def reg_myname_def reg_ids_def reg_client_def Let_def split: option.splits if_splits prod.splits sum.splits)

definition reg_run :: "registry \<Rightarrow> (string \<times> string) list \<Rightarrow> registry" where
  "reg_run r cs = foldl (\<lambda>r (n, pub). fst (reg_myid n pub r)) r cs"

lemma reg_myid_inv: "reg_inv r \<Longrightarrow> reg_inv (fst (reg_myid n pub r))"
proof -
  assume r: "reg_inv r"
  from reg_myid_ids [of n pub r] show ?thesis
  proof
    assume "reg_ids (fst (reg_myid n pub r)) = reg_ids r \<and> rg_last (fst (reg_myid n pub r)) = rg_last r"
    with r show ?thesis by (simp add: reg_inv_def)
  next
    assume "\<exists>l. l = (case rg_last r of None \<Rightarrow> 1 | Some l \<Rightarrow> l + 1) \<and> (\<forall>i. (n, i) \<notin> reg_ids r)
        \<and> reg_ids (fst (reg_myid n pub r)) = insert (n, l) (reg_ids r) \<and> rg_last (fst (reg_myid n pub r)) = Some l
        \<and> snd (reg_myid n pub r) = Inr l"
    then obtain l where l: "l = (case rg_last r of None \<Rightarrow> 1 | Some l \<Rightarrow> l + 1)"
      "reg_ids (fst (reg_myid n pub r)) = insert (n, l) (reg_ids r)" "rg_last (fst (reg_myid n pub r)) = Some l" by blast
    from r have low: "1 \<le> i \<and> i < l" if "(m, i) \<in> reg_ids r" for m i
      using that l(1) by (cases "rg_last r") (auto simp: reg_inv_def)
    have pos: "1 \<le> l" using r l(1) by (cases "rg_last r") (auto simp: reg_inv_def)
    have "m = m'" if "(m, i) \<in> insert (n, l) (reg_ids r)" "(m', i) \<in> insert (n, l) (reg_ids r)" for m m' i
      using that low [of m i] low [of m' i] r unfolding reg_inv_def by blast
    moreover have "1 \<le> i \<and> i \<le> l" if "(m, i) \<in> insert (n, l) (reg_ids r)" for m i using that low [of m i] pos by auto
    ultimately show ?thesis unfolding reg_inv_def l(2,3) using pos by (intro conjI allI impI) auto
  qed
qed

lemma reg_run_inv: "reg_inv r \<Longrightarrow> reg_inv (reg_run r cs)"
  by (induction cs arbitrary: r) (auto simp: reg_run_def reg_myid_inv)

lemma nat_str_no_dot: "0 \<le> n \<Longrightarrow> CHR ''.'' \<notin> set (int_str n)"
  using int_str_chars [of "CHR ''.''" n] by (auto simp: is_digit_def ccode_def)

lemma subnet_calc_inj: "subnet_calc a = Inr s \<Longrightarrow> subnet_calc b = Inr s \<Longrightarrow> a = b"
proof -
  assume s: "subnet_calc a = Inr s" "subnet_calc b = Inr s"
  then have ab: "0 \<le> a" "0 \<le> b" and eq: "int_str (a div 256) @ ''.'' @ int_str (a mod 256) = int_str (b div 256) @ ''.'' @ int_str (b mod 256)"
    by (auto simp: subnet_calc_def split: if_splits)
  have "split_first (CHR ''.'') (int_str (x div 256) @ CHR ''.'' # int_str (x mod 256)) = Some (int_str (x div 256), int_str (x mod 256))"
    if "0 \<le> x" for x :: int
    unfolding split_first_Some using nat_str_no_dot [of "x div 256"] that by simp
  note cut = this
  have e: "int_str (a div 256) @ CHR ''.'' # int_str (a mod 256) = int_str (b div 256) @ CHR ''.'' # int_str (b mod 256)"
    using eq by (simp only: append_Cons append_Nil)
  have "Some (int_str (a div 256), int_str (a mod 256)) = Some (int_str (b div 256), int_str (b mod 256))"
    using cut [OF ab(1), unfolded e] cut [OF ab(2)] by (rule trans [OF sym])
  then have "int_str (a div 256) = int_str (b div 256)" "int_str (a mod 256) = int_str (b mod 256)" by (simp_all only: option.inject prod.inject)
  then have "a div 256 = b div 256" "a mod 256 = b mod 256" by (simp_all only: int_str_inj)
  then show "a = b" by (metis div_mult_mod_eq)
qed

text \<open>When clients ask a registry for their number one after the other, each reading it anew, two different clients never get the
  same one, and the networks wireguard derives from the numbers are different too. Clients that keep what they read do:
  \<open>registry_race\<close>.\<close>

theorem clients_networks_distinct:
  assumes "reg_inv r" "(n, i) \<in> reg_ids (reg_run r cs)" "(m, j) \<in> reg_ids (reg_run r cs)" "n \<noteq> m"
    and "subnet_calc i = Inr s" "subnet_calc j = Inr t"
  shows "i \<noteq> j \<and> s \<noteq> t"
proof -
  from reg_run_inv [OF assms(1)] assms(2-4) have "i \<noteq> j" unfolding reg_inv_def by blast
  with subnet_calc_inj assms(5,6) show ?thesis by blast
qed

theorem clients_networks_distinct_witness:
  "(''bob'', 1) \<in> reg_ids (reg_run \<lparr>rg_clients = [], rg_last = None\<rparr> [(''bob'', ''k''), (''bob'', ''k''), (''eve'', ''q''), (''eve'', ''q'')])
   \<and> (''eve'', 2) \<in> reg_ids (reg_run \<lparr>rg_clients = [], rg_last = None\<rparr> [(''bob'', ''k''), (''bob'', ''k''), (''eve'', ''q''), (''eve'', ''q'')])
   \<and> subnet_calc 1 \<noteq> subnet_calc 2"
proof -
  let ?r = "\<lparr>rg_clients = [], rg_last = None\<rparr>"
  let ?cs = "[(''bob'', ''k''), (''bob'', ''k''), (''eve'', ''q''), (''eve'', ''q'')]"
  have inv: "reg_inv ?r" by (simp add: reg_inv_def reg_ids_def)
  have "map_option rc_myid (d_get (rg_clients (reg_run ?r ?cs)) ''bob'') = Some (Some 1)"
    "map_option rc_myid (d_get (rg_clients (reg_run ?r ?cs)) ''eve'') = Some (Some 2)" by code_simp+
  then have m: "(''bob'', 1) \<in> reg_ids (reg_run ?r ?cs)" "(''eve'', 2) \<in> reg_ids (reg_run ?r ?cs)" by (auto simp: reg_ids_def)
  have s: "subnet_calc 1 = Inr ''0.1''" "subnet_calc 2 = Inr ''0.2''" by code_simp+
  from clients_networks_distinct [OF inv m _ s] m s show ?thesis by simp
qed

text \<open>The first registration of a client ends in an error, after the client was entered; and two processes that each read the
  registry before the other saved give the same number to two clients.\<close>

lemma registration_raises: "snd (reg_myid n pub \<lparr>rg_clients = [], rg_last = l\<rparr>) = Inl P_TypeError"
  by (simp add: reg_myid_def reg_myname_def reg_client_def Let_def)

lemma registry_race:
  "(let c = \<lparr>rc_keypub = Some ''k'', rc_myid = None\<rparr>; r = \<lparr>rg_clients = [(''bob'', c), (''eve'', c)], rg_last = None\<rparr>;
        (h1, a) = reg_ask 1 ''bob'' ''k'' \<lparr>rh_server = r, rh_kept = [(2, r)]\<rparr>; (h2, b) = reg_ask 2 ''eve'' ''k'' h1
    in (a, b, map_option rc_myid (d_get (rg_clients (rh_server h2)) ''bob''))) = (Inr 1, Inr 1, Some None)"
  by code_simp

text \<open>A process that reads the server anew gets what one shared registry gives.\<close>

lemma reg_ask_fresh:
  assumes "d_get (rh_kept h) k = None"
  shows "snd (reg_ask k n pub h) = snd (reg_myid n pub (rh_server h)) \<and>
    (\<not> isl (snd (reg_ask k n pub h)) \<longrightarrow> reg_ids (rh_server (fst (reg_ask k n pub h))) = reg_ids (fst (reg_myid n pub (rh_server h))))"
proof -
  obtain r res where m: "reg_myid n pub (rh_server h) = (r, res)" by fastforce
  have "reg_ids r = reg_ids (rh_server h)" if "rc_myid (reg_client (rh_server h) n) = Some i" for i
    using reg_myid_ids [of n pub "rh_server h"] that m by (auto simp: reg_ids_def reg_client_def split: option.splits)
  then show ?thesis using assms m by (auto simp: reg_ask_def reg_config_def Let_def)
qed

end
