(* ===== verification/Logs.thy ===== *)
theory Logs
  imports PyVal
begin

text \<open>
  The log handler (\<^verbatim>\<open>install/threesdk/InstallTools.py\<close>, class \<^verbatim>\<open>LogHandler\<close>): every log entry is numbered by a counter in
  redis and kept in a hash there; each time the counter reaches a multiple of 1000 the older thousand entries move to a file,
  and when there are too many files the oldest go. Redis is its hash and counter; the files are listed in the order of their
  modification time; JSON, msgpack being installed, the process id and the clock are arguments. Also the masking of secrets
  in the data of an entry (\<^verbatim>\<open>Tools.log\<close>).
\<close>

section \<open>The handler\<close>

type_synonym logdict = "(string \<times> pyval) list"

record logs =
  lg_hash :: "(int \<times> string) list"
  lg_incr :: int
  lg_last :: int                        \<comment> \<open>\<^verbatim>\<open>last_logid\<close>\<close>
  lg_files :: "(int \<times> string list) list"  \<comment> \<open>the number in the name of the file, and the entries\<close>

definition unset :: "logdict \<Rightarrow> string \<Rightarrow> bool" where
  "unset d k = (case d_get d k of None \<Rightarrow> True | Some v \<Rightarrow> \<not> truth v)"

definition process_logdict :: "int \<Rightarrow> int \<Rightarrow> logdict \<Rightarrow> logdict" where
  "process_logdict pid now d =
     (let d1 = (if unset d ''processid'' \<or> d_get d ''processid'' = Some (PStr ''unknown'') then d_set d ''processid'' (PInt pid) else d)
      in if unset d1 ''epoch'' then d_set d1 ''epoch'' (PInt now) else d1)"

definition log_dumps :: "(logdict \<Rightarrow> string option) \<Rightarrow> logdict \<Rightarrow> string" where
  \<comment> \<open>the text of Python when JSON refuses\<close>
  "log_dumps json d = (case json d of Some s \<Rightarrow> s | None \<Rightarrow> py_str (PDict (map (\<lambda>(k, v). (PStr k, v)) d)))"

definition log_entry :: "(logdict \<Rightarrow> string option) \<Rightarrow> int \<Rightarrow> int \<Rightarrow> int \<Rightarrow> logdict \<Rightarrow> string" where
  "log_entry json pid now i d = log_dumps json (process_logdict pid now (d_set (d_pop d ''traceback'') ''id'' (PInt i)))"

definition redis_log_get :: "logs \<Rightarrow> int \<Rightarrow> string res" where
  "redis_log_get st i = (case d_get (lg_hash st) i of None \<Rightarrow> Inl P_RuntimeError
     | Some s \<Rightarrow> if s = [] then Inl P_RuntimeError else Inr s)"

definition rotate_logs :: "int \<Rightarrow> (int \<times> string list) list \<Rightarrow> (int \<times> string list) list" where
  "rotate_logs maxcount fs =
     (if maxcount + 1 < int (length fs) then drop (nat (int (length fs) - maxcount + 10)) fs else fs)"

definition file_put :: "int \<Rightarrow> string list \<Rightarrow> (int \<times> string list) list \<Rightarrow> (int \<times> string list) list" where
  "file_put n r fs = filter (\<lambda>(m, l). m \<noteq> n) fs @ [(n, r)]"

fun chunks_of :: "nat \<Rightarrow> 'a list \<Rightarrow> 'a list list" where
  "chunks_of n [] = []"
| "chunks_of n (x # xs) = (if n = 0 then [] else take n (x # xs) # chunks_of n (drop (n - 1) xs))"

definition container_dump :: "bool \<Rightarrow> int \<Rightarrow> int \<Rightarrow> logs \<Rightarrow> logs res" where
  \<comment> \<open>whether msgpack is there, \<^verbatim>\<open>MAX_MSGPACKS_LOGS_COUNT\<close>, the number of the entry\<close>
  "container_dump msgpack maxcount latest st =
     (let startid = latest - 2000; stopid = latest - 1000 in
      rbind (if msgpack then
          rbind (rmap (redis_log_get st) [startid + 1 .. stopid]) (\<lambda>r.
          rbind (py_assert (length r = 1000)) (\<lambda>_.
            Inr (st\<lparr>lg_files := rotate_logs maxcount (file_put stopid r (lg_files st))\<rparr>)))
        else Inr st) (\<lambda>st1.
      let old = filter (\<lambda>k. k < stopid + 1) (d_keys (lg_hash st1))
      in Inr (foldl (\<lambda>s ks. s\<lparr>lg_hash := foldl d_pop (lg_hash s) ks\<rparr>) st1 (chunks_of 100 old))))"

definition handle_log :: "(logdict \<Rightarrow> string option) \<Rightarrow> int \<Rightarrow> bool \<Rightarrow> int \<Rightarrow> int \<Rightarrow> logdict \<Rightarrow> logs \<Rightarrow> logs \<times> exn option" where
  \<comment> \<open>JSON, the process id, msgpack, the limit, the clock, the entry; without redis nothing happens\<close>
  "handle_log json pid msgpack maxcount now d st =
     (let i = lg_incr st + 1;
          st1 = st\<lparr>lg_incr := i, lg_last := i, lg_hash := d_set (lg_hash st) i (log_entry json pid now i d)\<rparr>
      in if 2000 \<le> i \<and> i mod 1000 = 0
         then (case container_dump msgpack maxcount i st1 of Inl e \<Rightarrow> (st1, Some e) | Inr st2 \<Rightarrow> (st2, None))
         else (st1, None))"

definition logs_empty :: logs where
  "logs_empty = \<lparr>lg_hash = [], lg_incr = 0, lg_last = 0, lg_files = []\<rparr>"

fun handle_logs :: "(logdict \<Rightarrow> string option) \<Rightarrow> int \<Rightarrow> bool \<Rightarrow> int \<Rightarrow> (int \<times> logdict) list \<Rightarrow> logs \<Rightarrow> logs \<times> exn option" where
  "handle_logs json pid mp mx [] st = (st, None)"
| "handle_logs json pid mp mx ((now, d) # es) st =
     (case handle_log json pid mp mx now d st of
        (st', Some e) \<Rightarrow> (st', Some e)
      | (st', None) \<Rightarrow> handle_logs json pid mp mx es st')"

section \<open>Secrets\<close>

definition secret_keys :: "string list" where
  "secret_keys = [''passwd'', ''password'', ''secret'']"

definition mask_caller :: "logdict \<Rightarrow> logdict" where
  \<comment> \<open>what \<^verbatim>\<open>log\<close> does to the dictionary of its caller\<close>
  "mask_caller d = (if d_has d ''password'' \<or> d_has d ''secret'' \<or> d_has d ''passwd'' then d_set d ''password'' (PStr ''***'') else d)"

definition serializer_mask :: "logdict \<Rightarrow> logdict" where
  "serializer_mask d = foldl (\<lambda>d k. if d_has d k then d_set d k (PStr ''***'') else d) d secret_keys"

definition log_data :: "(logdict \<Rightarrow> string) \<Rightarrow> logdict \<Rightarrow> string" where
  \<comment> \<open>the argument serializes and removes colour codes\<close>
  "log_data ser d = ser (serializer_mask (mask_caller d))"

section \<open>What is kept\<close>

definition log_stop :: "int \<Rightarrow> int" where
  \<comment> \<open>the last entry that has moved to a file when \<open>n\<close> entries were made\<close>
  "log_stop n = (if n < 2000 then 0 else (n div 1000 - 1) * 1000)"

definition archive :: "(int \<Rightarrow> string) \<Rightarrow> int \<Rightarrow> int \<Rightarrow> (int \<times> string list) list" where
  "archive T lo hi = map (\<lambda>k. (1000 * k, map T [1000 * k - 999 .. 1000 * k])) [lo + 1 .. hi]"

definition logs_ok :: "(int \<Rightarrow> string) \<Rightarrow> int \<Rightarrow> int \<Rightarrow> logs \<Rightarrow> bool" where
  "logs_ok T mx n st = (lg_incr st = n \<and> distinct (d_keys (lg_hash st))
     \<and> (\<forall>i. d_get (lg_hash st) i = (if log_stop n < i \<and> i \<le> n then Some (T i) else None))
     \<and> (\<exists>lo hi. log_stop n = 1000 * hi \<and> 0 \<le> lo \<and> lo \<le> hi \<and> lg_files st = archive T lo hi \<and> hi - lo \<le> mx + 1
          \<and> (lo = 0 \<or> mx - 10 \<le> hi - lo \<and> mx + 1 < hi)))"

definition available :: "logs \<Rightarrow> int \<Rightarrow> string \<Rightarrow> bool" where
  "available st i s = (d_get (lg_hash st) i = Some s
     \<or> (\<exists>k l. (k, l) \<in> set (lg_files st) \<and> k - 1000 < i \<and> i \<le> k \<and> l ! nat (i - k + 999) = s))"

lemma concat_chunks_of: "0 < n \<Longrightarrow> concat (chunks_of n l) = l"
proof (induction n l rule: chunks_of.induct)
  case (2 n x xs)
  then have "concat (chunks_of n (drop (n - 1) xs)) = drop (n - 1) xs" by simp
  moreover have "take n (x # xs) @ drop (n - 1) xs = x # xs" using 2(2) by (cases n) auto
  ultimately show ?case using 2(2) by simp
qed simp

lemma pop_chunks:
  "foldl (\<lambda>s ks. s\<lparr>lg_hash := foldl d_pop (lg_hash s) ks\<rparr>) st cs = st\<lparr>lg_hash := foldl d_pop (lg_hash st) (concat cs)\<rparr>"
  by (induction cs arbitrary: st) auto

lemma d_get_pops: "d_get (foldl d_pop h ks) k = (if k \<in> set ks then None else d_get h k)"
  by (induction ks arbitrary: h) auto

lemma distinct_pops: "distinct (d_keys h) \<Longrightarrow> distinct (d_keys (foldl d_pop h ks))"
  by (induction ks arbitrary: h) (auto intro: distinct_d_pop)

lemma archive_simps [simp]: "length (archive T lo hi) = nat (hi - lo)"
  by (simp add: archive_def)

lemma archive_snoc: "lo \<le> hi \<Longrightarrow> archive T lo (hi + 1) = archive T lo hi @ [(1000 * (hi + 1), map T [1000 * (hi + 1) - 999 .. 1000 * (hi + 1)])]"
  by (simp add: archive_def upto_rec2 [of "lo + 1" "hi + 1"])

lemma archive_drop: "0 \<le> m \<Longrightarrow> m \<le> hi - lo \<Longrightarrow> drop (nat m) (archive T lo hi) = archive T (lo + m) hi"
proof (induction "nat m" arbitrary: m lo)
  case 0
  then show ?case by simp
next
  case (Suc k)
  then have k: "k = nat (m - 1)" "0 \<le> m - 1" "m - 1 \<le> hi - (lo + 1)" by auto
  have "archive T lo hi = (1000 * (lo + 1), map T [1000 * (lo + 1) - 999 .. 1000 * (lo + 1)]) # archive T (lo + 1) hi"
    using k by (simp add: archive_def upto_rec1 [of "lo + 1" hi])
  moreover have "nat m = Suc (nat (m - 1))" using k by simp
  ultimately show ?case using Suc(1) [OF k] by simp
qed

lemma archive_names: "(k, l) \<in> set (archive T lo hi) \<Longrightarrow> k \<le> 1000 * hi"
  by (auto simp: archive_def)

lemma log_stop_step:
  assumes "0 \<le> n"
  shows "if 2000 \<le> n + 1 \<and> (n + 1) mod 1000 = 0 then log_stop n = n + 1 - 2000 \<and> log_stop (n + 1) = n + 1 - 1000
    else log_stop (n + 1) = log_stop n"
proof -
  have a: "n + 1 = 1000 * ((n + 1) div 1000) + (n + 1) mod 1000" by simp
  show ?thesis
  proof (cases "(n + 1) mod 1000 = 0")
    case True
    obtain q where q: "(n + 1) div 1000 = q" by simp
    with a True have n: "n = 1000 * q - 1" by simp
    have d: "n div 1000 = q - 1" by (rule int_div_pos_eq [of _ _ _ 999]) (use n in auto)
    have "log_stop n = n + 1 - 2000" "log_stop (n + 1) = n + 1 - 1000" if "2000 \<le> n + 1"
      using that n unfolding log_stop_def d q by (auto split: if_splits)
    moreover have "log_stop (n + 1) = log_stop n" if "\<not> 2000 \<le> n + 1" using that by (simp add: log_stop_def)
    ultimately show ?thesis using True by simp
  next
    case False
    have m: "0 \<le> (n + 1) mod 1000" "(n + 1) mod 1000 < 1000" by simp_all
    have "n div 1000 = (n + 1) div 1000"
      by (rule int_div_pos_eq [of _ _ _ "(n + 1) mod 1000 - 1"]) (use a m False in linarith)+
    moreover have "2000 \<le> n + 1 \<longleftrightarrow> 2000 \<le> n" using False by (cases "n = 1999") auto
    ultimately have "log_stop (n + 1) = log_stop n" by (auto simp: log_stop_def)
    then show ?thesis using False by simp
  qed
qed

lemma log_stop_bounds: "0 \<le> n \<Longrightarrow> 0 \<le> log_stop n \<and> log_stop n \<le> n \<and> n - log_stop n \<le> 1999"
  by (auto simp: log_stop_def)

lemma rotate_archive:
  assumes "0 \<le> mx" "0 \<le> lo" "lo \<le> hi" "hi - lo \<le> mx + 2" "lo = 0 \<or> mx - 10 \<le> hi - lo \<and> mx + 1 < hi"
  shows "\<exists>lo'. 0 \<le> lo' \<and> lo' \<le> hi \<and> rotate_logs mx (archive T lo hi) = archive T lo' hi \<and> hi - lo' \<le> mx + 1
    \<and> (lo' = 0 \<or> mx - 10 \<le> hi - lo' \<and> mx + 1 < hi)"
proof (cases "mx + 1 < hi - lo")
  case False
  with assms show ?thesis by (intro exI [of _ lo]) (auto simp: rotate_logs_def)
next
  case True
  let ?m = "hi - lo - mx + 10"
  show ?thesis
  proof (cases "?m \<le> hi - lo")
    case le: True
    have "rotate_logs mx (archive T lo hi) = archive T (lo + ?m) hi"
      using True assms archive_drop [of ?m hi lo T] le by (simp add: rotate_logs_def)
    with True le assms show ?thesis by (intro exI [of _ "lo + ?m"]) auto
  next
    case False
    have "rotate_logs mx (archive T lo hi) = archive T hi hi"
      using True False assms by (simp add: rotate_logs_def) (simp add: archive_def)
    with True False assms show ?thesis by (intro exI [of _ hi]) auto
  qed
qed

lemma dump_ok:
  assumes "0 \<le> mx" "1999 \<le> n" "(n + 1) mod 1000 = 0"
    and get: "\<And>i. d_get (lg_hash st) i = (if log_stop n < i \<and> i \<le> n + 1 then Some (T i) else None)"
    and ne: "\<And>i. 1 \<le> i \<Longrightarrow> i \<le> n + 1 \<Longrightarrow> T i \<noteq> []" and di: "distinct (d_keys (lg_hash st))" and inc: "lg_incr st = n + 1"
    and files: "log_stop n = 1000 * hi" "0 \<le> lo" "lo \<le> hi" "lg_files st = archive T lo hi" "hi - lo \<le> mx + 1"
      "lo = 0 \<or> mx - 10 \<le> hi - lo \<and> mx + 1 < hi"
  shows "\<exists>st'. container_dump True mx (n + 1) st = Inr st' \<and> logs_ok T mx (n + 1) st'"
proof -
  have stop: "log_stop n = n + 1 - 2000" "log_stop (n + 1) = n + 1 - 1000"
    using log_stop_step [of n] assms(2,3) by auto
  then have hi: "n + 1 - 2000 = 1000 * hi" "n + 1 - 1000 = 1000 * (hi + 1)" using files(1) by auto
  have r: "rmap (redis_log_get st) [n + 1 - 2000 + 1 .. n + 1 - 1000] = Inr (map T [n + 1 - 2000 + 1 .. n + 1 - 1000])"
  proof (rule rmap_all)
    fix i assume "i \<in> set [n + 1 - 2000 + 1 .. n + 1 - 1000]"
    then have "d_get (lg_hash st) i = Some (T i)" "T i \<noteq> []" using get ne assms(2) by (auto simp: stop)
    then show "redis_log_get st i = Inr (T i)" by (simp add: redis_log_get_def)
  qed
  have flt: "filter (\<lambda>(m, l). m \<noteq> n + 1 - 1000) (archive T lo hi) = archive T lo hi"
    using archive_names [of _ _ T lo hi] hi by (intro filter_True) fastforce
  have n: "n = 1000 * hi + 1999" using hi by simp
  have put: "file_put (n + 1 - 1000) (map T [n + 1 - 2000 + 1 .. n + 1 - 1000]) (archive T lo hi) = archive T lo (hi + 1)"
    using flt archive_snoc [OF files(3), of T] by (simp add: file_put_def n add.commute)
  from rotate_archive [of mx lo "hi + 1" T] assms(1) files obtain lo' where
    lo': "0 \<le> lo'" "lo' \<le> hi + 1" "rotate_logs mx (archive T lo (hi + 1)) = archive T lo' (hi + 1)" "hi + 1 - lo' \<le> mx + 1"
      "lo' = 0 \<or> mx - 10 \<le> hi + 1 - lo' \<and> mx + 1 < hi + 1" by auto
  let ?old = "filter (\<lambda>k. k < n + 1 - 1000 + 1) (d_keys (lg_hash st))"
  let ?st' = "st\<lparr>lg_files := archive T lo' (hi + 1), lg_hash := foldl d_pop (lg_hash st) ?old\<rparr>"
  have lt: "filter (\<lambda>k. k \<le> n - 999) l = filter (\<lambda>k. k < n - 998) l" for l by (rule filter_cong) auto
  have "container_dump True mx (n + 1) st = Inr ?st'"
    using r put lo'(3) files(4) by (simp add: container_dump_def Let_def pop_chunks concat_chunks_of lt)
  moreover have old: "k \<in> set ?old \<longleftrightarrow> k < n + 1 - 1000 + 1 \<and> log_stop n < k \<and> k \<le> n + 1" for k
    using get [of k] d_get_None_iff [of "lg_hash st" k] by (auto split: if_splits)
  moreover have "d_get (foldl d_pop (lg_hash st) ?old) i = (if log_stop (n + 1) < i \<and> i \<le> n + 1 then Some (T i) else None)" for i
    unfolding d_get_pops old using get [of i] by (auto simp: stop)
  ultimately show ?thesis
    unfolding logs_ok_def using inc di lo' hi(2) stop(2) distinct_pops [OF di, of ?old]
    by (intro exI [of _ ?st'] conjI allI exI [of _ lo'] exI [of _ "hi + 1"]) auto
qed

lemma handle_log_ok:
  assumes "0 \<le> mx" "0 \<le> n" "logs_ok T mx n st" "T (n + 1) = log_entry json pid now (n + 1) d"
    and ne: "\<And>i. 1 \<le> i \<Longrightarrow> i \<le> n + 1 \<Longrightarrow> T i \<noteq> []"
  shows "\<exists>st'. handle_log json pid True mx now d st = (st', None) \<and> logs_ok T mx (n + 1) st'"
proof -
  from assms(3) obtain lo hi where st: "lg_incr st = n" "distinct (d_keys (lg_hash st))"
    "\<And>i. d_get (lg_hash st) i = (if log_stop n < i \<and> i \<le> n then Some (T i) else None)"
    and f: "log_stop n = 1000 * hi" "0 \<le> lo" "lo \<le> hi" "lg_files st = archive T lo hi" "hi - lo \<le> mx + 1"
      "lo = 0 \<or> mx - 10 \<le> hi - lo \<and> mx + 1 < hi" unfolding logs_ok_def by blast
  define st1 where "st1 = st\<lparr>lg_incr := n + 1, lg_last := n + 1, lg_hash := d_set (lg_hash st) (n + 1) (T (n + 1))\<rparr>"
  have low: "log_stop n \<le> n" using log_stop_bounds [OF assms(2)] by simp
  have g1: "d_get (lg_hash st1) i = (if log_stop n < i \<and> i \<le> n + 1 then Some (T i) else None)" for i
    using st(3) [of i] low by (auto simp: st1_def)
  have s1: "distinct (d_keys (lg_hash st1))" "lg_incr st1 = n + 1" "lg_files st1 = archive T lo hi"
    using st(2) f(4) by (auto simp: st1_def intro: distinct_d_set)
  have h: "handle_log json pid True mx now d st =
     (if 2000 \<le> n + 1 \<and> (n + 1) mod 1000 = 0
      then (case container_dump True mx (n + 1) st1 of Inl e \<Rightarrow> (st1, Some e) | Inr st2 \<Rightarrow> (st2, None)) else (st1, None))"
    by (simp only: handle_log_def st(1) assms(4) [symmetric] st1_def Let_def)
  show ?thesis
  proof (cases "2000 \<le> n + 1 \<and> (n + 1) mod 1000 = 0")
    case True
    then have "1999 \<le> n" "(n + 1) mod 1000 = 0" by auto
    from dump_ok [OF assms(1) this g1 ne s1(1,2) f(1-3) s1(3) f(5,6)] h True show ?thesis by auto
  next
    case False
    then have "log_stop (n + 1) = log_stop n" using log_stop_step [OF assms(2)] by auto
    then have "logs_ok T mx (n + 1) st1" unfolding logs_ok_def using g1 s1 f by auto
    with h False show ?thesis by auto
  qed
qed

lemma handle_logs_ok:
  assumes "0 \<le> mx" "0 \<le> n" "logs_ok T mx n st"
    and T: "\<And>k. k < length es \<Longrightarrow> T (n + 1 + int k) = log_entry json pid (fst (es ! k)) (n + 1 + int k) (snd (es ! k))"
    and ne: "\<And>i. 1 \<le> i \<Longrightarrow> i \<le> n + int (length es) \<Longrightarrow> T i \<noteq> []"
  shows "\<exists>st'. handle_logs json pid True mx es st = (st', None) \<and> logs_ok T mx (n + int (length es)) st'"
  using assms(2-)
proof (induction es arbitrary: n st)
  case Nil
  then show ?case by simp
next
  case (Cons e es)
  obtain now d where e: "e = (now, d)" by (cases e)
  from Cons.prems(3) [of 0] e have "T (n + 1) = log_entry json pid now (n + 1) d" by simp
  from handle_log_ok [OF assms(1) Cons.prems(1,2) this] Cons.prems(4) obtain st1
    where st1: "handle_log json pid True mx now d st = (st1, None)" "logs_ok T mx (n + 1) st1" by auto
  have "T (n + 1 + 1 + int k) = log_entry json pid (fst (es ! k)) (n + 1 + 1 + int k) (snd (es ! k))" if "k < length es" for k
    using Cons.prems(3) [of "Suc k"] that by (simp add: add.assoc)
  from Cons.IH [OF _ st1(2) this] Cons.prems(1,4) obtain st2
    where "handle_logs json pid True mx es st1 = (st2, None)" "logs_ok T mx (n + 1 + int (length es)) st2" by auto
  with st1(1) e show ?case by (simp add: algebra_simps)
qed

lemma archive_mem:
  assumes "1000 * lo < i" "i \<le> 1000 * hi"
  shows "\<exists>k l. (k, l) \<in> set (archive T lo hi) \<and> k - 1000 < i \<and> i \<le> k \<and> l ! nat (i - k + 999) = T i"
proof -
  define q where "q = (i - 1) div 1000 + 1"
  have e: "i - 1 = 1000 * ((i - 1) div 1000) + (i - 1) mod 1000" by simp
  have m: "0 \<le> (i - 1) mod 1000" "(i - 1) mod 1000 < 1000" by simp_all
  have ql: "1000 * q - 1000 < i" unfolding q_def using e m(1) by simp
  have qh: "i \<le> 1000 * q" unfolding q_def using e m(2) by simp
  note q = ql qh
  have "lo + 1 \<le> q" using qh assms(1) by linarith
  moreover have "q \<le> hi" using ql assms(2) by linarith
  moreover have "map T [1000 * q - 999 .. 1000 * q] ! nat (i - 1000 * q + 999) = T i"
    using q by (simp add: nth_upto nat_less_iff)
  ultimately show ?thesis using q
    by (intro exI [of _ "1000 * q"] exI [of _ "map T [1000 * q - 999 .. 1000 * q]"] conjI) (simp_all add: archive_def)
qed

lemma logs_ok_available:
  assumes "0 \<le> n" "logs_ok T mx n st" "1 \<le> i" "i \<le> n" "log_stop n \<le> 1000 * (mx + 1) \<or> log_stop n - 1000 * (mx - 10) < i"
  shows "available st i (T i)"
proof (cases "log_stop n < i")
  case True
  with assms show ?thesis by (simp add: available_def logs_ok_def)
next
  case False
  from assms(2) obtain lo hi where f: "log_stop n = 1000 * hi" "0 \<le> lo" "lg_files st = archive T lo hi"
    "lo = 0 \<or> mx - 10 \<le> hi - lo \<and> mx + 1 < hi" unfolding logs_ok_def by blast
  with False assms(3,5) have "1000 * lo < i" "i \<le> 1000 * hi" by auto
  from archive_mem [OF this] show ?thesis by (simp add: available_def f(3))
qed

lemma logs_ok_size:
  assumes "0 \<le> n" "logs_ok T mx n st"
  shows "length (lg_hash st) \<le> 1999" "int (length (lg_files st)) \<le> max 0 (mx + 1)"
proof -
  have g: "\<And>i. d_get (lg_hash st) i = (if log_stop n < i \<and> i \<le> n then Some (T i) else None)" and di: "distinct (d_keys (lg_hash st))"
    using assms(2) by (auto simp: logs_ok_def)
  have "set (d_keys (lg_hash st)) = {log_stop n <.. n}"
    using d_get_None_iff [of "lg_hash st"] g by (auto split: if_splits) (metis option.distinct(1))+
  then have "length (d_keys (lg_hash st)) = card {log_stop n <.. n}" using distinct_card [OF di] by simp
  then show "length (lg_hash st) \<le> 1999" using log_stop_bounds [OF assms(1)] by (simp add: d_keys_def nat_le_iff)
  show "int (length (lg_files st)) \<le> max 0 (mx + 1)" using assms(2) by (auto simp: logs_ok_def)
qed

definition json_ok :: "(logdict \<Rightarrow> string option) \<Rightarrow> bool" where
  \<comment> \<open>JSON text is never empty\<close>
  "json_ok json = (\<forall>d. json d \<noteq> Some [])"

lemma log_entry_ne: "json_ok json \<Longrightarrow> log_entry json pid now i d \<noteq> []"
  by (auto simp: json_ok_def log_entry_def log_dumps_def py_str_def Let_def split: option.splits)

text \<open>C24: However many entries are logged, redis never holds two thousand of them and there are never more files than the limit and
  one; every entry is still there, in redis or in its place in a file, until the limit is passed, and after that at least the last
  ten less than the limit thousands of entries before those in redis are.\<close>

theorem logs_kept:
  assumes "0 \<le> mx" "json_ok json" "handle_logs json pid True mx es logs_empty = (st, r)" "n = int (length es)"
  shows "r = None \<and> length (lg_hash st) \<le> 1999 \<and> int (length (lg_files st)) \<le> mx + 1
    \<and> (\<forall>i. 1 \<le> i \<and> i \<le> n \<and> (log_stop n \<le> 1000 * (mx + 1) \<or> log_stop n - 1000 * (mx - 10) < i) \<longrightarrow>
         available st i (log_entry json pid (fst (es ! nat (i - 1))) i (snd (es ! nat (i - 1)))))"
proof -
  define T where "T = (\<lambda>i. log_entry json pid (fst (es ! nat (i - 1))) i (snd (es ! nat (i - 1))))"
  have "logs_ok T mx 0 logs_empty"
    using assms(1) unfolding logs_ok_def logs_empty_def
    by (intro conjI exI [of _ 0]) (auto simp: log_stop_def archive_def)
  from handle_logs_ok [where T = T and es = es and json = json and pid = pid, OF assms(1) order_refl this]
  obtain st' where "handle_logs json pid True mx es logs_empty = (st', None)" "logs_ok T mx (int (length es)) st'"
    using log_entry_ne [OF assms(2)] by (auto simp: T_def)
  with assms(3,4) have st: "r = None" "logs_ok T mx n st" by simp_all
  have n: "0 \<le> n" using assms(4) by simp
  show ?thesis using st(1) logs_ok_size [OF n st(2)] logs_ok_available [OF n st(2)] assms(1) by (auto simp: T_def)
qed

theorem logs_kept_witness:
  "(case handle_logs (\<lambda>d. Some ''x'') 7 True 50 [(1, [(''message'', PStr ''hello'')]), (2, [])] logs_empty of
     (st, r) \<Rightarrow> r = None \<and> available st 1 ''x'' \<and> available st 2 ''x'')"
proof -
  let ?es = "[(1, [(''message'', PStr ''hello'')]), (2, [])]"
  obtain st r where h: "handle_logs (\<lambda>d. Some ''x'') 7 True 50 ?es logs_empty = (st, r)" by (cases "handle_logs (\<lambda>d. Some ''x'') 7 True 50 ?es logs_empty")
  have "json_ok (\<lambda>d. Some ''x'')" by (simp add: json_ok_def)
  from logs_kept [OF _ this h refl] have "r = None"
    "\<forall>i. 1 \<le> i \<and> i \<le> 2 \<longrightarrow> available st i ''x''" by (auto simp: log_stop_def log_entry_def log_dumps_def)
  then show ?thesis unfolding h by simp
qed

text \<open>A limit of ten files or less empties the directory at the first rotation, the file just written included.\<close>

lemma rotate_empties: "mx \<le> 10 \<Longrightarrow> mx + 1 < int (length fs) \<Longrightarrow> rotate_logs mx fs = []"
  by (simp add: rotate_logs_def)

section \<open>Secrets\<close>

lemma foldl_mask_get:
  "d_get (foldl (\<lambda>d k. if d_has d k then d_set d k (PStr ''***'') else d) d ks) k
   = (if k \<in> set ks \<and> d_has d k then Some (PStr ''***'') else d_get d k)"
  by (induction ks arbitrary: d) auto

lemma d_set_keys_same: "d_has d k \<Longrightarrow> d_keys (d_set d k v) = d_keys d"
  using d_get_None_iff [of d k] by (simp add: d_keys_set)

lemma foldl_mask_keys: "d_keys (foldl (\<lambda>d k. if d_has d k then d_set d k (PStr ''***'') else d) d ks) = d_keys d"
  by (induction ks arbitrary: d) (auto simp: d_set_keys_same)

lemma dict_eqI:
  "distinct (d_keys a) \<Longrightarrow> d_keys a = d_keys b \<Longrightarrow> (\<And>k. k \<in> set (d_keys a) \<Longrightarrow> d_get a k = d_get b k) \<Longrightarrow> a = b"
proof (induction a arbitrary: b)
  case (Cons kv a)
  obtain k v where kv: "kv = (k, v)" by (cases kv)
  with Cons.prems(2) obtain w b' where b: "b = (k, w) # b'" "d_keys a = d_keys b'" by (cases b) (auto simp: d_keys_def)
  from Cons.prems(3) [of k] kv b have "v = w" by simp
  moreover have "d_get a k' = d_get b' k'" if "k' \<in> set (d_keys a)" for k'
    using Cons.prems(1) Cons.prems(3) [of k'] that kv b by (auto split: if_splits)
  then have "a = b'" using Cons.IH [of b'] Cons.prems(1) kv b by simp
  ultimately show ?case using kv b by simp
qed (auto simp: d_keys_def)

definition same_public :: "logdict \<Rightarrow> logdict \<Rightarrow> bool" where
  "same_public d e = (d_keys d = d_keys e \<and> (\<forall>k. k \<notin> set secret_keys \<longrightarrow> d_get d k = d_get e k))"

text \<open>C29: What a log entry shows of a dictionary does not depend on the values under passwd, password and secret.\<close>

theorem log_hides_secrets:
  assumes "distinct (d_keys d)" "same_public d e"
  shows "log_data ser d = log_data ser e"
proof -
  have keys: "d_keys d = d_keys e" and pub: "\<And>k. k \<notin> set secret_keys \<Longrightarrow> d_get d k = d_get e k"
    using assms(2) by (auto simp: same_public_def)
  have has: "d_has d k = d_has e k" for k using d_get_None_iff [of d k] d_get_None_iff [of e k] keys by simp
  define P where "P = ''password''"
  define b where "b = (d_has e P \<or> d_has e ''secret'' \<or> d_has e ''passwd'')"
  have mc: "mask_caller d = (if b then d_set d P (PStr ''***'') else d)" "mask_caller e = (if b then d_set e P (PStr ''***'') else e)"
    unfolding mask_caller_def b_def P_def has by (rule refl)+
  have k: "d_keys (mask_caller d) = d_keys (mask_caller e)" unfolding mc by (simp add: d_keys_set keys)
  have "distinct (d_keys (mask_caller d))" unfolding mc using assms(1) by (auto intro: distinct_d_set)
  then have "distinct (d_keys (serializer_mask (mask_caller d)))" unfolding serializer_mask_def foldl_mask_keys .
  moreover have "d_keys (serializer_mask (mask_caller d)) = d_keys (serializer_mask (mask_caller e))"
    unfolding serializer_mask_def foldl_mask_keys by (rule k)
  moreover have "d_get (serializer_mask (mask_caller d)) x = d_get (serializer_mask (mask_caller e)) x" for x
  proof -
    have h: "d_has (mask_caller d) x = d_has (mask_caller e) x" unfolding mc using has [of x] by (simp add: d_get_set)
    have "d_get (mask_caller d) x = d_get (mask_caller e) x" if "x \<notin> set secret_keys"
      unfolding mc using pub [OF that] by (simp add: d_get_set)
    with h show ?thesis unfolding serializer_mask_def foldl_mask_get
      by (cases "x \<in> set secret_keys"; cases "d_get (mask_caller d) x"; cases "d_get (mask_caller e) x") auto
  qed
  ultimately show ?thesis unfolding log_data_def by (intro arg_cong [of _ _ ser] dict_eqI)
qed

theorem log_hides_secrets_witness:
  "log_data (\<lambda>d. py_str (PList (map snd d))) [(''user'', PStr ''bob''), (''secret'', PStr ''s3'')]
   = log_data (\<lambda>d. py_str (PList (map snd d))) [(''user'', PStr ''bob''), (''secret'', PStr ''other'')]"
  by (rule log_hides_secrets) (simp_all add: same_public_def secret_keys_def)

end
