(* ===== verification/GitUrl.thy ===== *)
theory GitUrl
  imports Config
begin

text \<open>
  The addresses of git repositories (\<^verbatim>\<open>install/threesdk/InstallTools.py\<close>: \<^verbatim>\<open>code_git_rewrite_url\<close>, \<^verbatim>\<open>code_gitrepo_args\<close>,
  \<^verbatim>\<open>code_giturl_parse\<close>): reading an ssh or http address, writing the address to clone from, and where the code goes on disk.
  The environment variables, the code directory and the existence of a directory are arguments.
\<close>

section \<open>Rewriting an address\<close>

record repo_info =
  ri_protocol :: string
  ri_host :: string
  ri_account :: string
  ri_name :: string
  ri_url :: string
  ri_port :: "int option"

definition slash :: char where "slash = CHR ''/''"
definition colon :: char where "colon = CHR '':''"

definition tail_slash :: "string \<Rightarrow> string" where
  \<comment> \<open>what \<^verbatim>\<open>(.*?)/?$\<close> takes: all but one slash at the end\<close>
  "tail_slash s = (if s \<noteq> [] \<and> last s = slash then butlast s else s)"

definition match_tail :: "char \<Rightarrow> string \<Rightarrow> (string \<times> string \<times> string) option" where
  \<comment> \<open>\<^verbatim>\<open>(.*?)SEP(.*?)/(.*?)/?$\<close>\<close>
  "match_tail sep s = (case split_first sep s of None \<Rightarrow> None
     | Some (h, r) \<Rightarrow> (case split_first slash r of None \<Rightarrow> None | Some (a, n) \<Rightarrow> Some (h, a, tail_slash n)))"

definition match_body :: "string \<Rightarrow> string option" where
  \<comment> \<open>a dot does not match a newline and \<^verbatim>\<open>$\<close> also matches before a last one\<close>
  "match_body s = (let b = (if s \<noteq> [] \<and> last s = nl then butlast s else s) in if nl \<in> set b then None else Some b)"

definition match_prefix :: "string list \<Rightarrow> char \<Rightarrow> string \<Rightarrow> (string \<times> string \<times> string \<times> string) option" where
  "match_prefix ps sep s = (case match_body s of None \<Rightarrow> None
     | Some b \<Rightarrow> (case filter (\<lambda>p. starts_with p b) ps of [] \<Rightarrow> None
       | p # _ \<Rightarrow> map_option (\<lambda>(h, a, n). (p, h, a, n)) (match_tail sep (drop (length p) b))))"

definition url_match_groups :: "string \<Rightarrow> ((string \<times> string \<times> string \<times> string) \<times> bool) option" where
  \<comment> \<open>the groups, and whether the address is one for ssh\<close>
  "url_match_groups s =
     (case match_prefix [''git@''] colon s of Some g \<Rightarrow> Some (g, True)
      | None \<Rightarrow> (case match_prefix [''git@''] slash s of Some g \<Rightarrow> Some (g, True)
        | None \<Rightarrow> (case match_prefix [''https://'', ''http://''] slash s of Some g \<Rightarrow> Some (g, False) | None \<Rightarrow> None)))"

definition ssh_choice :: "pyval \<Rightarrow> pyval res" where
  \<comment> \<open>\<^verbatim>\<open>MyEnv\<close> has no attribute \<^verbatim>\<open>available\<close>: the exception makes the automatic choice False\<close>
  "ssh_choice v = (if v = PStr ''auto'' \<or> v = PStr ''first'' then Inr (PBool False)
     else if truth v \<or> v = PBool False then Inr v else Inl E_Base)"

definition url_port :: "string \<Rightarrow> string \<times> int option" where
  "url_port url = (case split_char colon url of
       _ # w # _ \<Rightarrow> (case py_int (hd (split_char slash w)) of
           Some p \<Rightarrow> (replace_str (colon # int_str p @ ''/'') '':'' url, Some p) | None \<Rightarrow> (url, None))
     | _ \<Rightarrow> (url, None))"

definition dot_git :: "string \<Rightarrow> string" where
  "dot_git n = (if ends_with ''.git'' n then n else n @ ''.git'')"

definition no_git :: "string \<Rightarrow> string" where
  "no_git n = (if ends_with ''.git'' n then take (length n - 4) n else n)"

definition code_git_rewrite_url :: "string \<Rightarrow> string option \<Rightarrow> string option \<Rightarrow> pyval \<Rightarrow> repo_info res" where
  "code_git_rewrite_url url0 login0 passwd ssh0 =
     rbind (ssh_choice ssh0) (\<lambda>ssh.
     let url1 = strip url0;
         url2 = (if starts_with ''ssh://'' url1 then replace_str ''ssh://'' [] url1 else url1);
         login = (if truth ssh then Some ''ssh'' else login0);
         (url3, port) = (if truth ssh then url_port url2 else (url2, None))
     in (case url_match_groups url3 of
           None \<Rightarrow> Inl E_Base
         | Some ((protocol0, h, a, n), url_ssh) \<Rightarrow>
             rbind (py_assert (strip n \<noteq> [])) (\<lambda>_.
             rbind (py_assert (strip a \<noteq> [])) (\<lambda>_.
             let protocol = (if starts_with ''git'' protocol0 \<and> ssh = PBool False then ''https://'' else protocol0);
                 name = dot_git n;
                 path = ''/'' @ a @ ''/'' @ name
             in Inr (if (login = Some ''ssh'' \<or> url_ssh) \<and> truth ssh then
                  \<lparr>ri_protocol = ''ssh'', ri_host = h, ri_account = a, ri_name = no_git name,
                   ri_url = ''ssh://git@'' @ h @ (case port of None \<Rightarrow> [] | Some p \<Rightarrow> colon # int_str p) @ path, ri_port = port\<rparr>
                else (case login of
                    Some l \<Rightarrow>
                      if l \<noteq> [] \<and> l \<noteq> ''guest'' then
                        \<lparr>ri_protocol = protocol, ri_host = h, ri_account = a, ri_name = no_git name,
                         ri_url = protocol @ l @ '':'' @ (case passwd of None \<Rightarrow> ''None'' | Some p \<Rightarrow> p) @ ''@'' @ h @ path, ri_port = port\<rparr>
                      else \<lparr>ri_protocol = protocol, ri_host = h, ri_account = a, ri_name = no_git name,
                         ri_url = protocol @ h @ path, ri_port = port\<rparr>
                  | None \<Rightarrow> \<lparr>ri_protocol = protocol, ri_host = h, ri_account = a, ri_name = no_git name,
                         ri_url = protocol @ h @ path, ri_port = port\<rparr>))))))"

section \<open>Where a repository goes\<close>

record repo_args =
  ra_host :: string
  ra_type :: string
  ra_account :: string
  ra_name :: string
  ra_dest :: string
  ra_url :: string
  ra_port :: "int option"

definition code_gitrepo_args :: "(string \<times> string) list \<Rightarrow> string \<Rightarrow> (string \<Rightarrow> bool) \<Rightarrow> string \<Rightarrow> string option \<Rightarrow> string option
    \<Rightarrow> string option \<Rightarrow> bool \<Rightarrow> pyval \<Rightarrow> (repo_args \<times> string option) res" where
  \<comment> \<open>the environment, \<^verbatim>\<open>DIR_CODE\<close> and the existing directories, then the arguments of the code; the second part of the
      result is the directory a reset deletes\<close>
  "code_gitrepo_args env codedir exists_dir url0 dest login passwd reset ssh =
     (let url = strip url0;
          github = (login = None \<and> str_in ''github.com/'' url);
          login' = (if github \<and> d_has env ''GITHUBUSER'' then d_get env ''GITHUBUSER'' else login);
          passwd' = (if github \<and> d_has env ''GITHUBPASSWD'' then d_get env ''GITHUBPASSWD'' else passwd)
      in rbind (if url = [] then (case dest of None \<Rightarrow> Inl E_Base | Some d \<Rightarrow> if exists_dir d then Inr () else Inl E_Base) else Inr ()) (\<lambda>_.
         rbind (code_git_rewrite_url url login' passwd' ssh) (\<lambda>r.
           let ty = (if CHR ''.'' \<in> set (ri_host r) then hd (split_char (CHR ''.'') (ri_host r)) else ri_host r);
               default = codedir @ ''/'' @ lower ty @ ''/'' @ lower (ri_account r) @ ''/'' @ ri_name r;
               d = (case dest of Some x \<Rightarrow> if x = [] then default else x | None \<Rightarrow> default)
           in Inr (\<lparr>ra_host = ri_host r, ra_type = ty, ra_account = ri_account r, ra_name = ri_name r, ra_dest = d,
                    ra_url = ri_url r, ra_port = ri_port r\<rparr>, if reset then Some d else None))))"

fun split_str :: "string \<Rightarrow> string \<Rightarrow> string list" where
  \<comment> \<open>\<^verbatim>\<open>s.split(p)\<close> for a pattern that is not empty\<close>
  "split_str p s = (case s of [] \<Rightarrow> [[]]
     | c # cs \<Rightarrow> if p \<noteq> [] \<and> starts_with p s then [] # split_str p (drop (length p) s)
         else (case split_str p cs of [] \<Rightarrow> [[c]] | w # ws \<Rightarrow> (c # w) # ws))"

definition split_pair :: "string \<Rightarrow> string \<Rightarrow> (string \<times> string) res" where
  \<comment> \<open>\<^verbatim>\<open>a, b = s.split(p)\<close>\<close>
  "split_pair p s = (case split_str p s of [a, b] \<Rightarrow> Inr (a, b) | _ \<Rightarrow> Inl P_ValueError)"

record giturl =
  gu_host :: string
  gu_account :: string
  gu_name :: string
  gu_url :: string
  gu_branch :: string
  gu_gitpath :: string
  gu_path :: string
  gu_port :: "int option"

definition code_giturl_parse :: "(string \<times> string) list \<Rightarrow> string \<Rightarrow> string \<Rightarrow> giturl res" where
  "code_giturl_parse env codedir url0 =
     (let url = strip url0 in
      rbind (code_git_rewrite_url url None None (PStr ''auto'')) (\<lambda>r.
      rbind (if str_in ''tree'' (ri_url r) then split_pair ''tree'' (ri_url r)
             else if str_in ''blob'' (ri_url r) then split_pair ''blob'' (ri_url r) else Inr (ri_url r, [])) (\<lambda>(repo, e0).
      let e = strip_by (\<lambda>c. c = slash) e0;
          (branch, path) = (if e0 = [] then ([], [])
            else (case split_first slash e of None \<Rightarrow> (no_git e, []) | Some (b, p) \<Rightarrow> (b, no_git p)))
      in rbind (code_gitrepo_args env codedir (\<lambda>_. False) url None None None False (PStr ''auto'')) (\<lambda>(ra, _).
         let dest = ra_dest ra in
         rbind (if str_in ''tree'' dest then rbind (split_pair ''tree'' dest) (\<lambda>(a, b). Inr a)
                else if str_in ''blob'' dest then rbind (split_pair ''blob'' dest) (\<lambda>(a, b). Inr a) else Inr dest) (\<lambda>gitpath.
         Inr \<lparr>gu_host = ri_host r, gu_account = ri_account r, gu_name = ri_name r, gu_url = repo, gu_branch = branch,
              gu_gitpath = gitpath, gu_path = path, gu_port = ra_port ra\<rparr>)))))"

section \<open>The forms of an address agree\<close>

datatype url_kind = KScp | KPath | KHttps | KSsh

fun url_of :: "url_kind \<Rightarrow> string \<Rightarrow> string \<Rightarrow> string \<Rightarrow> string" where
  "url_of KScp h a n = ''git@'' @ h @ colon # a @ slash # n"
| "url_of KPath h a n = ''git@'' @ h @ slash # a @ slash # n"
| "url_of KHttps h a n = ''https://'' @ h @ slash # a @ slash # n"
| "url_of KSsh h a n = ''ssh://git@'' @ h @ slash # a @ slash # n"

definition url_part :: "string \<Rightarrow> bool" where
  \<comment> \<open>a host, account or name as the services have them\<close>
  "url_part s = (s \<noteq> [] \<and> (\<forall>c\<in>set s. \<not> is_space c \<and> c \<noteq> slash \<and> c \<noteq> colon))"

lemma url_chars [simp]: "slash \<noteq> colon" "colon \<noteq> slash" "slash \<noteq> nl" "colon \<noteq> nl" "nl \<noteq> slash" "nl \<noteq> colon"
  "\<not> is_space slash" "\<not> is_space colon"
  by (simp_all add: slash_def colon_def is_space_def ccode_def)

lemma nl_space: "is_space nl"
  by (simp add: is_space_def ccode_def)

lemma url_partD:
  assumes "url_part s"
  shows "slash \<notin> set s" "colon \<notin> set s" "nl \<notin> set s" "strip s = s" "s \<noteq> []" "\<not> is_space (last s)" "last s \<noteq> slash" "last s \<noteq> nl"
proof -
  have c: "\<And>c. c \<in> set s \<Longrightarrow> \<not> is_space c \<and> c \<noteq> slash \<and> c \<noteq> colon" and ne: "s \<noteq> []" using assms by (auto simp: url_part_def)
  show "slash \<notin> set s" "colon \<notin> set s" using c by blast+
  show "nl \<notin> set s" using c nl_space by blast
  show "s \<noteq> []" by (rule ne)
  show l: "\<not> is_space (last s)" "last s \<noteq> slash" using c [OF last_in_set [OF ne]] by auto
  show "last s \<noteq> nl" using l nl_space by metis
  show "strip s = s" using c [OF hd_in_set [OF ne]] l ne by (intro strip_by_id) (simp add: stripped_def)
qed

lemma split_first_app: "d \<notin> set a \<Longrightarrow> split_first d (a @ d # b) = Some (a, b)"
  by (simp add: split_first_Some)

lemma match_body_id: "s \<noteq> [] \<Longrightarrow> last s \<noteq> nl \<Longrightarrow> nl \<notin> set s \<Longrightarrow> match_body s = Some s"
  by (simp add: match_body_def)

lemma tail_slash_part: "url_part n \<Longrightarrow> tail_slash n = n"
  using url_partD(7) [of n] by (simp add: tail_slash_def)

lemma match_tail_parts:
  assumes "url_part h" "url_part a" "url_part n"
  shows "match_tail colon (h @ colon # a @ slash # n) = Some (h, a, n)"
    "match_tail slash (h @ slash # a @ slash # n) = Some (h, a, n)"
    "match_tail colon (h @ slash # a @ slash # n) = None"
proof -
  note d = url_partD [OF assms(1)] url_partD [OF assms(2)] url_partD [OF assms(3)]
  show "match_tail colon (h @ colon # a @ slash # n) = Some (h, a, n)" "match_tail slash (h @ slash # a @ slash # n) = Some (h, a, n)"
    using d by (simp_all add: match_tail_def split_first_app tail_slash_part [OF assms(3)])
  have "split_first colon (h @ slash # a @ slash # n) = None" unfolding split_first_None using d by simp
  then show "match_tail colon (h @ slash # a @ slash # n) = None" by (simp add: match_tail_def)
qed

lemma url_body:
  assumes "url_part h" "url_part a" "url_part n" "sep = colon \<or> sep = slash" "nl \<notin> set p"
  shows "match_body (p @ h @ sep # a @ slash # n) = Some (p @ h @ sep # a @ slash # n)"
  using url_partD [OF assms(1)] url_partD [OF assms(2)] url_partD [OF assms(3)] assms(4,5)
  by (intro match_body_id) (auto simp: last_append)

lemma git_prefix: "nl \<notin> set ''git@''" "nl \<notin> set ''https://''"
  by simp_all

lemma url_groups:
  assumes "url_part h" "url_part a" "url_part n"
  shows "url_match_groups (url_of KScp h a n) = Some ((''git@'', h, a, n), True)"
    "url_match_groups (url_of KPath h a n) = Some ((''git@'', h, a, n), True)"
    "url_match_groups (url_of KHttps h a n) = Some ((''https://'', h, a, n), False)"
proof -
  note body = url_body [OF assms]
  note tail = match_tail_parts [OF assms]
  have b1: "match_body (''git@'' @ h @ colon # a @ slash # n) = Some (''git@'' @ h @ colon # a @ slash # n)"
    by (rule body [OF _ git_prefix(1)]) simp
  have b2: "match_body (''git@'' @ h @ slash # a @ slash # n) = Some (''git@'' @ h @ slash # a @ slash # n)"
    by (rule body [OF _ git_prefix(1)]) simp
  have b3: "match_body (''https://'' @ h @ slash # a @ slash # n) = Some (''https://'' @ h @ slash # a @ slash # n)"
    by (rule body [OF _ git_prefix(2)]) simp
  show "url_match_groups (url_of KScp h a n) = Some ((''git@'', h, a, n), True)"
    unfolding url_of.simps url_match_groups_def match_prefix_def b1 using tail by simp
  show "url_match_groups (url_of KPath h a n) = Some ((''git@'', h, a, n), True)"
    unfolding url_of.simps url_match_groups_def match_prefix_def b2 using tail by simp
  show "url_match_groups (url_of KHttps h a n) = Some ((''https://'', h, a, n), False)"
    unfolding url_of.simps url_match_groups_def match_prefix_def b3 using tail by simp
qed

lemma strip_url:
  assumes "url_part n"
  shows "strip (url_of k h a n) = url_of k h a n"
proof -
  have "last (url_of k h a n) = last n" using url_partD(5) [OF assms] by (cases k) (auto simp: last_append)
  moreover have "\<not> is_space (hd (url_of k h a n))" "url_of k h a n \<noteq> []" by (cases k; simp add: is_space_def ccode_def)+
  ultimately show ?thesis using url_partD(6) [OF assms] by (intro strip_by_id) (simp add: stripped_def)
qed

lemma replace_absent: "p \<noteq> [] \<Longrightarrow> \<not> str_in p s \<Longrightarrow> replace_str p r s = s"
  by (induction s) auto

lemma str_in_set: "str_in p s \<Longrightarrow> set p \<subseteq> set s"
  by (auto simp: str_in_iff)

definition no_scheme :: "string \<Rightarrow> string" where
  \<comment> \<open>the address after the part \<^verbatim>\<open>ssh://\<close> was taken away\<close>
  "no_scheme u = (if starts_with ''ssh://'' u then replace_str ''ssh://'' [] u else u)"

lemma no_scheme_url:
  assumes "url_part h" "url_part a" "url_part n"
  shows "no_scheme (url_of KSsh h a n) = url_of KPath h a n" "k \<noteq> KSsh \<Longrightarrow> no_scheme (url_of k h a n) = url_of k h a n"
proof -
  have c: "colon \<notin> set (url_of KPath h a n)"
    using url_partD(2) [OF assms(1)] url_partD(2) [OF assms(2)] url_partD(2) [OF assms(3)] by (simp add: colon_def slash_def)
  have "colon \<in> set ''ssh://''" by (simp add: colon_def)
  with c str_in_set [of "''ssh://''" "url_of KPath h a n"] have "\<not> str_in ''ssh://'' (url_of KPath h a n)" by blast
  then have "replace_str ''ssh://'' [] (url_of KPath h a n) = url_of KPath h a n" by (intro replace_absent) simp_all
  then show "no_scheme (url_of KSsh h a n) = url_of KPath h a n" by (simp add: no_scheme_def)
  show "k \<noteq> KSsh \<Longrightarrow> no_scheme (url_of k h a n) = url_of k h a n" by (cases k) (simp_all add: no_scheme_def)
qed

lemma rewrite_unfold:
  "code_git_rewrite_url u None None (PBool b) =
     (case url_match_groups (fst (if b then url_port (no_scheme (strip u)) else (no_scheme (strip u), None))) of
        None \<Rightarrow> Inl E_Base
      | Some ((p0, h, a, n), url_ssh) \<Rightarrow>
          rbind (py_assert (strip n \<noteq> [])) (\<lambda>_. rbind (py_assert (strip a \<noteq> [])) (\<lambda>_.
          let p = (if starts_with ''git'' p0 \<and> \<not> b then ''https://'' else p0);
              port = snd (if b then url_port (no_scheme (strip u)) else (no_scheme (strip u), None));
              path = ''/'' @ a @ ''/'' @ dot_git n
          in Inr (if b then \<lparr>ri_protocol = ''ssh'', ri_host = h, ri_account = a, ri_name = no_git (dot_git n),
                     ri_url = ''ssh://git@'' @ h @ (case port of None \<Rightarrow> [] | Some q \<Rightarrow> colon # int_str q) @ path, ri_port = port\<rparr>
                  else \<lparr>ri_protocol = p, ri_host = h, ri_account = a, ri_name = no_git (dot_git n), ri_url = p @ h @ path, ri_port = port\<rparr>))))"
  by (cases b) (auto simp: code_git_rewrite_url_def ssh_choice_def truth_def no_scheme_def Let_def split: option.splits prod.splits)

definition https_info :: "string \<Rightarrow> string \<Rightarrow> string \<Rightarrow> repo_info" where
  "https_info h a n = \<lparr>ri_protocol = ''https://'', ri_host = h, ri_account = a, ri_name = no_git (dot_git n),
     ri_url = url_of KHttps h a (dot_git n), ri_port = None\<rparr>"

definition ssh_info :: "string \<Rightarrow> string \<Rightarrow> string \<Rightarrow> repo_info" where
  "ssh_info h a n = \<lparr>ri_protocol = ''ssh'', ri_host = h, ri_account = a, ri_name = no_git (dot_git n),
     ri_url = url_of KSsh h a (dot_git n), ri_port = None\<rparr>"

lemma url_port_none:
  assumes "url_part h" "url_part a" "url_part n" "py_int a = None" "k \<noteq> KSsh"
  shows "url_port (url_of k h a n) = (url_of k h a n, None)"
proof -
  note d = url_partD [OF assms(1)] url_partD [OF assms(2)] url_partD [OF assms(3)]
  have at: "colon \<notin> set ''git@''" "colon \<notin> set ''https''" by (simp_all add: colon_def)
  show ?thesis
  proof (cases k)
    case KScp
    have "split_char colon (''git@'' @ h @ colon # a @ slash # n) = [''git@'' @ h, a @ slash # n]"
      using split_char_append [of colon "''git@'' @ h" "a @ slash # n"] d at by (simp add: split_char_notin)
    moreover have "hd (split_char slash (a @ slash # n)) = a" using d by (simp add: split_char_append)
    ultimately show ?thesis using KScp assms(4) by (simp add: url_port_def)
  next
    case KPath
    have "split_char colon (''git@'' @ h @ slash # a @ slash # n) = [''git@'' @ h @ slash # a @ slash # n]"
      using d at by (intro split_char_notin) simp
    with KPath show ?thesis by (simp add: url_port_def)
  next
    case KHttps
    have "split_char colon (''https'' @ colon # slash # slash # h @ slash # a @ slash # n) = [''https'', slash # slash # h @ slash # a @ slash # n]"
      using split_char_append [OF at(2), of "slash # slash # h @ slash # a @ slash # n"] d
      by (simp add: split_char_notin)
    moreover have "url_of k h a n = ''https'' @ colon # slash # slash # h @ slash # a @ slash # n"
      unfolding KHttps by (simp add: colon_def slash_def)
    ultimately have "split_char colon (url_of k h a n) = [''https'', slash # slash # h @ slash # a @ slash # n]" by (simp only:)
    moreover have "hd (split_char slash (slash # slash # h @ slash # a @ slash # n)) = []" by simp
    moreover have "py_int [] = None" by (simp add: py_int_def)
    ultimately show ?thesis unfolding url_port_def by (simp only: list.case option.case)
  qed (use assms(5) in simp)
qed

lemma url_part_dot_git:
  assumes "url_part n"
  shows "url_part (dot_git n)"
proof -
  have "\<forall>c\<in>set ''.git''. \<not> is_space c \<and> c \<noteq> slash \<and> c \<noteq> colon" by (simp add: is_space_def ccode_def slash_def colon_def)
  with assms show ?thesis by (auto simp: url_part_def dot_git_def)
qed

lemma dot_git_idem [simp]: "dot_git (dot_git n) = dot_git n"
  by (simp add: dot_git_def ends_with_def)

lemma groups_any:
  assumes "url_part h" "url_part a" "url_part n" "k \<noteq> KSsh"
  shows "\<exists>p s. url_match_groups (url_of k h a n) = Some ((p, h, a, n), s)
    \<and> ((if starts_with ''git'' p then ''https://'' else p) = ''https://'')"
  using url_groups [OF assms(1-3)] assms(4) by (cases k) auto

lemma rewrite_form:
  assumes "url_part h" "url_part a" "url_part n" "py_int a = None"
  shows "code_git_rewrite_url (url_of k h a n) None None (PBool False) = Inr (https_info h a n)"
    "code_git_rewrite_url (url_of k h a n) None None (PBool True) = Inr (ssh_info h a n)"
proof -
  obtain k' where k': "k' \<noteq> KSsh" "no_scheme (url_of k h a n) = url_of k' h a n"
  proof (cases "k = KSsh")
    case True
    have "no_scheme (url_of k h a n) = url_of KPath h a n" unfolding True by (rule no_scheme_url(1) [OF assms(1-3)])
    then show thesis by (rule that [rotated]) simp
  next
    case False
    show thesis by (rule that [OF False no_scheme_url(2) [OF assms(1-3) False]])
  qed
  from groups_any [OF assms(1-3) k'(1)] obtain p s where g: "url_match_groups (url_of k' h a n) = Some ((p, h, a, n), s)"
    "(if starts_with ''git'' p then ''https://'' else p) = ''https://''" by blast
  have ne: "strip n \<noteq> []" "strip a \<noteq> []" using url_partD(4,5) [OF assms(3)] url_partD(4,5) [OF assms(2)] by simp_all
  show "code_git_rewrite_url (url_of k h a n) None None (PBool False) = Inr (https_info h a n)"
    unfolding rewrite_unfold strip_url [OF assms(3)] k'(2) using g ne
    by (simp add: https_info_def Let_def slash_def)
  show "code_git_rewrite_url (url_of k h a n) None None (PBool True) = Inr (ssh_info h a n)"
    unfolding rewrite_unfold strip_url [OF assms(3)] k'(2) if_True url_port_none [OF assms k'(1)] using g(1) ne
    by (simp add: ssh_info_def Let_def slash_def)
qed

lemma name_without_git: "no_git (dot_git n) = (if ends_with ''.git'' n then take (length n - 4) n else n)"
  by (simp add: no_git_def dot_git_def ends_with_def)

text \<open>C26: The forms \<^verbatim>\<open>git@h:a/n\<close>, \<^verbatim>\<open>git@h/a/n\<close>, \<^verbatim>\<open>ssh://git@h/a/n\<close> and \<^verbatim>\<open>https://h/a/n\<close> of an address are read as the same
  repository; the address written for it (for https or for ssh) is again one of the forms, and rewriting that gives the same result. The
  name is the last part without its suffix. No part has a slash, colon or space, and the account is no number, which after a colon
  is taken for a port. Addresses with http, which keep it, and those with a port are not among these forms.\<close>

theorem giturl_forms_agree:
  assumes "url_part h" "url_part a" "url_part n" "py_int a = None"
  shows "\<exists>r. code_git_rewrite_url (url_of k h a n) None None (PBool ssh) = Inr r
    \<and> ri_host r = h \<and> ri_account r = a \<and> ri_name r = (if ends_with ''.git'' n then take (length n - 4) n else n)
    \<and> code_git_rewrite_url (ri_url r) None None (PBool ssh) = Inr r
    \<and> (\<forall>k'. code_git_rewrite_url (url_of k' h a n) None None (PBool ssh) = Inr r)"
proof (cases ssh)
  case True
  have "code_git_rewrite_url (ri_url (ssh_info h a n)) None None (PBool True) = Inr (ssh_info h a (dot_git n))"
    using rewrite_form(2) [OF assms(1,2) url_part_dot_git [OF assms(3)] assms(4), of KSsh] by (simp add: ssh_info_def)
  moreover have "ssh_info h a (dot_git n) = ssh_info h a n" by (simp add: ssh_info_def)
  ultimately show ?thesis using True rewrite_form(2) [OF assms]
    by (intro exI [of _ "ssh_info h a n"]) (simp add: ssh_info_def [of h a n] name_without_git)
next
  case False
  have "code_git_rewrite_url (ri_url (https_info h a n)) None None (PBool False) = Inr (https_info h a (dot_git n))"
    using rewrite_form(1) [OF assms(1,2) url_part_dot_git [OF assms(3)] assms(4), of KHttps] by (simp add: https_info_def)
  moreover have "https_info h a (dot_git n) = https_info h a n" by (simp add: https_info_def)
  ultimately show ?thesis using False rewrite_form(1) [OF assms]
    by (intro exI [of _ "https_info h a n"]) (simp add: https_info_def [of h a n] name_without_git)
qed

theorem giturl_forms_agree_witness:
  "code_git_rewrite_url ''git@github.com:threefoldtech/jumpscaleX_core'' None None (PBool False)
   = code_git_rewrite_url ''https://github.com/threefoldtech/jumpscaleX_core'' None None (PBool False)"
proof -
  let ?h = "''github.com''" and ?a = "''threefoldtech''" and ?n = "''jumpscaleX_core''"
  have p: "url_part ?h" "url_part ?a" "url_part ?n" "py_int ?a = None" by code_simp+
  from giturl_forms_agree [OF p, of KScp False] obtain r where
    r: "\<forall>k'. code_git_rewrite_url (url_of k' ?h ?a ?n) None None (PBool False) = Inr r" by blast
  have "url_of KScp ?h ?a ?n = ''git@github.com:threefoldtech/jumpscaleX_core''"
    "url_of KHttps ?h ?a ?n = ''https://github.com/threefoldtech/jumpscaleX_core''" by (simp_all add: colon_def slash_def)
  with r [rule_format, of KScp] r [rule_format, of KHttps] show ?thesis by (simp only:)
qed

text \<open>The address of a repository whose name has the letters tree is cut there; the name read from an address into a
  repository is the whole rest of it; and without an address nothing is found.\<close>

lemma giturl_tree_cut:
  "rbind (code_giturl_parse [] ''/code'' ''https://github.com/acc/street'') (\<lambda>g. Inr (gu_url g, gu_gitpath g))
     = Inr (''https://github.com/acc/s'', ''/code/github/acc/s'')"
  "rbind (code_giturl_parse [] ''/code'' ''https://github.com/acc/core/tree/8.2/lib'') (\<lambda>g. Inr (gu_name g, gu_branch g, gu_path g))
     = Inr (''core/tree/8.2/lib'', ''8.2'', ''lib'')"
  by code_simp+

lemma gitrepo_args_empty: "\<exists>e. code_gitrepo_args env codedir ex [] dest login passwd reset (PBool False) = Inl e"
proof -
  have "url_match_groups [] = None" by code_simp
  then have "code_git_rewrite_url [] l p (PBool False) = Inl E_Base" for l p
    by (simp add: code_git_rewrite_url_def ssh_choice_def truth_def)
  then show ?thesis by (auto simp: code_gitrepo_args_def Let_def rbind_def split: sum.splits option.splits)
qed

end
