(* ===== verification/CoreText.thy ===== *)
theory CoreText
  imports TypesPrim GitUrl "HOL-Library.List_Lexorder" "HOL-Library.Char_ord"
begin

text \<open>
  The text tools of the framework (\<^verbatim>\<open>core/Text.py\<close>, class \<^verbatim>\<open>Text\<close>): plain and safe texts, versions as numbers, lines with
  a prefix, and reading values from text. The removal of colour codes is an argument, and so is \<^verbatim>\<open>eval\<close>.
\<close>

section \<open>Plain text\<close>

definition text_strip_to_ascii :: "string \<Rightarrow> string" where
  "text_strip_to_ascii t = filter (\<lambda>c. (31 < ccode c \<and> ccode c < 127) \<or> ccode c = 10) t"

definition text_dense :: "(string \<Rightarrow> string) \<Rightarrow> (string \<Rightarrow> string) \<Rightarrow> string \<Rightarrow> string" where
  \<comment> \<open>the transliteration of the library and the removal of colours come first; the rest is the loop of the installer\<close>
  "text_dense unidecode noansi t0 =
     (let t = remove_char (CHR '' '') (remove_char (CHR 0x09) (remove_char nl (lower (unidecode t0))));
          res = filter dense_ok (map dense_char (noansi t))
      in rstrip_chars ''_'' (collapse ''__'' ''_'' res))"

definition text_pad :: "string \<Rightarrow> nat \<Rightarrow> string" where
  "text_pad t n = t @ replicate (n - length t) (CHR '' '')"

definition text_padleft :: "string \<Rightarrow> nat \<Rightarrow> string" where
  "text_padleft t n = replicate (n - length t) (CHR '' '') @ t"

definition cut_len :: "nat \<Rightarrow> string \<Rightarrow> string" where
  \<comment> \<open>\<^verbatim>\<open>maxlen\<close>, where zero is no limit\<close>
  "cut_len n s = (if 0 < n \<and> n < length s then take n s else s)"

definition ascii_ok :: string where
  "ascii_ok = ''abcdefghijklmnopqrstuvwxyzABCDEFGHIJKLMNOPQRSTUVWXYZ1234567890-_!. {}()'' @ [squote] @ '':''"

definition to_ascii :: "(string \<Rightarrow> string) \<Rightarrow> string \<Rightarrow> nat \<Rightarrow> string" where
  "to_ascii noansi v n = strip (cut_len n (filter (\<lambda>c. c \<in> set ascii_ok) (noansi (collapse ''  '' '' '' (strip v)))))"

definition safe_char :: "char \<Rightarrow> char option" where
  \<comment> \<open>the replacements of single characters\<close>
  "safe_char c = (if c \<in> set (''/*()?'' @ [dquote, squote]) then None else if c \<in> set '',:'' then Some (CHR '' '') else Some c)"

definition to_safe_path :: "(string \<Rightarrow> string) \<Rightarrow> string \<Rightarrow> nat \<Rightarrow> string" where
  "to_safe_path noansi t n =
     (let a = strip_chars ('' .-_'' @ [squote]) (strip (lower (to_ascii noansi t 0)));
          b = collapse ''  '' '' '' (List.map_filter safe_char a)
      in strip (cut_len n b))"

function (sequential) snake_words :: "string \<Rightarrow> string" where
  \<comment> \<open>\<^verbatim>\<open>([^/_.])([A-Z][a-z]+)\<close> to \<^verbatim>\<open>\1_\2\<close>\<close>
  "snake_words (c # u # l # cs) =
     (if c \<notin> set ''/_.'' \<and> is_upper u \<and> is_lower l
      then c # underscore # u # l # takeWhile is_lower cs @ snake_words (dropWhile is_lower cs)
      else c # snake_words (u # l # cs))"
| "snake_words s = s"
  by pat_completeness auto
termination
  by (relation "measure length") (auto intro: le_imp_less_Suc le_SucI length_dropWhile_le)

fun snake_humps :: "string \<Rightarrow> string" where
  \<comment> \<open>\<^verbatim>\<open>([a-z0-9])([A-Z])\<close> to \<^verbatim>\<open>\1_\2\<close>\<close>
  "snake_humps (c # u # cs) =
     (if (is_lower c \<or> is_digit c) \<and> is_upper u then c # underscore # u # snake_humps cs else c # snake_humps (u # cs))"
| "snake_humps s = s"

definition convert_to_snake_case :: "string \<Rightarrow> string" where
  "convert_to_snake_case t = lower (snake_humps (snake_words t))"

section \<open>Versions\<close>

definition pow1000 :: "nat \<Rightarrow> int res" where
  \<comment> \<open>\<^verbatim>\<open>int(math.pow(1000, x))\<close>\<close>
  "pow1000 x = float_trunc (to_double (1000 ^ x))"

fun version_sum :: "nat \<Rightarrow> string list \<Rightarrow> int res" where
  "version_sum x [] = Inr 0"
| "version_sum x (w # ws) = rbind (pow1000 x) (\<lambda>p. rbind (of_int_res (py_int w)) (\<lambda>i.
     rbind (version_sum (Suc x) ws) (\<lambda>y. Inr (p * i + y))))"

definition str_to_version_int :: "string \<Rightarrow> nat \<Rightarrow> int res" where
  "str_to_version_int s mindigits =
     (let ws = split_char (if CHR ''.'' \<in> set s then CHR ''.'' else CHR '','') s
      in version_sum 0 (rev (ws @ replicate (mindigits - length ws) ''0'')))"

section \<open>Lines\<close>

definition text_sort :: "string \<Rightarrow> string" where
  "text_sort t = join [nl] (filter (\<lambda>l. l \<noteq> []) (sort (lines t))) @ [nl]"

definition text_lines :: "string \<Rightarrow> string list" where
  "text_lines t = lines (rstrip_chars [nl] t)"

definition text_prefix :: "string \<Rightarrow> string \<Rightarrow> string" where
  "text_prefix p t = concat (map (\<lambda>l. p @ l @ [nl]) (text_lines t))"

definition prefix_remove :: "string \<Rightarrow> string \<Rightarrow> bool \<Rightarrow> string" where
  "prefix_remove p t only = concat (map (\<lambda>l. if starts_with p l then drop (length p) l @ [nl]
     else if only then [] else l @ [nl]) (text_lines t))"

fun after_first :: "string \<Rightarrow> string \<Rightarrow> string option" where
  \<comment> \<open>\<^verbatim>\<open>s.split(p, 1)[1]\<close> when \<^verbatim>\<open>p\<close> occurs\<close>
  "after_first p [] = (if p = [] then Some [] else None)"
| "after_first p (c # cs) = (if starts_with p (c # cs) then Some (drop (length p) (c # cs)) else after_first p cs)"

definition prefix_remove_withtrailing :: "string \<Rightarrow> string \<Rightarrow> bool \<Rightarrow> string res" where
  "prefix_remove_withtrailing p t only = (if p = [] then Inl P_ValueError
     else Inr (concat (map (\<lambda>l. case after_first p l of Some r \<Rightarrow> r @ [nl] | None \<Rightarrow> if only then [] else l @ [nl]) (text_lines t))))"

definition text_add_cmd :: "string \<Rightarrow> string \<Rightarrow> string \<Rightarrow> string" where
  "text_add_cmd out entity cmd = out @ ''!'' @ entity @ ''.'' @ cmd @ [nl]"

definition text_add_val :: "string \<Rightarrow> string \<Rightarrow> string \<Rightarrow> string" where
  \<comment> \<open>a number is written as text before; without the time\<close>
  "text_add_val out name val0 =
     (let v = rstrip_chars [nl] val0
      in if 1 < length (lines v) then out @ name @ ''=...'' @ nl # concat (map (\<lambda>l. l @ [nl]) (lines v)) @ ''...'' @ [nl]
         else out @ name @ ''='' @ v @ [nl])"

definition macro_candidates :: "string \<Rightarrow> string list" where
  "macro_candidates t = foldl (\<lambda>r i. if str_in ''}}'' i then
       (let w = hd (split_str ''}}'' i) in if w \<in> set r then r else r @ [''{{'' @ w @ ''}}'']) else r) [] (split_str ''{{'' t)"

section \<open>Values from text\<close>

definition backslash :: char where "backslash = CHR 0x5C"

definition machinetext2str :: "string \<Rightarrow> string" where
  "machinetext2str v = replace_str [backslash, CHR ''n''] [nl] (replace_str [backslash, CHR ''N''] [nl]
     (replace_str [backslash, CHR ''D''] '':'' (replace_str [backslash, CHR ''S''] '' ''
     (replace_str [backslash, CHR ''Q''] [dquote] (replace_str [backslash, CHR ''K''] '','' v)))))"

definition text_is_int :: "string \<Rightarrow> bool" where
  \<comment> \<open>\<^verbatim>\<open>self.strip(",")\<close> gives the comma, whatever the text is\<close>
  "text_is_int t = isdigit (strip '','')"

definition text_is_float :: "string \<Rightarrow> bool res" where
  "text_is_float t = (let c = strip '','' in
     if length c < 2 \<or> c ! 1 \<noteq> CHR ''.'' then Inr False else Inr (py_float c \<noteq> None))"

definition machinetext2val :: "string \<Rightarrow> pyval" where
  \<comment> \<open>the items of a list stay texts, as the tests for numbers never hold\<close>
  "machinetext2val v =
     (let v2 = machinetext2str v; w = strip_chars [squote] (strip v2)
      in if strip v2 = [] then PStr v2
         else if starts_with ''['' w \<and> ends_with '']'' w
         then PList (map PStr (filter (\<lambda>i. strip i \<noteq> []) (split_char (CHR '','') (strip_chars ''[]'' w))))
         else PStr v2)"

definition re_float_full :: "string \<Rightarrow> bool" where
  \<comment> \<open>\<^verbatim>\<open>[0-9]*\.[0-9]+\<close> matches the whole text\<close>
  "re_float_full s = (case split_first (CHR ''.'') s of None \<Rightarrow> False
     | Some (a, b) \<Rightarrow> list_all is_digit a \<and> isdigit b)"

definition is_numeric :: "string \<Rightarrow> bool" where
  "is_numeric t = list_all is_digit t"

definition str2var_one :: "pyval \<Rightarrow> (char \<times> pyval) res" where
  "str2var_one v =
     (let s = py_str v; t = strip s
      in if lower s \<in> {''empty'', ''none''} then Inr (CHR ''n'', PNone)
         else if s = [] then Inr (CHR ''s'', PStr [])
         else if lower t = ''true'' then Inr (CHR ''b'', PBool True)
         else if lower t = ''false'' then Inr (CHR ''b'', PBool False)
         else if isdigit t then rbind (of_int_res (py_int t)) (\<lambda>i. Inr (CHR ''i'', PInt i))
         else if re_float_full t then rbind (to_float (PStr t)) (\<lambda>f. Inr (CHR ''f'', PFloat f))
         else Inr (CHR ''s'', PStr (machinetext2str s)))"

definition text_get_int :: "(string \<Rightarrow> string) \<Rightarrow> pyval \<Rightarrow> int res" where
  \<comment> \<open>the argument is \<^verbatim>\<open>self.strip\<close>, which drops comments and indentation\<close>
  "text_get_int tstrip v = (case v of
       PStr s \<Rightarrow> (let t = strip (strip_chars [squote, dquote] (tstrip s)) in
         if lower t = ''none'' \<or> t = [] then Inr 0 else of_int_res (py_int t))
     | _ \<Rightarrow> to_int v)"

definition text_get_float :: "pyval \<Rightarrow> pyfloat res" where
  "text_get_float v = (case v of
       PStr s \<Rightarrow> (let t = strip s in if lower t = ''none'' \<or> t = [] then Inr (Fin 0) else to_float (PStr t))
     | _ \<Rightarrow> to_float v)"

definition text_get_bool :: "pyval \<Rightarrow> bool res" where
  "text_get_bool v = (case v of
       PBool b \<Rightarrow> Inr b
     | PInt i \<Rightarrow> Inr (i = 1)
     | PStr s \<Rightarrow> (let t = strip s in Inr (lower t = ''true'' \<or> t = ''1''))
     | _ \<Rightarrow> Inl P_RuntimeError)"

definition clean_item :: "string \<Rightarrow> string" where
  "clean_item i = strip (strip_chars [squote] (strip i))"

definition list_parts :: "(string \<Rightarrow> string) \<Rightarrow> string \<Rightarrow> string list" where
  \<comment> \<open>the identity test with the empty text drops the empty items: there is one empty text\<close>
  "list_parts tstrip s0 =
     (let s = strip (strip_chars [dquote] (strip_chars '' ]'' (strip_chars '' ['' s0)))
      in if tstrip s = [] then []
         else if CHR '','' \<in> set s then filter (\<lambda>i. i \<noteq> []) (map clean_item (split_char (CHR '','') s))
         else if nl \<in> set s then filter (\<lambda>i. i \<noteq> []) (map clean_item (lines s))
         else [s])"

definition text_get_list :: "(string \<Rightarrow> string) \<Rightarrow> (pyval \<Rightarrow> pyval res) \<Rightarrow> pyval \<Rightarrow> pyval list res" where
  \<comment> \<open>\<^verbatim>\<open>self.strip\<close> and the cleaning of the item type\<close>
  "text_get_list tstrip clean v = (case v of
       PList l \<Rightarrow> Inr l
     | PTuple l \<Rightarrow> Inr l
     | PNone \<Rightarrow> Inr []
     | PStr s \<Rightarrow> rfold (\<lambda>res i. rbind (clean (PStr i)) (\<lambda>w. Inr (if py_in w res then res else res @ [w]))) [] (list_parts tstrip s)
     | _ \<Rightarrow> Inl P_NameError)"

definition value_kind :: "pyval \<Rightarrow> char res" where
  "value_kind v = rbind (str2var_one v) (\<lambda>(k, x). Inr k)"

definition machine_text :: "pyval \<Rightarrow> pyval res" where
  \<comment> \<open>\<^verbatim>\<open>str(self.machinetext2val(item))\<close>\<close>
  "machine_text v = (case v of PStr s \<Rightarrow> Inr (PStr (py_str (machinetext2val s))) | PBytes b \<Rightarrow> Inl P_TypeError | _ \<Rightarrow> Inl P_AttributeError)"

definition kind_conv :: "(string \<Rightarrow> string) \<Rightarrow> char list \<Rightarrow> pyval \<Rightarrow> pyval res" where
  \<comment> \<open>the branch for booleans compares a text with a list and is never taken\<close>
  "kind_conv tstrip ks v =
     (if CHR ''s'' \<in> set ks then machine_text v
      else if CHR ''f'' \<in> set ks \<and> CHR ''b'' \<notin> set ks then rbind (text_get_float v) (\<lambda>f. Inr (PFloat f))
      else if CHR ''i'' \<in> set ks \<and> CHR ''b'' \<notin> set ks then rbind (text_get_int tstrip v) (\<lambda>i. Inr (PInt i))
      else machine_text v)"

definition str2var :: "(string \<Rightarrow> string) \<Rightarrow> pyval \<Rightarrow> pyval res" where
  "str2var tstrip v = (case v of
       PList l \<Rightarrow> rbind (rmap value_kind l) (\<lambda>ks. rbind (rmap (kind_conv tstrip ks) l) (\<lambda>w. Inr (PList w)))
     | PTuple l \<Rightarrow> rbind (rmap value_kind l) (\<lambda>ks. rbind (rmap (kind_conv tstrip ks) l) (\<lambda>w. Inr (PList w)))
     | PDict d \<Rightarrow> rbind (rmap (\<lambda>(k, x). value_kind x) d) (\<lambda>ks.
         rbind (rmap (\<lambda>(k, x). rbind (kind_conv tstrip ks x) (\<lambda>w. Inr (k, w))) d) (\<lambda>w. Inr (PDict w)))
     | PStr s \<Rightarrow> rbind (str2var_one v) (\<lambda>(k, x). Inr x)
     | PInt i \<Rightarrow> rbind (str2var_one v) (\<lambda>(k, x). Inr x)
     | PBool b \<Rightarrow> rbind (str2var_one v) (\<lambda>(k, x). Inr x)
     | PFloat f \<Rightarrow> rbind (str2var_one v) (\<lambda>(k, x). Inr x)
     | _ \<Rightarrow> Inl E_Input)"

section \<open>Signatures\<close>

definition arg_default :: "(string \<Rightarrow> pyval res) \<Rightarrow> string \<Rightarrow> pyval res" where
  "arg_default peval d = (case d of
       [] \<Rightarrow> Inl P_IndexError
     | c # cs \<Rightarrow> if c = dquote then Inr (PStr (strip_chars [dquote] d))
         else if c = squote then Inr (PStr (strip_chars [squote] d))
         else if d = ''[]'' then Inr (PList []) else if d = ''{}'' then Inr (PDict [])
         else if c \<in> set ''[{'' then peval d
         else if CHR ''.'' \<in> set d then rbind (to_float (PStr d)) (\<lambda>f. Inr (PFloat f))
         else rbind (of_int_res (py_int d)) (\<lambda>i. Inr (PInt i)))"

definition parse_args :: "(string \<Rightarrow> pyval res) \<Rightarrow> string \<Rightarrow> (string \<times> pyval) list res" where
  "parse_args peval args = rfold (\<lambda>r a. case split_first (CHR ''='') a of
       Some (n, d) \<Rightarrow> rbind (arg_default peval (strip d)) (\<lambda>v. Inr (d_set r (strip n) v))
     | None \<Rightarrow> Inr (d_set r (strip a) PNone)) [] (split_char (CHR '','') (rstrip_chars ''):'' args))"

definition parse_def_line :: "(string \<Rightarrow> pyval res) \<Rightarrow> string \<Rightarrow> (string \<times> (string \<times> pyval) list) res" where
  "parse_def_line peval line0 =
     (let line = (if starts_with ''async'' line0 then drop 6 line0 else line0)
      in (case split_first (CHR ''('') line of
            None \<Rightarrow> Inl P_ValueError
          | Some (d, a) \<Rightarrow> rbind (parse_args peval (strip a)) (\<lambda>r. Inr (strip (drop 4 d), r))))"

section \<open>Versions in order\<close>

fun vval :: "int list \<Rightarrow> int" where
  "vval [] = 0"
| "vval (d # ds) = d * 1000 ^ length ds + vval ds"

fun rval :: "int list \<Rightarrow> int" where
  "rval [] = 0"
| "rval (d # ds) = d + 1000 * rval ds"

lemma rval_snoc: "rval (ds @ [d]) = rval ds + d * 1000 ^ length ds"
  by (induction ds) (auto simp: algebra_simps)

lemma rval_rev: "rval (rev ds) = vval ds"
  by (induction ds) (auto simp: rval_snoc)

lemma vval_zeros: "vval (ds @ replicate k 0) = vval ds * 1000 ^ k"
proof (induction ds)
  case Nil
  have "vval (replicate k 0) = 0" by (induction k) auto
  then show ?case by simp
qed (simp add: power_add algebra_simps)

lemma vval_bounds: "list_all (\<lambda>d. 0 \<le> d \<and> d < 1000) ds \<Longrightarrow> 0 \<le> vval ds \<and> vval ds < 1000 ^ length ds"
proof (induction ds)
  case (Cons d ds)
  then have h: "0 \<le> d" "d \<le> 999" "0 \<le> vval ds" "vval ds < 1000 ^ length ds" by auto
  from h(2) have "d * 1000 ^ length ds \<le> 999 * 1000 ^ length ds" by (intro mult_right_mono) auto
  with h(4) have "d * 1000 ^ length ds + vval ds < 1000 * 1000 ^ length ds" by linarith
  with h show ?case by simp
qed simp

lemma vval_less:
  "length vs = length ws \<Longrightarrow> list_all (\<lambda>d. 0 \<le> d \<and> d < 1000) vs \<Longrightarrow> list_all (\<lambda>d. 0 \<le> d \<and> d < 1000) ws
   \<Longrightarrow> vval vs < vval ws \<longleftrightarrow> vs < ws"
proof (induction vs ws rule: list_induct2)
  case (Cons v vs w ws)
  let ?p = "1000 ^ length ws :: int"
  have b: "0 \<le> vval vs" "vval vs < ?p" "0 \<le> vval ws" "vval ws < ?p"
    using vval_bounds [of vs] vval_bounds [of ws] Cons.prems Cons.hyps by auto
  consider "v < w" | "v = w" | "w < v" by linarith
  then show ?case
  proof cases
    case 1
    then have "(v + 1) * ?p \<le> w * ?p" by (intro mult_right_mono) auto
    with b 1 Cons.hyps show ?thesis by (simp add: distrib_right)
  next
    case 2
    with Cons show ?thesis by simp
  next
    case 3
    then have "(w + 1) * ?p \<le> v * ?p" by (intro mult_right_mono) auto
    with b 3 Cons.hyps show ?thesis by (simp add: distrib_right)
  qed
qed simp

lemma pow1000_exact: "x \<le> 5 \<Longrightarrow> pow1000 x = Inr (1000 ^ x)"
proof -
  assume "x \<le> 5"
  then have "(1000 :: int) ^ x \<le> 1000 ^ 5" by (intro power_increasing) auto
  then have "\<bar>(1000 :: int) ^ x\<bar> < 2 ^ 53" by simp
  from to_double_int [OF this] show ?thesis by (simp add: pow1000_def float_trunc_def)
qed

lemma version_sum_digits: "x + length ds \<le> 6 \<Longrightarrow> version_sum x (map int_str ds) = Inr (1000 ^ x * rval ds)"
proof (induction ds arbitrary: x)
  case (Cons d ds)
  then have "version_sum (Suc x) (map int_str ds) = Inr (1000 ^ Suc x * rval ds)" by simp
  moreover have "pow1000 x = Inr (1000 ^ x)" using Cons.prems by (intro pow1000_exact) simp
  ultimately show ?case by (simp add: of_int_res_def algebra_simps)
qed simp

definition version_text :: "int list \<Rightarrow> string" where
  "version_text vs = join ''.'' (map int_str vs)"

lemma version_text_split:
  assumes "vs \<noteq> []" "list_all (\<lambda>d. 0 \<le> d) vs"
  shows "split_char (if CHR ''.'' \<in> set (version_text vs) then CHR ''.'' else CHR '','') (version_text vs) = map int_str vs"
proof -
  have c: "x \<notin> set (int_str d)" if "x = CHR ''.'' \<or> x = CHR '',''" for d x
    using that int_str_chars [of x d] by (auto simp: is_digit_def ccode_def)
  have dot: "split_char (CHR ''.'') (version_text vs) = map int_str vs"
    unfolding version_text_def using assms(1) c by (intro split_join) auto
  show ?thesis
  proof (cases "CHR ''.'' \<in> set (version_text vs)")
    case False
    then have one: "map int_str vs = [version_text vs]" using dot split_char_notin [OF False] by (simp del: map_eq_conv)
    then obtain d where "version_text vs = int_str d" by (cases vs) (auto dest: sym)
    then have "split_char (CHR '','') (version_text vs) = [version_text vs]" using c [of "CHR '',''" d] by (simp add: split_char_notin)
    with one False show ?thesis by simp
  qed (simp add: dot)
qed

lemma zero_str: "int_str 0 = ''0''"
  by code_simp

lemma version_int:
  assumes "vs \<noteq> []" "list_all (\<lambda>d. 0 \<le> d \<and> d < 1000) vs" "length vs \<le> 6" "m \<le> 6"
  shows "str_to_version_int (version_text vs) m = Inr (vval vs * 1000 ^ (m - length vs))"
proof -
  have p: "list_all (\<lambda>d. 0 \<le> d) vs" using assms(2) by (simp add: list_all_iff)
  let ?ds = "rev (vs @ replicate (m - length vs) 0)"
  have "rev (map int_str vs @ replicate (m - length vs) ''0'') = map int_str ?ds"
    by (simp add: rev_map zero_str)
  then have "str_to_version_int (version_text vs) m = version_sum 0 (map int_str ?ds)"
    unfolding str_to_version_int_def Let_def version_text_split [OF assms(1) p] by (simp only: length_map)
  also have "\<dots> = Inr (rval ?ds)" using version_sum_digits [of 0 ?ds] assms(3,4) by simp
  also have "rval ?ds = vval vs * 1000 ^ (m - length vs)" by (simp only: rval_rev vval_zeros)
  finally show ?thesis .
qed

text \<open>Versions with more parts than the least number are out of step: the fourth part shifts the other three.\<close>

lemma version_int_uneven:
  "str_to_version_int ''1.0.0.0'' 3 = Inr 1000000000" "str_to_version_int ''2.0.0'' 3 = Inr 2000000"
proof -
  have t: "version_text [1, 0, 0, 0] = ''1.0.0.0''" "version_text [2, 0, 0] = ''2.0.0''" by code_simp+
  show "str_to_version_int ''1.0.0.0'' 3 = Inr 1000000000" using version_int [of "[1, 0, 0, 0]" 3] by (simp add: t)
  show "str_to_version_int ''2.0.0'' 3 = Inr 2000000" using version_int [of "[2, 0, 0]" 3] by (simp add: t)
qed

definition padded :: "nat \<Rightarrow> int list \<Rightarrow> int list" where
  \<comment> \<open>a version with the zeros that fill it up to the least number of parts\<close>
  "padded m vs = vs @ replicate (m - length vs) 0"

lemma version_int_padded:
  assumes "vs \<noteq> []" "length vs \<le> 6" "m \<le> 6" "list_all (\<lambda>d. 0 \<le> d \<and> d < 1000) vs"
  shows "str_to_version_int (version_text vs) m = Inr (vval (padded m vs))"
  using version_int [of vs m] assms by (simp add: padded_def vval_zeros)

text \<open>C33: Versions of up to six numbers below 1000 are compared by their integers exactly as number by number from the left, where
  parts that are missing up to the least number of parts count as zeros. Both have the same number of parts then: versions of different
  lengths beyond the least one are out of step (\<open>version_int_uneven\<close>).\<close>

theorem version_int_order:
  assumes "vs \<noteq> []" "ws \<noteq> []" "length (padded m vs) = length (padded m ws)" "length (padded m vs) \<le> 6"
    and "list_all (\<lambda>d. 0 \<le> d \<and> d < 1000) vs" "list_all (\<lambda>d. 0 \<le> d \<and> d < 1000) ws"
  shows "\<exists>a b. str_to_version_int (version_text vs) m = Inr a \<and> str_to_version_int (version_text ws) m = Inr b
    \<and> (a < b \<longleftrightarrow> padded m vs < padded m ws)"
proof -
  have l: "length vs \<le> 6" "length ws \<le> 6" "m \<le> 6" using assms(3,4) by (auto simp: padded_def)
  have p: "list_all (\<lambda>d. 0 \<le> d \<and> d < 1000) (padded m vs)" "list_all (\<lambda>d. 0 \<le> d \<and> d < 1000) (padded m ws)"
    using assms(5,6) by (auto simp: padded_def list_all_iff)
  show ?thesis
    using version_int_padded [OF assms(1) l(1,3) assms(5)] version_int_padded [OF assms(2) l(2,3) assms(6)] vval_less [OF assms(3) p] by simp
qed

theorem version_int_order_witness:
  "(\<exists>a b. str_to_version_int ''3.2.1'' 3 = Inr a \<and> str_to_version_int ''3.10'' 3 = Inr b \<and> a < b)
    \<and> (\<exists>a b. str_to_version_int ''3.2.1'' 2 = Inr a \<and> str_to_version_int ''3.10.0'' 2 = Inr b \<and> a < b)"
proof -
  have t: "version_text [3, 2, 1] = ''3.2.1''" "version_text [3, 10, 0] = ''3.10.0''" "version_text [3, 10] = ''3.10''" by code_simp+
  have p: "padded 3 [3, 2, 1] = [3, 2, 1]" "padded 3 [3, 10] = [3, 10, 0]" "padded 2 [3, 2, 1] = [3, 2, 1]" "padded 2 [3, 10, 0] = [3, 10, 0]"
    by code_simp+
  show ?thesis
    using version_int_order [of "[3, 2, 1]" "[3, 10]" 3] version_int_order [of "[3, 2, 1]" "[3, 10, 0]" 2] by (simp add: t p)
qed

text \<open>A list of truth values stays text, and so do the numbers of a list in a text: the tests look at something else.\<close>

lemma lists_stay_text:
  "str2var tstrip (PList [PStr ''true'', PStr ''false'']) = Inr (PList [PStr ''true'', PStr ''false''])"
  "machinetext2val ''[1,2]'' = PList [PStr ''1'', PStr ''2'']"
  by code_simp+

section \<open>Lines and paths\<close>

lemma rstrip_snoc_nl: "last s \<noteq> nl \<Longrightarrow> s \<noteq> [] \<Longrightarrow> rstrip_chars [nl] (s @ [nl]) = s"
  by (simp add: rstrip_by_def dropWhile_id_hd hd_rev)

lemma concat_lines_last:
  "ls \<noteq> [] \<Longrightarrow> last ls \<noteq> [] \<Longrightarrow> \<exists>s. concat (map (\<lambda>l. l @ [nl]) ls) = s @ [nl] \<and> s \<noteq> [] \<and> last s = last (last ls)
     \<and> s = join [nl] ls"
proof (induction ls)
  case (Cons l ls)
  show ?case
  proof (cases "ls = []")
    case True
    with Cons.prems show ?thesis by simp
  next
    case False
    with Cons obtain s where s: "concat (map (\<lambda>l. l @ [nl]) ls) = s @ [nl]" "s \<noteq> []" "last s = last (last ls)" "s = join [nl] ls"
      by auto
    with False show ?thesis by (auto simp: join_Cons)
  qed
qed simp

text \<open>Taking a prefix away from every line of a text gives the text to whose lines it was put, with one newline at the end.\<close>

theorem prefix_roundtrip:
  assumes "p \<noteq> []" "nl \<notin> set p"
  shows "prefix_remove p (text_prefix p t) only = rstrip_chars [nl] t @ [nl]"
proof -
  let ?ls = "text_lines t"
  have ne: "?ls \<noteq> []" by (simp add: text_lines_def)
  have nonl: "nl \<notin> set l" if "l \<in> set ?ls" for l using that split_char_parts by (auto simp: text_lines_def)
  have pre: "text_prefix p t = concat (map (\<lambda>l. l @ [nl]) (map ((@) p) ?ls))" by (simp add: text_prefix_def comp_def)
  have "last (map ((@) p) ?ls) \<noteq> []" "last (last (map ((@) p) ?ls)) \<noteq> nl"
    using ne assms nonl [OF last_in_set [OF ne]] by (auto simp: last_map last_append dest: last_in_set)
  with concat_lines_last [of "map ((@) p) ?ls"] ne pre obtain s where s: "text_prefix p t = s @ [nl]" "s \<noteq> []" "last s \<noteq> nl"
    "s = join [nl] (map ((@) p) ?ls)" by auto
  have "text_lines (text_prefix p t) = lines s" using s(1) rstrip_snoc_nl [OF s(3,2)] by (simp only: text_lines_def)
  also have "\<dots> = map ((@) p) ?ls" unfolding s(4) using ne nonl assms(2) by (intro split_join) auto
  finally have l: "text_lines (text_prefix p t) = map ((@) p) ?ls" .
  have "prefix_remove p (text_prefix p t) only = concat (map (\<lambda>l. l @ [nl]) ?ls)"
    unfolding prefix_remove_def l by (simp add: comp_def)
  also have "concat (map (\<lambda>l. l @ [nl]) ls) = join [nl] ls @ [nl]" if "ls \<noteq> []" for ls
    using that
  proof (induction ls)
    case (Cons k ks)
    then show ?case by (cases "ks = []") (simp_all add: join_Cons)
  qed simp
  then have "concat (map (\<lambda>l. l @ [nl]) ?ls) = join [nl] ?ls @ [nl]" using ne by blast
  also have "join [nl] ?ls = rstrip_chars [nl] t" by (simp add: text_lines_def join_split)
  finally show ?thesis .
qed

theorem prefix_roundtrip_witness:
  "prefix_remove ''> '' (text_prefix ''> '' [CHR ''a'', nl, CHR ''b'']) False = [CHR ''a'', nl, CHR ''b'', nl]"
proof -
  have "rstrip_chars [nl] [CHR ''a'', nl, CHR ''b''] = [CHR ''a'', nl, CHR ''b'']" by (simp add: rstrip_by_def)
  then show ?thesis using prefix_roundtrip [of "''> ''" "[CHR ''a'', nl, CHR ''b'']" False] by simp
qed

definition path_char :: "char \<Rightarrow> bool" where
  "path_char c = (is_lower c \<or> is_digit c \<or> c \<in> set ''-_!. {}'')"

lemma set_map_filter: "set (List.map_filter f xs) = {y. \<exists>x\<in>set xs. f x = Some y}"
  by (induction xs) (auto simp: List.map_filter_def)

lemma ascii_ok_path: "c \<in> set ascii_ok \<Longrightarrow> safe_char (lower_char c) = Some d \<Longrightarrow> path_char d"
proof -
  have "list_all (\<lambda>c. case safe_char (lower_char c) of None \<Rightarrow> True | Some d \<Rightarrow> path_char d) ascii_ok" by code_simp
  then show "c \<in> set ascii_ok \<Longrightarrow> safe_char (lower_char c) = Some d \<Longrightarrow> path_char d" by (auto simp: list_all_iff)
qed

lemma set_cut_len: "set (cut_len n s) \<subseteq> set s"
  by (auto simp: cut_len_def dest: in_set_takeD)

lemma length_strip: "length (strip_by p s) \<le> length s"
  by (simp add: strip_by_def rstrip_by_def lstrip_by_def)
    (metis le_trans length_dropWhile_le length_rev)

text \<open>A safe path only has lower case letters, digits and a few signs, none of them a separator or a quote, and is not longer
  than the limit.\<close>

theorem safe_path_chars:
  "list_all path_char (to_safe_path noansi t n) \<and> (0 < n \<longrightarrow> length (to_safe_path noansi t n) \<le> n)
   \<and> strip (to_safe_path noansi t n) = to_safe_path noansi t n"
proof (intro conjI impI)
  define a where "a = strip_chars ('' .-_'' @ [squote]) (strip (lower (to_ascii noansi t 0)))"
  have out: "to_safe_path noansi t n = strip (cut_len n (collapse ''  '' '' '' (List.map_filter safe_char a)))"
    by (simp add: to_safe_path_def a_def Let_def)
  have asc: "set (to_ascii noansi t 0) \<subseteq> set ascii_ok"
    using set_strip_by [of is_space] set_cut_len unfolding to_ascii_def by fastforce
  have "set a \<subseteq> set (lower (to_ascii noansi t 0))" unfolding a_def using set_strip_by by (meson order_trans)
  then have ok: "path_char d" if "c \<in> set a" "safe_char c = Some d" for c d
    using that asc ascii_ok_path by (auto simp: lower_def)
  have "set (to_safe_path noansi t n) \<subseteq> set (collapse ''  '' '' '' (List.map_filter safe_char a))"
    unfolding out using set_strip_by set_cut_len by (meson order_trans)
  also have "\<dots> \<subseteq> set '' '' \<union> set (List.map_filter safe_char a)" by (rule set_collapse)
  finally have sub: "set (to_safe_path noansi t n) \<subseteq> set '' '' \<union> set (List.map_filter safe_char a)" .
  have "path_char (CHR '' '')" by (simp add: path_char_def)
  with sub ok show "list_all path_char (to_safe_path noansi t n)" by (fastforce simp: list_all_iff set_map_filter)
  show "0 < n \<Longrightarrow> length (to_safe_path noansi t n) \<le> n"
    unfolding out by (rule order_trans [OF length_strip]) (simp add: cut_len_def)
  show "strip (to_safe_path noansi t n) = to_safe_path noansi t n" by (simp add: out)
qed

end
