(* ===== verification/Alerts.thy ===== *)
theory Alerts
  imports CoreText
begin

text \<open>
  The alert handler (\<^verbatim>\<open>tools/alerthandler/RedisAlertHandler.py\<close>): errors that are raised become alerts in redis, one for every
  kind of error, with a counter, the processes it was seen in and the last log positions. The three redis keys are maps and a
  counter; the form in which an alert is stored is any type with an encoder and a decoder, which cleans every text again
  (\<open>reread\<close>) as setting the properties from the stored json does. The md5, the replacing of variables in a
  text, the json form of data and the first second of a day are arguments. The support trace of an alert is never touched and left out.
\<close>

section \<open>Alerts\<close>

record alert_event =
  e_bot :: string
  e_pids :: "int list"
  e_path :: string
  e_linenr :: int
  e_count :: int
  e_first :: int
  e_last :: int
  e_data :: string

record alert_log =
  l_bot :: string
  l_app :: string
  l_latest :: int

record tb_item =
  i_path :: string
  i_linenr :: int
  i_line :: string
  i_context :: string

record tb_group =
  g_bot :: string
  g_pid :: int
  g_items :: "tb_item list"

record alert =
  al_id :: int
  al_ident :: string
  al_type :: string
  al_level :: int
  al_msg :: string
  al_pub :: string
  al_cat :: string
  al_count :: int
  al_status :: string
  al_first :: int
  al_last :: int
  al_events :: "alert_event list"
  al_tbs :: "tb_group list"
  al_logs :: "alert_log list"
  al_app :: string

record logdict =
  ld_message :: "string option"
  ld_public :: "string option"
  ld_cat :: "string option"
  ld_level :: "int option"
  ld_pid :: "int option"
  ld_path :: "string option"
  ld_linenr :: "int option"
  ld_traceback :: "(string \<times> string \<times> int \<times> string) list option"
  ld_data :: "pyval option"

record 'd alert_env =
  v_md5 :: "string \<Rightarrow> string"
  v_replace :: "string \<Rightarrow> string"
  v_json :: "pyval \<Rightarrow> string"
  v_day :: "int \<Rightarrow> int"
  v_bot :: string
  v_app :: string
  v_pid :: int
  v_logid :: int
  v_enc :: "alert \<Rightarrow> 'd"
  v_dec :: "'d \<Rightarrow> alert res"

record 'd alert_db =
  db_alerts :: "(string \<times> 'd) list"
  db_ids :: "(int \<times> string) list"
  db_next :: int

definition new_alert :: alert where
  \<comment> \<open>an enumeration begins with its first value: closed\<close>
  "new_alert = \<lparr>al_id = 0, al_ident = [], al_type = ''bug'', al_level = 0, al_msg = [], al_pub = [], al_cat = [], al_count = 0,
     al_status = ''closed'', al_first = 0, al_last = 0, al_events = [], al_tbs = [], al_logs = [], al_app = []\<rparr>"

definition new_event :: alert_event where
  "new_event = \<lparr>e_bot = [], e_pids = [], e_path = [], e_linenr = 0, e_count = 0, e_first = 0, e_last = 0, e_data = []\<rparr>"

definition s_prop :: "string \<Rightarrow> string" where
  \<comment> \<open>the text a property of the type string is set to; the text none is None, which is read back as the empty text\<close>
  "s_prop s = (if lower s = ''none'' then [] else unquote s)"

definition reread_event :: "alert_event \<Rightarrow> alert_event" where
  "reread_event e = e\<lparr>e_bot := s_prop (e_bot e), e_path := s_prop (e_path e), e_data := s_prop (e_data e)\<rparr>"

definition reread_item :: "tb_item \<Rightarrow> tb_item" where
  "reread_item t = t\<lparr>i_path := s_prop (i_path t), i_line := s_prop (i_line t), i_context := s_prop (i_context t)\<rparr>"

definition reread_group :: "tb_group \<Rightarrow> tb_group" where
  "reread_group g = g\<lparr>g_bot := s_prop (g_bot g), g_items := map reread_item (g_items g)\<rparr>"

definition reread_log :: "alert_log \<Rightarrow> alert_log" where
  "reread_log l = l\<lparr>l_bot := s_prop (l_bot l), l_app := s_prop (l_app l)\<rparr>"

definition reread :: "alert \<Rightarrow> alert" where
  \<comment> \<open>\<^verbatim>\<open>schema.new(datadict=...)\<close> of the stored properties: every text is cleaned once more\<close>
  "reread a = a\<lparr>al_ident := s_prop (al_ident a), al_msg := s_prop (al_msg a), al_pub := s_prop (al_pub a), al_cat := s_prop (al_cat a),
     al_app := s_prop (al_app a), al_events := map reread_event (al_events a), al_tbs := map reread_group (al_tbs a),
     al_logs := map reread_log (al_logs a)\<rparr>"

section \<open>Handling an error\<close>

definition get_identifier :: "'d alert_env \<Rightarrow> string \<Rightarrow> string \<Rightarrow> string \<Rightarrow> string \<Rightarrow> string" where
  "get_identifier V msg pub cat ty = v_md5 V (join ''_'' [msg, pub, cat, ty])"

definition alert_get :: "'d alert_env \<Rightarrow> 'd alert_db \<Rightarrow> string \<Rightarrow> int \<Rightarrow> bool \<Rightarrow> bool \<Rightarrow> alert option res" where
  \<comment> \<open>an id that is not 0 comes before the identifier\<close>
  "alert_get V db ident aid die new =
     (case (if aid = 0 then Some ident else d_get (db_ids db) aid) of
        None \<Rightarrow> if die then Inl P_RuntimeError else Inr None
      | Some i \<Rightarrow> (case d_get (db_alerts db) i of
          Some d \<Rightarrow> rbind (v_dec V d) (\<lambda>a. Inr (Some a))
        | None \<Rightarrow> if die then Inl P_RuntimeError else if new then Inr (Some new_alert) else Inr None))"

definition alert_set :: "'d alert_env \<Rightarrow> alert \<Rightarrow> 'd alert_db \<Rightarrow> 'd alert_db" where
  "alert_set V a0 db0 =
     (let (a, db) = (if al_id a0 = 0
            then (a0\<lparr>al_id := db_next db0 + 1\<rparr>, db0\<lparr>db_next := db_next db0 + 1, db_ids := d_set (db_ids db0) (db_next db0 + 1) (al_ident a0)\<rparr>)
            else (a0, db0))
      in db\<lparr>db_alerts := d_set (db_alerts db) (al_ident a) (v_enc V a)\<rparr>)"

definition pop_front :: "nat \<Rightarrow> 'a list \<Rightarrow> 'a list" where
  \<comment> \<open>\<^verbatim>\<open>if len(l) > n: l.pop(0)\<close>\<close>
  "pop_front n l = (if n < length l then tl l else l)"

definition relative_path :: "string \<Rightarrow> string" where
  "relative_path p = (case after_first ''sandbox/'' p of None \<Rightarrow> p | Some r \<Rightarrow> ''{DIR_BASE}/'' @ r)"

definition tb_line :: "string \<times> string \<times> int \<times> string \<Rightarrow> tb_item option" where
  "tb_line t = (case t of (path, context, nr, line) \<Rightarrow> if context = ''<module>'' then None
     else Some \<lparr>i_path = s_prop (relative_path path), i_linenr = nr, i_line = s_prop line, i_context = s_prop context\<rparr>)"

definition trace_add :: "alert \<Rightarrow> (string \<times> string \<times> int \<times> string) list \<Rightarrow> string \<Rightarrow> int \<Rightarrow> alert" where
  "trace_add a tb who pid = a\<lparr>al_tbs := pop_front 5 (al_tbs a)
     @ [\<lparr>g_bot = s_prop who, g_pid = pid, g_items = List.map_filter tb_line tb\<rparr>]\<rparr>"

fun event_update :: "(alert_event \<Rightarrow> alert_event) \<Rightarrow> string \<Rightarrow> alert_event list \<Rightarrow> alert_event list" where
  \<comment> \<open>\<^verbatim>\<open>_event_get\<close>: the first event of the robot, or a new one at the end; events are objects that are changed in place\<close>
  "event_update f who [] = [f new_event]"
| "event_update f who (e # es) = (if e_bot e = who then f e # es else e # event_update f who es)"

definition add_pid :: "int \<Rightarrow> int list \<Rightarrow> int list" where
  "add_pid pid l = (let l' = pop_front 20 l in if pid \<in> set l' then l' else l' @ [pid])"

definition dumps_data :: "'d alert_env \<Rightarrow> pyval \<Rightarrow> string" where
  "dumps_data V d = (case d of PStr s \<Rightarrow> s | _ \<Rightarrow> v_json V d)"

definition event_fill :: "'d alert_env \<Rightarrow> int \<Rightarrow> logdict \<Rightarrow> int \<Rightarrow> string \<Rightarrow> alert_event \<Rightarrow> alert_event" where
  "event_fill V now ld pid who e =
     e\<lparr>e_bot := s_prop who, e_pids := add_pid pid (e_pids e),
       e_path := s_prop (case ld_path ld of None \<Rightarrow> [] | Some p \<Rightarrow> relative_path p),
       e_linenr := (case ld_linenr ld of None \<Rightarrow> e_linenr e | Some n \<Rightarrow> n),
       e_count := e_count e + 1, e_first := (if e_first e = 0 then v_day V now else e_first e), e_last := v_day V now,
       e_data := (case ld_data ld of None \<Rightarrow> e_data e | Some d \<Rightarrow> s_prop (dumps_data V d))\<rparr>"

definition process_pid :: "'d alert_env \<Rightarrow> logdict \<Rightarrow> int" where
  \<comment> \<open>\<^verbatim>\<open>_process_logdict\<close>; the text unknown is an absent number here\<close>
  "process_pid V ld = (case ld_pid ld of None \<Rightarrow> v_pid V | Some p \<Rightarrow> if p = 0 then v_pid V else p)"

definition add_event :: "'d alert_env \<Rightarrow> int \<Rightarrow> logdict \<Rightarrow> alert \<Rightarrow> alert" where
  "add_event V now ld a =
     (let who = strip (lower (v_bot V)); pid = process_pid V ld;
          key = (if who = [] then v_bot V else who);
          a' = a\<lparr>al_events := event_update (event_fill V now ld pid who) key (pop_front 20 (al_events a))\<rparr>
      in (case ld_traceback ld of
            None \<Rightarrow> a' | Some [] \<Rightarrow> a' | Some tb \<Rightarrow> trace_add a' tb who pid))"

definition next_status :: "string \<Rightarrow> string" where
  "next_status s = (let s' = (if s = ''new'' then ''open'' else s) in if s' = ''closed'' then ''reopen'' else s')"

definition add_log :: "'d alert_env \<Rightarrow> alert_log list \<Rightarrow> alert_log list" where
  \<comment> \<open>\<^verbatim>\<open>pop(-1)\<close> takes the last one away\<close>
  "add_log V logs = (if 10 < length logs then butlast logs else logs)
     @ [\<lparr>l_bot = s_prop (v_bot V), l_app = s_prop (v_app V), l_latest = v_logid V\<rparr>]"

definition alert_fill :: "'d alert_env \<Rightarrow> int \<Rightarrow> logdict \<Rightarrow> string \<Rightarrow> string \<Rightarrow> string \<Rightarrow> string \<Rightarrow> int \<Rightarrow> alert \<Rightarrow> alert" where
  "alert_fill V now ld ident msg pub cat level a =
     add_event V now ld (a\<lparr>al_status := next_status (al_status a), al_ident := s_prop ident, al_type := ''event_system'', al_level := level,
       al_msg := s_prop (v_replace V msg), al_pub := s_prop pub, al_cat := s_prop cat, al_count := al_count a + 1,
       al_app := s_prop (v_app V), al_first := (if al_first a = 0 then now else al_first a), al_last := now,
       al_logs := add_log V (al_logs a)\<rparr>)"

definition handle_error :: "'d alert_env \<Rightarrow> int \<Rightarrow> logdict \<Rightarrow> 'd alert_db \<Rightarrow> 'd alert_db res" where
  "handle_error V now ld db =
     (case ld_message ld of None \<Rightarrow> Inl P_KeyError
      | Some msg \<Rightarrow> (let pub = (case ld_public ld of None \<Rightarrow> [] | Some p \<Rightarrow> p);
                         cat = (case ld_cat ld of None \<Rightarrow> [] | Some c \<Rightarrow> c);
                         ident = get_identifier V msg pub cat ''event_system''
          in rbind (alert_get V db ident 0 False True) (\<lambda>oa. case oa of
               None \<Rightarrow> Inl P_AttributeError
             | Some a \<Rightarrow> (case ld_level ld of None \<Rightarrow> Inl P_KeyError
                 | Some level \<Rightarrow> Inr (alert_set V (alert_fill V now ld ident msg pub cat level a) db)))))"

definition alert_raise :: "'d alert_env \<Rightarrow> int \<Rightarrow> string \<Rightarrow> string \<Rightarrow> string \<Rightarrow> int \<Rightarrow> string \<Rightarrow> 'd alert_db \<Rightarrow> 'd alert_db res" where
  \<comment> \<open>the kind of the alert goes into the dictionary, where nothing looks for it\<close>
  "alert_raise V now msg pub cat level ty db = handle_error V now
     \<lparr>ld_message = Some msg, ld_public = Some pub, ld_cat = Some cat, ld_level = Some level, ld_pid = None, ld_path = None,
      ld_linenr = None, ld_traceback = None, ld_data = None\<rparr> db"

section \<open>Reading and deleting\<close>

definition alert_delete :: "alert \<Rightarrow> 'd alert_db \<Rightarrow> 'd alert_db" where
  "alert_delete a db = db\<lparr>db_ids := d_pop (db_ids db) (al_id a), db_alerts := d_pop (db_alerts db) (al_ident a)\<rparr>"

definition alert_delete_all :: "'d alert_db \<Rightarrow> 'd alert_db" where
  "alert_delete_all db = db\<lparr>db_alerts := [], db_ids := [], db_next := 0\<rparr>"

definition alert_reset :: "'d alert_db \<Rightarrow> 'd alert_db" where
  "alert_reset db = db\<lparr>db_alerts := []\<rparr>"

definition alert_list :: "'d alert_env \<Rightarrow> 'd alert_db \<Rightarrow> alert list res" where
  \<comment> \<open>\<^verbatim>\<open>list\<close> by way of \<^verbatim>\<open>walk\<close>, without the keys\<close>
  "alert_list V db = rmap (\<lambda>(k, d). v_dec V d) (db_alerts db)"

definition alert_count :: "'d alert_env \<Rightarrow> 'd alert_db \<Rightarrow> nat res" where
  "alert_count V db = rbind (alert_list V db) (\<lambda>l. Inr (length l))"

definition alert_matches :: "string \<Rightarrow> string \<Rightarrow> int \<Rightarrow> int \<Rightarrow> int \<Rightarrow> string \<Rightarrow> alert \<Rightarrow> bool" where
  \<comment> \<open>the times are cleaned; 0 and the empty text are no condition\<close>
  "alert_matches cat message pid from till app a =
     ((message = [] \<or> str_in message (lower (strip (al_msg a))) \<or> str_in message (lower (strip (al_pub a))))
      \<and> (cat = [] \<or> str_in cat (lower (strip (al_cat a))))
      \<and> (app = [] \<or> str_in app (lower (al_app a)))
      \<and> (pid = 0 \<or> list_ex (\<lambda>e. pid \<in> set (e_pids e)) (al_events a))
      \<and> (till = 0 \<or> al_last a \<le> till) \<and> (from = 0 \<or> from \<le> al_last a))"

definition alert_find :: "'d alert_env \<Rightarrow> 'd alert_db \<Rightarrow> string \<Rightarrow> string \<Rightarrow> int \<Rightarrow> int \<Rightarrow> int \<Rightarrow> string \<Rightarrow> alert list res" where
  "alert_find V db cat message pid from till app = rbind (alert_list V db) (\<lambda>l.
     Inr (filter (alert_matches (lower (strip cat)) (lower (strip message)) pid from till app) l))"

section \<open>Every error is counted\<close>

definition hex_digest :: "(string \<Rightarrow> string) \<Rightarrow> bool" where
  \<comment> \<open>what is relied on of md5: 32 hexadecimal digits\<close>
  "hex_digest h = (\<forall>s. length (h s) = 32 \<and> set (h s) \<subseteq> set ''0123456789abcdef'')"

definition alert_laws :: "'d alert_env \<Rightarrow> bool" where
  "alert_laws V = (hex_digest (v_md5 V) \<and> (\<forall>a. v_dec V (v_enc V a) = Inr (reread a)))"

lemma s_prop_digest: "hex_digest h \<Longrightarrow> s_prop (h s) = h s"
proof -
  assume "hex_digest h"
  then have l: "length (h s) = 32" and c: "set (h s) \<subseteq> set ''0123456789abcdef''" by (auto simp: hex_digest_def)
  have q: "CHR 0x27 \<notin> set (h s)" "CHR 0x22 \<notin> set (h s)" using c by auto
  have "lower (h s) \<noteq> ''none''"
  proof
    assume "lower (h s) = ''none''"
    then have "length (lower (h s)) = 4" by simp
    with l show False by (simp add: lower_def)
  qed
  moreover have "\<not> TypesPrim.quoted (h s)"
  proof
    assume "TypesPrim.quoted (h s)"
    then have "strip (h s) \<noteq> []" "hd (strip (h s)) \<in> {CHR 0x27, CHR 0x22}" by (auto simp: TypesPrim.quoted_def Let_def)
    then have "CHR 0x27 \<in> set (strip (h s)) \<or> CHR 0x22 \<in> set (strip (h s))" by (metis insertE list.set_sel(1) singletonD)
    with q set_strip_by show False by blast
  qed
  ultimately show ?thesis by (simp add: s_prop_def unquote_id)
qed

definition ld_ident :: "'d alert_env \<Rightarrow> logdict \<Rightarrow> string" where
  "ld_ident V ld = get_identifier V (case ld_message ld of None \<Rightarrow> [] | Some m \<Rightarrow> m) (case ld_public ld of None \<Rightarrow> [] | Some p \<Rightarrow> p)
     (case ld_cat ld of None \<Rightarrow> [] | Some c \<Rightarrow> c) ''event_system''"

definition ld_complete :: "logdict \<Rightarrow> bool" where
  "ld_complete ld = (ld_message ld \<noteq> None \<and> ld_level ld \<noteq> None)"

definition alert_at :: "'d alert_env \<Rightarrow> 'd alert_db \<Rightarrow> string \<Rightarrow> alert option" where
  \<comment> \<open>the alert that is stored for an identifier\<close>
  "alert_at V db i = (case d_get (db_alerts db) i of None \<Rightarrow> None | Some d \<Rightarrow> (case v_dec V d of Inl e \<Rightarrow> None | Inr a \<Rightarrow> Some a))"

lemma add_event_fields [simp]:
  "al_id (add_event V now ld a) = al_id a" "al_ident (add_event V now ld a) = al_ident a" "al_count (add_event V now ld a) = al_count a"
  "al_first (add_event V now ld a) = al_first a" "al_last (add_event V now ld a) = al_last a" "al_logs (add_event V now ld a) = al_logs a"
  "al_status (add_event V now ld a) = al_status a"
  by (simp_all add: add_event_def trace_add_def Let_def split: option.split list.split)

lemmas alert_fill_fields = alert_fill_def add_event_fields alert.simps

lemma reread_fields [simp]:
  "al_id (reread a) = al_id a" "al_count (reread a) = al_count a" "al_first (reread a) = al_first a" "al_last (reread a) = al_last a"
  "al_status (reread a) = al_status a" "al_ident (reread a) = s_prop (al_ident a)"
  by (simp_all add: reread_def)

lemma ident_stable: "alert_laws V \<Longrightarrow> s_prop (ld_ident V ld) = ld_ident V ld"
  using s_prop_digest unfolding alert_laws_def ld_ident_def get_identifier_def by blast

definition db_filed :: "'d alert_env \<Rightarrow> 'd alert_db \<Rightarrow> bool" where
  \<comment> \<open>every alert is stored under its identifier, and has an id of its own that leads back to it\<close>
  "db_filed V db = (distinct (d_keys (db_alerts db)) \<and> 0 \<le> db_next db
     \<and> (\<forall>i d. d_get (db_alerts db) i = Some d \<longrightarrow> (\<exists>a. v_dec V d = Inr a \<and> al_ident a = i \<and> 0 < al_id a \<and> al_id a \<le> db_next db
          \<and> d_get (db_ids db) (al_id a) = Some i)))"

lemma handle_error_run:
  assumes "alert_laws V" "db_filed V db" "ld_complete ld"
  obtains a where "handle_error V now ld db = Inr (alert_set V a db)" "al_ident a = ld_ident V ld"
    "let old = (case alert_at V db (ld_ident V ld) of None \<Rightarrow> new_alert | Some b \<Rightarrow> b) in
       al_id a = al_id old \<and> al_count a = al_count old + 1 \<and> al_first a = (if al_first old = 0 then now else al_first old) \<and> al_last a = now
       \<and> al_status a = next_status (al_status old) \<and> al_logs a = add_log V (al_logs old)"
proof -
  obtain msg level where m: "ld_message ld = Some msg" "ld_level ld = Some level" using assms(3) by (auto simp: ld_complete_def)
  let ?pub = "case ld_public ld of None \<Rightarrow> [] | Some p \<Rightarrow> p" and ?cat = "case ld_cat ld of None \<Rightarrow> [] | Some c \<Rightarrow> c"
  have i: "get_identifier V msg ?pub ?cat ''event_system'' = ld_ident V ld" by (simp add: ld_ident_def m(1))
  have sp: "s_prop (ld_ident V ld) = ld_ident V ld" by (rule ident_stable [OF assms(1)])
  let ?old = "case alert_at V db (ld_ident V ld) of None \<Rightarrow> new_alert | Some b \<Rightarrow> b"
  have g: "alert_get V db (ld_ident V ld) 0 False True = Inr (Some ?old)"
    using assms(2) by (fastforce simp: alert_get_def alert_at_def db_filed_def split: option.split)
  let ?a = "alert_fill V now ld (ld_ident V ld) msg ?pub ?cat level ?old"
  have "handle_error V now ld db = Inr (alert_set V ?a db)"
    unfolding handle_error_def m option.case Let_def i g by simp
  moreover have "al_ident ?a = ld_ident V ld" by (simp add: alert_fill_def sp)
  ultimately show ?thesis by (rule that) (simp add: alert_fill_def Let_def)
qed

definition with_id :: "'d alert_db \<Rightarrow> alert \<Rightarrow> alert" where
  "with_id db a = (if al_id a = 0 then a\<lparr>al_id := db_next db + 1\<rparr> else a)"

lemma alert_set_parts:
  "db_alerts (alert_set V a db) = d_set (db_alerts db) (al_ident a) (v_enc V (with_id db a))"
  "db_next (alert_set V a db) = (if al_id a = 0 then db_next db + 1 else db_next db)"
  "db_ids (alert_set V a db) = (if al_id a = 0 then d_set (db_ids db) (db_next db + 1) (al_ident a) else db_ids db)"
  by (simp_all add: alert_set_def with_id_def)

lemma alert_at_set:
  "alert_laws V \<Longrightarrow> alert_at V (alert_set V a db) i = (if i = al_ident a then Some (reread (with_id db a)) else alert_at V db i)"
  by (simp add: alert_at_def alert_set_parts alert_laws_def)

lemma filed_set:
  assumes "alert_laws V" "db_filed V db" "s_prop (al_ident a) = al_ident a" "al_id a \<noteq> 0 \<Longrightarrow> 0 < al_id a \<and> al_id a \<le> db_next db \<and> d_get (db_ids db) (al_id a) = Some (al_ident a)"
  shows "db_filed V (alert_set V a db)"
  unfolding db_filed_def alert_set_parts
proof (intro conjI allI impI)
  show "distinct (d_keys (d_set (db_alerts db) (al_ident a) (v_enc V (with_id db a))))" using assms(2) by (auto simp: db_filed_def)
  show "0 \<le> (if al_id a = 0 then db_next db + 1 else db_next db)" using assms(2) by (simp add: db_filed_def)
  fix i d
  assume d: "d_get (d_set (db_alerts db) (al_ident a) (v_enc V (with_id db a))) i = Some d"
  show "\<exists>b. v_dec V d = Inr b \<and> al_ident b = i \<and> 0 < al_id b \<and> al_id b \<le> (if al_id a = 0 then db_next db + 1 else db_next db)
    \<and> d_get (if al_id a = 0 then d_set (db_ids db) (db_next db + 1) (al_ident a) else db_ids db) (al_id b) = Some i"
  proof (cases "i = al_ident a")
    case True
    with d assms show ?thesis by (auto simp: with_id_def alert_laws_def db_filed_def)
  next
    case False
    with d assms(2) obtain b where "v_dec V d = Inr b" "al_ident b = i" "0 < al_id b" "al_id b \<le> db_next db" "d_get (db_ids db) (al_id b) = Some i"
      unfolding db_filed_def by auto
    then show ?thesis by auto
  qed
qed

lemma filed_at:
  assumes "db_filed V db" "alert_at V db i = Some a"
  shows "al_ident a = i" "0 < al_id a" "al_id a \<le> db_next db" "d_get (db_ids db) (al_id a) = Some i"
proof -
  obtain d where d: "d_get (db_alerts db) i = Some d" "v_dec V d = Inr a"
    using assms(2) by (auto simp: alert_at_def split: option.splits sum.splits)
  with assms(1) have "al_ident a = i \<and> 0 < al_id a \<and> al_id a \<le> db_next db \<and> d_get (db_ids db) (al_id a) = Some i"
    unfolding db_filed_def by fastforce
  then show "al_ident a = i" "0 < al_id a" "al_id a \<le> db_next db" "d_get (db_ids db) (al_id a) = Some i" by auto
qed

lemma handle_error_filed:
  assumes "alert_laws V" "db_filed V db" "ld_complete ld"
  shows "\<exists>db'. handle_error V now ld db = Inr db' \<and> db_filed V db'"
proof -
  from assms obtain a where a: "handle_error V now ld db = Inr (alert_set V a db)" "al_ident a = ld_ident V ld"
    "let old = (case alert_at V db (ld_ident V ld) of None \<Rightarrow> new_alert | Some b \<Rightarrow> b) in
       al_id a = al_id old \<and> al_count a = al_count old + 1 \<and> al_first a = (if al_first old = 0 then now else al_first old) \<and> al_last a = now
       \<and> al_status a = next_status (al_status old) \<and> al_logs a = add_log V (al_logs old)"
    by (rule handle_error_run)
  have "db_filed V (alert_set V a db)"
  proof (rule filed_set [OF assms(1,2)])
    show "s_prop (al_ident a) = al_ident a" using ident_stable [OF assms(1)] a(2) by simp
    assume n: "al_id a \<noteq> 0"
    with a(3) obtain b where "alert_at V db (ld_ident V ld) = Some b" "al_id a = al_id b"
      by (cases "alert_at V db (ld_ident V ld)") (auto simp: Let_def new_alert_def)
    with filed_at [OF assms(2) this(1)] a(2) show "0 < al_id a \<and> al_id a \<le> db_next db \<and> d_get (db_ids db) (al_id a) = Some (al_ident a)"
      by simp
  qed
  with a(1) show ?thesis by simp
qed

definition empty_db :: "'d alert_db" where
  "empty_db = \<lparr>db_alerts = [], db_ids = [], db_next = 0\<rparr>"

definition handle_all :: "'d alert_env \<Rightarrow> (int \<times> logdict) list \<Rightarrow> 'd alert_db res" where
  "handle_all V raised = rfold (\<lambda>db (t, ld). handle_error V t ld db) empty_db raised"

definition seen :: "'d alert_env \<Rightarrow> string \<Rightarrow> (int \<times> logdict) list \<Rightarrow> (int \<times> logdict) list" where
  "seen V i raised = filter (\<lambda>(t, ld). ld_ident V ld = i) raised"

definition counted :: "alert option \<Rightarrow> (int \<times> logdict) list \<Rightarrow> bool" where
  "counted oa xs = (case oa of None \<Rightarrow> xs = []
     | Some a \<Rightarrow> xs \<noteq> [] \<and> al_count a = int (length xs) \<and> al_first a = fst (hd xs) \<and> al_last a = fst (last xs))"

lemma rfold_snoc: "rfold f s (xs @ [x]) = rbind (rfold f s xs) (\<lambda>s'. f s' x)"
  by (induction xs arbitrary: s) (auto simp: rbind_def split: sum.split)

lemma db_keys_at: "db_filed V db \<Longrightarrow> i \<in> set (d_keys (db_alerts db)) \<longleftrightarrow> alert_at V db i \<noteq> None"
proof (cases "d_get (db_alerts db) i")
  case None
  then show ?thesis using d_get_None_iff [of "db_alerts db" i] by (simp add: alert_at_def)
next
  case (Some d)
  assume "db_filed V db"
  with Some obtain a where "v_dec V d = Inr a" unfolding db_filed_def by blast
  with Some show ?thesis using d_get_None_iff [of "db_alerts db" i] by (simp add: alert_at_def)
qed

lemma handle_all_counted:
  assumes "alert_laws V" "\<forall>(t, ld)\<in>set raised. 0 < t \<and> ld_complete ld"
  shows "\<exists>db. handle_all V raised = Inr db \<and> db_filed V db \<and> (\<forall>i. counted (alert_at V db i) (seen V i raised))"
  using assms(2)
proof (induction raised rule: rev_induct)
  case Nil
  then show ?case by (simp add: handle_all_def empty_db_def db_filed_def alert_at_def seen_def counted_def d_keys_def)
next
  case (snoc x raised)
  obtain t ld where x: "x = (t, ld)" "0 < t" "ld_complete ld" using snoc.prems by (cases x) auto
  from snoc obtain db where db: "handle_all V raised = Inr db" "db_filed V db" and c: "\<And>i. counted (alert_at V db i) (seen V i raised)" by auto
  from assms(1) db(2) x(3) obtain a where a: "handle_error V t ld db = Inr (alert_set V a db)" "al_ident a = ld_ident V ld"
    "let old = (case alert_at V db (ld_ident V ld) of None \<Rightarrow> new_alert | Some b \<Rightarrow> b) in
       al_id a = al_id old \<and> al_count a = al_count old + 1 \<and> al_first a = (if al_first old = 0 then t else al_first old) \<and> al_last a = t
       \<and> al_status a = next_status (al_status old) \<and> al_logs a = add_log V (al_logs old)"
    by (rule handle_error_run)
  have run: "handle_all V (raised @ [x]) = Inr (alert_set V a db)"
    using db(1) a(1) by (simp add: handle_all_def rfold_snoc x(1))
  have filed: "db_filed V (alert_set V a db)"
    using handle_error_filed [OF assms(1) db(2) x(3), of t] a(1) by simp
  have "counted (alert_at V (alert_set V a db) i) (seen V i (raised @ [x]))" for i
  proof (cases "i = ld_ident V ld")
    case False
    then show ?thesis using c [of i] by (simp add: alert_at_set [OF assms(1)] a(2) seen_def x(1))
  next
    case True
    have s: "seen V (ld_ident V ld) (raised @ [x]) = seen V (ld_ident V ld) raised @ [(t, ld)]" by (simp add: seen_def x(1))
    have pos: "0 < fst (hd (seen V i raised))" if "seen V i raised \<noteq> []"
      using snoc.prems hd_in_set [OF that] by (force simp: seen_def)
    show ?thesis
    proof (cases "alert_at V db i")
      case None
      with c [of i] a(3) x(2) show ?thesis
        by (simp add: alert_at_set [OF assms(1)] s True a(2) counted_def Let_def new_alert_def with_id_def)
    next
      case (Some b)
      with c [of i] a(3) pos show ?thesis
        by (simp add: alert_at_set [OF assms(1)] s True a(2) counted_def Let_def with_id_def)
    qed
  qed
  with run filed show ?case by blast
qed

text \<open>C13: However many errors are handled, in whatever order and mixture, there is exactly one alert for every identifier that
  occurred; it counts how often, and holds the time of the first and of the last one.\<close>

theorem alerts_counted:
  assumes "alert_laws V" "\<forall>(t, ld)\<in>set raised. 0 < t \<and> ld_complete ld"
  shows "\<exists>db. handle_all V raised = Inr db \<and> (\<forall>i. counted (alert_at V db i) (seen V i raised))
    \<and> alert_count V db = Inr (card ((\<lambda>(t, ld). ld_ident V ld) ` set raised))"
proof -
  from handle_all_counted [OF assms] obtain db where
    db: "handle_all V raised = Inr db" "db_filed V db" "\<forall>i. counted (alert_at V db i) (seen V i raised)" by blast
  have "i \<in> set (d_keys (db_alerts db)) \<longleftrightarrow> i \<in> (\<lambda>(t, ld). ld_ident V ld) ` set raised" for i
  proof -
    have "alert_at V db i \<noteq> None \<longleftrightarrow> seen V i raised \<noteq> []" using db(3) by (force simp: counted_def split: option.splits)
    then show ?thesis using db_keys_at [OF db(2), of i] by (force simp: seen_def filter_empty_conv)
  qed
  then have "set (d_keys (db_alerts db)) = (\<lambda>(t, ld). ld_ident V ld) ` set raised" by blast
  then have "length (db_alerts db) = card ((\<lambda>(t, ld). ld_ident V ld) ` set raised)"
    using db(2) distinct_card [of "d_keys (db_alerts db)"] by (simp add: db_filed_def d_keys_def)
  moreover have "\<exists>l. alert_list V db = Inr l \<and> length l = length (db_alerts db)"
  proof -
    define g where "g = (\<lambda>(k :: string, d). case v_dec V d of Inr a \<Rightarrow> a | Inl e \<Rightarrow> new_alert)"
    have "case kd of (k, d) \<Rightarrow> v_dec V d = Inr (g kd)" if "kd \<in> set (db_alerts db)" for kd
    proof -
      obtain k d where kd: "kd = (k, d)" by fastforce
      have "d_get (db_alerts db) k = Some d" using that db(2) by (auto simp: kd db_filed_def intro: d_get_mem_distinct)
      then obtain a where "v_dec V d = Inr a" using db(2) unfolding db_filed_def by blast
      then show ?thesis by (simp add: kd g_def)
    qed
    then have "rmap (\<lambda>(k, d). v_dec V d) (db_alerts db) = Inr (map g (db_alerts db))"
      by (intro rmap_all) (auto split: prod.splits)
    then show ?thesis by (simp add: alert_list_def)
  qed
  ultimately show ?thesis using db(1,3) by (auto simp: alert_count_def)
qed

definition demo_env :: "alert alert_env" where
  "demo_env = \<lparr>v_md5 = (\<lambda>s. replicate 32 (if CHR ''x'' \<in> set s then CHR ''a'' else CHR ''b'')), v_replace = (\<lambda>s. s), v_json = (\<lambda>v. []),
     v_day = (\<lambda>t. t - t mod 86400), v_bot = ''bob'', v_app = ''app'', v_pid = 7, v_logid = 1, v_enc = (\<lambda>a. a), v_dec = (\<lambda>a. Inr (reread a))\<rparr>"

definition plain_error :: "string \<Rightarrow> logdict" where
  "plain_error msg = \<lparr>ld_message = Some msg, ld_public = None, ld_cat = None, ld_level = Some 50, ld_pid = None, ld_path = None,
     ld_linenr = None, ld_traceback = None, ld_data = None\<rparr>"

lemma demo_laws: "alert_laws demo_env"
  by (simp add: alert_laws_def demo_env_def hex_digest_def)

lemma demo_ident: "CHR ''x'' \<in> set m \<Longrightarrow> ld_ident demo_env (plain_error m) = replicate 32 (CHR ''a'')"
  "CHR ''x'' \<notin> set m \<Longrightarrow> ld_ident demo_env (plain_error m) = replicate 32 (CHR ''b'')"
  by (simp_all add: ld_ident_def plain_error_def get_identifier_def demo_env_def join_Cons)

theorem alerts_counted_witness:
  "\<exists>db a. handle_all demo_env [(5 :: int, plain_error ''x''), (6, plain_error ''y''), (9, plain_error ''x'')] = Inr db
     \<and> alert_at demo_env db (replicate 32 (CHR ''a'')) = Some a \<and> al_count a = 2 \<and> al_first a = 5 \<and> al_last a = 9"
proof -
  let ?i = "replicate 32 (CHR ''a'')" and ?r = "[(5 :: int, plain_error ''x''), (6, plain_error ''y''), (9, plain_error ''x'')]"
  have "\<forall>(t, ld)\<in>set ?r. 0 < t \<and> ld_complete ld" by (simp add: ld_complete_def plain_error_def)
  from alerts_counted [OF demo_laws this] obtain db where db: "handle_all demo_env ?r = Inr db" "counted (alert_at demo_env db ?i) (seen demo_env ?i ?r)"
    by blast
  have "seen demo_env ?i ?r = [(5 :: int, plain_error ''x''), (9, plain_error ''x'')]" by (simp add: seen_def demo_ident replicate_eq_replicate)
  with db(2) have "\<exists>a. alert_at demo_env db ?i = Some a \<and> al_count a = 2 \<and> al_first a = 5 \<and> al_last a = 9"
    by (cases "alert_at demo_env db ?i") (simp_all add: counted_def)
  with db(1) show ?thesis by blast
qed

section \<open>Alerts stay small\<close>

definition alert_small :: "alert \<Rightarrow> bool" where
  "alert_small a = (length (al_logs a) \<le> 11 \<and> length (al_tbs a) \<le> 6 \<and> length (al_events a) \<le> 21
     \<and> (\<forall>e\<in>set (al_events a). length (e_pids e) \<le> 21))"

lemma reread_small [simp]: "alert_small (reread a) = alert_small a"
  by (auto simp: alert_small_def reread_def reread_event_def)

lemma length_pop_front: "length l \<le> Suc n \<Longrightarrow> length (pop_front n l) \<le> n"
  by (auto simp: pop_front_def)

lemma set_pop_front: "set (pop_front n l) \<subseteq> set l"
  by (cases l) (auto simp: pop_front_def)

lemma length_event_update: "length (event_update f w es) \<le> Suc (length es)"
  by (induction es) auto

lemma set_event_update: "set (event_update f w es) \<subseteq> set es \<union> f ` set es \<union> {f new_event}"
  by (induction es) auto

lemma add_pid_small: "length l \<le> 21 \<Longrightarrow> length (add_pid p l) \<le> 21"
  using length_pop_front [of l 20] by (simp add: add_pid_def Let_def)

lemma add_event_small:
  assumes "alert_small a"
  shows "alert_small (add_event V now ld a)"
proof -
  have s: "alert_small (x\<lparr>al_events := event_update (event_fill V now ld p w) k (pop_front 20 (al_events x))\<rparr>)" if "alert_small x" for x p w k
  proof -
    have "length (event_update (event_fill V now ld p w) k (pop_front 20 (al_events x))) \<le> 21"
      using that length_pop_front [of "al_events x" 20] length_event_update [of "event_fill V now ld p w" k "pop_front 20 (al_events x)"]
      by (simp add: alert_small_def)
    moreover have "length (e_pids e) \<le> 21" if "e \<in> set (event_update (event_fill V now ld p w) k (pop_front 20 (al_events x)))" for e
    proof -
      have e: "length (e_pids e0) \<le> 21" if "e0 \<in> insert new_event (set (al_events x))" for e0
        using that \<open>alert_small x\<close> by (auto simp: alert_small_def new_event_def)
      from that set_event_update [of "event_fill V now ld p w" k "pop_front 20 (al_events x)"] set_pop_front [of 20 "al_events x"]
      consider "e \<in> set (al_events x)" | e0 where "e0 \<in> insert new_event (set (al_events x))" "e = event_fill V now ld p w e0" by blast
      then show ?thesis by cases (use e add_pid_small in \<open>auto simp: event_fill_def\<close>)
    qed
    ultimately show ?thesis using that by (simp add: alert_small_def)
  qed
  have t: "alert_small (trace_add x tb w p)" if "alert_small x" for x tb w p
    using that length_pop_front [of "al_tbs x" 5] by (simp add: alert_small_def trace_add_def)
  show ?thesis unfolding add_event_def Let_def by (auto simp: s t assms split: option.split list.split)
qed

lemma alert_fill_small:
  assumes "alert_small a"
  shows "alert_small (alert_fill V now ld i m p c l a)"
  unfolding alert_fill_def
  by (rule add_event_small) (use assms in \<open>auto simp: alert_small_def add_log_def\<close>)

text \<open>What happens to the alerts: processes with any name, log position and clock handle errors, one at a time, and alerts are
  deleted. All of them encode alerts in the same way.\<close>

definition same_store :: "'d alert_env \<Rightarrow> 'd alert_env \<Rightarrow> bool" where
  "same_store V W = (v_md5 W = v_md5 V \<and> v_enc W = v_enc V \<and> v_dec W = v_dec V)"

inductive alert_step :: "'d alert_env \<Rightarrow> 'd alert_db \<Rightarrow> 'd alert_db \<Rightarrow> bool" for V where
  raised: "same_store V W \<Longrightarrow> handle_error W now ld db = Inr db' \<Longrightarrow> alert_step V db db'"
| deleted: "alert_at V db i = Some a \<Longrightarrow> alert_step V db (alert_delete a db)"
| all_deleted: "alert_step V db (alert_delete_all db)"
| was_reset: "alert_step V db (alert_reset db)"

definition alerts_ok :: "'d alert_env \<Rightarrow> 'd alert_db \<Rightarrow> bool" where
  "alerts_ok V db = (db_filed V db \<and> (\<forall>i a. alert_at V db i = Some a \<longrightarrow> alert_small a))"

lemma same_store_facts:
  "same_store V W \<Longrightarrow> alert_at W = alert_at V" "same_store V W \<Longrightarrow> db_filed W = db_filed V" "same_store V W \<Longrightarrow> alert_laws W = alert_laws V"
  by (auto simp: same_store_def alert_at_def db_filed_def alert_laws_def intro!: ext split: option.split)

lemma small_with_id: "alert_small (with_id db a) = alert_small a"
  by (simp add: with_id_def alert_small_def)

lemma handle_error_ok:
  assumes "alert_laws V" "alerts_ok V db" "handle_error V now ld db = Inr db'"
  shows "alerts_ok V db'"
proof -
  have c: "ld_complete ld"
    using assms(3) by (auto simp: handle_error_def ld_complete_def Let_def rbind_def split: option.splits sum.splits)
  then obtain msg level where m: "ld_message ld = Some msg" "ld_level ld = Some level" by (auto simp: ld_complete_def)
  have f: "db_filed V db" "\<And>i a. alert_at V db i = Some a \<Longrightarrow> alert_small a" using assms(2) by (auto simp: alerts_ok_def)
  have f': "db_filed V db'" using handle_error_filed [OF assms(1) f(1) c, of now] assms(3) by auto
  define old where "old = (case alert_at V db (ld_ident V ld) of None \<Rightarrow> new_alert | Some b \<Rightarrow> b)"
  have o: "alert_small old" using f(2) by (auto simp: old_def alert_small_def new_alert_def split: option.split)
  define pub where "pub = (case ld_public ld of None \<Rightarrow> [] | Some p \<Rightarrow> p)"
  define cat where "cat = (case ld_cat ld of None \<Rightarrow> [] | Some c \<Rightarrow> c)"
  have i: "get_identifier V msg pub cat ''event_system'' = ld_ident V ld" by (simp add: ld_ident_def m(1) pub_def cat_def)
  have run: "handle_error V now ld db = rbind (alert_get V db (ld_ident V ld) 0 False True) (\<lambda>oa. case oa of
       None \<Rightarrow> Inl P_AttributeError | Some a \<Rightarrow> Inr (alert_set V (alert_fill V now ld (ld_ident V ld) msg pub cat level a) db))"
    unfolding handle_error_def m option.case Let_def pub_def [symmetric] cat_def [symmetric] i by (rule refl)
  have "alert_get V db (ld_ident V ld) 0 False True = Inr (Some old)"
    using f(1) by (fastforce simp: alert_get_def alert_at_def db_filed_def old_def split: option.split)
  with run assms(3) have db': "db' = alert_set V (alert_fill V now ld (ld_ident V ld) msg pub cat level old) db" by simp
  have "alert_small a" if "alert_at V db' j = Some a" for j a
    using that f(2) [of j a] alert_fill_small [OF o] unfolding db' alert_at_set [OF assms(1)]
    by (auto simp: small_with_id split: if_splits)
  with f' show ?thesis by (simp add: alerts_ok_def)
qed

lemma delete_ok:
  assumes "alerts_ok V db" "alert_at V db i = Some a"
  shows "alerts_ok V (alert_delete a db)"
proof -
  have f: "db_filed V db" using assms(1) by (simp add: alerts_ok_def)
  note a = filed_at [OF f assms(2)]
  have at: "alert_at V (alert_delete a db) j = (if j = i then None else alert_at V db j)" for j
    by (simp add: alert_at_def alert_delete_def a(1))
  have "db_filed V (alert_delete a db)"
    unfolding db_filed_def
  proof (intro conjI allI impI)
    show "distinct (d_keys (db_alerts (alert_delete a db)))" using f by (simp add: db_filed_def alert_delete_def distinct_d_pop)
    show "0 \<le> db_next (alert_delete a db)" using f by (simp add: db_filed_def alert_delete_def)
    fix j d
    assume d: "d_get (db_alerts (alert_delete a db)) j = Some d"
    then have j: "j \<noteq> i" "d_get (db_alerts db) j = Some d" by (auto simp: alert_delete_def a(1) split: if_splits)
    then obtain b where b: "v_dec V d = Inr b" "al_ident b = j" "0 < al_id b" "al_id b \<le> db_next db" "d_get (db_ids db) (al_id b) = Some j"
      using f unfolding db_filed_def by blast
    with a(4) j(1) have "al_id b \<noteq> al_id a" by auto
    with b show "\<exists>b. v_dec V d = Inr b \<and> al_ident b = j \<and> 0 < al_id b \<and> al_id b \<le> db_next (alert_delete a db)
      \<and> d_get (db_ids (alert_delete a db)) (al_id b) = Some j" by (auto simp: alert_delete_def)
  qed
  with at assms(1) show ?thesis by (auto simp: alerts_ok_def split: if_splits)
qed

lemma alert_step_ok:
  assumes "alert_step V db db'" "alert_laws V" "alerts_ok V db"
  shows "alerts_ok V db'"
  using assms
proof cases
  case (raised W now ld)
  note w = same_store_facts [OF raised(1)]
  have "alerts_ok W db'" by (rule handle_error_ok [OF _ _ raised(2)]) (use assms w in \<open>auto simp: alerts_ok_def\<close>)
  with w show ?thesis by (simp add: alerts_ok_def)
next
  case (deleted i a)
  with assms(3) delete_ok show ?thesis by blast
qed (use assms(3) in \<open>simp_all add: alerts_ok_def db_filed_def alert_at_def alert_delete_all_def alert_reset_def d_keys_def\<close>)

lemma alerts_ok_reach: "(alert_step V)\<^sup>*\<^sup>* db db' \<Longrightarrow> alert_laws V \<Longrightarrow> alerts_ok V db \<Longrightarrow> alerts_ok V db'"
  by (induction rule: rtranclp_induct) (auto intro: alert_step_ok)

text \<open>C14: Whatever happens, an alert is stored under its own identifier and has an id of its own, under which getting it by id finds it,
  and it keeps at most eleven log positions, six tracebacks, and twenty-one events with twenty-one processes each.\<close>

theorem alerts_stay_small:
  assumes "(alert_step V)\<^sup>*\<^sup>* empty_db db" "alert_laws V" "alert_at V db i = Some a"
  shows "alert_small a \<and> al_ident a = i \<and> d_get (db_ids db) (al_id a) = Some i \<and> alert_get V db ident (al_id a) die new = Inr (Some a)
    \<and> (\<forall>j b. alert_at V db j = Some b \<and> al_id b = al_id a \<longrightarrow> j = i)"
proof -
  have "alerts_ok V empty_db" by (simp add: alerts_ok_def db_filed_def alert_at_def empty_db_def d_keys_def)
  from alerts_ok_reach [OF assms(1,2) this] have ok: "db_filed V db" "alert_small a" using assms(3) by (auto simp: alerts_ok_def)
  note a = filed_at [OF ok(1) assms(3)]
  have "alert_get V db ident (al_id a) die new = Inr (Some a)"
    using a(2,4) assms(3) by (auto simp: alert_get_def alert_at_def split: option.splits sum.splits)
  moreover have "j = i" if "alert_at V db j = Some b" "al_id b = al_id a" for j b
    using filed_at(4) [OF ok(1) that(1)] a(4) that(2) by simp
  ultimately show ?thesis using ok(2) a(1,4) by blast
qed

theorem alerts_stay_small_witness:
  "\<exists>db a. (alert_step demo_env)\<^sup>*\<^sup>* empty_db db \<and> alert_at demo_env db (replicate 32 (CHR ''a'')) = Some a \<and> alert_small a"
proof -
  have "db_filed demo_env empty_db" by (simp add: db_filed_def empty_db_def d_keys_def)
  moreover have "ld_complete (plain_error ''x'')" by (simp add: ld_complete_def plain_error_def)
  ultimately obtain a where a: "handle_error demo_env 5 (plain_error ''x'') empty_db = Inr (alert_set demo_env a empty_db)"
      "al_ident a = ld_ident demo_env (plain_error ''x'')"
    using handle_error_run [OF demo_laws, of empty_db "plain_error ''x''" 5] by blast
  then have s: "(alert_step demo_env)\<^sup>*\<^sup>* empty_db (alert_set demo_env a empty_db)"
    by (blast intro: alert_step.raised [of demo_env demo_env] same_store_def [THEN iffD2])
  have "alert_at demo_env (alert_set demo_env a empty_db) (replicate 32 (CHR ''a'')) = Some (reread (with_id (empty_db :: alert alert_db) a))"
    by (simp add: alert_at_set [OF demo_laws] a(2) demo_ident)
  with alerts_stay_small [OF s demo_laws this] s show ?thesis by blast
qed

section \<open>Where the code does something else\<close>

text \<open>The first error of a kind is a reopened alert at once: a new alert is closed.\<close>

lemma first_alert_reopened: "next_status (al_status new_alert) = ''reopen''"
  by (simp add: next_status_def new_alert_def)

text \<open>Of the log positions, the first ten are kept for ever: the newest one makes place for the next.\<close>

lemma logs_keep_oldest: "length logs = 11 \<Longrightarrow> take 10 (add_log V logs) = take 10 logs \<and> length (add_log V logs) = 11"
  by (simp add: add_log_def butlast_conv_take)

text \<open>The kind of an alert that is raised by hand is ignored, and the parts of the identifier run into each other.\<close>

lemma alert_type_ignored: "alert_raise V now msg pub cat level ty db = alert_raise V now msg pub cat level ty' db"
  by (simp add: alert_raise_def)

lemma identifiers_collide: "get_identifier V ''a_b'' ''c'' cat ty = get_identifier V ''a'' ''b_c'' cat ty"
  by (simp add: get_identifier_def join_Cons)

text \<open>After a reset the ids still lead to identifiers: asking for one of them gives an empty alert, which is nowhere stored.\<close>

lemma reset_leaves_ids:
  "k \<noteq> 0 \<Longrightarrow> d_get (db_ids db) k = Some i \<Longrightarrow> alert_get V (alert_reset db) [] k False True = Inr (Some new_alert)"
  by (simp add: alert_get_def alert_reset_def)

end
