(* ===== verification/CacheData.thy ===== *)
theory CacheData
  imports PyVal PyStr
begin

text \<open>
  The cache (\<^verbatim>\<open>core/cache/Cache.py\<close>): categories of values in redis, each with an end of its own. Redis keeps a value until its
  time is over and then has it no more; the clock counts seconds. Identifiers of categories have no signs that redis takes for a
  pattern. A method that is cached gives a value or raises, each time it is called.
\<close>

section \<open>Redis with times\<close>

type_synonym cache_db = "(string \<times> int \<times> int \<times> pyval) list"
  \<comment> \<open>key, end in redis, end that is stored with the value, value\<close>

definition db_get :: "int \<Rightarrow> cache_db \<Rightarrow> string \<Rightarrow> (int \<times> pyval) option" where
  "db_get now db k = (case d_get db k of None \<Rightarrow> None | Some (till, x) \<Rightarrow> if now < till then Some x else None)"

definition db_put :: "int \<Rightarrow> cache_db \<Rightarrow> string \<Rightarrow> int \<times> pyval \<Rightarrow> int \<Rightarrow> cache_db res" where
  \<comment> \<open>redis refuses times that are not positive\<close>
  "db_put now db k x ex = (if ex \<le> 0 then Inl P_Exception else Inr (d_set db k (now + ex, x)))"

section \<open>Categories\<close>

record category =
  cc_id :: string
  cc_expiration :: int

definition cache_prefix :: "string \<Rightarrow> string" where
  "cache_prefix i = ''cache:'' @ i @ '':''"

definition cache_key :: "string \<Rightarrow> string \<Rightarrow> string" where
  "cache_key i k = cache_prefix i @ k"

definition cache_delete :: "category \<Rightarrow> string \<Rightarrow> cache_db \<Rightarrow> cache_db" where
  "cache_delete c k db = d_pop db (cache_key (cc_id c) k)"

definition cache_set :: "category \<Rightarrow> string \<Rightarrow> pyval \<Rightarrow> int option \<Rightarrow> int \<Rightarrow> cache_db \<Rightarrow> cache_db res" where
  "cache_set c k v expire now db =
     (let ex = (case expire of None \<Rightarrow> cc_expiration c | Some e \<Rightarrow> e) in db_put now db (cache_key (cc_id c) k) (now + ex, v) ex)"

definition cache_exists :: "category \<Rightarrow> string \<Rightarrow> int \<Rightarrow> cache_db \<Rightarrow> bool" where
  "cache_exists c k now db = (db_get now db (cache_key (cc_id c) k) \<noteq> None)"

datatype outcome = Value pyval | Failed exn
  \<comment> \<open>what \<^verbatim>\<open>get\<close> returns: without \<^verbatim>\<open>die\<close> it hands out the exception\<close>

definition look_up :: "category \<Rightarrow> string \<Rightarrow> int \<Rightarrow> cache_db \<Rightarrow> cache_db \<times> pyval option" where
  "look_up c k now db = (case db_get now db (cache_key (cc_id c) k) of
     None \<Rightarrow> (db, None)
   | Some (till, v) \<Rightarrow> if till < now then (cache_delete c k db, None) else (db, Some v))"

fun attempts :: "(nat \<Rightarrow> pyval res) \<Rightarrow> nat \<Rightarrow> nat \<Rightarrow> pyval res" where
  \<comment> \<open>the calls after the first ones, at most as many as are left; with none at all the result is not bound\<close>
  "attempts m i 0 = Inl P_NameError"
| "attempts m i (Suc n) = (case m i of Inr v \<Rightarrow> Inr v | Inl e \<Rightarrow> if n = 0 then Inl e else attempts m (Suc i) n)"

definition cache_get :: "category \<Rightarrow> string \<Rightarrow> (nat \<Rightarrow> pyval res) option \<Rightarrow> int option \<Rightarrow> bool \<Rightarrow> nat \<Rightarrow> bool \<Rightarrow> int \<Rightarrow> cache_db
    \<Rightarrow> cache_db \<times> outcome res" where
  "cache_get c k meth expire refresh retry die now db =
     (case (if refresh then (cache_delete c k db, None) else look_up c k now db) of
        (db1, Some v) \<Rightarrow> (db1, Inr (Value v))
      | (db1, None) \<Rightarrow> (let ex = (case expire of None \<Rightarrow> cc_expiration c | Some e \<Rightarrow> e) in
          case meth of
            None \<Rightarrow> (db1, Inl E_Runtime)
          | Some m \<Rightarrow> (case attempts m 0 retry of
              Inl e \<Rightarrow> if die \<or> retry = 0 then (db1, Inl e) else (db1, Inr (Failed e))
            | Inr v \<Rightarrow> if v = PNone \<or> v = PStr [] then (db1, Inl E_Runtime)
                else (case cache_set c k v (Some ex) now db1 of
                  Inl e \<Rightarrow> (db1, Inl e)
                | Inr db2 \<Rightarrow> (db2, Inr (Value v))))))"

definition last_part :: "string \<Rightarrow> string" where
  "last_part s = last (split_char (CHR '':'') s)"

definition cache_list :: "category \<Rightarrow> int \<Rightarrow> cache_db \<Rightarrow> string list" where
  "cache_list c now db = map last_part (filter (\<lambda>k. starts_with (cache_prefix (cc_id c)) k \<and> db_get now db k \<noteq> None) (d_keys db))"

definition cache_reset :: "category \<Rightarrow> int \<Rightarrow> cache_db \<Rightarrow> cache_db" where
  "cache_reset c now db = foldl (\<lambda>d k. cache_delete c k d) db (cache_list c now db)"

section \<open>The cache\<close>

type_synonym cache = "(string \<times> category) list"

definition cache_category :: "string \<Rightarrow> bool \<Rightarrow> int \<Rightarrow> int \<Rightarrow> cache \<Rightarrow> cache_db \<Rightarrow> cache \<times> cache_db \<times> category" where
  "cache_category i reset expiration now cs db =
     (case d_get cs i of
        Some c \<Rightarrow> (cs, db, c)
      | None \<Rightarrow> (let c = \<lparr>cc_id = i, cc_expiration = expiration\<rparr> in (d_set cs i c, if reset then cache_reset c now db else db, c)))"

definition reset_all :: "int \<Rightarrow> cache \<Rightarrow> cache_db \<Rightarrow> cache_db" where
  "reset_all now cs db = foldl (\<lambda>d (i, c). cache_reset c now d) db cs"

definition reset_one :: "string option \<Rightarrow> int \<Rightarrow> cache \<Rightarrow> cache_db \<Rightarrow> cache_db" where
  "reset_one i now cs db = (case i of None \<Rightarrow> reset_all now cs db
     | Some k \<Rightarrow> (case d_get cs k of None \<Rightarrow> db | Some c \<Rightarrow> cache_reset c now db))"

section \<open>A value is kept until its end\<close>

definition plain_id :: "string \<Rightarrow> bool" where
  "plain_id i = (CHR '':'' \<notin> set i)"

lemma prefix_split: "plain_id i \<Longrightarrow> plain_id i' \<Longrightarrow> i @ CHR '':'' # s = i' @ CHR '':'' # s' \<Longrightarrow> i = i' \<and> s = s'"
  unfolding plain_id_def
proof (induction i arbitrary: i')
  case Nil
  then show ?case by (cases i') auto
next
  case (Cons a i)
  then show ?case by (cases i') auto
qed

lemma cache_key_inj: "plain_id i \<Longrightarrow> plain_id i' \<Longrightarrow> cache_key i k = cache_key i' k' \<longleftrightarrow> i = i' \<and> k = k'"
  using prefix_split [of i i' k k'] by (auto simp: cache_key_def cache_prefix_def)

text \<open>The operations of other programs on the same redis.\<close>

datatype cache_op =
    OpSet category string pyval "int option"
  | OpDelete category string
  | OpGet category string "(nat \<Rightarrow> pyval res) option" "int option" bool nat bool
  | OpReset category

definition op_run :: "int \<Rightarrow> cache_op \<Rightarrow> cache_db \<Rightarrow> cache_db" where
  \<comment> \<open>the database after it, whether it raises or not\<close>
  "op_run now x db = (case x of
     OpSet c k v e \<Rightarrow> (case cache_set c k v e now db of Inl _ \<Rightarrow> db | Inr db' \<Rightarrow> db')
   | OpDelete c k \<Rightarrow> cache_delete c k db
   | OpGet c k m e refresh retry die \<Rightarrow> fst (cache_get c k m e refresh retry die now db)
   | OpReset c \<Rightarrow> cache_reset c now db)"

definition op_apart :: "string \<Rightarrow> string \<Rightarrow> cache_op \<Rightarrow> bool" where
  \<comment> \<open>an operation on another key, or on another category\<close>
  "op_apart i k x = (case x of
     OpSet c k' v e \<Rightarrow> plain_id (cc_id c) \<and> (cc_id c, k') \<noteq> (i, k)
   | OpDelete c k' \<Rightarrow> plain_id (cc_id c) \<and> (cc_id c, k') \<noteq> (i, k)
   | OpGet c k' m e refresh retry die \<Rightarrow> plain_id (cc_id c) \<and> (cc_id c, k') \<noteq> (i, k)
   | OpReset c \<Rightarrow> plain_id (cc_id c) \<and> cc_id c \<noteq> i)"

lemma get_delete [simp]: "d_get (cache_delete c k db) j = (if j = cache_key (cc_id c) k then None else d_get db j)"
  by (simp add: cache_delete_def)

lemma get_set: "cache_set c k v e now db = Inr db' \<Longrightarrow> j \<noteq> cache_key (cc_id c) k \<Longrightarrow> d_get db' j = d_get db j"
  by (auto simp: cache_set_def db_put_def Let_def split: if_splits)

lemma get_look_up: "j \<noteq> cache_key (cc_id c) k \<Longrightarrow> d_get (fst (look_up c k now db)) j = d_get db j"
  by (auto simp: look_up_def split: option.split prod.split)

lemma get_cache_get:
  assumes "j \<noteq> cache_key (cc_id c) k"
  shows "d_get (fst (cache_get c k m e refresh retry die now db)) j = d_get db j"
proof -
  obtain db1 r where 1: "(if refresh then (cache_delete c k db, None) else look_up c k now db) = (db1, r)" by fastforce
  have g: "d_get db1 j = d_get db j" using 1 get_look_up [OF assms, of now db] assms by (auto split: if_splits)
  show ?thesis
    unfolding cache_get_def 1
    using g get_set [OF _ assms] by (auto simp: Let_def split: option.split sum.split)
qed

lemma get_reset:
  assumes "\<And>k. j \<noteq> cache_key (cc_id c) k"
  shows "d_get (cache_reset c now db) j = d_get db j"
proof -
  have "d_get (foldl (\<lambda>d k. cache_delete c k d) d ks) j = d_get d j" for d ks
    using assms by (induction ks arbitrary: d) auto
  then show ?thesis by (simp add: cache_reset_def)
qed

lemma op_apart_keeps:
  assumes "plain_id i" "op_apart i k x"
  shows "d_get (op_run now x db) (cache_key i k) = d_get db (cache_key i k)"
proof (cases x)
  case (OpSet c k' v e)
  with assms have "cache_key i k \<noteq> cache_key (cc_id c) k'" by (auto simp: op_apart_def cache_key_inj)
  with OpSet show ?thesis using get_set [of c k' v e now db] by (auto simp: op_run_def split: sum.split)
next
  case (OpDelete c k')
  with assms show ?thesis by (auto simp: op_apart_def op_run_def cache_key_inj)
next
  case (OpGet c k' m e refresh retry die)
  with assms have "cache_key i k \<noteq> cache_key (cc_id c) k'" by (auto simp: op_apart_def cache_key_inj)
  with OpGet show ?thesis by (simp add: op_run_def get_cache_get)
next
  case (OpReset c)
  with assms have "\<And>k'. cache_key i k \<noteq> cache_key (cc_id c) k'" by (auto simp: op_apart_def cache_key_inj)
  with OpReset show ?thesis by (simp add: op_run_def get_reset)
qed

lemma ops_apart_keep:
  "plain_id i \<Longrightarrow> list_all (\<lambda>(t, x). op_apart i k x) ops
   \<Longrightarrow> d_get (foldl (\<lambda>db (t, x). op_run t x db) db ops) (cache_key i k) = d_get db (cache_key i k)"
  by (induction ops arbitrary: db) (auto simp: op_apart_keeps)

text \<open>C22: A value that is put into the cache is what every later reading gives, without a call of the method and whatever is done to
  other keys and categories in between, until its time is over; from then on the method is called again.\<close>

theorem cache_kept_until_end:
  assumes "plain_id (cc_id c)" "cache_set c k v (Some ex) t db = Inr db1"
    and "list_all (\<lambda>(t, x). op_apart (cc_id c) k x) ops" "db2 = foldl (\<lambda>db (t, x). op_run t x db) db1 ops"
  shows "0 < ex \<and> (now < t + ex \<longrightarrow> cache_get c k meth e False retry die now db2 = (db2, Inr (Value v)))
    \<and> (t + ex \<le> now \<longrightarrow> cache_get c k None e False retry die now db2 = (db2, Inl E_Runtime)
        \<and> (w \<noteq> PNone \<and> w \<noteq> PStr [] \<and> 0 < e' \<and> m 0 = Inr w
           \<longrightarrow> snd (cache_get c k (Some m) (Some e') False (Suc n) die now db2) = Inr (Value w)))"
proof -
  have ex: "0 < ex" and db1: "db1 = d_set db (cache_key (cc_id c) k) (t + ex, t + ex, v)"
    using assms(2) by (auto simp: cache_set_def db_put_def Let_def split: if_splits)
  have "d_get db2 (cache_key (cc_id c) k) = Some (t + ex, t + ex, v)"
    unfolding assms(4) ops_apart_keep [OF assms(1,3)] by (simp add: db1)
  then have g: "db_get now db2 (cache_key (cc_id c) k) = (if now < t + ex then Some (t + ex, v) else None)" by (simp add: db_get_def)
  show ?thesis using ex by (auto simp: cache_get_def look_up_def g Let_def cache_set_def db_put_def)
qed

section \<open>Resetting\<close>

lemma split_char_last_append: "\<exists>ws. ws \<noteq> [] \<and> split_char d (p @ d # k) = ws @ split_char d k"
proof (induction p)
  case Nil
  then show ?case by auto
next
  case (Cons c p)
  then obtain w ws where "split_char d (p @ d # k) = (w # ws) @ split_char d k" by (metis neq_Nil_conv)
  then show ?case by (cases "c = d") (auto intro: exI [of _ "[] # w # ws"] exI [of _ "(c # w) # ws"])
qed

lemma last_part_plain: "plain_id k \<Longrightarrow> last_part (cache_key i k) = k"
proof -
  assume "plain_id k"
  then have "split_char (CHR '':'') k = [k]" by (simp add: plain_id_def split_char_notin)
  moreover obtain q where "cache_key i k = q @ CHR '':'' # k" by (simp add: cache_key_def cache_prefix_def)
  ultimately show ?thesis using split_char_last_append [of "CHR '':''" q k] by (auto simp: last_part_def)
qed

lemma foldl_delete: "d_get (foldl (\<lambda>d k. cache_delete c k d) db ks) j = (if \<exists>k\<in>set ks. j = cache_key (cc_id c) k then None else d_get db j)"
  by (induction ks arbitrary: db) auto

text \<open>Resetting a category removes all its values, as long as their keys have no colon, and leaves every other category alone.\<close>

theorem cache_reset_clears:
  assumes "plain_id (cc_id c)" "\<forall>k. cache_key (cc_id c) k \<in> set (d_keys db) \<longrightarrow> plain_id k"
  shows "\<not> cache_exists c k now (cache_reset c now db)
    \<and> (plain_id (cc_id c') \<and> cc_id c' \<noteq> cc_id c \<longrightarrow> db_get t (cache_reset c now db) (cache_key (cc_id c') k) = db_get t db (cache_key (cc_id c') k))"
proof (intro conjI impI)
  show "\<not> cache_exists c k now (cache_reset c now db)"
  proof (cases "db_get now db (cache_key (cc_id c) k) = None")
    case True
    then show ?thesis by (auto simp: cache_exists_def cache_reset_def db_get_def foldl_delete split: if_splits)
  next
    case False
    then have m: "cache_key (cc_id c) k \<in> set (d_keys db)"
      using d_get_None_iff [of db "cache_key (cc_id c) k"] by (auto simp: db_get_def)
    have "starts_with (cache_prefix (cc_id c)) (cache_key (cc_id c) k)" by (auto simp: starts_with_iff cache_key_def)
    with m False have "last_part (cache_key (cc_id c) k) \<in> set (cache_list c now db)" by (auto simp: cache_list_def)
    moreover have "last_part (cache_key (cc_id c) k) = k" using assms(2) m last_part_plain by blast
    ultimately show ?thesis by (auto simp: cache_exists_def cache_reset_def db_get_def foldl_delete)
  qed
next
  assume "plain_id (cc_id c') \<and> cc_id c' \<noteq> cc_id c"
  then show "db_get t (cache_reset c now db) (cache_key (cc_id c') k) = db_get t db (cache_key (cc_id c') k)"
    using get_reset [of "cache_key (cc_id c') k" c now db] assms(1) by (auto simp: db_get_def cache_key_inj)
qed

definition demo_category :: category where
  "demo_category = \<lparr>cc_id = ''main'', cc_expiration = 60\<rparr>"

theorem cache_reset_clears_witness:
  "\<exists>db. cache_set demo_category ''a'' (PInt 1) None 100 [] = Inr db \<and> cache_exists demo_category ''a'' 110 db
     \<and> \<not> cache_exists demo_category ''a'' 110 (cache_reset demo_category 110 db)"
proof -
  define db where "db = [(cache_key ''main'' ''a'', 160 :: int, 160 :: int, PInt 1)]"
  have s: "cache_set demo_category ''a'' (PInt 1) None 100 [] = Inr db" "cache_exists demo_category ''a'' 110 db"
    by (simp_all add: db_def demo_category_def cache_set_def db_put_def cache_exists_def db_get_def)
  have "\<forall>k. cache_key (cc_id demo_category) k \<in> set (d_keys db) \<longrightarrow> plain_id k"
    by (simp add: db_def demo_category_def d_keys_def cache_key_def plain_id_def)
  with s cache_reset_clears [of demo_category db "''a''" 110] show ?thesis by (auto simp: demo_category_def plain_id_def)
qed

theorem cache_kept_until_end_witness:
  "\<exists>db1. cache_set demo_category ''a'' (PInt 1) (Some 10) 100 [] = Inr db1
     \<and> cache_get demo_category ''a'' None None False 1 True 109 (op_run 105 (OpDelete demo_category ''b'') db1)
       = (op_run 105 (OpDelete demo_category ''b'') db1, Inr (Value (PInt 1)))"
proof -
  define db where "db = [(cache_key ''main'' ''a'', 110 :: int, 110 :: int, PInt 1)]"
  have s: "cache_set demo_category ''a'' (PInt 1) (Some 10) 100 [] = Inr db"
    by (simp add: db_def demo_category_def cache_set_def db_put_def)
  have "plain_id (cc_id demo_category)" "list_all (\<lambda>(t, x). op_apart (cc_id demo_category) ''a'' x) [(105 :: int, OpDelete demo_category ''b'')]"
    by (simp_all add: demo_category_def plain_id_def op_apart_def)
  from cache_kept_until_end [OF this(1) s this(2) refl, of 109] s show ?thesis by auto
qed

section \<open>Where the code does something else\<close>

text \<open>A key with a colon survives the reset of its category, asking for a category that is there with \<^verbatim>\<open>reset\<close> resets nothing, and
  an expiration of 0 neither renews a value nor lets a new one be stored.\<close>

lemma colon_key_survives:
  "cache_reset demo_category 0 [(cache_key ''main'' ''a:b'', 9, 9, PInt 1)] = [(cache_key ''main'' ''a:b'', 9, 9, PInt 1)]"
  by code_simp

lemma category_reset_ignored: "d_get cs i = Some c \<Longrightarrow> cache_category i True expiration now cs db = (cs, db, c)"
  by (simp add: cache_category_def)

lemma expire_zero:
  "db_get now db (cache_key (cc_id c) k) = Some (till, v) \<Longrightarrow> now \<le> till
     \<Longrightarrow> cache_get c k (Some m) (Some 0) False retry die now db = (db, Inr (Value v))"
  "db_get now db (cache_key (cc_id c) k) = None \<Longrightarrow> m 0 = Inr (PInt 1)
     \<Longrightarrow> cache_get c k (Some m) (Some 0) False 1 die now db = (db, Inl P_Exception)"
  by (simp_all add: cache_get_def look_up_def cache_set_def db_put_def)

end
