(* ===== verification/Resp.thy ===== *)
theory Resp
  imports Config
begin

text \<open>
  The replies of the servers that speak the redis protocol (\<^verbatim>\<open>servers/gedis/protocol.py\<close>): how values are written, and a reader of the
  protocol to compare with. Texts are their UTF-8 bytes. The parser of requests is that of the redis library.
\<close>

section \<open>Writing\<close>

definition crlf :: string where
  "crlf = [CHR 0x0D, nl]"

definition char_len :: "string \<Rightarrow> nat" where
  \<comment> \<open>\<^verbatim>\<open>len\<close> of a text counts characters and not the bytes that continue one\<close>
  "char_len s = length (filter (\<lambda>c. \<not> (128 \<le> ccode c \<and> ccode c < 192)) s)"

definition resp_bulk :: "string \<Rightarrow> string" where
  "resp_bulk s = ''$'' @ nat_str (int (char_len s)) @ crlf @ s @ crlf"

definition resp_bulkbytes :: "bytes \<Rightarrow> string" where
  "resp_bulkbytes b = ''$'' @ nat_str (int (length b)) @ crlf @ map char_of_byte b @ crlf"

definition resp_header :: "pyval list \<Rightarrow> string" where
  "resp_header l = ''*'' @ nat_str (int (length l)) @ crlf"

definition redis_mark :: string where
  "redis_mark = ''*REDIS*''"

fun resp_encode :: "pyval \<Rightarrow> string" and resp_items :: "pyval list \<Rightarrow> string" where
  "resp_encode PNone = ''$-1'' @ crlf"
| "resp_encode (PInt i) = '':'' @ int_str i @ crlf"
| "resp_encode (PBool b) = '':'' @ (if b then ''1'' else ''0'') @ crlf"
| "resp_encode (PStr s) = (if nl \<in> set s then resp_bulk s else ''+'' @ s @ crlf)"
| "resp_encode (PBytes b) = resp_bulkbytes b"
| "resp_encode (PList []) = resp_header ([] :: pyval list)"
| "resp_encode (PList (v # l)) = (if v = PStr redis_mark then resp_header l @ resp_items l else resp_header (v # l) @ resp_encode v @ resp_items l)"
| "resp_encode v = resp_bulk (py_repr v)"
| "resp_items [] = []"
| "resp_items (v # l) = resp_encode v @ resp_items l"

definition resp_status :: "string \<Rightarrow> string" where
  "resp_status msg = ''+'' @ msg @ crlf"

definition resp_error :: "string \<Rightarrow> string" where
  "resp_error msg = ''-ERR '' @ msg @ crlf"

fun request_to_dict :: "string list \<Rightarrow> (string \<times> string) list \<Rightarrow> (string \<times> string) list" where
  \<comment> \<open>names and values in turn; a name without a value is dropped\<close>
  "request_to_dict (k # v # r) res = request_to_dict r (d_set res (lower k) v)"
| "request_to_dict r res = res"

section \<open>Reading\<close>

text \<open>The protocol: what a client reads from a stream, with the rest of it.\<close>

datatype reply = RStatus string | RError string | RInt int | RBulk string | RNull | RArray "reply list"

fun read_line :: "string \<Rightarrow> (string \<times> string) option" where
  "read_line (c # d # cs) = (if c = CHR 0x0D \<and> d = nl then Some ([], cs)
     else (case read_line (d # cs) of None \<Rightarrow> None | Some (l, r) \<Rightarrow> Some (c # l, r)))"
| "read_line s = None"

definition read_bulk :: "int \<Rightarrow> string \<Rightarrow> (reply \<times> string) option" where
  "read_bulk n r = (if n < 0 then Some (RNull, r)
     else if take 2 (drop (nat n) r) = crlf then Some (RBulk (take (nat n) r), drop (nat n + 2) r) else None)"

function (sequential) read_reply :: "nat \<Rightarrow> string \<Rightarrow> (reply \<times> string) option"
  and read_many :: "nat \<Rightarrow> nat \<Rightarrow> string \<Rightarrow> (reply list \<times> string) option" where
  "read_reply (Suc f) (t # s) = (case read_line s of
     None \<Rightarrow> None
   | Some (l, r) \<Rightarrow>
       if t = CHR ''+'' then Some (RStatus l, r)
       else if t = CHR ''-'' then Some (RError l, r)
       else (case py_int l of None \<Rightarrow> None | Some n \<Rightarrow>
         if t = CHR '':'' then Some (RInt n, r)
         else if t = CHR ''$'' then read_bulk n r
         else if t = CHR ''*'' then (case read_many f (nat n) r of None \<Rightarrow> None | Some (rs, r') \<Rightarrow> Some (RArray rs, r'))
         else None))"
| "read_reply f s = None"
| "read_many f 0 s = Some ([], s)"
| "read_many f (Suc n) s = (case read_reply f s of None \<Rightarrow> None
     | Some (x, r) \<Rightarrow> (case read_many f n r of None \<Rightarrow> None | Some (xs, r') \<Rightarrow> Some (x # xs, r')))"
  by pat_completeness auto
termination
  by (relation "inv_image (less_than <*lex*> less_than) (\<lambda>x. case x of Inl (f, s) \<Rightarrow> (f, 0) | Inr (f, n, s) \<Rightarrow> (f, Suc n))") auto

section \<open>What is written is read\<close>

fun reply_of :: "pyval \<Rightarrow> reply" and replies_of :: "pyval list \<Rightarrow> reply list" where
  "reply_of PNone = RNull"
| "reply_of (PInt i) = RInt i"
| "reply_of (PBool b) = RInt (if b then 1 else 0)"
| "reply_of (PStr s) = (if nl \<in> set s then RBulk s else RStatus s)"
| "reply_of (PBytes b) = RBulk (map char_of_byte b)"
| "reply_of (PList []) = RArray []"
| "reply_of (PList (v # l)) = RArray (if v = PStr redis_mark then replies_of l else reply_of v # replies_of l)"
| "reply_of v = RBulk (py_repr v)"
| "replies_of [] = []"
| "replies_of (v # l) = reply_of v # replies_of l"

definition ascii :: "string \<Rightarrow> bool" where
  "ascii s = list_all (\<lambda>c. ccode c < 128) s"

fun resp_ok :: "pyval \<Rightarrow> bool" where
  \<comment> \<open>texts that are written with their length are ASCII\<close>
  "resp_ok (PStr s) = (nl \<in> set s \<longrightarrow> ascii s)"
| "resp_ok (PList l) = list_all resp_ok l"
| "resp_ok (PFloat x) = ascii (py_repr (PFloat x))"
| "resp_ok (PTuple l) = ascii (py_repr (PTuple l))"
| "resp_ok (PDict d) = ascii (py_repr (PDict d))"
| "resp_ok v = True"

lemma char_len_ascii: "ascii s \<Longrightarrow> char_len s = length s"
  by (induction s) (auto simp: ascii_def char_len_def)

lemma read_line_crlf: "nl \<notin> set l \<Longrightarrow> read_line (l @ crlf @ r) = Some (l, r)"
proof (induction l)
  case Nil
  then show ?case by (simp add: crlf_def)
next
  case (Cons c l)
  then show ?case by (cases l) (auto simp: crlf_def)
qed

lemma nat_str_no_nl: "nl \<notin> set (nat_str (int n))"
  using int_str_chars [of nl "int n"] by (auto simp: int_str_def is_digit_def ccode_def)

lemma int_str_no_nl: "nl \<notin> set (int_str i)"
  using int_str_chars [of nl i] by (auto simp: is_digit_def ccode_def)

lemma py_int_nat_str: "py_int (nat_str (int n)) = Some (int n)"
  using py_int_int_str [of "int n"] by (simp add: int_str_def)

lemma read_bulk_exact: "read_bulk (int (length s)) (s @ crlf @ r) = Some (RBulk s, r)"
  by (simp add: read_bulk_def crlf_def)

lemma read_head:
  "nl \<notin> set l \<Longrightarrow> read_reply (Suc f) (t # l @ crlf @ r) = (
     if t = CHR ''+'' then Some (RStatus l, r) else if t = CHR ''-'' then Some (RError l, r)
     else (case py_int l of None \<Rightarrow> None | Some n \<Rightarrow>
       if t = CHR '':'' then Some (RInt n, r) else if t = CHR ''$'' then read_bulk n r
       else if t = CHR ''*'' then (case read_many f (nat n) r of None \<Rightarrow> None | Some (rs, r') \<Rightarrow> Some (RArray rs, r')) else None))"
  by (simp add: read_line_crlf)

lemma read_bulk_text: "ascii s \<Longrightarrow> 0 < f \<Longrightarrow> read_reply f (resp_bulk s @ r) = Some (RBulk s, r)"
  by (cases f) (simp_all del: read_reply.simps add: resp_bulk_def read_head nat_str_no_nl py_int_nat_str char_len_ascii read_bulk_exact)

lemma read_bulk_fit: "ascii s \<Longrightarrow> length (resp_bulk s) \<le> f \<Longrightarrow> read_reply f (resp_bulk s @ r) = Some (RBulk s, r)"
  by (rule read_bulk_text) (auto simp: resp_bulk_def)

lemma read_bulk_bytes: "0 < f \<Longrightarrow> read_reply f (resp_bulkbytes b @ r) = Some (RBulk (map char_of_byte b), r)"
  using read_bulk_exact [of "map char_of_byte b" r]
  by (cases f) (simp_all del: read_reply.simps add: resp_bulkbytes_def read_head nat_str_no_nl py_int_nat_str)

lemma read_array:
  "0 < f \<Longrightarrow> read_many (f - 1) (length l) (s @ r) = Some (rs, r) \<Longrightarrow> read_reply f (resp_header l @ s @ r) = Some (RArray rs, r)"
  by (cases f) (simp_all del: read_reply.simps add: resp_header_def read_head nat_str_no_nl py_int_nat_str)

lemma length_resp_header: "3 \<le> length (resp_header l)"
  by (simp add: resp_header_def crlf_def)

lemma resp_encode_read:
  "resp_ok v \<Longrightarrow> length (resp_encode v) \<le> f \<Longrightarrow> read_reply f (resp_encode v @ r) = Some (reply_of v, r)"
  "list_all resp_ok l \<Longrightarrow> length (resp_items l) \<le> f \<Longrightarrow> read_many f (length l) (resp_items l @ r) = Some (replies_of l, r)"
proof (induction v and l arbitrary: f r and f r rule: resp_encode_resp_items.induct)
  case 1
  then have "f \<noteq> 0" by auto
  then show ?case by (cases f) (simp_all add: crlf_def read_bulk_def, code_simp)
next
  case (2 i)
  then show ?case by (cases f) (simp_all del: read_reply.simps add: read_head int_str_no_nl)
next
  case (3 b)
  have "py_int ''1'' = Some 1" "py_int ''0'' = Some 0" by code_simp+
  with 3 show ?case by (cases f) (simp_all del: read_reply.simps add: read_head)
next
  case (4 s)
  show ?case
  proof (cases "nl \<in> set s")
    case True
    with 4 show ?thesis by (simp add: read_bulk_fit)
  next
    case False
    with 4 show ?thesis by (cases f) (simp_all del: read_reply.simps add: read_head)
  qed
next
  case (5 b)
  then have "0 < f" by (auto simp: resp_bulkbytes_def)
  then show ?case by (simp add: read_bulk_bytes)
next
  case 6
  then have "0 < f" using length_resp_header [of "[] :: pyval list"] by simp
  then show ?case using read_array [of f "[]" "[]" r] by simp
next
  case (7 v l)
  have f: "0 < f" using 7(5) length_resp_header [of l] length_resp_header [of "v # l"] by (auto split: if_splits)
  show ?case
  proof (cases "v = PStr redis_mark")
    case True
    have "read_many (f - 1) (length l) (resp_items l @ r) = Some (replies_of l, r)"
      using 7 True length_resp_header [of l] by (intro 7(1)) auto
    from read_array [OF f this] True show ?thesis by simp
  next
    case False
    have "read_reply (f - 1) (resp_encode v @ resp_items l @ r) = Some (reply_of v, resp_items l @ r)"
      using 7 False length_resp_header [of "v # l"] by (intro 7(2)) auto
    moreover have "read_many (f - 1) (length l) (resp_items l @ r) = Some (replies_of l, r)"
      using 7 False length_resp_header [of "v # l"] by (intro 7(3)) auto
    ultimately have "read_many (f - 1) (length (v # l)) ((resp_encode v @ resp_items l) @ r) = Some (reply_of v # replies_of l, r)"
      by simp
    from read_array [OF f this] False show ?thesis by simp
  qed
next
  case (10 v l)
  then show ?case by simp
qed (simp_all add: read_bulk_fit)

text \<open>C21: What the writer sends for a value, a reader of the protocol takes off the stream exactly: it gets the same value, with
  nothing missing and nothing left over before the next reply. Every text in the value that has a newline, and the printed form of every
  tuple, dictionary and float, has to be ASCII: of others the length that is sent is too small (\<open>bulk_length_short\<close>).\<close>

theorem resp_roundtrip:
  assumes "resp_ok v" "length (resp_encode v) \<le> fuel"
  shows "read_reply fuel (resp_encode v @ rest) = Some (reply_of v, rest)"
  using assms by (rule resp_encode_read(1))

theorem resp_roundtrip_witness:
  "read_reply 100 (resp_encode (PList [PInt 7, PStr ''ok'', PBytes [255, 10], PNone]) @ ''+PONG'' @ crlf)
   = Some (RArray [RInt 7, RStatus ''ok'', RBulk [CHR 0xFF, nl], RNull], ''+PONG'' @ crlf)"
proof -
  let ?v = "PList [PInt 7, PStr ''ok'', PBytes [255, 10], PNone]"
  have l: "length (resp_encode ?v) \<le> 100" by code_simp
  have "reply_of ?v = RArray [RInt 7, RStatus ''ok'', RBulk [CHR 0xFF, nl], RNull]" by code_simp
  with resp_roundtrip [of ?v 100, OF _ l] show ?thesis by simp
qed

text \<open>Of a text with a newline and a character of two bytes, the length that is sent is one too small.\<close>

lemma bulk_length_short: "read_reply 9 (resp_encode (PStr [CHR 0xC3, CHR 0xA9, nl])) = None"
  by code_simp

end
