(* ===== verification/RedisSrv.thy ===== *)
theory RedisSrv
  imports Resp BCDBModel
begin

text \<open>
  The redis front of a database (\<^verbatim>\<open>data/bcdb/connectors/redis/RedisServer.py\<close>): requests on keys \<^verbatim>\<open>name:data:url/id\<close> become
  operations of the model of that name and url, whose replies are written with the protocol of \<open>Resp\<close>. Modelled are the requests
  for one model; which names and urls lead to it, and json, are arguments. Scanning and the loading of schemas are left out.
\<close>

section \<open>Keys and replies\<close>

datatype wr = WValue pyval | WError string

definition wr_bytes :: "wr list \<Rightarrow> string" where
  "wr_bytes ws = concat (map (\<lambda>w. case w of WValue v \<Rightarrow> resp_encode v | WError m \<Rightarrow> resp_error m) ws)"

record redis_conf =
  rc_known :: "string \<Rightarrow> string \<Rightarrow> bool"
  rc_loads :: "string \<Rightarrow> props option"
  rc_fresh :: bool
  rc_dumps :: "jobj \<Rightarrow> string option"
  rc_exc :: "exn \<Rightarrow> string"
  rc_info :: string

definition parse_key :: "string \<Rightarrow> (string \<times> string \<times> int option) res" where
  \<comment> \<open>no id is the star for all of them\<close>
  "parse_key key = (case split_char (CHR '':'') key of
     [name, x, url_id] \<Rightarrow> (case split_char (CHR ''/'') url_id of
         [url, i] \<Rightarrow> rbind (if i = ''*'' then Inr None else rbind (of_int_res (py_int i)) (\<lambda>k. Inr (Some k))) (\<lambda>k.
           Inr (strip (lower name), url, k))
       | _ \<Rightarrow> Inl P_ValueError)
   | _ \<Rightarrow> Inl P_AssertionError)"

definition key_id :: "redis_conf \<Rightarrow> string \<Rightarrow> int option res" where
  \<comment> \<open>the key, and the model it names\<close>
  "key_id R key = rbind (parse_key key) (\<lambda>(name, url, k). if rc_known R name url then Inr k else Inl E_Input)"

text \<open>An object has changes when a value that was set differs from the one that was there. The defaults are set like this too, so
  that for some schemas (argument \<open>rc_fresh\<close>) every new object has changes: those with a default that is not the empty value, or
  with a dictionary.\<close>

definition new_changed :: "redis_conf \<Rightarrow> ('a, 'b, 'c, 't) bconf \<Rightarrow> props \<Rightarrow> bool" where
  "new_changed R C ps = (rc_fresh R \<or> e_new (c_env C) ps \<noteq> e_new (c_env C) [])"

definition new_from_text :: "redis_conf \<Rightarrow> ('a, 'b, 'c, 't) bconf \<Rightarrow> string \<Rightarrow> (jobj \<times> bool) res" where
  \<comment> \<open>\<^verbatim>\<open>model.new(data=val)\<close>, and whether it has changes to save\<close>
  "new_from_text R C val = (case rc_loads R val of
     Some ps \<Rightarrow> rbind (model_new C ps 1) (\<lambda>ob. Inr (ob, new_changed R C ps))
   | None \<Rightarrow> if val = [] then rbind (model_new C [] 1) (\<lambda>ob. Inr (ob, new_changed R C [])) else Inl E_Base)"

definition id_left :: "jobj \<Rightarrow> ('a, 'b, 'c, 't) bstate \<Rightarrow> ('a, 'b, 'c, 't) bstate \<Rightarrow> pyval" where
  \<comment> \<open>the id an object has when saving it failed: its own, or the one its record was stored under\<close>
  "id_left ob s s' = (case o_id ob of Some k \<Rightarrow> PInt k
     | None \<Rightarrow> (case filter (\<lambda>k. k \<noteq> 0 \<and> k \<notin> fst ` set (st_items (b_store s))) (map fst (st_items (b_store s'))) of
         [] \<Rightarrow> PNone | k # ks \<Rightarrow> PInt k))"

section \<open>Requests\<close>

type_synonym ('a, 'b, 'c, 't) answer = "('a, 'b, 'c, 't) bstate \<times> wr list \<times> unit res"
  \<comment> \<open>the state, what was written, and whether the handler raised\<close>

definition redis_set :: "redis_conf \<Rightarrow> ('a, 'b, 'c, 't) bconf \<Rightarrow> string \<Rightarrow> string \<Rightarrow> ('a, 'b, 'c, 't) bstate \<Rightarrow> ('a, 'b, 'c, 't) answer" where
  \<comment> \<open>an error is written and the method goes on\<close>
  "redis_set R C key val s = (case key_id R key of
     Inl e \<Rightarrow> (s, [], Inl e)
   | Inr k \<Rightarrow> (let unsaved = ''cannot set, key:'' @ [squote] @ key @ [squote] @ '' could not save obj'' in
       case new_from_text R C val of
         Inl e \<Rightarrow> (s, [WError (''cannot set, key:'' @ [squote] @ key @ [squote] @ '' not supported''), WError unsaved], Inl P_NameError)
       | Inr (ob, changed) \<Rightarrow> (case object_save C ob changed s of
           (s', Inl e) \<Rightarrow> (s', [WError unsaved, WValue (id_left ob s s')], Inr ())
         | (s', Inr ob') \<Rightarrow> (case o_id ob' of
             None \<Rightarrow> (s', [WError unsaved, WValue PNone], Inr ())
           | Some i \<Rightarrow> (s', (if i = 0 then [WError unsaved] else []) @ [WValue (PInt i)], Inr ())))))"

definition redis_get :: "redis_conf \<Rightarrow> ('a, 'b, 'c, 't) bconf \<Rightarrow> string \<Rightarrow> ('a, 'b, 'c, 't) bstate \<Rightarrow> ('a, 'b, 'c, 't) answer" where
  "redis_get R C key s = (case key_id R key of
     Inl e \<Rightarrow> (s, [], Inl e)
   | Inr k \<Rightarrow> (let miss = (\<lambda>e. [WError (''cannot get, key:'' @ [squote] @ key @ [squote] @ '' not found,'' @ rc_exc R e),
                              WError (''cannot get, key:'' @ [squote] @ key @ [squote] @ '' could not decode json'')]) in
       case k of
         None \<Rightarrow> (s, miss E_Base, Inr ())
       | Some i \<Rightarrow> (case model_get C i True s of
           (s', Inl e) \<Rightarrow> (s', miss e, Inr ())
         | (s', Inr None) \<Rightarrow> (s', tl (miss E_Base), Inr ())
         | (s', Inr (Some ob)) \<Rightarrow> (s', (case rc_dumps R ob of None \<Rightarrow> tl (miss E_Base) | Some t \<Rightarrow> [WValue (PStr t)]), Inr ()))))"

definition redis_delete :: "redis_conf \<Rightarrow> ('a, 'b, 'c, 't) bconf \<Rightarrow> string \<Rightarrow> ('a, 'b, 'c, 't) bstate \<Rightarrow> ('a, 'b, 'c, 't) answer" where
  \<comment> \<open>the client of a model has no \<^verbatim>\<open>destroy\<close>\<close>
  "redis_delete R C key s = (case key_id R key of
     Inl e \<Rightarrow> (s, [], Inl e)
   | Inr k \<Rightarrow> (let failed = [WError (''cannot delete, key:'' @ [squote] @ key @ [squote])] in
       case k of
         None \<Rightarrow> (s, failed, Inr ())
       | Some i \<Rightarrow> (case delete_id C i s of (s', Inl e) \<Rightarrow> (s', failed, Inr ()) | (s', Inr _) \<Rightarrow> (s', [WValue (PInt 1)], Inr ()))))"

definition redis_hlen :: "redis_conf \<Rightarrow> ('a, 'b, 'c, 't) bconf \<Rightarrow> string \<Rightarrow> ('a, 'b, 'c, 't) bstate \<Rightarrow> ('a, 'b, 'c, 't) answer" where
  "redis_hlen R C key s = (case split_char (CHR '':'') key of
     [name, x, url] \<Rightarrow> if \<not> rc_known R name url then (s, [], Inl E_Input)
       else (case model_count C None [] s of (s', Inl e) \<Rightarrow> (s', [], Inl e) | (s', Inr n) \<Rightarrow> (s', [WValue (PInt n)], Inr ()))
   | _ \<Rightarrow> (s, [], Inl P_ValueError))"

definition sub_key :: "string \<Rightarrow> string \<Rightarrow> string" where
  "sub_key key i = key @ ''/'' @ i"

definition reply_with :: "wr \<Rightarrow> ('a, 'b, 'c, 't) bstate \<Rightarrow> ('a, 'b, 'c, 't) answer" where
  "reply_with w s = (s, [w], Inr ())"

definition redis_method :: "redis_conf \<Rightarrow> ('a, 'b, 'c, 't) bconf \<Rightarrow> string \<Rightarrow> string list \<Rightarrow> ('a, 'b, 'c, 't) bstate
    \<Rightarrow> ('a, 'b, 'c, 't) answer" where
  \<comment> \<open>\<^verbatim>\<open>method(response, *args)\<close>; a wrong number of arguments is a TypeError\<close>
  "redis_method R C cmd args s = (let wrong = (s, [], Inl P_TypeError) in
     if cmd = ''set'' then (case args of [k, v] \<Rightarrow> redis_set R C k v s | [k, v, n] \<Rightarrow> redis_set R C k v s | _ \<Rightarrow> wrong)
     else if cmd = ''get'' then (case args of [k] \<Rightarrow> redis_get R C k s | _ \<Rightarrow> wrong)
     else if cmd = ''delete'' \<or> cmd = ''del'' then (case args of [k] \<Rightarrow> redis_delete R C k s | _ \<Rightarrow> wrong)
     else if cmd = ''hset'' \<or> cmd = ''hsetnew'' then (case args of [k, i, v] \<Rightarrow> redis_set R C (sub_key k i) v s | _ \<Rightarrow> wrong)
     else if cmd = ''hget'' then (case args of [k, i] \<Rightarrow> redis_get R C (sub_key k i) s | _ \<Rightarrow> wrong)
     else if cmd = ''hdel'' then (case args of [k, i] \<Rightarrow> redis_delete R C (sub_key k i) s | _ \<Rightarrow> wrong)
     else if cmd = ''hlen'' then (case args of [k] \<Rightarrow> redis_hlen R C k s | _ \<Rightarrow> wrong)
     else if cmd = ''ttl'' then (case args of [k] \<Rightarrow> reply_with (WValue (PStr ''-1'')) s | _ \<Rightarrow> wrong)
     else if cmd = ''type'' then (case args of [k] \<Rightarrow> reply_with (WValue (PStr ''hash'')) s | _ \<Rightarrow> wrong)
     else if cmd = ''auth'' then reply_with (WValue (PStr ''OK'')) s
     else (s, [WError (''COULD NOT FIND COMMAND:'' @ cmd)], Inl P_Exception))"

definition utf8_text :: "string \<Rightarrow> bool" where
  "utf8_text t = (decode (encode t) \<noteq> None)"

definition redis_request :: "redis_conf \<Rightarrow> ('a, 'b, 'c, 't) bconf \<Rightarrow> string list \<Rightarrow> ('a, 'b, 'c, 't) bstate
    \<Rightarrow> ('a, 'b, 'c, 't) answer" where
  \<comment> \<open>one turn of the loop; an unknown command ends the loop, which is shown as an exception here\<close>
  "redis_request R C req s = (case req of
     [] \<Rightarrow> (s, [], Inr ())
   | c # args \<Rightarrow> (let cmd = lower c in
       if \<not> utf8_text c then (s, [], Inl P_UnicodeError)
       else if cmd = ''command'' then reply_with (WValue (PStr ''OK'')) s
       else if cmd = ''ping'' then reply_with (WValue (PStr ''PONG'')) s
       else if cmd = ''info'' then reply_with (WValue (PStr (rc_info R))) s
       else if cmd = ''select'' then (case args of [] \<Rightarrow> (s, [], Inl P_IndexError)
         | d # _ \<Rightarrow> reply_with (if d = ''0'' then WValue (PStr ''OK'') else WError ''DB index is out of range'') s)
       else if \<not> list_all utf8_text args then (s, [], Inl P_UnicodeError)
       else redis_method R C cmd args s))"

fun redis_serve :: "redis_conf \<Rightarrow> ('a, 'b, 'c, 't) bconf \<Rightarrow> string list list \<Rightarrow> ('a, 'b, 'c, 't) bstate
    \<Rightarrow> ('a, 'b, 'c, 't) bstate \<times> string" where
  \<comment> \<open>the requests of one connection, until it ends; the bytes that were sent\<close>
  "redis_serve R C [] s = (s, [])"
| "redis_serve R C (q # qs) s = (case redis_request R C q s of
     (s', ws, Inl e) \<Rightarrow> (s', wr_bytes ws)
   | (s', ws, Inr _) \<Rightarrow> (case redis_serve R C qs s' of (s'', out) \<Rightarrow> (s'', wr_bytes ws @ out)))"

section \<open>Storing and reading through redis\<close>

definition model_key :: "redis_conf \<Rightarrow> string \<Rightarrow> bool" where
  \<comment> \<open>a key \<^verbatim>\<open>name:data:url\<close> of the model\<close>
  "model_key R key = (\<exists>name x url. split_char (CHR '':'') key = [name, x, url] \<and> CHR ''/'' \<notin> set url \<and> rc_known R (strip (lower name)) url)"

lemma sub_key_id:
  assumes "model_key R key"
  shows "key_id R (sub_key key (int_str i)) = Inr (Some i)"
proof -
  obtain name x url where k: "split_char (CHR '':'') key = [name, x, url]" "CHR ''/'' \<notin> set url" "rc_known R (strip (lower name)) url"
    using assms by (auto simp: model_key_def)
  have key: "key = join [CHR '':''] [name, x, url]" using join_split [of "CHR '':''" key] k(1) by simp
  have c: "CHR '':'' \<notin> set name" "CHR '':'' \<notin> set x" "CHR '':'' \<notin> set url" using split_char_parts [of _ "CHR '':''" key] k(1) by auto
  have d: "ch \<notin> set (int_str i)" if "ch = CHR '':'' \<or> ch = CHR ''/''" for ch
    using int_str_chars [of ch i] that by (auto simp: is_digit_def ccode_def)
  have "sub_key key (int_str i) = name @ CHR '':'' # x @ CHR '':'' # (url @ CHR ''/'' # int_str i)"
    by (simp add: sub_key_def key join_Cons)
  moreover have "split_char (CHR '':'') (url @ CHR ''/'' # int_str i) = [url @ CHR ''/'' # int_str i]"
    using c(3) d by (intro split_char_notin) auto
  ultimately have "split_char (CHR '':'') (sub_key key (int_str i)) = [name, x, url @ CHR ''/'' # int_str i]"
    using c by (simp add: split_char_append)
  moreover have "split_char (CHR ''/'') (url @ CHR ''/'' # int_str i) = [url, int_str i]"
    using k(2) d by (simp add: split_char_append split_char_notin)
  moreover have "int_str i \<noteq> ''*''" using int_str_chars [of "CHR ''*''" i] by (auto simp: is_digit_def ccode_def)
  ultimately show ?thesis using k(3) by (simp add: key_id_def parse_key_def of_int_res_def)
qed

lemma redis_set_stored:
  assumes "redis_set R C key val s = (s', [WValue (PInt i)], Inr ())" "\<not> c_nosave C"
  shows "\<exists>ob ob'. new_from_text R C val = Inr (ob, True) \<and> model_set C ob True True s = (s', Inr ob') \<and> o_id ob' = Some i
    \<or> new_from_text R C val = Inr (ob, False) \<and> s' = s \<and> o_id ob = Some i"
proof -
  obtain ob changed ob' where r: "new_from_text R C val = Inr (ob, changed)" "object_save C ob changed s = (s', Inr ob')" "o_id ob' = Some i"
    using assms(1) by (auto simp: redis_set_def Let_def split: sum.splits prod.splits option.splits if_splits)
  show ?thesis
  proof (cases changed)
    case True
    with r have "model_set C ob True True s = (s', Inr ob')" using object_save_sets [OF _ assms(2)] by simp
    with True r show ?thesis by (intro exI [of _ ob] exI [of _ ob']) simp
  next
    case False
    with r show ?thesis by (auto simp: object_save_def)
  qed
qed

lemma ascii_utf8: "ascii t \<Longrightarrow> utf8_text t"
proof -
  have "list_all (\<lambda>b. b < 128) bs \<Longrightarrow> utf8_ok bs" for bs by (induction bs) auto
  moreover assume "ascii t"
  moreover have "unat (byte_of_char c) = ccode c" for c by (simp add: byte_of_char_def ccode_def unat_of_nat)
  ultimately have "utf8_ok (map unat (encode t))" by (simp add: ascii_def encode_def list_all_iff)
  then show ?thesis by (simp add: utf8_text_def decode_encode)
qed

lemma int_str_utf8: "utf8_text (int_str i)"
proof (rule ascii_utf8)
  show "ascii (int_str i)" unfolding ascii_def list_all_iff using int_str_chars by (fastforce simp: is_digit_def ccode_def)
qed

lemma hash_request:
  assumes "cmd \<in> {''hset'', ''hget''}"
  shows "redis_request R C (cmd # args) s = (if list_all utf8_text args then redis_method R C cmd args s else (s, [], Inl P_UnicodeError))"
proof -
  have "lower ''hset'' = ''hset''" "lower ''hget'' = ''hget''" "utf8_text ''hset''" "utf8_text ''hget''" by code_simp+
  then show ?thesis using assms by (auto simp: redis_request_def)
qed

text \<open>C20: When a client that puts an object into a model gets a number for it, and nothing else, then a client that asks for
  that number of the same key gets the object, with the properties that were sent: as json, in a single reply that can be read back from
  the stream when the json is ASCII or has no newline, or as a single error when the object has no json. The object that is put has to
  differ from one that is made of no data, else there is nothing to save.\<close>

theorem redis_set_then_get:
  assumes "redis_request R C [''hset'', key, j, val] s = (s', [WValue (PInt i)], Inr ())" "model_key R key"
    and "new_from_text R C val = Inr (ob, True)" "quiet C" "benv_laws (c_env C)" "own_obj C ob" "o_nid ob \<noteq> 0" "st_wf (b_store s)" "known_id s ob"
    and "\<not> c_nosave C"
  shows "\<exists>q. o_id q = Some i \<and> o_props q = o_props ob \<and> (case rc_dumps R q of
       None \<Rightarrow> \<exists>m. redis_request R C [''hget'', key, int_str i] s' = (s', [WError m], Inr ())
     | Some t \<Rightarrow> redis_request R C [''hget'', key, int_str i] s' = (s', [WValue (PStr t)], Inr ())
         \<and> (resp_ok (PStr t) \<longrightarrow> (\<forall>fuel rest. length (wr_bytes [WValue (PStr t)]) \<le> fuel
               \<longrightarrow> read_reply fuel (wr_bytes [WValue (PStr t)] @ rest) = Some (reply_of (PStr t), rest))))"
proof -
  have u: "utf8_text key" "utf8_text (int_str i)" and "redis_set R C (sub_key key j) val s = (s', [WValue (PInt i)], Inr ())"
    using assms(1) int_str_utf8 by (auto simp: hash_request redis_method_def split: if_splits)
  from redis_set_stored [OF this(3) assms(10)] assms(3) obtain q where q: "model_set C ob True True s = (s', Inr q)" "o_id q = Some i" by auto
  obtain s1 where s1: "model_set C ob False True s = (s1, Inr q)" "index_set C q s1 = (s', Inr ())"
    using model_set_returns [OF q(1) assms(4) _ assms(7)] assms(6) by (auto simp: own_obj_def)
  from model_set_stored [OF s1(1) assms(4-9)] index_set_store [OF s1(2)] q(2)
  have g: "model_get C i True s' = (s', Inr (Some q))" and p: "o_props q = o_props ob" by auto
  have r: "redis_request R C [''hget'', key, int_str i] s' = redis_get R C (sub_key key (int_str i)) s'"
    using u by (simp add: hash_request redis_method_def)
  have "read_reply fuel (wr_bytes [WValue (PStr t)] @ rest) = Some (reply_of (PStr t), rest)"
    if "length (wr_bytes [WValue (PStr t)]) \<le> fuel" "resp_ok (PStr t)" for fuel rest t
    using resp_encode_read(1) [OF that(2), of fuel rest] that(1) by (simp add: wr_bytes_def)
  then show ?thesis
    using q(2) p unfolding r by (intro exI [of _ q]) (auto simp: redis_get_def sub_key_id [OF assms(2)] g Let_def split: option.split)
qed

lemma one_str: "int_str 1 = ''1''"
  by code_simp

definition demo_redis :: redis_conf where
  "demo_redis = \<lparr>rc_known = (\<lambda>name url. name = ''test''), rc_loads = (\<lambda>t. Some [(''name'', PStr t)]), rc_fresh = False,
     rc_dumps = (\<lambda>ob. Some ''json''), rc_exc = (\<lambda>e. ''error''), rc_info = ''info''\<rparr>"

theorem redis_set_then_get_witness:
  "\<exists>s'. redis_request demo_redis mem_conf [''hset'', ''test:data:url'', ''0'', ''x''] (mem_start []) = (s', [WValue (PInt 1)], Inr ())
     \<and> redis_request demo_redis mem_conf [''hget'', ''test:data:url'', ''1''] s' = (s', [WValue (PStr ''json'')], Inr ())"
proof -
  let ?set = "redis_request demo_redis mem_conf [''hset'', ''test:data:url'', ''0'', ''x''] (mem_start [])"
    and ?ob = "(named_obj ''x'')\<lparr>o_acl := Some 0\<rparr>"
  have "snd ?set = ([WValue (PInt 1)], Inr ())" by code_simp
  then obtain s' where s': "?set = (s', [WValue (PInt 1)], Inr ())" by (cases ?set) auto
  have n: "new_from_text demo_redis mem_conf ''x'' = Inr (?ob, True)" by code_simp
  have "split_char (CHR '':'') ''test:data:url'' = [''test'', ''data'', ''url'']" "strip (lower ''test'') = ''test''" by code_simp+
  then have k: "model_key demo_redis ''test:data:url''" by (auto simp: model_key_def demo_redis_def)
  have own: "own_obj mem_conf ?ob" using own_named [of "''x''"] by (simp add: own_obj_def)
  have i: "o_nid ?ob \<noteq> 0" "known_id (mem_start []) ?ob" by (simp_all add: named_obj_def known_id_def)
  have l: "benv_laws (c_env mem_conf)" by (simp add: plain_env_laws)
  have ns: "\<not> c_nosave mem_conf" by code_simp
  have d: "rc_dumps demo_redis q = Some ''json''" for q by (simp add: demo_redis_def)
  from redis_set_then_get [OF s' k n quiet_mem l own i(1) wf_mem i(2) ns] s' show ?thesis by (auto simp: d one_str)
qed

section \<open>Where the answers do not fit the requests\<close>

text \<open>Asking for an object that is not there is answered twice: the second reply is taken for that of the next request.\<close>

lemma missing_get_two_replies:
  assumes "model_key R key" "utf8_text key" "model_get C i True s = (s, Inl e)"
  shows "\<exists>a b. redis_request R C [''hget'', key, int_str i] s = (s, [WError a, WError b], Inr ())"
proof -
  show ?thesis by (simp add: hash_request assms(2) redis_method_def redis_get_def sub_key_id [OF assms(1)] assms(3) int_str_utf8 Let_def)
qed

text \<open>The id in the key of a set is not looked at, any client is let in, and all objects of a model can never be deleted.\<close>

lemma set_ignores_id: "key_id R key = Inr k \<Longrightarrow> key_id R key' = Inr k' \<Longrightarrow>
    fst (redis_set R C key val s) = fst (redis_set R C key' val s)"
  by (simp add: redis_set_def Let_def split: sum.split prod.split option.split)

lemma auth_lets_in: "list_all utf8_text args \<Longrightarrow> redis_request R C (''auth'' # args) s = (s, [WValue (PStr ''OK'')], Inr ())"
proof -
  assume "list_all utf8_text args"
  moreover have "lower ''auth'' = ''auth''" "utf8_text ''auth''" by code_simp+
  ultimately show ?thesis by (simp add: redis_request_def redis_method_def reply_with_def)
qed

lemma delete_all_refused: "key_id R key = Inr None \<Longrightarrow> \<exists>m. redis_delete R C key s = (s, [WError m], Inr ())"
  by (simp add: redis_delete_def Let_def)

end
