(* ===== verification/Configs.thy ===== *)
theory Configs
  imports BCDBModel
begin

text \<open>
  Collections of configuration objects (\<^verbatim>\<open>core/BASECLASSES/JSConfigsBCDB.py\<close>, \<^verbatim>\<open>JSConfigBCDB.py\<close>): named objects of one model
  that are kept in memory once they were used. The state is that of the model and the children in memory, each under its name;
  \<open>M\<close> is the id of the object above the collection, 0 when there is none. Keyword arguments are properties of the schema, and
  \<open>clean\<close> is what setting a property makes of a value. Objects that other programs hold on to are not followed.
\<close>

record ('a, 'b, 'c, 't) cfgs =
  cf_model :: "('a, 'b, 'c, 't) bstate"
  cf_children :: "(string \<times> jobj) list"

type_synonym ('a, 'b, 'c, 't, 'r) ceff = "(('a, 'b, 'c, 't) cfgs, 'r) eff"

definition on_model :: "('a, 'b, 'c, 't, 'r) beff \<Rightarrow> ('a, 'b, 'c, 't, 'r) ceff" where
  "on_model m = (\<lambda>s. case m (cf_model s) of (b, r) \<Rightarrow> (s\<lparr>cf_model := b\<rparr>, r))"

definition obj_name :: "jobj \<Rightarrow> string" where
  "obj_name ob = (case d_get (o_props ob) ''name'' of Some (PStr n) \<Rightarrow> n | _ \<Rightarrow> [])"

definition with_name :: "string \<Rightarrow> jobj \<Rightarrow> jobj" where
  "with_name n ob = ob\<lparr>o_props := d_set (o_props ob) ''name'' (PStr n)\<rparr>"

definition with_mother :: "int \<Rightarrow> jobj \<Rightarrow> jobj" where
  "with_mother M ob = (if M = 0 then ob else ob\<lparr>o_props := d_set (o_props ob) ''mother_id'' (PInt M)\<rparr>)"

definition put_child :: "string \<Rightarrow> jobj \<Rightarrow> ('a, 'b, 'c, 't, unit) ceff" where
  "put_child n ob = emod (\<lambda>s. s\<lparr>cf_children := d_set (cf_children s) n ob\<rparr>)"

definition drop_child :: "string \<Rightarrow> ('a, 'b, 'c, 't, unit) ceff" where
  "drop_child n = emod (\<lambda>s. s\<lparr>cf_children := d_pop (cf_children s) n\<rparr>)"

definition forget_child :: "bool \<Rightarrow> string \<Rightarrow> ('a, 'b, 'c, 't, unit) ceff" where
  \<comment> \<open>a parent that is a factory keeps its child\<close>
  "forget_child fac n = (if fac then ereturn () else drop_child n)"

definition validate_child :: "('a, 'b, 'c, 't) bconf \<Rightarrow> int \<Rightarrow> string \<Rightarrow> ('a, 'b, 'c, 't, jobj option) ceff" where
  \<comment> \<open>a child whose name is no longer its key gets the name of the key back\<close>
  "validate_child C M n = ebind (eget (\<lambda>s. d_get (cf_children s) n)) (\<lambda>c. case c of
     None \<Rightarrow> ereturn None
   | Some ob \<Rightarrow> if obj_name ob = n then ereturn (Some ob)
       else (let ob1 = with_mother M (with_name n ob) in
         ebind (put_child n ob1) (\<lambda>_. ebind (on_model (object_save C ob1 True)) (\<lambda>ob2.
           ebind (drop_child n) (\<lambda>_. ebind (put_child n ob2) (\<lambda>_. ereturn (Some ob2)))))))"

definition kwargs_update :: "int \<Rightarrow> props \<Rightarrow> props" where
  "kwargs_update M kw = (if M = 0 then kw else d_set kw ''mother_id'' (PInt M))"

definition cfg_count :: "('a, 'b, 'c, 't) bconf \<Rightarrow> int \<Rightarrow> props \<Rightarrow> ('a, 'b, 'c, 't, nat) ceff" where
  "cfg_count C M kw = ebind (on_model (find_ids C None None None (kwargs_update M kw))) (\<lambda>ids. ereturn (length ids))"

definition cfg_exists :: "('a, 'b, 'c, 't) bconf \<Rightarrow> int \<Rightarrow> string \<Rightarrow> ('a, 'b, 'c, 't, bool) ceff" where
  "cfg_exists C M n = ebind (validate_child C M n) (\<lambda>c. if c \<noteq> None then ereturn True
     else ebind (cfg_count C M [(''name'', PStr n)]) (\<lambda>r.
       if r = 1 then ereturn True else if r = 0 then ereturn False else eraise E_Base))"

definition cfg_create :: "('a, 'b, 'c, 't) bconf \<Rightarrow> int \<Rightarrow> string \<Rightarrow> jobj option \<Rightarrow> props \<Rightarrow> ('a, 'b, 'c, 't, jobj) ceff" where
  \<comment> \<open>\<^verbatim>\<open>_create\<close> with the constructor of the child, which saves an object that has no id\<close>
  "cfg_create C M name jsx kw =
     (let n = (case jsx of Some ob \<Rightarrow> if name = [] then obj_name ob else name | None \<Rightarrow> name) in
      ebind (eassert (case jsx of Some ob \<Rightarrow> n = obj_name ob | None \<Rightarrow> True)) (\<lambda>_.
      if n = [] then eraise E_Input
      else ebind (case jsx of
             Some ob \<Rightarrow> ereturn ob
           | None \<Rightarrow> ebind (elift (model_new C (d_set kw ''name'' (PStr n)) 1)) (\<lambda>ob.
               ebind (eassert (obj_name ob = n)) (\<lambda>_. ereturn ob))) (\<lambda>ob0.
        let ob1 = with_mother M ob0 in
        ebind (if o_id ob1 = None then ebind (on_model (object_save C ob1 True)) (\<lambda>ob2.
                 ebind (eassert (o_id ob2 \<noteq> None \<and> o_id ob2 \<noteq> Some 0)) (\<lambda>_. ereturn ob2))
               else ereturn ob1) (\<lambda>ob3.
        ebind (put_child n ob3) (\<lambda>_. ereturn ob3)))))"

definition cfg_check :: "int \<Rightarrow> jobj \<Rightarrow> ('a, 'b, 'c, 't, unit) ceff" where
  "cfg_check M ob = (case o_id ob of None \<Rightarrow> ereturn ()
   | Some i \<Rightarrow> ebind (eassert (0 < i)) (\<lambda>_. eassert (M = 0 \<or> d_get (o_props ob) ''mother_id'' = Some (PInt M))))"

definition cfg_new :: "('a, 'b, 'c, 't) bconf \<Rightarrow> int \<Rightarrow> string \<Rightarrow> props \<Rightarrow> ('a, 'b, 'c, 't, jobj) ceff" where
  \<comment> \<open>the object was saved when it was made: there is nothing left to save\<close>
  "cfg_new C M name kw = (if name = [] then eraise E_Input
     else ebind (cfg_exists C M name) (\<lambda>x. if x then eraise E_Base
       else ebind (cfg_create C M name None kw) (\<lambda>ob. ebind (cfg_check M ob) (\<lambda>_. ereturn ob))))"

definition obj_matches :: "props \<Rightarrow> jobj \<Rightarrow> bool" where
  "obj_matches kw ob = list_all (\<lambda>(k, v). d_get (o_props ob) k = Some v) kw"

definition cfg_by_id :: "('a, 'b, 'c, 't) bconf \<Rightarrow> int \<Rightarrow> int \<Rightarrow> ('a, 'b, 'c, 't, jobj) ceff" where
  \<comment> \<open>\<^verbatim>\<open>get(id=...)\<close>\<close>
  "cfg_by_id C M i = ebind (on_model (model_get C i True)) (\<lambda>r. case r of None \<Rightarrow> eraise P_AttributeError
   | Some ob \<Rightarrow> ebind (cfg_create C M (obj_name ob) (Some ob) []) (\<lambda>ob'. ebind (cfg_check M ob') (\<lambda>_. ereturn ob')))"

definition cfg_find :: "('a, 'b, 'c, 't) bconf \<Rightarrow> int \<Rightarrow> props \<Rightarrow> ('a, 'b, 'c, 't, jobj list) ceff" where
  "cfg_find C M kw = ebind (eget (\<lambda>s. filter (obj_matches kw) (map snd (cf_children s)))) (\<lambda>mem.
     ebind (on_model (find_ids C None None None (kwargs_update M kw))) (\<lambda>ids.
     ebind (emap (cfg_by_id C M) (filter (\<lambda>i. Some i \<notin> o_id ` set mem) ids)) (\<lambda>obs. ereturn (mem @ obs))))"

definition cfg_lookup :: "('a, 'b, 'c, 't) bconf \<Rightarrow> int \<Rightarrow> string \<Rightarrow> bool \<Rightarrow> ('a, 'b, 'c, 't, jobj option) ceff" where
  \<comment> \<open>\<^verbatim>\<open>_get\<close> without an id\<close>
  "cfg_lookup C M n die = ebind (validate_child C M n) (\<lambda>c. if c \<noteq> None then ereturn c
     else ebind (cfg_find C M [(''name'', PStr n)]) (\<lambda>res. case res of
         [] \<Rightarrow> if die then eraise E_Base else ereturn None
       | [ob] \<Rightarrow> ereturn (Some ob)
       | _ \<Rightarrow> eraise E_Base))"

definition set_props :: "('a, 'b, 'c, 't) bconf \<Rightarrow> (string \<Rightarrow> pyval \<Rightarrow> pyval res) \<Rightarrow> props \<Rightarrow> jobj \<Rightarrow> (jobj \<times> bool) res" where
  "set_props C clean kw ob = rfold (\<lambda>(q, ch) (k, v).
     if k \<notin> set (c_props C) then Inl E_Input
     else if d_get (o_props q) k = Some v then Inr (q, ch)
     else rbind (clean k v) (\<lambda>w. Inr (q\<lparr>o_props := d_set (o_props q) k w\<rparr>, True))) (ob, False) kw"

definition cfg_get :: "('a, 'b, 'c, 't) bconf \<Rightarrow> int \<Rightarrow> (string \<Rightarrow> pyval \<Rightarrow> pyval res) \<Rightarrow> string \<Rightarrow> bool \<Rightarrow> props
    \<Rightarrow> ('a, 'b, 'c, 't, jobj) ceff" where
  "cfg_get C M clean name needexist kw =
     (let n = replace_str ''__'' ''.'' name in
      if n = [] then eraise E_Input
      else ebind (cfg_lookup C M n needexist) (\<lambda>c.
        ebind (case c of
            None \<Rightarrow> cfg_create C M n None kw
          | Some ob \<Rightarrow> ebind (elift (set_props C clean kw ob)) (\<lambda>(ob1, changed).
              if changed then ebind (put_child (obj_name ob) ob1) (\<lambda>_. ebind (on_model (object_save C ob1 True)) (\<lambda>ob2.
                ebind (put_child (obj_name ob) ob2) (\<lambda>_. ereturn ob2)))
              else ereturn ob)) (\<lambda>ob3.
        ebind (cfg_check M ob3) (\<lambda>_. ereturn ob3))))"

definition cfg_names :: "('a, 'b, 'c, 't) bconf \<Rightarrow> int \<Rightarrow> ('a, 'b, 'c, 't, string list) ceff" where
  \<comment> \<open>\<^verbatim>\<open>_children_names_get\<close> without a filter: more than fifty names are none\<close>
  "cfg_names C M = ebind (eget (\<lambda>s. filter (\<lambda>r. M = 0 \<or> row_val r ''mother_id'' = Some (PInt M)) (x_rows (c_tab C) (b_tab (cf_model s))))) (\<lambda>rows.
     ebind (emap (\<lambda>r. ebind (on_model (model_exists C (r_id r))) (\<lambda>x. ereturn (x, r))) rows) (\<lambda>xs.
       let ns = map (\<lambda>(x, r). case row_val r ''name'' of Some (PStr n) \<Rightarrow> n | _ \<Rightarrow> []) (filter fst xs)
       in ereturn (if 50 < length ns then [] else ns)))"

definition emptied :: "('a, 'b, 'c, 't) bconf \<Rightarrow> jobj \<Rightarrow> jobj res" where
  \<comment> \<open>what \<^verbatim>\<open>JSXObjectRoot.delete\<close> leaves of an object: the defaults, and no id\<close>
  "emptied C ob = (if c_nosave C then Inr ob else rbind (e_new (c_env C) []) (\<lambda>ps. Inr (ob\<lparr>o_id := None, o_props := ps\<rparr>)))"

definition keep_name :: "('a, 'b, 'c, 't) bconf \<Rightarrow> bool \<Rightarrow> string \<Rightarrow> jobj \<Rightarrow> ('a, 'b, 'c, 't, jobj) ceff" where
  \<comment> \<open>\<^verbatim>\<open>self._data.name = name\<close>: an object that saves itself is stored again, as a new one\<close>
  "keep_name C auto n ob = (if obj_name ob = n then ereturn ob
     else if auto then on_model (object_save C (with_name n ob) True) else ereturn (with_name n ob))"

definition delete_again :: "('a, 'b, 'c, 't) bconf \<Rightarrow> jobj \<Rightarrow> ('a, 'b, 'c, 't, unit) ceff" where
  "delete_again C ob = (case o_id ob of None \<Rightarrow> ereturn () | Some i \<Rightarrow> if i = 0 then ereturn ()
     else ebind (on_model (model_get C i True)) (\<lambda>r. case r of None \<Rightarrow> eraise P_AttributeError
       | Some q \<Rightarrow> on_model (object_delete C False q)))"

definition cfg_delete_name :: "('a, 'b, 'c, 't) bconf \<Rightarrow> int \<Rightarrow> bool \<Rightarrow> bool \<Rightarrow> string \<Rightarrow> ('a, 'b, 'c, 't, unit) ceff" where
  \<comment> \<open>\<^verbatim>\<open>_delete(name)\<close> with \<^verbatim>\<open>_delete\<close> of the child; \<open>auto\<close> is its \<^verbatim>\<open>_autosave\<close>, \<open>fac\<close> says that the collection is a
    factory. What the child has below it is left out\<close>
  "cfg_delete_name C M auto fac n = ebind (cfg_lookup C M n False) (\<lambda>c. case c of
     None \<Rightarrow> ereturn ()
   | Some ob \<Rightarrow> ebind (on_model (object_delete C False ob)) (\<lambda>_.
       ebind (elift (emptied C ob)) (\<lambda>ob1.
       ebind (keep_name C auto (obj_name ob) ob1) (\<lambda>ob2.
       ebind (forget_child fac (obj_name ob2)) (\<lambda>_.
       ebind (eassert (obj_name ob2 \<noteq> [])) (\<lambda>_. delete_again C ob2))))))"

definition cfg_reset :: "('a, 'b, 'c, 't) bconf \<Rightarrow> int \<Rightarrow> bool \<Rightarrow> bool \<Rightarrow> ('a, 'b, 'c, 't, unit) ceff" where
  "cfg_reset C M auto fac = ebind (cfg_names C M) (\<lambda>ns. ebind (efor ns (cfg_delete_name C M auto fac)) (\<lambda>_.
     ebind (on_model (find_ids C None None None [])) (\<lambda>ids. ebind (efor ids (\<lambda>i. on_model (delete_id C i))) (\<lambda>_.
     ebind (eget (\<lambda>s. x_rows (c_tab C) (b_tab (cf_model s)) = [])) (\<lambda>e. ebind (eassert e) (\<lambda>_.
     ebind (if M = 0 then on_model (index_destroy C 1) else ereturn ()) (\<lambda>_.
       emod (\<lambda>s. s\<lparr>cf_children := []\<rparr>))))))))"

definition cfg_delete :: "('a, 'b, 'c, 't) bconf \<Rightarrow> int \<Rightarrow> bool \<Rightarrow> bool \<Rightarrow> string \<Rightarrow> ('a, 'b, 'c, 't, unit) ceff" where
  "cfg_delete C M auto fac n = (if n = [] then cfg_reset C M auto fac else cfg_delete_name C M auto fac n)"

definition restarted :: "('a, 'b, 'c, 't) cfgs \<Rightarrow> ('a, 'b, 'c, 't) cfgs" where
  \<comment> \<open>a new process has no children yet\<close>
  "restarted s = s\<lparr>cf_children := []\<rparr>"

section \<open>Saving a named object\<close>

lemma on_model_run: "m (cf_model s) = (b, r) \<Longrightarrow> on_model m s = (s\<lparr>cf_model := b\<rparr>, r)"
  by (simp add: on_model_def)

definition plain_col :: "('a, 'b, 'c, 't) bconf \<Rightarrow> string \<Rightarrow> bool" where
  \<comment> \<open>a column that holds the property of its name\<close>
  "plain_col C c = (c \<noteq> ''id'' \<and> c \<noteq> ''nid'' \<and> (\<exists>fs f gs. c_fields C = fs @ f # gs \<and> c \<notin> if_name ` set fs \<and> if_name f = c \<and> if_attr f = []
     \<and> \<not> if_numeric f))"

definition named :: "('a, 'b, 'c, 't) bconf \<Rightarrow> bool" where
  \<comment> \<open>the name is a plain unique column, as every schema of a configuration object has it\<close>
  "named C = (plain_col C ''name'' \<and> ''name'' \<in> set (uniq_cols C))"

definition cfg_env :: "('a, 'b, 'c, 't) bconf \<Rightarrow> int \<Rightarrow> bool" where
  \<comment> \<open>with an object above the collection, its id is a plain column too\<close>
  "cfg_env C M = (quiet C \<and> benv_laws (c_env C) \<and> itable_laws (uniq_cols C) (c_tab C) \<and> named C \<and> (M \<noteq> 0 \<longrightarrow> plain_col C ''mother_id'')
     \<and> \<not> c_nosave C \<and> \<not> c_readonly C)"

definition cfg_ok :: "('a, 'b, 'c, 't) bconf \<Rightarrow> ('a, 'b, 'c, 't) cfgs \<Rightarrow> bool" where
  "cfg_ok C s = (st_wf (b_store (cf_model s)) \<and> tab_wf C (cf_model s))"

lemma cfg_envD:
  assumes "cfg_env C M"
  shows "quiet C" "benv_laws (c_env C)" "itable_laws (uniq_cols C) (c_tab C)" "named C" "\<not> c_nosave C" "\<not> c_readonly C"
    "plain_col C ''name''" "''name'' \<in> set (uniq_cols C)" "M \<noteq> 0 \<Longrightarrow> plain_col C ''mother_id''"
  using assms by (simp_all add: cfg_env_def named_def)

lemma plain_col_column: "plain_col C c \<Longrightarrow> c \<in> set (columns C)"
  by (auto simp: plain_col_def columns_def)

lemma rmap_split: "rmap f (xs @ x # ys) = Inr zs \<Longrightarrow> \<exists>us v ws. zs = us @ v # ws \<and> rmap f xs = Inr us \<and> f x = Inr v"
  by (auto simp: rmap_append rbind_eq_Inr)

lemma d_get_skip: "k \<notin> fst ` set us \<Longrightarrow> d_get (us @ (k, v) # ws) k = Some v"
  by (induction us) auto

lemma row_col:
  assumes "plain_col C c" "index_row C ob = Inr r" "d_get (o_props ob) c = Some v"
  shows "row_val r c = Some (sql_val v)"
proof -
  obtain fs f gs where f: "c_fields C = fs @ f # gs" "c \<notin> if_name ` set fs" "if_name f = c" "if_attr f = []" "\<not> if_numeric f"
    and c: "c \<noteq> ''id''" "c \<noteq> ''nid''" using assms(1) by (auto simp: plain_col_def)
  obtain i cols where r: "rmap (col_val (c_env C) ob) (c_fields C) = Inr cols" "r = \<lparr>r_id = i, r_nid = o_nid ob, r_cols = cols\<rparr>"
    using assms(2) by (auto simp: index_row_def rbind_eq_Inr py_assert_def split: option.splits if_splits)
  obtain us w ws where u: "cols = us @ w # ws" "rmap (col_val (c_env C) ob) fs = Inr us" "col_val (c_env C) ob f = Inr w"
    using rmap_split [OF r(1) [unfolded f(1)]] by blast
  have w: "w = (c, sql_val v)" using u(3) f assms(3) by (simp add: col_val_def)
  have "fst z \<in> if_name ` set fs" if "z \<in> set us" for z
    using rmap_Inr_elem [OF u(2) that] by (auto simp: col_val_def rbind_eq_Inr)
  then have "c \<notin> fst ` set us" using f(2) by force
  then show ?thesis using c by (simp add: row_val_def r(2) u(1) w d_get_skip)
qed

lemma row_id: "index_row C ob = Inr r \<Longrightarrow> o_id ob = Some (r_id r)"
  by (auto simp: index_row_def rbind_eq_Inr py_assert_def split: option.splits if_splits)

lemma index_set_row:
  assumes "itable_laws (uniq_cols C) (c_tab C)" "index_set C ob s = (s', Inr ())"
  shows "\<exists>r. index_row C ob = Inr r \<and> r \<in> set (x_rows (c_tab C) (b_tab s'))"
proof -
  let ?X = "c_tab C" and ?t = "b_tab s"
  obtain r where r: "index_row C ob = Inr r" using assms(2) by (cases "index_row C ob") (auto simp: index_set_def sql_index_set_def ebind_app)
  let ?z = "x_select ?X ?t [(''id'', PInt (r_id r))]"
  obtain t' where t': "(if ?z = [] then x_create ?X ?t r else x_update ?X ?t r) = Some t'" "s' = s\<lparr>b_tab := t'\<rparr>"
    using assms(2) r by (auto simp: index_set_def sql_index_set_def ebind_app split: option.splits)
  have "r \<in> set (x_rows ?X t')"
  proof (cases "?z = []")
    case True
    with t' itable_create [OF assms(1), of ?t r t'] show ?thesis by simp
  next
    case False
    then obtain q where "q \<in> set (x_rows ?X ?t)" "r_id q = r_id r"
      using itable_select [OF assms(1)] by (auto simp: filter_empty_conv row_matches_id [OF assms(1)])
    with False t' itable_update [OF assms(1), of ?t r t'] show ?thesis by (auto simp: image_iff)
  qed
  with r t'(2) show ?thesis by simp
qed

lemma filter_single:
  "sorted_wrt (\<lambda>a b. \<not> R b a) xs \<Longrightarrow> (\<And>a b. P a \<Longrightarrow> P b \<Longrightarrow> R a b) \<Longrightarrow> x \<in> set xs \<Longrightarrow> P x \<Longrightarrow> filter P xs = [x]"
proof (induction xs)
  case (Cons y ys)
  show ?case
  proof (cases "P y")
    case True
    then have "\<forall>z\<in>set ys. \<not> P z" using Cons.prems(1,2) by auto
    with True Cons.prems(3,4) show ?thesis by (auto simp: filter_empty_conv)
  next
    case False
    with Cons show ?thesis by auto
  qed
qed simp

definition name_ids :: "('a, 'b, 'c, 't) bconf \<Rightarrow> string \<Rightarrow> ('a, 'b, 'c, 't) bstate \<Rightarrow> int list" where
  "name_ids C n b = map r_id (filter (\<lambda>r. row_val r ''name'' = Some (PStr n)) (x_rows (c_tab C) (b_tab b)))"

definition own_ids :: "('a, 'b, 'c, 't) bconf \<Rightarrow> int \<Rightarrow> string \<Rightarrow> ('a, 'b, 'c, 't) bstate \<Rightarrow> int list" where
  \<comment> \<open>the rows with the name that belong to the object above the collection\<close>
  "own_ids C M n b = map r_id (filter (row_matches (c_tab C) (kwargs_update M [(''name'', PStr n)])) (x_rows (c_tab C) (b_tab b)))"

lemma own_match:
  assumes "cfg_env C M"
  shows "row_matches (c_tab C) (kwargs_update M [(''name'', PStr n)]) r \<longleftrightarrow> row_val r ''name'' = Some (PStr n)
    \<and> (M = 0 \<or> (case row_val r ''mother_id'' of None \<Rightarrow> False | Some w \<Rightarrow> x_eq (c_tab C) ''mother_id'' w (PInt M)))"
  using itable_eq [OF cfg_envD(3) [OF assms]] by (auto simp: row_matches_def kwargs_update_def split: option.splits)

lemma find_own:
  assumes "cfg_env C M"
  shows "find_ids C None None None (kwargs_update M [(''name'', PStr n)]) b = (b, Inr (own_ids C M n b))"
  using plain_col_column [OF cfg_envD(7) [OF assms]] plain_col_column [OF cfg_envD(9) [OF assms]] itable_select [OF cfg_envD(3) [OF assms]]
  by (auto simp: find_ids_def find_query_def own_ids_def kwargs_update_def)

lemma name_ids_row:
  assumes "cfg_env C M" "tab_wf C b" "r \<in> set (x_rows (c_tab C) (b_tab b))" "row_val r ''name'' = Some (PStr n)"
  shows "filter (\<lambda>r. row_val r ''name'' = Some (PStr n)) (x_rows (c_tab C) (b_tab b)) = [r]"
proof (rule filter_single [where R = "row_conflict (uniq_cols C)"])
  show "sorted_wrt (\<lambda>a b. \<not> row_conflict (uniq_cols C) b a) (x_rows (c_tab C) (b_tab b))" using assms(2) by (simp add: tab_wf_def)
  show "row_conflict (uniq_cols C) p q" if "row_val p ''name'' = Some (PStr n)" "row_val q ''name'' = Some (PStr n)" for p q
    using that cfg_envD(8) [OF assms(1)] by (force simp: row_conflict_def list_ex_iff)
qed (use assms(3,4) in auto)

lemma own_filter:
  assumes "cfg_env C M"
  shows "own_ids C M n b = map r_id (filter (\<lambda>r. M = 0 \<or> (case row_val r ''mother_id'' of None \<Rightarrow> False
      | Some w \<Rightarrow> x_eq (c_tab C) ''mother_id'' w (PInt M))) (filter (\<lambda>r. row_val r ''name'' = Some (PStr n)) (x_rows (c_tab C) (b_tab b))))"
proof -
  have "row_matches (c_tab C) (kwargs_update M [(''name'', PStr n)]) = (\<lambda>r. row_val r ''name'' = Some (PStr n)
    \<and> (M = 0 \<or> (case row_val r ''mother_id'' of None \<Rightarrow> False | Some w \<Rightarrow> x_eq (c_tab C) ''mother_id'' w (PInt M))))"
    by (rule ext) (rule own_match [OF assms])
  then show ?thesis by (simp add: own_ids_def conj_commute)
qed

lemma own_ids_none: "cfg_env C M \<Longrightarrow> name_ids C n b = [] \<Longrightarrow> own_ids C M n b = []"
  by (simp add: own_filter name_ids_def)

lemma saved_named:
  assumes "object_save C ob True b = (b', Inr ob')" "cfg_env C M" "own_obj C ob" "o_nid ob \<noteq> 0" "o_id ob = None"
    "st_wf (b_store b)" "tab_wf C b" "d_get (o_props ob) ''name'' = Some (PStr n)"
  shows "\<exists>k>0. ob' = (with_acl ob)\<lparr>o_id := Some k\<rparr> \<and> st_wf (b_store b') \<and> tab_wf C b' \<and> name_ids C n b' = [k]
    \<and> (M = 0 \<or> d_get (o_props ob) ''mother_id'' = Some (PInt M) \<longrightarrow> own_ids C M n b' = [k])
    \<and> model_get C k True b' = (b', Inr (Some ob'))"
proof -
  note e = cfg_envD [OF assms(2)]
  have m: "model_set C ob True True b = (b', Inr ob')" using object_save_sets [OF assms(1) e(5)] .
  obtain s1 where s1: "model_set C ob False True b = (s1, Inr ob')" "index_set C ob' s1 = (b', Inr ())"
    using model_set_returns [OF m e(1) _ assms(4)] assms(3) by (auto simp: own_obj_def)
  have kn: "known_id b ob" using assms(5) by (simp add: known_id_def)
  obtain k where k: "0 < k" "ob' = (with_acl ob)\<lparr>o_id := Some k\<rparr>" "st_wf (b_store s1)"
    "\<And>s2 die. b_store s2 = b_store s1 \<Longrightarrow> model_get C k die s2 = (s2, Inr (Some ob'))"
    using model_set_stored [OF s1(1) e(1,2) assms(3,4,6) kn] by blast
  have st: "b_store b' = b_store s1" by (rule index_set_store [OF s1(2)])
  have wf: "tab_wf C b'" by (rule keepsD [OF keeps_model_set [OF e(3)] assms(7) m])
  obtain r where r: "index_row C ob' = Inr r" "r \<in> set (x_rows (c_tab C) (b_tab b'))" using index_set_row [OF e(3) s1(2)] by blast
  have nm: "d_get (o_props ob') ''name'' = Some (PStr n)" using assms(8) k(2) by simp
  have rn: "row_val r ''name'' = Some (PStr n)" using row_col [OF e(7) r(1) nm] by (simp add: sql_val_def)
  have i: "r_id r = k" using row_id [OF r(1)] k(2) by simp
  note one = name_ids_row [OF assms(2) wf r(2) rn]
  have "name_ids C n b' = [k]" using one i by (simp add: name_ids_def)
  moreover have "own_ids C M n b' = [k]" if "M = 0 \<or> d_get (o_props ob) ''mother_id'' = Some (PInt M)"
  proof (cases "M = 0")
    case True
    show ?thesis unfolding own_filter [OF assms(2)] one using i True by simp
  next
    case False
    have "row_val r ''mother_id'' = Some (sql_val (PInt M))"
      by (rule row_col [OF e(9) [OF False] r(1)]) (use that False k(2) in simp)
    then show ?thesis unfolding own_filter [OF assms(2)] one using itable_eq(3) [OF e(3)] i by (simp add: sql_val_def)
  qed
  ultimately show ?thesis using k st wf by auto
qed

section \<open>A configuration object is found again\<close>

definition made_of :: "('a, 'b, 'c, 't) bconf \<Rightarrow> int \<Rightarrow> string \<Rightarrow> props \<Rightarrow> jobj \<Rightarrow> bool" where
  \<comment> \<open>the new object of these properties, whose bytes can be read back\<close>
  "made_of C M name kw ob = (map_sum id (with_mother M) (model_new C (d_set kw ''name'' (PStr name)) 1) = Inr ob
     \<and> own_obj C ob \<and> o_nid ob \<noteq> 0 \<and> o_id ob = None)"

definition has_mother :: "int \<Rightarrow> jobj \<Rightarrow> bool" where
  "has_mother M ob = (M = 0 \<or> d_get (o_props ob) ''mother_id'' = Some (PInt M))"

lemma with_mother_simps [simp]: "o_id (with_mother M ob) = o_id ob" "o_nid (with_mother M ob) = o_nid ob" "obj_name (with_mother M ob) = obj_name ob"
  "has_mother M (with_mother M ob)"
  by (simp_all add: with_mother_def obj_name_def has_mother_def)

lemma with_mother_same: "has_mother M ob \<Longrightarrow> with_mother M ob = ob"
proof -
  have "d_set d k v = d" if "d_get d k = Some v" for d and k :: string and v :: pyval
    using that by (induction d k v rule: d_set.induct) (auto split: if_splits)
  then show "has_mother M ob \<Longrightarrow> with_mother M ob = ob" by (auto simp: has_mother_def with_mother_def)
qed

lemma has_mother_props: "o_props ob = o_props ob' \<Longrightarrow> has_mother M ob = has_mother M ob'"
  by (simp add: has_mother_def)

lemma obj_name_some: "name \<noteq> [] \<Longrightarrow> obj_name ob = name \<Longrightarrow> d_get (o_props ob) ''name'' = Some (PStr name)"
  by (auto simp: obj_name_def split: option.splits pyval.splits)

lemma obj_name_props: "o_props ob = o_props ob' \<Longrightarrow> obj_name ob = obj_name ob'"
  by (simp add: obj_name_def)

lemma validate_none: "d_get (cf_children s) n = None \<Longrightarrow> validate_child C M n s = (s, Inr None)"
  by (simp add: validate_child_def)

lemma validate_same: "d_get (cf_children s) n = Some ob \<Longrightarrow> obj_name ob = n \<Longrightarrow> validate_child C M n s = (s, Inr (Some ob))"
  by (simp add: validate_child_def)

lemma validate_some: "d_get (cf_children s) n = Some ob \<Longrightarrow> validate_child C M n s = (t, Inr c) \<Longrightarrow> c \<noteq> None"
  by (auto simp: validate_child_def ebind_eq_Inr Let_def split: if_splits) metis

lemma count_run:
  assumes "cfg_env C M"
  shows "cfg_count C M [(''name'', PStr n)] s = (s, Inr (length (own_ids C M n (cf_model s))))"
  using find_own [OF assms, of n "cf_model s"] by (simp add: cfg_count_def ebind_app on_model_def)

lemma exists_none:
  assumes "cfg_env C M" "d_get (cf_children s) n = None"
  shows "cfg_exists C M n s = (s, if length (own_ids C M n (cf_model s)) = 1 then Inr True
    else if own_ids C M n (cf_model s) = [] then Inr False else Inl E_Base)"
  by (simp add: cfg_exists_def ebind_app validate_none [OF assms(2)] count_run [OF assms(1)])

lemma exists_same:
  assumes "d_get (cf_children s) n = Some ob" "obj_name ob = n"
  shows "cfg_exists C M n s = (s, Inr True)"
  by (simp add: cfg_exists_def ebind_app validate_same [OF assms])

lemma exists_false:
  assumes "cfg_exists C M n s = (s1, Inr False)" "cfg_env C M"
  shows "d_get (cf_children s) n = None \<and> s1 = s"
proof (cases "d_get (cf_children s) n")
  case None
  with assms(1) exists_none [OF assms(2) None] show ?thesis by simp
next
  case (Some ob)
  obtain t c where v: "validate_child C M n s = (t, Inr c)" "(if c \<noteq> None then ereturn True
     else ebind (cfg_count C M [(''name'', PStr n)]) (\<lambda>r.
       if r = 1 then ereturn True else if r = 0 then ereturn False else eraise E_Base)) t = (s1, Inr False)"
    using assms(1) unfolding cfg_exists_def ebind_eq_Inr by blast
  with validate_some [OF Some v(1)] show ?thesis by simp
qed

lemma new_saved:
  assumes "cfg_new C M name kw s = (s', Inr ob)" "cfg_env C M" "cfg_ok C s" "made_of C M name kw ob0"
  shows "\<exists>k>0. name \<noteq> [] \<and> obj_name ob = name \<and> has_mother M ob \<and> d_get (cf_children s') name = Some ob \<and> cfg_ok C s' \<and> o_id ob = Some k
    \<and> own_ids C M name (cf_model s') = [k] \<and> name_ids C name (cf_model s') = [k]
    \<and> model_get C k True (cf_model s') = (cf_model s', Inr (Some ob)) \<and> ob = (with_acl ob0)\<lparr>o_id := Some k\<rparr>"
proof -
  have ne: "name \<noteq> []" using assms(1) by (auto simp: cfg_new_def split: if_splits)
  with assms(1) obtain s1 where x: "cfg_exists C M name s = (s1, Inr False)"
    and c: "ebind (cfg_create C M name None kw) (\<lambda>ob. ebind (cfg_check M ob) (\<lambda>_. ereturn ob)) s1 = (s', Inr ob)"
    unfolding cfg_new_def by (auto simp: ebind_eq_Inr split: if_splits)
  from exists_false [OF x assms(2)] have s1: "s1 = s" by simp
  obtain s2 where cr: "cfg_create C M name None kw s = (s2, Inr ob)" and ch: "cfg_check M ob s2 = (s', Inr ())"
    using c by (auto simp: ebind_eq_Inr s1)
  have s2: "s' = s2" using ch by (auto simp: cfg_check_def ebind_eq_Inr split: option.splits if_splits)
  obtain ob1 where m: "model_new C (d_set kw ''name'' (PStr name)) 1 = Inr ob1" "ob0 = with_mother M ob1" "own_obj C ob0" "o_nid ob0 \<noteq> 0" "o_id ob0 = None"
    using assms(4) by (auto simp: made_of_def map_sum_def split: sum.splits)
  have id1: "o_id ob1 = None" using m(2,5) by simp
  have n1: "obj_name ob1 = name" using cr ne m(1) by (auto simp: cfg_create_def ebind_app py_assert_def split: if_splits)
  then have n0: "obj_name ob0 = name" by (simp add: m(2))
  obtain b where sv: "object_save C ob0 True (cf_model s) = (b, Inr ob)" "s' = s\<lparr>cf_model := b, cf_children := d_set (cf_children s) name ob\<rparr>"
    using cr ne m(1) n1 id1 unfolding s2 m(2)
    by (auto simp: cfg_create_def ebind_app on_model_def put_child_def py_assert_def Let_def split: prod.splits sum.splits if_splits)
  have nm: "d_get (o_props ob0) ''name'' = Some (PStr name)" by (rule obj_name_some [OF ne n0])
  have hm: "has_mother M ob0" by (simp add: m(2))
  obtain k where k: "0 < k" "ob = (with_acl ob0)\<lparr>o_id := Some k\<rparr>" "st_wf (b_store b)" "tab_wf C b" "name_ids C name b = [k]"
    "own_ids C M name b = [k]" "model_get C k True b = (b, Inr (Some ob))"
    using saved_named [OF sv(1) assms(2) m(3,4,5) _ _ nm] assms(3) hm by (auto simp: cfg_ok_def has_mother_def)
  have "obj_name ob = name" "has_mother M ob" using n0 hm obj_name_props [of ob ob0] has_mother_props [of ob ob0] k(2) by simp_all
  with k ne sv(2) show ?thesis by (auto simp: cfg_ok_def)
qed

lemma check_mother: "has_mother M ob \<Longrightarrow> o_id ob = Some k \<Longrightarrow> 0 < k \<Longrightarrow> cfg_check M ob s = (s, Inr ())"
  by (auto simp: cfg_check_def has_mother_def ebind_app py_assert_def)

lemma lookup_restarted:
  assumes "cfg_env C M" "own_ids C M n (cf_model s) = [k]" "model_get C k True (cf_model s) = (cf_model s, Inr (Some ob))"
    and "obj_name ob = n" "n \<noteq> []" "o_id ob = Some k" "0 < k" "has_mother M ob"
  shows "cfg_lookup C M n die (restarted s) = (s\<lparr>cf_children := [(n, ob)]\<rparr>, Inr (Some ob))"
proof -
  have f: "on_model (find_ids C None None None (kwargs_update M [(''name'', PStr n)])) (restarted s) = (restarted s, Inr [k])"
    using find_own [OF assms(1), of n "cf_model s"] by (simp add: on_model_def restarted_def assms(2))
  have g: "on_model (model_get C k True) (restarted s) = (restarted s, Inr (Some ob))"
    using assms(3) by (simp add: on_model_def restarted_def)
  have "cfg_create C M n (Some ob) [] (restarted s) = (s\<lparr>cf_children := [(n, ob)]\<rparr>, Inr ob)"
    using assms(4-6) by (simp add: cfg_create_def ebind_app with_mother_same [OF assms(8)] put_child_def py_assert_def Let_def) (simp add: restarted_def)
  then have b: "cfg_by_id C M k (restarted s) = (s\<lparr>cf_children := [(n, ob)]\<rparr>, Inr ob)"
    using assms(4) by (simp add: cfg_by_id_def ebind_app g check_mother [OF assms(8,6,7)])
  have "cfg_find C M [(''name'', PStr n)] (restarted s) = (s\<lparr>cf_children := [(n, ob)]\<rparr>, Inr [ob])"
    by (simp add: cfg_find_def ebind_app f b) (simp add: restarted_def ebind_app b [unfolded restarted_def])
  moreover have "validate_child C M n (restarted s) = (restarted s, Inr None)" by (rule validate_none) (simp add: restarted_def)
  ultimately show ?thesis by (simp add: cfg_lookup_def ebind_app)
qed

lemma lookup_same:
  assumes "d_get (cf_children s) n = Some ob" "obj_name ob = n"
  shows "cfg_lookup C M n die s = (s, Inr (Some ob))"
  by (simp add: cfg_lookup_def ebind_app validate_same [OF assms])

lemma get_of_lookup:
  assumes "cfg_lookup C M name die s = (t, Inr (Some ob))" "replace_str ''__'' ''.'' name = name" "name \<noteq> []" "o_id ob = Some k" "0 < k" "has_mother M ob"
  shows "cfg_get C M clean name die [] s = (t, Inr ob)"
  using assms(1-3) by (simp add: cfg_get_def Let_def ebind_app set_props_def check_mother [OF assms(6,4,5)])

text \<open>C15: A configuration object that was made exists under its name and cannot be made a second time, in the same process and in
  every later one. When the name has no two underscores in a row, getting it gives the object, in the same process and, read
  back from the database, in every later one (two underscores are read as a dot by \<^verbatim>\<open>get\<close> and not by \<^verbatim>\<open>new\<close>, so that an object
  with such a name is not what getting the name gives). The collection may belong to another object: its id \<open>M\<close> is then kept
  in the object.\<close>

theorem config_found_again:
  assumes "cfg_new C M name kw s = (s', Inr ob)" "cfg_env C M" "cfg_ok C s" "made_of C M name kw ob0"
  shows "o_props ob = o_props ob0 \<and> cfg_exists C M name s' = (s', Inr True) \<and> cfg_new C M name kw' s' = (s', Inl E_Base)
    \<and> cfg_exists C M name (restarted s') = (restarted s', Inr True) \<and> cfg_new C M name kw' (restarted s') = (restarted s', Inl E_Base)
    \<and> (replace_str ''__'' ''.'' name = name \<longrightarrow> cfg_get C M clean name die [] s' = (s', Inr ob)
        \<and> cfg_get C M clean name die [] (restarted s') = (s'\<lparr>cf_children := [(name, ob)]\<rparr>, Inr ob))"
proof -
  obtain k where k: "0 < k" "name \<noteq> []" "obj_name ob = name" "d_get (cf_children s') name = Some ob" "o_id ob = Some k"
    "own_ids C M name (cf_model s') = [k]" "model_get C k True (cf_model s') = (cf_model s', Inr (Some ob))" "ob = (with_acl ob0)\<lparr>o_id := Some k\<rparr>"
    "has_mother M ob"
    using new_saved [OF assms] by blast
  have pr: "o_props ob = o_props ob0" by (simp add: k(8))
  note x = exists_same [OF k(4,3), of C M]
  have "d_get (cf_children (restarted s')) name = None" "cf_model (restarted s') = cf_model s'" by (simp_all add: restarted_def)
  with exists_none [OF assms(2) this(1)] k(6) have xr: "cfg_exists C M name (restarted s') = (restarted s', Inr True)" by simp
  have new: "cfg_new C M name kw' t = (t, Inl E_Base)" if "cfg_exists C M name t = (t, Inr True)" for t
    using that k(2) by (simp add: cfg_new_def ebind_app)
  show ?thesis
    using pr x xr new get_of_lookup [OF lookup_same [OF k(4,3)] _ k(2,5,1,9)]
      get_of_lookup [OF lookup_restarted [OF assms(2) k(6,7,3,2,5,1,9)] _ k(2,5,1,9)] by simp
qed

definition blank_ok :: "('a, 'b, 'c, 't) bconf \<Rightarrow> string \<Rightarrow> bool" where
  \<comment> \<open>an object that has only its name is read back from its bytes\<close>
  "blank_ok C name = (\<forall>ps. e_new (c_env C) [] = Inr ps \<longrightarrow> (let qs = d_set ps ''name'' (PStr name) in
     e_uncapnp (c_env C) (c_md5 C) (e_capnp (c_env C) (c_md5 C) qs) = Inr qs))"

lemma delete_obj_ids:
  assumes "object_delete C False ob b = (b', Inr ())" "cfg_env C M" "o_nid ob \<noteq> 0" "o_id ob = Some k" "0 < k" "st_wf (b_store b)" "tab_wf C b"
  shows "st_wf (b_store b') \<and> tab_wf C b' \<and> name_ids C n b' = filter (\<lambda>i. i \<noteq> k) (name_ids C n b)"
proof -
  note e = cfg_envD [OF assms(2)]
  have d: "delete_obj C ob b = (b', Inr ())" using assms(1) e by (simp add: object_delete_def trig_quiet)
  then have "ebind (store_delete k) (\<lambda>_. index_delete_by_id C k) b = (b', Inr ())"
    using e(1) assms(4) by (auto simp: delete_obj_def trig_quiet split: if_splits)
  then obtain st where st: "st_delete (b_store b) k = Inr st"
    "b' = b\<lparr>b_store := st, b_tab := x_delete (c_tab C) (b_tab b) (\<lambda>r. r_id r = k)\<rparr>"
    by (auto simp: delete_run split: sum.splits)
  have rows: "x_rows (c_tab C) (b_tab b') = filter (\<lambda>r. r_id r \<noteq> k) (x_rows (c_tab C) (b_tab b))"
    using itable_delete [OF e(3)] by (simp add: st(2))
  have "name_ids C n b' = filter (\<lambda>i. i \<noteq> k) (name_ids C n b)"
    by (simp add: rows name_ids_def filter_map o_def conj_commute)
  moreover have "tab_wf C b'" using assms(7) by (simp add: tab_wf_def rows sorted_wrt_filter)
  ultimately show ?thesis using st.del_key [OF assms(6,5) st(1)] st(2) by simp
qed

text \<open>C19: A configuration object that is deleted is gone: its name no longer exists, in the same process and in every later one. On the
  way the object is stored a second time with nothing but its name, when it saves itself, and deleted again (so such an object
  must be readable). The collection is not a factory as well: a factory keeps the child.\<close>

theorem config_deleted:
  assumes "cfg_new C M name kw s = (s1, Inr ob)" "cfg_env C M" "cfg_ok C s" "made_of C M name kw ob0" "blank_ok C name"
    and "t \<in> {s1, restarted s1}" "cfg_delete C M auto False name t = (t', Inr ())"
  shows "cfg_exists C M name t' = (t', Inr False) \<and> cfg_exists C M name (restarted t') = (restarted t', Inr False)"
proof -
  obtain k where k: "0 < k" "name \<noteq> []" "obj_name ob = name" "d_get (cf_children s1) name = Some ob" "o_id ob = Some k"
    "own_ids C M name (cf_model s1) = [k]" "model_get C k True (cf_model s1) = (cf_model s1, Inr (Some ob))" "ob = (with_acl ob0)\<lparr>o_id := Some k\<rparr>"
    "has_mother M ob" "name_ids C name (cf_model s1) = [k]" "cfg_ok C s1"
    using new_saved [OF assms(1-4)] by blast
  note e = cfg_envD [OF assms(2)]
  have own0: "own_obj C ob0" and nid: "o_nid ob \<noteq> 0" using assms(4) by (simp_all add: made_of_def k(8))
  have wf: "st_wf (b_store (cf_model s1))" "tab_wf C (cf_model s1)" using k(11) by (simp_all add: cfg_ok_def)
  define t1 where "t1 = (if t = s1 then s1 else s1\<lparr>cf_children := [(name, ob)]\<rparr>)"
  have l: "cfg_lookup C M name False t = (t1, Inr (Some ob))" and m: "cf_model t1 = cf_model s1"
    using assms(6) lookup_same [OF k(4,3)] lookup_restarted [OF assms(2) k(6,7,3,2,5,1,9)] by (auto simp: t1_def)
  have run: "ebind (on_model (object_delete C False ob)) (\<lambda>_. ebind (elift (emptied C ob)) (\<lambda>ob1. ebind (keep_name C auto name ob1) (\<lambda>ob2.
      ebind (forget_child False (obj_name ob2)) (\<lambda>_. ebind (eassert (obj_name ob2 \<noteq> [])) (\<lambda>_. delete_again C ob2))))) t1 = (t', Inr ())"
    using assms(7) k(2,3) by (simp add: cfg_delete_def cfg_delete_name_def ebind_app l)
  obtain b where b: "object_delete C False ob (cf_model s1) = (b, Inr ())"
    and run1: "ebind (elift (emptied C ob)) (\<lambda>ob1. ebind (keep_name C auto name ob1) (\<lambda>ob2.
      ebind (forget_child False (obj_name ob2)) (\<lambda>_. ebind (eassert (obj_name ob2 \<noteq> [])) (\<lambda>_. delete_again C ob2)))) (t1\<lparr>cf_model := b\<rparr>) = (t', Inr ())"
    using run by (auto simp: ebind_app on_model_def m split: prod.splits sum.splits)
  have wb: "st_wf (b_store b)" "tab_wf C b" "name_ids C name b = []"
    using delete_obj_ids [OF b assms(2) nid k(5,1) wf, of name] k(10) by auto
  obtain ps where ps: "e_new (c_env C) [] = Inr ps" using run1 e(5) by (cases "e_new (c_env C) []") (auto simp: emptied_def ebind_app)
  let ?ob = "ob\<lparr>o_id := None, o_props := ps\<rparr>"
  have run2: "ebind (keep_name C auto name ?ob) (\<lambda>ob2.
      ebind (forget_child False (obj_name ob2)) (\<lambda>_. ebind (eassert (obj_name ob2 \<noteq> [])) (\<lambda>_. delete_again C ob2))) (t1\<lparr>cf_model := b\<rparr>) = (t', Inr ())"
    using run1 e(5) ps by (simp add: emptied_def)
  obtain b2 where t': "cf_model t' = b2" "cf_children t' = d_pop (cf_children t1) name" "name_ids C name b2 = []"
  proof (cases "obj_name ?ob = name \<or> \<not> auto")
    case True
    let ?q = "if obj_name ?ob = name then ?ob else with_name name ?ob"
    have "keep_name C auto name ?ob x = (x, Inr ?q)" for x using True by (auto simp: keep_name_def)
    moreover have "obj_name ?q = name" "o_id ?q = None" using True by (auto simp: with_name_def obj_name_def)
    ultimately have "t' = t1\<lparr>cf_model := b, cf_children := d_pop (cf_children t1) name\<rparr>"
      using run2 k(2) by (auto simp: ebind_app forget_child_def drop_child_def delete_again_def py_assert_def)
    then show thesis using wb(3) by (intro that [of b]) simp_all
  next
    case False
    let ?q = "with_name name ?ob"
    have kn: "keep_name C auto name ?ob x = on_model (object_save C ?q True) x" for x using False by (simp add: keep_name_def)
    obtain b1 q where q: "object_save C ?q True b = (b1, Inr q)"
      using run2 by (cases "object_save C ?q True b") (auto simp: ebind_app kn on_model_def split: sum.splits)
    have own: "own_obj C ?q"
      using own0 assms(5) ps by (auto simp: own_obj_def blank_ok_def with_name_def with_acl_def k(8) Let_def)
    have qn: "o_nid ?q \<noteq> 0" "o_id ?q = None" "d_get (o_props ?q) ''name'' = Some (PStr name)" using nid by (simp_all add: with_name_def)
    obtain k2 where k2: "0 < k2" "q = (with_acl ?q)\<lparr>o_id := Some k2\<rparr>" "st_wf (b_store b1)" "tab_wf C b1" "name_ids C name b1 = [k2]"
      "model_get C k2 True b1 = (b1, Inr (Some q))"
      using saved_named [OF q assms(2) own qn(1,2) wb(1,2) qn(3)] by blast
    have q2: "obj_name q = name" "o_id q = Some k2" "o_nid q \<noteq> 0" using k2(2) qn by (simp_all add: with_name_def obj_name_def)
    obtain b2 where b2: "object_delete C False q b1 = (b2, Inr ())" "t' = t1\<lparr>cf_model := b2, cf_children := d_pop (cf_children t1) name\<rparr>"
      using run2 k(2) k2(1,6) q2(1,2) q
      by (auto simp: ebind_app kn on_model_def forget_child_def drop_child_def delete_again_def py_assert_def split: prod.splits sum.splits)
    have "name_ids C name b2 = []" using delete_obj_ids [OF b2(1) assms(2) q2(3,2) k2(1,3,4), of name] k2(5) by simp
    then show thesis using b2(2) by (intro that [of b2]) simp_all
  qed
  have ids: "own_ids C M name (cf_model t') = []" using own_ids_none [OF assms(2) t'(3)] t'(1) by simp
  have c: "d_get (cf_children t') name = None" by (simp add: t'(2))
  have "d_get (cf_children (restarted t')) name = None" "cf_model (restarted t') = cf_model t'" by (simp_all add: restarted_def)
  with exists_none [OF assms(2) c] exists_none [OF assms(2) this(1)] ids show ?thesis by simp
qed

section \<open>A collection on the memory stores\<close>

definition mem_cfgs :: "(memsrv, memtab, memzdb, irow list) cfgs" where
  "mem_cfgs = \<lparr>cf_model = mem_start [], cf_children = []\<rparr>"

lemma mem_cfg_env: "cfg_env mem_conf 0"
proof -
  have "named mem_conf" unfolding named_def plain_col_def by (intro conjI exI [of _ "[]"]) (simp_all add: mem_conf_def uniq_cols_def)
  moreover have "\<not> c_readonly mem_conf" by code_simp
  ultimately show ?thesis using quiet_mem plain_env_laws itable_mem by (simp add: cfg_env_def)
qed

lemma mem_blank: "blank_ok mem_conf n"
  by (simp add: blank_ok_def plain_env_def name_bytes_def encode_def o_def)

lemma mem_cfg_ok: "cfg_ok mem_conf mem_cfgs"
  using wf_mem [of "[]"] by (simp add: cfg_ok_def mem_cfgs_def tab_wf_def mem_start_def mem_itable_def)

lemma mem_made: "made_of mem_conf 0 ''x'' [] ((named_obj ''x'')\<lparr>o_acl := Some 0\<rparr>)"
proof -
  have "model_new mem_conf (d_set [] ''name'' (PStr ''x'')) 1 = Inr ((named_obj ''x'')\<lparr>o_acl := Some 0\<rparr>)" by code_simp
  then show ?thesis using own_named [of "''x''"] by (simp add: made_of_def own_obj_def with_mother_def) (simp add: named_obj_def)
qed

lemma mem_new: obtains s1 ob where "cfg_new mem_conf 0 ''x'' [] mem_cfgs = (s1, Inr ob)"
proof -
  have "run_ok (cfg_new mem_conf 0 ''x'' [] mem_cfgs)" by code_simp
  then show ?thesis using that by (rule run_okE)
qed

theorem config_found_again_witness:
  "\<exists>s' ob. cfg_new mem_conf 0 ''x'' [] mem_cfgs = (s', Inr ob) \<and> o_props ob = [(''name'', PStr ''x'')]
     \<and> cfg_get mem_conf 0 (\<lambda>k. Inr) ''x'' True [] (restarted s') = (s'\<lparr>cf_children := [(''x'', ob)]\<rparr>, Inr ob)"
proof -
  obtain s' ob where n: "cfg_new mem_conf 0 ''x'' [] mem_cfgs = (s', Inr ob)" by (rule mem_new)
  have "replace_str ''__'' ''.'' ''x'' = ''x''" by code_simp
  with config_found_again [OF n mem_cfg_env mem_cfg_ok mem_made] n show ?thesis by (auto simp: named_obj_def)
qed

theorem config_deleted_witness:
  "\<exists>s1 ob t'. cfg_new mem_conf 0 ''x'' [] mem_cfgs = (s1, Inr ob) \<and> cfg_delete mem_conf 0 True False ''x'' s1 = (t', Inr ())
     \<and> cfg_exists mem_conf 0 ''x'' t' = (t', Inr False)"
proof -
  have "run_ok (ebind (cfg_new mem_conf 0 ''x'' []) (\<lambda>ob. cfg_delete mem_conf 0 True False ''x'') mem_cfgs)" by code_simp
  then obtain t' u where "ebind (cfg_new mem_conf 0 ''x'' []) (\<lambda>ob. cfg_delete mem_conf 0 True False ''x'') mem_cfgs = (t', Inr u)" by (rule run_okE)
  then obtain s1 ob where n: "cfg_new mem_conf 0 ''x'' [] mem_cfgs = (s1, Inr ob)" "cfg_delete mem_conf 0 True False ''x'' s1 = (t', Inr ())"
    by (auto simp: ebind_eq_Inr)
  from config_deleted [OF n(1) mem_cfg_env mem_cfg_ok mem_made mem_blank _ n(2)] n show ?thesis by blast
qed

section \<open>Where the code does something else\<close>

text \<open>\<^verbatim>\<open>get\<close> reads two underscores in a name as a dot, and \<^verbatim>\<open>new\<close> does not: an object made with such a name is not the one that
  getting the name finds or makes.\<close>

lemma underscores_are_a_dot: "cfg_get C M clean ''a__b'' die kw = cfg_get C M clean ''a.b'' die kw"
proof -
  have "replace_str ''__'' ''.'' ''a__b'' = ''a.b''" "replace_str ''__'' ''.'' ''a.b'' = ''a.b''" by code_simp+
  then show ?thesis by (simp add: cfg_get_def)
qed

text \<open>A child that was renamed gets its old name back when it is looked up by it, and is saved with it.\<close>

lemma rename_undone:
  assumes "d_get (cf_children s) n = Some ob" "obj_name ob \<noteq> n" "validate_child C 0 n s = (t, Inr (Some ob'))"
  shows "\<exists>b. object_save C (with_name n ob) True (cf_model s) = (b, Inr ob') \<and> cf_model t = b"
  using assms
  by (auto simp: validate_child_def Let_def with_mother_def ebind_app put_child_def on_model_def drop_child_def split: prod.splits sum.splits)

text \<open>In a collection that is a factory as well, a deleted object still exists.\<close>

lemma factory_keeps_deleted:
  "snd (ebind (cfg_new mem_conf 0 ''x'' []) (\<lambda>ob. ebind (cfg_delete mem_conf 0 True True ''x'') (\<lambda>_. cfg_exists mem_conf 0 ''x'')) mem_cfgs) = Inr True"
  by code_simp

text \<open>An object that saves itself and has another indexed text is deleted with an error: the empty object that is stored once more
  on the way is refused, after the first one is gone.\<close>

definition two_texts :: "(memsrv, memtab, memzdb, irow list) bconf" where
  "two_texts = mem_conf\<lparr>c_fields := c_fields mem_conf @ [\<lparr>if_name = ''kind'', if_attr = [], if_numeric = False, if_unique = False, if_type = TextField\<rparr>],
     c_env := plain_env\<lparr>e_new := (\<lambda>ps. Inr (if ps = [] then [(''name'', PStr []), (''kind'', PStr [])] else ps))\<rparr>\<rparr>"

lemma delete_stops_half_way:
  "let r = cfg_delete_name two_texts 0 True False ''x'' \<lparr>cf_model = mem_start [], cf_children =
       [(''x'', (named_obj ''x'')\<lparr>o_id := Some 5, o_props := [(''name'', PStr ''x''), (''kind'', PStr ''k'')]\<rparr>)]\<rparr>
   in snd r = Inl E_Input"
  by code_simp

end
