(* ===== verification/Doubles.thy ===== *)
theory Doubles
  imports TimeData Bin
begin

text \<open>
  The eight bytes of a double (\<^verbatim>\<open>struct.pack("d", x)\<close> on a little-endian machine): sign, eleven bits of the exponent, 52 of the
  fraction. Every result of \<open>to_double\<close> is a multiple of a power of two that these bits can hold, and so is read back.
\<close>

definition field_bits :: "int \<Rightarrow> int \<Rightarrow> int" where
  \<comment> \<open>exponent and fraction of a number of at most 53 bits times a power of two; without the leading bit it is subnormal\<close>
  "field_bits m e = (if m < 2 ^ 52 then m else (e + 1075) * 2 ^ 52 + (m - 2 ^ 52))"

definition double_bits :: "pyfloat \<Rightarrow> int" where
  "double_bits f = (case f of
     NaN \<Rightarrow> 2047 * 2 ^ 52 + 2 ^ 51
   | Inf b \<Rightarrow> (if b then 2 ^ 63 else 0) + 2047 * 2 ^ 52
   | Fin q \<Rightarrow> if q = 0 then 0 else
       (let a = \<bar>q\<bar>; l = ilog2 a; e = max (l - 52) (- 1074); m = \<lfloor>a / pow2 e\<rfloor>
        in (if q < 0 then 2 ^ 63 else 0) + field_bits m e))"

definition double_of_bits :: "int \<Rightarrow> pyfloat" where
  "double_of_bits n =
     (let sg = n div 2 ^ 63 mod 2; x = n div 2 ^ 52 mod 2048; m = n mod 2 ^ 52;
          pos = (if x = 0 then of_int m * pow2 (- 1074) else of_int (2 ^ 52 + m) * pow2 (x - 1075))
      in if x = 2047 then if m = 0 then Inf (sg = 1) else NaN
         else Fin (if sg = 1 then - pos else pos))"

definition pack_d :: "pyfloat \<Rightarrow> bytes" where
  "pack_d f = le_bytes 8 (double_bits f)"

definition unpack_d :: "bytes \<Rightarrow> pyfloat res" where
  "unpack_d b = (if length b = 8 then Inr (double_of_bits (le_int b)) else Inl P_StructError)"

definition is_double :: "rat \<Rightarrow> bool" where
  "is_double q = (q = 0 \<or> (\<bar>q\<bar> < pow2 1024 \<and> (\<exists>m e. \<bar>q\<bar> = of_int m * pow2 e \<and> 0 < m \<and> m < 2 ^ 53 \<and> - 1074 \<le> e)))"

lemma to_double_is_double:
  assumes "to_double x = Fin q"
  shows "is_double q"
proof (cases "x = 0")
  case True
  then show ?thesis using assms by (simp add: to_double_def is_double_def)
next
  case False
  define a where "a = \<bar>x\<bar>"
  define e where "e = max (ilog2 a - 52) (- 1074)"
  define m where "m = round_half_even (a / pow2 e)"
  have a: "0 < a" using False by (simp add: a_def)
  have r: "\<not> pow2 1024 \<le> of_int m * pow2 e" "q = (if x < 0 then - (of_int m * pow2 e) else of_int m * pow2 e)"
    using assms False by (auto simp: to_double_def Let_def ilog2_def m_def e_def a_def split: prod.splits if_splits)
  have m: "0 \<le> m" "m \<le> 2 ^ 53"
  proof -
    have "0 \<le> a / pow2 e" using a by simp
    then have "0 \<le> \<lfloor>a / pow2 e\<rfloor>" by simp
    then show "0 \<le> m" using rhe_floor [of "a / pow2 e"] unfolding m_def by linarith
    have "a < pow2 (ilog2 a + 1)" by (rule ilog2_bounds(2) [OF a])
    also have "\<dots> \<le> pow2 (53 + e)" by (rule pow2_mono) (simp add: e_def)
    finally have "a / pow2 e < 2 ^ 53" by (simp add: pow2_add pos_divide_less_eq) (simp add: pow2_def)
    then have "\<lfloor>a / pow2 e\<rfloor> < 2 ^ 53" by (simp add: floor_less_iff)
    then show "m \<le> 2 ^ 53" unfolding m_def by (auto simp: round_half_even_def Let_def)
  qed
  have q: "\<bar>q\<bar> = of_int m * pow2 e" using r(2) m(1) by simp
  show ?thesis
  proof (cases "m = 0")
    case True
    then show ?thesis using q by (simp add: is_double_def)
  next
    case m0: False
    show ?thesis
    proof (cases "m = 2 ^ 53")
      case True
      have "\<bar>q\<bar> = of_int (2 ^ 52) * pow2 (e + 1)" unfolding q True by (simp add: pow2_add) (simp add: pow2_def)
      moreover have "- 1074 \<le> e + 1" by (simp add: e_def)
      ultimately show ?thesis using r(1) q unfolding is_double_def
        by (intro disjI2 conjI exI [of _ "2 ^ 52"] exI [of _ "e + 1"]) auto
    next
      case False
      then show ?thesis using r(1) q m m0 unfolding is_double_def
        by (intro disjI2 conjI exI [of _ m] exI [of _ e]) (auto simp: e_def)
    qed
  qed
qed

lemma double_bits_pos:
  assumes "is_double a" "0 < a"
  obtains m e where "a = of_int m * pow2 e" "0 < m" "m < 2 ^ 53" "- 1074 \<le> e" "e \<le> 971" "m < 2 ^ 52 \<longrightarrow> e = - 1074"
    "double_bits (Fin a) = field_bits m e" "double_bits (Fin (- a)) = 2 ^ 63 + field_bits m e"
proof -
  obtain n k where nk: "a = of_int n * pow2 k" "0 < n" "n < 2 ^ 53" "- 1074 \<le> k" "a < pow2 1024"
    using assms by (auto simp: is_double_def)
  define l where "l = ilog2 a"
  define e where "e = max (l - 52) (- 1074)"
  note b = ilog2_bounds [OF assms(2), folded l_def]
  have "a < pow2 (53 + k)"
  proof -
    have "(of_int n :: rat) < of_int (2 ^ 53)" using nk(3) by (simp only: of_int_less_iff)
    then have "(of_int n :: rat) < pow2 53" by (simp add: pow2_nat)
    then have "of_int n * pow2 k < pow2 53 * pow2 k" by (rule mult_strict_right_mono) simp
    then show ?thesis by (simp add: nk(1) pow2_add)
  qed
  with b(1) have "pow2 l < pow2 (53 + k)" by linarith
  then have ek: "e \<le> k" using nk(4) by (simp add: e_def pow2_less_iff)
  define m where "m = n * 2 ^ nat (k - e)"
  have "pow2 k = pow2 (k - e) * pow2 e" using pow2_add [of "k - e" e] by simp
  then have a: "a = of_int m * pow2 e" using ek by (simp add: nk(1) m_def pow2_nat)
  then have m: "\<lfloor>a / pow2 e\<rfloor> = m" by simp
  have m0: "0 < m" using nk(2) by (simp add: m_def)
  have "a < pow2 (53 + e)"
    by (rule less_le_trans [OF b(2)], rule pow2_mono) (simp add: e_def)
  then have "of_int m * pow2 e < pow2 53 * pow2 e" by (simp add: a pow2_add)
  then have "of_int m < pow2 53" by simp
  then have "(of_int m :: rat) < of_int (2 ^ 53)" by (simp add: pow2_nat)
  then have m53: "m < 2 ^ 53" by (simp only: of_int_less_iff)
  have sub: "m < 2 ^ 52 \<longrightarrow> e = - 1074"
  proof
    assume "m < 2 ^ 52"
    then have "(of_int m :: rat) < of_int (2 ^ 52)" by (simp only: of_int_less_iff)
    then have "(of_int m :: rat) < pow2 52" by (simp add: pow2_nat)
    then have "of_int m * pow2 e < pow2 52 * pow2 e" by (rule mult_strict_right_mono) simp
    then have "pow2 l < pow2 (52 + e)" using b(1) by (simp add: a [symmetric] pow2_add)
    then show "e = - 1074" by (simp add: e_def pow2_less_iff)
  qed
  have "pow2 l < pow2 1024" using b(1) nk(5) by linarith
  then have e: "e \<le> 971" by (simp add: e_def pow2_less_iff)
  have "a \<noteq> 0" using assms(2) by simp
  then have "double_bits (Fin a) = field_bits m e" "double_bits (Fin (- a)) = 2 ^ 63 + field_bits m e"
    using assms(2) m by (simp_all add: double_bits_def Let_def l_def [symmetric] e_def [symmetric])
  with a m0 m53 sub e show thesis using that [of m e] by (simp add: e_def)
qed

lemma field_split: "0 \<le> f \<Longrightarrow> f < (2 :: int) ^ 52 \<Longrightarrow> (y * 2 ^ 52 + f) mod 2 ^ 52 = f \<and> (y * 2 ^ 52 + f) div 2 ^ 52 = y"
  by simp

lemma double_bits_roundtrip_pos:
  assumes "is_double a" "0 < a"
  shows "double_of_bits (double_bits (Fin a)) = Fin a \<and> double_of_bits (double_bits (Fin (- a))) = Fin (- a)
    \<and> 0 \<le> double_bits (Fin a) \<and> double_bits (Fin a) < 2 ^ 64 \<and> 0 \<le> double_bits (Fin (- a)) \<and> double_bits (Fin (- a)) < 2 ^ 64"
proof -
  obtain m e where m: "a = of_int m * pow2 e" "0 < m" "m < 2 ^ 53" "- 1074 \<le> e" "e \<le> 971" "m < 2 ^ 52 \<longrightarrow> e = - 1074"
    "double_bits (Fin a) = field_bits m e" "double_bits (Fin (- a)) = 2 ^ 63 + field_bits m e"
    by (rule double_bits_pos [OF assms])
  define x where "x = (if m < 2 ^ 52 then 0 else e + 1075)"
  define f where "f = (if m < 2 ^ 52 then m else m - 2 ^ 52)"
  have x: "0 \<le> x" "x \<le> 2046" and f: "0 \<le> f" "f < 2 ^ 52" using m by (auto simp: x_def f_def)
  have d: "double_bits (Fin a) = x * 2 ^ 52 + f" "double_bits (Fin (- a)) = 2 ^ 63 + (x * 2 ^ 52 + f)"
    by (simp_all add: m(7,8) x_def f_def field_bits_def)
  have n: "2 ^ 63 + (x * 2 ^ 52 + f) = (2048 + x) * 2 ^ 52 + f" by simp
  have s: "(x * 2 ^ 52 + f) mod 2 ^ 52 = f" "(x * 2 ^ 52 + f) div 2 ^ 52 = x"
    "((2048 + x) * 2 ^ 52 + f) mod 2 ^ 52 = f" "((2048 + x) * 2 ^ 52 + f) div 2 ^ 52 = 2048 + x"
    using field_split [OF f] by blast+
  have t: "(x * 2 ^ 52 + f) div 2 ^ 63 = 0" "((2048 + x) * 2 ^ 52 + f) div 2 ^ 63 = 1"
    using x f by (auto intro!: div_pos_pos_trivial int_div_pos_eq [where r = "x * 2 ^ 52 + f"])
  have v: "(if x = 0 then of_int f * pow2 (- 1074) else of_int (2 ^ 52 + f) * pow2 (x - 1075)) = a"
    using m(2,4,6) by (auto simp: m(1) x_def f_def)
  have "x mod 2048 = x" "(2048 + x) mod 2048 = x" "x \<noteq> 2047" using x by auto
  then have "double_of_bits (x * 2 ^ 52 + f) = Fin a" "double_of_bits (2 ^ 63 + (x * 2 ^ 52 + f)) = Fin (- a)"
    unfolding n double_of_bits_def Let_def s t using v by auto
  then show ?thesis unfolding d using x f by auto
qed

lemma unpack_pack_d:
  assumes "is_double q"
  shows "unpack_d (pack_d (Fin q)) = Inr (Fin q)"
proof -
  have *: "unpack_d (pack_d (Fin q)) = Inr (Fin q)"
    if "double_of_bits (double_bits (Fin q)) = Fin q" "0 \<le> double_bits (Fin q)" "double_bits (Fin q) < 2 ^ 64"
    using that by (simp add: unpack_d_def pack_d_def le_int_le_bytes)
  consider "q = 0" | "0 < q" | "0 < - q" by linarith
  then show ?thesis
  proof cases
    case 1
    show ?thesis by (rule *) (simp_all add: 1 double_bits_def double_of_bits_def)
  next
    case 2
    from double_bits_roundtrip_pos [OF assms 2] show ?thesis by (intro *) auto
  next
    case 3
    have "is_double (- q)" using assms by (simp add: is_double_def)
    from double_bits_roundtrip_pos [OF this 3] show ?thesis by (intro *) auto
  qed
qed

lemma length_pack_d [simp]: "length (pack_d f) = 8"
  by (simp add: pack_d_def del: le_bytes.simps)

lemma to_double_exact:
  assumes "is_double q"
  shows "to_double q = Fin q"
proof -
  have pos: "to_double a = Fin a" if a: "0 < a" "is_double a" for a
  proof -
    obtain n k where nk: "a = of_int n * pow2 k" "0 < n" "n < 2 ^ 53" "- 1074 \<le> k" "a < pow2 1024"
      using a by (auto simp: is_double_def)
    define e where "e = max (ilog2 a - 52) (- 1074)"
    have "(of_int n :: rat) < of_int (2 ^ 53)" using nk(3) by (simp only: of_int_less_iff)
    then have "(of_int n :: rat) < pow2 53" by (simp add: pow2_nat)
    then have "of_int n * pow2 k < pow2 53 * pow2 k" by (rule mult_strict_right_mono) simp
    then have "a < pow2 (53 + k)" by (simp add: nk(1) pow2_add)
    with ilog2_bounds(1) [OF a(1)] have "pow2 (ilog2 a) < pow2 (53 + k)" by linarith
    then have "e \<le> k" using nk(4) by (simp add: e_def pow2_less_iff)
    moreover have "pow2 k = pow2 (k - e) * pow2 e" using pow2_add [of "k - e" e] by simp
    ultimately have "a / pow2 e = of_int (n * 2 ^ nat (k - e))" by (simp add: nk(1) pow2_nat)
    then have "of_int (round_half_even (a / pow2 e)) * pow2 e = a" by (metis nonzero_eq_divide_eq pow2_pos(3) rhe_of_int)
    then show ?thesis using a(1) nk(5)
      by (auto simp: to_double_def Let_def ilog2_def e_def split: prod.splits)
  qed
  consider "q = 0" | "0 < q" | "0 < - q" by linarith
  then show ?thesis
  proof cases
    case 3
    moreover have "is_double (- q)" using assms by (simp add: is_double_def)
    ultimately have "to_double (- q) = Fin (- q)" by (rule pos)
    then show ?thesis using to_double_minus [of "- q"] by (simp add: float_neg_def)
  qed (use pos assms in \<open>auto simp: to_double_def\<close>)
qed

end
