(* ===== verification/Currencies.thy ===== *)
theory Currencies
  imports TypesPrim
begin

text \<open>
  The tables of the currencies (\<^verbatim>\<open>clients/currencylayer/currencies_id.py\<close>, \<^verbatim>\<open>CurrencyLayer.py\<close>): 170 codes of three letters, each with
  a number of one byte. The quotes of the service are an argument.
\<close>

section \<open>Currencies\<close>

definition currencies_id :: "(int \<times> string) list" where
  "currencies_id = [
    (1, ''aed''), (2, ''afn''), (3, ''all''), (4, ''amd''), (5, ''ang''), (6, ''aoa''), (7, ''ars''), (8, ''aud''), (9, ''awg''),
    (10, ''azn''), (11, ''bam''), (12, ''bbd''), (13, ''bdt''), (14, ''bgn''), (15, ''bhd''), (16, ''bif''), (17, ''bmd''), (18, ''bnd''),
    (19, ''bob''), (20, ''brl''), (21, ''bsd''), (22, ''btc''), (23, ''btn''), (24, ''bwp''), (25, ''byn''), (26, ''byr''), (27, ''bzd''),
    (28, ''cad''), (29, ''cdf''), (30, ''chf''), (31, ''clf''), (32, ''clp''), (33, ''cny''), (34, ''cop''), (35, ''crc''), (36, ''cuc''),
    (37, ''cup''), (38, ''cve''), (39, ''czk''), (40, ''djf''), (41, ''dkk''), (42, ''dop''), (43, ''dzd''), (44, ''egp''), (45, ''ern''),
    (46, ''etb''), (47, ''eth''), (48, ''eur''), (49, ''fjd''), (50, ''fkp''), (51, ''gbp''), (52, ''gel''), (53, ''ggp''), (54, ''ghs''),
    (55, ''gip''), (56, ''gmd''), (57, ''gnf''), (58, ''gtq''), (59, ''gyd''), (60, ''hkd''), (61, ''hnl''), (62, ''hrk''), (63, ''htg''),
    (64, ''huf''), (65, ''idr''), (66, ''ils''), (67, ''imp''), (68, ''inr''), (69, ''iqd''), (70, ''irr''), (71, ''isk''), (72, ''jep''),
    (73, ''jmd''), (74, ''jod''), (75, ''jpy''), (76, ''kes''), (77, ''kgs''), (78, ''khr''), (79, ''kmf''), (80, ''kpw''), (81, ''krw''),
    (82, ''kwd''), (83, ''kyd''), (84, ''kzt''), (85, ''lak''), (86, ''lbp''), (87, ''lkr''), (88, ''lrd''), (89, ''lsl''), (90, ''ltl''),
    (91, ''lvl''), (92, ''lyd''), (93, ''mad''), (94, ''mdl''), (95, ''mga''), (96, ''mkd''), (97, ''mmk''), (98, ''mnt''), (99, ''mop''),
    (100, ''mro''), (101, ''mur''), (102, ''mvr''), (103, ''mwk''), (104, ''mxn''), (105, ''myr''), (106, ''mzn''), (107, ''nad''),
    (108, ''ngn''), (109, ''nio''), (110, ''nok''), (111, ''npr''), (112, ''nzd''), (113, ''omr''), (114, ''pab''), (115, ''pen''),
    (116, ''pgk''), (117, ''php''), (118, ''pkr''), (119, ''pln''), (120, ''pyg''), (121, ''qar''), (122, ''ron''), (123, ''rsd''),
    (124, ''rub''), (125, ''rwf''), (126, ''sar''), (127, ''sbd''), (128, ''scr''), (129, ''sdg''), (130, ''sek''), (131, ''sgd''),
    (132, ''shp''), (133, ''sll''), (134, ''sos''), (135, ''srd''), (136, ''std''), (137, ''svc''), (138, ''syp''), (139, ''szl''),
    (140, ''thb''), (141, ''tjs''), (142, ''tmt''), (143, ''tnd''), (144, ''top''), (145, ''try''), (146, ''ttd''), (147, ''twd''),
    (148, ''tzs''), (149, ''uah''), (150, ''ugx''), (151, ''usd''), (152, ''uyu''), (153, ''uzs''), (154, ''vef''), (155, ''vnd''),
    (156, ''vuv''), (157, ''wst''), (158, ''xaf''), (159, ''xag''), (160, ''xau''), (161, ''xcd''), (162, ''xdr''), (163, ''xof''),
    (164, ''xpf''), (165, ''xrp''), (166, ''yer''), (167, ''zar''), (168, ''zmk''), (169, ''zmw''), (170, ''zwl'')]"

definition cur2id :: "(string \<times> int) list" where
  "cur2id = foldl (\<lambda>d (k, v). d_set d v k) [] currencies_id"

definition usd :: string where "usd = ''usd''"

definition rates_of_quotes :: "(string \<times> pyfloat) list \<Rightarrow> (string \<times> pyfloat) list" where
  \<comment> \<open>\<^verbatim>\<open>_data_cur\<close> of the quotes that \<^verbatim>\<open>fetch\<close> got\<close>
  "rates_of_quotes q = foldl (\<lambda>d (k, x). d_set d (lower (if starts_with ''USD'' k then drop 3 k else k)) x) [] q"

section \<open>Facts of the tables\<close>

definition codes :: "string list" where "codes = map snd currencies_id"

definition code3 :: "string \<Rightarrow> bool" where
  "code3 c = (length c = 3 \<and> list_all is_lower c)"

lemma table_codes: "list_all code3 codes \<and> list_all (\<lambda>k. 0 < k \<and> k < 256) (map fst currencies_id)"
  by code_simp

lemma table_distinct: "distinct codes"
  by code_simp

lemma table_ids: "distinct (map fst currencies_id)"
  by code_simp

lemma table_cur2id: "cur2id = map (\<lambda>(k, v). (v, k)) currencies_id"
  by code_simp

lemma table_usd: "d_get cur2id usd = Some 151"
  by code_simp


lemma is_lower_not: "is_lower c \<Longrightarrow> \<not> is_digit c \<and> \<not> is_space c \<and> c \<notin> {CHR ''.'', CHR '','', CHR ''-'', CHR ''%''}"
  by (auto simp: is_lower_def is_digit_def is_space_def ccode_def)

lemma code_entry:
  assumes "(k, c) \<in> set currencies_id"
  shows "d_get currencies_id k = Some c" "d_get cur2id c = Some k" "c \<in> set codes" "code3 c" "0 < k" "k < 256"
proof -
  have c: "c \<in> set codes" "k \<in> set (map fst currencies_id)" using assms by (force simp: codes_def)+
  then show "c \<in> set codes" "code3 c" "0 < k" "k < 256" using table_codes by (auto simp: list_all_iff)
  show "d_get currencies_id k = Some c" by (rule d_get_mem_distinct) (simp_all add: table_ids d_keys_def assms)
  have "distinct (map fst cur2id)" using table_distinct by (simp add: table_cur2id codes_def comp_def case_prod_beta)
  moreover have "(c, k) \<in> set cur2id" using assms by (force simp: table_cur2id)
  ultimately show "d_get cur2id c = Some k" by (intro d_get_mem_distinct) (simp_all add: d_keys_def)
qed

end
