(* ===== verification/Numeric.thy ===== *)
theory Numeric
  imports Doubles Currencies
begin

text \<open>
  Numbers with a currency (class \<^verbatim>\<open>Numeric\<close> of \<^verbatim>\<open>data/types/AdvTypes.py\<close>, \<^verbatim>\<open>TypeBaseObjClassNumeric\<close> of \<^verbatim>\<open>TypeBaseClasses.py\<close>, over
  the tables of \<open>Currencies\<close>): six or ten bytes, one for the kind and the sign, one for the currency, then an integer or
  a double. The rates of exchange are an argument, those of the service or of the file it is kept in.
\<close>

section \<open>Text to bytes\<close>

definition get_cur :: "string \<Rightarrow> string \<times> string" where
  \<comment> \<open>\<^verbatim>\<open>getCur\<close>: the first code of the table that occurs in the text\<close>
  "get_cur value = (let v = lower value in
     case find (\<lambda>c. str_in c v) (map fst cur2id) of
       None \<Rightarrow> (v, usd)
     | Some c \<Rightarrow> (strip (replace_str c [] (lower v)), c))"

definition is_integer :: "pyfloat \<Rightarrow> bool" where
  "is_integer f = (case f of Fin q \<Rightarrow> of_int \<lfloor>q\<rfloor> = q | _ \<Rightarrow> False)"

definition times_trunc :: "int \<Rightarrow> string \<Rightarrow> int res" where
  \<comment> \<open>\<^verbatim>\<open>int(float(value) * n)\<close>\<close>
  "times_trunc n v = rbind (to_float (PStr v)) (\<lambda>f. float_trunc (py_fmul_int f n))"

definition scan_number :: "string \<Rightarrow> (int \<times> (int + pyfloat)) res" where
  \<comment> \<open>the kind and the number, after the sign and the currency were taken off\<close>
  "scan_number s =
     (if CHR ''k'' \<in> set s then (let v = strip (remove_char (CHR ''k'') s) in
        if CHR ''.'' \<in> set v then rbind (times_trunc 1000 v) (\<lambda>i. Inr (0, Inl i))
        else rbind (of_int_res (py_int v)) (\<lambda>i. Inr (10, Inl i)))
      else if CHR ''m'' \<in> set s then (let v = strip (remove_char (CHR ''m'') s) in
        if CHR ''.'' \<in> set v then rbind (times_trunc 1000 v) (\<lambda>i. Inr (10, Inl i))
        else rbind (of_int_res (py_int v)) (\<lambda>i. Inr (11, Inl i)))
      else if CHR ''%'' \<in> set s then rbind (times_trunc 100 (strip (remove_char (CHR ''%'') s))) (\<lambda>i. Inr (2, Inl i))
      else rbind (to_float (PStr (if strip s = [] then ''0'' else s))) (\<lambda>fv.
        if is_integer fv then rbind (float_trunc fv) (\<lambda>i. Inr (0, Inl i))
        else if (case fv of Fin q \<Rightarrow> 10000 < q | Inf b \<Rightarrow> \<not> b | NaN \<Rightarrow> False) then rbind (float_trunc fv) (\<lambda>i. Inr (3, Inl i))
        else Inr (1, Inr fv)))"

definition num_bytes :: "bool \<Rightarrow> int \<Rightarrow> int \<Rightarrow> int + pyfloat \<Rightarrow> bytes res" where
  "num_bytes negative ttype curcat x =
     (let h = [word_of_int (ttype + (if negative then 128 else 0)), word_of_int curcat]
      in case x of Inr f \<Rightarrow> Inr (h @ pack_d f) | Inl i \<Rightarrow> rbind (pack_I i) (\<lambda>b. Inr (h @ b)))"

definition str2bytes :: "string \<Rightarrow> bytes res" where
  "str2bytes value =
     (let v1 = (if CHR '','' \<in> set value then strip (lstrip_by (\<lambda>c. c = CHR '','') (remove_char (CHR '','') value)) else value);
          negative = (CHR ''-'' \<in> set v1);
          v2 = (if negative then remove_char (CHR ''-'') v1 else v1);
          (v3, cur) = (if py_float v2 \<noteq> None then (v2, usd) else get_cur v2)
      in rbind (scan_number v3) (\<lambda>(ttype, x).
           case d_get cur2id cur of None \<Rightarrow> Inl P_KeyError | Some curcat \<Rightarrow> num_bytes negative ttype curcat x))"

section \<open>Bytes to numbers and to text\<close>

definition num_head :: "bytes \<Rightarrow> (bool \<times> int \<times> int \<times> pyval) res" where
  \<comment> \<open>sign, kind, currency and the number as it is stored\<close>
  "num_head b = (if length b \<notin> {6, 10} then Inl E_Input
     else (let t = uint (b ! 0); negative = 127 < t; ttype = (if negative then t - 128 else t)
       in rbind (if ttype = 1 then rbind (unpack_d (drop 2 b)) (\<lambda>f. Inr (PFloat f))
                 else rbind (unpack_I (drop 2 b)) (\<lambda>i. Inr (PInt i))) (\<lambda>v.
            Inr (negative, ttype, uint (b ! 1), v))))"

definition num_gt :: "pyval \<Rightarrow> int \<Rightarrow> bool" where
  "num_gt v n = (case v of PInt i \<Rightarrow> n < i | PFloat (Fin q) \<Rightarrow> of_int n < q | PFloat (Inf b) \<Rightarrow> \<not> b | _ \<Rightarrow> False)"

definition num_neg :: "pyval \<Rightarrow> pyval" where
  "num_neg v = (case v of PInt i \<Rightarrow> PInt (- i) | PFloat f \<Rightarrow> PFloat (float_neg f) | _ \<Rightarrow> v)"

definition num_round :: "nat \<Rightarrow> pyval \<Rightarrow> pyval" where
  "num_round n v = (case v of PFloat f \<Rightarrow> PFloat (py_round n f) | _ \<Rightarrow> v)"

definition int_if_whole :: "pyfloat \<Rightarrow> pyval" where
  "int_if_whole f = (if is_integer f then (case float_trunc f of Inr i \<Rightarrow> PInt i | Inl e \<Rightarrow> PFloat f) else PFloat f)"

definition percent :: "int \<Rightarrow> nat \<Rightarrow> int \<Rightarrow> pyval" where
  \<comment> \<open>\<^verbatim>\<open>round(float(val) / n, places)\<close>, an integer when it is whole\<close>
  "percent n places i = int_if_whole (py_round places (to_double (of_int i / of_int n)))"

definition pf_div :: "pyfloat \<Rightarrow> pyfloat \<Rightarrow> pyfloat res" where
  "pf_div x y = (case (x, y) of
     (_, Fin r) \<Rightarrow> if r = 0 then Inl P_ZeroDivision
       else Inr (case x of Fin q \<Rightarrow> to_double (q / r) | Inf b \<Rightarrow> Inf (b \<noteq> (r < 0)) | NaN \<Rightarrow> NaN)
   | (Fin q, Inf b) \<Rightarrow> Inr (Fin 0) | _ \<Rightarrow> Inr NaN)"

definition pf_mul :: "pyfloat \<Rightarrow> pyfloat \<Rightarrow> pyfloat" where
  "pf_mul x y = (case (x, y) of
     (Fin q, Fin r) \<Rightarrow> to_double (q * r)
   | (Fin q, Inf b) \<Rightarrow> if q = 0 then NaN else Inf (b \<noteq> (q < 0))
   | (Inf b, Fin q) \<Rightarrow> if q = 0 then NaN else Inf (b \<noteq> (q < 0))
   | (Inf a, Inf b) \<Rightarrow> Inf (a \<noteq> b) | _ \<Rightarrow> NaN)"

definition pf_add :: "pyfloat \<Rightarrow> pyfloat \<Rightarrow> pyfloat" where
  "pf_add x y = py_fsub x (float_neg y)"

definition rate :: "(string \<times> pyfloat) list \<Rightarrow> string \<Rightarrow> pyfloat res" where
  "rate rates c = (case d_get rates c of None \<Rightarrow> Inl P_KeyError | Some x \<Rightarrow> Inr x)"

definition places :: "nat option \<Rightarrow> pyval \<Rightarrow> pyval" where
  "places roundnr v = (let nr = (case roundnr of Some (Suc n) \<Rightarrow> Some (Suc n) | _ \<Rightarrow> if num_gt v 80 then Some 0 else roundnr)
     in case nr of Some (Suc n) \<Rightarrow> num_round (Suc n) v | _ \<Rightarrow> v)"

definition bytes2cur_code :: "(string \<times> pyfloat) list \<Rightarrow> bytes \<Rightarrow> string \<Rightarrow> nat option \<Rightarrow> (string \<times> pyval) res" where
  "bytes2cur_code rates b curcode roundnr = rbind (num_head b) (\<lambda>(negative, ttype, cur, v).
     let v1 = (case v of PInt i \<Rightarrow> if ttype = 10 then PInt (i * 1000) else if ttype = 11 then PInt (i * 1000000)
                 else if ttype = 2 then percent 10000 3 i else v | _ \<Rightarrow> v)
     in case d_get currencies_id cur of None \<Rightarrow> Inl P_KeyError | Some code \<Rightarrow>
       rbind (if code = curcode then Inr v1
              else rbind (rate rates code) (\<lambda>r. rbind (to_float v1) (\<lambda>f. rbind (pf_div f r) (\<lambda>d.
                rbind (rate rates curcode) (\<lambda>r'. Inr (PFloat (pf_mul d r'))))))) (\<lambda>v2.
       Inr (code, places roundnr (if negative then num_neg v2 else v2))))"

definition bytes2cur :: "(string \<times> pyfloat) list \<Rightarrow> bytes \<Rightarrow> string \<Rightarrow> nat option \<Rightarrow> pyval res" where
  "bytes2cur rates b curcode roundnr = (if b = [] then Inr (PInt 0)
     else rbind (bytes2cur_code rates b curcode roundnr) (\<lambda>(c, v). Inr v))"

definition currency_code :: "(string \<times> pyfloat) list \<Rightarrow> bytes \<Rightarrow> string res" where
  \<comment> \<open>for no bytes the number 0 is taken apart into two\<close>
  "currency_code rates b = (if b = [] then Inl P_TypeError else rbind (bytes2cur_code rates b usd None) (\<lambda>(c, v). Inr c))"

function comma_groups :: "string \<Rightarrow> string \<Rightarrow> string" where
  \<comment> \<open>the loop: what is left, what was put together\<close>
  "comma_groups out acc = (if 3 < length out
     then comma_groups (take (length out - 3) out) (CHR '','' # drop (length out - 3) out @ acc) else out @ acc)"
  by pat_completeness auto
termination
  by (relation "measure (\<lambda>(out, acc). length out)") auto

declare comma_groups.simps [simp del]

definition bytes2str_data :: "bytes \<Rightarrow> nat option \<Rightarrow> bool \<Rightarrow> string res" where
  "bytes2str_data b roundnr comma = rbind (num_head b) (\<lambda>(negative, ttype, cur, v).
     let v1 = (case v of PInt i \<Rightarrow> if ttype = 2 then percent 100 2 i else v | _ \<Rightarrow> v);
         mult = (if ttype = 10 then ''k'' else if ttype = 11 then ''m'' else if ttype = 2 then ''%'' else [])
     in rbind (if d_get cur2id usd = Some cur then Inr []
               else (case d_get currencies_id cur of None \<Rightarrow> Inl P_KeyError | Some c \<Rightarrow> Inr c)) (\<lambda>code.
     let nr = (case roundnr of Some (Suc n) \<Rightarrow> Some (Suc n)
           | _ \<Rightarrow> if num_gt v1 100 then Some 0 else if num_gt v1 10 then Some 1 else roundnr)
     in rbind (case nr of None \<Rightarrow> Inr v1 | Some 0 \<Rightarrow> rbind (to_int v1) (\<lambda>i. Inr (PInt i)) | Some n \<Rightarrow> Inr (num_round n v1)) (\<lambda>v2.
     let out = py_str v2;
         txt = (if comma \<and> CHR ''.'' \<notin> set out then strip_chars '','' (comma_groups out []) else out);
         res = (if negative then ''-'' else []) @ txt @ '' '' @ mult @ upper code
     in Inr (strip (replace_str '' %'' ''%'' res)))))"

section \<open>The type\<close>

datatype numval = NObj bytes | NRaw pyval  \<comment> \<open>a \<^verbatim>\<open>NumericObject\<close>, and any other value\<close>

definition numeric_empty :: "pyval \<Rightarrow> bool" where
  "numeric_empty v = (v \<in> {PNone, PStr ''None'', PBytes [], PStr []})"

definition numeric_limit :: int where "numeric_limit = 4294967294"

definition numeric_clean_val :: "pyval \<Rightarrow> numval res" where
  \<comment> \<open>numbers that are too large are handed back as they are\<close>
  "numeric_clean_val v = (if is_float v \<or> is_int v then
       (if num_gt v numeric_limit \<or> num_gt (num_neg v) numeric_limit then Inr (NRaw v)
        else rbind (str2bytes (py_str v)) (\<lambda>b. Inr (NObj b)))
     else (case v of PStr s \<Rightarrow> rbind (str2bytes s) (\<lambda>b. Inr (NObj b)) | PBytes b \<Rightarrow> Inr (NObj b) | _ \<Rightarrow> Inl E_Value))"

definition numeric_default_get :: "pyval \<Rightarrow> numval res" where
  \<comment> \<open>a default that is the text None asks for the default again, without end\<close>
  "numeric_default_get d = (let d' = (if truth d then d else PInt 0) in
     if numeric_empty d' then Inl P_RuntimeError else numeric_clean_val d')"

definition numeric_clean :: "pyval \<Rightarrow> numval \<Rightarrow> numval res" where
  "numeric_clean d x = (case x of NObj b \<Rightarrow> Inr (NObj b)
     | NRaw v \<Rightarrow> if numeric_empty v then numeric_default_get d else numeric_clean_val v)"

definition numeric_toData :: "pyval \<Rightarrow> numval \<Rightarrow> bytes res" where
  "numeric_toData d x = rbind (numeric_clean d x) (\<lambda>y. case y of NObj b \<Rightarrow> Inr b | NRaw v \<Rightarrow> Inl P_AttributeError)"

definition bytes2str :: "pyval \<Rightarrow> bytes \<Rightarrow> nat option \<Rightarrow> bool \<Rightarrow> string res" where
  \<comment> \<open>for no bytes the default is an object, and is then taken for bytes\<close>
  "bytes2str d b roundnr comma = (if b = [] then rbind (numeric_default_get d) (\<lambda>_. Inl P_TypeError)
     else bytes2str_data b roundnr comma)"

definition numeric_toString :: "pyval \<Rightarrow> numval \<Rightarrow> string res" where
  "numeric_toString d x = rbind (numeric_clean d x) (\<lambda>y. case y of NObj b \<Rightarrow> bytes2str d b None True | NRaw v \<Rightarrow> Inl P_AttributeError)"

definition numeric_python_code :: "pyval \<Rightarrow> numval \<Rightarrow> string res" where
  "numeric_python_code d x = rbind (numeric_toString d x) (\<lambda>s. Inr ([CHR 0x27] @ s @ [CHR 0x27]))"

definition numeric_value :: "(string \<times> pyfloat) list \<Rightarrow> numval \<Rightarrow> pyval res" where
  "numeric_value rates x = (case x of NObj b \<Rightarrow> bytes2cur rates b usd None | NRaw v \<Rightarrow> Inl P_AttributeError)"

definition numeric_float :: "(string \<times> pyfloat) list \<Rightarrow> numval \<Rightarrow> pyfloat res" where
  "numeric_float rates x = (case x of NObj b \<Rightarrow> rbind (bytes2cur rates b usd None) to_float | NRaw v \<Rightarrow> to_float v)"

definition numeric_arith :: "(pyfloat \<Rightarrow> pyfloat \<Rightarrow> pyfloat res) \<Rightarrow> pyval \<Rightarrow> (string \<times> pyfloat) list \<Rightarrow> bytes \<Rightarrow> numval \<Rightarrow> numval res" where
  \<comment> \<open>an operator of the object with the bytes \<open>b\<close>\<close>
  "numeric_arith f d rates b other = rbind (numeric_clean d other) (\<lambda>o2.
     rbind (numeric_float rates (NObj b)) (\<lambda>x. rbind (numeric_float rates o2) (\<lambda>y.
     rbind (f x y) (\<lambda>z. numeric_clean d (NRaw (PFloat z))))))"

definition numeric_add :: "pyval \<Rightarrow> (string \<times> pyfloat) list \<Rightarrow> bytes \<Rightarrow> numval \<Rightarrow> numval res" where
  \<comment> \<open>the other one first\<close>
  "numeric_add d rates b other = rbind (numeric_clean d other) (\<lambda>o2.
     rbind (numeric_float rates o2) (\<lambda>y. rbind (numeric_float rates (NObj b)) (\<lambda>x.
     numeric_clean d (NRaw (PFloat (pf_add y x))))))"

definition numeric_sub :: "pyval \<Rightarrow> (string \<times> pyfloat) list \<Rightarrow> bytes \<Rightarrow> numval \<Rightarrow> numval res" where
  "numeric_sub = numeric_arith (\<lambda>x y. Inr (py_fsub x y))"

definition numeric_mul :: "pyval \<Rightarrow> (string \<times> pyfloat) list \<Rightarrow> bytes \<Rightarrow> numval \<Rightarrow> numval res" where
  "numeric_mul = numeric_arith (\<lambda>x y. Inr (pf_mul x y))"

definition numeric_truediv :: "pyval \<Rightarrow> (string \<times> pyfloat) list \<Rightarrow> bytes \<Rightarrow> numval \<Rightarrow> numval res" where
  "numeric_truediv = numeric_arith pf_div"

definition numeric_neg :: "pyval \<Rightarrow> (string \<times> pyfloat) list \<Rightarrow> bytes \<Rightarrow> numval res" where
  "numeric_neg d rates b = rbind (numeric_float rates (NObj b)) (\<lambda>x. numeric_clean d (NRaw (PFloat (pf_mul x (Fin (- 1))))))"

definition numeric_eq :: "pyval \<Rightarrow> (string \<times> pyfloat) list \<Rightarrow> bytes \<Rightarrow> numval \<Rightarrow> bool res" where
  "numeric_eq d rates b other = rbind (numeric_clean d other) (\<lambda>o2.
     rbind (numeric_float rates o2) (\<lambda>y. rbind (numeric_float rates (NObj b)) (\<lambda>x. Inr (x = y \<and> x \<noteq> NaN))))"

definition num_less :: "pyval \<Rightarrow> pyval \<Rightarrow> bool" where
  "num_less v w = (case (v, w) of
     (PFloat NaN, _) \<Rightarrow> False | (_, PFloat NaN) \<Rightarrow> False
   | (PFloat (Inf a), PFloat (Inf b)) \<Rightarrow> a \<and> \<not> b | (PFloat (Inf a), _) \<Rightarrow> a | (_, PFloat (Inf b)) \<Rightarrow> \<not> b
   | _ \<Rightarrow> (case (num_of v, num_of w) of (Some x, Some y) \<Rightarrow> x < y | _ \<Rightarrow> False))"

definition num_leq :: "pyval \<Rightarrow> pyval \<Rightarrow> bool" where
  "num_leq v w = (num_less v w \<or> (py_eq v w \<and> v \<noteq> PFloat NaN))"

definition numeric_compare :: "(pyval \<Rightarrow> pyval \<Rightarrow> bool) \<Rightarrow> pyval \<Rightarrow> (string \<times> pyfloat) list \<Rightarrow> bytes \<Rightarrow> numval \<Rightarrow> bool res" where
  "numeric_compare r d rates b other = rbind (numeric_clean d other) (\<lambda>o2.
     rbind (numeric_value rates (NObj b)) (\<lambda>x. rbind (numeric_value rates o2) (\<lambda>y. Inr (r x y))))"

definition numeric_lt :: "pyval \<Rightarrow> (string \<times> pyfloat) list \<Rightarrow> bytes \<Rightarrow> numval \<Rightarrow> bool res" where
  "numeric_lt = numeric_compare num_less"

definition numeric_le :: "pyval \<Rightarrow> (string \<times> pyfloat) list \<Rightarrow> bytes \<Rightarrow> numval \<Rightarrow> bool res" where
  "numeric_le = numeric_compare num_leq"

definition numeric_gt :: "pyval \<Rightarrow> (string \<times> pyfloat) list \<Rightarrow> bytes \<Rightarrow> numval \<Rightarrow> bool res" where
  "numeric_gt = numeric_compare (\<lambda>x y. num_less y x)"

definition numeric_ge :: "pyval \<Rightarrow> (string \<times> pyfloat) list \<Rightarrow> bytes \<Rightarrow> numval \<Rightarrow> bool res" where
  "numeric_ge = numeric_compare (\<lambda>x y. num_leq y x)"

section \<open>Which texts are numbers\<close>

lemma drop_underscores_chars: "drop_underscores ok s = Some t \<Longrightarrow> c \<in> set s \<Longrightarrow> is_digit c \<or> c = CHR ''_''"
  by (induction ok s arbitrary: t rule: drop_underscores.induct) (auto split: if_splits)

lemma not_spaceE: "is_digit c \<or> c = CHR ''_'' \<Longrightarrow> c \<noteq> CHR '' ''"
  by (auto simp: is_digit_def ccode_def)

lemma float_mantissa_space: "float_mantissa s = Some q \<Longrightarrow> CHR '' '' \<notin> set s"
  by (auto simp: float_mantissa_def float_digits_def split_first_Some split: option.splits if_splits
      dest!: drop_underscores_chars not_spaceE)

lemma py_nat_space: "py_nat s = Some i \<Longrightarrow> CHR '' '' \<notin> set s"
  by (auto simp: py_nat_def dest!: drop_underscores_chars not_spaceE)

lemma float_exponent_space: "float_exponent s = Some i \<Longrightarrow> CHR '' '' \<notin> set s"
  by (auto simp: float_exponent_def dest: py_nat_space split: list.splits char.splits bool.splits)

lemma float_unsigned_space: "float_unsigned s = Some f \<Longrightarrow> CHR '' '' \<notin> set s"
  by (auto simp: float_unsigned_def split_first_Some dest: float_mantissa_space float_exponent_space split: if_splits option.splits)

lemma py_float_space: "CHR '' '' \<in> set (strip s) \<Longrightarrow> py_float s = None"
proof (rule ccontr)
  assume s: "CHR '' '' \<in> set (strip s)" and "py_float s \<noteq> None"
  then obtain c t where ct: "lower (strip s) = c # t" "float_unsigned t \<noteq> None \<and> c \<noteq> CHR '' '' \<or> float_unsigned (c # t) \<noteq> None"
    by (auto simp: py_float_def split: list.splits if_splits)
  then have "CHR '' '' \<notin> set (lower (strip s))" by (auto dest: float_unsigned_space)
  moreover have "lower_char (CHR '' '') = CHR '' ''" by code_simp
  ultimately show False using s by (metis image_eqI list.set_map lower_def)
qed


section \<open>The currency of a text\<close>

lemma find_only: "c \<in> set xs \<Longrightarrow> (\<And>d. d \<in> set xs \<Longrightarrow> P d \<longleftrightarrow> d = c) \<Longrightarrow> find P xs = Some c"
  by (induction xs) auto

lemma str_in_short: "length s < length p \<Longrightarrow> \<not> str_in p s"
  by (auto simp: str_in_iff)

lemma starts_with_same: "length p = length s \<Longrightarrow> starts_with p s \<longleftrightarrow> p = s"
  by (auto simp: starts_with_iff)

lemma str_in_skip: "p \<noteq> [] \<Longrightarrow> hd p \<notin> set u \<Longrightarrow> str_in p (u @ w) = str_in p w"
  by (induction u) (auto simp: neq_Nil_conv)

lemma replace_str_skip: "p \<noteq> [] \<Longrightarrow> hd p \<notin> set u \<Longrightarrow> replace_str p r (u @ w) = u @ replace_str p r w"
  by (induction u) (auto simp: neq_Nil_conv)

lemma code3_cases: "code3 c \<Longrightarrow> (\<And>x y z. c = [x, y, z] \<Longrightarrow> is_lower x \<Longrightarrow> is_lower y \<Longrightarrow> is_lower z \<Longrightarrow> P) \<Longrightarrow> P"
  by (auto simp: code3_def length_Suc_conv numeral_eq_Suc)

lemma str_in_code:
  assumes "code3 d" "code3 c" "length x \<le> 1"
  shows "str_in d (x @ c) \<longleftrightarrow> d = c \<or> d = x @ take 2 c"
proof -
  obtain d1 d2 d3 where d: "d = [d1, d2, d3]" by (rule code3_cases [OF assms(1)])
  obtain c1 c2 c3 where c: "c = [c1, c2, c3]" by (rule code3_cases [OF assms(2)])
  show ?thesis using assms(3) by (cases x) (auto simp: d c)
qed

lemma replace_code:
  assumes "code3 c" "length x \<le> 1" "c \<noteq> x @ take 2 c"
  shows "replace_str c [] (x @ c) = x"
proof -
  obtain c1 c2 c3 where c: "c = [c1, c2, c3]" by (rule code3_cases [OF assms(1)])
  show ?thesis using assms(2,3) by (cases x) (auto simp: c)
qed

lemma get_cur_code:
  assumes "(k, c) \<in> set currencies_id" "lower v = u @ x @ c" "\<And>z. z \<in> set u \<Longrightarrow> \<not> is_lower z" "length x \<le> 1" "x @ take 2 c \<notin> set codes"
  shows "get_cur v = (strip (u @ x), c)"
proof -
  note c = code_entry [OF assms(1)]
  have h: "d \<noteq> []" "hd d \<notin> set u" if "code3 d" for d using that assms(3) by (auto elim: code3_cases)
  have "str_in d (u @ x @ c) \<longleftrightarrow> d = c" if "d \<in> set codes" for d
  proof -
    have d: "code3 d" using table_codes that by (simp add: list_all_iff)
    have "d \<noteq> x @ take 2 c" using that assms(5) by auto
    then show ?thesis using str_in_skip [OF h [OF d], of "x @ c"] str_in_code [OF d c(4) assms(4)] by simp
  qed
  then have f: "find (\<lambda>d. str_in d (u @ x @ c)) codes = Some c" using c(3) by (rule find_only [rotated])
  have m: "map fst cur2id = codes" by (simp add: table_cur2id codes_def comp_def case_prod_beta)
  have "c \<noteq> x @ take 2 c" using c(3) assms(5) by auto
  then have "replace_str c [] (u @ x @ c) = u @ x"
    using replace_str_skip [OF h [OF c(4)], of "[]" "x @ c"] replace_code [OF c(4) assms(4)] by simp
  moreover have "lower (lower v) = lower v" by simp
  ultimately show ?thesis by (simp add: get_cur_def Let_def m assms(2) f)
qed

lemma get_cur_none:
  assumes "lower v = u @ x" "\<And>z. z \<in> set u \<Longrightarrow> \<not> is_lower z" "length x \<le> 1"
  shows "get_cur v = (u @ x, usd)"
proof -
  have "\<not> str_in d (u @ x)" if "d \<in> set codes" for d
  proof -
    have d: "code3 d" using table_codes that by (simp add: list_all_iff)
    then have "d \<noteq> []" "hd d \<notin> set u" using assms(2) by (auto elim: code3_cases)
    moreover have "\<not> str_in d x" using d assms(3) by (intro str_in_short) (simp add: code3_def)
    ultimately show ?thesis using str_in_skip [of d u x] by simp
  qed
  then have "find (\<lambda>d. str_in d (u @ x)) codes = None" by (auto simp: find_None_iff)
  moreover have "map fst cur2id = codes" by (simp add: table_cur2id codes_def comp_def case_prod_beta)
  ultimately show ?thesis by (simp add: get_cur_def assms(1))
qed

section \<open>What the bytes hold\<close>

lemma byte_of_int: "0 \<le> i \<Longrightarrow> i < 256 \<Longrightarrow> uint (word_of_int i :: 8 word) = i"
  by (simp add: uint_word_of_int)

lemma num_head_int:
  assumes "pack_I i = Inr p" "0 \<le> tt" "tt < 128" "tt \<noteq> 1" "0 \<le> k" "k < 256"
  shows "num_head (word_of_int (tt + (if neg then 128 else 0)) # word_of_int k # p) = Inr (neg, tt, k, PInt i)"
proof -
  have p: "length p = 4" using unpack_pack [OF assms(1)] by (auto simp: unpack_I_def split: if_splits)
  show ?thesis using assms unpack_pack [OF assms(1)] by (simp add: num_head_def p byte_of_int Let_def del: of_int_add)
qed

lemma num_head_float:
  assumes "is_double q" "0 \<le> k" "k < 256"
  shows "num_head (word_of_int (1 + (if neg then 128 else 0)) # word_of_int k # pack_d (Fin q)) = Inr (neg, 1, k, PFloat (Fin q))"
  using assms unpack_pack_d [OF assms(1)] by (simp add: num_head_def byte_of_int Let_def del: of_int_add)


section \<open>The number of a text\<close>

definition plain :: "string \<Rightarrow> bool" where
  \<comment> \<open>digits and dots\<close>
  "plain s = list_all (\<lambda>c. is_digit c \<or> c = CHR ''.'') s"

lemma plain_not: "plain s \<Longrightarrow> c \<in> set s \<Longrightarrow> \<not> is_space c \<and> \<not> is_lower c \<and> c \<notin> {CHR '','', CHR ''-'', CHR ''%'', CHR ''k'', CHR ''m'', CHR ''e''}"
  by (force simp: plain_def list_all_iff is_space_def is_lower_def is_digit_def ccode_def)

lemma plain_stripped: "plain s \<Longrightarrow> stripped is_space s"
  using plain_not [of s "hd s"] plain_not [of s "last s"] by (cases "s = []") (auto simp: stripped_def)

lemma plain_lower: "plain s \<Longrightarrow> lower s = s"
  unfolding lower_def by (rule map_idI) (auto simp: plain_def list_all_iff lower_char_def is_upper_def is_digit_def ccode_def)

lemma digits_val_nonneg: "0 \<le> digits_val s"
proof -
  have "0 \<le> foldl (\<lambda>n c. 10 * n + int (digit_val c)) a s" if "0 \<le> a" for a
    using that by (induction s arbitrary: a) auto
  then show ?thesis by (simp add: digits_val_def)
qed

lemma to_double_nonneg: "0 \<le> x \<Longrightarrow> to_double x = Fin q \<Longrightarrow> 0 \<le> q"
proof -
  assume x: "0 \<le> x" and q: "to_double x = Fin q"
  have r: "0 \<le> round_half_even (x / pow2 e)" for e
  proof -
    have "0 \<le> x / pow2 e" using x by simp
    then have "0 \<le> \<lfloor>x / pow2 e\<rfloor>" by simp
    then show ?thesis using rhe_floor [of "x / pow2 e"] by linarith
  qed
  show ?thesis using q x r by (auto simp: to_double_def Let_def split: prod.splits if_splits)
qed

lemma plain_unsigned:
  assumes "plain s" "s \<noteq> []"
  shows "py_float s = map_option to_double (float_mantissa s)"
proof -
  have e: "split_first (CHR ''e'') s = None" using plain_not [OF assms(1)] by (auto simp: split_first_None)
  have s: "strip s = s" by (rule strip_by_id) (rule plain_stripped [OF assms(1)])
  obtain c t where c: "s = c # t" using assms(2) by (cases s) auto
  then have "is_digit c \<or> c = CHR ''.''" using assms(1) by (simp add: plain_def)
  then have c': "c \<noteq> CHR ''-''" "c \<noteq> CHR ''+''" "c \<noteq> CHR ''i''" "c \<noteq> CHR ''n''" by (auto simp: is_digit_def ccode_def)
  have "py_float s = float_unsigned s" using c' by (simp add: py_float_def s plain_lower [OF assms(1)]) (simp add: c)
  also have "\<dots> = map_option to_double (float_mantissa s)" using e c' by (auto simp: float_unsigned_def c)
  finally show ?thesis .
qed

lemma plain_float:
  assumes "plain s" "py_float s = Some (Fin q)"
  shows "is_double q" "0 \<le> q" "s \<noteq> []"
proof -
  show ne: "s \<noteq> []" using assms(2) by (auto simp: py_float_def lower_def)
  obtain m where m: "float_mantissa s = Some m" "to_double m = Fin q"
    using assms(2) plain_unsigned [OF assms(1) ne] by auto
  show "is_double q" by (rule to_double_is_double [OF m(2)])
  have "0 \<le> m" using m(1) digits_val_nonneg
    by (auto simp: float_mantissa_def pow10_def split: option.splits if_splits prod.splits intro!: mult_nonneg_nonneg)
  then show "0 \<le> q" using m(2) by (rule to_double_nonneg)
qed

definition stored_kind :: "rat \<Rightarrow> int \<times> (int + pyfloat)" where
  \<comment> \<open>kind and number for what is not negative and below \<open>2 ^ 32\<close>\<close>
  "stored_kind q = (if of_int \<lfloor>q\<rfloor> = q then (0, Inl \<lfloor>q\<rfloor>) else if 10000 < q then (3, Inl \<lfloor>q\<rfloor>) else (1, Inr (Fin q)))"

definition stored_number :: "rat \<Rightarrow> pyval" where
  "stored_number q = (if of_int \<lfloor>q\<rfloor> = q \<or> 10000 < q then PInt \<lfloor>q\<rfloor> else PFloat (Fin q))"

lemma scan_plain:
  assumes "plain s" "py_float s = Some (Fin q)"
  shows "scan_number s = Inr (stored_kind q)"
proof -
  note f = plain_float [OF assms]
  have "CHR ''k'' \<notin> set s" "CHR ''m'' \<notin> set s" "CHR ''%'' \<notin> set s" using plain_not [OF assms(1)] by auto
  moreover have "strip s = s" by (rule strip_by_id) (rule plain_stripped [OF assms(1)])
  ultimately show ?thesis using f(2,3) assms(2)
    by (simp add: scan_number_def to_float_def is_integer_def float_trunc_def stored_kind_def)
qed

lemma num_bytes_plain:
  assumes "stored_kind q = (tt, x)" "is_double q" "0 \<le> q" "q < 2 ^ 32" "0 \<le> k" "k < 256"
  shows "\<exists>b. num_bytes neg tt k x = Inr b \<and> b \<noteq> [] \<and> tt \<in> {0, 1, 3} \<and> num_head b = Inr (neg, tt, k, stored_number q)"
proof (cases "of_int \<lfloor>q\<rfloor> = q \<or> 10000 < q")
  case True
  have i: "0 \<le> \<lfloor>q\<rfloor>" "\<lfloor>q\<rfloor> < 2 ^ 32" using assms(3,4) by (auto simp: floor_less_iff)
  then obtain p where p: "pack_I \<lfloor>q\<rfloor> = Inr p" by (simp add: pack_I_def)
  have t: "tt \<in> {0, 3}" "x = Inl \<lfloor>q\<rfloor>" using True assms(1) by (auto simp: stored_kind_def split: if_splits)
  have "num_head (word_of_int (tt + (if neg then 128 else 0)) # word_of_int k # p) = Inr (neg, tt, k, PInt \<lfloor>q\<rfloor>)"
    by (rule num_head_int [OF p]) (use t(1) assms(5,6) in auto)
  then show ?thesis using True t by (auto simp: num_bytes_def p stored_number_def Let_def)
next
  case False
  then have "tt = 1" "x = Inr (Fin q)" using assms(1) by (auto simp: stored_kind_def)
  moreover have "stored_number q = PFloat (Fin q)" using False by (simp add: stored_number_def)
  ultimately show ?thesis using num_head_float [OF assms(2,5,6), of neg] by (simp add: num_bytes_def Let_def)
qed

lemma strip_space_end:
  assumes "stripped is_space s" "s \<noteq> []"
  shows "strip (s @ '' '') = s"
proof -
  have "is_space (CHR '' '')" by code_simp
  then have "rstrip_by is_space (s @ '' '') = rstrip_by is_space s" by (simp add: rstrip_by_def)
  moreover have "lstrip_by is_space (s @ '' '') = s @ '' ''" "lstrip_by is_space s = s"
    using assms by (auto simp: lstrip_by_def dropWhile_id_hd stripped_def)
  ultimately show ?thesis using strip_by_id [OF assms(1)] by (simp add: strip_by_def)
qed

lemma lower_code_chars: "lower c' = c \<Longrightarrow> code3 c \<Longrightarrow> z \<in> set c' \<Longrightarrow> is_lower (lower_char z)"
  by (auto simp: code3_def lower_def list_all_iff)

lemma lower_code_not: "lower c' = c \<Longrightarrow> code3 c \<Longrightarrow> z \<in> set c' \<Longrightarrow> \<not> is_space z \<and> z \<notin> {CHR '','', CHR ''-'', CHR ''%''}"
proof -
  assume "lower c' = c" "code3 c" "z \<in> set c'"
  then have l: "is_lower (lower_char z)" by (rule lower_code_chars)
  moreover have "lower_char (CHR '','') = CHR '',''" "lower_char (CHR ''-'') = CHR ''-''" "lower_char (CHR ''%'') = CHR ''%''" by code_simp+
  moreover have "\<not> is_space z" using is_lower_not [OF l] is_space_lower_char [of z] by blast
  ultimately show ?thesis using is_lower_not by (metis insertCI insertE emptyE)
qed


definition str2bytes_rest :: "bool \<Rightarrow> string \<Rightarrow> bytes res" where
  \<comment> \<open>the second half of \<open>str2bytes\<close>\<close>
  "str2bytes_rest neg s = (case (if py_float s \<noteq> None then (s, usd) else get_cur s) of (v3, cur) \<Rightarrow> rbind (scan_number v3) (\<lambda>(tt, x).
        case d_get cur2id cur of None \<Rightarrow> Inl P_KeyError | Some k \<Rightarrow> num_bytes neg tt k x))"

lemma str2bytes_no_comma: "CHR '','' \<notin> set w \<Longrightarrow> str2bytes w = str2bytes_rest (CHR ''-'' \<in> set w) (remove_char (CHR ''-'') w)"
proof -
  assume c: "CHR '','' \<notin> set w"
  have "(if CHR ''-'' \<in> set w then remove_char (CHR ''-'') w else w) = remove_char (CHR ''-'') w" by (simp add: remove_char_id)
  then show ?thesis using c by (simp only: str2bytes_def Let_def str2bytes_rest_def if_False)
qed

lemma str2bytes_sign:
  \<comment> \<open>a text with its sign; commas are only a matter of writing\<close>
  assumes "CHR ''-'' \<notin> set s" "w = (if neg then CHR ''-'' # s else s)" "CHR '','' \<notin> set s"
    and "w' = w \<or> (remove_char (CHR '','') w' = w \<and> stripped is_space w)"
  shows "str2bytes w' = str2bytes_rest neg s"
proof -
  have n: "(CHR ''-'' \<in> set w) = neg" "CHR '','' \<notin> set w" "neg \<longrightarrow> remove_char (CHR ''-'') w = s" "\<not> neg \<longrightarrow> w = s"
    using assms(1,3) by (auto simp: assms(2) remove_char_def filter_id_conv)
  have "strip (lstrip_by (\<lambda>c. c = CHR '','') w) = w" if "stripped is_space w"
    using strip_by_id [OF that] n(2) by (cases w) (auto simp: lstrip_by_def)
  then have v1: "(if CHR '','' \<in> set w' then strip (lstrip_by (\<lambda>c. c = CHR '','') (remove_char (CHR '','') w')) else w') = w"
    using assms(4) n(2) by (auto simp: remove_char_id)
  show ?thesis unfolding str2bytes_def v1 Let_def str2bytes_rest_def n(1) using n(3,4) by (cases neg) simp_all
qed

lemma str2bytes_parts:
  \<comment> \<open>what is left of the sign is no number and has a currency\<close>
  assumes "py_float s = None" "get_cur s = (r, c)" "scan_number r = Inr (tt, x)" "d_get cur2id c = Some k"
  shows "str2bytes_rest neg s = num_bytes neg tt k x"
  using assms by (simp add: str2bytes_rest_def)

lemma str2bytes_number:
  assumes "py_float s \<noteq> None" "scan_number s = Inr (tt, x)"
  shows "str2bytes_rest neg s = num_bytes neg tt 151 x"
  using assms by (simp add: str2bytes_rest_def table_usd)

definition with_sign :: "bool \<Rightarrow> string \<Rightarrow> string" where
  "with_sign neg s = (if neg then CHR ''-'' # s else s)"

lemma places_none [simp]: "places None v = v" "places (Some 0) v = v"
  by (simp_all add: places_def)

definition signed :: "bool \<Rightarrow> pyval \<Rightarrow> pyval" where
  "signed neg v = (if neg then num_neg v else v)"

text \<open>C37: The text of a number below \<open>2 ^ 32\<close> in digits and dots, with a sign and a currency in capital or small letters, is stored as its
  value in that currency (a larger one does not fit and raises, one with an exponent is misread: \<open>exponent_sign\<close>): a whole number and one above ten thousand as an integer (which drops the fraction of the latter),
  every other one as the double it is.\<close>

theorem numeric_text_value:
  assumes "(k, c) \<in> set currencies_id" "lower c' = c" "plain s" "py_float s = Some (Fin q)" "q < 2 ^ 32"
  shows "(\<exists>b. str2bytes (with_sign neg (s @ '' '' @ c')) = Inr b \<and> bytes2cur rates b c None = Inr (signed neg (stored_number q))) \<and>
    (\<exists>b. str2bytes (with_sign neg s) = Inr b \<and> bytes2cur rates b usd None = Inr (signed neg (stored_number q)))"
proof (rule conjI)
  note f = plain_float [OF assms(3,4)] and c = code_entry [OF assms(1)]
  obtain tt x where tx: "stored_kind q = (tt, x)" by fastforce
  have sc: "scan_number s = Inr (tt, x)" using scan_plain [OF assms(3,4)] tx by simp
  have val: "\<exists>b. num_bytes neg tt k x = Inr b \<and> bytes2cur rates b d None = Inr (signed neg (stored_number q))"
    if k: "0 \<le> k" "k < 256" and d: "d_get currencies_id k = Some d" for k d
  proof -
    obtain b where b: "num_bytes neg tt k x = Inr b" "b \<noteq> []" "tt \<in> {0, 1, 3}" "num_head b = Inr (neg, tt, k, stored_number q)"
      using num_bytes_plain [OF tx f(1,2) assms(5) k] by blast
    then have "bytes2cur rates b d None = Inr (signed neg (stored_number q))"
      by (cases "stored_number q") (auto simp: bytes2cur_def bytes2cur_code_def d Let_def signed_def)
    then show ?thesis using b(1) by blast
  qed
  let ?t = "s @ '' '' @ c'"
  have n: "CHR '','' \<notin> set s" "CHR ''-'' \<notin> set s" using plain_not [OF assms(3)] by auto
  have n': "CHR '','' \<notin> set ?t" "CHR ''-'' \<notin> set ?t" using n lower_code_not [OF assms(2) c(4)] by auto
  have "c' \<noteq> []" using c(4) assms(2) by (auto simp: code3_def lower_def)
  then have "stripped is_space ?t" using plain_not [OF assms(3), of "hd s"] f(3) lower_code_not [OF assms(2) c(4), of "last c'"]
    by (auto simp: stripped_def)
  then have "strip ?t = ?t" by (rule strip_by_id)
  then have none: "py_float ?t = None" by (intro py_float_space) simp
  have sp: "lower '' '' = '' ''" by code_simp
  have "lower ?t = (s @ '' '') @ [] @ c" using assms(2) plain_lower [OF assms(3)] sp by (simp add: lower_def)
  moreover have "\<not> is_lower z" if "z \<in> set (s @ '' '')" for z
    using that plain_not [OF assms(3)] by (auto simp: is_lower_def ccode_def)
  moreover have "[] @ take 2 c \<notin> set codes" using table_codes c(4) by (auto simp: code3_def list_all_iff)
  ultimately have "get_cur ?t = (strip ((s @ '' '') @ []), c)" by (intro get_cur_code [OF assms(1)]) auto
  moreover have "strip (s @ '' '') = s" using strip_space_end [OF plain_stripped [OF assms(3)] f(3)] .
  ultimately have g: "get_cur ?t = (s, c)" by simp
  show "\<exists>b. str2bytes (with_sign neg (s @ '' '' @ c')) = Inr b \<and> bytes2cur rates b c None = Inr (signed neg (stored_number q))"
    unfolding str2bytes_sign [OF n'(2) with_sign_def n'(1) disjI1 [OF refl]] str2bytes_parts [OF none g sc c(2)] using val c(1,5,6) by simp
  have some: "py_float s \<noteq> None" using assms(4) by simp
  have u: "(151, usd) \<in> set currencies_id" by (rule d_get_Some_mem) code_simp
  show "\<exists>b. str2bytes (with_sign neg s) = Inr b \<and> bytes2cur rates b usd None = Inr (signed neg (stored_number q))"
    unfolding str2bytes_sign [OF n(2) with_sign_def n(1) disjI1 [OF refl]] str2bytes_number [OF some sc] using val code_entry(1) [OF u] by simp
qed


section \<open>Writing and reading\<close>

lemma comma_groups_chars: "remove_char (CHR '','') (comma_groups out acc) = remove_char (CHR '','') (out @ acc)"
proof (induction out acc rule: comma_groups.induct)
  case (1 out acc)
  show ?case
  proof (cases "3 < length out")
    case True
    then have "remove_char (CHR '','') (comma_groups out acc)
       = remove_char (CHR '','') (take (length out - 3) out @ CHR '','' # drop (length out - 3) out @ acc)"
      using 1 by (subst comma_groups.simps) simp
    also have "\<dots> = remove_char (CHR '','') ((take (length out - 3) out @ drop (length out - 3) out) @ acc)"
      by (simp add: remove_char_def del: append_take_drop_id)
    finally show ?thesis by simp
  next
    case False
    then show ?thesis by (subst comma_groups.simps) simp
  qed
qed

lemma comma_groups_ends:
  "out \<noteq> [] \<Longrightarrow> comma_groups out acc \<noteq> [] \<and> hd (comma_groups out acc) = hd out \<and> last (comma_groups out acc) = last (out @ acc)"
proof (induction out acc rule: comma_groups.induct)
  case (1 out acc)
  show ?case
  proof (cases "3 < length out")
    case True
    then have t: "take (length out - 3) out \<noteq> []" "drop (length out - 3) out \<noteq> []" by auto
    then have "hd (take (length out - 3) out) = hd out" "last (drop (length out - 3) out @ acc) = last (out @ acc)"
      by (simp_all add: hd_take last_append last_drop)
    then show ?thesis using 1 True t by (subst (1 2 3) comma_groups.simps) simp
  next
    case False
    then show ?thesis using 1 by (subst (1 2 3) comma_groups.simps) simp
  qed
qed

lemma comma_groups_set: "set (comma_groups out acc) \<subseteq> insert (CHR '','') (set out \<union> set acc)"
proof -
  have "c \<in> set out \<union> set acc" if "c \<in> set (comma_groups out acc)" "c \<noteq> CHR '',''" for c
  proof -
    have "c \<in> set (remove_char (CHR '','') (comma_groups out acc))" using that by (simp add: remove_char_def)
    then have "c \<in> set (remove_char (CHR '','') (out @ acc))" by (simp only: comma_groups_chars)
    then show ?thesis by (auto simp: remove_char_def)
  qed
  then show ?thesis by blast
qed

definition mults :: "(int \<times> string) list" where
  "mults = [(0, []), (10, ''k''), (11, ''m'')]"

definition number_text :: "bool \<Rightarrow> int \<Rightarrow> string \<Rightarrow> string \<Rightarrow> string" where
  "number_text neg n mult code = strip (with_sign neg (comma_groups (nat_str n) [] @ '' '' @ mult @ code))"

lemma digits_not: "list_all is_digit s \<Longrightarrow> c \<in> set s \<Longrightarrow> \<not> is_space c \<and> \<not> is_lower c \<and> c \<notin> {CHR '','', CHR ''-'', CHR ''%'', CHR ''.'', CHR '' '', CHR ''k'', CHR ''m''}"
  by (force simp: list_all_iff is_space_def is_lower_def is_digit_def ccode_def)


lemma letter_lower_upper: "is_lower c \<Longrightarrow> lower_char (upper_char c) = c"
  by (auto simp: lower_char_def upper_char_def is_upper_def is_lower_def ccode_char_of ccode_inj [symmetric])

lemma letters_lower_upper: "list_all is_lower s \<Longrightarrow> lower (upper s) = s"
  by (induction s) (auto simp: lower_def upper_def letter_lower_upper)

lemma replace_percent: "CHR ''%'' \<notin> set s \<Longrightarrow> replace_str '' %'' r s = s"
proof (induction s)
  case (Cons c s)
  then have "\<not> starts_with '' %'' (c # s)" by (auto simp: starts_with_iff)
  with Cons show ?case by (simp del: starts_with.simps)
qed simp

lemma scan_mult:
  assumes "(tt, mult) \<in> set mults" "0 \<le> n" "n < 2 ^ 53"
  shows "scan_number (nat_str n @ (if mult = [] then [] else CHR '' '' # mult)) = Inr (tt, Inl n)"
proof -
  note d = nat_str_digits [OF assms(2)]
  note p = isdigit_nat_str [OF assms(2)]
  have st: "stripped is_space (nat_str n)" by (rule digits_stripped [OF d])
  have ks: "CHR ''k'' \<notin> set (nat_str n)" "CHR ''m'' \<notin> set (nat_str n)" "CHR ''.'' \<notin> set (nat_str n)" using digits_not [OF d] by auto
  have i: "py_int (nat_str n) = Some n" using py_int_digits [OF p] assms(2) by simp
  have r: "strip (remove_char x (nat_str n @ [CHR '' '', x])) = nat_str n" if "x \<notin> set (nat_str n)" "x \<noteq> CHR '' ''" for x
  proof -
    have "remove_char x (nat_str n @ [CHR '' '', x]) = nat_str n @ '' ''"
      using that by (simp add: remove_char_def filter_id_conv) metis
    then show ?thesis using strip_space_end [OF st] by simp
  qed
  consider "tt = 0" "mult = []" | "tt = 10" "mult = ''k''" | "tt = 11" "mult = ''m''" using assms(1) by (auto simp: mults_def)
  then show ?thesis
  proof cases
    case 1
    have "plain (nat_str n)" using d by (auto simp: plain_def list_all_iff)
    moreover have "py_float (nat_str n) = Some (Fin (of_int n))" using py_float_digits [OF p] to_double_int [of n] assms(2,3) by simp
    ultimately show ?thesis using scan_plain 1 by (simp add: stored_kind_def)
  next
    case 2
    then show ?thesis using r [OF ks(1)] by (simp add: scan_number_def ks i of_int_res_def)
  next
    case 3
    then show ?thesis using r [OF ks(2)] by (simp add: scan_number_def ks i of_int_res_def)
  qed
qed


lemma bytes2str_number:
  assumes "(k, c) \<in> set currencies_id" "(tt, mult) \<in> set mults" "num_bytes neg tt k (Inl n) = Inr b"
  shows "bytes2str d b None True = Inr (number_text neg n mult (if c = usd then [] else upper c)) \<and> 0 \<le> n \<and> n < 2 ^ 32"
proof -
  note c = code_entry [OF assms(1)]
  obtain p where p: "pack_I n = Inr p" "b = word_of_int (tt + (if neg then 128 else 0)) # word_of_int k # p"
    using assms(3) by (auto simp: num_bytes_def Let_def rbind_eq_Inr)
  have n: "0 \<le> n" "n < 2 ^ 32" using p(1) by (auto simp: pack_I_def split: if_splits)
  have tt: "0 \<le> tt" "tt < 128" "tt \<noteq> 1" "tt \<noteq> 2"
    "mult = (if tt = 10 then ''k'' else if tt = 11 then ''m'' else [])" using assms(2) by (auto simp: mults_def)
  have h: "num_head b = Inr (neg, tt, k, PInt n)" unfolding p(2) by (rule num_head_int [OF p(1) tt(1-3)]) (use c in auto)
  have u: "d_get cur2id usd = Some k \<longleftrightarrow> c = usd"
  proof
    assume "d_get cur2id usd = Some k"
    then have "(usd, k) \<in> set cur2id" by (rule d_get_Some_mem)
    then have "(k, usd) \<in> set currencies_id" by (auto simp: table_cur2id)
    then show "c = usd" using code_entry(1) c(1) by fastforce
  next
    assume "c = usd" then show "d_get cur2id usd = Some k" using c(2) by simp
  qed
  note d = nat_str_digits [OF n(1)]
  have o: "py_str (PInt n) = nat_str n" using n by (simp add: py_str_def int_str_def)
  have dot: "CHR ''.'' \<notin> set (nat_str n)" using digits_not [OF d] by auto
  let ?g = "comma_groups (nat_str n) []"
  have e: "?g \<noteq> []" "hd ?g = hd (nat_str n)" "last ?g = last (nat_str n)" using comma_groups_ends [of "nat_str n" "[]"] by auto
  have "stripped (\<lambda>c. c \<in> set '','') ?g" using e digits_not [OF d, of "hd (nat_str n)"] digits_not [OF d, of "last (nat_str n)"]
    by (auto simp: stripped_def)
  then have "strip_chars '','' ?g = ?g" by (rule strip_by_id)
  then have g: "strip_by (\<lambda>c. c = CHR '','') ?g = ?g" by simp
  have [simp]: "upper [] = []" by (simp add: upper_def)
  let ?code = "if c = usd then [] else upper c"
  have "CHR ''%'' \<notin> set (upper c)"
  proof
    assume "CHR ''%'' \<in> set (upper c)"
    then obtain z where "z \<in> set c" "upper_char z = CHR ''%''" by (auto simp: upper_def)
    moreover then have "is_lower z" using c(4) by (auto simp: code3_def list_all_iff)
    ultimately have "is_upper (CHR ''%'')" using is_upper_upper_char by metis
    then show False by (simp add: is_upper_def ccode_def)
  qed
  then have "CHR ''%'' \<notin> set (with_sign neg (?g @ '' '' @ mult @ ?code))"
    using comma_groups_set [of "nat_str n" "[]"] digits_not [OF d, of "CHR ''%''"] by (auto simp: with_sign_def tt(5))
  then have r: "replace_str '' %'' ''%'' (with_sign neg (?g @ '' '' @ mult @ ?code)) = with_sign neg (?g @ '' '' @ mult @ ?code)"
    by (rule replace_percent)
  have sg: "(if neg then ''-'' else []) @ ?g @ '' '' @ mult @ ?code = with_sign neg (?g @ '' '' @ mult @ ?code)"
    by (simp add: with_sign_def)
  have data: "bytes2str_data b None True = Inr (strip (replace_str '' %'' ''%'' ((if neg then ''-'' else []) @ ?g @ '' '' @ mult @ ?code)))"
    using c(1) tt(4) by (auto simp: bytes2str_data_def h Let_def u o dot g tt(5) num_round_def to_int_def)
  have "b \<noteq> []" by (simp add: p(2))
  then show ?thesis using n unfolding bytes2str_def data sg r number_text_def by simp
qed


definition read_text :: "int \<Rightarrow> string \<Rightarrow> string \<Rightarrow> string" where
  \<comment> \<open>the text without its sign, commas and ending\<close>
  "read_text n mult code = nat_str n @ (if mult @ code = [] then [] else CHR '' '' # mult @ code)"

lemma number_text_read:
  assumes "0 \<le> n" "\<And>z. z \<in> set (mult @ code) \<Longrightarrow> \<not> is_space z \<and> z \<notin> {CHR '','', CHR ''-''}"
  shows "str2bytes (number_text neg n mult code) = str2bytes_rest neg (read_text n mult code)"
proof (rule str2bytes_sign [OF _ refl _ disjI2])
  note d = nat_str_digits [OF assms(1)]
  let ?g = "comma_groups (nat_str n) []" and ?w = "with_sign neg (read_text n mult code)"
  have e: "?g \<noteq> []" "hd ?g = hd (nat_str n)" "last ?g = last (nat_str n)" using comma_groups_ends [of "nat_str n" "[]"] by auto
  have h: "\<not> is_space (hd (nat_str n))" "\<not> is_space (last (nat_str n))"
    using digits_not [OF d, of "hd (nat_str n)"] digits_not [OF d, of "last (nat_str n)"] by auto
  have m: "\<not> is_space (CHR ''-'')" by code_simp
  have r: "remove_char (CHR '','') (with_sign neg (?g @ t)) = with_sign neg (nat_str n @ t)" if "CHR '','' \<notin> set t" for t
  proof -
    have "remove_char (CHR '','') ?g = nat_str n"
      using comma_groups_chars [of "nat_str n" "[]"] remove_char_id [of "CHR '',''" "nat_str n"] digits_not [OF d] by auto
    then show ?thesis using remove_char_id [OF that] by (simp add: remove_char_def with_sign_def)
  qed
  show "CHR ''-'' \<notin> set (read_text n mult code)" "CHR '','' \<notin> set (read_text n mult code)"
    using digits_not [OF d] assms(2) by (auto simp: read_text_def)
  have "number_text neg n mult code = with_sign neg (?g @ (if mult @ code = [] then [] else CHR '' '' # mult @ code))"
  proof (cases "mult @ code = []")
    case True
    have "stripped is_space (with_sign neg ?g)" using e h m by (auto simp: stripped_def with_sign_def)
    then have "strip (with_sign neg ?g @ '' '') = with_sign neg ?g"
      by (rule strip_space_end) (simp add: with_sign_def e(1))
    then show ?thesis using True by (auto simp: number_text_def with_sign_def)
  next
    case False
    then have "stripped is_space (with_sign neg (?g @ '' '' @ mult @ code))"
      using e(1,2) h(1) m assms(2) [of "last (mult @ code)"] last_in_set [OF False] by (auto simp: stripped_def with_sign_def)
    then show ?thesis using False by (auto simp: number_text_def strip_by_id)
  qed
  moreover have "CHR '','' \<notin> set (if mult @ code = [] then [] else CHR '' '' # mult @ code)" using assms(2) by auto
  note r [OF this]
  ultimately have "remove_char (CHR '','') (number_text neg n mult code) = ?w" by (simp only: read_text_def)
  moreover have "stripped is_space ?w"
    using h m assms(2) [of "last (mult @ code)"] last_in_set [of "mult @ code"] by (auto simp: stripped_def with_sign_def read_text_def)
  ultimately show "remove_char (CHR '','') (number_text neg n mult code) = (if neg then CHR ''-'' # read_text n mult code else read_text n mult code)
      \<and> stripped is_space (if neg then CHR ''-'' # read_text n mult code else read_text n mult code)"
    by (simp add: with_sign_def)
qed

definition spaced :: "int \<Rightarrow> string \<Rightarrow> string" where
  \<comment> \<open>a number and its multiplier\<close>
  "spaced n mult = nat_str n @ (if mult = [] then [] else CHR '' '' # mult)"

lemma spaced_facts:
  assumes "0 \<le> n" "mult \<in> {[], ''k'', ''m''}"
  shows "lower (nat_str n @ '' '' @ mult) = nat_str n @ '' '' @ mult"
    and "\<And>y. y \<in> set (nat_str n @ '' '') \<Longrightarrow> \<not> is_lower y"
    and "strip ((nat_str n @ '' '') @ mult) = spaced n mult"
proof -
  note d = nat_str_digits [OF assms(1)]
  have "lower (nat_str n) = nat_str n" "lower '' '' = '' ''" "lower mult = mult"
    using plain_lower [of "nat_str n"] d assms(2) by (auto simp: plain_def list_all_iff) code_simp+
  then show "lower (nat_str n @ '' '' @ mult) = nat_str n @ '' '' @ mult" by (simp add: lower_def)
  show "\<And>y. y \<in> set (nat_str n @ '' '') \<Longrightarrow> \<not> is_lower y" using digits_not [OF d] by (auto simp: is_lower_def ccode_def)
  have "stripped is_space (spaced n mult)"
    using digits_stripped [OF d] assms(2) by (auto simp: spaced_def stripped_def is_space_def ccode_def)
  then show "strip ((nat_str n @ '' '') @ mult) = spaced n mult"
    using strip_space_end [OF digits_stripped [OF d]] strip_by_id [of is_space "spaced n mult"] by (auto simp: spaced_def)
qed

lemma read_text_no_float:
  assumes "0 \<le> n" "mult @ code \<noteq> []" "\<And>z. z \<in> set (mult @ code) \<Longrightarrow> \<not> is_space z"
  shows "py_float (read_text n mult code) = None"
proof -
  have "stripped is_space (read_text n mult code)"
    using assms(2) assms(3) [of "last (mult @ code)"] last_in_set [OF assms(2)] digits_stripped [OF nat_str_digits [OF assms(1)]]
    by (auto simp: stripped_def read_text_def)
  then have "strip (read_text n mult code) = read_text n mult code" by (rule strip_by_id)
  moreover have "CHR '' '' \<in> set (read_text n mult code)" using assms(2) by (simp only: read_text_def if_False) simp
  ultimately show ?thesis by (intro py_float_space) (simp only:)
qed

lemma read_with_code:
  assumes "(k, c) \<in> set currencies_id" "lower (upper c) = c" "0 \<le> n" "mult \<in> {[], ''k'', ''m''}" "mult @ take 2 c \<notin> set codes"
    and "scan_number (spaced n mult) = Inr (tt, Inl n)" "\<And>z. z \<in> set (mult @ upper c) \<Longrightarrow> \<not> is_space z"
  shows "str2bytes_rest neg (read_text n mult (upper c)) = num_bytes neg tt k (Inl n)"
proof -
  note c = code_entry [OF assms(1)] and f = spaced_facts [OF assms(3,4)]
  have ne: "mult @ upper c \<noteq> []" using c(4) by (auto simp: code3_def upper_def)
  have t: "read_text n mult (upper c) = (nat_str n @ '' '') @ mult @ upper c" using ne by (simp only: read_text_def if_False) simp
  have "lower (read_text n mult (upper c)) = (nat_str n @ '' '') @ mult @ c"
    unfolding t using f(1) assms(2) by (simp add: lower_def)
  then have "get_cur (read_text n mult (upper c)) = (strip ((nat_str n @ '' '') @ mult), c)"
    using assms(4) by (intro get_cur_code [OF assms(1) _ f(2) _ assms(5)]) auto
  then have "get_cur (read_text n mult (upper c)) = (spaced n mult, c)" by (simp only: f(3))
  then show ?thesis using read_text_no_float [OF assms(3) ne assms(7)] assms(6) c(2) by (intro str2bytes_parts)
qed

lemma read_in_usd:
  assumes "0 \<le> n" "n < 2 ^ 32" "mult \<in> {[], ''k'', ''m''}" "scan_number (spaced n mult) = Inr (tt, Inl n)"
  shows "str2bytes_rest neg (read_text n mult []) = num_bytes neg tt 151 (Inl n)"
proof (cases "mult = []")
  case True
  have "py_float (nat_str n) = Some (Fin (of_int n))"
    using py_float_digits [OF isdigit_nat_str [OF assms(1)]] to_double_int [of n] assms(1,2) by simp
  then show ?thesis using True assms(4) str2bytes_number by (simp add: read_text_def spaced_def)
next
  case False
  note f = spaced_facts [OF assms(1,3)]
  have sp: "\<not> is_space z" if "z \<in> set (mult @ [])" for z using that assms(3) by (auto simp: is_space_def ccode_def)
  have t: "read_text n mult [] = (nat_str n @ '' '') @ mult" using False by (auto simp: read_text_def)
  have "lower (read_text n mult []) = (nat_str n @ '' '') @ mult" unfolding t using f(1) by (simp add: lower_def)
  then have "get_cur (read_text n mult []) = ((nat_str n @ '' '') @ mult, usd)"
    using assms(3) by (intro get_cur_none [OF _ f(2)]) auto
  moreover have "(nat_str n @ '' '') @ mult = spaced n mult" using False by (simp add: spaced_def)
  ultimately have g: "get_cur (read_text n mult []) = (spaced n mult, usd)" by (simp only:)
  have "py_float (read_text n mult []) = None" using False sp by (intro read_text_no_float [OF assms(1)]) simp_all
  with g show ?thesis using assms(4) table_usd by (intro str2bytes_parts) simp_all
qed

text \<open>C36: The text of a stored whole number, with its thousands, its multiplier and its currency, is read back as the same
  bytes, unless the multiplier and the currency together contain the code of another currency.\<close>

theorem numeric_text_roundtrip:
  assumes "(k, c) \<in> set currencies_id" "(tt, mult) \<in> set mults" "num_bytes neg tt k (Inl n) = Inr b" "mult @ take 2 c \<notin> set codes"
  shows "\<exists>s. bytes2str d b None True = Inr s \<and> str2bytes s = Inr b"
proof -
  let ?code = "if c = usd then [] else upper c"
  note c = code_entry [OF assms(1)]
  have s: "bytes2str d b None True = Inr (number_text neg n mult ?code)" and n: "0 \<le> n" "n < 2 ^ 32"
    using bytes2str_number [OF assms(1-3)] by auto
  have m: "mult \<in> {[], ''k'', ''m''}" using assms(2) by (auto simp: mults_def)
  have lu: "lower (upper c) = c" using c(4) by (intro letters_lower_upper) (simp add: code3_def)
  have z: "\<not> is_space z \<and> z \<notin> {CHR '','', CHR ''-''}" if "z \<in> set (mult @ upper c)" for z
    using that m lower_code_not [OF lu c(4), of z] by (auto split: if_splits simp: is_space_def ccode_def)
  have zc: "\<not> is_space z \<and> z \<notin> {CHR '','', CHR ''-''}" if "z \<in> set (mult @ ?code)" for z
    using that z by (auto split: if_splits)
  have sc: "scan_number (spaced n mult) = Inr (tt, Inl n)" using scan_mult [OF assms(2) n(1)] n(2) by (simp add: spaced_def)
  have "str2bytes_rest neg (read_text n mult ?code) = num_bytes neg tt k (Inl n)"
  proof (cases "c = usd")
    case True
    then have "k = 151" using c(2) table_usd by simp
    then show ?thesis using True read_in_usd [OF n m sc] by simp
  next
    case False
    then show ?thesis using read_with_code [OF assms(1) lu n(1) m assms(4) sc] z by simp
  qed
  then show ?thesis using s number_text_read [OF n(1) zc] assms(3) by simp
qed

theorem numeric_text_value_witness:
  "\<exists>b. str2bytes ''-12.5 EUR'' = Inr b \<and> bytes2cur [] b ''eur'' None = Inr (PFloat (Fin (- 25 / 2)))"
proof -
  have e: "(48, ''eur'') \<in> set currencies_id" by (rule d_get_Some_mem) code_simp
  have m: "plain ''12.5''" "''12.5'' \<noteq> []" "float_mantissa ''12.5'' = Some (25 / 2)" by code_simp+
  have "is_double (25 / 2)" unfolding is_double_def by (intro disjI2 conjI exI [of _ 25] exI [of _ "- 1"]) (simp_all add: pow2_def)
  then have f: "py_float ''12.5'' = Some (Fin (25 / 2))"
    using plain_unsigned [OF m(1,2)] m(3) to_double_exact [of "25 / 2"] by simp
  have l: "lower ''EUR'' = ''eur''" by code_simp
  have "stored_number (25 / 2) = PFloat (Fin (25 / 2))" by code_simp
  then show ?thesis using numeric_text_value [OF e l m(1) f, of True "[]"] by (simp add: signed_def num_neg_def float_neg_def with_sign_def)
qed

theorem numeric_text_roundtrip_witness:
  "\<exists>s. bytes2str PNone [138, 48, 64, 226, 1, 0] None True = Inr s \<and> str2bytes s = Inr [138, 48, 64, 226, 1, 0]"
proof -
  have e: "(48, ''eur'') \<in> set currencies_id" by (rule d_get_Some_mem) code_simp
  have m: "(10, ''k'') \<in> set mults" by code_simp
  have b: "num_bytes True 10 48 (Inl 123456) = Inr [138, 48, 64, 226, 1, 0]" by code_simp
  have c: "''k'' @ take 2 ''eur'' \<notin> set codes" by code_simp
  from numeric_text_roundtrip [OF e m b c] show ?thesis .
qed

section \<open>Where the code does something else\<close>

text \<open>The letter of a multiplier and the currency after it are taken for another currency: ten million leu are no number.\<close>

lemma multiplier_misread: "str2bytes ''10 mRON'' = Inl P_ValueError"
proof -
  have t: "py_float ''10 mRON'' = None" "py_float ''10 n'' = None" by code_simp+
  have f: "find (\<lambda>c. str_in c ''10 mron'') codes = Some ''mro''" by code_simp
  have l: "lower ''10 mRON'' = ''10 mron''" "lower ''10 mron'' = ''10 mron''" "strip (replace_str ''mro'' [] ''10 mron'') = ''10 n''"
    "strip ''10 n'' \<noteq> []" by code_simp+
  have "map fst cur2id = codes" by (simp add: table_cur2id codes_def comp_def case_prod_beta)
  then have g: "get_cur ''10 mRON'' = (''10 n'', ''mro'')" unfolding get_cur_def l(1) Let_def by (simp only: f l option.case)
  have c: "CHR ''-'' \<notin> set ''10 mRON''" "CHR '','' \<notin> set ''10 mRON''" by code_simp+
  have "scan_number ''10 n'' = Inl P_ValueError" using t(2) l(4) by (simp add: scan_number_def to_float_def)
  then show ?thesis using t(1) g
    by (simp only: str2bytes_no_comma [OF c(2)] c(1) remove_char_id simp_thms str2bytes_rest_def if_False prod.case rbind_Inl)
qed

text \<open>The sign of an exponent is taken for that of the number, and dropped from the exponent.\<close>

lemma exponent_sign: "str2bytes ''1e-05'' = str2bytes ''-100000''"
proof -
  have p: "lower (strip ''1e05'') = ''1e05''" "split_first (CHR ''e'') ''1e05'' = Some (''1'', ''05'')" "float_mantissa ''1'' = Some 1"
    "float_exponent ''05'' = Some 5" "pow10 5 = 100000" "isdigit ''100000''" "digits_val ''100000'' = 100000" by code_simp+
  have f: "py_float ''1e05'' = Some (Fin 100000)" "py_float ''100000'' = Some (Fin 100000)"
    using to_double_int [of 100000] py_float_digits [OF p(6)] p(7) by (simp_all add: py_float_def p float_unsigned_def)
  have r: "remove_char (CHR ''-'') ''1e-05'' = ''1e05''" "remove_char (CHR ''-'') ''-100000'' = ''100000''" by code_simp+
  have n: "\<not> has_char (CHR ''k'') ''1e05''" "\<not> has_char (CHR ''m'') ''1e05''" "\<not> has_char (CHR ''%'') ''1e05''" "strip ''1e05'' \<noteq> []"
    "\<not> has_char (CHR ''k'') ''100000''" "\<not> has_char (CHR ''m'') ''100000''" "\<not> has_char (CHR ''%'') ''100000''" "strip ''100000'' \<noteq> []"
    by code_simp+
  have "is_integer (Fin 100000)" "float_trunc (Fin 100000) = Inr 100000" by code_simp+
  then have s: "scan_number ''1e05'' = Inr (0, Inl 100000)" "scan_number ''100000'' = Inr (0, Inl 100000)"
    unfolding scan_number_def using n f by (simp_all add: to_float_def)
  have c: "CHR '','' \<notin> set ''1e-05''" "CHR '','' \<notin> set ''-100000''" "CHR ''-'' \<in> set ''1e-05''" "CHR ''-'' \<in> set ''-100000''" by code_simp+
  show ?thesis unfolding str2bytes_no_comma [OF c(1)] str2bytes_no_comma [OF c(2)] r str2bytes_rest_def f eqTrueI [OF c(3)] eqTrueI [OF c(4)] using s by simp
qed

text \<open>A percentage with two digits after the dot can lose the last of them when it is read.\<close>

lemma percent_digit_lost: "scan_number ''0.29%'' = Inr (2, Inl 28)"
proof -
  have d: "plain ''0.29''" "''0.29'' \<noteq> []" "float_mantissa ''0.29'' = Some (29 / 100)" "ilog2 (29 / 100) = - 2"
    "round_half_even (130604389193744384 / 25) = 5224175567749775" by code_simp+
  have f: "py_float ''0.29'' = Some (Fin (5224175567749775 / 18014398509481984))"
    using plain_unsigned [OF d(1,2)] to_double_pos [of "29 / 100"] by (simp add: d(3-5) pow2_def)
  have e: "ilog2 (130604389193744375 / 4503599627370496) = 4" "round_half_even (130604389193744375 / 16) = 8162774324609023" by code_simp+
  have m: "py_fmul_int (Fin (5224175567749775 / 18014398509481984)) 100 = Fin (8162774324609023 / 281474976710656)"
    using to_double_pos [of "130604389193744375 / 4503599627370496"] by (simp add: py_fmul_int_def e pow2_def)
  have t: "float_trunc (Fin (8162774324609023 / 281474976710656)) = Inr 28" by code_simp
  have s: "strip (remove_char (CHR ''%'') ''0.29%'') = ''0.29''" by code_simp
  have "times_trunc 100 ''0.29'' = Inr 28" unfolding times_trunc_def to_float_def by (simp add: f m t)
  moreover have "CHR ''k'' \<notin> set ''0.29%''" "CHR ''m'' \<notin> set ''0.29%''" "CHR ''%'' \<in> set ''0.29%''" by code_simp+
  ultimately show ?thesis unfolding scan_number_def by (simp only: s if_True if_False simp_thms rbind_Inr)
qed

text \<open>Rounding to whole numbers is never done: the number of places is 0, which is taken for none.\<close>

lemma rounding_ignored: "bytes2cur_code rates b c (Some 0) = bytes2cur_code rates b c None"
  unfolding bytes2cur_code_def places_none ..

text \<open>A number above the limit is not a numeric object after cleaning, and has no value.\<close>

lemma large_stays_raw: "numeric_clean d (NRaw (PInt 4294967295)) = Inr (NRaw (PInt 4294967295))
    \<and> numeric_toData d (NRaw (PInt 4294967295)) = Inl P_AttributeError"
  by (simp add: numeric_toData_def numeric_clean_def numeric_clean_val_def numeric_empty_def num_gt_def numeric_limit_def is_int_def)

end
