(* ===== verification/ModelSpec.thy ===== *)
theory ModelSpec
  imports BCDBModel
begin

text \<open>
  What one BCDB model promises: it is a map from ids to objects. The operations of a client (saving, deleting, getting and
  finding, from \<^verbatim>\<open>BCDBModel.py\<close> and \<^verbatim>\<open>JSXObjectRoot.py\<close>) are set beside their specification on such a map, and a simulation
  between the two holds the storage client and the index table together. Records of other models in the same store are a set \<open>F\<close>
  of ids, which stays untouched.
\<close>

section \<open>The operations of a client\<close>

datatype mop = OSave jobj | ODelete jobj | OGet int | OFind props

datatype mres = RObj jobj | RObjs "jobj list" | RDone

fun do_op :: "('a, 'b, 'c, 't) bconf \<Rightarrow> mop \<Rightarrow> ('a, 'b, 'c, 't, mres) beff" where
  "do_op C (OSave ob) = ebind (object_save C ob True) (\<lambda>ob'. ereturn (RObj ob'))"
| "do_op C (ODelete ob) = ebind (object_delete C False ob) (\<lambda>_. ereturn RDone)"
| "do_op C (OGet i) = ebind (model_get C i True) (\<lambda>r. case r of None \<Rightarrow> eraise P_AttributeError | Some ob \<Rightarrow> ereturn (RObj ob))"
| "do_op C (OFind args) = ebind (model_find C None None None args) (\<lambda>obs. ereturn (RObjs obs))"

fun op_ok :: "('a, 'b, 'c, 't) bconf \<Rightarrow> int set \<Rightarrow> ('a, 'b, 'c, 't) bstate \<Rightarrow> mop \<Rightarrow> bool" where
  \<comment> \<open>objects of this model's schema, new or known, and ids that are not those of other models\<close>
  "op_ok C F s (OSave ob) = (own_obj C ob \<and> o_nid ob \<noteq> 0 \<and> known_id s ob \<and> (\<forall>i\<in>F. o_id ob \<noteq> Some i))"
| "op_ok C F s (ODelete ob) = (\<exists>k>0. o_id ob = Some k \<and> k \<notin> F)"
| "op_ok C F s (OGet i) = (0 < i \<and> i \<notin> F)"
| "op_ok C F s (OFind args) = True"

fun may_refuse :: "mop \<Rightarrow> bool" where
  "may_refuse (OSave ob) = True"
| "may_refuse (OFind args) = True"
| "may_refuse _ = False"

definition answered :: "mop \<Rightarrow> ('a, 'b, 'c, 't) bstate \<Rightarrow> ('a, 'b, 'c, 't) bstate \<Rightarrow> mres res \<Rightarrow> bool" where
  \<comment> \<open>the call returned, did not find what it was asked for, or is a save or a search that was refused before it changed anything\<close>
  "answered m s s1 r = (case r of Inr _ \<Rightarrow> True | Inl e \<Rightarrow> (\<exists>i. m = OGet i) \<and> e = E_NotFound \<or> may_refuse m \<and> s1 = s)"

inductive crun :: "('a, 'b, 'c, 't) bconf \<Rightarrow> int set \<Rightarrow> ('a, 'b, 'c, 't) bstate \<Rightarrow> (mop \<times> mres res) list \<Rightarrow> ('a, 'b, 'c, 't) bstate \<Rightarrow> bool"
  for C F where
  crun_nil: "crun C F s [] s"
| crun_step: "op_ok C F s m \<Longrightarrow> do_op C m s = (s1, r) \<Longrightarrow> answered m s s1 r \<Longrightarrow> crun C F s1 tr s' \<Longrightarrow> crun C F s ((m, r) # tr) s'"

section \<open>The specification\<close>

type_synonym objects = "int \<rightharpoonup> jobj"

definition objs_conflict :: "('a, 'b, 'c, 't) bconf \<Rightarrow> jobj \<Rightarrow> jobj \<Rightarrow> bool" where
  "objs_conflict C ob q = (case (index_row C ob, index_row C q) of (Inr r, Inr r') \<Rightarrow> row_conflict (uniq_cols C) r r' | _ \<Rightarrow> False)"

definition sql_args :: "props \<Rightarrow> props" where
  \<comment> \<open>True and False are 1 and 0 in the table\<close>
  "sql_args args = map (\<lambda>(k, v). (k, case v of PBool b \<Rightarrow> PInt (if b then 1 else 0) | _ \<Rightarrow> v)) args"

definition is_match :: "('a, 'b, 'c, 't) bconf \<Rightarrow> props \<Rightarrow> jobj \<Rightarrow> bool" where
  "is_match C args ob = (case index_row C ob of Inr r \<Rightarrow> row_matches (c_tab C) (sql_args args) r | Inl _ \<Rightarrow> False)"

inductive aop :: "('a, 'b, 'c, 't) bconf \<Rightarrow> objects \<Rightarrow> mop \<Rightarrow> mres res \<Rightarrow> objects \<Rightarrow> bool" for C where
  a_save: "0 < k \<Longrightarrow> ob' = (with_acl ob)\<lparr>o_id := Some k\<rparr> \<Longrightarrow> (case o_id ob of None \<Rightarrow> G k = None | Some i \<Rightarrow> i = k \<and> G k \<noteq> None)
    \<Longrightarrow> (\<forall>j q. j \<noteq> k \<longrightarrow> G j = Some q \<longrightarrow> \<not> objs_conflict C ob' q) \<Longrightarrow> aop C G (OSave ob) (Inr (RObj ob')) (G(k \<mapsto> ob'))"
| a_delete: "o_id ob = Some k \<Longrightarrow> aop C G (ODelete ob) (Inr RDone) (G(k := None))"
| a_get: "G k = Some ob \<Longrightarrow> aop C G (OGet k) (Inr (RObj ob)) G"
| a_miss: "G k = None \<Longrightarrow> aop C G (OGet k) (Inl E_NotFound) G"
| a_find: "set obs = {ob \<in> ran G. is_match C args ob} \<Longrightarrow> distinct obs \<Longrightarrow> aop C G (OFind args) (Inr (RObjs obs)) G"
| a_refuse: "may_refuse m \<Longrightarrow> aop C G m (Inl e) G"

inductive arun :: "('a, 'b, 'c, 't) bconf \<Rightarrow> objects \<Rightarrow> (mop \<times> mres res) list \<Rightarrow> objects \<Rightarrow> bool" for C where
  arun_nil: "arun C G [] G"
| arun_step: "aop C G m r G1 \<Longrightarrow> arun C G1 tr G' \<Longrightarrow> arun C G ((m, r) # tr) G'"

section \<open>The simulation\<close>

definition model_env :: "('a, 'b, 'c, 't) bconf \<Rightarrow> bool" where
  "model_env C = (quiet C \<and> benv_laws (c_env C) \<and> itable_laws (uniq_cols C) (c_tab C) \<and> \<not> c_nosave C \<and> \<not> c_readonly C)"

definition stored :: "('a, 'b, 'c, 't) bconf \<Rightarrow> ('a, 'b, 'c, 't) bstate \<Rightarrow> int \<Rightarrow> jobj \<Rightarrow> bool" where
  "stored C s k ob = (o_id ob = Some k \<and> (\<exists>data. st_lookup (b_store s) k = Some data \<and> data \<noteq> [] \<and> unserialize C k data = Inr ob))"

definition sim :: "('a, 'b, 'c, 't) bconf \<Rightarrow> int set \<Rightarrow> ('a, 'b, 'c, 't) bstate \<Rightarrow> objects \<Rightarrow> bool" where
  "sim C F s G = (st_wf (b_store s) \<and> tab_wf C s
     \<and> (\<forall>k ob. G k = Some ob \<longrightarrow> 0 < k \<and> k \<notin> F \<and> stored C s k ob \<and> (\<exists>r. index_row C ob = Inr r))
     \<and> (\<forall>k. 0 < k \<longrightarrow> k \<notin> F \<longrightarrow> G k = None \<longrightarrow> st_lookup (b_store s) k = None)
     \<and> (\<forall>k\<in>F. 0 < k \<longrightarrow> st_lookup (b_store s) k \<noteq> None)
     \<and> set (x_rows (c_tab C) (b_tab s)) = {r. \<exists>ob \<in> ran G. index_row C ob = Inr r})"

lemma index_row_id: "index_row C ob = Inr r \<Longrightarrow> o_id ob = Some (r_id r)"
  by (auto simp: index_row_def rbind_eq_Inr py_assert_def split: option.splits if_splits)

lemma sim_start:
  assumes "st_wf (b_store s)" "x_rows (c_tab C) (b_tab s) = []" "\<And>k. 0 < k \<Longrightarrow> st_lookup (b_store s) k = None \<longleftrightarrow> k \<notin> F"
  shows "sim C F s Map.empty"
  using assms by (auto simp: sim_def tab_wf_def)

lemma simD:
  assumes "sim C F s G"
  shows "st_wf (b_store s)" "tab_wf C s"
    and "G k = Some ob \<Longrightarrow> 0 < k \<and> k \<notin> F \<and> stored C s k ob \<and> (\<exists>r. index_row C ob = Inr r)"
    and "0 < k \<Longrightarrow> k \<notin> F \<Longrightarrow> G k = None \<Longrightarrow> st_lookup (b_store s) k = None"
    and "k \<in> F \<Longrightarrow> 0 < k \<Longrightarrow> st_lookup (b_store s) k \<noteq> None"
    and "set (x_rows (c_tab C) (b_tab s)) = {r. \<exists>ob \<in> ran G. index_row C ob = Inr r}"
  using assms by (auto simp: sim_def)

lemma simI:
  assumes "st_wf (b_store s)" "tab_wf C s"
    and "\<And>k ob. G k = Some ob \<Longrightarrow> 0 < k \<and> k \<notin> F \<and> stored C s k ob \<and> (\<exists>r. index_row C ob = Inr r)"
    and "\<And>k. 0 < k \<Longrightarrow> k \<notin> F \<Longrightarrow> G k = None \<Longrightarrow> st_lookup (b_store s) k = None"
    and "\<And>k. k \<in> F \<Longrightarrow> 0 < k \<Longrightarrow> st_lookup (b_store s) k \<noteq> None"
    and "set (x_rows (c_tab C) (b_tab s)) = {r. \<exists>ob \<in> ran G. index_row C ob = Inr r}"
  shows "sim C F s G"
  using assms by (auto simp: sim_def)

lemma sim_get: "sim C F s G \<Longrightarrow> model_env C \<Longrightarrow> G k = Some ob \<Longrightarrow> model_get C k die s = (s, Inr (Some ob))"
proof -
  assume a: "sim C F s G" "model_env C" "G k = Some ob"
  then obtain data where "st_lookup (b_store s) k = Some data" "data \<noteq> []" "unserialize C k data = Inr ob" "0 < k" "st_wf (b_store s)"
    using simD(1) [OF a(1)] simD(3) [OF a(1,3)] by (auto simp: stored_def)
  then show ?thesis using a(2) by (intro model_get_stored) (auto simp: model_env_def)
qed

lemma sim_get_miss:
  assumes "sim C F s G" "model_env C" "G k = None" "0 < k" "k \<notin> F"
  shows "(\<exists>e. model_get C k True s = (s, Inl e))"
proof (cases "st_get (b_store s) k")
  case (Inl e)
  then show ?thesis using assms(4) by (simp add: model_get_def)
next
  case (Inr r)
  then have "r = None" using st_get_lookup [OF _ Inr] assms(1,3-5) by (auto simp: sim_def)
  then show ?thesis using Inr assms(4) by (simp add: model_get_def)
qed


lemma index_set_rows:
  assumes "itable_laws (uniq_cols C) (c_tab C)" "index_set C ob s = (s', Inr ())"
  shows "\<exists>r. index_row C ob = Inr r \<and> b_store s' = b_store s
    \<and> set (x_rows (c_tab C) (b_tab s')) = insert r {q \<in> set (x_rows (c_tab C) (b_tab s)). r_id q \<noteq> r_id r}
    \<and> (\<forall>q\<in>set (x_rows (c_tab C) (b_tab s)). r_id q \<noteq> r_id r \<longrightarrow> \<not> row_conflict (uniq_cols C) r q)"
proof -
  let ?X = "c_tab C" and ?t = "b_tab s"
  obtain r where r: "index_row C ob = Inr r" using assms(2) by (cases "index_row C ob") (auto simp: index_set_def sql_index_set_def ebind_app)
  have z: "x_select ?X ?t [(''id'', PInt (r_id r))] = map r_id (filter (\<lambda>q. r_id q = r_id r) (x_rows ?X ?t))"
  proof -
    have "row_matches ?X [(''id'', PInt (r_id r))] = (\<lambda>q. r_id q = r_id r)" by (rule ext) (simp add: row_matches_id [OF assms(1)])
    then show ?thesis using itable_select [OF assms(1)] by simp
  qed
  show ?thesis
  proof (cases "filter (\<lambda>q. r_id q = r_id r) (x_rows ?X ?t) = []")
    case True
    then obtain t' where t': "x_create ?X ?t r = Some t'" "s' = s\<lparr>b_tab := t'\<rparr>"
      using assms(2) by (auto simp: index_set_def sql_index_set_def ebind_app r z split: option.splits)
    from itable_create [OF assms(1) t'(1)] t'(2) True r show ?thesis by (auto simp: filter_empty_conv)
  next
    case False
    then obtain t' where t': "x_update ?X ?t r = Some t'" "s' = s\<lparr>b_tab := t'\<rparr>"
      using assms(2) by (auto simp: index_set_def sql_index_set_def ebind_app r z split: option.splits)
    from itable_update [OF assms(1) t'(1)] t'(2) False r show ?thesis by (auto simp: filter_empty_conv)
  qed
qed

lemma set_run:
  assumes "model_set C ob True True s = (s', Inr ob')" "model_env C" "own_obj C ob" "o_nid ob \<noteq> 0" "st_wf (b_store s)" "known_id s ob"
  obtains k r where "0 < k" "ob' = (with_acl ob)\<lparr>o_id := Some k\<rparr>" "st_wf (b_store s')" "stored C s' k ob'"
    "o_id ob = None \<longrightarrow> st_lookup (b_store s) k = None" "o_id ob = None \<or> o_id ob = Some k"
    "\<forall>i. i \<noteq> k \<longrightarrow> i \<noteq> 0 \<longrightarrow> st_lookup (b_store s') i = st_lookup (b_store s) i"
    "index_row C ob' = Inr r" "set (x_rows (c_tab C) (b_tab s')) = insert r {q \<in> set (x_rows (c_tab C) (b_tab s)). r_id q \<noteq> k}"
    "\<forall>q\<in>set (x_rows (c_tab C) (b_tab s)). r_id q \<noteq> k \<longrightarrow> \<not> row_conflict (uniq_cols C) r q"
proof -
  have e: "quiet C" "benv_laws (c_env C)" "itable_laws (uniq_cols C) (c_tab C)" using assms(2) by (auto simp: model_env_def)
  have a: "o_aclobj ob = None" using assms(3) by (simp add: own_obj_def)
  obtain s1 where s1: "model_set C ob False True s = (s1, Inr ob')" "index_set C ob' s1 = (s', Inr ())"
    using model_set_returns [OF assms(1) e(1) a assms(4)] by auto
  obtain data where d: "object_bytes C (with_acl ob) = Inr data" "put_object C (with_acl ob) data s = (s1, Inr ob')"
    using model_set_store [OF s1(1) e(1) a assms(4)] by auto
  have ne: "data \<noteq> []" using d(1) e(2) by (auto simp: object_bytes_def rbind_eq_Inr benv_laws_def)
  have kn: "known_id s (with_acl ob)" using assms(6) by (simp add: known_id_def)
  obtain k where k: "0 < k" "ob' = (with_acl ob)\<lparr>o_id := Some k\<rparr>" "st_wf (b_store s1)" "st_lookup (b_store s1) k = Some data"
    "b_tab s1 = b_tab s" "o_id ob = None \<longrightarrow> st_lookup (b_store s) k = None" "o_id ob = None \<or> o_id ob = Some k"
    "\<forall>i. i \<noteq> k \<longrightarrow> i \<noteq> 0 \<longrightarrow> st_lookup (b_store s1) i = st_lookup (b_store s) i"
    using put_object_stored [OF d(2) assms(5) ne kn] by auto
  have own: "own_obj C (with_acl ob)" using assms(3) by (auto simp: own_obj_def with_acl_def)
  have u: "unserialize C k data = Inr ob'"
    unfolding k(2) using k(1,7) by (intro unserialize_object [OF d(1) e(2) own e(1)]) auto
  obtain r where r: "index_row C ob' = Inr r" "b_store s' = b_store s1"
    "set (x_rows (c_tab C) (b_tab s')) = insert r {q \<in> set (x_rows (c_tab C) (b_tab s1)). r_id q \<noteq> r_id r}"
    "\<forall>q\<in>set (x_rows (c_tab C) (b_tab s1)). r_id q \<noteq> r_id r \<longrightarrow> \<not> row_conflict (uniq_cols C) r q"
    using index_set_rows [OF e(3) s1(2)] by blast
  have i: "r_id r = k" using index_row_id [OF r(1)] k(2) by simp
  have st: "stored C s' k ob'" using k(2,4) ne u r(2) by (simp add: stored_def)
  show thesis by (rule that [of k r, OF k(1,2) _ st k(6,7) _ r(1)]) (use k(3,5,8) r i in simp_all)
qed

lemma stored_frame: "st_lookup (b_store s') k = st_lookup (b_store s) k \<Longrightarrow> stored C s' k ob = stored C s k ob"
  by (simp add: stored_def)

lemma sim_save:
  assumes "sim C F s G" "model_env C" "op_ok C F s (OSave ob)" "object_save C ob True s = (s', Inr ob')"
  shows "\<exists>G'. aop C G (OSave ob) (Inr (RObj ob')) G' \<and> sim C F s' G' \<and> (\<forall>i\<in>F. 0 < i \<longrightarrow> st_lookup (b_store s') i = st_lookup (b_store s) i)"
proof -
  have ms: "model_set C ob True True s = (s', Inr ob')" using object_save_sets [OF assms(4)] assms(2) by (simp add: model_env_def)
  have own: "own_obj C ob" "o_nid ob \<noteq> 0" "known_id s ob" "\<forall>i\<in>F. o_id ob \<noteq> Some i" using assms(3) by auto
  have wf: "st_wf (b_store s)" "tab_wf C s" using assms(1) by (auto simp: sim_def)
  obtain k r where k: "0 < k" "ob' = (with_acl ob)\<lparr>o_id := Some k\<rparr>" "st_wf (b_store s')" "stored C s' k ob'"
    "o_id ob = None \<longrightarrow> st_lookup (b_store s) k = None" "o_id ob = None \<or> o_id ob = Some k"
    "\<forall>i. i \<noteq> k \<longrightarrow> i \<noteq> 0 \<longrightarrow> st_lookup (b_store s') i = st_lookup (b_store s) i"
    "index_row C ob' = Inr r" "set (x_rows (c_tab C) (b_tab s')) = insert r {q \<in> set (x_rows (c_tab C) (b_tab s)). r_id q \<noteq> k}"
    "\<forall>q\<in>set (x_rows (c_tab C) (b_tab s)). r_id q \<noteq> k \<longrightarrow> \<not> row_conflict (uniq_cols C) r q"
    by (rule set_run [OF ms assms(2) own(1,2) wf(1) own(3)])
  have kF: "k \<notin> F" using own(4) k(1,5,6) assms(1) by (auto simp: sim_def)
  have id: "o_id q = Some j" if "G j = Some q" for j q using that assms(1) by (auto simp: sim_def stored_def)
  have G: "case o_id ob of None \<Rightarrow> G k = None | Some i \<Rightarrow> i = k \<and> G k \<noteq> None"
  proof (cases "o_id ob")
    case None
    then have "st_lookup (b_store s) k = None" using k(5) by simp
    then show ?thesis using None assms(1) by (auto simp: sim_def stored_def) (metis not_None_eq option.distinct(1))
  next
    case (Some i)
    then have "i = k" "st_lookup (b_store s) k \<noteq> None" using k(6) own(3) by (auto simp: known_id_def)
    then show ?thesis using Some assms(1) k(1) kF by (auto simp: sim_def)
  qed
  have rows: "set (x_rows (c_tab C) (b_tab s)) = {r. \<exists>ob \<in> ran G. index_row C ob = Inr r}" using assms(1) by (simp add: sim_def)
  have nc: "\<forall>j q. j \<noteq> k \<longrightarrow> G j = Some q \<longrightarrow> \<not> objs_conflict C ob' q"
  proof (intro allI impI)
    fix j q
    assume q: "j \<noteq> k" "G j = Some q"
    obtain r' where r': "index_row C q = Inr r'" using simD(3) [OF assms(1) q(2)] by blast
    then have "r_id r' = j" "r' \<in> set (x_rows (c_tab C) (b_tab s))" using index_row_id [OF r'] id [OF q(2)] q(2) by (auto simp: rows ran_def)
    then show "\<not> objs_conflict C ob' q" using k(8,10) r' q(1) by (simp add: objs_conflict_def)
  qed
  let ?G = "G(k \<mapsto> ob')"
  have "tab_wf C s'" using keepsD [OF keeps_model_set wf(2) ms] assms(2) by (simp add: model_env_def)
  moreover have "0 < j \<and> j \<notin> F \<and> stored C s' j q \<and> (\<exists>r. index_row C q = Inr r)" if "?G j = Some q" for j q
  proof (cases "j = k")
    case False
    then have "G j = Some q" using that by simp
    from simD(3) [OF assms(1) this] show ?thesis using k(7) False stored_frame [of s' j s C q] by simp
  qed (use that k(1,4,8) kF in auto)
  moreover have "st_lookup (b_store s') j = None" if "0 < j" "j \<notin> F" "?G j = None" for j
    using that simD(4) [OF assms(1), of j] k(7) by (auto split: if_splits)
  moreover have "st_lookup (b_store s') j \<noteq> None" if "j \<in> F" "0 < j" for j
    using that simD(5) [OF assms(1), of j] k(7) kF by (metis less_irrefl)
  moreover have "set (x_rows (c_tab C) (b_tab s')) = {r. \<exists>ob \<in> ran ?G. index_row C ob = Inr r}"
  proof -
    have "{q \<in> set (x_rows (c_tab C) (b_tab s)). r_id q \<noteq> k} = {r. \<exists>j q. j \<noteq> k \<and> G j = Some q \<and> index_row C q = Inr r}"
      unfolding rows using index_row_id id by (fastforce simp: ran_def)
    then show ?thesis unfolding k(9) using k(8) by (auto simp: ran_def)
  qed
  ultimately have "sim C F s' ?G" using k(3) by (intro simI)
  moreover have "aop C G (OSave ob) (Inr (RObj ob')) ?G" by (rule a_save [OF k(1,2) G nc])
  ultimately show ?thesis using k(7) kF by (intro exI [of _ ?G]) auto
qed


lemma sim_delete:
  assumes "sim C F s G" "model_env C" "op_ok C F s (ODelete ob)" "object_delete C False ob s = (s', Inr ())"
  shows "\<exists>G'. aop C G (ODelete ob) (Inr RDone) G' \<and> sim C F s' G' \<and> (\<forall>i\<in>F. 0 < i \<longrightarrow> st_lookup (b_store s') i = st_lookup (b_store s) i)"
proof -
  obtain k where k: "0 < k" "o_id ob = Some k" "k \<notin> F" using assms(3) by auto
  have e: "quiet C" "itable_laws (uniq_cols C) (c_tab C)" "\<not> c_nosave C" "\<not> c_readonly C" using assms(2) by (auto simp: model_env_def)
  have del: "delete_obj C ob s = (s', Inr ())" using assms(4) e by (simp add: object_delete_def trig_quiet)
  note d = delete_removes [OF del e(1) simD(1) [OF assms(1)] e(2) k(2,1)]
  let ?G = "G(k := None)"
  have id: "o_id q = Some j" if "G j = Some q" for j q using simD(3) [OF assms(1) that] by (simp add: stored_def)
  have "tab_wf C s'"
    using d simD(2) [OF assms(1)] by (simp add: tab_wf_def sorted_wrt_filter)
  moreover have "0 < j \<and> j \<notin> F \<and> stored C s' j q \<and> (\<exists>r. index_row C q = Inr r)" if "?G j = Some q" for j q
    using that simD(3) [OF assms(1), of j q] d stored_frame [of s' j s C q] by (auto split: if_splits)
  moreover have "st_lookup (b_store s') j = None" if "0 < j" "j \<notin> F" "?G j = None" for j
    using that simD(4) [OF assms(1), of j] d by (auto split: if_splits)
  moreover have "st_lookup (b_store s') j \<noteq> None" if "j \<in> F" "0 < j" for j
    using that simD(5) [OF assms(1), of j] d k(3) by auto
  moreover have "st_wf (b_store s')" using d by simp
  moreover have "set (x_rows (c_tab C) (b_tab s')) = {r. \<exists>ob \<in> ran ?G. index_row C ob = Inr r}"
  proof -
    have "{q \<in> set (x_rows (c_tab C) (b_tab s)). r_id q \<noteq> k} = {r. \<exists>j q. j \<noteq> k \<and> G j = Some q \<and> index_row C q = Inr r}"
      unfolding simD(6) [OF assms(1)] using index_row_id id by (fastforce simp: ran_def)
    then show ?thesis using d by (auto simp: ran_def)
  qed
  ultimately have "sim C F s' ?G" by (intro simI)
  moreover have "aop C G (ODelete ob) (Inr RDone) ?G" by (rule a_delete [OF k(2)])
  ultimately show ?thesis using d k(3) by (intro exI [of _ ?G]) auto
qed

lemma tab_ids: "tab_wf C s \<Longrightarrow> distinct (map r_id (x_rows (c_tab C) (b_tab s)))"
proof -
  have "distinct (map r_id rows)" if "sorted_wrt (\<lambda>q r. \<not> row_conflict u r q) rows" for u rows
    using that by (induction rows) (auto simp: row_conflict_def)
  then show "tab_wf C s \<Longrightarrow> distinct (map r_id (x_rows (c_tab C) (b_tab s)))" by (simp add: tab_wf_def)
qed

lemma find_ids_query:
  assumes "itable_laws (uniq_cols C) (c_tab C)" "find_ids C None None None args s = (s', Inr ids)"
  shows "s' = s \<and> ids = map r_id (filter (row_matches (c_tab C) (sql_args args)) (x_rows (c_tab C) (b_tab s)))"
  using assms(2) itable_select [OF assms(1)]
  by (auto simp: find_ids_def find_query_def sql_args_def Let_def split: if_splits)

lemma emap_reads:
  assumes "\<And>i. i \<in> set ids \<Longrightarrow> f i s = (s, Inr (g i))"
  shows "emap f ids s = (s, Inr (map g ids))"
  using assms by (induction ids) (auto simp: ebind_app)

lemma concat_somes: "\<forall>x\<in>set xs. f x \<noteq> None \<Longrightarrow>
    concat (map (\<lambda>x. case f x of None \<Rightarrow> [] | Some y \<Rightarrow> [y]) xs) = map (\<lambda>x. the (f x)) xs"
  by (induction xs) auto

lemma sim_find:
  assumes "sim C F s G" "model_env C" "model_find C None None None args s = (s', Inr obs)"
  shows "s' = s \<and> aop C G (OFind args) (Inr (RObjs obs)) G"
proof -
  have e: "itable_laws (uniq_cols C) (c_tab C)" using assms(2) by (simp add: model_env_def)
  let ?rows = "filter (row_matches (c_tab C) (sql_args args)) (x_rows (c_tab C) (b_tab s))"
  let ?get = "\<lambda>i. ecatch (model_get C i True) (\<lambda>e. if e = E_NotFound then ereturn None else eraise e)"
  obtain s1 ids rs where r: "find_ids C None None None args s = (s1, Inr ids)" "emap ?get ids s1 = (s', Inr rs)"
    "obs = concat (map (\<lambda>r. case r of None \<Rightarrow> [] | Some ob \<Rightarrow> [ob]) rs)"
    using assms(3) by (auto simp: model_find_def ebind_eq_Inr)
  have ids: "s1 = s" "ids = map r_id ?rows" using find_ids_query [OF e r(1)] by auto
  have at: "\<exists>ob. G (r_id r) = Some ob \<and> index_row C ob = Inr r" if "r \<in> set (x_rows (c_tab C) (b_tab s))" for r
  proof -
    have "r \<in> {r. \<exists>ob \<in> ran G. index_row C ob = Inr r}" using that simD(6) [OF assms(1)] by (simp only:)
    then obtain ob k where "G k = Some ob" "index_row C ob = Inr r" by (auto simp: ran_def)
    then show ?thesis using index_row_id simD(3) [OF assms(1)] by (fastforce simp: stored_def)
  qed
  have "?get i s = (s, Inr (G i))" if i: "i \<in> set ids" for i
  proof -
    obtain ob where "G i = Some ob" using i ids at by auto
    then show ?thesis using sim_get [OF assms(1,2)] by (simp add: ecatch_def)
  qed
  then have "emap ?get ids s = (s, Inr (map G ids))" by (rule emap_reads)
  then have s': "s' = s" "rs = map G ids" using r(2) ids(1) by auto
  have "obs = map (\<lambda>r. the (G (r_id r))) ?rows"
  proof -
    have "\<forall>r\<in>set ?rows. G (r_id r) \<noteq> None" using at by fastforce
    then show ?thesis using concat_somes [of ?rows "\<lambda>r. G (r_id r)"] by (simp add: r(3) s'(2) ids(2) comp_def)
  qed
  moreover have "distinct (map (\<lambda>r. the (G (r_id r))) ?rows)"
  proof -
    have "distinct (map o_id (map (\<lambda>r. the (G (r_id r))) ?rows))"
    proof -
      have "map o_id (map (\<lambda>r. the (G (r_id r))) ?rows) = map Some (map r_id ?rows)"
        using at index_row_id by (fastforce simp: comp_def)
      moreover have "distinct (map r_id ?rows)" using tab_ids [OF simD(2) [OF assms(1)]] by (simp add: distinct_map_filter)
      ultimately show ?thesis by (simp add: distinct_map del: map_map)
    qed
    then show ?thesis by (simp only: distinct_map)
  qed
  moreover have "set (map (\<lambda>r. the (G (r_id r))) ?rows) = {ob \<in> ran G. is_match C args ob}"
  proof (intro set_eqI iffI)
    fix ob
    assume "ob \<in> set (map (\<lambda>r. the (G (r_id r))) ?rows)"
    then show "ob \<in> {ob \<in> ran G. is_match C args ob}" using at by (force simp: is_match_def ran_def)
  next
    fix ob
    assume ob: "ob \<in> {ob \<in> ran G. is_match C args ob}"
    then obtain r where r: "index_row C ob = Inr r" "row_matches (c_tab C) (sql_args args) r" by (auto simp: is_match_def split: sum.splits)
    then have row: "r \<in> set (x_rows (c_tab C) (b_tab s))" using ob simD(6) [OF assms(1)] by auto
    obtain k where k: "G k = Some ob" using ob by (auto simp: ran_def)
    then have "k = r_id r" using simD(3) [OF assms(1) k] index_row_id [OF r(1)] by (simp add: stored_def)
    then show "ob \<in> set (map (\<lambda>r. the (G (r_id r))) ?rows)" using k row r(2) by force
  qed
  ultimately show ?thesis using s'(1) a_find by metis
qed


lemma sim_step:
  assumes "sim C F s G" "model_env C" "op_ok C F s m" "do_op C m s = (s', r)" "answered m s s' r"
  shows "\<exists>G'. aop C G m r G' \<and> sim C F s' G' \<and> (\<forall>i\<in>F. 0 < i \<longrightarrow> st_lookup (b_store s') i = st_lookup (b_store s) i)"
proof (cases m)
  case (OSave ob)
  show ?thesis
  proof (cases r)
    case (Inl e)
    then have "s' = s" using assms(5) OSave by (simp add: answered_def)
    moreover have "aop C G m r G" unfolding Inl OSave by (rule a_refuse) simp
    ultimately show ?thesis using assms(1) by blast
  next
    case (Inr x)
    then obtain ob' where "object_save C ob True s = (s', Inr ob')" "r = Inr (RObj ob')"
      using assms(4) OSave by (auto simp: ebind_app split: sum.splits prod.splits)
    with sim_save [OF assms(1,2)] assms(3) OSave show ?thesis by blast
  qed
next
  case (ODelete ob)
  then have "object_delete C False ob s = (s', Inr ())" "r = Inr RDone"
    using assms(4,5) by (auto simp: answered_def ebind_app split: sum.splits prod.splits)
  with sim_delete [OF assms(1,2)] assms(3) ODelete show ?thesis by blast
next
  case (OGet i)
  then have i: "0 < i" "i \<notin> F" using assms(3) by auto
  show ?thesis
  proof (cases "G i")
    case None
    obtain e where "model_get C i True s = (s, Inl e)" using sim_get_miss [OF assms(1,2) None i] by blast
    then have "s' = s" "r = Inl E_NotFound" using assms(4,5) OGet by (auto simp: answered_def ebind_app)
    then show ?thesis using None assms(1) OGet a_miss by blast
  next
    case (Some ob)
    then have "s' = s" "r = Inr (RObj ob)" using assms(4) OGet sim_get [OF assms(1,2) Some] by (auto simp: ebind_app)
    then show ?thesis using Some assms(1) OGet a_get by blast
  qed
next
  case (OFind args)
  show ?thesis
  proof (cases r)
    case (Inl e)
    then have "s' = s" using assms(5) OFind by (simp add: answered_def)
    moreover have "aop C G m r G" unfolding Inl OFind by (rule a_refuse) simp
    ultimately show ?thesis using assms(1) by blast
  next
    case (Inr x)
    then obtain obs where "model_find C None None None args s = (s', Inr obs)" "r = Inr (RObjs obs)"
      using assms(4) OFind by (auto simp: ebind_app split: sum.splits prod.splits)
    with sim_find [OF assms(1,2)] assms(1) OFind show ?thesis by blast
  qed
qed

text \<open>C1: A model is a map from ids to objects, as long as its calls are answered: every sequence of saving, deleting, getting and
  finding that a client makes, on any storage client, is a sequence of the specification with the same answers. Answered
  calls are those that return, a get of an id that is not there, and saves and searches that are refused before they
  change anything (an empty or taken unique value, an unknown column). A save that the index refuses after the object was
  stored is not one: it leaves an object that can be read and not found. Saving gives a new object an id that no object
  has; two objects with the same unique value are never there together; getting reads exactly what is there; finding
  lists every object whose columns equal the asked values (as the database compares them) once. The records of
  other models in the store stay as they are.\<close>

theorem model_refines_map:
  assumes "crun C F s tr s'" "sim C F s G" "model_env C"
  shows "\<exists>G'. arun C G tr G' \<and> sim C F s' G' \<and> (\<forall>i\<in>F. 0 < i \<longrightarrow> st_lookup (b_store s') i = st_lookup (b_store s) i)"
  using assms
proof (induction arbitrary: G rule: crun.induct)
  case (crun_nil s)
  then show ?case using arun_nil by blast
next
  case (crun_step s m s1 r tr s')
  obtain G1 where G1: "aop C G m r G1" "sim C F s1 G1" "\<forall>i\<in>F. 0 < i \<longrightarrow> st_lookup (b_store s1) i = st_lookup (b_store s) i"
    using sim_step [OF crun_step.prems(1,2) crun_step.hyps(1-3)] by blast
  obtain G' where "arun C G1 tr G'" "sim C F s' G'" "\<forall>i\<in>F. 0 < i \<longrightarrow> st_lookup (b_store s') i = st_lookup (b_store s1) i"
    using crun_step.IH [OF G1(2) crun_step.prems(2)] by blast
  then show ?case using G1 arun_step by (metis (no_types, lifting))
qed


lemma mem_lookup: "st_lookup (b_store (mem_start rows)) k = None"
  by (simp add: mem_start_def rdb_get_def mem_rdb_def mem_redis_def mem_empty_def)

theorem model_refines_map_witness:
  "\<exists>s' ob G'. arun mem_conf Map.empty [(OSave (named_obj ''x''), Inr (RObj ob)), (OGet 7, Inl E_NotFound)] G' \<and> sim mem_conf {} s' G'"
proof -
  let ?s = "mem_start []"
  have "run_ok (do_op mem_conf (OSave (named_obj ''x'')) ?s)" by code_simp
  then obtain s1 x where a: "do_op mem_conf (OSave (named_obj ''x'')) ?s = (s1, Inr x)" by (rule run_okE)
  then obtain ob where x: "x = RObj ob" by (auto simp: ebind_app split: sum.splits prod.splits)
  have "snd (do_op mem_conf (OGet 7) (fst (do_op mem_conf (OSave (named_obj ''x'')) ?s))) = Inl E_NotFound" by code_simp
  then obtain s2 where b: "do_op mem_conf (OGet 7) s1 = (s2, Inl E_NotFound)" using a by (metis fst_conv prod.exhaust_sel snd_conv)
  have own: "op_ok mem_conf {} ?s (OSave (named_obj ''x''))" using own_named by (simp add: named_obj_def known_id_def)
  have "op_ok mem_conf {} s1 (OGet 7)" by simp
  then have "crun mem_conf {} ?s [(OSave (named_obj ''x''), Inr (RObj ob)), (OGet 7, Inl E_NotFound)] s2"
    using crun_step [OF own a] crun_step [OF _ b _ crun_nil] by (auto simp: answered_def x)
  moreover have "sim mem_conf {} ?s Map.empty"
    by (rule sim_start [OF wf_mem]) (simp_all add: mem_lookup, simp add: mem_start_def mem_itable_def)
  moreover have "model_env mem_conf"
    using quiet_mem plain_env_laws itable_mem by (simp add: model_env_def) (simp add: mem_conf_def)
  ultimately show ?thesis using model_refines_map [of mem_conf "{}" ?s] by blast
qed

end
