(* ===== verification/GedisCmds.thy ===== *)
theory GedisCmds
  imports SchemaMeta
begin

text \<open>
  The commands that the Gedis server knows (\<^verbatim>\<open>servers/gedis/GedisCmds.py\<close>, \<^verbatim>\<open>GedisCmd.py\<close>): the methods of an actor are read from
  their source, which names in its documentation the schemas of what goes in and comes out. The state is the factory of schemas
  and the data object of the actor. Which schema the type of a property refers to, and the python text of its default, are
  arguments. Reading the rights of a method (toml) may raise; they become an attribute of an object that nothing reads them from.
\<close>

section \<open>Reading the source of a method\<close>

datatype mstate = START | DEF | COMMENT | CODE | SCHEMAI | SCHEMAO | SCHEMA_ACL

record msrc =
  ms_state :: mstate
  ms_code :: string
  ms_comment :: string
  ms_in :: string
  ms_out :: string
  ms_acl :: string
  ms_args :: "string list"

definition doc_mark :: string where
  "doc_mark = [CHR 0x22, CHR 0x22, CHR 0x22]"

definition block_mark :: "string \<Rightarrow> bool" where
  "block_mark l = (starts_with (replicate 3 (CHR 0x60)) l \<or> starts_with (replicate 3 (CHR 0x27)) l)"

definition def_args :: "string \<Rightarrow> string list res" where
  \<comment> \<open>the arguments on the line of the definition, which is in lower case here\<close>
  "def_args l = (if str_in ''self'' l then
       (if CHR '','' \<in> set l then rbind (split1 (CHR '','') l) (\<lambda>(_, arg). rbind (split1 (CHR '')'') arg) (\<lambda>(args, _).
          Inr (map (text_strip True) (split_char (CHR '','') args))))
        else Inr [])
     else rbind (split1 (CHR ''('') l) (\<lambda>(_, arg).
       Inr (case split_first (CHR '')'') arg of None \<Rightarrow> [arg] | Some (a, b) \<Rightarrow> [a, b])))"

definition in_schema :: "mstate \<Rightarrow> bool" where
  "in_schema st = (st = SCHEMAI \<or> st = SCHEMAO \<or> st = SCHEMA_ACL)"

definition block_state :: "string \<Rightarrow> mstate" where
  "block_state l = (if ends_with ''out'' l then SCHEMAO else if ends_with ''acl'' l then SCHEMA_ACL
     else if ends_with ''in'' l then SCHEMAI else COMMENT)"

definition keep_line :: "msrc \<Rightarrow> string \<Rightarrow> msrc res" where
  "keep_line st line = (let l = line @ [newline] in case ms_state st of
       SCHEMAI \<Rightarrow> Inr (st\<lparr>ms_in := ms_in st @ l\<rparr>)
     | SCHEMAO \<Rightarrow> Inr (st\<lparr>ms_out := ms_out st @ l\<rparr>)
     | SCHEMA_ACL \<Rightarrow> Inr (st\<lparr>ms_acl := ms_acl st @ l\<rparr>)
     | COMMENT \<Rightarrow> Inr (st\<lparr>ms_comment := ms_comment st @ l\<rparr>)
     | CODE \<Rightarrow> Inr (st\<lparr>ms_code := ms_code st @ l\<rparr>)
     | DEF \<Rightarrow> Inr (st\<lparr>ms_code := ms_code st @ l\<rparr>)
     | START \<Rightarrow> Inl E_Base)"

definition method_line :: "msrc \<Rightarrow> string \<Rightarrow> msrc res" where
  "method_line st line = (let l = lower (strip line) in
     if starts_with ''@j.baseclasses'' l then Inr st
     else if ms_state st = START \<and> starts_with ''def'' l then
       rbind (def_args l) (\<lambda>a. Inr (st\<lparr>ms_state := DEF, ms_args := a\<rparr>))
     else if starts_with doc_mark l then
       (if ms_state st = DEF then Inr (st\<lparr>ms_state := COMMENT\<rparr>)
        else if ms_state st = COMMENT then Inr (st\<lparr>ms_state := CODE\<rparr>)
        else Inl E_Base)
     else if block_mark l then
       (if in_schema (ms_state st) then Inr (st\<lparr>ms_state := COMMENT\<rparr>)
        else if ms_state st = COMMENT then Inr (st\<lparr>ms_state := block_state l\<rparr>)
        else Inl E_Base)
     else keep_line st line)"

definition msrc_start :: msrc where
  "msrc_start = \<lparr>ms_state = START, ms_code = [], ms_comment = [], ms_in = [], ms_out = [], ms_acl = [], ms_args = []\<rparr>"

definition method_source :: "string \<Rightarrow> msrc res" where
  "method_source txt = rfold method_line msrc_start (lines (text_strip True txt))"

definition arg_name :: "string \<Rightarrow> string" where
  "arg_name arg = (if CHR ''='' \<in> set arg then strip (hd (split_char (CHR ''='') arg)) else arg)"

definition args_process :: "string list \<Rightarrow> string list" where
  "args_process args = foldl (\<lambda>res arg. if arg_name arg \<in> set res then res else res @ [arg_name arg]) [] args"

definition method_args :: "string list \<Rightarrow> string list" where
  "method_args args = remove1 ''user_session'' (remove1 ''schema_out'' (args_process args))"

section \<open>Commands and schemas of an actor\<close>

record cmddata =
  cd_name :: string
  cd_comment :: string
  cd_in_url :: string
  cd_out_url :: string
  cd_args :: "string list"
  cd_public :: bool

record gcmd =
  gc_namespace :: string
  gc_data :: cmddata
  gc_in :: "schema option"
  gc_out :: "schema option"

record 'f gcmds =
  gs_factory :: "'f sfactory"
  gs_name :: string
  gs_namespace :: string
  gs_schemas :: "(string \<times> string) list"
  gs_data :: "cmddata list"
  gs_cmds :: "(string \<times> gcmd) list"

type_synonym ('f, 'a) geff = "('f gcmds, 'a) eff"

definition on_factory :: "('f sfactory, 'a) eff \<Rightarrow> ('f, 'a) geff" where
  "on_factory m = (\<lambda>s. case m (gs_factory s) of (f, r) \<Rightarrow> (s\<lparr>gs_factory := f\<rparr>, r))"

definition schema_get :: "(string \<times> string) list \<Rightarrow> string \<Rightarrow> (string \<times> string) option" where
  "schema_get ss url = (let u = strip (strip_chars ''!'' (lower url)) in List.find (\<lambda>(v, _). v = u) ss)"

definition schema_url_add :: "string \<Rightarrow> string \<Rightarrow> ('f, unit) geff" where
  "schema_url_add url0 content = (let url1 = strip url0;
       url = (case split_first (CHR ''#'') url1 of None \<Rightarrow> url1 | Some (a, _) \<Rightarrow> strip a) in
     if CHR ''!'' \<in> set url then eraise E_Base
     else ebind (eget (\<lambda>s. schema_get (gs_schemas s) url)) (\<lambda>found.
       if (case found of None \<Rightarrow> True | Some (u, _) \<Rightarrow> u = [])
       then emod (\<lambda>s. s\<lparr>gs_schemas := gs_schemas s @ [(url, content)]\<rparr>) else ereturn ()))"

definition object_type :: "jstype \<Rightarrow> jstype option" where
  \<comment> \<open>the type of an object, or of the objects in a list\<close>
  "object_type t = (case ty_sub t of
       Some u \<Rightarrow> if type_name (ty_klass t) = ''list'' \<and> ty_klass u = KJSXObject then Some u
         else if type_name (ty_klass t) = ''jsxobject'' then Some t else None
     | None \<Rightarrow> if type_name (ty_klass t) = ''jsxobject'' then Some t else None)"

fun schema_property_add :: "nat \<Rightarrow> (jstype \<Rightarrow> schema option) \<Rightarrow> schema \<Rightarrow> ('f, unit) geff" where
  \<comment> \<open>schemas that contain each other recur until Python stops\<close>
  "schema_property_add 0 sub s = eraise P_RuntimeError"
| "schema_property_add (Suc n) sub s = efor (properties s) (\<lambda>p.
     case p_type p of
       None \<Rightarrow> eraise P_AttributeError
     | Some t \<Rightarrow> (case object_type t of
           None \<Rightarrow> ereturn ()
         | Some u \<Rightarrow> (case sub u of
               None \<Rightarrow> eraise E_Input
             | Some s' \<Rightarrow> ebind (schema_url_add (s_url s') (s_text s')) (\<lambda>_. schema_property_add n sub s'))))"

definition some_schema :: "schema option \<Rightarrow> ('f, schema) geff" where
  "some_schema so = (case so of None \<Rightarrow> eraise P_AttributeError | Some s \<Rightarrow> ereturn s)"

definition first_schema :: "'f senv \<Rightarrow> int \<Rightarrow> string \<Rightarrow> string \<Rightarrow> ('f, schema) geff" where
  \<comment> \<open>the schemas of a text, of which the first one counts; a block that has no url is given one\<close>
  "first_schema v now url txt = ebind (emap (\<lambda>block.
       on_factory (get_from_text v now block (if str_in ''@url'' block then [] else url) True True)) (schema_blocks_get txt)) (\<lambda>ss.
     case ss of [] \<Rightarrow> eraise P_NameError | so # _ \<Rightarrow> some_schema so)"

definition url_on_line :: "'f senv \<Rightarrow> int \<Rightarrow> string \<Rightarrow> ('f, unit) geff" where
  "url_on_line v now line = (case split_first (CHR ''!'') (strip line) of
       None \<Rightarrow> ereturn ()
     | Some (_, url2) \<Rightarrow> ebind (on_factory (get_from_url v now url2 True)) (\<lambda>so. ebind (some_schema so) (\<lambda>s.
         schema_url_add (s_url s) (s_text s))))"

definition schema_process :: "nat \<Rightarrow> (jstype \<Rightarrow> schema option) \<Rightarrow> 'f senv \<Rightarrow> int \<Rightarrow> string \<Rightarrow> string \<Rightarrow> string \<Rightarrow> ('f, schema option) geff" where
  "schema_process n sub v now cname txt0 cat = (let txt = strip (text_strip False txt0) in
     if txt = [] then ereturn None
     else ebind (if starts_with ''!'' txt
                 then ebind (on_factory (get_from_url v now (lstrip_by (\<lambda>c. c = CHR ''!'') txt) True)) some_schema
                 else ebind (eget (\<lambda>s. join ''.'' [''actors'', gs_namespace s, gs_name s, cname, cat])) (\<lambda>url.
                   first_schema v now url txt)) (\<lambda>s.
       ebind (schema_url_add (s_url s) (s_text s)) (\<lambda>_.
       ebind (schema_property_add n sub s) (\<lambda>_.
       ebind (efor (lines txt) (url_on_line v now)) (\<lambda>_. ereturn (Some s))))))"

definition url_of :: "schema option \<Rightarrow> string" where
  "url_of so = (case so of None \<Rightarrow> [] | Some s \<Rightarrow> s_url s)"

definition method_source_process :: "nat \<Rightarrow> (jstype \<Rightarrow> schema option) \<Rightarrow> (string \<Rightarrow> unit res) \<Rightarrow> 'f senv \<Rightarrow> int \<Rightarrow> string \<Rightarrow> string \<Rightarrow> ('f, cmddata) geff" where
  "method_source_process n sub toml v now cname txt = ebind (elift (method_source txt)) (\<lambda>m.
     ebind (schema_process n sub v now cname (ms_in m) ''in'') (\<lambda>si.
     ebind (schema_process n sub v now cname (ms_out m) ''out'') (\<lambda>so.
     ebind (elift (if ms_acl m \<noteq> [] then toml (ms_acl m) else Inr ())) (\<lambda>_.
     ereturn \<lparr>cd_name = cname, cd_comment = text_strip True (ms_comment m), cd_in_url = url_of si, cd_out_url = url_of so,
       cd_args = method_args (ms_args m), cd_public = True\<rparr>))))"

definition member_is_cmd :: "string \<Rightarrow> bool" where
  "member_is_cmd name = (\<not> starts_with ''_'' name \<and> \<not> starts_with ''logger'' name \<and> name \<noteq> ''cache'')"

definition cmds_load :: "nat \<Rightarrow> (jstype \<Rightarrow> schema option) \<Rightarrow> (string \<Rightarrow> unit res) \<Rightarrow> 'f senv \<Rightarrow> int \<Rightarrow> (string \<times> string option) list \<Rightarrow> ('f, unit) geff" where
  \<comment> \<open>the members of the class in order, a function with its source\<close>
  "cmds_load n sub toml v now members = efor members (\<lambda>(name, src).
     case src of
       None \<Rightarrow> ereturn ()
     | Some code \<Rightarrow> if member_is_cmd name
         then ebind (method_source_process n sub toml v now name code) (\<lambda>c. emod (\<lambda>s. s\<lparr>gs_data := gs_data s @ [c]\<rparr>))
         else ereturn ())"

definition gedis_cmd :: "'f senv \<Rightarrow> int \<Rightarrow> string \<Rightarrow> cmddata \<Rightarrow> ('f, gcmd) geff" where
  "gedis_cmd v now ns c = ebind (eassert (ns \<noteq> [])) (\<lambda>_.
     ebind (if cd_in_url c \<noteq> [] then on_factory (get_from_url v now (cd_in_url c) True) else ereturn None) (\<lambda>si.
     ebind (if cd_out_url c \<noteq> [] then on_factory (get_from_url v now (cd_out_url c) True) else ereturn None) (\<lambda>so.
     ereturn \<lparr>gc_namespace = ns, gc_data = c, gc_in = si, gc_out = so\<rparr>)))"

definition cmds_schema :: "'f senv \<Rightarrow> int \<Rightarrow> string \<times> string \<Rightarrow> ('f, unit) geff" where
  "cmds_schema v now = (\<lambda>(url, content). ebind (eget (\<lambda>s. factory_exists (gs_factory s) [] url)) (\<lambda>known.
     if \<not> known \<and> \<not> starts_with ''!'' (strip content)
     then ebind (on_factory (get_from_text v now content url True True)) (\<lambda>_. ereturn ()) else ereturn ()))"

definition gedis_cmds :: "'f senv \<Rightarrow> int \<Rightarrow> ('f, (string \<times> gcmd) list) geff" where
  \<comment> \<open>filled when it is first asked for\<close>
  "gedis_cmds v now = ebind (eget gs_cmds) (\<lambda>known. ebind (if known \<noteq> [] then ereturn () else
       ebind (eget gs_schemas) (\<lambda>ss. ebind (efor ss (cmds_schema v now)) (\<lambda>_.
       ebind (eget gs_data) (\<lambda>cs. efor cs (\<lambda>c.
         ebind (eget gs_namespace) (\<lambda>ns. ebind (gedis_cmd v now ns c) (\<lambda>g.
           emod (\<lambda>s. s\<lparr>gs_cmds := d_set (gs_cmds s) (cd_name c) g\<rparr>)))))))) (\<lambda>_. eget gs_cmds))"

section \<open>Arguments of a command\<close>

definition default_args :: "(sprop \<Rightarrow> string) \<Rightarrow> schema \<Rightarrow> string" where
  "default_args code s = concat (map (\<lambda>p. p_name p @ ''='' @ code p @ '', '') (properties s))"

definition rstrip_commas :: "string \<Rightarrow> string" where
  "rstrip_commas t = rstrip_by (\<lambda>c. c = CHR '','') (rstrip_by is_space t)"

definition cmd_args :: "(sprop \<Rightarrow> string) \<Rightarrow> gcmd \<Rightarrow> string list + string" where
  \<comment> \<open>the names of the arguments, or with a schema the text between the brackets\<close>
  "cmd_args code g = (case gc_in g of
       None \<Rightarrow> Inl (cd_args (gc_data g))
     | Some s \<Rightarrow> Inr (rstrip_by is_space (rstrip_commas (default_args code s)) @ '',schema_out=None, user_session=None''))"

definition args_client :: "(sprop \<Rightarrow> string) \<Rightarrow> gcmd \<Rightarrow> gcmd \<times> string" where
  \<comment> \<open>without a schema the arguments that the client does not send are taken out of the command itself\<close>
  "args_client code g = (case gc_in g of
       None \<Rightarrow> if cd_args (gc_data g) = [] then (g, [])
         else (let args = remove1 ''user_session'' (remove1 '':'' (remove1 ''schema_out'' (cd_args (gc_data g))))
               in (g\<lparr>gc_data := (gc_data g)\<lparr>cd_args := args\<rparr>\<rparr>, if args = [] then [] else '','' @ join '','' args))
     | Some s \<Rightarrow> if properties s = [] then (g, [])
         else (g, rstrip_commas (rstrip_commas ((if length (cd_args (gc_data g)) = 1 \<and> 1 < length (properties s) then '',id=0,'' else '','')
            @ default_args code s))))"

section \<open>Lemmas: indented text\<close>








section \<open>Lemmas: the lines of a method\<close>






section \<open>Lemmas: the documentation\<close>




















section \<open>Lemmas: the line of the definition\<close>



















section \<open>The parts of a method\<close>
















section \<open>Sources that are read in another way\<close>

text \<open>The line of the definition is put in lower case before the names are taken from it.\<close>

lemma names_in_lower_case:
  "rbind (method_source ''def get(self, userName, Id=0):'') (\<lambda>m. Inr (method_args (ms_args m))) = Inr [''username'', ''id'']"
  by code_simp

text \<open>A documentation that ends on its first line opens a comment that nothing closes: the code of the method becomes the comment.\<close>

lemma short_doc_takes_code:
  "method_source (''def get(self):'' @ [newline] @ ''    '' @ doc_mark @ ''gets it'' @ doc_mark @ [newline] @ ''    return 1'')
    = Inr (msrc_start\<lparr>ms_state := COMMENT, ms_comment := ''    return 1'' @ [newline]\<rparr>)"
  by code_simp

text \<open>The arguments of a method without self stay one text, with what follows the bracket as another.\<close>

lemma static_args_together:
  "rbind (method_source ''def get(a, b):'') (\<lambda>m. Inr (method_args (ms_args m))) = Inr [''a, b'', '':'']"
  by code_simp

text \<open>A url is looked up in lower case and stored as it is, so that one with a capital is stored every time.\<close>

lemma url_added_again:
  assumes "gs_schemas s = []"
  shows "gs_schemas (fst (ebind (schema_url_add ''a.B'' c) (\<lambda>_. schema_url_add ''a.B'' c) s)) = [(''a.B'', c), (''a.B'', c)]"
proof -
  have f: "split_first (CHR ''#'') (strip ''a.B'') = None" "strip ''a.B'' = ''a.B''" "schema_get [(''a.B'', c)] ''a.B'' = None"
    "schema_get [] ''a.B'' = None" by code_simp+
  show ?thesis using assms by (simp add: schema_url_add_def f Let_def ebind_app)
qed

text \<open>Urls in lower case are stored once each.\<close>

lemma schema_get_stored: "schema_get ss url = None \<Longrightarrow> lower url = url \<Longrightarrow> strip url = url \<Longrightarrow> CHR ''!'' \<notin> set url \<Longrightarrow>
    url \<notin> fst ` set ss"
proof -
  assume a: "schema_get ss url = None" "lower url = url" "strip url = url" "CHR ''!'' \<notin> set url"
  have "strip_chars ''!'' url = url" using a(4) by (intro strip_by_id) (auto simp: stripped_def dest: hd_in_set last_in_set)
  then show ?thesis using a by (auto simp: schema_get_def find_None_iff)
qed

lemma schema_urls_distinct:
  assumes "distinct (map fst (gs_schemas s))" "lower url = url" "strip url = url" "CHR ''#'' \<notin> set url" "url \<noteq> []"
    and r: "schema_url_add url c s = (s', Inr ())"
  shows "distinct (map fst (gs_schemas s')) \<and> url \<in> fst ` set (gs_schemas s')"
proof -
  have sf: "split_first (CHR ''#'') url = None" using assms(4) by (simp add: split_first_None)
  have b: "CHR ''!'' \<notin> set url" using r assms(3) sf by (auto simp: schema_url_add_def Let_def)
  show ?thesis
  proof (cases "schema_get (gs_schemas s) url")
    case None
    then have "s' = s\<lparr>gs_schemas := gs_schemas s @ [(url, c)]\<rparr>"
      using r assms(3) b sf by (simp add: schema_url_add_def Let_def)
    then show ?thesis using schema_get_stored [OF None assms(2,3) b] assms(1) by auto
  next
    case (Some p)
    have "strip_chars ''!'' url = url" using b by (intro strip_by_id) (auto simp: stripped_def dest: hd_in_set last_in_set)
    then have u: "fst p = url" "p \<in> set (gs_schemas s)"
      using Some assms(2,3) by (auto simp: schema_get_def find_Some_iff) (metis nth_mem)
    then have "s' = s" using r assms(3,5) b sf Some by (cases p) (simp add: schema_url_add_def Let_def)
    then show ?thesis using u assms(1) by force
  qed
qed

end
