(* ===== verification/Gedis.thy ===== *)
theory Gedis
  imports GedisCmds TypesColl CoreText
begin

text \<open>
  The Gedis server (\<^verbatim>\<open>servers/gedis/handlers.py\<close>, \<^verbatim>\<open>UserSession.py\<close>): requests that name a command of an actor are checked, their
  arguments are read, the method runs and its result is written. Methods are an argument: they change the world and the session
  of the connection and may raise. So are json, msgpack and the making of an object of a schema from data. A text is its bytes;
  an object is known by its three written forms. An exception that leaves the handler closes the connection. Between the requests the
  actors of packages are loaded and taken out.
\<close>

section \<open>Commands\<close>

record gaddr =
  ga_author :: string
  ga_package :: string
  ga_actor :: string
  ga_command :: string

definition namespace_off :: "string \<Rightarrow> string" where
  "namespace_off actor = (case after_first ''__'' actor of None \<Rightarrow> actor | Some a \<Rightarrow> a)"

definition command_split :: "string \<Rightarrow> gaddr res" where
  \<comment> \<open>with all four parts the code takes the third of two pieces of the actor\<close>
  "command_split cmd = (case split_char (CHR ''.'') cmd of
       [a, p, actor, c] \<Rightarrow> if str_in ''__'' actor then Inl P_IndexError
         else Inr \<lparr>ga_author = a, ga_package = p, ga_actor = actor, ga_command = c\<rparr>
     | [p, actor, c] \<Rightarrow> Inr \<lparr>ga_author = ''zerobot'', ga_package = p, ga_actor = namespace_off actor, ga_command = c\<rparr>
     | [actor, c] \<Rightarrow> Inr \<lparr>ga_author = ''zerobot'', ga_package = ''base'', ga_actor = namespace_off actor, ga_command = c\<rparr>
     | [c] \<Rightarrow> Inr \<lparr>ga_author = ''zerobot'', ga_package = ''base'', ga_actor = ''system'', ga_command = c\<rparr>
     | _ \<Rightarrow> Inl E_Base)"

definition key_actor :: "gaddr \<Rightarrow> string" where
  "key_actor a = join ''.'' [ga_author a, ga_package a, ga_actor a]"

definition key_method :: "gaddr \<Rightarrow> string" where
  "key_method a = join ''.'' [ga_author a, ga_package a, ga_actor a, ga_command a]"

section \<open>Requests and sessions\<close>

record grequest =
  rq_parts :: "string list"
  rq_content :: string
  rq_response :: string

definition rq_read :: "string list \<Rightarrow> grequest res" where
  "rq_read parts = (if parts = [] then Inl E_Value else Inr \<lparr>rq_parts = parts, rq_content = [], rq_response = []\<rparr>)"

definition rq_command :: "grequest \<Rightarrow> gaddr res" where
  \<comment> \<open>the first part has to be UTF-8; this is outside of the handling of errors\<close>
  "rq_command r = (case decode (encode (hd (rq_parts r))) of
       None \<Rightarrow> Inl P_UnicodeError | Some cmd \<Rightarrow> command_split (lower cmd))"

definition rq_arguments :: "grequest \<Rightarrow> string list" where
  "rq_arguments r = tl (rq_parts r)"

definition first_argument :: "grequest \<Rightarrow> string res" where
  "first_argument r = (case rq_arguments r of [] \<Rightarrow> Inl P_IndexError | a # _ \<Rightarrow> Inr a)"

definition rq_headers :: "(string \<Rightarrow> pyval res) \<Rightarrow> grequest \<Rightarrow> pyval" where
  "rq_headers json r = (case rq_parts r of
       _ # _ # h # _ \<Rightarrow> (case json h of Inl _ \<Rightarrow> PDict [] | Inr v \<Rightarrow> v)
     | _ \<Rightarrow> PDict [])"

definition header :: "(string \<Rightarrow> pyval res) \<Rightarrow> grequest \<Rightarrow> string \<Rightarrow> string res" where
  "header json r k = (case rq_headers json r of
       PDict d \<Rightarrow> (case d_get d (PStr k) of None \<Rightarrow> Inr ''auto'' | Some (PStr s) \<Rightarrow> Inr (lower s) | Some _ \<Rightarrow> Inl P_AttributeError)
     | _ \<Rightarrow> Inl P_AttributeError)"

definition content_type :: "(string \<Rightarrow> pyval res) \<Rightarrow> grequest \<Rightarrow> string res" where
  "content_type json r = (if rq_content r \<noteq> [] then Inr (rq_content r) else header json r ''content_type'')"

definition response_type :: "(string \<Rightarrow> pyval res) \<Rightarrow> grequest \<Rightarrow> string res" where
  "response_type json r = (if rq_response r \<noteq> [] then Inr (rq_response r) else header json r ''response_type'')"

record gsession =
  se_admin_class :: bool
  se_admin :: bool
  se_tid :: int
  se_tname :: "string option"
  se_content :: int
  se_response :: int

record gme =
  me_tname :: string
  me_tid :: int
  me_admins :: "string list"

definition ctypes :: "string list" where
  "ctypes = [''AUTO'', ''JSON'', ''MSGPACK'']"

definition admin_session :: gsession where
  "admin_session = \<lparr>se_admin_class = True, se_admin = True, se_tid = 0, se_tname = None, se_content = 0, se_response = 0\<rparr>"

definition user_session :: gsession where
  "user_session = \<lparr>se_admin_class = False, se_admin = False, se_tid = 0, se_tname = None, se_content = 0, se_response = 0\<rparr>"

definition session_admin :: "gme \<Rightarrow> gsession \<Rightarrow> gsession \<times> bool" where
  \<comment> \<open>once found to be an administrator, a session stays one\<close>
  "session_admin me se = (if se_admin_class se \<or> se_admin se then (se, True)
     else if se_tname se = Some (me_tname me) \<or> se_tid se = me_tid me \<or> (\<exists>n\<in>set (me_admins me). se_tname se = Some n)
     then (se\<lparr>se_admin := True\<rparr>, True) else (se, False))"

section \<open>Methods and results\<close>

datatype gitem = Plain pyval | Obj (obj_data: bytes) (obj_json: string) (obj_msgpack: bytes)
  \<comment> \<open>a value that is no list, or an object of a schema\<close>
datatype gresult = One gitem | Many "gitem list"
datatype greply = Failed exn | Answer pyval | Answers "pyval list"

type_synonym gkwargs = "(string \<times> pyval) list \<times> schema option"

record ('m, 'w) genv =
  ge_json :: "string \<Rightarrow> pyval res"
  ge_msgpack :: "string \<Rightarrow> pyval res"
  ge_new_data :: "schema \<Rightarrow> pyval \<Rightarrow> (string \<times> pyval) list res"
  ge_new_dict :: "schema \<Rightarrow> pyval \<Rightarrow> (string \<times> pyval) list res"
  ge_run :: "'m \<Rightarrow> string list \<Rightarrow> gkwargs \<Rightarrow> 'w \<times> gsession \<Rightarrow> ('w \<times> gsession) \<times> gresult res"

definition result_encode :: "bool \<Rightarrow> string \<Rightarrow> gitem \<Rightarrow> pyval res" where
  \<comment> \<open>whether the command has a schema for its result; only objects have other forms\<close>
  "result_encode has_out rt it = (case it of
       Plain v \<Rightarrow> if truth v \<and> has_out then Inl P_AttributeError else Inr v
     | Obj d js m \<Rightarrow> Inr (if has_out
         then (if rt = ''msgpack'' then PBytes m else if rt = ''capnp'' \<or> rt = ''auto'' then PBytes d else PStr js)
         else (if rt = ''json'' then PStr js else if rt = ''msgpack'' then PBytes m else PBytes d)))"

definition encode_result :: "(string \<Rightarrow> pyval res) \<Rightarrow> grequest \<Rightarrow> bool \<Rightarrow> gresult \<Rightarrow> greply res" where
  "encode_result json r has_out res = (case res of
       One it \<Rightarrow> rbind (response_type json r) (\<lambda>rt. rbind (result_encode has_out rt it) (\<lambda>v. Inr (Answer v)))
     | Many its \<Rightarrow> rbind (rmap (\<lambda>it. rbind (response_type json r) (\<lambda>rt. result_encode has_out rt it)) its) (\<lambda>vs. Inr (Answers vs)))"

section \<open>Reading the arguments\<close>

definition first_or :: "grequest \<Rightarrow> bool \<Rightarrow> 'a option res" where
  \<comment> \<open>content that cannot be read; the message shows the first argument, which may be missing\<close>
  "first_or r die = (if die then rbind (first_argument r) (\<lambda>_. Inl E_Value) else Inr None)"

definition made :: "bool \<Rightarrow> 'a res \<Rightarrow> 'a option res" where
  "made die m = (case m of Inr x \<Rightarrow> Inr (Some x) | Inl e \<Rightarrow> if die then Inl e else Inr None)"

definition two_parts :: "pyval \<Rightarrow> (pyval \<times> pyval) option" where
  \<comment> \<open>\<^verbatim>\<open>id, data = v\<close>\<close>
  "two_parts v = (case v of
       PList [k, d] \<Rightarrow> Some (k, d)
     | PTuple [k, d] \<Rightarrow> Some (k, d)
     | PStr [a, b] \<Rightarrow> Some (PStr [a], PStr [b])
     | PBytes [a, b] \<Rightarrow> Some (PInt (uint a), PInt (uint b))
     | PDict [(k, _), (d, _)] \<Rightarrow> Some (k, d)
     | _ \<Rightarrow> None)"

definition capnp_decode :: "('m, 'w) genv \<Rightarrow> grequest \<Rightarrow> schema \<Rightarrow> bool \<Rightarrow> (string \<times> pyval) list option res" where
  "capnp_decode E r s die = (case rbind (first_argument r) (ge_msgpack E) of
       Inl _ \<Rightarrow> first_or r die
     | Inr v \<Rightarrow> (case two_parts v of
           None \<Rightarrow> first_or r die
         | Some (k, d) \<Rightarrow> made die (rbind (ge_new_data E s d) (\<lambda>ob. Inr (if truth k then d_set ob ''id'' k else ob)))))"

definition dict_decode :: "('m, 'w) genv \<Rightarrow> (string \<Rightarrow> pyval res) \<Rightarrow> grequest \<Rightarrow> schema \<Rightarrow> bool \<Rightarrow> (string \<times> pyval) list option res" where
  \<comment> \<open>\<^verbatim>\<open>json_decode\<close> and \<^verbatim>\<open>msgpack_decode\<close>\<close>
  "dict_decode E loads r s die = (case rbind (first_argument r) loads of
       Inr v \<Rightarrow> made die (ge_new_dict E s v)
     | Inl _ \<Rightarrow> first_or r die)"

definition decode_args :: "('m, 'w) genv \<Rightarrow> grequest \<Rightarrow> schema \<Rightarrow> (string \<times> pyval) list option res" where
  "decode_args E r s = rbind (content_type (ge_json E) r) (\<lambda>ct.
     if ct = ''auto'' then rbind (capnp_decode E r s False) (\<lambda>args. case args of
         None \<Rightarrow> dict_decode E (ge_json E) r s True | Some a \<Rightarrow> Inr (Some a))
     else if ct = ''json'' then dict_decode E (ge_json E) r s True
     else if ct = ''msgpack'' then dict_decode E (ge_msgpack E) r s True
     else if ct = ''capnp'' then capnp_decode E r s True
     else Inl E_Value)"

definition arg_value :: "(string \<times> pyval) list \<Rightarrow> string \<Rightarrow> (string \<times> pyval) res" where
  "arg_value args k = (case d_get args k of None \<Rightarrow> Inl P_AttributeError | Some v \<Rightarrow> Inr (k, v))"

definition read_input_args :: "('m, 'w) genv \<Rightarrow> grequest \<Rightarrow> gcmd \<Rightarrow> schema \<Rightarrow> (string \<times> pyval) list res" where
  "read_input_args E r g s = rbind (decode_args E r s) (\<lambda>args.
     if ''schema_out'' \<in> set (cd_args (gc_data g)) \<or> ''user_session'' \<in> set (cd_args (gc_data g)) then Inl E_Base
     else (case args of None \<Rightarrow> Inl P_AttributeError | Some a \<Rightarrow> rmap (arg_value a) (propertynames s)))"

section \<open>The handler\<close>

record ('m, 'w) gserver =
  gv_cache :: "(string \<times> gcmd \<times> 'm) list"
  gv_meta :: "(string \<times> (string \<times> gcmd) list) list"
  gv_packages :: "(string \<times> (string \<times> (string \<times> (string \<times> 'm) list) list) list) list"
  gv_world :: 'w

type_synonym ('m, 'w) gstate = "('m, 'w) gserver \<times> gsession"
type_synonym ('m, 'w, 'a) heff = "(('m, 'w) gstate, 'a) eff"

definition package_get :: "('m, 'w) gserver \<Rightarrow> string \<Rightarrow> string \<Rightarrow> (string \<times> (string \<times> 'm) list) list res" where
  "package_get sv author name = (case d_get (gv_packages sv) author of
       None \<Rightarrow> Inl E_Input
     | Some ps \<Rightarrow> (case d_get ps name of None \<Rightarrow> Inl E_Input | Some p \<Rightarrow> Inr p))"

definition actor_get :: "('m, 'w) gserver \<Rightarrow> string \<Rightarrow> string \<Rightarrow> string \<Rightarrow> (string \<times> 'm) list res" where
  "actor_get sv author pname actor = rbind (package_get sv author pname) (\<lambda>p.
     case d_get p actor of None \<Rightarrow> Inl E_Input | Some ms \<Rightarrow> Inr ms)"

definition find_cmd :: "('m, 'w) gserver \<Rightarrow> gaddr \<Rightarrow> (gcmd \<times> 'm) res" where
  "find_cmd sv c = rbind (actor_get sv (ga_author c) (ga_package c) (ga_actor c)) (\<lambda>actor.
     case d_get (gv_meta sv) (key_actor c) of
       None \<Rightarrow> Inl E_Input
     | Some cmds \<Rightarrow> (case d_get cmds (ga_command c) of
           None \<Rightarrow> Inl E_Input
         | Some g \<Rightarrow> (case d_get actor (ga_command c) of None \<Rightarrow> Inl E_Input | Some m \<Rightarrow> Inr (g, m))))"

definition cmd_obj_get :: "gaddr \<Rightarrow> ('m, 'w, gcmd \<times> 'm) heff" where
  "cmd_obj_get c = ebind (eget (\<lambda>(sv, se). d_get (gv_cache sv) (key_method c))) (\<lambda>found. case found of
       Some x \<Rightarrow> ereturn x
     | None \<Rightarrow> ebind (eget (\<lambda>(sv, se). find_cmd sv c)) (\<lambda>r. ebind (elift r) (\<lambda>x.
         ebind (emod (\<lambda>(sv, se). (sv\<lparr>gv_cache := d_set (gv_cache sv) (key_method c) x\<rparr>, se))) (\<lambda>_. ereturn x))))"

definition set_session :: "(gsession \<Rightarrow> gsession) \<Rightarrow> ('m, 'w, unit) heff" where
  "set_session f = emod (\<lambda>(sv, se). (sv, f se))"

definition config_type :: "grequest \<Rightarrow> (int \<Rightarrow> gsession \<Rightarrow> gsession) \<Rightarrow> ('m, 'w, unit) heff" where
  "config_type r f = ebind (elift (rbind (first_argument r) (\<lambda>a. enum_clean ctypes (PStr a)))) (\<lambda>d. set_session (f d))"

definition config_request :: "grequest \<Rightarrow> string \<Rightarrow> ('m, 'w, unit) heff" where
  "config_request r c = (if c = ''config_content_type'' then config_type r (\<lambda>d se. se\<lparr>se_content := d\<rparr>)
     else if c = ''config_response_type'' then config_type r (\<lambda>d se. se\<lparr>se_response := d\<rparr>)
     else if c = ''config_format'' then ebind (config_type r (\<lambda>d se. se\<lparr>se_content := d\<rparr>)) (\<lambda>_.
       config_type r (\<lambda>d se. se\<lparr>se_response := d\<rparr>))
     else ereturn ())"

definition authorized :: "gme \<Rightarrow> ('m, 'w, unit) heff" where
  \<comment> \<open>for a session that is no administrator the rights of the command are read, which a command does not have\<close>
  "authorized me = ebind (eget (\<lambda>(sv, se). session_admin me se)) (\<lambda>(se', adm).
     ebind (set_session (\<lambda>_. se')) (\<lambda>_. if adm then ereturn () else eraise P_AttributeError))"

definition session_form :: "gsession \<Rightarrow> string res" where
  \<comment> \<open>the content type of a session, when it is one of the two that it compares with\<close>
  "session_form se = rbind (enum_eq ctypes (se_content se) (PStr ''json'')) (\<lambda>isj. if isj then Inr ''json''
     else rbind (enum_eq ctypes (se_content se) (PStr ''msgpack'')) (\<lambda>ism. Inr (if ism then ''msgpack'' else [])))"

definition with_form :: "bool \<Rightarrow> (string \<Rightarrow> grequest \<Rightarrow> grequest) \<Rightarrow> grequest \<Rightarrow> ('m, 'w, grequest) heff" where
  "with_form has f r = (if has then ebind (eget (\<lambda>(sv, se). session_form se)) (\<lambda>fm. ebind (elift fm) (\<lambda>t.
     ereturn (if t = [] then r else f t r))) else ereturn r)"

definition run_method :: "('m, 'w) genv \<Rightarrow> 'm \<Rightarrow> string list \<Rightarrow> gkwargs \<Rightarrow> ('m, 'w, gresult) heff" where
  "run_method E m args kw = (\<lambda>(sv, se). case ge_run E m args kw (gv_world sv, se) of
     ((w, se'), res) \<Rightarrow> ((sv\<lparr>gv_world := w\<rparr>, se'), res))"

definition failing :: "('m, 'w, 'a) heff \<Rightarrow> ('a \<Rightarrow> ('m, 'w, greply) heff) \<Rightarrow> ('m, 'w, greply) heff" where
  \<comment> \<open>an exception of the first part becomes an error reply\<close>
  "failing m k = ebind (ecatch (ebind m (\<lambda>x. ereturn (Inr x))) (\<lambda>e. ereturn (Inl e))) (\<lambda>r. case r of
     Inl e \<Rightarrow> ereturn (Failed e) | Inr x \<Rightarrow> k x)"

definition execute_request :: "('m, 'w) genv \<Rightarrow> grequest \<Rightarrow> gcmd \<times> 'm \<Rightarrow> ('m, 'w, greply) heff" where
  "execute_request E r0 = (\<lambda>(g, m). ebind (with_form (gc_in g \<noteq> None) (\<lambda>t r. r\<lparr>rq_content := t\<rparr>) r0) (\<lambda>r1.
     failing (elift (case gc_in g of None \<Rightarrow> Inr (rq_arguments r1, []) | Some s \<Rightarrow>
         rbind (read_input_args E r1 g s) (\<lambda>d. Inr ([], d)))) (\<lambda>(args, kw).
     ebind (with_form (gc_out g \<noteq> None) (\<lambda>t r. r\<lparr>rq_response := t\<rparr>) r1) (\<lambda>r2.
     failing (run_method E m args (kw, gc_out g)) (\<lambda>res.
       elift (encode_result (ge_json E) r2 (gc_out g \<noteq> None) res))))))"

definition handle_with :: "(gaddr \<Rightarrow> ('m, 'w, gcmd \<times> 'm) heff) \<Rightarrow> gme \<Rightarrow> ('m, 'w) genv \<Rightarrow> grequest \<Rightarrow> ('m, 'w, greply) heff" where
  "handle_with look me E r = ebind (elift (rq_command r)) (\<lambda>c.
     if ga_command c = ''command'' then ereturn (Answer (PStr ''OK''))
     else if ga_command c = ''ping'' then ereturn (Answer (PStr ''PONG''))
     else if starts_with ''config_'' (ga_command c) then ebind (config_request r (ga_command c)) (\<lambda>_. ereturn (Answer (PStr ''OK'')))
     else if ga_command c = ''auth'' then ereturn (Answer (PStr ''OK''))
     else failing (look c) (\<lambda>gm. ebind (authorized me) (\<lambda>_. execute_request E r gm)))"

definition handle_request :: "gme \<Rightarrow> ('m, 'w) genv \<Rightarrow> grequest \<Rightarrow> ('m, 'w, greply) heff" where
  "handle_request = handle_with cmd_obj_get"

section \<open>Connections\<close>

definition actors_remove :: "string \<Rightarrow> string \<Rightarrow> ('m, 'w) gserver \<Rightarrow> ('m, 'w) gserver" where
  "actors_remove pname name sv = sv\<lparr>gv_meta := d_pop (gv_meta sv) (join ''.'' [pname, name])\<rparr>"

definition actor_add :: "string \<Rightarrow> string \<Rightarrow> (string \<times> gcmd) list \<Rightarrow> ('m, 'w) gserver \<Rightarrow> ('m, 'w) gserver" where
  "actor_add pname name cmds sv = sv\<lparr>gv_meta := d_set (gv_meta sv) (join ''.'' [pname, name]) cmds\<rparr>"

definition package_put :: "string \<Rightarrow> string \<Rightarrow> string \<Rightarrow> (string \<times> 'm) list \<Rightarrow> ('m, 'w) gserver \<Rightarrow> ('m, 'w) gserver" where
  \<comment> \<open>the new object of an actor replaces the one that its package had\<close>
  "package_put author pname name ms sv = (case d_get (gv_packages sv) author of
       None \<Rightarrow> sv
     | Some ps \<Rightarrow> (case d_get ps pname of
           None \<Rightarrow> sv
         | Some p \<Rightarrow> sv\<lparr>gv_packages := d_set (gv_packages sv) author (d_set ps pname (d_set p name ms))\<rparr>))"

text \<open>An actor of a package is loaded with the methods and the commands of its file, and taken out when its package is uninstalled:
  then only its commands go, the object stays with the package.\<close>

datatype 'm gevent = Connect nat | Request nat "string list"
  | LoadActor string string string "(string \<times> gcmd) list" "(string \<times> 'm) list" | DropActor string string string

definition actor_key :: "string \<Rightarrow> string \<Rightarrow> string \<Rightarrow> string" where
  "actor_key author pname name = join ''.'' [join ''.'' [author, pname], name]"

type_synonym ('m, 'w) gnet = "('m, 'w) gserver \<times> (nat \<times> gsession) list"

definition on_event :: "(grequest \<Rightarrow> ('m, 'w, greply) heff) \<Rightarrow> ('m, 'w) gnet \<Rightarrow> 'm gevent \<Rightarrow> ('m, 'w) gnet \<times> (nat \<times> greply) list" where
  \<comment> \<open>every connection gets the session of an administrator and ends with the first exception that leaves the handler\<close>
  "on_event h = (\<lambda>(sv, conns) ev. case ev of
       Connect k \<Rightarrow> ((sv, d_set conns k admin_session), [])
     | Request k parts \<Rightarrow> (case d_get conns k of
         None \<Rightarrow> ((sv, conns), [])
       | Some se \<Rightarrow> (case ebind (elift (rq_read parts)) h (sv, se) of
           ((sv', se'), Inl e) \<Rightarrow> ((sv', d_pop conns k), [])
         | ((sv', se'), Inr reply) \<Rightarrow> ((sv', d_set conns k se'), [(k, reply)])))
     | LoadActor author pname name cmds ms \<Rightarrow> ((actor_add (join ''.'' [author, pname]) name cmds (package_put author pname name ms sv), conns), [])
     | DropActor author pname name \<Rightarrow> ((actors_remove (join ''.'' [author, pname]) name sv, conns), []))"

fun on_events :: "(grequest \<Rightarrow> ('m, 'w, greply) heff) \<Rightarrow> ('m, 'w) gnet \<Rightarrow> 'm gevent list \<Rightarrow> ('m, 'w) gnet \<times> (nat \<times> greply) list" where
  "on_events h n [] = (n, [])"
| "on_events h n (ev # evs) = (case on_event h n ev of (n1, out) \<Rightarrow> (case on_events h n1 evs of (n2, outs) \<Rightarrow> (n2, out @ outs)))"

definition serve :: "gme \<Rightarrow> ('m, 'w) genv \<Rightarrow> ('m, 'w) gnet \<Rightarrow> 'm gevent list \<Rightarrow> ('m, 'w) gnet \<times> (nat \<times> greply) list" where
  "serve me E = on_events (handle_request me E)"

section \<open>Names of commands\<close>

definition no_dot :: "gaddr \<Rightarrow> bool" where
  "no_dot a = (CHR ''.'' \<notin> set (ga_author a) \<union> set (ga_package a) \<union> set (ga_actor a) \<union> set (ga_command a))"

lemma split_parts: "no_dot a \<Longrightarrow> split_char (CHR ''.'') (key_method a) = [ga_author a, ga_package a, ga_actor a, ga_command a]"
  unfolding key_method_def by (rule split_join) (auto simp: no_dot_def)

lemma key_method_inj: "no_dot a \<Longrightarrow> no_dot b \<Longrightarrow> key_method a = key_method b \<Longrightarrow> a = b"
  using split_parts [of a] split_parts [of b] by simp

lemma after_first_set: "after_first p s = Some r \<Longrightarrow> set r \<subseteq> set s"
  by (induction p s rule: after_first.induct) (auto split: if_splits dest: in_set_dropD)

lemma namespace_off_set: "set (namespace_off a) \<subseteq> set a"
  using after_first_set by (auto simp: namespace_off_def split: option.split)

lemma command_cases:
  obtains "ws = []" | c where "ws = [c]" | x c where "ws = [x, c]" | p x c where "ws = [p, x, c]"
    | a p x c where "ws = [a, p, x, c]" | a p x c e es where "ws = a # p # x # c # e # es"
  by (metis neq_Nil_conv)

lemma split_no_dot: "command_split cmd = Inr a \<Longrightarrow> no_dot a"
proof -
  assume a: "command_split cmd = Inr a"
  obtain ws where ws: "split_char (CHR ''.'') cmd = ws" by blast
  have d: "list_all (\<lambda>w. CHR ''.'' \<notin> set w) ws" using split_char_parts by (auto simp: list_all_iff ws [symmetric])
  then have n: "list_all (\<lambda>w. CHR ''.'' \<notin> set (namespace_off w)) ws" using namespace_off_set by (fastforce simp: list_all_iff)
  define z b y u where lits: "z = ''zerobot''" "b = ''base''" "y = ''system''" "u = ''__''"
  have l: "CHR ''.'' \<notin> set z" "CHR ''.'' \<notin> set b" "CHR ''.'' \<notin> set y" by (simp_all add: lits)
  from a show ?thesis
    unfolding command_split_def ws lits [symmetric] using d n l
    by (cases a; cases ws rule: command_cases) (auto simp: no_dot_def split: if_splits)
qed

lemma after_first_app: "hd p \<notin> set u \<Longrightarrow> p \<noteq> [] \<Longrightarrow> after_first p (u @ p @ w) = Some w"
proof (induction u)
  case Nil
  then show ?case by (cases p) simp_all
next
  case (Cons c u)
  then have "\<not> starts_with p (c # u @ p @ w)" by (cases p) auto
  then show ?case using Cons by simp
qed

lemma namespace_off_app: "CHR ''_'' \<notin> set ns \<Longrightarrow> namespace_off (ns @ ''__'' @ actor) = actor"
  using after_first_app [of "''__''" ns actor] by (simp add: namespace_off_def)

lemma after_first_none: "p \<noteq> [] \<Longrightarrow> \<not> str_in p s \<Longrightarrow> after_first p s = None"
  by (induction s) auto

text \<open>The forms of the name of a command mean the same: with and without the first two parts, and with a namespace before the
  actor where the code allows one.\<close>

lemma command_forms_agree:
  assumes "no_dot a" "\<not> str_in ''__'' (ga_actor a)" "CHR ''_'' \<notin> set ns" "CHR ''.'' \<notin> set ns"
  shows "command_split (key_method a) = Inr a"
    and "command_split (join ''.'' [ga_package a, ns @ ''__'' @ ga_actor a, ga_command a]) = Inr (a\<lparr>ga_author := ''zerobot''\<rparr>)"
    and "command_split (join ''.'' [ns @ ''__'' @ ga_actor a, ga_command a]) = Inr (a\<lparr>ga_author := ''zerobot'', ga_package := ''base''\<rparr>)"
    and "command_split (join ''.'' [ga_package a, ga_actor a, ga_command a]) = Inr (a\<lparr>ga_author := ''zerobot''\<rparr>)"
    and "command_split (join ''.'' [ga_actor a, ga_command a]) = Inr (a\<lparr>ga_author := ''zerobot'', ga_package := ''base''\<rparr>)"
proof -
  have off: "namespace_off (ga_actor a) = ga_actor a"
    using after_first_none [OF _ assms(2)] by (simp add: namespace_off_def)
  have s: "split_char (CHR ''.'') (join ''.'' ws) = ws" if "ws \<noteq> []" "set ws \<subseteq> {ga_package a, ga_actor a, ga_command a, ns @ ''__'' @ ga_actor a}" for ws
    using that assms(1,4) by (intro split_join) (auto simp: no_dot_def)
  show "command_split (key_method a) = Inr a" using assms(2) by (simp add: command_split_def split_parts [OF assms(1)])
  show "command_split (join ''.'' [ga_package a, ns @ ''__'' @ ga_actor a, ga_command a]) = Inr (a\<lparr>ga_author := ''zerobot''\<rparr>)"
    unfolding command_split_def by (subst s) (simp_all only: list.case namespace_off_app [OF assms(3)], auto)
  show "command_split (join ''.'' [ns @ ''__'' @ ga_actor a, ga_command a]) = Inr (a\<lparr>ga_author := ''zerobot'', ga_package := ''base''\<rparr>)"
    unfolding command_split_def by (subst s) (simp_all only: list.case namespace_off_app [OF assms(3)], auto)
  show "command_split (join ''.'' [ga_package a, ga_actor a, ga_command a]) = Inr (a\<lparr>ga_author := ''zerobot''\<rparr>)"
    unfolding command_split_def by (subst s) (simp_all only: list.case off, auto)
  show "command_split (join ''.'' [ga_actor a, ga_command a]) = Inr (a\<lparr>ga_author := ''zerobot'', ga_package := ''base''\<rparr>)"
    unfolding command_split_def by (subst s) (simp_all only: list.case off, auto)
qed

section \<open>The cache of commands\<close>

definition look_plain :: "gaddr \<Rightarrow> ('m, 'w, gcmd \<times> 'm) heff" where
  \<comment> \<open>the reference: a command is looked up every time\<close>
  "look_plain c = ebind (eget (\<lambda>(sv, se). find_cmd sv c)) elift"

definition serve_plain :: "gme \<Rightarrow> ('m, 'w) genv \<Rightarrow> ('m, 'w) gnet \<Rightarrow> 'm gevent list \<Rightarrow> ('m, 'w) gnet \<times> (nat \<times> greply) list" where
  "serve_plain me E = on_events (handle_with look_plain me E)"

definition uncached :: "('m, 'w) gserver \<Rightarrow> ('m, 'w) gserver" where
  "uncached sv = sv\<lparr>gv_cache := []\<rparr>"

definition asked :: "string list \<Rightarrow> string set" where
  \<comment> \<open>the actor that a request names\<close>
  "asked parts = (case rbind (rq_read parts) rq_command of Inl _ \<Rightarrow> {} | Inr c \<Rightarrow> {key_actor c})"

fun settled :: "string set \<Rightarrow> string set \<Rightarrow> 'm gevent list \<Rightarrow> bool" where
  \<comment> \<open>with the actors the server has, and those it had when a request named them: none of the latter is loaded again or taken out\<close>
  "settled R U [] = True"
| "settled R U (Connect k # evs) = settled R U evs"
| "settled R U (Request k parts # evs) = settled R (U \<union> (asked parts \<inter> R)) evs"
| "settled R U (LoadActor a p n cmds ms # evs) = (actor_key a p n \<notin> U \<and> settled (insert (actor_key a p n) R) U evs)"
| "settled R U (DropActor a p n # evs) = (actor_key a p n \<notin> U \<and> settled (R - {actor_key a p n}) U evs)"

definition actors_of :: "('m, 'w) gserver \<Rightarrow> string set" where
  "actors_of sv = set (d_keys (gv_meta sv))"

definition cache_ok :: "string set \<Rightarrow> string set \<Rightarrow> ('m, 'w) gserver \<Rightarrow> bool" where
  \<comment> \<open>what is remembered for a command is what looking it up gives, and its actor is one of the named ones\<close>
  "cache_ok R U sv = (actors_of sv = R \<and> (\<forall>c x. no_dot c \<longrightarrow> d_get (gv_cache sv) (key_method c) = Some x \<longrightarrow>
     find_cmd sv c = Inr x \<and> key_actor c \<in> U))"

definition agrees :: "string set \<Rightarrow> string set \<Rightarrow> ('m, 'w, 'a) heff \<Rightarrow> ('m, 'w, 'a) heff \<Rightarrow> bool" where
  \<comment> \<open>the second computation does without the cache what the first one does with it\<close>
  "agrees R U m m' = (\<forall>sv se. cache_ok R U sv \<longrightarrow>
     (case m (sv, se) of ((sv1, se1), r) \<Rightarrow> cache_ok R U sv1 \<and> m' (uncached sv, se) = ((uncached sv1, se1), r)))"

named_theorems agree_rules \<open>introduction rules for computations that agree\<close>

lemma agreesD: "agrees R U m m' \<Longrightarrow> cache_ok R U sv \<Longrightarrow> m (sv, se) = ((sv1, se1), r) \<Longrightarrow>
    cache_ok R U sv1 \<and> m' (uncached sv, se) = ((uncached sv1, se1), r)"
  unfolding agrees_def by (drule spec [of _ sv], drule spec [of _ se]) simp

lemma cache_okD: "cache_ok R U sv \<Longrightarrow> no_dot c \<Longrightarrow> d_get (gv_cache sv) (key_method c) = Some x \<Longrightarrow> find_cmd sv c = Inr x"
  unfolding cache_ok_def by blast

lemma cache_okU: "cache_ok R U sv \<Longrightarrow> no_dot c \<Longrightarrow> d_get (gv_cache sv) (key_method c) = Some x \<Longrightarrow> key_actor c \<in> U"
  unfolding cache_ok_def by blast

lemma cache_okI: "actors_of sv = R \<Longrightarrow> (\<And>c x. no_dot c \<Longrightarrow> d_get (gv_cache sv) (key_method c) = Some x \<Longrightarrow> find_cmd sv c = Inr x \<and> key_actor c \<in> U)
    \<Longrightarrow> cache_ok R U sv"
  unfolding cache_ok_def by blast

lemma cache_ok_actors: "cache_ok R U sv \<Longrightarrow> actors_of sv = R"
  unfolding cache_ok_def by blast

lemma cache_ok_mono: "cache_ok R U sv \<Longrightarrow> U \<subseteq> U' \<Longrightarrow> cache_ok R U' sv"
  unfolding cache_ok_def by blast

lemma find_cmd_actor: "find_cmd sv c = Inr x \<Longrightarrow> key_actor c \<in> actors_of sv"
  using d_get_None_iff [of "gv_meta sv" "key_actor c"]
  by (auto simp: find_cmd_def rbind_eq_Inr actors_of_def split: option.splits)

lemma find_cmd_uncached [simp]: "find_cmd (uncached sv) c = find_cmd sv c"
  by (simp add: find_cmd_def actor_get_def package_get_def uncached_def)

lemma uncached_cache [simp]: "uncached (sv\<lparr>gv_cache := d\<rparr>) = uncached sv"
  by (simp add: uncached_def)

lemma find_cmd_fields: "gv_meta sv' = gv_meta sv \<Longrightarrow> gv_packages sv' = gv_packages sv \<Longrightarrow> find_cmd sv' c = find_cmd sv c"
  by (simp add: find_cmd_def actor_get_def package_get_def)

lemma agrees_basic [agree_rules]: "agrees R U (ereturn x) (ereturn x)" "agrees R U (eraise e) (eraise e)" "agrees R U (elift r) (elift r)"
  by (simp_all add: agrees_def)

lemma agrees_get [agree_rules]: "agrees R U (eget (\<lambda>(sv, se). f se)) (eget (\<lambda>(sv, se). f se))"
  by (simp add: agrees_def)

lemma agrees_session [agree_rules]: "agrees R U (set_session f) (set_session f)"
  by (simp add: agrees_def set_session_def)

lemma agrees_bind [agree_rules]:
  assumes "agrees R U m m'" "\<And>x. agrees R U (k x) (k' x)"
  shows "agrees R U (ebind m k) (ebind m' k')"
proof -
  have "case ebind m k (sv, se) of ((sv1, se1), r) \<Rightarrow> cache_ok R U sv1 \<and> ebind m' k' (uncached sv, se) = ((uncached sv1, se1), r)"
    if ok: "cache_ok R U sv" for sv se
  proof -
    obtain sv1 se1 r where m: "m (sv, se) = ((sv1, se1), r)" by (metis surj_pair)
    have a: "cache_ok R U sv1" "m' (uncached sv, se) = ((uncached sv1, se1), r)" using agreesD [OF assms(1) ok m] by auto
    show ?thesis
    proof (cases r)
      case (Inl e)
      then show ?thesis using a m by (simp add: ebind_app)
    next
      case (Inr x)
      obtain sv2 se2 r2 where k: "k x (sv1, se1) = ((sv2, se2), r2)" by (metis surj_pair)
      show ?thesis using agreesD [OF assms(2) a(1) k] a(2) m k Inr by (simp add: ebind_app)
    qed
  qed
  then show ?thesis by (simp add: agrees_def)
qed

lemma agrees_catch [agree_rules]:
  assumes "agrees R U m m'" "\<And>e. agrees R U (h e) (h' e)"
  shows "agrees R U (ecatch m h) (ecatch m' h')"
proof -
  have "case ecatch m h (sv, se) of ((sv1, se1), r) \<Rightarrow> cache_ok R U sv1 \<and> ecatch m' h' (uncached sv, se) = ((uncached sv1, se1), r)"
    if ok: "cache_ok R U sv" for sv se
  proof -
    obtain sv1 se1 r where m: "m (sv, se) = ((sv1, se1), r)" by (metis surj_pair)
    have a: "cache_ok R U sv1" "m' (uncached sv, se) = ((uncached sv1, se1), r)" using agreesD [OF assms(1) ok m] by auto
    show ?thesis
    proof (cases r)
      case (Inl e)
      obtain sv2 se2 r2 where h: "h e (sv1, se1) = ((sv2, se2), r2)" by (metis surj_pair)
      show ?thesis using agreesD [OF assms(2) a(1) h] a(2) m h Inl by (simp add: ecatch_def)
    next
      case (Inr x)
      then show ?thesis using a m by (simp add: ecatch_def)
    qed
  qed
  then show ?thesis by (simp add: agrees_def)
qed

lemma agrees_if [agree_rules]: "(b \<Longrightarrow> agrees R U m m') \<Longrightarrow> (\<not> b \<Longrightarrow> agrees R U n n') \<Longrightarrow> agrees R U (if b then m else n) (if b then m' else n')"
  by simp

lemma agrees_sum [agree_rules]: "(\<And>e. agrees R U (f e) (f' e)) \<Longrightarrow> (\<And>x. agrees R U (g x) (g' x)) \<Longrightarrow>
    agrees R U (case r of Inl e \<Rightarrow> f e | Inr x \<Rightarrow> g x) (case r of Inl e \<Rightarrow> f' e | Inr x \<Rightarrow> g' x)"
  by (cases r) simp_all

lemma agrees_prod [agree_rules]: "(\<And>x y. agrees R U (f x y) (f' x y)) \<Longrightarrow> agrees R U (case p of (x, y) \<Rightarrow> f x y) (case p of (x, y) \<Rightarrow> f' x y)"
  by (cases p) simp

lemma agrees_run [agree_rules]: "agrees R U (run_method E m args kw) (run_method E m args kw)"
proof -
  have w: "cache_ok R U (sv\<lparr>gv_world := w\<rparr>) = cache_ok R U sv" for sv :: "('a, 'b) gserver" and w
    using find_cmd_fields [of "sv\<lparr>gv_world := w\<rparr>" sv] by (simp add: cache_ok_def actors_of_def)
  show ?thesis by (simp add: agrees_def run_method_def w uncached_def split: prod.split)
qed

lemma agrees_look: "no_dot c \<Longrightarrow> {key_actor c} \<inter> R \<subseteq> U \<Longrightarrow> agrees R U (cmd_obj_get c :: ('m, 'w, gcmd \<times> 'm) heff) (look_plain c)"
proof -
  assume nd: "no_dot c" and u: "{key_actor c} \<inter> R \<subseteq> U"
  have "case cmd_obj_get c (sv, se) of ((sv1, se1), r) \<Rightarrow> cache_ok R U sv1 \<and> look_plain c (uncached sv, se) = ((uncached sv1, se1), r)"
    if ok: "cache_ok R U sv" for sv :: "('m, 'w) gserver" and se
  proof (cases "d_get (gv_cache sv) (key_method c)")
    case (Some x)
    then have "find_cmd sv c = Inr x" by (rule cache_okD [OF ok nd])
    then show ?thesis using Some ok by (simp add: cmd_obj_get_def look_plain_def)
  next
    case None
    show ?thesis
    proof (cases "find_cmd sv c")
      case (Inl e)
      then show ?thesis using None ok by (simp add: cmd_obj_get_def look_plain_def)
    next
      case (Inr x)
      let ?sv = "sv\<lparr>gv_cache := d_set (gv_cache sv) (key_method c) x\<rparr>"
      have f: "find_cmd ?sv b = find_cmd sv b" for b by (rule find_cmd_fields) simp_all
      have acts: "actors_of ?sv = R" using cache_ok_actors [OF ok] by (simp add: actors_of_def)
      have "find_cmd ?sv b = Inr y \<and> key_actor b \<in> U" if b: "no_dot b" "d_get (gv_cache ?sv) (key_method b) = Some y" for b y
      proof (cases "key_method b = key_method c")
        case True
        then have e: "b = c" by (rule key_method_inj [OF b(1) nd])
        have "key_actor c \<in> R" using find_cmd_actor [OF Inr] cache_ok_actors [OF ok] by simp
        with b(2) Inr u show ?thesis unfolding f e by simp
      next
        case False
        then have g: "d_get (gv_cache sv) (key_method b) = Some y" using b(2) by simp
        show ?thesis unfolding f using cache_okD [OF ok b(1) g] cache_okU [OF ok b(1) g] by simp
      qed
      then have "cache_ok R U ?sv" by (intro cache_okI acts)
      then show ?thesis using None Inr by (simp add: cmd_obj_get_def look_plain_def)
    qed
  qed
  then show ?thesis by (simp add: agrees_def)
qed

lemma agrees_form [agree_rules]: "agrees R U (with_form b f r) (with_form b f r)"
  unfolding with_form_def by (intro agree_rules)

lemma agrees_failing [agree_rules]: "agrees R U m m' \<Longrightarrow> (\<And>x. agrees R U (k x) (k' x)) \<Longrightarrow> agrees R U (failing m k) (failing m' k')"
  unfolding failing_def by (intro agree_rules)

lemma agrees_execute [agree_rules]: "agrees R U (execute_request E r gm) (execute_request E r gm)"
  unfolding execute_request_def by (intro agree_rules)

lemma agrees_authorized [agree_rules]: "agrees R U (authorized me) (authorized me)"
  unfolding authorized_def by (intro agree_rules)

lemma agrees_config [agree_rules]: "agrees R U (config_request r c) (config_request r c)"
  unfolding config_request_def config_type_def by (intro agree_rules)

lemma agrees_handle:
  assumes "\<And>c. rq_command r = Inr c \<Longrightarrow> {key_actor c} \<inter> R \<subseteq> U"
  shows "agrees R U (handle_with cmd_obj_get me E r) (handle_with look_plain me E r)"
proof (cases "rq_command r")
  case (Inl e)
  then show ?thesis by (simp add: handle_with_def agrees_def)
next
  case (Inr c)
  then have "no_dot c" by (auto simp: rq_command_def split: option.splits dest: split_no_dot)
  note look = agrees_look [OF this assms [OF Inr]]
  have b: "ebind (elift (Inr c)) k = k c" for k :: "gaddr \<Rightarrow> ('a, 'b, greply) heff" by (rule ext) simp
  show ?thesis unfolding handle_with_def Inr b by (intro agree_rules look)
qed

lemma agrees_request:
  "agrees R (U \<union> (asked parts \<inter> R)) (ebind (elift (rq_read parts)) (handle_with cmd_obj_get me E))
     (ebind (elift (rq_read parts)) (handle_with look_plain me E))"
proof (cases "rq_read parts")
  case (Inl e)
  then show ?thesis by (simp add: agrees_def)
next
  case (Inr r)
  have b: "ebind (elift (Inr r)) k = k r" for k :: "grequest \<Rightarrow> ('a, 'b, greply) heff" by (rule ext) simp
  show ?thesis unfolding Inr b by (intro agrees_handle) (auto simp: asked_def Inr)
qed

lemma actor_key_of: "key_actor c = actor_key (ga_author c) (ga_package c) (ga_actor c)"
  by (simp add: key_actor_def actor_key_def)

lemma find_cmd_load:
  assumes "key_actor c \<noteq> actor_key a p n"
  shows "find_cmd (actor_add (join ''.'' [a, p]) n cmds (package_put a p n ms sv)) c = find_cmd sv c"
proof -
  have ne: "\<not> (a = ga_author c \<and> p = ga_package c \<and> n = ga_actor c)" using assms by (auto simp: actor_key_of)
  have k: "join ''.'' [join ''.'' [a, p], n] \<noteq> key_actor c" using assms by (simp add: actor_key_def)
  show ?thesis
    using ne k by (auto simp: find_cmd_def actor_get_def package_get_def actor_add_def package_put_def split: option.split)
qed

lemma find_cmd_drop:
  assumes "key_actor c \<noteq> actor_key a p n"
  shows "find_cmd (actors_remove (join ''.'' [a, p]) n sv) c = find_cmd sv c"
  using assms by (simp add: find_cmd_def actor_get_def package_get_def actors_remove_def actor_key_def)

lemma put_fields: "gv_cache (package_put a p n ms sv) = gv_cache sv" "gv_meta (package_put a p n ms sv) = gv_meta sv"
  by (simp_all add: package_put_def split: option.split)

lemma uncached_load: "uncached (actor_add pn n cmds (package_put a p n ms sv)) = actor_add pn n cmds (package_put a p n ms (uncached sv))"
  by (simp add: package_put_def actor_add_def uncached_def split: option.split)

lemma uncached_drop: "uncached (actors_remove pn n sv) = actors_remove pn n (uncached sv)"
  by (simp add: actors_remove_def uncached_def)

lemma cache_ok_load:
  assumes "cache_ok R U sv" "actor_key a p n \<notin> U"
  shows "cache_ok (insert (actor_key a p n) R) U (actor_add (join ''.'' [a, p]) n cmds (package_put a p n ms sv))" (is "cache_ok _ _ ?sv")
proof (rule cache_okI)
  show "actors_of ?sv = insert (actor_key a p n) R"
    using cache_ok_actors [OF assms(1)] by (auto simp: actors_of_def actor_add_def actor_key_def put_fields d_keys_set)
next
  fix c x
  assume c: "no_dot c" "d_get (gv_cache ?sv) (key_method c) = Some x"
  then have g: "d_get (gv_cache sv) (key_method c) = Some x" by (simp add: actor_add_def put_fields)
  have u: "key_actor c \<in> U" by (rule cache_okU [OF assms(1) c(1) g])
  then have "key_actor c \<noteq> actor_key a p n" using assms(2) by auto
  then show "find_cmd ?sv c = Inr x \<and> key_actor c \<in> U"
    using cache_okD [OF assms(1) c(1) g] u by (simp only: find_cmd_load simp_thms)
qed

lemma cache_ok_drop:
  assumes "cache_ok R U sv" "actor_key a p n \<notin> U"
  shows "cache_ok (R - {actor_key a p n}) U (actors_remove (join ''.'' [a, p]) n sv)" (is "cache_ok _ _ ?sv")
proof (rule cache_okI)
  show "actors_of ?sv = R - {actor_key a p n}"
    using cache_ok_actors [OF assms(1)] by (simp add: actors_of_def actors_remove_def actor_key_def)
next
  fix c x
  assume c: "no_dot c" "d_get (gv_cache ?sv) (key_method c) = Some x"
  then have g: "d_get (gv_cache sv) (key_method c) = Some x" by (simp add: actors_remove_def)
  have u: "key_actor c \<in> U" by (rule cache_okU [OF assms(1) c(1) g])
  then have "key_actor c \<noteq> actor_key a p n" using assms(2) by auto
  then show "find_cmd ?sv c = Inr x \<and> key_actor c \<in> U"
    using cache_okD [OF assms(1) c(1) g] u by (simp only: find_cmd_drop simp_thms)
qed

lemma agrees_event:
  assumes "cache_ok R U sv" "settled R U (ev # evs)" "on_event (handle_request me E) (sv, cs) ev = ((sv1, cs1), out)"
  shows "on_event (handle_with look_plain me E) (uncached sv, cs) ev = ((uncached sv1, cs1), out)
    \<and> (\<exists>R1 U1. cache_ok R1 U1 sv1 \<and> settled R1 U1 evs)"
proof (cases ev)
  case (Connect k)
  then show ?thesis using assms by (auto simp: on_event_def)
next
  case (LoadActor a p n cmds ms)
  then have "actor_key a p n \<notin> U" "settled (insert (actor_key a p n) R) U evs" using assms(2) by auto
  then show ?thesis using LoadActor assms(3) cache_ok_load [OF assms(1), of a p n cmds ms]
    by (auto simp: on_event_def uncached_load)
next
  case (DropActor a p n)
  then have "actor_key a p n \<notin> U" "settled (R - {actor_key a p n}) U evs" using assms(2) by auto
  then show ?thesis using DropActor assms(3) cache_ok_drop [OF assms(1), of a p n]
    by (auto simp: on_event_def uncached_drop)
next
  case (Request k parts)
  let ?U = "U \<union> (asked parts \<inter> R)"
  have ok: "cache_ok R ?U sv" by (rule cache_ok_mono [OF assms(1)]) simp
  have st: "settled R ?U evs" using assms(2) Request by simp
  show ?thesis
  proof (cases "d_get cs k")
    case None
    then show ?thesis using assms(3) Request ok st by (auto simp: on_event_def)
  next
    case (Some se)
    obtain sv2 se2 r where m: "ebind (elift (rq_read parts)) (handle_with cmd_obj_get me E) (sv, se) = ((sv2, se2), r)"
      by (metis surj_pair)
    note d = agreesD [OF agrees_request ok m]
    have "sv1 = sv2" using assms(3) Request Some m by (cases r) (auto simp: on_event_def handle_request_def simp del: ebind_lift)
    then have c: "cache_ok R ?U sv1" using d by simp
    have "on_event (handle_with look_plain me E) (uncached sv, cs) ev = ((uncached sv1, cs1), out)"
      using assms(3) Request Some m d by (cases r) (auto simp: on_event_def handle_request_def simp del: ebind_lift)
    with c st show ?thesis by blast
  qed
qed

lemma agrees_events:
  assumes "cache_ok R U sv" "settled R U evs" "on_events (handle_request me E) (sv, cs) evs = ((sv1, cs1), out)"
  shows "on_events (handle_with look_plain me E) (uncached sv, cs) evs = ((uncached sv1, cs1), out)"
  using assms
proof (induction evs arbitrary: R U sv cs sv1 cs1 out)
  case (Cons ev evs)
  obtain sv2 cs2 o2 where e: "on_event (handle_request me E) (sv, cs) ev = ((sv2, cs2), o2)" by (metis surj_pair)
  obtain sv3 cs3 o3 where f: "on_events (handle_request me E) (sv2, cs2) evs = ((sv3, cs3), o3)" by (metis surj_pair)
  note d = agrees_event [OF Cons.prems(1,2) e]
  then obtain R1 U1 where "cache_ok R1 U1 sv2" "settled R1 U1 evs" by blast
  note g = Cons.IH [OF this f]
  show ?case using d g Cons.prems(3) e f by simp
qed simp

text \<open>C17: The cache of the handler cannot be observed. On every server that starts with an empty cache, every interleaving of
  connections, requests, actors that are loaded and actors that are taken out, with whatever the methods do to the world and to their
  sessions, gives the same replies, the same world and the same open connections as a handler that looks up every command anew. An
  actor may come, be loaded again and go at any time until the first request that names it while the server has it (requests that
  come before it is loaded do not count); after that it stays. Without this the cache shows: \<open>removed_actor_runs\<close>.\<close>

theorem gedis_cache_transparent:
  assumes "settled (actors_of sv) {} evs"
  shows "case serve me E (uncached sv, cs) evs of ((sv', cs'), replies) \<Rightarrow>
     serve_plain me E (uncached sv, cs) evs = ((uncached sv', cs'), replies)"
proof -
  have ok: "cache_ok (actors_of sv) {} (uncached sv)" by (simp add: cache_ok_def uncached_def actors_of_def)
  obtain sv' cs' replies where s: "serve me E (uncached sv, cs) evs = ((sv', cs'), replies)" by (metis surj_pair)
  have "uncached (uncached sv) = uncached sv" by (simp add: uncached_def)
  then show ?thesis using agrees_events [OF ok assms, of me E cs sv' cs' replies] s by (simp add: serve_def serve_plain_def)
qed

section \<open>Sessions\<close>

definition quiet_reply :: "greply \<Rightarrow> bool" where
  "quiet_reply reply = (reply = Answer (PStr ''OK'') \<or> reply = Answer (PStr ''PONG'') \<or> (\<exists>e. reply = Failed e))"

definition same_rest :: "gme \<Rightarrow> 'w \<Rightarrow> ('m, 'w) gstate \<Rightarrow> bool" where
  \<comment> \<open>the world is as it was and the session no administrator\<close>
  "same_rest me w = (\<lambda>(sv, se). gv_world sv = w \<and> session_admin me se = (se, False))"

lemma same_rest_types: "same_rest me w (sv, se) \<Longrightarrow> same_rest me w (sv, se\<lparr>se_content := d\<rparr>)"
  "same_rest me w (sv, se) \<Longrightarrow> same_rest me w (sv, se\<lparr>se_response := d\<rparr>)"
  by (auto simp: same_rest_def session_admin_def split: if_splits)

lemma keeps_config: "keeps (same_rest me w) (config_request r c)"
proof -
  have "keeps (same_rest me w) (set_session (\<lambda>se. se\<lparr>se_content := d\<rparr>))" "keeps (same_rest me w) (set_session (\<lambda>se. se\<lparr>se_response := d\<rparr>))" for d
    unfolding set_session_def using same_rest_types by (auto simp: keeps_def)
  then show ?thesis unfolding config_request_def config_type_def by (auto intro!: keeps_rules)
qed

lemma keeps_look: "keeps (same_rest me w) (cmd_obj_get c)"
  unfolding cmd_obj_get_def by (intro keeps_rules keeps_basic) (auto simp: same_rest_def split: option.split)

lemma authorized_stranger: "same_rest me w s \<Longrightarrow> authorized me s = (s, Inl P_AttributeError)"
  by (cases s) (simp add: same_rest_def authorized_def set_session_def)

lemma stranger_request:
  assumes "same_rest me w s" "handle_request me E r s = (s', res)"
  shows "same_rest me w s' \<and> (\<forall>reply. res = Inr reply \<longrightarrow> quiet_reply reply)"
proof (cases "rq_command r")
  case (Inl e)
  then show ?thesis using assms by (auto simp: handle_request_def handle_with_def)
next
  case (Inr c)
  define body where "body = failing (cmd_obj_get c) (\<lambda>gm. ebind (authorized me) (\<lambda>_. execute_request E r gm))"
  obtain s1 f where l: "cmd_obj_get c s = (s1, f)" by (cases "cmd_obj_get c s")
  have s1: "same_rest me w s1" by (rule keepsD [OF keeps_look assms(1) l])
  have b: "body s = (s1, case f of Inl e \<Rightarrow> Inr (Failed e) | Inr x \<Rightarrow> Inl P_AttributeError)"
    using l authorized_stranger [OF s1] by (cases f) (simp_all add: body_def failing_def ebind_app ecatch_def)
  obtain s2 g where c: "config_request r (ga_command c) s = (s2, g)" by (cases "config_request r (ga_command c) s")
  have s2: "same_rest me w s2" by (rule keepsD [OF keeps_config assms(1) c])
  have q: "quiet_reply (Answer (PStr ''OK''))" "quiet_reply (Answer (PStr ''PONG''))" "quiet_reply (Failed e)" for e
    by (simp_all add: quiet_reply_def)
  have k: "ebind (elift (Inr c)) k s = k c s" for k :: "gaddr \<Rightarrow> ('b, 'a, greply) heff" by simp
  have h: "(s', res) = (if ga_command c = ''command'' then (s, Inr (Answer (PStr ''OK'')))
     else if ga_command c = ''ping'' then (s, Inr (Answer (PStr ''PONG'')))
     else if starts_with ''config_'' (ga_command c) then ebind (config_request r (ga_command c)) (\<lambda>_. ereturn (Answer (PStr ''OK''))) s
     else if ga_command c = ''auth'' then (s, Inr (Answer (PStr ''OK''))) else body s)"
    unfolding assms(2) [symmetric] handle_request_def handle_with_def Inr k body_def by simp
  define ok pong where lits: "ok = Answer (PStr ''OK'')" "pong = Answer (PStr ''PONG'')"
  show ?thesis
    using h assms(1) b c s1 s2 q unfolding lits [symmetric]
    by (cases f; cases g) (auto simp: ebind_app split: if_splits)
qed

lemma stranger_event:
  assumes "\<forall>k se. d_get cs k = Some se \<longrightarrow> session_admin me se = (se, False)" "\<And>k. ev \<noteq> Connect k"
    and "on_event (handle_request me E) (sv, cs) ev = ((sv', cs'), out)"
  shows "gv_world sv' = gv_world sv \<and> (\<forall>k se. d_get cs' k = Some se \<longrightarrow> session_admin me se = (se, False))
    \<and> (\<forall>(k, reply)\<in>set out. quiet_reply reply)"
proof (cases ev)
  case (Request k parts)
  show ?thesis
  proof (cases "d_get cs k")
    case None
    then show ?thesis using assms Request by (auto simp: on_event_def)
  next
    case (Some se)
    then have st: "same_rest me (gv_world sv) (sv, se)" using assms(1) by (simp add: same_rest_def)
    obtain sv2 se2 r where m: "ebind (elift (rq_read parts)) (handle_request me E) (sv, se) = ((sv2, se2), r)" by (metis surj_pair)
    have "same_rest me (gv_world sv) (sv2, se2) \<and> (\<forall>reply. r = Inr reply \<longrightarrow> quiet_reply reply)"
      using m st stranger_request [OF st] by (auto split: sum.splits)
    then show ?thesis
      using assms(1,3) Request Some m by (cases r) (auto simp: on_event_def same_rest_def simp del: ebind_lift split: if_splits)
  qed
qed (use assms in \<open>auto simp: on_event_def actor_add_def actors_remove_def package_put_def split: option.splits\<close>)

text \<open>Without the session of an administrator no method of an actor ever runs: whatever requests arrive on connections whose
  sessions are those of other users, in any order, the world stays as it is and every reply is that of a request the server
  answers itself, or an error.\<close>

theorem strangers_run_nothing:
  assumes "\<forall>k se. d_get cs k = Some se \<longrightarrow> session_admin me se = (se, False)" "\<forall>k. Connect k \<notin> set evs"
  shows "case serve me E (sv, cs) evs of ((sv', cs'), replies) \<Rightarrow>
    gv_world sv' = gv_world sv \<and> (\<forall>(k, reply)\<in>set replies. quiet_reply reply)"
proof -
  have "on_events (handle_request me E) (sv, cs) evs = ((sv', cs'), out) \<Longrightarrow>
      gv_world sv' = gv_world sv \<and> (\<forall>(k, reply)\<in>set out. quiet_reply reply)" for sv' cs' out
    using assms
  proof (induction evs arbitrary: sv cs out)
    case (Cons ev evs)
    obtain sv2 cs2 o2 where e: "on_event (handle_request me E) (sv, cs) ev = ((sv2, cs2), o2)" by (metis surj_pair)
    obtain sv3 cs3 o3 where f: "on_events (handle_request me E) (sv2, cs2) evs = ((sv3, cs3), o3)" by (metis surj_pair)
    have "\<And>k. ev \<noteq> Connect k" using Cons.prems(3) by auto
    note d = stranger_event [OF Cons.prems(2) this e]
    show ?case using d Cons.IH [of sv2 cs2 o3] Cons.prems e f by auto
  qed simp
  then show ?thesis unfolding serve_def by (auto split: prod.split)
qed

definition demo_env :: "(nat, nat) genv" where
  "demo_env = \<lparr>ge_json = (\<lambda>_. Inl E_Value), ge_msgpack = (\<lambda>_. Inl E_Value), ge_new_data = (\<lambda>_ _. Inr []),
     ge_new_dict = (\<lambda>_ _. Inr []), ge_run = (\<lambda>m args kw (w, se). ((w + m, se), Inr (One (Plain (PInt (int w))))))\<rparr>"

definition demo_cmd :: gcmd where
  "demo_cmd = \<lparr>gc_namespace = ''zerobot.base'', gc_data = \<lparr>cd_name = ''add'', cd_comment = [], cd_in_url = [], cd_out_url = [],
     cd_args = [], cd_public = True\<rparr>, gc_in = None, gc_out = None\<rparr>"

definition demo_server :: "(nat, nat) gserver" where
  "demo_server = \<lparr>gv_cache = [], gv_meta = [(''zerobot.base.counter'', [(''add'', demo_cmd)])],
     gv_packages = [(''zerobot'', [(''base'', [(''counter'', [(''add'', 5)])])])], gv_world = 0\<rparr>"

definition demo_me :: gme where
  "demo_me = \<lparr>me_tname = ''me'', me_tid = 7, me_admins = []\<rparr>"

theorem strangers_run_nothing_witness:
  "case serve demo_me demo_env (demo_server, [(1, user_session)]) [Request 1 [''ping''], Request 1 [''counter.add'']] of
     ((sv', cs'), replies) \<Rightarrow> gv_world sv' = 0 \<and> (\<forall>(k, reply)\<in>set replies. quiet_reply reply)"
proof -
  have a: "\<forall>k se. d_get [(1, user_session)] k = Some se \<longrightarrow> session_admin demo_me se = (se, False)"
    by (auto simp: session_admin_def user_session_def demo_me_def)
  have w: "gv_world demo_server = 0" by (simp add: demo_server_def)
  show ?thesis
    using strangers_run_nothing [OF a, of "[Request 1 [''ping''], Request 1 [''counter.add'']]" demo_server demo_env] unfolding w by simp
qed

text \<open>What a method with a schema is given are the properties of the schema, in their order.\<close>

lemma read_args_names: "read_input_args E r g s = Inr kw \<Longrightarrow> map fst kw = propertynames s"
proof -
  have "rmap (arg_value a) ks = Inr kw \<Longrightarrow> map fst kw = ks" for a ks kw
    by (induction ks arbitrary: kw) (auto simp: rbind_eq_Inr arg_value_def split: option.splits)
  then show "read_input_args E r g s = Inr kw \<Longrightarrow> ?thesis"
    by (auto simp: read_input_args_def rbind_eq_Inr split: if_splits option.splits)
qed

section \<open>What the server does otherwise\<close>

text \<open>Every connection gets the session of an administrator, whoever made it, and the method runs.\<close>

lemma everyone_is_admin:
  "(case serve demo_me demo_env (demo_server, []) [Connect 1, Request 1 [''counter.add'']] of
     ((sv', cs'), replies) \<Rightarrow> (gv_world sv', replies)) = (5, [(1, Answer (PInt 0))])"
  by code_simp

definition demo_events :: "nat gevent list" where
  \<comment> \<open>a request before its actor is there, the actor, and requests for it and another one\<close>
  "demo_events = [Connect 1, Request 1 [''lamp.add''], LoadActor ''zerobot'' ''base'' ''lamp'' [(''add'', demo_cmd)] [(''add'', 3)],
     Request 1 [''lamp.add''], Request 1 [''lamp.add''], DropActor ''zerobot'' ''base'' ''counter'']"

theorem gedis_cache_transparent_witness:
  "(case serve demo_me demo_env (uncached demo_server, []) demo_events of ((sv', cs'), replies) \<Rightarrow>
     serve_plain demo_me demo_env (uncached demo_server, []) demo_events = ((uncached sv', cs'), replies))
   \<and> snd (serve demo_me demo_env (demo_server, []) demo_events)
     = [(1, Failed E_Input), (1, Answer (PInt 0)), (1, Answer (PInt 3))]"
proof
  have "settled (actors_of demo_server) {} demo_events" by code_simp
  from gedis_cache_transparent [OF this]
  show "case serve demo_me demo_env (uncached demo_server, []) demo_events of ((sv', cs'), replies) \<Rightarrow>
     serve_plain demo_me demo_env (uncached demo_server, []) demo_events = ((uncached sv', cs'), replies)" .
  show "snd (serve demo_me demo_env (demo_server, []) demo_events)
     = [(1, Failed E_Input), (1, Answer (PInt 0)), (1, Answer (PInt 3))]" by code_simp
qed

text \<open>Once a command was used, taking its actor out of the server does not end it.\<close>

lemma removed_actor_runs:
  "d_get (gv_cache sv) (key_method c) = Some x \<Longrightarrow> snd (cmd_obj_get c (actors_remove p a sv, se)) = Inr x"
  by (simp add: cmd_obj_get_def actors_remove_def)

text \<open>A namespace before the actor is taken off in the short forms of a command and is an error in the full one, which is raised
  outside of the handling of errors and ends the connection.\<close>

lemma namespace_in_full_form:
  "command_split ''base.ns__counter.add'' = Inr \<lparr>ga_author = ''zerobot'', ga_package = ''base'', ga_actor = ''counter'', ga_command = ''add''\<rparr>
   \<and> command_split ''zerobot.base.ns__counter.add'' = Inl P_IndexError"
  by code_simp

lemma bad_command_closes:
  "snd (fst (serve demo_me demo_env (demo_server, []) [Connect 1, Request 1 [''a.b.c.d.e'']])) = []"
  by code_simp

text \<open>The type of responses that a session asks for is stored and not used.\<close>

lemma response_type_unused: "session_form (se\<lparr>se_response := d\<rparr>) = session_form se"
  by (simp add: session_form_def cong: if_cong)

text \<open>A content type that the reader of arguments knows but the session does not ends the connection.\<close>

lemma capnp_config_closes:
  "snd (fst (serve demo_me demo_env (demo_server, []) [Connect 1, Request 1 [''config_content_type'', ''capnp'']])) = []"
  by code_simp

end
