(* ===== verification/Profile.thy ===== *)
theory Profile
  imports TypesPrim SchemaText Effects
begin

text \<open>
  The profile of a shell (\<^verbatim>\<open>tools/bash/Profile.py\<close>): the variables and includes of a file that bash evaluates. The state is the
  object and the text of its file, None when there is none. The shell is an argument, which gives what \<^verbatim>\<open>printenv\<close> prints after
  the file was sourced; so are the files that exist, where the shell runs and here, and the variables in a path.
\<close>

section \<open>Reading the text of a profile\<close>

record shell =
  sh_printenv :: "string \<Rightarrow> string res"
  sh_exists :: "string \<Rightarrow> bool"
  sh_here :: "string \<Rightarrow> bool"
  sh_replace :: "string \<Rightarrow> string"

record profile =
  pf_path :: string
  pf_env :: "(string \<times> string) list"
  pf_includes :: "string list"
  pf_file :: "string option"

type_synonym 'a peff = "(profile, 'a) eff"

definition word_char :: "char \<Rightarrow> bool" where
  "word_char c = (is_alnum c \<or> c = CHR ''_'')"

fun line_var :: "string \<Rightarrow> string \<Rightarrow> (string \<times> string) option" where
  \<comment> \<open>the first run of word characters that is followed by =, and the rest of the line\<close>
  "line_var run [] = None"
| "line_var run (c # cs) = (if word_char c then line_var (run @ [c]) cs
     else if c = CHR ''='' \<and> run \<noteq> [] then Some (run, cs) else line_var [] cs)"

fun somes :: "'a option list \<Rightarrow> 'a list" where
  "somes [] = []"
| "somes (None # xs) = somes xs"
| "somes (Some x # xs) = x # somes xs"

definition dict_of :: "(string \<times> string) list \<Rightarrow> (string \<times> string) list" where
  "dict_of ps = foldl (\<lambda>d (k, v). d_set d k v) [] ps"

definition env_vars_find :: "string \<Rightarrow> (string \<times> string) list" where
  \<comment> \<open>a line counts when it ends with a newline\<close>
  "env_vars_find content = dict_of (somes (map (line_var []) (butlast (lines content))))"

fun line_include :: "string \<Rightarrow> string option" where
  \<comment> \<open>what follows the first \<^verbatim>\<open>source\<close> or dot with a space, anywhere in the line\<close>
  "line_include [] = None"
| "line_include (c # cs) = (if starts_with ''source '' (c # cs) then Some (drop 7 (c # cs))
     else if starts_with ''. '' (c # cs) then Some (drop 2 (c # cs)) else line_include cs)"

definition includes_find :: "string \<Rightarrow> string list" where
  "includes_find content = somes (map line_include (lines content))"

definition dquote :: char where
  "dquote = CHR 0x22"

definition quote :: "string \<Rightarrow> string" where
  "quote v = [dquote] @ strip_chars [dquote] (strip (strip_chars [dquote] v)) @ [dquote]"

definition unq :: "string \<Rightarrow> string" where
  \<comment> \<open>\<^verbatim>\<open>.strip().strip("'").strip('"').strip()\<close>\<close>
  "unq v = strip (strip_chars [dquote] (strip_chars [CHR 0x27] (strip v)))"

definition profile_load :: "shell \<Rightarrow> unit peff" where
  "profile_load B = ebind (emod (\<lambda>p. p\<lparr>pf_env := [], pf_includes := []\<rparr>)) (\<lambda>_.
     ebind (eget pf_file) (\<lambda>file. case file of
       None \<Rightarrow> emod (\<lambda>p. p\<lparr>pf_file := Some []\<rparr>)
     | Some content \<Rightarrow> ebind (elift (sh_printenv B content)) (\<lambda>out.
         ebind (emod (\<lambda>p. p\<lparr>pf_env := map (\<lambda>(k, v). (k, quote v))
             (filter (\<lambda>(k, v). d_has (env_vars_find content) k) (env_vars_find out))\<rparr>)) (\<lambda>_.
         emod (\<lambda>p. p\<lparr>pf_includes := includes_find content\<rparr>)))))"

section \<open>Variables with parts\<close>

definition path_clean :: "string \<Rightarrow> string" where
  "path_clean path = replace_str '';'' '':'' (rstrip_chars ''/'' (replace_str ''//'' ''/'' (replace_str ''//'' ''/'' (strip path))))"

definition line_parts :: "char \<Rightarrow> string \<Rightarrow> string list" where
  "line_parts sep line = map unq (split_char sep line)"

definition nub :: "string list \<Rightarrow> string list" where
  "nub xs = foldl (\<lambda>items i. if i \<in> set items then items else items @ [i]) [] xs"

definition part_value :: "string \<Rightarrow> string res" where
  "part_value v = rbind (jstring_clean (PStr v)) (\<lambda>x. case x of PStr s \<Rightarrow> Inr (unq s) | _ \<Rightarrow> Inl P_AttributeError)"

definition parts_put :: "string list \<Rightarrow> string \<Rightarrow> bool \<Rightarrow> bool \<Rightarrow> string list" where
  "parts_put items0 v atend qt = (let items = remove1 v (nub items0); w = strip (if qt \<and> CHR '' '' \<in> set v then quote v else v)
     in if atend then items @ [w] else w # items)"

definition set_part :: "(string \<times> string) list \<Rightarrow> string \<Rightarrow> string \<Rightarrow> bool \<Rightarrow> bool \<Rightarrow> char \<Rightarrow> (string \<times> string) list res" where
  \<comment> \<open>\<^verbatim>\<open>env_set_part\<close>, without saving\<close>
  "set_part env key value0 atend qt sep = rbind (part_value value0) (\<lambda>v. case d_get env key of
       None \<Rightarrow> Inr (d_set env key v)
     | Some x \<Rightarrow> (let line = unq x in
         if sep = CHR '';'' \<and> CHR '':'' \<in> set line \<or> sep = CHR '':'' \<and> CHR '';'' \<in> set line then Inl E_Input
         else Inr (d_set env key (strip_chars [sep] (join [sep] (parts_put (line_parts sep line) v atend qt))))))"

definition path_add_env :: "shell \<Rightarrow> string \<Rightarrow> bool \<Rightarrow> bool \<Rightarrow> (string \<times> string) list \<Rightarrow> (string \<times> string) list res" where
  "path_add_env B path atend check env = (if check \<and> \<not> sh_here B path then Inr env
     else set_part env ''PATH'' (path_clean path) atend True (CHR '':''))"

definition env_get_parts :: "(string \<times> string) list \<Rightarrow> string \<Rightarrow> string list" where
  "env_get_parts env key = (case d_get env key of
       None \<Rightarrow> []
     | Some line \<Rightarrow> if CHR '':'' \<in> set line then map strip (split_char (CHR '':'') line)
         else if CHR '';'' \<in> set line then map strip (split_char (CHR '';'') line) else [strip line])"

definition env_exists_part :: "(string \<times> string) list \<Rightarrow> string \<Rightarrow> string \<Rightarrow> bool" where
  "env_exists_part env key value = (strip value \<in> set (env_get_parts env key))"

section \<open>Writing\<close>

definition export_line :: "string \<times> string \<Rightarrow> string" where
  "export_line kv = ''export '' @ fst kv @ ''='' @ snd kv"

definition source_line :: "string \<Rightarrow> string" where
  "source_line i = ''source '' @ i"

definition heads :: "string list" where
  "heads = [''# environment variables'', ''# includes'']"

definition profile_text :: "shell \<Rightarrow> (string \<times> string) list \<Rightarrow> string list \<Rightarrow> string" where
  "profile_text B env incs = unlines ([heads ! 0] @ map export_line env @ [heads ! 1] @ map source_line (filter (sh_exists B) incs))"

definition system_paths :: "string list" where
  "system_paths = [''/bin'', ''/sbin'', ''/usr/bin'', ''/usr/sbin'', ''/usr/local/bin'', ''/usr/local/sbin'']"

definition env_update :: "((string \<times> string) list \<Rightarrow> (string \<times> string) list res) \<Rightarrow> unit peff" where
  "env_update f = ebind (eget (\<lambda>p. f (pf_env p))) (\<lambda>r. ebind (elift r) (\<lambda>env. emod (\<lambda>p. p\<lparr>pf_env := env\<rparr>)))"

definition add_system_paths :: "shell \<Rightarrow> unit peff" where
  \<comment> \<open>one after the other: those before an exception stay\<close>
  "add_system_paths B = ebind (eget (\<lambda>p. d_has (pf_env p) ''PATH'')) (\<lambda>has. if has
     then efor system_paths (\<lambda>path. env_update (path_add_env B path True True)) else ereturn ())"

definition profile_save :: "shell \<Rightarrow> unit peff" where
  "profile_save B = ebind (add_system_paths B) (\<lambda>_. ebind (eget pf_path) (\<lambda>path.
     if lower (sh_replace B path) = sh_replace B ''{DIR_BASE}/env.sh'' then eraise E_JSBUG
     else emod (\<lambda>p. p\<lparr>pf_file := Some (profile_text B (pf_env p) (pf_includes p))\<rparr>)))"

definition saved :: "shell \<Rightarrow> bool \<Rightarrow> unit peff" where
  "saved B save = (if save then profile_save B else ereturn ())"

definition env_set :: "shell \<Rightarrow> string \<Rightarrow> string \<Rightarrow> bool \<Rightarrow> bool \<Rightarrow> unit peff" where
  "env_set B key value save qt = ebind (emod (\<lambda>p. p\<lparr>pf_env := d_set (pf_env p) key (if qt then quote value else value)\<rparr>)) (\<lambda>_.
     saved B save)"

definition env_set_part :: "shell \<Rightarrow> string \<Rightarrow> string \<Rightarrow> bool \<Rightarrow> bool \<Rightarrow> bool \<Rightarrow> char \<Rightarrow> unit peff" where
  "env_set_part B key value atend qt save sep = ebind (env_update (\<lambda>env. set_part env key value atend qt sep)) (\<lambda>_. saved B save)"

definition path_add :: "shell \<Rightarrow> string \<Rightarrow> bool \<Rightarrow> bool \<Rightarrow> bool \<Rightarrow> unit peff" where
  "path_add B path atend check save = (if check \<and> \<not> sh_here B path then ereturn ()
     else env_set_part B ''PATH'' (path_clean path) atend True save (CHR '':''))"

definition env_delete_part :: "shell \<Rightarrow> string \<Rightarrow> string \<Rightarrow> unit peff" where
  "env_delete_part B key value = ebind (elift (part_value value)) (\<lambda>v. ebind (eget (\<lambda>p. d_get (pf_env p) key)) (\<lambda>x. case x of
       None \<Rightarrow> ereturn ()
     | Some line \<Rightarrow> (let items = line_parts (CHR '':'') (unq line) in
         if strip v \<in> set items then env_set B key (strip_chars '':'' (join '':'' (remove1 (strip v) items))) True False else ereturn ())))"

definition path_delete :: "shell \<Rightarrow> string \<Rightarrow> unit peff" where
  "path_delete B path = env_delete_part B ''PATH'' (path_clean path)"

definition profile_paths :: "profile \<Rightarrow> string list" where
  "profile_paths p = env_get_parts (pf_env p) ''PATH''"

definition include_add :: "shell \<Rightarrow> string \<Rightarrow> unit peff" where
  "include_add B path0 = (let path = path_clean path0 in ebind (eget pf_includes) (\<lambda>incs.
     if path \<in> set incs then ereturn ()
     else ebind (emod (\<lambda>p. p\<lparr>pf_includes := incs @ [path]\<rparr>)) (\<lambda>_. profile_save B)))"

definition env_get :: "profile \<Rightarrow> string \<Rightarrow> string res" where
  "env_get p key = (case d_get (pf_env p) key of None \<Rightarrow> Inl P_KeyError | Some v \<Rightarrow> Inr v)"

definition env_exists :: "profile \<Rightarrow> string \<Rightarrow> bool" where
  "env_exists p key = d_has (pf_env p) key"

definition env_delete :: "shell \<Rightarrow> string \<Rightarrow> unit peff" where
  "env_delete B key = ebind (eget (\<lambda>p. env_exists p key)) (\<lambda>ex. if ex
     then ebind (emod (\<lambda>p. p\<lparr>pf_env := d_pop (pf_env p) key\<rparr>)) (\<lambda>_. profile_save B) else ereturn ())"

definition profile_delete :: "shell \<Rightarrow> unit peff" where
  "profile_delete B = ebind (emod (\<lambda>p. p\<lparr>pf_file := Some []\<rparr>)) (\<lambda>_. profile_load B)"

definition profile_replace :: "profile \<Rightarrow> string \<Rightarrow> string" where
  "profile_replace p text = foldl (\<lambda>t (k, v). replace_str ([CHR 0x24] @ k) v t) text (pf_env p)"

definition locale_fix :: "shell \<Rightarrow> string list \<Rightarrow> unit peff" where
  "locale_fix B items = ebind (env_set B ''TERMINFO'' ''xterm-256colors'' True False) (\<lambda>_.
     if ''en_US.UTF-8'' \<in> set items \<or> ''en_US.utf8'' \<in> set items
     then ebind (env_set B ''LC_ALL'' ''en_US.UTF-8'' True False) (\<lambda>_. env_set B ''LANG'' ''en_US.UTF-8'' True False)
     else if ''C.UTF-8'' \<in> set items \<or> ''c.utf8'' \<in> set items
     then ebind (env_set B ''LC_ALL'' ''C.UTF-8'' True False) (\<lambda>_. env_set B ''LANG'' ''C.UTF-8'' True False)
     else eraise E_Input)"

definition locale_check :: "shell \<Rightarrow> bool \<Rightarrow> string list \<Rightarrow> unit peff" where
  \<comment> \<open>which platform this is and the locales it has are known from outside\<close>
  "locale_check B osx items = (let want = (if osx then ''en_US.UTF-8'' else ''C.UTF-8'') in
     ebind (eget (\<lambda>p. d_get (pf_env p) ''LC_ALL'' = Some want \<and> d_get (pf_env p) ''LANG'' = Some want)) (\<lambda>ok.
       if ok then ereturn () else ebind (locale_fix B items) (\<lambda>_. profile_save B)))"

section \<open>Lemmas: the text of a profile\<close>

lemma dict_of_distinct: "distinct (map fst ps) \<Longrightarrow> dict_of ps = ps"
proof -
  have snoc: "k \<notin> set (map fst d) \<Longrightarrow> d_set d k v = d @ [(k, v)]" for d :: "(string \<times> string) list" and k v
    by (induction d k v rule: d_set.induct) auto
  have "distinct (map fst (d @ ps)) \<Longrightarrow> foldl (\<lambda>d (k, v). d_set d k v) d ps = d @ ps" for d
    by (induction ps arbitrary: d) (auto simp: snoc)
  from this [of "[]"] show "distinct (map fst ps) \<Longrightarrow> ?thesis" by (simp add: dict_of_def)
qed

lemma line_var_key: "list_all word_char k \<Longrightarrow> run @ k \<noteq> [] \<Longrightarrow> line_var run (k @ ''='' @ v) = Some (run @ k, v)"
proof (induction k arbitrary: run)
  case Nil
  have "\<not> word_char (CHR ''='')" by code_simp
  then show ?case using Nil by simp
qed simp

lemma line_var_export: "list_all word_char (fst kv) \<Longrightarrow> fst kv \<noteq> [] \<Longrightarrow> line_var [] (export_line kv) = Some kv"
proof -
  have "list_all word_char ''export''" "\<not> word_char (CHR '' '')" by code_simp+
  then have "line_var [] (export_line kv) = line_var [] (fst kv @ ''='' @ snd kv)" by (simp add: export_line_def)
  then show "list_all word_char (fst kv) \<Longrightarrow> fst kv \<noteq> [] \<Longrightarrow> ?thesis" using line_var_key [of "fst kv" "[]" "snd kv"] by simp
qed

lemma line_var_none: "CHR ''='' \<notin> set s \<Longrightarrow> line_var run s = None"
  by (induction s arbitrary: run) auto

lemma somes_append [simp]: "somes (xs @ ys) = somes xs @ somes ys"
  by (induction xs rule: somes.induct) auto

lemma somes_none: "(\<And>x. x \<in> set xs \<Longrightarrow> f x = None) \<Longrightarrow> somes (map f xs) = []"
  by (induction xs) auto

lemma somes_some: "(\<And>x. x \<in> set xs \<Longrightarrow> f x = Some (g x)) \<Longrightarrow> somes (map f xs) = map g xs"
  by (induction xs) auto

lemma env_vars_unlines: "list_all (\<lambda>l. newline \<notin> set l) ls \<Longrightarrow> env_vars_find (unlines ls) = dict_of (somes (map (line_var []) ls))"
  by (simp add: env_vars_find_def lines_unlines)

lemma includes_unlines: "list_all (\<lambda>l. newline \<notin> set l) ls \<Longrightarrow> includes_find (unlines ls) = somes (map line_include ls)"
  by (simp add: includes_find_def lines_unlines)

section \<open>What is saved is what is read\<close>

definition plain_var :: "string \<times> string \<Rightarrow> bool" where
  \<comment> \<open>a variable on one line in which nothing looks like an include\<close>
  "plain_var = (\<lambda>(k, v). k \<noteq> [] \<and> list_all word_char k \<and> newline \<notin> set v \<and> line_include (export_line (k, v)) = None)"

definition plain_incl :: "string \<Rightarrow> bool" where
  "plain_incl i = (newline \<notin> set i \<and> CHR ''='' \<notin> set i)"

definition bare :: "string \<Rightarrow> string" where
  "bare v = strip_chars [dquote] v"

definition printed :: "(string \<times> string) list \<Rightarrow> string \<Rightarrow> (string \<times> string) list \<Rightarrow> bool" where
  \<comment> \<open>\<open>out\<close> prints an environment \<open>ev\<close>, every name once, that has the variables of \<open>env\<close> without their quotes\<close>
  "printed ev out env = (out = unlines (map (\<lambda>(k, v). k @ ''='' @ v) ev) \<and> distinct (map fst ev)
     \<and> list_all (\<lambda>(k, v). k \<noteq> [] \<and> list_all word_char k \<and> newline \<notin> set v) ev
     \<and> list_all (\<lambda>(k, v). d_get ev k = Some (bare v)) env)"

lemma quote_bare: "quote (bare v) = quote v"
  by (simp add: quote_def bare_def)

lemma word_no_newline: "list_all word_char k \<Longrightarrow> newline \<notin> set k"
proof -
  have "\<not> word_char newline" by code_simp
  then show "list_all word_char k \<Longrightarrow> ?thesis" by (auto simp: list_all_iff)
qed

lemma printed_vars: "printed ev out env \<Longrightarrow> env_vars_find out = ev"
proof -
  assume p: "printed ev out env"
  let ?l = "\<lambda>(k, v). k @ ''='' @ (v :: string)"
  have o: "out = unlines (map ?l ev)" and d: "distinct (map fst ev)"
    and w: "\<And>k v. (k, v) \<in> set ev \<Longrightarrow> k \<noteq> [] \<and> list_all word_char k \<and> newline \<notin> set v"
    using p by (auto simp: printed_def list_all_iff)
  have nl: "list_all (\<lambda>l. newline \<notin> set l) (map ?l ev)"
    using w word_no_newline by (fastforce simp: list_all_iff newline_def)
  have "somes (map (line_var [] \<circ> ?l) ev) = map (\<lambda>x. x) ev"
    by (rule somes_some) (use w line_var_key [of _ "[]"] in auto)
  then show ?thesis unfolding o env_vars_unlines [OF nl] by (simp add: dict_of_distinct [OF d])
qed

lemma export_no_newline: "list_all word_char (fst kv) \<Longrightarrow> newline \<notin> set (snd kv) \<Longrightarrow> newline \<notin> set (export_line kv)"
  using word_no_newline [of "fst kv"] by (simp add: export_line_def newline_def)

lemma source_facts:
  "newline \<notin> set i \<Longrightarrow> newline \<notin> set (source_line i)" "line_include (source_line i) = Some i"
  "CHR ''='' \<notin> set i \<Longrightarrow> line_var [] (source_line i) = None"
proof -
  show "newline \<notin> set i \<Longrightarrow> newline \<notin> set (source_line i)" by (simp add: source_line_def newline_def)
  show "line_include (source_line i) = Some i" by (simp add: source_line_def)
  show "CHR ''='' \<notin> set i \<Longrightarrow> line_var [] (source_line i) = None" by (rule line_var_none) (simp add: source_line_def)
qed

lemma head_facts: "newline \<notin> set (heads ! 0)" "newline \<notin> set (heads ! 1)" "line_include (heads ! 0) = None" "line_include (heads ! 1) = None"
  "line_var [] (heads ! 0) = None" "line_var [] (heads ! 1) = None"
  by code_simp+

lemma text_read:
  assumes "list_all plain_var env" "list_all plain_incl incs" "distinct (map fst env)"
  shows "env_vars_find (profile_text B env incs) = env" "includes_find (profile_text B env incs) = filter (sh_exists B) incs"
proof -
  let ?incs = "filter (sh_exists B) incs"
  let ?ls = "[heads ! 0] @ map export_line env @ [heads ! 1] @ map source_line ?incs"
  have e: "newline \<notin> set (export_line kv)" "line_include (export_line kv) = None" "line_var [] (export_line kv) = Some kv" if "kv \<in> set env" for kv
    using assms(1) that export_no_newline [of kv] line_var_export [of kv] by (auto simp: list_all_iff plain_var_def)
  have i: "newline \<notin> set (source_line i)" "line_var [] (source_line i) = None" if "i \<in> set ?incs" for i
    using assms(2) that source_facts by (auto simp: list_all_iff plain_incl_def)
  have nl: "list_all (\<lambda>l. newline \<notin> set l) ?ls" using e(1) i(1) head_facts by (auto simp: list_all_iff)
  have "somes (map (line_var [] \<circ> export_line) env) = map (\<lambda>kv. kv) env" by (rule somes_some) (use e(3) in simp)
  moreover have "somes (map (line_var [] \<circ> source_line) ?incs) = []" by (rule somes_none) (use i(2) in simp)
  ultimately have "somes (map (line_var []) ?ls) = env" using head_facts by simp
  then show "env_vars_find (profile_text B env incs) = env"
    unfolding profile_text_def env_vars_unlines [OF nl] by (simp only: dict_of_distinct [OF assms(3)])
  have "somes (map (line_include \<circ> export_line) env) = []" by (rule somes_none) (use e(2) in simp)
  moreover have "somes (map (line_include \<circ> source_line) ?incs) = map (\<lambda>i. i) ?incs" by (rule somes_some) (simp add: source_facts)
  ultimately have "somes (map line_include ?ls) = ?incs" using head_facts by simp
  then show "includes_find (profile_text B env incs) = ?incs" unfolding profile_text_def includes_unlines [OF nl] .
qed

definition saved_from :: "profile \<Rightarrow> profile \<Rightarrow> bool" where
  "saved_from p q = (distinct (map fst (pf_env q)) \<and> pf_includes q = pf_includes p
     \<and> (\<forall>k. k \<noteq> ''PATH'' \<longrightarrow> d_get (pf_env q) k = d_get (pf_env p) k))"

lemma set_part_env: "set_part env key v atend qt sep = Inr env' \<Longrightarrow> \<exists>x. env' = d_set env key x"
  by (auto simp: set_part_def rbind_eq_Inr Let_def split: option.splits if_splits)

lemma path_add_kept: "path_add_env B path atend check env = Inr env' \<Longrightarrow> env' = env \<or> (\<exists>x. env' = d_set env ''PATH'' x)"
  by (auto simp: path_add_env_def dest: set_part_env split: if_splits)

lemma keeps_system_paths: "keeps (saved_from p) (add_system_paths B)"
proof -
  define P where "P = ''PATH''"
  have d: "distinct (map fst env) \<Longrightarrow> distinct (map fst (d_set env k x))" for env :: "(string \<times> string) list" and k x
    using distinct_d_set [of env k x] by (simp add: d_keys_def)
  have "keeps (saved_from p) (env_update (path_add_env B path True True))" for path
  proof (rule keepsI)
    fix q q' r assume a: "saved_from p q" "env_update (path_add_env B path True True) q = (q', r)"
    show "saved_from p q'"
    proof (cases "path_add_env B path True True (pf_env q)")
      case (Inl e)
      then show ?thesis using a by (simp add: env_update_def)
    next
      case (Inr env)
      then have "q' = q\<lparr>pf_env := env\<rparr>" using a(2) by (simp add: env_update_def)
      then show ?thesis using a(1) path_add_kept [OF Inr] d unfolding saved_from_def P_def [symmetric] by auto
    qed
  qed
  then show ?thesis unfolding add_system_paths_def by (intro keeps_rules keeps_basic)
qed

text \<open>C16: A profile is read back as it was saved: when saving a profile returns, loading its file gives every variable the same
  value in quotes and no other variable, and the same includes as far as they exist; of the variables that were there before saving
  only PATH may change. This is so for variables with a name of letters, digits and underscores and a value on one line in which
  nothing looks like an include (no \<^verbatim>\<open>source\<close> and no dot before a space), for includes without a newline or an equals sign, and
  when the shell that sources the file prints each value as it is written, without the quotes around it (it expands nothing).\<close>

theorem profile_roundtrip:
  assumes "distinct (map fst (pf_env p))" "profile_save B p = (q, Inr ())"
    and "list_all plain_var (pf_env q)" "list_all plain_incl (pf_includes q)"
    and "sh_printenv B (profile_text B (pf_env q) (pf_includes q)) = Inr out" "printed ev out (pf_env q)"
  shows "(\<exists>r. profile_load B q = (r, Inr ()) \<and> (\<forall>k. d_get (pf_env r) k = map_option quote (d_get (pf_env q) k))
      \<and> pf_includes r = filter (sh_exists B) (pf_includes q))
    \<and> pf_includes q = pf_includes p \<and> (\<forall>k. k \<noteq> ''PATH'' \<longrightarrow> d_get (pf_env q) k = d_get (pf_env p) k)"
proof -
  obtain q0 where q0: "add_system_paths B p = (q0, Inr ())" "q = q0\<lparr>pf_file := Some (profile_text B (pf_env q0) (pf_includes q0))\<rparr>"
    using assms(2) by (auto simp: profile_save_def ebind_eq_Inr split: if_splits)
  have "saved_from p p" using assms(1) by (simp add: saved_from_def)
  then have "saved_from p q0" by (rule keepsD [OF keeps_system_paths _ q0(1)])
  then have f: "saved_from p q" by (simp add: q0(2) saved_from_def)
  have content: "pf_file q = Some (profile_text B (pf_env q) (pf_includes q))" by (simp add: q0(2))
  note rd = text_read [OF assms(3,4)] and pv = printed_vars [OF assms(6)]
  have dq: "distinct (map fst (pf_env q))" using f by (simp add: saved_from_def)
  have get: "d_get (map (\<lambda>(k, v). (k, quote v)) (filter (\<lambda>(k, v). d_has env k) ev)) k
      = (if d_has env k then map_option quote (d_get ev k) else None)" for env k
    by (induction ev) auto
  have "d_get (map (\<lambda>(k, v). (k, quote v)) (filter (\<lambda>(k, v). d_has (pf_env q) k) ev)) k = map_option quote (d_get (pf_env q) k)" for k
    using assms(6) d_get_Some_mem [of "pf_env q" k] unfolding get by (force simp: printed_def list_all_iff quote_bare)
  note vars = this
  define r where "r = q\<lparr>pf_env := map (\<lambda>(k, v). (k, quote v)) (filter (\<lambda>(k, v). d_has (pf_env q) k) ev),
    pf_includes := filter (sh_exists B) (pf_includes q)\<rparr>"
  have "profile_load B q = (r, Inr ())" by (simp add: r_def profile_load_def content assms(5) rd [OF dq] pv)
  moreover have "\<forall>k. d_get (pf_env r) k = map_option quote (d_get (pf_env q) k)" using vars by (simp add: r_def)
  moreover have "pf_includes r = filter (sh_exists B) (pf_includes q)" by (simp add: r_def)
  ultimately show ?thesis using f unfolding saved_from_def by blast
qed

definition demo_shell :: shell where
  \<comment> \<open>it prints the variables of the file without their quotes\<close>
  "demo_shell = \<lparr>sh_printenv = (\<lambda>text. Inr (unlines (map (\<lambda>(k, v). k @ ''='' @ bare v) (env_vars_find text)))),
     sh_exists = (\<lambda>f. f \<in> {''/bin'', ''/opt/x.sh''}), sh_here = (\<lambda>f. f \<in> {''/bin'', ''/opt/x.sh''}), sh_replace = (\<lambda>t. t)\<rparr>"

definition demo_profile :: profile where
  "demo_profile = \<lparr>pf_path = ''/root/.profile_js'', pf_env = [(''PATH'', ''/a:/b''), (''LANG'', quote ''C.UTF-8'')],
     pf_includes = [''/opt/x.sh'', ''/opt/y.sh''], pf_file = None\<rparr>"

theorem profile_roundtrip_witness:
  "\<exists>q r. profile_save demo_shell demo_profile = (q, Inr ()) \<and> profile_load demo_shell q = (r, Inr ())
     \<and> d_get (pf_env r) ''PATH'' = Some (quote ''/a:/b:/bin'') \<and> pf_includes r = [''/opt/x.sh'']"
proof -
  define env where "env = [(''PATH'', ''/a:/b:/bin''), (''LANG'', quote ''C.UTF-8'')]"
  define q where "q = demo_profile\<lparr>pf_env := env, pf_file := Some (profile_text demo_shell env [''/opt/x.sh'', ''/opt/y.sh''])\<rparr>"
  have s: "profile_save demo_shell demo_profile = (q, Inr ())" unfolding q_def env_def by code_simp
  have qe: "pf_env q = env" "pf_includes q = [''/opt/x.sh'', ''/opt/y.sh'']" by (simp_all add: q_def demo_profile_def)
  have d: "distinct (map fst (pf_env demo_profile))" by code_simp
  have v: "list_all plain_var env" "list_all plain_incl [''/opt/x.sh'', ''/opt/y.sh'']" unfolding env_def by code_simp+
  define ev where "ev = [(''PATH'', ''/a:/b:/bin''), (''LANG'', ''C.UTF-8'')]"
  define out where "out = unlines (map (\<lambda>(k, v). k @ ''='' @ v) ev)"
  have o: "sh_printenv demo_shell (profile_text demo_shell env [''/opt/x.sh'', ''/opt/y.sh'']) = Inr out"
    unfolding env_def out_def ev_def by code_simp
  have pr: "printed ev out env" unfolding out_def ev_def env_def by code_simp
  have g: "d_get env ''PATH'' = Some ''/a:/b:/bin''" "filter (sh_exists demo_shell) [''/opt/x.sh'', ''/opt/y.sh''] = [''/opt/x.sh'']"
    unfolding env_def by code_simp+
  from profile_roundtrip [OF d s v [folded qe] o [folded qe] pr [folded qe(1)]]
  obtain r where "profile_load demo_shell q = (r, Inr ())" "\<forall>k. d_get (pf_env r) k = map_option quote (d_get (pf_env q) k)"
    "pf_includes r = filter (sh_exists demo_shell) (pf_includes q)" by blast
  then show ?thesis using s unfolding qe g(2) by (intro exI [of _ q] exI [of _ r]) (simp add: g(1))
qed

section \<open>Parts\<close>

lemma nub_facts: "distinct (nub xs) \<and> set (nub xs) = set xs"
proof -
  have "distinct items \<Longrightarrow> distinct (foldl (\<lambda>items i. if i \<in> set items then items else items @ [i]) items xs)
      \<and> set (foldl (\<lambda>items i. if i \<in> set items then items else items @ [i]) items xs) = set items \<union> set xs" for items
    by (induction xs arbitrary: items) auto
  from this [of "[]"] show ?thesis by (simp add: nub_def)
qed

text \<open>A part that is put is there once, at the side that was asked for, and no other part is lost or doubled.\<close>

lemma parts_put_facts:
  assumes "strip v = v" "\<not> qt \<or> CHR '' '' \<notin> set v"
  shows "distinct (parts_put items v atend qt)" "set (parts_put items v atend qt) = insert v (set items)"
    "(if atend then last (parts_put items v atend qt) else hd (parts_put items v atend qt)) = v"
  using nub_facts [of items] assms by (auto simp: parts_put_def Let_def distinct_remove1 set_remove1_eq)

definition part_ok :: "char \<Rightarrow> string \<Rightarrow> bool" where
  "part_ok sep i = (i \<noteq> [] \<and> sep \<notin> set i \<and> stripped is_space i \<and> hd i \<notin> {dquote, CHR 0x27} \<and> last i \<notin> {dquote, CHR 0x27})"

lemma unq_id: "stripped is_space v \<Longrightarrow> v = [] \<or> hd v \<notin> {dquote, CHR 0x27} \<and> last v \<notin> {dquote, CHR 0x27} \<Longrightarrow> unq v = v"
proof -
  assume v: "stripped is_space v" "v = [] \<or> hd v \<notin> {dquote, CHR 0x27} \<and> last v \<notin> {dquote, CHR 0x27}"
  then have "stripped (\<lambda>c. c \<in> set [CHR 0x27]) v" "stripped (\<lambda>c. c \<in> set [dquote]) v" by (auto simp: stripped_def)
  then show ?thesis using v(1) by (simp only: unq_def strip_by_id)
qed

lemma join_parts:
  assumes "list_all (part_ok sep) items" "items \<noteq> []" "\<not> is_space sep" "sep \<notin> {dquote, CHR 0x27}"
  shows "strip_chars [sep] (join [sep] items) = join [sep] items" "unq (join [sep] items) = join [sep] items"
    "line_parts sep (join [sep] items) = items"
proof -
  have ok: "part_ok sep (hd items)" "part_ok sep (last items)" using assms(1,2) by (auto simp: list_all_iff)
  have ends: "hd (join [sep] items) = hd (hd items)" "last (join [sep] items) = last (last items)" "join [sep] items \<noteq> []"
    using hd_join [OF assms(2)] last_join [OF assms(2)] ok by (auto simp: part_ok_def)
  have n: "hd (hd items) \<noteq> sep" "last (last items) \<noteq> sep" using ok by (auto simp: part_ok_def dest: hd_in_set last_in_set)
  show "strip_chars [sep] (join [sep] items) = join [sep] items" using ends n by (intro strip_by_id) (simp add: stripped_def)
  show "unq (join [sep] items) = join [sep] items"
    using ends ok by (intro unq_id) (auto simp: stripped_def part_ok_def)
  have "split_char sep (join [sep] items) = items" using assms(1,2) by (intro split_join) (auto simp: list_all_iff part_ok_def)
  moreover have "map unq items = items" using assms(1) unq_id by (intro map_idI) (auto simp: list_all_iff part_ok_def)
  ultimately show "line_parts sep (join [sep] items) = items" by (simp add: line_parts_def)
qed

lemma set_part_parts:
  assumes "d_get env key = Some (join [sep] items)" "list_all (part_ok sep) items" "items \<noteq> []" "part_value v0 = Inr v" "part_ok sep v"
    and "sep = CHR '':'' \<and> CHR '';'' \<notin> set (join [sep] items) \<or> sep = CHR '';'' \<and> CHR '':'' \<notin> set (join [sep] items)"
    and "\<not> qt \<or> CHR '' '' \<notin> set v"
  shows "\<exists>line. set_part env key v0 atend qt sep = Inr (d_set env key line) \<and> line_parts sep line = parts_put items v atend qt"
proof -
  have sep: "\<not> is_space sep" "sep \<notin> {dquote, CHR 0x27}" using assms(6) by (auto simp: is_space_def ccode_def dquote_def)
  note j = join_parts [OF assms(2,3) sep]
  have v: "strip v = v" using assms(5) by (simp add: part_ok_def strip_by_id)
  have "set (parts_put items v atend qt) = insert v (set items)" by (rule parts_put_facts(2) [OF v assms(7)])
  then have ok: "list_all (part_ok sep) (parts_put items v atend qt)" "parts_put items v atend qt \<noteq> []"
    using assms(2,5) by (auto simp: list_all_iff)
  note k = join_parts [OF ok sep]
  have "set_part env key v0 atend qt sep = Inr (d_set env key (join [sep] (parts_put items v atend qt)))"
    using assms(1,4,6) j k by (auto simp: set_part_def Let_def)
  then show ?thesis using k(3) by blast
qed

section \<open>Where the file or its parts are read differently\<close>

text \<open>A dot with a space in the value of a variable is taken for an include.\<close>

lemma value_read_as_include: "includes_find (unlines [''export MSG=\"Hello. World\"'']) = [''World\"'']"
  by code_simp

text \<open>After loading, values are in quotes, which the parts keep: the first and the last part of PATH are not found.\<close>

lemma loaded_parts_have_quotes:
  "env_get_parts [(''PATH'', quote ''/a:/b:/c'')] ''PATH'' = [dquote # ''/a'', ''/b'', ''/c'' @ [dquote]]
   \<and> \<not> env_exists_part [(''PATH'', quote ''/a:/b:/c'')] ''PATH'' ''/a''"
  by code_simp

text \<open>The first part of a new variable is not put in quotes, whatever was asked.\<close>

lemma first_part_unquoted: "set_part [] ''PATH'' ''/my files'' True True (CHR '':'') = Inr [(''PATH'', ''/my files'')]"
  by code_simp

text \<open>A directory of the system that is put first is moved to the end when the profile is saved.\<close>

lemma system_path_moved:
  "d_get (pf_env (fst (path_add demo_shell ''/bin'' False True True demo_profile))) ''PATH'' = Some ''/a:/b:/bin''"
  by code_simp

text \<open>Only one side of the check for the environment file is made lower case: with a capital letter in the base directory the
  file is overwritten.\<close>

lemma env_file_overwritten:
  "pf_file (fst (profile_save (demo_shell\<lparr>sh_replace := replace_str ''{DIR_BASE}'' ''/Sandbox''\<rparr>)
      (demo_profile\<lparr>pf_path := ''{DIR_BASE}/env.sh''\<rparr>))) \<noteq> None
   \<and> snd (profile_save (demo_shell\<lparr>sh_replace := replace_str ''{DIR_BASE}'' ''/sandbox''\<rparr>)
      (demo_profile\<lparr>pf_path := ''{DIR_BASE}/env.sh''\<rparr>)) = Inl E_JSBUG"
  by code_simp

text \<open>Two rounds do not shorten long runs of slashes.\<close>

lemma slashes_left: "path_clean ''/////////a'' = ''///a''"
  by code_simp

text \<open>The name of a variable that begins another one is replaced inside it.\<close>

lemma names_replaced_inside: "profile_replace (demo_profile\<lparr>pf_env := [(''A'', ''1''), (''AB'', ''2'')]\<rparr>) [CHR 0x24, CHR ''A'', CHR ''B''] = ''1B''"
  by code_simp

text \<open>What the check asks for are values without quotes, and loading puts every value in quotes: after loading it always fixes.\<close>

lemma loaded_locale_unknown: "quote v \<noteq> ''C.UTF-8'' \<and> quote v \<noteq> ''en_US.UTF-8''"
  by (simp add: quote_def dquote_def)

end
