(* ===== verification/Spec2Isabelle.thy ===== *)
theory Spec2Isabelle
  imports TypesPrim TimeData TypesAdv TypesColl TypesReg RDB SqliteStore ZDB SchemaText SchemaMeta Stores JSXData BCDBModel Jobs ACL Database Shamir Mnemonic Gun
    Config EnvState Nodes Logs GitUrl CoreText Alerts CacheData Resp RedisSrv Configs Numeric ModelSpec Gedis Profile
begin

text \<open>
  JumpscaleX is a Python framework for running machines and services: it keeps typed configuration and application objects in
  its own object database (BCDB) and builds clients, servers and an installer on top of it. This library models the parts in
  which the program decides something itself, definition by definition after the source, and proves what they promise.

  \<^bold>\<open>How the parts fit together.\<close> A value enters through a type (\<^verbatim>\<open>data/types\<close>), which cleans it, checks it and writes it as text
  or bytes. A schema (\<^verbatim>\<open>data/schema\<close>) is a text that names the properties of an object and their types; it is cut out of a
  larger text, brought to a canonical form, identified by an md5 and registered with its history. A model
  (\<^verbatim>\<open>data/bcdb/BCDBModel.py\<close>) holds the objects of one schema: their bytes (\<^verbatim>\<open>data/serializers\<close>) go to one of three storage
  clients (\<^verbatim>\<open>clients/stor_*\<close>) and some of their properties to an index table. A database (\<^verbatim>\<open>data/bcdb/BCDB.py\<close>) is a set of
  models over one storage client. Access control lists, the job server and the gun server are programs over such objects. The
  installer (\<^verbatim>\<open>install/threesdk/InstallTools.py\<close>) stands beside this with its own files, containers and logs.

  \<^bold>\<open>Runtime.\<close> \<open>Prelude\<close>: exceptions as values (\<open>E_*\<close> are \<^verbatim>\<open>j.exceptions\<close>, \<open>P_*\<close> those of Python), results that are an exception or a
  value, dictionaries as association lists in insertion order. \<open>Effects\<close>: methods that change an object and may raise, as functions
  from a state to the state and the result. \<open>PyStr\<close>, \<open>PyVal\<close>, \<open>Regex\<close>, \<open>Bin\<close>: the parts of the Python runtime that the code calls
  (strings, values and their printed form, full regular matches, packed integers). \<open>FloatFacts\<close>: floats are exact below \<open>2 ^ 53\<close>, with the
  rounding of the quotient written out; every property that rests on it has the bound in its statement.

  \<^bold>\<open>Types.\<close> \<open>TypesPrim\<close> (\<^verbatim>\<open>PrimitiveTypes.py\<close>, \<^verbatim>\<open>TypeBaseClasses.py\<close>), \<open>TypesAdv\<close> (\<^verbatim>\<open>AdvTypes.py\<close>), \<open>TypesColl\<close> (\<^verbatim>\<open>CollectionTypes.py\<close>,
  \<^verbatim>\<open>Enumeration.py\<close>), \<open>TypesReg\<close> (\<^verbatim>\<open>List.py\<close>, \<^verbatim>\<open>IPAddress.py\<close>, \<^verbatim>\<open>Types.py\<close>), \<open>TimeData\<close> (\<^verbatim>\<open>data/time\<close>): \<open>clean\<close>, \<open>check\<close> and the written forms of every
  type, on every branch. The lemmas show that cleaned values pass the check and are fixed, and that written values are read back.
  \<open>Numeric\<close> is the type of amounts of money: texts with multipliers, percentages and currencies, over the table of codes in
  \<open>Currencies\<close> and the eight bytes of a double in \<open>Doubles\<close>; for every plain amount in every currency of the table its value and the
  return of its written form are shown, and the lemmas at its end are texts that are read differently from how they look.

  \<^bold>\<open>Schemas.\<close> \<open>SchemaText\<close> (\<^verbatim>\<open>SchemaFactory.py\<close>, \<^verbatim>\<open>Schema.py\<close>, \<^verbatim>\<open>SchemaProperty.py\<close>, \<^verbatim>\<open>JumpscaleInstallLib/Tools.py\<close>): cutting, rewriting and
  reading a schema. \<open>SchemaMeta\<close> (\<^verbatim>\<open>SchemaMeta.py\<close>, \<^verbatim>\<open>SchemaFactory.py\<close>): the registry with its file, and the schemas in memory, with the
  invariants of both. The md5 is a parameter; where two texts must not collide this is a hypothesis.

  \<^bold>\<open>Stores.\<close> \<open>KVStore\<close> states the contract of a storage client as a locale (what is read after a write, what iterating lists);
  \<open>RDB\<close>, \<open>SqliteStore\<close> and \<open>ZDB\<close> model the clients over servers that are parameters with the laws of their commands, and interpret the locale;
  \<open>Stores\<close> is the choice between them that a database makes. The page scan of \<open>ZDB\<close> is a \<open>partial_function\<close>, and is shown to return
  whenever the pages of the server end.

  \<^bold>\<open>Objects.\<close> \<open>JSXData\<close> (\<^verbatim>\<open>SerializerJSXObject.py\<close>), \<open>BCDBModel\<close> (\<^verbatim>\<open>BCDBModel.py\<close>, \<^verbatim>\<open>BCDBIndexMeta.py\<close>, \<^verbatim>\<open>JSXObjectRoot.py\<close>), \<open>Database\<close> (\<^verbatim>\<open>BCDB.py\<close>),
  \<open>ACL\<close> (\<^verbatim>\<open>models_system/ACL.py\<close>): reading, writing, deleting, finding and indexing of objects. The index has exactly the rows of the
  stored objects after a rebuild and unique values stay unique. The index table is an argument with the laws of sqlite, one of them how it
  compares the values of a column (\<open>x_eq\<close>, where NULL is equal to nothing). \<open>ModelSpec\<close> is the abstract specification of a model: a finite map
  from ids to data with four operations, and a simulation that takes every sequence of answered saves, reads, deletes and searches of
  the model with its bytes, its store and its index to the same answers of the map; a save that the index refuses is not answered, it
  leaves a record behind (\<open>set_conflict_orphan\<close>). \<open>Configs\<close> (\<^verbatim>\<open>core/BASECLASSES\<close>) are collections of
  named configuration objects over such a model, with their cache of children; deleting follows the code through the second save and
  delete of a self-saving object. The loop over circles in \<open>ACL\<close> has no bound in the code and takes a number of steps in
  the model, with None when they do not suffice: its termination property shows that for every finite set of circles, cyclic or not,
  there is a number with which it returns, and every other property speaks of runs that returned.

  \<^bold>\<open>Programs over the objects.\<close> \<open>Jobs\<close> (\<^verbatim>\<open>servers/myjobs\<close>): jobs, workers and the queue as an inductive step relation, with clients that
  load, check, save and start jobs again; safety by rule induction over every interleaving, and progress of a worker that runs alone. \<open>Gun\<close> (\<^verbatim>\<open>servers/gundb\<close>): the graph and its conflict
  resolution. \<open>Shamir\<close> and \<open>Mnemonic\<close> (\<^verbatim>\<open>data/encryption\<close>): shares of a secret over a prime field, and phrases of words. \<open>CoreText\<close>
  (\<^verbatim>\<open>core/Text.py\<close>): text helpers. \<open>Profile\<close> (\<^verbatim>\<open>tools/bash/Profile.py\<close>): the variables and includes of a shell profile, with the file
  they are written to and read from. \<open>Alerts\<close> (\<^verbatim>\<open>tools/alerthandler\<close>) and \<open>CacheData\<close> (\<^verbatim>\<open>core/cache\<close>): alerts with their counts, read back as the
  cleaning of their texts gives them, and values kept with an expiry and retries. \<open>Resp\<close> and \<open>RedisSrv\<close> (\<^verbatim>\<open>data/bcdb/connectors/redis\<close>): the reply writer, whose replies are shown to be
  read back by the protocol, and the redis front that turns keys into models and objects. \<open>GedisCmds\<close> and \<open>Gedis\<close> (\<^verbatim>\<open>servers/gedis\<close>)
  are the server of commands: how the methods of an actor are read from their source, and how requests of many connections are
  handled while actors are loaded and taken out. The cache of its handler is shown to be invisible, by a relation between computations
  with and without it, as long as no actor changes after it was first asked for; who may run what is decided by the session alone.

  \<^bold>\<open>Installer.\<close> All in \<^verbatim>\<open>install/threesdk/InstallTools.py\<close>: \<open>Config\<close> (configuration files), \<open>EnvState\<close> (the environment, its defaults and
  its record of finished steps, shown to refine a set of names), \<open>Nodes\<close> (containers, ports, executors, the registry of clients and
  their networks), \<open>Logs\<close> (the log handler and the masking of secrets), \<open>GitUrl\<close> (addresses of repositories).

  \<^bold>\<open>Parameters.\<close> Everything outside the sources is an argument: hash functions, encryption, capnp and msgpack encodings, servers (redis,
  sqlite, 0-db), clocks, random numbers, the file system. Their documented laws are named hypotheses, and each property
  that has one comes with a witness that instantiates it with a concrete function.

  \<^bold>\<open>Not modelled.\<close> Code that only moves data between processes or prints it: sockets and greenlets of the servers, remote
  executors, calls of git, docker, tmux and package managers, the shell and the documentation generator, code rendered from
  templates, and the two vendored copies of peewee, which are a sixth of all lines. Formatting of calendar dates and capnp or
  jinja2 themselves are libraries. The manifest names each of these parts with its reason.
\<close>

end
